(* ===== verification/Prelude.thy ===== *)
theory Prelude
  imports Main "HOL-Library.Word" "HOL-Library.AList" "HOL-Library.Char_ord"
    "HOL-Library.List_Lexorder" "HOL-Library.Multiset"
begin

text \<open>
  What every component of the development shares: the Go values that are not strings (times,
  durations, 64-bit integers), results with an error, stable sorting by a comparison function
  (\<^verbatim>\<open>sort.SliceStable\<close>), Go maps kept as association lists, and the interface of a first-fit
  allocator, which the port blocks, the fleet subnets, the tunnel addresses and the replica
  indexes all implement. Go's string functions are in the theory \<open>GoStrings\<close>.

  Conventions of the whole development:
  \<^item> a Go \<^verbatim>\<open>(T, error)\<close> result is a value of \<open>'e + 't\<close>, \<open>Inl\<close> the error. The error types are
    datatypes with one constructor per \<^verbatim>\<open>return ..., err\<close> of the source, carrying the values the
    message prints; the message's wording is not modelled;
  \<^item> a \<^verbatim>\<open>time.Time\<close> is the number of nanoseconds since the zero time, so that \<^verbatim>\<open>IsZero\<close> is
    equality with 0, and a \<^verbatim>\<open>time.Duration\<close> is a number of nanoseconds;
  \<^item> a Go \<^verbatim>\<open>int\<close> that counts things or names a port is an \<open>int\<close>; where 64-bit arithmetic on
    unchecked values could wrap, the wrap-around is written out with \<open>wrap64\<close>.
\<close>

section \<open>Times and integers\<close>

type_synonym gtime = int
type_synonym duration = int

abbreviation is_zero :: "gtime \<Rightarrow> bool" where
  "is_zero t \<equiv> t = 0"

abbreviation second :: duration where
  "second \<equiv> 1000000000"

definition maxInt64 :: int where
  "maxInt64 = 9223372036854775807"

definition minInt64 :: int where
  "minInt64 = - 9223372036854775808"

text \<open>\<^verbatim>\<open>t.Sub(u)\<close> saturates at the range of a \<^verbatim>\<open>time.Duration\<close>.\<close>

definition time_sub :: "gtime \<Rightarrow> gtime \<Rightarrow> duration" where
  "time_sub t u = max minInt64 (min maxInt64 (t - u))"

lemma time_sub_le: "d < maxInt64 \<Longrightarrow> minInt64 \<le> d \<Longrightarrow> time_sub t u \<le> d \<longleftrightarrow> t - u \<le> d"
  by (auto simp: time_sub_def)

lemma time_sub_less: "d \<le> maxInt64 \<Longrightarrow> minInt64 < d \<Longrightarrow> time_sub t u < d \<longleftrightarrow> t - u < d"
  by (auto simp: time_sub_def)

text \<open>The result of a 64-bit signed operation whose exact value is \<open>n\<close>.\<close>

definition wrap64 :: "int \<Rightarrow> int" where
  "wrap64 n = (n - minInt64) mod 18446744073709551616 + minInt64"

lemma wrap64_id [simp]: "minInt64 \<le> n \<Longrightarrow> n \<le> maxInt64 \<Longrightarrow> wrap64 n = n"
  by (simp add: wrap64_def minInt64_def maxInt64_def)

lemma wrap64_range: "minInt64 \<le> wrap64 n" "wrap64 n \<le> maxInt64"
proof -
  have "0 \<le> (n - minInt64) mod 18446744073709551616"
    and "(n - minInt64) mod 18446744073709551616 < 18446744073709551616"
    by simp_all
  then show "minInt64 \<le> wrap64 n" "wrap64 n \<le> maxInt64"
    by (simp_all add: wrap64_def minInt64_def maxInt64_def)
qed

section \<open>Results\<close>

named_theorems result_simps \<open>rules for chaining Go results\<close>

definition bind_result :: "'e + 'a \<Rightarrow> ('a \<Rightarrow> 'e + 'b) \<Rightarrow> 'e + 'b" where
  "bind_result r f = (case r of Inl e \<Rightarrow> Inl e | Inr x \<Rightarrow> f x)"

lemma bind_result_simps [simp, result_simps]:
  "bind_result (Inl e) f = Inl e" "bind_result (Inr x) f = f x"
  by (simp_all add: bind_result_def)

lemma bind_result_Inr [result_simps]:
  "bind_result r f = Inr y \<longleftrightarrow> (\<exists>x. r = Inr x \<and> f x = Inr y)"
  by (cases r) auto

text \<open>A loop that appends the result of each element and stops at the first error.\<close>

fun map_result :: "('a \<Rightarrow> 'e + 'b) \<Rightarrow> 'a list \<Rightarrow> 'e + 'b list" where
  "map_result f [] = Inr []"
| "map_result f (x # xs) =
     bind_result (f x) (\<lambda>y. bind_result (map_result f xs) (\<lambda>ys. Inr (y # ys)))"

definition map_ok :: "('a \<Rightarrow> 'b) \<Rightarrow> 'e + 'a \<Rightarrow> 'e + 'b" where
  "map_ok f r = (case r of Inl e \<Rightarrow> Inl e | Inr x \<Rightarrow> Inr (f x))"

lemma map_ok_simps [simp]: "map_ok f (Inl e) = Inl e" "map_ok f (Inr x) = Inr (f x)"
  by (simp_all add: map_ok_def)

lemma map_ok_Inr: "map_ok f r = Inr y \<longleftrightarrow> (\<exists>x. r = Inr x \<and> y = f x)"
  by (cases r) auto

lemma map_result_Inr:
  "map_result f xs = Inr ys \<longleftrightarrow> list_all2 (\<lambda>x y. f x = Inr y) xs ys"
  by (induction xs arbitrary: ys) (auto simp: bind_result_Inr list_all2_Cons1)

text \<open>A loop of checks that stops at the first error.\<close>

fun each_ok :: "('a \<Rightarrow> 'e + unit) \<Rightarrow> 'a list \<Rightarrow> 'e + unit" where
  "each_ok f [] = Inr ()"
| "each_ok f (x # xs) = bind_result (f x) (\<lambda>_. each_ok f xs)"

lemma each_ok_Inr [result_simps]: "each_ok f xs = Inr u \<longleftrightarrow> (\<forall>x \<in> set xs. f x = Inr ())"
  by (induction xs) (auto simp: bind_result_Inr)

text \<open>A loop that changes a value and stops at the first error.\<close>

fun fold_result :: "('a \<Rightarrow> 's \<Rightarrow> 'e + 's) \<Rightarrow> 'a list \<Rightarrow> 's \<Rightarrow> 'e + 's" where
  "fold_result f [] s = Inr s"
| "fold_result f (x # xs) s = bind_result (f x s) (fold_result f xs)"

lemma fold_result_invariant:
  "fold_result f xs s = Inr s' \<Longrightarrow> P s \<Longrightarrow> (\<And>x s t. x \<in> set xs \<Longrightarrow> f x s = Inr t \<Longrightarrow> P s \<Longrightarrow> P t) \<Longrightarrow> P s'"
  by (induction xs arbitrary: s) (auto simp: bind_result_Inr)

lemma list_all2_map_iff: "list_all2 (\<lambda>x y. P x \<and> y = f x) xs ys \<longleftrightarrow> (\<forall>x \<in> set xs. P x) \<and> ys = map f xs"
  by (induction xs arbitrary: ys) (auto simp: list_all2_Cons1)

section \<open>Stable sorting\<close>

fun insert_by :: "('a \<Rightarrow> 'a \<Rightarrow> bool) \<Rightarrow> 'a \<Rightarrow> 'a list \<Rightarrow> 'a list" where
  "insert_by lt x [] = [x]"
| "insert_by lt x (y # ys) = (if lt y x then y # insert_by lt x ys else x # y # ys)"

definition stable_sort :: "('a \<Rightarrow> 'a \<Rightarrow> bool) \<Rightarrow> 'a list \<Rightarrow> 'a list" where
  "stable_sort lt xs = foldr (insert_by lt) xs []"

lemma mset_insert_by [simp]: "mset (insert_by lt x xs) = add_mset x (mset xs)"
  by (induction xs) auto

lemma mset_stable_sort [simp]: "mset (stable_sort lt xs) = mset xs"
  by (induction xs) (auto simp: stable_sort_def)

lemma set_stable_sort [simp]: "set (stable_sort lt xs) = set xs"
  using mset_stable_sort[of lt xs] by (metis set_mset_mset)

lemma length_stable_sort [simp]: "length (stable_sort lt xs) = length xs"
  using mset_stable_sort[of lt xs] by (metis size_mset)

lemma distinct_map_stable_sort [simp]:
  "distinct (map f (stable_sort lt xs)) = distinct (map f xs)"
proof -
  have "mset (map f (stable_sort lt xs)) = mset (map f xs)" by simp
  then show ?thesis by (rule mset_eq_imp_distinct_iff)
qed

lemma stable_sort_Nil [simp]: "stable_sort lt [] = []"
  by (simp add: stable_sort_def)

lemma stable_sort_eq_Nil [simp]: "stable_sort lt xs = [] \<longleftrightarrow> xs = []"
  using length_stable_sort[of lt xs] by (auto simp del: length_stable_sort)

lemma sort_key_map_commute:
  assumes "\<And>x. k (f x) = (k x :: 'k :: linorder)"
  shows "sort_key k (map f xs) = map f (sort_key k xs)"
proof -
  have "insort_key k (f x) (map f xs) = map f (insort_key k x xs)" for x xs
    by (induction xs) (auto simp: assms)
  then show ?thesis by (induction xs) auto
qed

text \<open>Sorting the images of a list that is sorted by the same key changes nothing.\<close>

lemma sort_key_map_of:
  assumes "\<And>x. k (f x) = (j x :: 'k :: linorder)"
  shows "sort_key k (map f (sort_key j xs)) = map f (sort_key j xs)"
proof -
  have "sorted (map k (map f (sort_key j xs)))" by (simp add: comp_def assms)
  then show ?thesis by (rule sort_key_id_if_sorted)
qed

text \<open>The comparison functions of the source are strict weak orders.\<close>

locale weak_order =
  fixes lt :: "'a \<Rightarrow> 'a \<Rightarrow> bool"
  assumes asym: "lt a b \<Longrightarrow> \<not> lt b a"
    and neg_trans: "lt a c \<Longrightarrow> lt a b \<or> lt b c"
begin

lemma not_less_trans: "\<not> lt b a \<Longrightarrow> \<not> lt c b \<Longrightarrow> \<not> lt c a"
  using neg_trans by blast

lemma set_insert_by: "set (insert_by lt x xs) = insert x (set xs)"
  by (metis mset_insert_by set_mset_add_mset_insert set_mset_mset)

lemma sorted_insert_by:
  "sorted_wrt (\<lambda>a b. \<not> lt b a) xs \<Longrightarrow> sorted_wrt (\<lambda>a b. \<not> lt b a) (insert_by lt x xs)"
proof (induction xs)
  case Nil
  then show ?case by simp
next
  case (Cons y ys)
  then show ?case
    by (auto simp: set_insert_by dest: asym not_less_trans)
qed

lemma sorted_stable_sort: "sorted_wrt (\<lambda>a b. \<not> lt b a) (stable_sort lt xs)"
  by (induction xs) (auto simp: stable_sort_def intro: sorted_insert_by)

lemma hd_stable_sort_least:
  assumes "x \<in> set xs"
  shows "\<not> lt x (hd (stable_sort lt xs))"
proof -
  from assms have "x \<in> set (stable_sort lt xs)" by simp
  moreover obtain y ys where eq: "stable_sort lt xs = y # ys"
    using assms by (metis empty_iff list.set(1) neq_Nil_conv stable_sort_eq_Nil)
  ultimately show ?thesis
    using sorted_stable_sort[of xs] asym by (auto simp: eq)
qed

end

text \<open>Comparison of keys in a linear order, the most common comparison function.\<close>

interpretation key_order: weak_order "\<lambda>a b. (f a :: 'k :: linorder) < f b" for f
  by unfold_locales auto

interpretation lexicographic_order: weak_order
  "\<lambda>a b. f a < f b \<or> f a = f b \<and> (g a :: 'l :: linorder) < g b" for f :: "'a \<Rightarrow> 'k :: linorder" and g
  by unfold_locales auto

lemma sorted_stable_sort_key:
  "sorted (map f (stable_sort (\<lambda>a b. (f a :: 'k :: linorder) < f b) xs))"
  using key_order.sorted_stable_sort[of f xs] by (simp add: sorted_map not_less)

section \<open>First-fit allocation\<close>

text \<open>
  The contract several allocators of the program share: go through the candidates in order and
  take the first one that is not taken.
\<close>

locale first_fit =
  fixes cands :: "'s \<Rightarrow> 'a list"
    and taken :: "'s \<Rightarrow> 'a \<Rightarrow> bool"
    and alloc :: "'s \<Rightarrow> 'a option"
  assumes alloc_find: "alloc s = find (\<lambda>c. \<not> taken s c) (cands s)"
begin

lemma alloc_Some:
  assumes "alloc s = Some c"
  shows "c \<in> set (cands s)" and "\<not> taken s c"
  using assms by (auto simp: alloc_find find_Some_iff)

lemma alloc_least:
  assumes "alloc s = Some c"
  shows "\<exists>before after. cands s = before @ c # after \<and> (\<forall>b \<in> set before. taken s b)"
proof -
  from assms obtain i where i: "i < length (cands s)" "cands s ! i = c"
    and before: "\<And>j. j < i \<Longrightarrow> taken s (cands s ! j)"
    by (auto simp: alloc_find find_Some_iff)
  then have "cands s = take i (cands s) @ c # drop (Suc i) (cands s)"
    by (metis id_take_nth_drop)
  moreover have "\<forall>b \<in> set (take i (cands s)). taken s b"
    using before by (auto simp: set_conv_nth)
  ultimately show ?thesis by blast
qed

lemma alloc_None: "alloc s = None \<longleftrightarrow> (\<forall>c \<in> set (cands s). taken s c)"
  by (auto simp: alloc_find find_None_iff)

lemma alloc_total: "c \<in> set (cands s) \<Longrightarrow> \<not> taken s c \<Longrightarrow> \<exists>c'. alloc s = Some c'"
  using alloc_None by (metis option.exhaust)

lemma alloc_least_ordered:
  assumes "alloc s = Some c" and "sorted_wrt lt (cands s)" and "c' \<in> set (cands s)" and "\<not> taken s c'"
  shows "c' = c \<or> lt c c'"
proof -
  obtain before after where split: "cands s = before @ c # after" "\<forall>b \<in> set before. taken s b"
    using alloc_least[OF assms(1)] by blast
  then show ?thesis
    using assms(2-4) by (auto simp: sorted_wrt_append)
qed

end

section \<open>Events in order\<close>

lemma event_split:
  assumes "es1 @ es2 = pre @ y # post"
  obtains us where "es1 = pre @ y # us" | us where "pre = es1 @ us" "es2 = us @ y # post"
proof -
  obtain us where "es1 @ us = pre \<and> es2 = us @ y # post \<or> es1 = pre @ us \<and> us @ es2 = y # post"
    using assms by (auto simp: append_eq_append_conv2)
  then show thesis using that by (cases us) auto
qed

text \<open>In a sequence of two parts, an event of a kind the first part does not have comes after all of the first part.\<close>

lemma event_after:
  assumes "es1 @ es2 = pre @ y # post" "\<forall>x \<in> set es1. \<not> T x" "T y"
  shows "\<exists>pre'. pre = es1 @ pre' \<and> es2 = pre' @ y # post"
  using assms(1)
proof (cases rule: event_split)
  case (1 us)
  then show ?thesis using assms(2,3) by simp
qed (use assms in auto)

section \<open>Looking up by a key\<close>

lemma find_distinct_key:
  "distinct (map f xs) \<Longrightarrow> x \<in> set xs \<Longrightarrow> find (\<lambda>y. f y = f x) xs = Some x"
  by (induction xs) (auto simp: image_iff)

lemma find_absent_key: "k \<notin> f ` set xs \<Longrightarrow> find (\<lambda>x. f x = k) xs = None"
  by (auto simp: find_None_iff)

lemma find_snoc: "find P (xs @ [x]) = (case find P xs of None \<Rightarrow> if P x then Some x else None | Some y \<Rightarrow> Some y)"
  by (induction xs) auto

lemma find_append_Some: "find P xs = Some x \<Longrightarrow> find P (xs @ ys) = Some x"
  by (induction xs) (auto split: if_splits)

lemma find_replace_key:
  assumes "f y \<in> f ` set xs"
  shows "find (\<lambda>x. f x = k) (map (\<lambda>x. if f x = f y then y else x) xs) =
    (if k = f y then Some y else find (\<lambda>x. f x = k) xs)"
proof (cases "k = f y")
  case True
  have "f y \<in> f ` set xs \<Longrightarrow> find (\<lambda>x. f x = f y) (map (\<lambda>x. if f x = f y then y else x) xs) = Some y"
    by (induction xs) auto
  with True assms show ?thesis by simp
next
  case False
  then have "find (\<lambda>x. f x = k) (map (\<lambda>x. if f x = f y then y else x) xs) = find (\<lambda>x. f x = k) xs"
    by (induction xs) auto
  with False show ?thesis by simp
qed

text \<open>\<^verbatim>\<open>INSERT ... ON CONFLICT (key) DO UPDATE\<close> of every column: replace the row of the key, or add one.\<close>

definition upsert_by :: "('a \<Rightarrow> 'k) \<Rightarrow> 'a \<Rightarrow> 'a list \<Rightarrow> 'a list" where
  "upsert_by key y xs =
     (if key y \<in> key ` set xs then map (\<lambda>x. if key x = key y then y else x) xs else xs @ [y])"

lemma set_upsert_by: "set (upsert_by key y xs) = insert y {x \<in> set xs. key x \<noteq> key y}"
  by (auto simp: upsert_by_def image_iff)

lemma upsert_by_keys: "key ` set (upsert_by key y xs) = insert (key y) (key ` set xs)"
  by (auto simp: set_upsert_by)

lemma distinct_upsert_by: "distinct (map key xs) \<Longrightarrow> distinct (map key (upsert_by key y xs))"
proof -
  have "map key (map (\<lambda>x. if key x = key y then y else x) xs) = map key xs" by simp
  then have "distinct (map key (map (\<lambda>x. if key x = key y then y else x) xs))" if "distinct (map key xs)"
    using that by (simp only:)
  then show "distinct (map key xs) \<Longrightarrow> distinct (map key (upsert_by key y xs))" by (simp add: upsert_by_def)
qed

lemma find_upsert_by:
  "find (\<lambda>x. key x = k) (upsert_by key y xs) = (if k = key y then Some y else find (\<lambda>x. key x = k) xs)"
proof (cases "key y \<in> key ` set xs")
  case True
  then show ?thesis by (simp add: upsert_by_def find_replace_key)
next
  case False
  then show ?thesis by (auto simp: upsert_by_def find_snoc find_absent_key split: option.splits)
qed

section \<open>Go maps as association lists\<close>

text \<open>Filling a Go map from a list: the last entry of a key wins.\<close>

definition map_from :: "('a \<Rightarrow> 'k) \<Rightarrow> ('a \<Rightarrow> 'v) \<Rightarrow> 'a list \<Rightarrow> 'k \<rightharpoonup> 'v" where
  "map_from key val xs = map_of (rev (map (\<lambda>x. (key x, val x)) xs))"

lemma map_from_None [simp]: "map_from key val xs k = None \<longleftrightarrow> k \<notin> key ` set xs"
  by (force simp: map_from_def map_of_eq_None_iff)

lemma dom_map_from [simp]: "dom (map_from key val xs) = key ` set xs"
proof -
  have "k \<in> dom (map_from key val xs) \<longleftrightarrow> k \<in> key ` set xs" for k
    using map_from_None[of key val xs k] by (auto simp: domIff simp del: map_from_None)
  then show ?thesis by blast
qed

lemma map_from_Some_in: "map_from key val xs k = Some v \<Longrightarrow> \<exists>x \<in> set xs. key x = k \<and> val x = v"
  unfolding map_from_def by (drule map_of_SomeD) auto

lemma map_from_distinct:
  assumes "distinct (map key xs)" and "x \<in> set xs"
  shows "map_from key val xs (key x) = Some (val x)"
proof -
  have "(key x, val x) \<in> set (rev (map (\<lambda>x. (key x, val x)) xs))"
    using assms(2) by auto
  moreover have "distinct (map fst (rev (map (\<lambda>x. (key x, val x)) xs)))"
    using assms(1) by (simp add: comp_def rev_map[symmetric])
  ultimately show ?thesis
    unfolding map_from_def by (simp add: map_of_is_SomeI)
qed

end
