(* ===== verification/GoStrings.thy ===== *)
theory GoStrings
  imports Prelude
begin

text \<open>
  The functions of Go's \<^verbatim>\<open>strings\<close>, \<^verbatim>\<open>strconv\<close> and \<^verbatim>\<open>net\<close> packages the program calls, over
  \<open>string\<close> as the list of a Go string's bytes. \<open>TrimSpace\<close> trims every white space of
  \<^verbatim>\<open>unicode.IsSpace\<close>, the multi-byte ones by their UTF-8 encodings. \<open>ToLower\<close> maps the ASCII letters
  and leaves the other bytes alone: Unicode case mapping is not modelled.
\<close>

section \<open>Prefixes and suffixes\<close>

definition HasPrefix :: "string \<Rightarrow> string \<Rightarrow> bool" where
  "HasPrefix s p \<longleftrightarrow> take (length p) s = p"

definition HasSuffix :: "string \<Rightarrow> string \<Rightarrow> bool" where
  "HasSuffix s p \<longleftrightarrow> length p \<le> length s \<and> drop (length s - length p) s = p"

definition CutPrefix :: "string \<Rightarrow> string \<Rightarrow> string option" where
  "CutPrefix s p = (if HasPrefix s p then Some (drop (length p) s) else None)"

definition TrimPrefix :: "string \<Rightarrow> string \<Rightarrow> string" where
  "TrimPrefix s p = (if HasPrefix s p then drop (length p) s else s)"

definition TrimSuffix :: "string \<Rightarrow> string \<Rightarrow> string" where
  "TrimSuffix s p = (if HasSuffix s p then take (length s - length p) s else s)"

lemma HasPrefix_append [simp]: "HasPrefix (p @ s) p"
  by (simp add: HasPrefix_def)

lemma HasPrefix_iff: "HasPrefix s p \<longleftrightarrow> (\<exists>r. s = p @ r)"
  by (metis HasPrefix_append HasPrefix_def append_take_drop_id)

lemma HasSuffix_iff: "HasSuffix s p \<longleftrightarrow> (\<exists>r. s = r @ p)"
  by (auto simp: HasSuffix_def) (metis append_take_drop_id)

lemma CutPrefix_Some [simp]: "CutPrefix s p = Some r \<longleftrightarrow> s = p @ r"
  by (auto simp: CutPrefix_def HasPrefix_iff)

lemma CutPrefix_append [simp]: "CutPrefix (p @ r) p = Some r"
  by simp

section \<open>White space\<close>

definition space_encodings :: "string list" where
  "space_encodings =
     [[CHR 0x09], [CHR 0x0A], [CHR 0x0B], [CHR 0x0C], [CHR 0x0D], [CHR 0x20],
      [CHR 0xC2, CHR 0x85], [CHR 0xC2, CHR 0xA0], [CHR 0xE1, CHR 0x9A, CHR 0x80],
      [CHR 0xE2, CHR 0x80, CHR 0x80], [CHR 0xE2, CHR 0x80, CHR 0x81], [CHR 0xE2, CHR 0x80, CHR 0x82],
      [CHR 0xE2, CHR 0x80, CHR 0x83], [CHR 0xE2, CHR 0x80, CHR 0x84], [CHR 0xE2, CHR 0x80, CHR 0x85],
      [CHR 0xE2, CHR 0x80, CHR 0x86], [CHR 0xE2, CHR 0x80, CHR 0x87], [CHR 0xE2, CHR 0x80, CHR 0x88],
      [CHR 0xE2, CHR 0x80, CHR 0x89], [CHR 0xE2, CHR 0x80, CHR 0x8A], [CHR 0xE2, CHR 0x80, CHR 0xA8],
      [CHR 0xE2, CHR 0x80, CHR 0xA9], [CHR 0xE2, CHR 0x80, CHR 0xAF], [CHR 0xE2, CHR 0x81, CHR 0x9F],
      [CHR 0xE3, CHR 0x80, CHR 0x80]]"

text \<open>Dropping the encodings of a list from the front of a string.\<close>

function trim_left_of :: "string list \<Rightarrow> string \<Rightarrow> string" where
  "trim_left_of es s =
     (case find (\<lambda>e. e \<noteq> [] \<and> HasPrefix s e) es of
        None \<Rightarrow> s
      | Some e \<Rightarrow> trim_left_of es (drop (length e) s))"
  by pat_completeness auto
termination
proof (relation "measure (\<lambda>(es, s). length s)")
  fix es s e
  assume "find (\<lambda>e. e \<noteq> [] \<and> HasPrefix s e) es = Some e"
  then have "e \<noteq> []" and "HasPrefix s e" by (auto simp: find_Some_iff)
  then have "0 < length e" and "length e \<le> length s"
    by (auto simp: HasPrefix_iff)
  then show "((es, drop (length e) s), es, s) \<in> measure (\<lambda>(es, s). length s)"
    unfolding in_measure by (simp del: length_greater_0_conv)
qed simp

declare trim_left_of.simps [simp del]

definition TrimSpaceLeft :: "string \<Rightarrow> string" where
  "TrimSpaceLeft s = trim_left_of space_encodings s"

definition TrimSpaceRight :: "string \<Rightarrow> string" where
  "TrimSpaceRight s = rev (trim_left_of (map rev space_encodings) (rev s))"

definition TrimSpace :: "string \<Rightarrow> string" where
  "TrimSpace s = TrimSpaceRight (TrimSpaceLeft s)"

definition blank :: "string \<Rightarrow> bool" where
  "blank s \<longleftrightarrow> TrimSpace s = []"

lemma trim_left_of_None:
  "find (\<lambda>e. e \<noteq> [] \<and> HasPrefix s e) es = None \<Longrightarrow> trim_left_of es s = s"
  by (subst trim_left_of.simps) simp

lemma trim_left_of_Some:
  "find (\<lambda>e. e \<noteq> [] \<and> HasPrefix s e) es = Some e \<Longrightarrow>
   trim_left_of es s = trim_left_of es (drop (length e) s)"
  by (subst trim_left_of.simps) simp

lemma trim_left_of_id:
  "(\<forall>e \<in> set es. e \<noteq> [] \<longrightarrow> \<not> HasPrefix s e) \<Longrightarrow> trim_left_of es s = s"
  by (rule trim_left_of_None) (auto simp: find_None_iff)

lemma trim_left_of_Nil [simp]: "trim_left_of es [] = []"
  by (rule trim_left_of_id) (simp add: HasPrefix_def)

lemma trim_left_of_trimmed:
  "\<forall>e \<in> set es. e \<noteq> [] \<longrightarrow> \<not> HasPrefix (trim_left_of es s) e"
proof (induction es s rule: trim_left_of.induct)
  case (1 es s)
  then show ?case
    by (subst trim_left_of.simps) (auto simp: find_None_iff split: option.splits)
qed

lemma trim_left_of_suffix: "\<exists>p. s = p @ trim_left_of es s"
proof (induction es s rule: trim_left_of.induct)
  case (1 es s)
  show ?case
  proof (cases "find (\<lambda>e. e \<noteq> [] \<and> HasPrefix s e) es")
    case None
    then show ?thesis by (simp add: trim_left_of_None)
  next
    case (Some e)
    then obtain p where "drop (length e) s = p @ trim_left_of es (drop (length e) s)"
      using 1 by blast
    moreover have "s = e @ drop (length e) s"
      using Some by (auto simp: find_Some_iff HasPrefix_iff)
    ultimately have "s = (e @ p) @ trim_left_of es s"
      by (simp add: trim_left_of_Some[OF Some])
    then show ?thesis by blast
  qed
qed

text \<open>A string that neither starts nor ends with white space is not changed.\<close>

definition trimmed :: "string \<Rightarrow> bool" where
  "trimmed s \<longleftrightarrow> (\<forall>e \<in> set space_encodings. \<not> HasPrefix s e \<and> \<not> HasSuffix s e)"

lemma space_encodings_nonempty: "e \<in> set space_encodings \<Longrightarrow> e \<noteq> []"
  by (auto simp: space_encodings_def)

lemma HasPrefix_rev [simp]: "HasPrefix (rev s) (rev e) = HasSuffix s e"
  by (auto simp: HasPrefix_iff HasSuffix_iff) (metis rev_append rev_rev_ident)

lemma trimmed_ends:
  assumes "s \<noteq> []" "\<forall>e \<in> set space_encodings. hd s \<notin> set e"
    and "(\<forall>e \<in> set space_encodings. last s \<notin> set e)"
  shows "trimmed s"
  unfolding trimmed_def
proof (intro ballI conjI notI)
  fix e assume e: "e \<in> set space_encodings"
  then have ne: "e \<noteq> []" by (rule space_encodings_nonempty)
  show False if "HasPrefix s e"
  proof -
    from that obtain r where "s = e @ r" by (auto simp: HasPrefix_iff)
    then have "hd s \<in> set e" using ne by simp
    then show False using assms(2) e by blast
  qed
  show False if "HasSuffix s e"
  proof -
    from that obtain r where "s = r @ e" by (auto simp: HasSuffix_iff)
    then have "last s \<in> set e" using ne by simp
    then show False using assms(3) e by blast
  qed
qed

lemma TrimSpace_trimmed [simp]: "trimmed s \<Longrightarrow> TrimSpace s = s"
  by (auto simp: TrimSpace_def TrimSpaceLeft_def TrimSpaceRight_def trimmed_def
        trim_left_of_id space_encodings_nonempty)

lemma TrimSpace_Nil [simp]: "TrimSpace [] = []"
  by (simp add: TrimSpace_def TrimSpaceLeft_def TrimSpaceRight_def)

section \<open>Searching and splitting\<close>

fun IndexByte :: "string \<Rightarrow> char \<Rightarrow> nat option" where
  "IndexByte [] c = None"
| "IndexByte (x # xs) c = (if x = c then Some 0 else map_option Suc (IndexByte xs c))"

definition LastIndexByte :: "string \<Rightarrow> char \<Rightarrow> nat option" where
  "LastIndexByte s c = map_option (\<lambda>i. length s - 1 - i) (IndexByte (rev s) c)"

text \<open>\<^verbatim>\<open>strings.Cut\<close> at a one-byte separator.\<close>

fun Cut :: "string \<Rightarrow> char \<Rightarrow> (string \<times> string) option" where
  "Cut [] c = None"
| "Cut (x # xs) c =
     (if x = c then Some ([], xs) else map_option (\<lambda>(a, b). (x # a, b)) (Cut xs c))"

text \<open>\<^verbatim>\<open>strings.Split\<close> at a one-byte separator.\<close>

fun SplitByte :: "string \<Rightarrow> char \<Rightarrow> string list" where
  "SplitByte [] c = [[]]"
| "SplitByte (x # xs) c =
     (if x = c then [] # SplitByte xs c
      else (case SplitByte xs c of [] \<Rightarrow> [[x]] | w # ws \<Rightarrow> (x # w) # ws))"

definition Contains :: "string \<Rightarrow> string \<Rightarrow> bool" where
  "Contains s sub \<longleftrightarrow> list_ex (\<lambda>i. HasPrefix (drop i s) sub) [0..<Suc (length s)]"

definition ContainsAny :: "string \<Rightarrow> string \<Rightarrow> bool" where
  "ContainsAny s cs \<longleftrightarrow> (\<exists>c \<in> set s. c \<in> set cs)"

fun JoinWith :: "string list \<Rightarrow> string \<Rightarrow> string" where
  "JoinWith [] sep = []"
| "JoinWith [w] sep = w"
| "JoinWith (w # v # ws) sep = w @ sep @ JoinWith (v # ws) sep"

text \<open>\<^verbatim>\<open>strings.ReplaceAll\<close> of a one-byte string.\<close>

definition ReplaceByte :: "string \<Rightarrow> char \<Rightarrow> string \<Rightarrow> string" where
  "ReplaceByte s c r = concat (map (\<lambda>x. if x = c then r else [x]) s)"

lemma IndexByte_None [simp]: "IndexByte s c = None \<longleftrightarrow> c \<notin> set s"
  by (induction s) auto

lemma IndexByte_append: "c \<notin> set a \<Longrightarrow> IndexByte (a @ c # b) c = Some (length a)"
  by (induction a) auto

lemma IndexByte_Some: "IndexByte s c = Some i \<longleftrightarrow> (i < length s \<and> s ! i = c \<and> c \<notin> set (take i s))"
  by (induction s arbitrary: i) (auto simp: nth_Cons take_Cons' split: nat.splits)

lemma Cut_None [simp]: "Cut s c = None \<longleftrightarrow> c \<notin> set s"
  by (induction s) auto

lemma Cut_append [simp]: "c \<notin> set a \<Longrightarrow> Cut (a @ c # b) c = Some (a, b)"
  by (induction a) auto

lemma Cut_SomeD: "Cut s c = Some (a, b) \<Longrightarrow> s = a @ c # b \<and> c \<notin> set a"
  by (induction s arbitrary: a b) (auto split: if_splits)

lemma Cut_Some: "Cut s c = Some (a, b) \<longleftrightarrow> s = a @ c # b \<and> c \<notin> set a"
  using Cut_SomeD Cut_append by metis

lemma SplitByte_nonempty [simp]: "SplitByte s c \<noteq> []"
  by (cases s) (auto split: list.splits)

lemma SplitByte_no_sep: "c \<notin> set s \<Longrightarrow> SplitByte s c = [s]"
  by (induction s) auto

lemma SplitByte_append: "c \<notin> set a \<Longrightarrow> SplitByte (a @ c # b) c = a # SplitByte b c"
  by (induction a) auto

lemma Contains_simps [simp]:
  "Contains [] sub \<longleftrightarrow> sub = []"
  "Contains (x # xs) sub \<longleftrightarrow> HasPrefix (x # xs) sub \<or> Contains xs sub"
proof -
  show "Contains [] sub \<longleftrightarrow> sub = []" by (auto simp: Contains_def HasPrefix_def)
  have "[0..<Suc (length (x # xs))] = 0 # map Suc [0..<Suc (length xs)]"
    by (simp add: map_Suc_upt upt_conv_Cons del: upt_Suc)
  moreover have "list_ex P (map Suc is) \<longleftrightarrow> list_ex (\<lambda>i. P (Suc i)) is" for P "is"
    by (simp add: list_ex_iff)
  ultimately show "Contains (x # xs) sub \<longleftrightarrow> HasPrefix (x # xs) sub \<or> Contains xs sub"
    unfolding Contains_def by (simp del: upt_Suc)
qed

lemma SplitByte_Cons:
  obtains w ws where "SplitByte s c = w # ws"
  using SplitByte_nonempty[of s c] by (cases "SplitByte s c") auto

lemma JoinWith_Cons: "ws \<noteq> [] \<Longrightarrow> JoinWith (w # ws) sep = w @ sep @ JoinWith ws sep"
  by (cases ws) auto

lemma JoinWith_SplitByte: "JoinWith (SplitByte s c) [c] = s"
proof (induction s)
  case (Cons x s)
  obtain w ws where split: "SplitByte s c = w # ws" by (rule SplitByte_Cons)
  show ?case using Cons by (cases ws) (auto simp: split)
qed simp

lemma SplitByte_words: "w \<in> set (SplitByte s c) \<Longrightarrow> set w \<subseteq> set s - {c}"
proof (induction s arbitrary: w)
  case (Cons x s)
  obtain v vs where split: "SplitByte s c = v # vs" by (rule SplitByte_Cons)
  have "set w' \<subseteq> set s - {c}" if "w' = v \<or> w' \<in> set vs" for w' using Cons.IH[of w'] that by (simp add: split)
  then show ?case using Cons.prems by (fastforce simp: split split: if_splits)
qed simp

lemma length_SplitByte: "1 < length (SplitByte s c) \<longleftrightarrow> c \<in> set s"
proof (induction s)
  case (Cons x s)
  obtain w ws where split: "SplitByte s c = w # ws" by (rule SplitByte_Cons)
  show ?case using Cons by (auto simp: split)
qed simp

text \<open>There is an empty word exactly when a separator is first, last or doubled.\<close>

lemma SplitByte_empty_words:
  "[] \<in> set (SplitByte s c) \<longleftrightarrow> s = [] \<or> HasPrefix s [c] \<or> HasSuffix s [c] \<or> Contains s [c, c]"
proof -
  have hd: "hd (SplitByte s c) = [] \<longleftrightarrow> s = [] \<or> HasPrefix s [c]" for s
    by (cases s) (auto simp: HasPrefix_def split: list.splits)
  have tl: "[] \<in> set (tl (SplitByte s c)) \<longleftrightarrow> HasSuffix s [c] \<or> Contains s [c, c]" for s
  proof (induction s)
    case Nil
    then show ?case by (simp add: HasSuffix_def)
  next
    case (Cons x s)
    obtain w ws where split: "SplitByte s c = w # ws" by (rule SplitByte_Cons)
    have suffix: "HasSuffix (x # s) [c] \<longleftrightarrow> s = [] \<and> x = c \<or> HasSuffix s [c]"
      by (auto simp: HasSuffix_iff Cons_eq_append_conv)
    have doubled: "HasPrefix (x # s) [c, c] \<longleftrightarrow> x = c \<and> HasPrefix s [c]"
      by (auto simp: HasPrefix_iff)
    show ?case using Cons hd[of s] by (auto simp: split suffix doubled)
  qed
  show ?thesis using hd[of s] tl[of s] SplitByte_nonempty[of s c] by (cases "SplitByte s c") auto
qed

lemma ReplaceByte_simps [simp]:
  "ReplaceByte [] c r = []"
  "ReplaceByte (x # s) c r = (if x = c then r else [x]) @ ReplaceByte s c r"
  by (simp_all add: ReplaceByte_def)

section \<open>Letters and digits\<close>

definition lower_char :: "char \<Rightarrow> char" where
  "lower_char c = (if CHR ''A'' \<le> c \<and> c \<le> CHR ''Z'' then char_of (of_char c + 32 :: nat) else c)"

definition ToLower :: "string \<Rightarrow> string" where
  "ToLower s = map lower_char s"

definition is_lower :: "char \<Rightarrow> bool" where
  "is_lower c \<longleftrightarrow> CHR ''a'' \<le> c \<and> c \<le> CHR ''z''"

definition is_upper :: "char \<Rightarrow> bool" where
  "is_upper c \<longleftrightarrow> CHR ''A'' \<le> c \<and> c \<le> CHR ''Z''"

definition is_digit :: "char \<Rightarrow> bool" where
  "is_digit c \<longleftrightarrow> CHR ''0'' \<le> c \<and> c \<le> CHR ''9''"

text \<open>The characters of slugs and of hostname labels.\<close>

definition name_char :: "char \<Rightarrow> bool" where
  "name_char c \<longleftrightarrow> is_lower c \<or> is_digit c \<or> c = CHR ''-''"

lemma name_char_set:
  "name_char c \<longleftrightarrow> c \<in> set ''abcdefghijklmnopqrstuvwxyz0123456789-''"
proof -
  have "\<forall>c. name_char c \<longleftrightarrow> c \<in> set ''abcdefghijklmnopqrstuvwxyz0123456789-''" by code_simp
  then show ?thesis by blast
qed

lemma name_char_plain:
  assumes "name_char c"
  shows "lower_char c = c" "c \<noteq> CHR ''.''" "c \<noteq> CHR ''/''" "c \<noteq> CHR '':''" "e \<in> set space_encodings \<Longrightarrow> c \<notin> set e"
proof -
  have "\<forall>c \<in> set ''abcdefghijklmnopqrstuvwxyz0123456789-''. lower_char c = c \<and> c \<noteq> CHR ''.'' \<and> c \<noteq> CHR ''/'' \<and>
      c \<noteq> CHR '':'' \<and> (\<forall>e \<in> set space_encodings. c \<notin> set e)"
    by code_simp
  then show "lower_char c = c" "c \<noteq> CHR ''.''" "c \<noteq> CHR ''/''" "c \<noteq> CHR '':''" "e \<in> set space_encodings \<Longrightarrow> c \<notin> set e"
    using assms unfolding name_char_set by blast+
qed

definition digit_char :: "nat \<Rightarrow> char" where
  "digit_char n = char_of (48 + n)"

definition digit_val :: "char \<Rightarrow> nat" where
  "digit_val c = of_char c - 48"

fun show_nat :: "nat \<Rightarrow> string" where
  "show_nat n = (if n < 10 then [digit_char n] else show_nat (n div 10) @ [digit_char (n mod 10)])"

declare show_nat.simps [simp del]

definition Itoa :: "int \<Rightarrow> string" where
  "Itoa n = (if n < 0 then CHR ''-'' # show_nat (nat (- n)) else show_nat (nat n))"

definition read_nat :: "string \<Rightarrow> nat" where
  "read_nat s = foldl (\<lambda>n c. 10 * n + digit_val c) 0 s"

text \<open>\<^verbatim>\<open>strconv.Atoi\<close>: an optional sign, one or more digits, and a value of 64 bits.\<close>

definition Atoi :: "string \<Rightarrow> int option" where
  "Atoi s =
     (let (neg, ds) = (case s of
            [] \<Rightarrow> (False, [])
          | c # cs \<Rightarrow> if c = CHR ''-'' then (True, cs) else if c = CHR ''+'' then (False, cs) else (False, s));
          v = (if neg then - int (read_nat ds) else int (read_nat ds))
      in if ds \<noteq> [] \<and> list_all is_digit ds \<and> minInt64 \<le> v \<and> v \<le> maxInt64 then Some v else None)"

lemma of_char_digit: "n < 10 \<Longrightarrow> of_char (digit_char n) = 48 + n"
  by (simp add: digit_char_def)

lemma digit_char_props [simp]:
  "n < 10 \<Longrightarrow> is_digit (digit_char n)" "n < 10 \<Longrightarrow> digit_val (digit_char n) = n"
  "n < 10 \<Longrightarrow> digit_char n \<noteq> CHR ''-''" "n < 10 \<Longrightarrow> digit_char n \<noteq> CHR ''+''"
proof -
  assume n: "n < 10"
  show "is_digit (digit_char n)"
    using n by (simp add: is_digit_def less_eq_char_def of_char_digit)
  show "digit_val (digit_char n) = n"
    using n by (simp add: digit_val_def of_char_digit)
  show "digit_char n \<noteq> CHR ''-''" "digit_char n \<noteq> CHR ''+''"
    using n of_char_digit[OF n] by auto
qed

lemma show_nat_digits: "list_all is_digit (show_nat n)" and show_nat_nonempty: "show_nat n \<noteq> []"
proof -
  show "list_all is_digit (show_nat n)"
    by (induction n rule: show_nat.induct) (subst show_nat.simps, auto)
  show "show_nat n \<noteq> []" by (subst show_nat.simps) simp
qed

lemma read_show_nat [simp]: "read_nat (show_nat n) = n"
proof (induction n rule: show_nat.induct)
  case (1 n)
  show ?case
  proof (cases "n < 10")
    case True
    then show ?thesis by (subst show_nat.simps) (simp add: read_nat_def)
  next
    case False
    then have "read_nat (show_nat (n div 10)) = n div 10" using 1 by simp
    with False show ?thesis by (subst show_nat.simps) (simp add: read_nat_def)
  qed
qed

lemma show_nat_hd_digit: "\<exists>d ds. show_nat n = d # ds \<and> is_digit d"
  using show_nat_digits[of n] show_nat_nonempty[of n] by (cases "show_nat n") auto

lemma Atoi_Itoa_eq: "Atoi (Itoa n) = (if minInt64 \<le> n \<and> n \<le> maxInt64 then Some n else None)"
proof -
  obtain d ds where sn: "show_nat (nat n) = d # ds" "is_digit d"
    using show_nat_hd_digit by blast
  then have "d \<noteq> CHR ''-''" "d \<noteq> CHR ''+''" by (auto simp: is_digit_def less_eq_char_def)
  then show ?thesis
    using show_nat_digits[of "nat n"] show_nat_digits[of "nat (- n)"] show_nat_nonempty[of "nat (- n)"]
      read_show_nat[of "nat n"]
    by (auto simp: Itoa_def Atoi_def sn simp del: read_show_nat) (auto simp: sn)
qed

lemma Atoi_Itoa: "minInt64 \<le> n \<Longrightarrow> n \<le> maxInt64 \<Longrightarrow> Atoi (Itoa n) = Some n"
  by (simp add: Atoi_Itoa_eq)

section \<open>Host and port\<close>

text \<open>\<^verbatim>\<open>net.SplitHostPort\<close>: the port follows the last colon; a host with a colon is in square brackets.\<close>

definition SplitHostPort :: "string \<Rightarrow> (string \<times> string) option" where
  "SplitHostPort s =
     (case LastIndexByte s (CHR '':'') of
        None \<Rightarrow> None
      | Some i \<Rightarrow>
          if HasPrefix s ''['' then
            (case IndexByte s (CHR '']'') of
               None \<Rightarrow> None
             | Some e \<Rightarrow>
                 if Suc e \<noteq> i \<or> CHR ''['' \<in> set (drop 1 s) \<or> CHR '']'' \<in> set (drop (Suc e) s) then None
                 else Some (drop 1 (take e s), drop (Suc i) s))
          else if CHR '':'' \<in> set (take i s) \<or> CHR ''['' \<in> set s \<or> CHR '']'' \<in> set s then None
          else Some (take i s, drop (Suc i) s))"

text \<open>\<^verbatim>\<open>net.JoinHostPort\<close>.\<close>

definition JoinHostPort :: "string \<Rightarrow> string \<Rightarrow> string" where
  "JoinHostPort host port =
     (if CHR '':'' \<in> set host then ''['' @ host @ '']:'' @ port else host @ '':'' @ port)"

lemma LastIndexByte_None [simp]: "LastIndexByte s c = None \<longleftrightarrow> c \<notin> set s"
  by (simp add: LastIndexByte_def)

lemma LastIndexByte_append: "c \<notin> set b \<Longrightarrow> LastIndexByte (a @ c # b) c = Some (length a)"
  by (simp add: LastIndexByte_def IndexByte_append)

lemma SplitHostPort_None: "CHR '':'' \<notin> set s \<Longrightarrow> SplitHostPort s = None"
proof -
  assume "CHR '':'' \<notin> set s"
  then have "LastIndexByte s (CHR '':'') = None" by simp
  then show ?thesis unfolding SplitHostPort_def by (simp only: option.case)
qed

text \<open>What \<^verbatim>\<open>JoinHostPort\<close> writes is read back, unless the host has a bracket of its own.\<close>

lemma SplitHostPort_JoinHostPort:
  assumes "CHR '':'' \<notin> set port" "set host \<inter> {CHR ''['', CHR '']''} = {}" "set port \<inter> {CHR ''['', CHR '']''} = {}"
  shows "SplitHostPort (JoinHostPort host port) = Some (host, port)"
proof (cases "CHR '':'' \<in> set host")
  case False
  then have "LastIndexByte (host @ CHR '':'' # port) (CHR '':'') = Some (length host)"
    using assms(1) by (simp add: LastIndexByte_append)
  moreover have "\<not> HasPrefix (host @ CHR '':'' # port) ''[''"
    using assms(2) by (cases host) (auto simp: HasPrefix_def)
  ultimately show ?thesis
    using False assms by (auto simp: SplitHostPort_def JoinHostPort_def)
next
  case True
  have "LastIndexByte ((''['' @ host @ '']'') @ CHR '':'' # port) (CHR '':'') = Some (length (''['' @ host @ '']''))"
    using assms(1) by (rule LastIndexByte_append)
  moreover have "IndexByte ((''['' @ host) @ CHR '']'' # CHR '':'' # port) (CHR '']'') = Some (length (''['' @ host))"
    using assms(2) by (intro IndexByte_append) auto
  ultimately show ?thesis
    using True assms by (auto simp: SplitHostPort_def JoinHostPort_def HasPrefix_def)
qed

end
