(* ===== verification/EnvStore.thy ===== *)
theory EnvStore
  imports GoStrings
begin

text \<open>
  The environments table of the state store (\<^verbatim>\<open>internal/state/env.go\<close> over the table \<^verbatim>\<open>envs\<close> of
  \<^verbatim>\<open>migrations/0001_schema.sql\<close>). The table is the list of its rows in the order of their ids; the
  next \<^verbatim>\<open>AUTOINCREMENT\<close> id and the rows of the table \<^verbatim>\<open>apps\<close>, which \<^verbatim>\<open>envs.app\<close> references, are
  part of the state. The three \<^verbatim>\<open>UNIQUE\<close> constraints (the name of an
  environment, its port base, and its address when it has one) and the foreign key are the branches in which the
  driver reports a constraint violation. A failing database connection is not modelled.
  The time a statement runs at is an argument.
\<close>

record EnvRecord =
  env_ID :: int
  env_App :: string
  env_Name :: string
  env_Branch :: string
  env_Commit :: string
  env_Worktree :: string
  env_PortBase :: int
  env_PortCount :: int
  env_Status :: string
  env_ConfigJSON :: string
  env_VarsJSON :: string
  env_VPNIP :: string
  env_Mode :: string
  env_Protected :: bool
  env_ReleaseID :: int
  env_DeployID :: int
  env_CreatedBy :: string
  env_Owner :: string
  env_Via :: string
  env_PushedAt :: gtime
  env_PushedBy :: string
  env_SourceBranch :: string
  env_CreatedAt :: gtime
  env_UpdatedAt :: gtime

record env_table =
  rows :: "EnvRecord list"
  next_id :: int
  apps :: "string list"

datatype env_error =
    EmptyApp | EmptyName | BadPortBase string int | EnvExists | NoSuchApp string string
  | EnvNotFound | NoEnvID | EmptyStatus

definition EnvCreating :: string where "EnvCreating = ''creating''"
definition EnvReady :: string where "EnvReady = ''ready''"
definition EnvModeDev :: string where "EnvModeDev = ''dev''"

definition nonEmptyOr :: "string \<Rightarrow> string \<Rightarrow> string" where
  "nonEmptyOr s fallback = (if s = [] then fallback else s)"

text \<open>\<^verbatim>\<open>Envs\<close> with an empty app lists every environment, in the order of the ids.\<close>

definition Envs :: "env_table \<Rightarrow> string \<Rightarrow> EnvRecord list" where
  "Envs t app = (if app = [] then rows t else filter (\<lambda>r. env_App r = app) (rows t))"

definition Env :: "env_table \<Rightarrow> string \<Rightarrow> string \<Rightarrow> env_error + EnvRecord" where
  "Env t app name =
     (case find (\<lambda>r. env_App r = app \<and> env_Name r = name) (rows t) of
        None \<Rightarrow> Inl EnvNotFound | Some r \<Rightarrow> Inr r)"

text \<open>
  \<^verbatim>\<open>CreateEnv\<close> returns the record it was given with the defaults and the id filled in. The row it
  stores differs in the columns its statement does not mention, which take the table's defaults
  (\<^verbatim>\<open>pushed_at\<close>, \<^verbatim>\<open>pushed_by\<close>, \<^verbatim>\<open>source_branch\<close>), and in the mode, which defaults to \<^verbatim>\<open>dev\<close>.
\<close>

definition CreateEnv :: "gtime \<Rightarrow> env_table \<Rightarrow> EnvRecord \<Rightarrow> env_error + (EnvRecord \<times> env_table)" where
  "CreateEnv now t r =
     (if env_App r = [] then Inl EmptyApp
      else if env_Name r = [] then Inl EmptyName
      else if env_PortBase r \<le> 0 then Inl (BadPortBase (env_Name r) (env_PortBase r))
      else
        (let r1 = (if is_zero (env_CreatedAt r) then r\<lparr>env_CreatedAt := now\<rparr> else r);
             r2 = (if is_zero (env_UpdatedAt r1) then r1\<lparr>env_UpdatedAt := env_CreatedAt r1\<rparr> else r1);
             r3 = (if env_Status r2 = [] then r2\<lparr>env_Status := EnvCreating\<rparr> else r2);
             r4 = (if env_Owner r3 = [] then r3\<lparr>env_Owner := env_CreatedBy r3\<rparr> else r3);
             row = r4\<lparr>env_ID := next_id t, env_Mode := nonEmptyOr (env_Mode r4) EnvModeDev,
                      env_PushedAt := 0, env_PushedBy := [], env_SourceBranch := []\<rparr>
         in if \<exists>e \<in> set (rows t). env_App e = env_App r4 \<and> env_Name e = env_Name r4 \<or> env_PortBase e = env_PortBase r4
                 \<or> env_VPNIP r4 \<noteq> [] \<and> env_VPNIP e = env_VPNIP r4
            then Inl EnvExists
            else if env_App r4 \<notin> set (apps t) then Inl (NoSuchApp (env_Name r4) (env_App r4))
            else Inr (r4\<lparr>env_ID := next_id t\<rparr>, t\<lparr>rows := rows t @ [row], next_id := next_id t + 1\<rparr>)))"

text \<open>The rows an \<^verbatim>\<open>UPDATE ... WHERE id = ?\<close> touches; no row is \<^verbatim>\<open>ErrNotFound\<close>.\<close>

definition update_row :: "env_table \<Rightarrow> int \<Rightarrow> (EnvRecord \<Rightarrow> EnvRecord) \<Rightarrow> env_error + env_table" where
  "update_row t i f =
     (if \<exists>r \<in> set (rows t). env_ID r = i
      then Inr (t\<lparr>rows := map (\<lambda>r. if env_ID r = i then f r else r) (rows t)\<rparr>)
      else Inl EnvNotFound)"

definition UpdateEnvStatus :: "gtime \<Rightarrow> env_table \<Rightarrow> int \<Rightarrow> string \<Rightarrow> env_error + env_table" where
  "UpdateEnvStatus now t i status =
     (if status = [] then Inl EmptyStatus
      else update_row t i (\<lambda>r. r\<lparr>env_Status := status, env_UpdatedAt := now\<rparr>))"

definition UpdateEnv :: "gtime \<Rightarrow> env_table \<Rightarrow> EnvRecord \<Rightarrow> env_error + env_table" where
  "UpdateEnv now t r =
     (if env_ID r = 0 then Inl NoEnvID
      else update_row t (env_ID r) (\<lambda>e. e\<lparr>env_Branch := env_Branch r, env_Commit := env_Commit r, env_Worktree := env_Worktree r,
             env_Status := env_Status r, env_ConfigJSON := env_ConfigJSON r, env_VarsJSON := env_VarsJSON r, env_UpdatedAt := now\<rparr>))"

definition SetEnvOwner :: "gtime \<Rightarrow> env_table \<Rightarrow> int \<Rightarrow> string \<Rightarrow> env_error + env_table" where
  "SetEnvOwner now t i owner = update_row t i (\<lambda>r. r\<lparr>env_Owner := owner, env_UpdatedAt := now\<rparr>)"

definition SetEnvVia :: "gtime \<Rightarrow> env_table \<Rightarrow> int \<Rightarrow> string \<Rightarrow> env_error + env_table" where
  "SetEnvVia now t i via = update_row t i (\<lambda>r. r\<lparr>env_Via := via, env_UpdatedAt := now\<rparr>)"

definition RecordEnvPush ::
  "gtime \<Rightarrow> env_table \<Rightarrow> int \<Rightarrow> string \<Rightarrow> string \<Rightarrow> string \<Rightarrow> gtime \<Rightarrow> env_error + env_table" where
  "RecordEnvPush now t i commit sourceBranch pushedBy at =
     (if i = 0 then Inl NoEnvID
      else let at' = (if is_zero at then now else at)
           in update_row t i (\<lambda>r. r\<lparr>env_Commit := commit, env_PushedAt := at', env_PushedBy := pushedBy,
                env_SourceBranch := sourceBranch, env_UpdatedAt := now\<rparr>))"

definition DeleteEnv :: "env_table \<Rightarrow> int \<Rightarrow> env_table" where
  "DeleteEnv t i = t\<lparr>rows := filter (\<lambda>r. env_ID r \<noteq> i) (rows t)\<rparr>"

section \<open>The table's invariant\<close>

definition table_inv :: "env_table \<Rightarrow> bool" where
  "table_inv t \<longleftrightarrow>
     0 < next_id t \<and>
     sorted_wrt (<) (map env_ID (rows t)) \<and>
     (\<forall>r \<in> set (rows t). 0 < env_ID r \<and> env_ID r < next_id t \<and> 0 < env_PortBase r \<and> env_App r \<noteq> [] \<and> env_Name r \<noteq> []) \<and>
     distinct (map (\<lambda>r. (env_App r, env_Name r)) (rows t)) \<and>
     distinct (map env_PortBase (rows t)) \<and>
     distinct (filter (\<lambda>ip. ip \<noteq> []) (map env_VPNIP (rows t)))"

text \<open>What every operation of the table other than creation and deletion leaves alone.\<close>

definition same_keys :: "(EnvRecord \<Rightarrow> EnvRecord) \<Rightarrow> bool" where
  "same_keys f \<longleftrightarrow>
     (\<forall>r. env_ID (f r) = env_ID r \<and> env_App (f r) = env_App r \<and> env_Name (f r) = env_Name r \<and>
          env_PortBase (f r) = env_PortBase r \<and> env_PortCount (f r) = env_PortCount r \<and> env_VPNIP (f r) = env_VPNIP r)"

lemma update_row_keeps:
  assumes "same_keys f" and "update_row t i f = Inr t'"
  shows "map env_ID (rows t') = map env_ID (rows t)"
    and "map env_PortBase (rows t') = map env_PortBase (rows t)"
    and "map env_PortCount (rows t') = map env_PortCount (rows t)"
    and "map env_VPNIP (rows t') = map env_VPNIP (rows t)"
    and "map (\<lambda>r. (env_App r, env_Name r)) (rows t') = map (\<lambda>r. (env_App r, env_Name r)) (rows t)"
    and "next_id t' = next_id t" and "apps t' = apps t"
  using assms by (auto simp: update_row_def same_keys_def split: if_splits)

lemma table_inv_update_row:
  assumes "table_inv t" and "same_keys f" and "update_row t i f = Inr t'"
  shows "table_inv t'"
proof -
  note keeps = update_row_keeps[OF assms(2,3)]
  have "\<forall>r \<in> set (rows t'). 0 < env_ID r \<and> env_ID r < next_id t \<and> 0 < env_PortBase r \<and> env_App r \<noteq> [] \<and> env_Name r \<noteq> []"
    using assms by (auto simp: update_row_def same_keys_def table_inv_def split: if_splits)
  with assms(1) show ?thesis
    by (simp add: table_inv_def keeps)
qed

lemma CreateEnv_cases:
  assumes "CreateEnv now t r = Inr (r', t')"
  obtains row where "rows t' = rows t @ [row]" "next_id t' = next_id t + 1" "apps t' = apps t"
    "env_ID row = next_id t" "env_App row = env_App r" "env_Name row = env_Name r"
    "env_PortBase row = env_PortBase r" "env_PortCount row = env_PortCount r" "env_VPNIP row = env_VPNIP r"
    "env_App r \<noteq> []" "env_Name r \<noteq> []" "0 < env_PortBase r" "env_App r \<in> set (apps t)"
    "\<forall>e \<in> set (rows t). (env_App e, env_Name e) \<noteq> (env_App r, env_Name r) \<and> env_PortBase e \<noteq> env_PortBase r
       \<and> (env_VPNIP r \<noteq> [] \<longrightarrow> env_VPNIP e \<noteq> env_VPNIP r)"
    "env_ID r' = next_id t" "env_PortBase r' = env_PortBase r" "env_PortCount r' = env_PortCount r"
  using assms by (fastforce simp: CreateEnv_def Let_def split: if_splits)

lemma table_inv_CreateEnv:
  assumes "table_inv t" and "CreateEnv now t r = Inr (r', t')"
  shows "table_inv t'"
proof -
  obtain row where c: "rows t' = rows t @ [row]" "next_id t' = next_id t + 1"
    "env_ID row = next_id t" "env_App row = env_App r" "env_Name row = env_Name r" "env_PortBase row = env_PortBase r"
    "env_VPNIP row = env_VPNIP r" "env_App r \<noteq> []" "env_Name r \<noteq> []" "0 < env_PortBase r"
    "\<forall>e \<in> set (rows t). (env_App e, env_Name e) \<noteq> (env_App r, env_Name r) \<and> env_PortBase e \<noteq> env_PortBase r
       \<and> (env_VPNIP r \<noteq> [] \<longrightarrow> env_VPNIP e \<noteq> env_VPNIP r)"
    using CreateEnv_cases[OF assms(2)] by metis
  then show ?thesis
    using assms(1) by (force simp: table_inv_def sorted_wrt_append)
qed

lemma table_inv_DeleteEnv: "table_inv t \<Longrightarrow> table_inv (DeleteEnv t i)"
proof -
  have "distinct (map env_VPNIP (filter (\<lambda>r. env_ID r \<noteq> i \<and> env_VPNIP r \<noteq> []) (rows t)))"
    if "distinct (map env_VPNIP (filter (\<lambda>r. env_VPNIP r \<noteq> []) (rows t)))"
    using distinct_map_filter[OF that, of "\<lambda>r. env_ID r \<noteq> i"] by (simp add: conj_commute)
  then show "table_inv t \<Longrightarrow> table_inv (DeleteEnv t i)"
    by (auto simp: table_inv_def DeleteEnv_def distinct_map_filter sorted_wrt_filter sorted_wrt_map
          filter_map comp_def)
qed

lemma same_keys_updates [simp]:
  "same_keys (\<lambda>r. r\<lparr>env_Status := status, env_UpdatedAt := now\<rparr>)"
  "same_keys (\<lambda>e. e\<lparr>env_Branch := b, env_Commit := c, env_Worktree := w, env_Status := s, env_ConfigJSON := cj,
     env_VarsJSON := vj, env_UpdatedAt := now\<rparr>)"
  "same_keys (\<lambda>r. r\<lparr>env_Owner := owner, env_UpdatedAt := now\<rparr>)"
  "same_keys (\<lambda>r. r\<lparr>env_Via := via, env_UpdatedAt := now\<rparr>)"
  "same_keys (\<lambda>r. r\<lparr>env_Commit := c, env_PushedAt := at, env_PushedBy := by, env_SourceBranch := sb, env_UpdatedAt := now\<rparr>)"
  by (simp_all add: same_keys_def)

end
