(* ===== verification/Ports.thy ===== *)
theory Ports
  imports EnvStore
begin

text \<open>
  The port blocks of the environments (\<^verbatim>\<open>internal/ports/ports.go\<close>). The store and the binder the
  allocator holds are arguments: the store as the outcome of its \<^verbatim>\<open>Envs\<close> call (\<^verbatim>\<open>None\<close> for a nil
  store, \<open>Some None\<close> for a failing one), the binder as the set of ports it can bind, with
  \<open>localBind\<close> for the operating system behind \<^verbatim>\<open>LocalBinder\<close>. The log lines are part of the result.
\<close>

definition Base :: int where "Base = 20000"
definition Ceiling :: int where "Ceiling = 32000"
definition BlockSize :: int where "BlockSize = 32"
definition LegacyBlockSize :: int where "LegacyBlockSize = 16"
definition BlockCount :: int where "BlockCount = (Ceiling - Base) div BlockSize"

lemmas port_consts = Base_def Ceiling_def BlockSize_def LegacyBlockSize_def BlockCount_def

definition Block :: "int \<Rightarrow> int list" where
  "Block base = map (\<lambda>i. base + int i) [0..<nat BlockSize]"

definition ValidBase :: "int \<Rightarrow> bool" where
  "ValidBase base \<longleftrightarrow> Base \<le> base \<and> base < Ceiling \<and> (base - Base) mod BlockSize = 0"

record Span =
  span_Base :: int
  span_Count :: int

definition span_size :: "Span \<Rightarrow> int" where
  "span_size s = (if span_Count s \<le> 0 then BlockSize else span_Count s)"

definition span_End :: "Span \<Rightarrow> int" where
  "span_End s = span_Base s + span_size s"

definition Overlaps :: "Span \<Rightarrow> Span \<Rightarrow> bool" where
  "Overlaps s other \<longleftrightarrow> span_Base s < span_End other \<and> span_Base other < span_End s"

datatype ports_error = NoStore | ReadBlocksFailed | ErrExhausted

datatype skip_reason = SkippedAllocated int Span | SkippedInUse int int

record BlockAllocator =
  alloc_Store :: "EnvRecord list option option"
  alloc_Binder :: "(int \<Rightarrow> bool) option"
  alloc_Log :: bool

text \<open>\<^verbatim>\<open>New\<close>: a nil binder is the operating system's.\<close>

definition New :: "(int \<Rightarrow> bool) \<Rightarrow> EnvRecord list option option \<Rightarrow> (int \<Rightarrow> bool) option \<Rightarrow> BlockAllocator" where
  "New localBind store b =
     \<lparr>alloc_Store = store,
      alloc_Binder = Some (case b of None \<Rightarrow> localBind | Some f \<Rightarrow> f),
      alloc_Log = False\<rparr>"

fun taken_spans :: "int \<Rightarrow> EnvRecord list \<Rightarrow> Span list" where
  "taken_spans envID [] = []"
| "taken_spans envID (e # es) =
     (if envID \<noteq> 0 \<and> env_ID e = envID then taken_spans envID es
      else if env_PortBase e = 0 then taken_spans envID es
      else \<lparr>span_Base = env_PortBase e, span_Count = env_PortCount e\<rparr> # taken_spans envID es)"

definition taken :: "BlockAllocator \<Rightarrow> int \<Rightarrow> ports_error + Span list" where
  "taken a envID =
     (case alloc_Store a of
        None \<Rightarrow> Inl NoStore
      | Some None \<Rightarrow> Inl ReadBlocksFailed
      | Some (Some envs) \<Rightarrow> Inr (taken_spans envID envs))"

definition overlap :: "Span list \<Rightarrow> Span \<Rightarrow> Span option" where
  "overlap spans candidate = find (\<lambda>s. Overlaps s candidate) spans"

definition canBind_of :: "(int \<Rightarrow> bool) \<Rightarrow> BlockAllocator \<Rightarrow> int \<Rightarrow> bool" where
  "canBind_of localBind a = (case alloc_Binder a of None \<Rightarrow> localBind | Some f \<Rightarrow> f)"

text \<open>\<^verbatim>\<open>probe\<close>: the first port of the block that is busy, if any.\<close>

definition probe :: "(int \<Rightarrow> bool) \<Rightarrow> int \<Rightarrow> int option" where
  "probe b base = find (\<lambda>p. \<not> b p) (Block base)"

text \<open>The loop of \<^verbatim>\<open>Allocate\<close>, from the block at \<open>base\<close> on, with the lines it logs.\<close>

function allocate_from ::
  "Span list \<Rightarrow> (int \<Rightarrow> bool) \<Rightarrow> int \<Rightarrow> skip_reason list \<Rightarrow> int option \<times> skip_reason list" where
  "allocate_from spans b base logged =
     (if Ceiling \<le> base then (None, logged)
      else case overlap spans \<lparr>span_Base = base, span_Count = BlockSize\<rparr> of
             Some s \<Rightarrow> allocate_from spans b (base + BlockSize) (logged @ [SkippedAllocated base s])
           | None \<Rightarrow>
               (case probe b base of
                  Some p \<Rightarrow> allocate_from spans b (base + BlockSize) (logged @ [SkippedInUse base p])
                | None \<Rightarrow> (Some base, logged)))"
  by pat_completeness auto
termination
  by (relation "measure (\<lambda>(spans, b, base, logged). nat (Ceiling - base))")
     (auto simp: BlockSize_def)

declare allocate_from.simps [simp del]

definition Allocate ::
  "(int \<Rightarrow> bool) \<Rightarrow> BlockAllocator \<Rightarrow> int \<Rightarrow> (ports_error + int) \<times> skip_reason list" where
  "Allocate localBind a envID =
     (case taken a envID of
        Inl e \<Rightarrow> (Inl e, [])
      | Inr spans \<Rightarrow>
          (let (r, logged) = allocate_from spans (canBind_of localBind a) Base []
           in (case r of None \<Rightarrow> Inl ErrExhausted | Some base \<Rightarrow> Inr base,
               if alloc_Log a then logged else [])))"

section \<open>The allocator is a first fit over the blocks\<close>

text \<open>The block bases in the order the loop tries them, and what makes one unusable.\<close>

definition bases :: "int list" where
  "bases = map (\<lambda>i. Base + BlockSize * int i) [0..<nat BlockCount]"

definition block_busy :: "Span list \<times> (int \<Rightarrow> bool) \<Rightarrow> int \<Rightarrow> bool" where
  "block_busy c base \<longleftrightarrow>
     (\<exists>s \<in> set (fst c). Overlaps s \<lparr>span_Base = base, span_Count = BlockSize\<rparr>) \<or>
     (\<exists>p \<in> set (Block base). \<not> snd c p)"

lemma block_busy_iff:
  "block_busy (spans, b) base \<longleftrightarrow>
     overlap spans \<lparr>span_Base = base, span_Count = BlockSize\<rparr> \<noteq> None \<or> probe b base \<noteq> None"
  by (auto simp: block_busy_def overlap_def probe_def find_None_iff)

lemma set_Block: "p \<in> set (Block base) \<longleftrightarrow> base \<le> p \<and> p < base + BlockSize"
proof
  assume "base \<le> p \<and> p < base + BlockSize"
  then have "p = (\<lambda>i. base + int i) (nat (p - base))" "nat (p - base) \<in> set [0..<nat BlockSize]"
    by auto
  then show "p \<in> set (Block base)" unfolding Block_def set_map by (rule image_eqI)
qed (auto simp: Block_def BlockSize_def)

lemma ValidBase_bases: "ValidBase b \<longleftrightarrow> b \<in> set bases"
proof
  assume v: "ValidBase b"
  then have "b = (\<lambda>i. Base + BlockSize * int i) (nat ((b - Base) div BlockSize))"
    by (auto simp: ValidBase_def BlockSize_def Base_def)
  moreover have "nat ((b - Base) div BlockSize) \<in> set [0..<nat BlockCount]"
    using v by (auto simp: ValidBase_def port_consts)
  ultimately show "b \<in> set bases" unfolding bases_def set_map by (rule image_eqI)
qed (auto simp: bases_def ValidBase_def port_consts)

lemma sorted_bases: "sorted_wrt (<) bases"
  by (simp add: bases_def sorted_wrt_map BlockSize_def)

text \<open>What remains to try from the \<open>k\<close>-th block on is a suffix of the list of bases.\<close>

lemma allocate_from_find:
  assumes "k \<le> nat BlockCount"
  shows "fst (allocate_from spans b (Base + BlockSize * int k) logged)
         = find (\<lambda>c. \<not> block_busy (spans, b) c) (drop k bases)"
  using assms
proof (induction "nat BlockCount - k" arbitrary: k logged)
  case 0
  then have "k = nat BlockCount" by simp
  then show ?case
    by (subst allocate_from.simps) (simp add: bases_def port_consts)
next
  case (Suc n)
  let ?base = "Base + BlockSize * int k"
  have k: "k < nat BlockCount" using Suc.hyps(2) by simp
  then have below: "\<not> Ceiling \<le> ?base" by (auto simp: port_consts)
  have drop: "drop k bases = ?base # drop (Suc k) bases"
    using k by (simp add: bases_def Cons_nth_drop_Suc[symmetric])
  have step: "?base + BlockSize = Base + BlockSize * int (Suc k)" by (simp add: algebra_simps)
  have IH: "fst (allocate_from spans b (Base + BlockSize * int (Suc k)) l)
      = find (\<lambda>c. \<not> block_busy (spans, b) c) (drop (Suc k) bases)" for l
    using Suc.hyps(1)[of "Suc k" l] Suc.hyps(2) k by simp
  show ?case
  proof (cases "block_busy (spans, b) ?base")
    case True
    then show ?thesis
      using below IH
      by (subst allocate_from.simps)
         (auto simp: drop step block_busy_iff simp del: of_nat_Suc split: option.splits)
  next
    case False
    then show ?thesis
      using below
      by (subst allocate_from.simps) (auto simp: drop block_busy_iff split: option.splits)
  qed
qed

lemma allocate_from_Base: "fst (allocate_from spans b Base logged) = find (\<lambda>c. \<not> block_busy (spans, b) c) bases"
  using allocate_from_find[of 0 spans b logged] by (simp add: BlockCount_def)

definition block_alloc :: "Span list \<times> (int \<Rightarrow> bool) \<Rightarrow> int option" where
  "block_alloc c = fst (allocate_from (fst c) (snd c) Base [])"

interpretation blocks: first_fit "\<lambda>_. bases" block_busy block_alloc
  by unfold_locales (simp add: block_alloc_def allocate_from_Base)

lemma Allocate_unfold:
  "fst (Allocate localBind a envID) =
     (case taken a envID of Inl e \<Rightarrow> Inl e
      | Inr spans \<Rightarrow> (case block_alloc (spans, canBind_of localBind a) of
                        None \<Rightarrow> Inl ErrExhausted | Some base \<Rightarrow> Inr base))"
  by (auto simp: Allocate_def block_alloc_def split: sum.splits prod.splits option.splits)

lemma set_taken_spans:
  "set (taken_spans envID envs) =
     (\<lambda>e. \<lparr>span_Base = env_PortBase e, span_Count = env_PortCount e\<rparr>) `
       {e \<in> set envs. env_PortBase e \<noteq> 0 \<and> \<not> (envID \<noteq> 0 \<and> env_ID e = envID)}"
  by (induction envID envs rule: taken_spans.induct) auto

definition env_span :: "EnvRecord \<Rightarrow> Span" where
  "env_span e = \<lparr>span_Base = env_PortBase e, span_Count = env_PortCount e\<rparr>"

section \<open>Properties\<close>

text \<open>A block an environment may be given: it is aligned and inside the range, no other environment's
  ports overlap it, and each of its ports can be bound.\<close>

definition free_block :: "(int \<Rightarrow> bool) \<Rightarrow> EnvRecord list \<Rightarrow> int \<Rightarrow> int \<Rightarrow> bool" where
  "free_block canBind envs envID base \<longleftrightarrow>
     ValidBase base \<and>
     (\<forall>e \<in> set envs. env_PortBase e \<noteq> 0 \<and> \<not> (envID \<noteq> 0 \<and> env_ID e = envID)
        \<longrightarrow> \<not> Overlaps (env_span e) \<lparr>span_Base = base, span_Count = BlockSize\<rparr>) \<and>
     (\<forall>p \<in> set (Block base). canBind p)"

lemma free_block_iff:
  "free_block b envs envID base \<longleftrightarrow>
     base \<in> set bases \<and> \<not> block_busy (taken_spans envID envs, b) base"
  by (auto simp: free_block_def block_busy_def set_taken_spans env_span_def ValidBase_bases[symmetric])

lemma Allocate_block_alloc:
  "alloc_Store a = Some (Some envs) \<Longrightarrow>
   fst (Allocate localBind a envID) =
     (case block_alloc (taken_spans envID envs, canBind_of localBind a) of
        None \<Rightarrow> Inl ErrExhausted | Some base \<Rightarrow> Inr base)"
  by (simp add: Allocate_unfold taken_def)

lemma Allocate_Inr:
  assumes "alloc_Store a = Some (Some envs)" and "fst (Allocate localBind a envID) = Inr base"
  shows "free_block (canBind_of localBind a) envs envID base"
    and "free_block (canBind_of localBind a) envs envID b \<Longrightarrow> base \<le> b"
proof -
  let ?c = "(taken_spans envID envs, canBind_of localBind a)"
  have s: "block_alloc ?c = Some base"
    using assms by (simp add: Allocate_block_alloc split: option.splits)
  show "free_block (canBind_of localBind a) envs envID base"
    using blocks.alloc_Some[OF s] by (simp add: free_block_iff)
  show "base \<le> b" if "free_block (canBind_of localBind a) envs envID b"
    using blocks.alloc_least_ordered[OF s, of "(<)" b] sorted_bases that by (auto simp: free_block_iff)
qed

lemma Allocate_total:
  assumes "alloc_Store a = Some (Some envs)" and "free_block (canBind_of localBind a) envs envID b"
  shows "\<exists>base. fst (Allocate localBind a envID) = Inr base"
  using assms blocks.alloc_total[of b "(taken_spans envID envs, canBind_of localBind a)"]
  by (auto simp: Allocate_block_alloc free_block_iff)

lemma Allocate_Inr_iff:
  assumes "alloc_Store a = Some (Some envs)"
  shows "fst (Allocate localBind a envID) = Inr base \<longleftrightarrow>
           free_block (canBind_of localBind a) envs envID base \<and>
           (\<forall>b < base. \<not> free_block (canBind_of localBind a) envs envID b)"
proof
  assume "fst (Allocate localBind a envID) = Inr base"
  then show "free_block (canBind_of localBind a) envs envID base \<and>
      (\<forall>b < base. \<not> free_block (canBind_of localBind a) envs envID b)"
    using Allocate_Inr[OF assms] by fastforce
next
  assume f: "free_block (canBind_of localBind a) envs envID base \<and>
      (\<forall>b < base. \<not> free_block (canBind_of localBind a) envs envID b)"
  then obtain b where b: "fst (Allocate localBind a envID) = Inr b"
    using Allocate_total[OF assms] by blast
  then have "b = base" using Allocate_Inr[OF assms b] f by (metis not_less order_antisym)
  with b show "fst (Allocate localBind a envID) = Inr base" by simp
qed

lemma Allocate_exhausted:
  assumes "alloc_Store a = Some (Some envs)"
  shows "fst (Allocate localBind a envID) = Inl ErrExhausted \<longleftrightarrow>
    (\<forall>b. \<not> free_block (canBind_of localBind a) envs envID b)"
  by (cases "block_alloc (taken_spans envID envs, canBind_of localBind a)")
    (use Allocate_total[OF assms, of localBind envID] Allocate_Inr(1)[OF assms, of localBind envID] in
      \<open>auto simp: Allocate_block_alloc[OF assms]\<close>)

text \<open>C18: \<^verbatim>\<open>Allocate\<close> returns a block exactly when some block of the range is free for the environment, and
  then it returns the lowest free one; otherwise it fails with \<^verbatim>\<open>ErrExhausted\<close>.\<close>

theorem Allocate_correct:
  assumes "alloc_Store a = Some (Some envs)"
  shows "(fst (Allocate localBind a envID) = Inr base \<longleftrightarrow>
           free_block (canBind_of localBind a) envs envID base \<and>
           (\<forall>b < base. \<not> free_block (canBind_of localBind a) envs envID b)) \<and>
    (fst (Allocate localBind a envID) = Inl ErrExhausted \<longleftrightarrow>
       (\<forall>b. \<not> free_block (canBind_of localBind a) envs envID b))"
  using Allocate_Inr_iff[OF assms] Allocate_exhausted[OF assms] by blast

definition example_env :: EnvRecord where
  "example_env = \<lparr>env_ID = 1, env_App = ''shop'', env_Name = ''main'', env_Branch = ''main'', env_Commit = ''c0'',
     env_Worktree = ''/w'', env_PortBase = 20000, env_PortCount = 16, env_Status = EnvReady, env_ConfigJSON = [],
     env_VarsJSON = [], env_VPNIP = ''10.86.1.1'', env_Mode = EnvModeDev, env_Protected = False, env_ReleaseID = 0,
     env_DeployID = 0, env_CreatedBy = ''ana'', env_Owner = ''ana'', env_Via = [], env_PushedAt = 0, env_PushedBy = [],
     env_SourceBranch = [], env_CreatedAt = 1, env_UpdatedAt = 1\<rparr>"

text \<open>The first block is an environment's, a port of the second is in use: the third is the lowest free one.\<close>

definition example_allocator :: BlockAllocator where
  "example_allocator = \<lparr>alloc_Store = Some (Some [example_env]), alloc_Binder = None, alloc_Log = True\<rparr>"

theorem Allocate_correct_witness:
  "alloc_Store example_allocator = Some (Some [example_env]) \<and>
   fst (Allocate (\<lambda>p. p \<noteq> 20040) example_allocator 2) = Inr 20064 \<and>
   free_block (canBind_of (\<lambda>p. p \<noteq> 20040) example_allocator) [example_env] 2 20064 \<and>
   \<not> free_block (canBind_of (\<lambda>p. p \<noteq> 20040) example_allocator) [example_env] 2 20032"
proof -
  have store: "alloc_Store example_allocator = Some (Some [example_env])" by (simp add: example_allocator_def)
  have run: "fst (Allocate (\<lambda>p. p \<noteq> 20040) example_allocator 2) = Inr 20064" by code_simp
  show ?thesis
    using Allocate_correct[OF store, of "\<lambda>p. p \<noteq> 20040" 2 20064] store run by simp
qed

end
