(* ===== verification/EnvCreate.thy ===== *)
theory EnvCreate
  imports Ports
begin

text \<open>
  How \<^verbatim>\<open>internal/env/create.go\<close> gives a new environment its row (\<^verbatim>\<open>createRow\<close>): it allocates a port
  block and an address from what the store holds, inserts the row, and starts again when another
  create took the block in between. What other processes do to the table between the two is the
  argument \<open>interfere\<close>, one function per attempt; the address allocator (\<^verbatim>\<open>allocAddress\<close>) is the
  argument \<open>addr\<close>.
\<close>

definition allocAttempts :: nat where "allocAttempts = 32"

record create_request =
  req_App :: string
  req_Name :: string
  req_Mode :: string
  req_Protected :: bool
  req_Identity :: string

record branch_plan =
  plan_branch :: string
  plan_commit :: string

datatype create_error =
    AllocBlockFailed ports_error | AllocAddressFailed | EnvAlreadyExists string
  | RecordEnvFailed string env_error | BlocksTaken string nat

definition new_record ::
  "create_request \<Rightarrow> branch_plan \<Rightarrow> string \<Rightarrow> gtime \<Rightarrow> int \<Rightarrow> string \<Rightarrow> EnvRecord" where
  "new_record req plan worktree now base ip =
     \<lparr>env_ID = 0, env_App = req_App req, env_Name = req_Name req, env_Branch = plan_branch plan,
      env_Commit = plan_commit plan, env_Worktree = worktree, env_PortBase = base,
      env_PortCount = BlockSize, env_Status = EnvCreating, env_ConfigJSON = [], env_VarsJSON = [],
      env_VPNIP = ip, env_Mode = req_Mode req, env_Protected = req_Protected req, env_ReleaseID = 0,
      env_DeployID = 0, env_CreatedBy = req_Identity req, env_Owner = [], env_Via = [],
      env_PushedAt = 0, env_PushedBy = [], env_SourceBranch = [], env_CreatedAt = now, env_UpdatedAt = now\<rparr>"

definition block_allocator :: "(int \<Rightarrow> bool) \<Rightarrow> env_table \<Rightarrow> BlockAllocator" where
  "block_allocator canBind t = \<lparr>alloc_Store = Some (Some (Envs t [])), alloc_Binder = Some canBind, alloc_Log = False\<rparr>"

fun create_attempts ::
  "(int \<Rightarrow> bool) \<Rightarrow> (env_table \<Rightarrow> string option) \<Rightarrow> (nat \<Rightarrow> env_table \<Rightarrow> env_table) \<Rightarrow>
   create_request \<Rightarrow> branch_plan \<Rightarrow> string \<Rightarrow> gtime \<Rightarrow> nat \<Rightarrow> env_table \<Rightarrow>
   (create_error + EnvRecord) \<times> env_table" where
  "create_attempts canBind addr interfere req plan worktree now 0 t =
     (Inl (BlocksTaken (req_Name req) allocAttempts), t)"
| "create_attempts canBind addr interfere req plan worktree now (Suc n) t =
     (case fst (Allocate canBind (block_allocator canBind t) 0) of
        Inl e \<Rightarrow> (Inl (AllocBlockFailed e), t)
      | Inr base \<Rightarrow>
          (case addr t of
             None \<Rightarrow> (Inl AllocAddressFailed, t)
           | Some ip \<Rightarrow>
               (let t1 = interfere n t in
                case CreateEnv now t1 (new_record req plan worktree now base ip) of
                  Inr (rec, t2) \<Rightarrow> (Inr rec, t2)
                | Inl EnvExists \<Rightarrow>
                    (case Env t1 (req_App req) (req_Name req) of
                       Inr _ \<Rightarrow> (Inl (EnvAlreadyExists (req_Name req)), t1)
                     | Inl _ \<Rightarrow> create_attempts canBind addr interfere req plan worktree now n t1)
                | Inl e \<Rightarrow> (Inl (RecordEnvFailed (req_Name req) e), t1))))"

definition createRow ::
  "(int \<Rightarrow> bool) \<Rightarrow> (env_table \<Rightarrow> string option) \<Rightarrow> (nat \<Rightarrow> env_table \<Rightarrow> env_table) \<Rightarrow>
   create_request \<Rightarrow> branch_plan \<Rightarrow> string \<Rightarrow> gtime \<Rightarrow> env_table \<Rightarrow>
   (create_error + EnvRecord) \<times> env_table" where
  "createRow canBind addr interfere req plan worktree now t =
     create_attempts canBind addr interfere req plan worktree now allocAttempts t"

section \<open>No two environments share a port\<close>

definition blocks_inv :: "env_table \<Rightarrow> bool" where
  "blocks_inv t \<longleftrightarrow> table_inv t \<and>
     (\<forall>e \<in> set (rows t). \<forall>f \<in> set (rows t). env_ID e \<noteq> env_ID f \<longrightarrow> \<not> Overlaps (env_span e) (env_span f))"

lemma Overlaps_sym: "Overlaps a b = Overlaps b a"
  by (auto simp: Overlaps_def)

lemma aligned_blocks_disjoint:
  assumes "ValidBase a" "ValidBase b" "a \<noteq> b"
  shows "\<not> Overlaps \<lparr>span_Base = a, span_Count = BlockSize\<rparr> \<lparr>span_Base = b, span_Count = BlockSize\<rparr>"
proof -
  obtain i j :: int where "a = Base + BlockSize * i" "b = Base + BlockSize * j"
    using assms by (auto simp: ValidBase_bases bases_def)
  then show ?thesis
    using assms(3) by (auto simp: Overlaps_def span_End_def span_size_def BlockSize_def)
qed

text \<open>
  The system of any number of processes at work on one table, at the granularity of the store's calls. A
  process that creates an environment has read the table and chosen a block (\<open>chosen i\<close>), and then inserts
  a row with it or is refused; whatever the others do comes in between. \<^verbatim>\<open>createRow\<close> is the loop of these two
  steps. The rows may include older ones with blocks of any size.
\<close>

type_synonym env_system = "env_table \<times> (nat \<rightharpoonup> int)"

definition updated :: "env_table \<Rightarrow> env_table \<Rightarrow> bool" where
  "updated t t' \<longleftrightarrow> (\<exists>now r i s at c b o'.
     Inr t' \<in> {UpdateEnvStatus now t i s, UpdateEnv now t r, SetEnvOwner now t i s, SetEnvVia now t i s,
       RecordEnvPush now t i c b o' at})"

inductive env_step :: "env_system \<Rightarrow> env_system \<Rightarrow> bool" where
  choose_block: "fst (Allocate canBind (block_allocator canBind t) 0) = Inr base \<Longrightarrow>
    env_step (t, chosen) (t, chosen(i \<mapsto> base))"
| insert_row: "chosen i = Some base \<Longrightarrow> CreateEnv now t (new_record req plan worktree now base ip) = Inr (r, t') \<Longrightarrow>
    env_step (t, chosen) (t', chosen(i := None))"
| refused: "chosen i = Some base \<Longrightarrow> CreateEnv now t (new_record req plan worktree now base ip) = Inl e \<Longrightarrow>
    env_step (t, chosen) (t, chosen(i := None))"
| update: "updated t t' \<Longrightarrow> env_step (t, chosen) (t', chosen)"
| destroy: "env_step (t, chosen) (DeleteEnv t i, chosen)"

abbreviation env_steps :: "env_system \<Rightarrow> env_system \<Rightarrow> bool" where
  "env_steps \<equiv> env_step\<^sup>*\<^sup>*"

abbreviation block_span :: "int \<Rightarrow> Span" where
  "block_span base \<equiv> \<lparr>span_Base = base, span_Count = BlockSize\<rparr>"

text \<open>A chosen block cannot meet a row that is not a whole block of the grid: no such row is ever added.\<close>

definition on_grid :: "EnvRecord \<Rightarrow> bool" where
  "on_grid e \<longleftrightarrow> ValidBase (env_PortBase e) \<and> env_PortCount e = BlockSize"

definition choice_ok :: "env_table \<Rightarrow> int \<Rightarrow> bool" where
  "choice_ok t base \<longleftrightarrow> ValidBase base \<and>
     (\<forall>e \<in> set (rows t). \<not> on_grid e \<longrightarrow> \<not> Overlaps (env_span e) (block_span base))"

definition system_inv :: "env_system \<Rightarrow> bool" where
  "system_inv s \<longleftrightarrow> blocks_inv (fst s) \<and> (\<forall>base \<in> ran (snd s). choice_ok (fst s) base)"

lemma choice_ok_Allocate:
  assumes "blocks_inv t" "fst (Allocate canBind (block_allocator canBind t) 0) = Inr base"
  shows "choice_ok t base"
proof -
  have "free_block canBind (rows t) 0 base"
    using Allocate_Inr(1)[OF _ assms(2), of "rows t"] by (simp add: block_allocator_def canBind_of_def Envs_def)
  then show ?thesis using assms(1) by (force simp: choice_ok_def free_block_def blocks_inv_def table_inv_def)
qed

lemma on_grid_disjoint: "on_grid e \<Longrightarrow> ValidBase base \<Longrightarrow> env_PortBase e \<noteq> base \<Longrightarrow> \<not> Overlaps (env_span e) (block_span base)"
  using aligned_blocks_disjoint by (auto simp: on_grid_def env_span_def)

lemma insert_row_inv:
  assumes "blocks_inv t" "choice_ok t base" "CreateEnv now t (new_record req plan worktree now base ip) = Inr (r, t')"
  shows "blocks_inv t'" and "choice_ok t b \<Longrightarrow> choice_ok t' b"
proof -
  obtain row where row: "rows t' = rows t @ [row]" "env_ID row = next_id t" "env_PortBase row = base"
      "env_PortCount row = BlockSize" and fresh: "\<forall>e \<in> set (rows t). env_PortBase e \<noteq> base"
    by (rule CreateEnv_cases[OF assms(3)]) (simp add: new_record_def that)
  have grid: "on_grid row" using assms(2) row by (simp add: on_grid_def choice_ok_def)
  have span: "env_span row = block_span base" by (simp add: env_span_def row)
  have "\<not> Overlaps (env_span e) (env_span row)" if "e \<in> set (rows t)" for e
    using that assms(2) fresh on_grid_disjoint[of e base] by (cases "on_grid e") (auto simp: span choice_ok_def)
  moreover have "table_inv t'" using table_inv_CreateEnv[OF _ assms(3)] assms(1) by (simp add: blocks_inv_def)
  ultimately show "blocks_inv t'" using assms(1) by (auto simp: blocks_inv_def row(1) Overlaps_sym)
  show "choice_ok t' b" if "choice_ok t b" using that grid by (auto simp: choice_ok_def row(1))
qed

lemma row_updated: "update_row t i g = Inr t' \<Longrightarrow> same_keys g \<Longrightarrow> \<exists>i g. same_keys g \<and> update_row t i g = Inr t'"
  by blast

lemma updated_rows:
  assumes "updated t t'"
  obtains f where "same_keys f" "rows t' = map f (rows t)" "next_id t' = next_id t"
proof -
  from assms obtain now r i s at c b o' where "UpdateEnvStatus now t i s = Inr t' \<or> UpdateEnv now t r = Inr t' \<or>
      SetEnvOwner now t i s = Inr t' \<or> SetEnvVia now t i s = Inr t' \<or> RecordEnvPush now t i c b o' at = Inr t'"
    unfolding updated_def by (metis empty_iff insert_iff)
  then have "\<exists>i g. same_keys g \<and> update_row t i g = Inr t'"
    by (elim disjE) (auto simp: UpdateEnvStatus_def UpdateEnv_def SetEnvOwner_def SetEnvVia_def RecordEnvPush_def Let_def
      split: if_splits elim!: row_updated)
  then obtain i g where g: "same_keys g" "update_row t i g = Inr t'" by blast
  then have "rows t' = map (\<lambda>r. if env_ID r = i then g r else r) (rows t)" "next_id t' = next_id t"
    by (auto simp: update_row_def split: if_splits)
  moreover have "same_keys (\<lambda>r. if env_ID r = i then g r else r)" using g(1) by (simp add: same_keys_def)
  ultimately show thesis using that by blast
qed

lemma updated_inv:
  assumes "updated t t'"
  shows "blocks_inv t \<Longrightarrow> blocks_inv t'" and "choice_ok t b \<Longrightarrow> choice_ok t' b"
proof -
  obtain f where f: "same_keys f" "rows t' = map f (rows t)" "next_id t' = next_id t"
    using updated_rows[OF assms] .
  note keys = f(1)[unfolded same_keys_def, rule_format]
  show "choice_ok t' b" if "choice_ok t b"
    using that by (simp add: choice_ok_def f(2) on_grid_def env_span_def keys)
  show "blocks_inv t'" if "blocks_inv t"
    using that by (simp add: blocks_inv_def table_inv_def f(2,3) env_span_def keys comp_def)
qed

lemma system_inv_step: "env_step s s' \<Longrightarrow> system_inv s \<Longrightarrow> system_inv s'"
proof (induction rule: env_step.induct)
  case (choose_block canBind t base chosen i)
  then have "choice_ok t base" using choice_ok_Allocate by (simp add: system_inv_def)
  with choose_block show ?case by (auto simp: system_inv_def ran_def split: if_splits)
next
  case (insert_row chosen i base now t req plan worktree ip r t')
  then have "choice_ok t base" by (auto simp: system_inv_def ran_def)
  note ins = insert_row_inv[OF _ this insert_row.hyps(2)]
  show ?case using ins insert_row.prems by (auto simp: system_inv_def ran_def)
next
  case (refused chosen i base now t req plan worktree ip e)
  then show ?case by (auto simp: system_inv_def ran_def)
next
  case (update t t' chosen)
  then show ?case using updated_inv by (auto simp: system_inv_def)
next
  case (destroy t chosen i)
  then show ?case
    by (auto simp: system_inv_def blocks_inv_def table_inv_DeleteEnv choice_ok_def) (auto simp: DeleteEnv_def)
qed

lemma system_inv_steps: "env_steps s s' \<Longrightarrow> system_inv s \<Longrightarrow> system_inv s'"
  by (induction rule: rtranclp_induct) (auto intro: system_inv_step)

text \<open>C1: no two environments ever share a port. Take a table in which the port blocks of any two environments
  are disjoint, and any number of processes that create, update and destroy environments on it,
  interleaved in any way between the moment a create chooses its block and the moment it inserts
  its row: the blocks stay disjoint, and names, ids and addresses stay unique.\<close>

theorem env_blocks_stay_disjoint:
  assumes "blocks_inv t" "env_steps (t, Map.empty) (t', chosen)"
  shows "blocks_inv t'"
  using system_inv_steps[OF assms(2)] assms(1) by (simp add: system_inv_def)

definition example_table :: env_table where
  "example_table = \<lparr>rows = [example_env], next_id = 2, apps = [''shop'']\<rparr>"

definition example_create :: create_request where
  "example_create = \<lparr>req_App = ''shop'', req_Name = ''dev'', req_Mode = EnvModeDev, req_Protected = False, req_Identity = ''ana''\<rparr>"

definition example_plan :: branch_plan where
  "example_plan = \<lparr>plan_branch = ''dev'', plan_commit = ''c1''\<rparr>"

lemma example_table_inv: "blocks_inv example_table"
  by (simp add: blocks_inv_def table_inv_def example_table_def example_env_def)

lemma example_alloc: "fst (Allocate (\<lambda>_. True) (block_allocator (\<lambda>_. True) example_table) 0) = Inr 20032"
  by code_simp

lemma example_insert:
  "\<exists>r t'. CreateEnv 7 example_table (new_record example_create example_plan ''/v'' 7 20032 ''ip'') = Inr (r, t') \<and>
     map env_PortBase (rows t') = [20000, 20032]"
  by (simp add: CreateEnv_def Let_def new_record_def example_create_def example_table_def example_env_def EnvCreating_def)

theorem env_blocks_stay_disjoint_witness:
  "\<exists>t' chosen. blocks_inv example_table \<and> env_steps (example_table, Map.empty) (t', chosen) \<and>
     map env_PortBase (rows t') = [20000, 20032] \<and> blocks_inv t'"
proof -
  obtain r t' where c: "CreateEnv 7 example_table (new_record example_create example_plan ''/v'' 7 20032 ''ip'') = Inr (r, t')"
      and t': "map env_PortBase (rows t') = [20000, 20032]"
    using example_insert by (elim exE conjE)
  let ?p = "[0 \<mapsto> 20032] :: nat \<rightharpoonup> int"
  have "env_step (example_table, Map.empty) (example_table, ?p)" by (rule env_step.choose_block[OF example_alloc])
  moreover have "env_step (example_table, ?p) (t', ?p(0 := None))" using c by (intro env_step.insert_row[of ?p 0]) simp_all
  ultimately have steps: "env_steps (example_table, Map.empty) (t', ?p(0 := None))" by (rule converse_rtranclp_into_rtranclp[OF _ r_into_rtranclp])
  show ?thesis using example_table_inv steps t' env_blocks_stay_disjoint[OF example_table_inv steps] by (intro exI conjI)
qed

text \<open>The loop of \<^verbatim>\<open>createRow\<close> is made of steps of one process of the system, whatever steps the
  others take between its reading the table and its inserting the row.\<close>

lemma create_attempts_steps:
  assumes others: "\<And>n u P. \<exists>P'. env_steps (u, P) (interfere n u, P') \<and> P' i = P i"
    and "create_attempts canBind addr interfere req plan worktree now n t = (r, t')"
  shows "\<exists>P'. env_steps (t, P) (t', P')"
  using assms(2)
proof (induction n arbitrary: t P)
  case 0
  then show ?case by auto
next
  case (Suc n)
  show ?case
  proof (cases "fst (Allocate canBind (block_allocator canBind t) 0)")
    case (Inl e)
    with Suc.prems show ?thesis by auto
  next
    case alloc: (Inr base)
    show ?thesis
    proof (cases "addr t")
      case None
      with alloc Suc.prems show ?thesis by auto
    next
      case (Some ip)
      let ?t1 = "interfere n t" and ?new = "new_record req plan worktree now base ip"
      obtain P1 where "env_steps (t, P(i \<mapsto> base)) (?t1, P1)" and P1: "P1 i = Some base"
        using others[of t "P(i \<mapsto> base)" n] by auto
      then have path: "env_steps (t, P) (?t1, P1)"
        using converse_rtranclp_into_rtranclp[of env_step, OF env_step.choose_block[OF alloc]] by blast
      show ?thesis
      proof (cases "CreateEnv now ?t1 ?new")
        case (Inr c)
        obtain r2 t2 where c: "c = (r2, t2)" by (cases c)
        then have "t' = t2" using Suc.prems alloc Some Inr by (simp add: Let_def)
        then show ?thesis
          using rtranclp.rtrancl_into_rtrancl[OF path env_step.insert_row[of P1 i, OF P1 Inr[unfolded c]]] by auto
      next
        case (Inl e)
        note stop = rtranclp.rtrancl_into_rtrancl[OF path env_step.refused[of P1 i, OF P1 Inl]]
        have "t' = ?t1 \<or> create_attempts canBind addr interfere req plan worktree now n ?t1 = (r, t')"
          using Suc.prems alloc Some Inl by (auto simp: Let_def split: env_error.splits sum.splits)
        then show ?thesis
          using stop Suc.IH[of ?t1 "P1(i := None)"] rtranclp_trans[OF stop] by blast
      qed
    qed
  qed
qed

lemma createRow_blocks_disjoint:
  assumes "\<And>n u P. \<exists>P'. env_steps (u, P) (interfere n u, P') \<and> P' i = P i"
    and "createRow canBind addr interfere req plan worktree now t = (r, t')" "blocks_inv t"
  shows "blocks_inv t'"
  using create_attempts_steps[OF assms(1) assms(2)[unfolded createRow_def], of Map.empty] system_inv_steps assms(3)
  by (fastforce simp: system_inv_def)

section \<open>An undisturbed creation\<close>

text \<open>When nothing interferes and some block is free, \<^verbatim>\<open>createRow\<close> succeeds for a new name of a known app whose
  address is free: it returns a record with the next id and the lowest free block, and
  the table has gained one row, with that id and block under the app and the name, and nothing else.\<close>

theorem createRow_creates:
  assumes "blocks_inv t" "free_block canBind (rows t) 0 b" "addr t = Some ip"
    and "req_App req \<in> set (apps t)" "req_App req \<noteq> []" "req_Name req \<noteq> []"
    and "Env t (req_App req) (req_Name req) = Inl EnvNotFound"
    and "\<forall>e \<in> set (rows t). ip = [] \<or> env_VPNIP e \<noteq> ip"
  shows "\<exists>rec row t'. createRow canBind addr (\<lambda>_ u. u) req plan worktree now t = (Inr rec, t') \<and>
    rows t' = rows t @ [row] \<and> env_ID rec = next_id t \<and> env_ID row = next_id t \<and>
    env_PortBase rec = env_PortBase row \<and> free_block canBind (rows t) 0 (env_PortBase row) \<and>
    (\<forall>c. free_block canBind (rows t) 0 c \<longrightarrow> env_PortBase row \<le> c) \<and>
    Env t' (req_App req) (req_Name req) = Inr row \<and> env_VPNIP row = ip"
proof -
  let ?a = "block_allocator canBind t"
  have store: "alloc_Store ?a = Some (Some (rows t))" "canBind_of canBind ?a = canBind"
    by (simp_all add: block_allocator_def Envs_def canBind_of_def)
  obtain base where alloc: "fst (Allocate canBind ?a 0) = Inr base"
    using Allocate_total[OF store(1)] assms(2) store(2) by metis
  have free: "free_block canBind (rows t) 0 base" "\<And>c. free_block canBind (rows t) 0 c \<Longrightarrow> base \<le> c"
    using Allocate_Inr[OF store(1) alloc] by (simp_all add: store(2))
  let ?new = "new_record req plan worktree now base ip"
  have nobase: "env_PortBase e \<noteq> base" if "e \<in> set (rows t)" for e
  proof -
    have "env_PortBase e \<noteq> 0" using that assms(1) by (auto simp: blocks_inv_def table_inv_def)
    then have "\<not> Overlaps (env_span e) (block_span base)" using that free(1) by (simp add: free_block_def)
    then show ?thesis by (auto simp: Overlaps_def env_span_def span_End_def span_size_def BlockSize_def split: if_splits)
  qed
  have noname: "find (\<lambda>r. env_App r = req_App req \<and> env_Name r = req_Name req) (rows t) = None"
    using assms(7) by (simp add: Env_def split: option.splits)
  have "0 < base" using free(1) by (simp add: free_block_def ValidBase_def Base_def)
  then have "\<exists>rec row t'. CreateEnv now t ?new = Inr (rec, t') \<and> rows t' = rows t @ [row] \<and> env_ID rec = next_id t \<and>
      env_ID row = next_id t \<and> env_PortBase rec = base \<and> env_PortBase row = base \<and> env_VPNIP row = ip \<and>
      env_App row = req_App req \<and> env_Name row = req_Name req"
    using assms(4-6,8) nobase noname by (auto simp: CreateEnv_def new_record_def Let_def find_None_iff)
  then obtain rec row t' where c: "CreateEnv now t ?new = Inr (rec, t')" and t': "rows t' = rows t @ [row]"
      and r: "env_ID rec = next_id t" "env_ID row = next_id t" "env_PortBase rec = base" "env_PortBase row = base"
        "env_VPNIP row = ip" "env_App row = req_App req" "env_Name row = req_Name req"
    by blast
  have "createRow canBind addr (\<lambda>_ u. u) req plan worktree now t = (Inr rec, t')"
    by (simp add: createRow_def allocAttempts_def numeral_eq_Suc alloc assms(3) Let_def c)
  moreover have "Env t' (req_App req) (req_Name req) = Inr row"
    using noname r by (simp add: Env_def t' find_snoc)
  ultimately show ?thesis using t' r free by auto
qed

theorem createRow_creates_witness:
  "\<exists>rec row t'. createRow (\<lambda>_. True) (\<lambda>_. Some ''ip'') (\<lambda>_ u. u) example_create example_plan ''/v'' 7 example_table = (Inr rec, t') \<and>
    rows t' = rows example_table @ [row] \<and> env_ID row = 2 \<and> env_PortBase row = 20032 \<and>
    Env t' ''shop'' ''dev'' = Inr row"
proof -
  have free: "free_block (\<lambda>_. True) (rows example_table) 0 20032"
    using Allocate_Inr(1)[OF _ example_alloc, of "rows example_table"]
    by (simp add: block_allocator_def Envs_def canBind_of_def)
  have low: "20032 \<le> c" if "free_block (\<lambda>_. True) (rows example_table) 0 c" for c
    using Allocate_Inr(2)[OF _ example_alloc, of "rows example_table" c] that
    by (simp add: block_allocator_def Envs_def canBind_of_def)
  have "Env example_table (req_App example_create) (req_Name example_create) = Inl EnvNotFound"
    by (simp add: Env_def example_table_def example_env_def example_create_def)
  from createRow_creates[OF example_table_inv free, of "\<lambda>_. Some ''ip''" "''ip''" example_create example_plan "''/v''" 7, OF _ _ _ _ this]
  obtain rec row t' where c: "createRow (\<lambda>_. True) (\<lambda>_. Some ''ip'') (\<lambda>_ u. u) example_create example_plan ''/v'' 7 example_table = (Inr rec, t')"
      "rows t' = rows example_table @ [row]" "env_ID row = next_id example_table" "Env t' (req_App example_create) (req_Name example_create) = Inr row"
      and r: "free_block (\<lambda>_. True) (rows example_table) 0 (env_PortBase row)"
        "\<forall>c. free_block (\<lambda>_. True) (rows example_table) 0 c \<longrightarrow> env_PortBase row \<le> c"
    by (auto simp: example_table_def example_env_def example_create_def)
  have "env_PortBase row = 20032" using low[OF r(1)] r(2) free by force
  moreover have "next_id example_table = 2" "req_App example_create = ''shop''" "req_Name example_create = ''dev''"
    by (simp_all add: example_table_def example_create_def)
  ultimately show ?thesis using c by metis
qed

end
