(* ===== verification/PortLayout.thy ===== *)
theory PortLayout
  imports Ports
begin

text \<open>
  How an environment's port block is divided (\<^verbatim>\<open>internal/env/views.go\<close>): the first published
  service takes the base, the dependencies the ports after it, the other services the ports after
  those, and the further replicas the spare ports, one round of the published services at a time.
  Of a dependency the layout reads the name, and of a service plan the fields below.
\<close>

record svcPlan =
  plan_name :: string
  plan_port :: int
  plan_portless :: bool

record portLayout =
  lay_base :: int
  lay_count :: int
  lay_deps :: "string \<rightharpoonup> int"
  lay_services :: "string \<rightharpoonup> int"
  lay_containerPorts :: "string \<rightharpoonup> int"
  lay_order :: "string \<rightharpoonup> int"
  lay_spare :: int
  lay_published :: int

datatype layout_error =
    TooManyServices nat int int | TooManyDeps nat int | NoPublishedPort string
  | PastBlockEnd int string int int int

definition depPort :: "int \<Rightarrow> int \<Rightarrow> int" where
  "depPort base i = base + 1 + i"

text \<open>The loop over the services; \<open>next\<close> counts the published ones seen so far.\<close>

fun layout_services ::
  "int \<Rightarrow> int \<Rightarrow> nat \<Rightarrow> int \<Rightarrow> svcPlan list \<Rightarrow> int \<Rightarrow> portLayout \<Rightarrow> layout_error + (int \<times> portLayout)" where
  "layout_services base cnt ndeps after [] next l = Inr (next, l)"
| "layout_services base cnt ndeps after (s # ss) next l =
     (if plan_portless s then layout_services base cnt ndeps after ss next l
      else
        (let port = (if next > 0 then after + next - 1 else base);
             l1 = l\<lparr>lay_order := (lay_order l)(plan_name s \<mapsto> next)\<rparr>
         in if port \<ge> base + cnt then Inl (TooManyServices ndeps (next + 1) cnt)
            else layout_services base cnt ndeps after ss (next + 1)
                   (l1\<lparr>lay_services := (lay_services l1)(plan_name s \<mapsto> port),
                       lay_containerPorts := (lay_containerPorts l1)
                         (plan_name s \<mapsto> (if plan_port s > 0 then plan_port s else port))\<rparr>)))"

fun layout_deps :: "int \<Rightarrow> nat \<Rightarrow> string list \<Rightarrow> (string \<rightharpoonup> int) \<Rightarrow> (string \<rightharpoonup> int)" where
  "layout_deps base i [] m = m"
| "layout_deps base i (d # ds) m = layout_deps base (Suc i) ds (m(d \<mapsto> depPort base (int i)))"

definition layout :: "int \<Rightarrow> int \<Rightarrow> string list \<Rightarrow> svcPlan list \<Rightarrow> layout_error + portLayout" where
  "layout base cnt deps services =
     (let l = \<lparr>lay_base = base, lay_count = cnt,
               lay_deps = layout_deps base 0 deps Map.empty,
               lay_services = Map.empty, lay_containerPorts = Map.empty, lay_order = Map.empty, lay_spare = 0, lay_published = 0\<rparr>;
          after = base + 1 + int (length deps)
      in bind_result (layout_services base cnt (length deps) after services 0 l) (\<lambda>(next, l).
           if int (length deps) > cnt - 1 then Inl (TooManyDeps (length deps) cnt)
           else Inr (l\<lparr>lay_published := next, lay_spare := after + max (next - 1) 0\<rparr>)))"

definition replicaPort :: "portLayout \<Rightarrow> string \<Rightarrow> int \<Rightarrow> layout_error + int" where
  "replicaPort l service replica =
     (case lay_services l service of
        None \<Rightarrow> Inl (NoPublishedPort service)
      | Some primary \<Rightarrow>
          if replica \<le> 1 then Inr primary
          else
            (let ord = (case lay_order l service of None \<Rightarrow> 0 | Some k \<Rightarrow> k);
                 port = lay_spare l + (replica - 2) * lay_published l + ord
             in if port \<ge> lay_base l + lay_count l
                then Inl (PastBlockEnd replica service port (lay_base l) (lay_base l + lay_count l - 1))
                else Inr port))"

definition fits :: "portLayout \<Rightarrow> string \<Rightarrow> int \<Rightarrow> layout_error + unit" where
  "fits l service want = bind_result (replicaPort l service want) (\<lambda>_. Inr ())"

section \<open>What a layout holds\<close>

definition published :: "svcPlan list \<Rightarrow> string list" where
  "published services = map plan_name (filter (\<lambda>s. \<not> plan_portless s) services)"

text \<open>The port and the position of the \<open>k\<close>-th published service.\<close>

definition primary_port :: "int \<Rightarrow> int \<Rightarrow> nat \<Rightarrow> int" where
  "primary_port base after k = (if k = 0 then base else after + int k - 1)"

lemma published_simps [simp]:
  "published [] = []"
  "published (s # ss) = (if plan_portless s then published ss else plan_name s # published ss)"
  by (simp_all add: published_def)

text \<open>The loop extends the maps by the published services in order.\<close>

lemma layout_services_Inr:
  assumes "layout_services base cnt ndeps after ss (int k) l = Inr (n, l')"
    and "distinct (published ss)"
  shows "n = int (k + length (published ss)) \<and>
     lay_base l' = lay_base l \<and> lay_count l' = lay_count l \<and> lay_deps l' = lay_deps l \<and>
     (\<forall>s. s \<notin> set (published ss) \<longrightarrow> lay_services l' s = lay_services l s \<and> lay_order l' s = lay_order l s) \<and>
     (\<forall>i < length (published ss). lay_services l' (published ss ! i) = Some (primary_port base after (k + i)) \<and>
        lay_order l' (published ss ! i) = Some (int (k + i)) \<and> primary_port base after (k + i) < base + cnt)"
  using assms
proof (induction ss arbitrary: k l)
  case Nil
  then show ?case by simp
next
  case (Cons s ss)
  show ?case
  proof (cases "plan_portless s")
    case True
    with Cons show ?thesis by simp
  next
    case False
    let ?port = "primary_port base after k"
    let ?l = "l\<lparr>lay_order := (lay_order l)(plan_name s \<mapsto> int k),
            lay_services := (lay_services l)(plan_name s \<mapsto> ?port),
            lay_containerPorts := (lay_containerPorts l)
              (plan_name s \<mapsto> (if plan_port s > 0 then plan_port s else ?port))\<rparr>"
    have port: "(if int k > 0 then after + int k - 1 else base) = ?port"
      by (simp add: primary_port_def)
    from False Cons.prems(1) have lt: "?port < base + cnt" and
      rest: "layout_services base cnt ndeps after ss (int (Suc k)) ?l = Inr (n, l')"
      unfolding layout_services.simps Let_def port by (auto split: if_splits simp: add.commute)
    have IH: "n = int (Suc k + length (published ss)) \<and>
       lay_base l' = lay_base l \<and> lay_count l' = lay_count l \<and> lay_deps l' = lay_deps l \<and>
       (\<forall>s'. s' \<notin> set (published ss) \<longrightarrow> lay_services l' s' = lay_services ?l s' \<and> lay_order l' s' = lay_order ?l s') \<and>
       (\<forall>i < length (published ss). lay_services l' (published ss ! i) = Some (primary_port base after (Suc k + i)) \<and>
          lay_order l' (published ss ! i) = Some (int (Suc k + i)) \<and> primary_port base after (Suc k + i) < base + cnt)"
      using Cons.IH[OF rest] Cons.prems(2) False by simp
    have "plan_name s \<notin> set (published ss)" using Cons.prems(2) False by simp
    with IH False lt show ?thesis
      by (auto simp: nth_Cons split: nat.splits)
  qed
qed

text \<open>The port of replica \<open>r\<close> of the \<open>k\<close>-th of \<open>n\<close> published services.\<close>

definition replica_port :: "int \<Rightarrow> int \<Rightarrow> nat \<Rightarrow> nat \<Rightarrow> int \<Rightarrow> int" where
  "replica_port base after n k r =
     (if r \<le> 1 then primary_port base after k else after + int (n - 1) + (r - 2) * int n + int k)"

lemma quotient_remainder_unique:
  fixes a b x y n :: int
  assumes "a * n + x = b * n + y" and "0 \<le> x" "x < n" "0 \<le> y" "y < n"
  shows "a = b" and "x = y"
proof -
  have "(a * n + x) div n = a" "(b * n + y) div n = b" using assms(2-5) by simp_all
  then show "a = b" using assms(1) by metis
  with assms(1) show "x = y" by simp
qed

lemma primary_port_cases:
  "primary_port base after k = base \<and> k = 0 \<or> primary_port base after k = after + int k - 1 \<and> 0 < k"
  by (auto simp: primary_port_def)

lemma replica_port_inj:
  assumes "replica_port base after n k r = replica_port base after n k' r'"
    and "k < n" "k' < n" "base < after"
  shows "k = k'" and "max 1 r = max 1 r'"
proof -
  have spare: "after + int n - 1 \<le> replica_port base after n j q" if "2 \<le> q" "j < n" for j q
  proof -
    have "0 \<le> (q - 2) * int n" using that(1) by (intro mult_nonneg_nonneg) simp_all
    then show ?thesis using that by (simp add: replica_port_def of_nat_diff)
  qed
  have low: "primary_port base after j < after + int n - 1" if "j < n" for j
    using that assms(4) by (auto simp: primary_port_def)
  consider "r \<le> 1" "r' \<le> 1" | "r \<le> 1" "2 \<le> r'" | "2 \<le> r" "r' \<le> 1" | "2 \<le> r" "2 \<le> r'"
    by linarith
  then have "k = k' \<and> max 1 r = max 1 r'"
  proof cases
    case 1
    then show ?thesis
      using assms primary_port_cases[of base after k] primary_port_cases[of base after k']
      by (auto simp: replica_port_def)
  next
    case 2
    then have "replica_port base after n k r = primary_port base after k" by (simp add: replica_port_def)
    then show ?thesis using 2 assms spare[of r' k'] low[of k] by linarith
  next
    case 3
    then have "replica_port base after n k' r' = primary_port base after k'" by (simp add: replica_port_def)
    then show ?thesis using 3 assms spare[of r k] low[of k'] by linarith
  next
    case 4
    then have "(r - 2) * int n + int k = (r' - 2) * int n + int k'"
      using assms(1) by (simp add: replica_port_def)
    then have "r - 2 = r' - 2" "int k = int k'"
      using quotient_remainder_unique[of "r - 2" "int n" "int k" "r' - 2" "int k'"] assms(2,3) by auto
    then show ?thesis by simp
  qed
  then show "k = k'" "max 1 r = max 1 r'" by auto
qed

lemma layout_Inr:
  assumes "layout base cnt deps services = Inr l" and "distinct (published services)"
  shows "lay_base l = base" "lay_count l = cnt" "int (length deps) \<le> cnt - 1"
    and "lay_deps l = layout_deps base 0 deps Map.empty"
    and "replicaPort l s r = Inr p \<longleftrightarrow>
      (\<exists>k < length (published services). s = published services ! k \<and>
         p = replica_port base (base + 1 + int (length deps)) (length (published services)) k r \<and> p < base + cnt)"
proof -
  let ?after = "base + 1 + int (length deps)" and ?pub = "published services"
  define l0 where "l0 = \<lparr>lay_base = base, lay_count = cnt,
      lay_deps = layout_deps base 0 deps Map.empty,
      lay_services = Map.empty, lay_containerPorts = Map.empty, lay_order = Map.empty,
      lay_spare = 0, lay_published = 0\<rparr>"
  obtain n l1 where loop: "layout_services base cnt (length deps) ?after services (int 0) l0 = Inr (n, l1)"
    and fit: "int (length deps) \<le> cnt - 1"
    and l: "l = l1\<lparr>lay_published := n, lay_spare := ?after + max (n - 1) 0\<rparr>"
    using assms(1) by (auto simp: layout_def Let_def bind_result_Inr l0_def split: if_splits)
  note inv = layout_services_Inr[OF loop assms(2)]
  show "lay_base l = base" "lay_count l = cnt" "int (length deps) \<le> cnt - 1"
    and "lay_deps l = layout_deps base 0 deps Map.empty"
    using inv fit by (simp_all add: l l0_def)
  have none: "lay_services l s = None" if "s \<notin> set ?pub"
    using inv that by (simp add: l l0_def)
  have some: "lay_services l (?pub ! k) = Some (primary_port base ?after k)"
    "lay_order l (?pub ! k) = Some (int k)" "primary_port base ?after k < base + cnt"
    if "k < length ?pub" for k
    using inv that by (simp_all add: l)
  have spare: "lay_spare l = ?after + int (length ?pub - 1)" "lay_published l = int (length ?pub)"
    using inv by (auto simp: l)
  have at: "replicaPort l (?pub ! k) r = Inr p \<longleftrightarrow>
      p = replica_port base ?after (length ?pub) k r \<and> p < base + cnt" if "k < length ?pub" for k
  proof -
    have bounds: "lay_base l = base" "lay_count l = cnt" using inv by (simp_all add: l l0_def)
    show ?thesis
      using some[OF that]
      by (cases "r \<le> 1") (auto simp: replicaPort_def replica_port_def spare Let_def bounds)
  qed
  show "replicaPort l s r = Inr p \<longleftrightarrow>
      (\<exists>k < length ?pub. s = ?pub ! k \<and> p = replica_port base ?after (length ?pub) k r \<and> p < base + cnt)"
  proof (cases "s \<in> set ?pub")
    case True
    then obtain k where k: "k < length ?pub" "s = ?pub ! k" by (auto simp: in_set_conv_nth)
    have "j = k" if "j < length ?pub" "s = ?pub ! j" for j
      using nth_eq_iff_index_eq[OF assms(2) that(1) k(1)] that(2) k(2) by simp
    with k(1,2) at[OF k(1)] show ?thesis by metis
  next
    case False
    then show ?thesis using none by (auto simp: replicaPort_def)
  qed
qed

lemma layout_deps_range:
  "layout_deps base n deps m d = Some p \<Longrightarrow>
   m d = Some p \<or> base + int n < p \<and> p \<le> base + int n + int (length deps)"
proof (induction deps arbitrary: n m)
  case Nil
  then show ?case by simp
next
  case (Cons x deps)
  from Cons.prems have "layout_deps base (Suc n) deps
      (m(x \<mapsto> depPort base (int n))) d = Some p"
    by simp
  from Cons.IH[OF this] show ?case
    by (auto simp: depPort_def split: if_splits)
qed

text \<open>The ports a layout hands out: a dependency's, and a replica's of a service.\<close>

datatype port_user = DepUser string | ReplicaUser string int

fun port_of :: "portLayout \<Rightarrow> port_user \<Rightarrow> int option" where
  "port_of l (DepUser d) = lay_deps l d"
| "port_of l (ReplicaUser s r) = (case replicaPort l s r of Inl _ \<Rightarrow> None | Inr p \<Rightarrow> Some p)"

lemma layout_deps_inj:
  assumes "distinct deps" "\<forall>d \<in> set deps. m d = None"
    and "layout_deps base n deps m d = Some p"
    and "layout_deps base n deps m d' = Some p"
    and "m d = None" "m d' = None"
  shows "d = d'"
  using assms
proof (induction deps arbitrary: n m)
  case Nil
  then show ?case by simp
next
  case (Cons x deps)
  let ?m = "m(x \<mapsto> depPort base (int n))"
  let ?f = "layout_deps base (Suc n) deps ?m"
  have eqs: "?f d = Some p" "?f d' = Some p" using Cons.prems(3,4) by simp_all
  have frame: "q \<notin> set ds \<Longrightarrow>
      layout_deps base j ds m' q = m' q" for q ds j m'
    by (induction ds arbitrary: j m') auto
  have fx: "?f x = Some (depPort base (int n))" using Cons.prems(1) by (subst frame) auto
  have other: "base + int (Suc n) < p" if "?f q = Some p" "q \<noteq> x" "m q = None" for q
    using layout_deps_range[OF that(1)] that(2,3) by auto
  show ?case
  proof (cases "d = x \<or> d' = x")
    case True
    show ?thesis
    proof (rule ccontr)
      assume "d \<noteq> d'"
      moreover have "p = base + 1 + int n" using True eqs fx by (auto simp: depPort_def)
      ultimately show False using True eqs other[of d] other[of d'] Cons.prems(5,6) by auto
    qed
  next
    case False
    then have "?m d = None" "?m d' = None" "\<forall>d \<in> set deps. ?m d = None"
      using Cons.prems(1,2,5,6) by auto
    then show ?thesis using Cons.IH eqs Cons.prems(1) by (meson distinct.simps(2))
  qed
qed

lemma replica_port_dep:
  "k < n \<Longrightarrow> 0 \<le> D \<Longrightarrow> replica_port base (base + 1 + D) n k r \<le> base \<or>
     base + D < replica_port base (base + 1 + D) n k r"
  "k < n \<Longrightarrow> 0 \<le> D \<Longrightarrow> base \<le> replica_port base (base + 1 + D) n k r"
proof -
  assume "k < n" "0 \<le> D"
  moreover have "0 < int n + ((r - 2) * int n + int k)" if "\<not> r \<le> 1" "k < n" for k
  proof -
    have "0 \<le> (r - 2) * int n" using that by (intro mult_nonneg_nonneg) simp_all
    then show ?thesis using that by linarith
  qed
  ultimately show "replica_port base (base + 1 + D) n k r \<le> base \<or>
     base + D < replica_port base (base + 1 + D) n k r" "base \<le> replica_port base (base + 1 + D) n k r"
    by (auto simp: replica_port_def primary_port_def)
qed

lemma replica_port_max: "max 1 r = max 1 r' \<Longrightarrow> replica_port b a n k r = replica_port b a n k r'"
  by (auto simp: replica_port_def max_def split: if_splits)

lemma layout_dep_port:
  assumes "layout base cnt deps services = Inr l" "distinct (published services)" "lay_deps l d = Some p"
  shows "base < p \<and> p \<le> base + int (length deps)"
  using layout_deps_range[of base 0 deps Map.empty d p] assms(3) by (simp add: layout_Inr(4)[OF assms(1,2)])

lemma layout_replica_port:
  assumes "layout base cnt deps services = Inr l" "distinct (published services)" "port_of l (ReplicaUser s r) = Some p"
  obtains k where "k < length (published services)" "s = published services ! k" "p < base + cnt"
    "p = replica_port base (base + 1 + int (length deps)) (length (published services)) k r"
  using assms(3) layout_Inr(5)[OF assms(1,2), of s r p] by (auto split: sum.splits)

lemma layout_port_in_block:
  assumes "layout base cnt deps services = Inr l" "distinct (published services)" "port_of l u = Some p"
  shows "base \<le> p \<and> p < base + cnt"
proof (cases u)
  case (DepUser d)
  then show ?thesis using assms(3) layout_dep_port[OF assms(1,2), of d p] layout_Inr(3)[OF assms(1,2)] by simp
next
  case (ReplicaUser s r)
  then show ?thesis using layout_replica_port[OF assms(1,2)] assms(3) replica_port_dep(2) by (metis of_nat_0_le_iff)
qed

lemma layout_dep_apart:
  assumes "layout base cnt deps services = Inr l" "distinct (published services)"
    and "port_of l (DepUser d) = Some p" "port_of l (ReplicaUser s r) = Some q"
  shows "p \<noteq> q"
proof -
  obtain k where "k < length (published services)"
      "q = replica_port base (base + 1 + int (length deps)) (length (published services)) k r"
    using layout_replica_port[OF assms(1,2,4)] .
  then show ?thesis
    using layout_dep_port[OF assms(1,2), of d p] assms(3)
      replica_port_dep(1)[of k "length (published services)" "int (length deps)" base r] by auto
qed

lemma layout_replicas_apart:
  assumes "layout base cnt deps services = Inr l" "distinct (published services)"
    and "port_of l (ReplicaUser s r) = Some p" "port_of l (ReplicaUser s' r') = Some q"
  shows "p = q \<longleftrightarrow> s = s' \<and> max 1 r = max 1 r'"
proof -
  let ?pub = "published services" and ?after = "base + 1 + int (length deps)"
  obtain k where k: "k < length ?pub" "s = ?pub ! k" "p = replica_port base ?after (length ?pub) k r"
    using layout_replica_port[OF assms(1-3)] .
  obtain j where j: "j < length ?pub" "s' = ?pub ! j" "q = replica_port base ?after (length ?pub) j r'"
    using layout_replica_port[OF assms(1,2,4)] .
  have "p = q \<longleftrightarrow> k = j \<and> max 1 r = max 1 r'"
    using replica_port_inj[of base ?after "length ?pub" k r j r'] k(1,3) j(1,3) replica_port_max[of r r'] by auto
  also have "k = j \<longleftrightarrow> s = s'"
    using k(2) j(2) nth_eq_iff_index_eq[OF assms(2) k(1) j(1)] by simp
  finally show ?thesis .
qed


definition example_services :: "svcPlan list" where
  "example_services = [\<lparr>plan_name = ''web'', plan_port = 80, plan_portless = False\<rparr>,
     \<lparr>plan_name = ''cron'', plan_port = 0, plan_portless = True\<rparr>, \<lparr>plan_name = ''api'', plan_port = 0, plan_portless = False\<rparr>]"


end
