(* ===== verification/EdgeTable.thy ===== *)
theory EdgeTable
  imports GoStrings
begin

text \<open>
  The edge's routing table (\<^verbatim>\<open>internal/edge/edge.go\<close>): kinds, target states, targets, routes and
  the table's operations. The string types \<^verbatim>\<open>Kind\<close>, \<^verbatim>\<open>TargetState\<close> and \<^verbatim>\<open>MarkKind\<close> are datatypes with
  one constructor per named constant and one for every other string.
\<close>

section \<open>Data\<close>

datatype Kind = KindHTTPS | KindTLS | KindTLSPassthrough | KindTCP | KindUDP | KindVia | OtherKind string

definition Kinds :: "Kind list" where
  "Kinds = [KindHTTPS, KindTLS, KindTLSPassthrough, KindTCP, KindUDP, KindVia]"

definition kind_Supported :: "Kind \<Rightarrow> bool" where
  "kind_Supported k \<longleftrightarrow> k = KindHTTPS \<or> k = KindVia"

definition kind_Known :: "Kind \<Rightarrow> bool" where
  "kind_Known k \<longleftrightarrow> k \<in> set Kinds"

datatype TargetState =
    TargetStarting | TargetActive | TargetDraining | TargetStopped | TargetUnhealthy | TargetHeld
  | OtherState string

definition TargetStates :: "TargetState list" where
  "TargetStates = [TargetStarting, TargetActive, TargetDraining, TargetStopped, TargetUnhealthy, TargetHeld]"

definition Routable :: "TargetState \<Rightarrow> bool" where
  "Routable s \<longleftrightarrow> s = TargetActive"

definition state_Valid :: "TargetState \<Rightarrow> bool" where
  "state_Valid s \<longleftrightarrow> s \<in> set TargetStates"

record Target =
  tgt_Replica :: int
  tgt_Port :: int
  tgt_State :: TargetState
  tgt_Inflight :: int
  tgt_Since :: gtime
  tgt_Detail :: string

definition TargetHost :: string where
  "TargetHost = ''127.0.0.1''"

definition target_Addr :: "Target \<Rightarrow> string" where
  "target_Addr t = JoinHostPort TargetHost (Itoa (tgt_Port t))"

record Route =
  rt_Host :: string
  rt_Kind :: Kind
  rt_App :: string
  rt_Env :: string
  rt_Service :: string
  rt_Targets :: "Target list"
  rt_Via :: string
  rt_Drain :: duration
  rt_CreatedAt :: gtime

definition route_Target :: "Route \<Rightarrow> int \<Rightarrow> Target option" where
  "route_Target r replica = find (\<lambda>t. tgt_Replica t = replica) (rt_Targets r)"

definition route_Active :: "Route \<Rightarrow> Target list" where
  "route_Active r = filter (\<lambda>t. Routable (tgt_State t)) (rt_Targets r)"

definition route_Inflight :: "Route \<Rightarrow> int" where
  "route_Inflight r = foldl (\<lambda>n t. n + tgt_Inflight t) 0 (rt_Targets r)"

record Ingress =
  ing_Enabled :: bool
  ing_Port :: int
  ing_Trusted :: "string list"

record Table =
  tbl_Routes :: "Route list"
  tbl_Ingress :: "Ingress option"
  tbl_UpdatedAt :: gtime

datatype MarkKind = MarkStart | MarkDone | MarkFail | MarkState | OtherMark string

record Mark =
  mk_Replica :: int
  mk_Kind :: MarkKind
  mk_State :: TargetState
  mk_At :: gtime
  mk_Detail :: string

abbreviation FailureWindow :: duration where
  "FailureWindow \<equiv> 5 * second"

section \<open>Operations\<close>

definition NormalizeHost :: "string \<Rightarrow> string" where
  "NormalizeHost s0 =
     (let s = TrimSpace s0
      in if s = [] then []
         else (let s1 = (case SplitHostPort s of Some (h, _) \<Rightarrow> h | None \<Rightarrow> s)
               in ToLower (TrimSuffix s1 ''.'')))"

definition table_Route :: "Table \<Rightarrow> string \<Rightarrow> Route option" where
  "table_Route t host = find (\<lambda>r. rt_Host r = NormalizeHost host) (tbl_Routes t)"

definition table_Has :: "Table \<Rightarrow> string \<Rightarrow> bool" where
  "table_Has t host \<longleftrightarrow> table_Route t host \<noteq> None"

definition table_Hosts :: "Table \<Rightarrow> string list" where
  "table_Hosts t = sort (map rt_Host (tbl_Routes t))"

fun put_route :: "Route list \<Rightarrow> Route \<Rightarrow> Route list" where
  "put_route [] r = [r]"
| "put_route (x # xs) r = (if rt_Host x = rt_Host r then r # xs else x # put_route xs r)"

definition table_Put :: "Table \<Rightarrow> Route \<Rightarrow> Table" where
  "table_Put t r = t\<lparr>tbl_Routes := put_route (tbl_Routes t) (r\<lparr>rt_Host := NormalizeHost (rt_Host r)\<rparr>)\<rparr>"

fun remove_route :: "Route list \<Rightarrow> string \<Rightarrow> (Route list) option" where
  "remove_route [] host = None"
| "remove_route (x # xs) host =
     (if rt_Host x \<noteq> host then map_option ((#) x) (remove_route xs host) else Some xs)"

definition table_Remove :: "Table \<Rightarrow> string \<Rightarrow> Table \<times> bool" where
  "table_Remove t host =
     (case remove_route (tbl_Routes t) (NormalizeHost host) of
        Some rs \<Rightarrow> (t\<lparr>tbl_Routes := rs\<rparr>, True)
      | None \<Rightarrow> (t, False))"

text \<open>The copy shares nothing with the table; its value is the same.\<close>

definition table_Clone :: "Table \<Rightarrow> Table" where
  "table_Clone t =
     \<lparr>tbl_Routes = map (\<lambda>r. r\<lparr>rt_Targets := [] @ rt_Targets r\<rparr>) (tbl_Routes t),
      tbl_Ingress = map_option (\<lambda>ing. ing\<lparr>ing_Trusted := [] @ ing_Trusted ing\<rparr>) (tbl_Ingress t),
      tbl_UpdatedAt = tbl_UpdatedAt t\<rparr>"

datatype edge_error =
    NeedsHost | DuplicateRoute string | UnknownKind string Kind | UnsupportedKind string Kind
  | ViaNeedsMachine string | ViaOnlyForVia string Kind
  | NotAReplica string int | ReplicaTwice string int | PortRange string int int
  | UnknownState string int TargetState | NoReplica string int | UnknownMark string MarkKind

fun validate_targets :: "string \<Rightarrow> int list \<Rightarrow> Target list \<Rightarrow> edge_error + unit" where
  "validate_targets host replicas [] = Inr ()"
| "validate_targets host replicas (tg # tgs) =
     (if tgt_Replica tg < 1 then Inl (NotAReplica host (tgt_Replica tg))
      else if tgt_Replica tg \<in> set replicas then Inl (ReplicaTwice host (tgt_Replica tg))
      else if tgt_Port tg < 1 \<or> tgt_Port tg > 65535 then Inl (PortRange host (tgt_Replica tg) (tgt_Port tg))
      else if \<not> state_Valid (tgt_State tg) then Inl (UnknownState host (tgt_Replica tg) (tgt_State tg))
      else validate_targets host (tgt_Replica tg # replicas) tgs)"

fun validate_routes :: "string list \<Rightarrow> Route list \<Rightarrow> edge_error + unit" where
  "validate_routes seen [] = Inr ()"
| "validate_routes seen (r # rs) =
     (let host = NormalizeHost (rt_Host r)
      in if host = [] then Inl NeedsHost
         else if host \<in> set seen then Inl (DuplicateRoute host)
         else if \<not> kind_Known (rt_Kind r) then Inl (UnknownKind host (rt_Kind r))
         else if \<not> kind_Supported (rt_Kind r) then Inl (UnsupportedKind host (rt_Kind r))
         else if rt_Kind r = KindVia \<and> rt_Via r = [] then Inl (ViaNeedsMachine host)
         else if rt_Kind r \<noteq> KindVia \<and> rt_Via r \<noteq> [] then Inl (ViaOnlyForVia host (rt_Kind r))
         else bind_result (validate_targets host [] (rt_Targets r)) (\<lambda>_.
                validate_routes (host # seen) rs))"

definition table_Validate :: "Table \<Rightarrow> edge_error + unit" where
  "table_Validate t = validate_routes [] (tbl_Routes t)"

section \<open>What validation accepts\<close>

definition target_ok :: "Target \<Rightarrow> bool" where
  "target_ok t \<longleftrightarrow> 1 \<le> tgt_Replica t \<and> 1 \<le> tgt_Port t \<and> tgt_Port t \<le> 65535 \<and> state_Valid (tgt_State t)"

definition targets_ok :: "Route \<Rightarrow> bool" where
  "targets_ok r \<longleftrightarrow> distinct (map tgt_Replica (rt_Targets r)) \<and> (\<forall>t \<in> set (rt_Targets r). target_ok t)"

definition route_ok :: "Route \<Rightarrow> bool" where
  "route_ok r \<longleftrightarrow> NormalizeHost (rt_Host r) \<noteq> [] \<and>
     (rt_Kind r = KindHTTPS \<and> rt_Via r = [] \<or> rt_Kind r = KindVia \<and> rt_Via r \<noteq> []) \<and> targets_ok r"

definition table_ok :: "Table \<Rightarrow> bool" where
  "table_ok t \<longleftrightarrow> distinct (map (\<lambda>r. NormalizeHost (rt_Host r)) (tbl_Routes t)) \<and> (\<forall>r \<in> set (tbl_Routes t). route_ok r)"

lemma validate_targets_iff:
  "validate_targets host replicas tgs = Inr () \<longleftrightarrow>
     distinct (map tgt_Replica tgs) \<and> (\<forall>t \<in> set tgs. target_ok t \<and> tgt_Replica t \<notin> set replicas)"
  by (induction tgs arbitrary: replicas) (auto simp: target_ok_def image_iff)

lemma supported_kinds: "kind_Known k \<and> kind_Supported k \<longleftrightarrow> k = KindHTTPS \<or> k = KindVia"
  by (auto simp: kind_Known_def kind_Supported_def Kinds_def)

lemma validate_routes_iff:
  "validate_routes seen rs = Inr () \<longleftrightarrow>
     distinct (map (\<lambda>r. NormalizeHost (rt_Host r)) rs) \<and>
     (\<forall>r \<in> set rs. route_ok r \<and> NormalizeHost (rt_Host r) \<notin> set seen)"
proof (induction rs arbitrary: seen)
  case Nil
  then show ?case by simp
next
  case (Cons r rs)
  have step: "validate_routes seen (r # rs) = Inr () \<longleftrightarrow>
      route_ok r \<and> NormalizeHost (rt_Host r) \<notin> set seen \<and>
      validate_routes (NormalizeHost (rt_Host r) # seen) rs = Inr ()"
    using supported_kinds[of "rt_Kind r"]
    by (auto simp: Let_def bind_result_Inr validate_targets_iff route_ok_def targets_ok_def)
  show ?case unfolding step Cons.IH by (auto simp: image_iff)
qed

text \<open>\<^verbatim>\<open>Table.Validate\<close> accepts exactly the well-formed tables: every route has a host, no two
  routes have the same host after normalization, every route is an https route with no machine
  or a via route with one, and its targets have distinct replica numbers from 1 on, ports of
  the TCP range and known states.\<close>

theorem Validate_iff_table_ok: "table_Validate t = Inr () \<longleftrightarrow> table_ok t"
  by (auto simp: table_Validate_def table_ok_def validate_routes_iff)

section \<open>The table as a map from hosts to routes\<close>

text \<open>The interface of a store of records under normalized keys, whatever the store looks like.\<close>

locale keyed_store =
  fixes inv :: "'s \<Rightarrow> bool"
    and norm :: "'k \<Rightarrow> 'n"
    and key :: "'v \<Rightarrow> 'k"
    and lookup :: "'s \<Rightarrow> 'k \<Rightarrow> 'v option"
    and put :: "'s \<Rightarrow> 'v \<Rightarrow> 's"
    and stored :: "'v \<Rightarrow> 'v"
    and remove :: "'s \<Rightarrow> 'k \<Rightarrow> 's"
  assumes put_inv: "inv s \<Longrightarrow> inv (put s v)"
    and remove_inv: "inv s \<Longrightarrow> inv (remove s k)"
    and lookup_put: "inv s \<Longrightarrow> lookup (put s v) k = (if norm k = norm (key v) then Some (stored v) else lookup s k)"
    and lookup_remove: "inv s \<Longrightarrow> lookup (remove s k') k = (if norm k = norm k' then None else lookup s k)"
begin

text \<open>The later of two writes under one key wins, and writes under different keys commute.\<close>

lemma put_put_same:
  "inv s \<Longrightarrow> norm (key v) = norm (key w) \<Longrightarrow> lookup (put (put s v) w) k = lookup (put s w) k"
  by (simp add: lookup_put put_inv)

lemma put_commute:
  "inv s \<Longrightarrow> norm (key v) \<noteq> norm (key w) \<Longrightarrow> lookup (put (put s v) w) k = lookup (put (put s w) v) k"
  by (simp add: lookup_put put_inv)

lemma remove_put: "inv s \<Longrightarrow> norm k' = norm (key v) \<Longrightarrow> lookup (remove (put s v) k') k = lookup (remove s k') k"
  by (simp add: lookup_put lookup_remove put_inv)

end

definition hosts_distinct :: "Table \<Rightarrow> bool" where
  "hosts_distinct t \<longleftrightarrow> distinct (map rt_Host (tbl_Routes t))"

lemma put_route_hosts:
  "set (map rt_Host (put_route rs r)) = insert (rt_Host r) (set (map rt_Host rs))"
  "distinct (map rt_Host rs) \<Longrightarrow> distinct (map rt_Host (put_route rs r))"
  by (induction rs) auto

lemma find_put_route:
  "find (\<lambda>x. rt_Host x = h) (put_route rs r) =
     (if rt_Host r = h then Some r else find (\<lambda>x. rt_Host x = h) rs)"
  by (induction rs) auto

lemma remove_route_None: "remove_route rs h = None \<longleftrightarrow> h \<notin> rt_Host ` set rs"
  by (induction rs) auto

lemma remove_route_Some:
  "remove_route rs h = Some rs' \<Longrightarrow> distinct (map rt_Host rs) \<Longrightarrow> rs' = filter (\<lambda>r. rt_Host r \<noteq> h) rs"
proof (induction rs arbitrary: rs')
  case Nil
  then show ?case by simp
next
  case (Cons x xs)
  show ?case
  proof (cases "rt_Host x = h")
    case True
    then have "filter (\<lambda>r. rt_Host r \<noteq> h) xs = xs"
      using Cons.prems(2) by (auto simp: filter_id_conv image_iff)
    then show ?thesis using True Cons.prems(1) by simp
  next
    case False
    then show ?thesis using Cons by auto
  qed
qed

lemma Remove_filter:
  assumes "hosts_distinct t"
  shows "fst (table_Remove t h) =
    t\<lparr>tbl_Routes := filter (\<lambda>r. rt_Host r \<noteq> NormalizeHost h) (tbl_Routes t)\<rparr>"
proof (cases "remove_route (tbl_Routes t) (NormalizeHost h)")
  case None
  then have "filter (\<lambda>r. rt_Host r \<noteq> NormalizeHost h) (tbl_Routes t) = tbl_Routes t"
    by (auto simp: filter_id_conv remove_route_None image_iff)
  then show ?thesis by (simp add: table_Remove_def None)
next
  case (Some rs)
  then show ?thesis
    using remove_route_Some[OF Some] assms by (simp add: table_Remove_def hosts_distinct_def)
qed

lemma find_filter_neq:
  "find (\<lambda>r. f r = k) (filter (\<lambda>r. f r \<noteq> k') xs) = (if k = k' then None else find (\<lambda>r. f r = k) xs)"
  by (induction xs) (auto simp: find_None_iff)

interpretation routes: keyed_store hosts_distinct NormalizeHost rt_Host table_Route table_Put
  "\<lambda>r. r\<lparr>rt_Host := NormalizeHost (rt_Host r)\<rparr>" "\<lambda>t h. fst (table_Remove t h)"
proof unfold_locales
  fix t r h h'
  assume t: "hosts_distinct t"
  show "hosts_distinct (table_Put t r)"
    using t by (simp add: hosts_distinct_def table_Put_def put_route_hosts(2))
  show "hosts_distinct (fst (table_Remove t h))"
    unfolding Remove_filter[OF t] using t by (simp add: hosts_distinct_def distinct_map_filter)
  show "table_Route (table_Put t r) h =
      (if NormalizeHost h = NormalizeHost (rt_Host r) then Some (r\<lparr>rt_Host := NormalizeHost (rt_Host r)\<rparr>)
       else table_Route t h)"
    by (auto simp: table_Route_def table_Put_def find_put_route)
  show "table_Route (fst (table_Remove t h')) h =
      (if NormalizeHost h = NormalizeHost h' then None else table_Route t h)"
    unfolding Remove_filter[OF t] table_Route_def by (simp add: find_filter_neq)
qed

text \<open>C26: on a table without duplicate hosts, \<^verbatim>\<open>Put\<close> and \<^verbatim>\<open>Remove\<close> act as update and deletion of a map
  from normalized hosts: after \<^verbatim>\<open>Put\<close> the route is found under every spelling of its host and
  every other host is untouched, after \<^verbatim>\<open>Remove\<close> the host is gone and nothing else is, the
  result says whether it was there, a removal undoes the insertion of a new host, and
  no operation makes a duplicate.\<close>

theorem table_is_a_map:
  assumes "hosts_distinct t"
  shows "table_Route (table_Put t r) h =
      (if NormalizeHost h = NormalizeHost (rt_Host r) then Some (r\<lparr>rt_Host := NormalizeHost (rt_Host r)\<rparr>)
       else table_Route t h) \<and>
    table_Route (fst (table_Remove t h')) h =
      (if NormalizeHost h = NormalizeHost h' then None else table_Route t h) \<and>
    snd (table_Remove t h') = table_Has t h' \<and>
    (\<not> table_Has t (rt_Host r) \<longrightarrow> fst (table_Remove (table_Put t r) (rt_Host r)) = t) \<and>
    hosts_distinct (table_Put t r) \<and> hosts_distinct (fst (table_Remove t h'))"
proof -
  have absent: "filter (\<lambda>x. rt_Host x \<noteq> rt_Host q) (put_route rs q) = rs"
    if "rt_Host q \<notin> rt_Host ` set rs" for q rs
    using that by (induction rs) auto
  have "snd (table_Remove t h') = table_Has t h'"
    using remove_route_None[of "tbl_Routes t" "NormalizeHost h'"]
    by (auto simp: table_Remove_def table_Has_def table_Route_def find_None_iff image_iff
        split: option.split)
  moreover have "fst (table_Remove (table_Put t r) (rt_Host r)) = t" if "\<not> table_Has t (rt_Host r)"
  proof -
    let ?q = "r\<lparr>rt_Host := NormalizeHost (rt_Host r)\<rparr>"
    have "rt_Host ?q \<notin> rt_Host ` set (tbl_Routes t)"
      using that by (auto simp: table_Has_def table_Route_def find_None_iff)
    from absent[OF this] show ?thesis
      unfolding Remove_filter[OF routes.put_inv[OF assms]] by (simp add: table_Put_def)
  qed
  ultimately show ?thesis
    using routes.lookup_put[OF assms] routes.lookup_remove[OF assms]
      routes.put_inv[OF assms] routes.remove_inv[OF assms] by blast
qed

definition example_via :: "string \<Rightarrow> Route" where
  "example_via host = \<lparr>rt_Host = host, rt_Kind = KindVia, rt_App = ''shop'', rt_Env = ''main'', rt_Service = ''web'',
     rt_Targets = [], rt_Via = ''box'', rt_Drain = 0, rt_CreatedAt = 10\<rparr>"

definition example_routes :: Table where
  "example_routes = \<lparr>tbl_Routes = [example_via ''b''], tbl_Ingress = None, tbl_UpdatedAt = 0\<rparr>"

theorem table_is_a_map_witness:
  "hosts_distinct example_routes \<and>
   table_Route (table_Put example_routes (example_via ''A.'')) ''a:80'' = Some (example_via ''a'') \<and>
   table_Route (table_Put example_routes (example_via ''A.'')) ''b'' = Some (example_via ''b'') \<and>
   fst (table_Remove (table_Put example_routes (example_via ''A.'')) ''A.'') = example_routes"
proof -
  have d: "hosts_distinct example_routes" by (simp add: hosts_distinct_def example_routes_def)
  have n: "NormalizeHost ''A.'' = ''a''" "NormalizeHost ''a:80'' = ''a''" "NormalizeHost ''b'' = ''b''" by code_simp+
  have "rt_Host (example_via ''A.'') = ''A.''" "(example_via ''A.'')\<lparr>rt_Host := ''a''\<rparr> = example_via ''a''"
    "table_Route example_routes ''b'' = Some (example_via ''b'')" "\<not> table_Has example_routes ''A.''"
    by (simp_all add: table_Has_def table_Route_def n example_routes_def example_via_def)
  with table_is_a_map[OF d, of "example_via ''A.''" "''a:80''" "''A.''"]
    table_is_a_map[OF d, of "example_via ''A.''" "''b''" "''A.''"] d
  show ?thesis by (simp add: n)
qed

end
