(* ===== verification/EdgePool.thy ===== *)
theory EdgePool
  imports EdgeTable
begin

text \<open>
  The pool of a route's targets (\<^verbatim>\<open>internal/edge/pool.go\<close> and \<^verbatim>\<open>counts.go\<close>). Every operation is a
  function of the pool: the clock's reading is the argument \<open>now\<close>, the events to be emitted and the
  targets handed to \<^verbatim>\<open>onDraining\<close> are part of the result, and the process-wide counter of
  incarnations is threaded through \<open>install\<close>. A cancel function of a connection is a number that names
  it; Go's choice of a map entry in \<^verbatim>\<open>anyConn\<close> is the argument \<open>rnd\<close>. The mutex makes each
  operation atomic, so an execution of the pool is a sequence of them.
\<close>

section \<open>Events\<close>

datatype EventKind = EventTarget | EventDrained | EventCertificate | EventTable

record Event =
  ev_Kind :: EventKind
  ev_Host :: string
  ev_Target :: "Target option"
  ev_Deadline :: bool
  ev_Detail :: string
  ev_At :: gtime

definition targetEvent :: "string \<Rightarrow> Target \<Rightarrow> gtime \<Rightarrow> Event" where
  "targetEvent host t at = \<lparr>ev_Kind = EventTarget, ev_Host = host, ev_Target = Some t, ev_Deadline = False,
     ev_Detail = tgt_Detail t, ev_At = at\<rparr>"

definition drainedEvent :: "string \<Rightarrow> Target \<Rightarrow> bool \<Rightarrow> int \<Rightarrow> gtime \<Rightarrow> Event" where
  "drainedEvent host t deadline ncut at =
     (if deadline
      then \<lparr>ev_Kind = EventDrained, ev_Host = host, ev_Target = Some (t\<lparr>tgt_Inflight := ncut\<rparr>),
            ev_Deadline = True,
            ev_Detail = ''replica '' @ Itoa (tgt_Replica t) @ '' cut at the drain deadline with '' @ Itoa ncut
              @ '' request(s) still open'', ev_At = at\<rparr>
      else \<lparr>ev_Kind = EventDrained, ev_Host = host, ev_Target = Some t, ev_Deadline = False,
            ev_Detail = ''replica '' @ Itoa (tgt_Replica t) @ '' drained'', ev_At = at\<rparr>)"

section \<open>The pool's state\<close>

record counter =
  cn_requests :: int
  cn_status5xx :: int
  cn_connectFailures :: int

definition counter_zero :: counter where
  "counter_zero = \<lparr>cn_requests = 0, cn_status5xx = 0, cn_connectFailures = 0\<rparr>"

definition atLeastZero :: "int \<Rightarrow> int" where
  "atLeastZero n = (if n < 0 then 0 else n)"

definition counter_sub :: "counter \<Rightarrow> counter \<Rightarrow> counter" where
  "counter_sub c d = \<lparr>cn_requests = atLeastZero (cn_requests c - cn_requests d),
     cn_status5xx = atLeastZero (cn_status5xx c - cn_status5xx d),
     cn_connectFailures = atLeastZero (cn_connectFailures c - cn_connectFailures d)\<rparr>"

record targetState =
  ts_t :: Target
  ts_failedUntil :: gtime
  ts_conns :: "(int \<times> nat option) list"
  ts_reported :: bool
  ts_incarnation :: int
  ts_counted :: counter

abbreviation ts_Replica :: "targetState \<Rightarrow> int" where
  "ts_Replica ts \<equiv> tgt_Replica (ts_t ts)"

abbreviation ts_State :: "targetState \<Rightarrow> TargetState" where
  "ts_State ts \<equiv> tgt_State (ts_t ts)"

record markEntry =
  me_incarnation :: int
  me_counted :: counter

record countMark =
  cm_at :: gtime
  cm_unrouted :: counter
  cm_per :: "int \<rightharpoonup> markEntry"

record RoutePool =
  pool_host :: string
  pool_optsDrain :: duration
  pool_drain :: duration
  pool_targets :: "targetState list"
  pool_next :: nat
  pool_seq :: int
  pool_unrouted :: counter
  pool_marks :: "countMark list"

abbreviation DefaultDrain :: duration where
  "DefaultDrain \<equiv> 30 * second"

abbreviation maxCountMarks :: nat where
  "maxCountMarks \<equiv> 64"

definition live :: "targetState \<Rightarrow> Target" where
  "live ts = (ts_t ts)\<lparr>tgt_Inflight := int (length (ts_conns ts))\<rparr>"

definition pool_find :: "RoutePool \<Rightarrow> int \<Rightarrow> targetState option" where
  "pool_find p replica = find (\<lambda>ts. ts_Replica ts = replica) (pool_targets p)"

text \<open>Writing through the pointer \<^verbatim>\<open>find\<close> returned.\<close>

fun update_first :: "('a \<Rightarrow> bool) \<Rightarrow> 'a \<Rightarrow> 'a list \<Rightarrow> 'a list" where
  "update_first P y [] = []"
| "update_first P y (x # xs) = (if P x then y # xs else x # update_first P y xs)"

definition set_target :: "RoutePool \<Rightarrow> int \<Rightarrow> targetState \<Rightarrow> RoutePool" where
  "set_target p replica ts =
     p\<lparr>pool_targets := update_first (\<lambda>x. ts_Replica x = replica) ts (pool_targets p)\<rparr>"

section \<open>Installing a route\<close>

definition snapshot :: "gtime \<Rightarrow> RoutePool \<Rightarrow> RoutePool" where
  "snapshot at p =
     (let m = \<lparr>cm_at = at, cm_unrouted = pool_unrouted p,
               cm_per = map_from ts_Replica
                 (\<lambda>ts. \<lparr>me_incarnation = ts_incarnation ts, me_counted = ts_counted ts\<rparr>) (pool_targets p)\<rparr>;
          marks = pool_marks p @ [m]
      in p\<lparr>pool_marks := (if length marks > maxCountMarks then tl marks else marks)\<rparr>)"

definition fresh_target :: "gtime \<Rightarrow> int \<Rightarrow> Target \<Rightarrow> targetState" where
  "fresh_target now inc want =
     \<lparr>ts_t = want\<lparr>tgt_Inflight := 0, tgt_Since := (if is_zero (tgt_Since want) then now else tgt_Since want)\<rparr>,
      ts_failedUntil = 0, ts_conns = [], ts_reported = False, ts_incarnation = inc, ts_counted = counter_zero\<rparr>"

definition keep_target :: "gtime \<Rightarrow> targetState \<Rightarrow> Target \<Rightarrow> targetState" where
  "keep_target now ts want =
     (let ts1 = ts\<lparr>ts_t := (ts_t ts)\<lparr>tgt_Detail := tgt_Detail want\<rparr>\<rparr>
      in if ts_State ts \<noteq> tgt_State want
         then ts1\<lparr>ts_t := (ts_t ts1)\<lparr>tgt_State := tgt_State want, tgt_Since := now\<rparr>,
                  ts_reported := (if tgt_State want = TargetDraining then False else ts_reported ts1)\<rparr>
         else ts1)"

text \<open>The loop over the wanted targets: the next incarnation, the new target states, the events and
  the targets that start draining. The map of old target states loses every entry it matches.\<close>

fun install_targets ::
  "gtime \<Rightarrow> string \<Rightarrow> int \<Rightarrow> (int \<times> targetState) list \<Rightarrow> Target list \<Rightarrow>
     int \<times> targetState list \<times> Event list \<times> Target list" where
  "install_targets now host inc old [] = (inc, [], [], [])"
| "install_targets now host inc old (want # wants) =
     (case map_of old (tgt_Replica want) of
        None \<Rightarrow>
          (let ts = fresh_target now (inc + 1) want;
               (inc', next, events, draining) = install_targets now host (inc + 1) old wants
           in (inc', ts # next, targetEvent host (ts_t ts) now # events,
               (if ts_State ts = TargetDraining then ts_t ts # draining else draining)))
      | Some ts0 \<Rightarrow>
          if tgt_Port (ts_t ts0) \<noteq> tgt_Port want then
            (let ts = fresh_target now (inc + 1) want;
                 (inc', next, events, draining) = install_targets now host (inc + 1) old wants
             in (inc', ts # next, targetEvent host (ts_t ts) now # events,
                 (if ts_State ts = TargetDraining then ts_t ts # draining else draining)))
          else
            (let ts = keep_target now ts0 want;
                 changed = (ts_State ts0 \<noteq> tgt_State want);
                 (inc', next, events, draining) =
                   install_targets now host inc (AList.delete (tgt_Replica want) old) wants
             in (inc', ts # next, (if changed then targetEvent host (live ts) now # events else events),
                 (if changed \<and> tgt_State want = TargetDraining then ts_t ts # draining else draining))))"

fun report_drained :: "string \<Rightarrow> gtime \<Rightarrow> targetState list \<Rightarrow> targetState list \<times> Event list" where
  "report_drained host now [] = ([], [])"
| "report_drained host now (ts # tss) =
     (let (tss', events) = report_drained host now tss
      in if ts_State ts = TargetDraining \<and> ts_conns ts = [] \<and> \<not> ts_reported ts
         then (let ts' = ts\<lparr>ts_reported := True\<rparr>
               in (ts' # tss', drainedEvent host (live ts') False 0 now # events))
         else (ts # tss', events))"

definition install :: "gtime \<Rightarrow> int \<Rightarrow> Route \<Rightarrow> RoutePool \<Rightarrow> int \<times> RoutePool \<times> Event list \<times> Target list" where
  "install now inc r p =
     (let host = NormalizeHost (rt_Host r);
          drain1 = (if rt_Drain r \<le> 0 then pool_optsDrain p else rt_Drain r);
          drain = (if drain1 \<le> 0 then DefaultDrain else drain1);
          old = rev (map (\<lambda>ts. (ts_Replica ts, ts)) (pool_targets p));
          (inc', next, events, draining) = install_targets now host inc old (rt_Targets r);
          sorted_next = stable_sort (\<lambda>a b. ts_Replica a < ts_Replica b) next;
          (targets, drained) = report_drained host now sorted_next;
          p' = p\<lparr>pool_host := host, pool_drain := drain, pool_targets := targets,
                 pool_next := (if pool_next p \<ge> length targets then 0 else pool_next p)\<rparr>
      in (inc', snapshot now p', events @ drained, draining))"

definition NewPool :: "gtime \<Rightarrow> int \<Rightarrow> duration \<Rightarrow> Route \<Rightarrow> int \<times> RoutePool \<times> Target list" where
  "NewPool now inc optsDrain r =
     (let p = \<lparr>pool_host = NormalizeHost (rt_Host r), pool_optsDrain = optsDrain, pool_drain = 0,
               pool_targets = [], pool_next = 0, pool_seq = 0, pool_unrouted = counter_zero, pool_marks = []\<rparr>;
          (inc', p', _, draining) = install now inc r p
      in (inc', p', draining))"

section \<open>Picking a target\<close>

definition eligible :: "gtime \<Rightarrow> int list \<Rightarrow> targetState \<Rightarrow> bool" where
  "eligible now skip ts \<longleftrightarrow>
     \<not> (\<not> Routable (ts_State ts) \<or> ts_Replica ts \<in> set skip \<or> now < ts_failedUntil ts)"

definition rotation :: "nat \<Rightarrow> nat \<Rightarrow> nat list" where
  "rotation n next = map (\<lambda>i. (next + i) mod n) [0..<n]"

definition pick_index :: "gtime \<Rightarrow> int list \<Rightarrow> RoutePool \<Rightarrow> nat option" where
  "pick_index now skip p =
     find (\<lambda>i. eligible now skip (pool_targets p ! i)) (rotation (length (pool_targets p)) (pool_next p))"

definition Pick :: "gtime \<Rightarrow> int list \<Rightarrow> RoutePool \<Rightarrow> RoutePool \<times> Target option" where
  "Pick now skip p =
     (case pick_index now skip p of
        None \<Rightarrow> (p, None)
      | Some i \<Rightarrow> (p\<lparr>pool_next := (i + 1) mod length (pool_targets p)\<rparr>, Some (live (pool_targets p ! i))))"

section \<open>Connections and marks\<close>

definition release :: "string \<Rightarrow> gtime \<Rightarrow> targetState \<Rightarrow> int \<Rightarrow> targetState \<times> Event list" where
  "release host at ts cid =
     (if map_of (ts_conns ts) cid = None then (ts, [])
      else
        (let ts1 = ts\<lparr>ts_conns := AList.delete cid (ts_conns ts)\<rparr>
         in if ts_State ts1 \<noteq> TargetDraining \<or> ts_conns ts1 \<noteq> [] \<or> ts_reported ts1 then (ts1, [])
            else (let ts2 = ts1\<lparr>ts_reported := True\<rparr>
                  in (ts2, [drainedEvent host (live ts2) False 0 at]))))"

definition anyConn :: "nat \<Rightarrow> targetState \<Rightarrow> bool \<Rightarrow> int option" where
  "anyConn rnd ts withCancel =
     (let ids = map fst (filter (\<lambda>(cid, cancel). (cancel \<noteq> None) = withCancel) (ts_conns ts))
      in if ids = [] then None else Some (ids ! (rnd mod length ids)))"

definition mark_state :: "string \<Rightarrow> gtime \<Rightarrow> Mark \<Rightarrow> targetState \<Rightarrow> targetState \<times> Event list \<times> Target option" where
  "mark_state host at m ts =
     (let ts1 = ts\<lparr>ts_t := (ts_t ts)\<lparr>tgt_State := mk_State m, tgt_Since := at,
                  tgt_Detail := (if mk_Detail m \<noteq> [] then mk_Detail m else tgt_Detail (ts_t ts))\<rparr>\<rparr>;
          changed = targetEvent host (live ts1) at
      in if mk_State m = TargetDraining
         then (if ts_conns ts1 = []
               then (let ts2 = ts1\<lparr>ts_reported := True\<rparr>
                     in (ts2, [changed, drainedEvent host (live ts2) False 0 at], Some (live ts1)))
               else (ts1\<lparr>ts_reported := False\<rparr>, [changed], Some (live ts1)))
         else (ts1, [changed], None))"

definition mark :: "nat \<Rightarrow> gtime \<Rightarrow> Mark \<Rightarrow> RoutePool \<Rightarrow> edge_error + (RoutePool \<times> Event list \<times> Target option)" where
  "mark rnd now m p =
     (case pool_find p (mk_Replica m) of
        None \<Rightarrow> Inl (NoReplica (pool_host p) (mk_Replica m))
      | Some ts \<Rightarrow>
          let at = (if is_zero (mk_At m) then now else mk_At m);
              upd = set_target p (mk_Replica m)
          in (case mk_Kind m of
                MarkStart \<Rightarrow>
                  (let seq = pool_seq p + 1
                   in Inr ((upd (ts\<lparr>ts_conns := AList.update seq None (ts_conns ts)\<rparr>))\<lparr>pool_seq := seq\<rparr>, [], None))
              | MarkDone \<Rightarrow>
                  (case anyConn rnd ts False of
                     Some cid \<Rightarrow> (let (ts', events) = release (pool_host p) at ts cid in Inr (upd ts', events, None))
                   | None \<Rightarrow>
                       (case anyConn rnd ts True of
                          Some cid \<Rightarrow> (let (ts', events) = release (pool_host p) at ts cid in Inr (upd ts', events, None))
                        | None \<Rightarrow> Inr (p, [], None)))
              | MarkFail \<Rightarrow>
                  Inr (upd (ts\<lparr>ts_failedUntil := at + FailureWindow,
                               ts_t := (ts_t ts)\<lparr>tgt_Detail :=
                                 (if mk_Detail m \<noteq> [] then mk_Detail m else tgt_Detail (ts_t ts))\<rparr>\<rparr>), [], None)
              | MarkState \<Rightarrow>
                  (if \<not> state_Valid (mk_State m) then Inl (UnknownState (pool_host p) (mk_Replica m) (mk_State m))
                   else if ts_State ts = mk_State m then Inr (p, [], None)
                   else (let (ts', events, draining) = mark_state (pool_host p) at m ts
                         in Inr (upd ts', events, draining)))
              | OtherMark k \<Rightarrow> Inl (UnknownMark (pool_host p) (mk_Kind m))))"

definition pool_begin :: "int \<Rightarrow> nat option \<Rightarrow> RoutePool \<Rightarrow> edge_error + (RoutePool \<times> int)" where
  "pool_begin replica cancel p =
     (case pool_find p replica of
        None \<Rightarrow> Inl (NoReplica (pool_host p) replica)
      | Some ts \<Rightarrow>
          let cid = pool_seq p + 1
          in Inr ((set_target p replica (ts\<lparr>ts_conns := AList.update cid cancel (ts_conns ts)\<rparr>))\<lparr>pool_seq := cid\<rparr>, cid))"

definition pool_end :: "gtime \<Rightarrow> int \<Rightarrow> int \<Rightarrow> RoutePool \<Rightarrow> RoutePool \<times> Event list" where
  "pool_end now replica cid p =
     (case pool_find p replica of
        None \<Rightarrow> (p, [])
      | Some ts \<Rightarrow> let (ts', events) = release (pool_host p) now ts cid in (set_target p replica ts', events))"

definition overdue :: "gtime \<Rightarrow> duration \<Rightarrow> targetState \<Rightarrow> bool" where
  "overdue now drain ts \<longleftrightarrow> \<not> (ts_State ts \<noteq> TargetDraining \<or> ts_reported ts) \<and> \<not> time_sub now (tgt_Since (ts_t ts)) < drain"

definition cut_target :: "targetState \<Rightarrow> targetState" where
  "cut_target ts = ts\<lparr>ts_conns := [], ts_reported := True\<rparr>"

definition sweep :: "gtime \<Rightarrow> RoutePool \<Rightarrow> RoutePool \<times> Event list \<times> nat list" where
  "sweep now p =
     (let due = filter (overdue now (pool_drain p)) (pool_targets p)
      in (p\<lparr>pool_targets := map (\<lambda>ts. if overdue now (pool_drain p) ts then cut_target ts else ts) (pool_targets p)\<rparr>,
          map (\<lambda>ts. drainedEvent (pool_host p) (live (cut_target ts)) True (int (length (ts_conns ts))) now) due,
          concat (map (\<lambda>ts. List.map_filter snd (ts_conns ts)) due)))"

definition pool_Counts :: "RoutePool \<Rightarrow> Target list" where
  "pool_Counts p = map live (pool_targets p)"

definition pool_inflight :: "RoutePool \<Rightarrow> int" where
  "pool_inflight p = foldl (\<lambda>n ts. n + int (length (ts_conns ts))) 0 (pool_targets p)"

section \<open>Counting requests\<close>

fun marks_until :: "gtime \<Rightarrow> countMark list \<Rightarrow> countMark option" where
  "marks_until since [] = None"
| "marks_until since (m # ms) =
     (if cm_at m > since then None
      else (case marks_until since ms of None \<Rightarrow> Some m | Some m' \<Rightarrow> Some m'))"

definition markAt :: "gtime \<Rightarrow> RoutePool \<Rightarrow> countMark option" where
  "markAt since p =
     (case pool_marks p of
        [] \<Rightarrow> None
      | m # ms \<Rightarrow> (case marks_until since (pool_marks p) of None \<Rightarrow> Some m | Some m' \<Rightarrow> Some m'))"

definition count_one :: "int \<Rightarrow> bool \<Rightarrow> counter \<Rightarrow> counter" where
  "count_one status connectFailed c =
     (let c1 = c\<lparr>cn_requests := cn_requests c + 1\<rparr>
      in if connectFailed then c1\<lparr>cn_connectFailures := cn_connectFailures c1 + 1\<rparr>
         else if status \<ge> 500 then c1\<lparr>cn_status5xx := cn_status5xx c1 + 1\<rparr>
         else c1)"

definition countRequest :: "int \<Rightarrow> int \<Rightarrow> bool \<Rightarrow> RoutePool \<Rightarrow> RoutePool" where
  "countRequest replica status connectFailed p =
     (case pool_find p replica of
        None \<Rightarrow> p\<lparr>pool_unrouted := count_one status connectFailed (pool_unrouted p)\<rparr>
      | Some ts \<Rightarrow> set_target p replica (ts\<lparr>ts_counted := count_one status connectFailed (ts_counted ts)\<rparr>))"

definition countUnrouted :: "RoutePool \<Rightarrow> RoutePool" where
  "countUnrouted p = p\<lparr>pool_unrouted := (pool_unrouted p)
     \<lparr>cn_requests := cn_requests (pool_unrouted p) + 1, cn_status5xx := cn_status5xx (pool_unrouted p) + 1\<rparr>\<rparr>"

record TargetCounts =
  tc_Replica :: int
  tc_Requests :: int
  tc_Status5xx :: int
  tc_ConnectFailures :: int

record UnroutedCounts =
  uc_Requests :: int
  uc_Status5xx :: int
  uc_ConnectFailures :: int

record HostCounts =
  hc_Host :: string
  hc_Requests :: int
  hc_Status5xx :: int
  hc_ConnectFailures :: int
  hc_Targets :: "TargetCounts list"
  hc_Unrouted :: UnroutedCounts

definition target_counts :: "countMark option \<Rightarrow> targetState \<Rightarrow> TargetCounts" where
  "target_counts m ts =
     (let c = (case m of
            None \<Rightarrow> ts_counted ts
          | Some m \<Rightarrow> (case cm_per m (ts_Replica ts) of
              Some e \<Rightarrow> if me_incarnation e = ts_incarnation ts then counter_sub (ts_counted ts) (me_counted e)
                        else ts_counted ts
            | None \<Rightarrow> ts_counted ts))
      in \<lparr>tc_Replica = ts_Replica ts, tc_Requests = cn_requests c, tc_Status5xx = cn_status5xx c,
          tc_ConnectFailures = cn_connectFailures c\<rparr>)"

definition add_target_counts :: "HostCounts \<Rightarrow> TargetCounts \<Rightarrow> HostCounts" where
  "add_target_counts h t = h\<lparr>hc_Targets := hc_Targets h @ [t], hc_Requests := hc_Requests h + tc_Requests t,
     hc_Status5xx := hc_Status5xx h + tc_Status5xx t,
     hc_ConnectFailures := hc_ConnectFailures h + tc_ConnectFailures t\<rparr>"

definition counts :: "gtime \<Rightarrow> RoutePool \<Rightarrow> HostCounts" where
  "counts since p =
     (let m = markAt since p;
          own = (case m of None \<Rightarrow> pool_unrouted p | Some m \<Rightarrow> counter_sub (pool_unrouted p) (cm_unrouted m));
          h = \<lparr>hc_Host = pool_host p, hc_Requests = cn_requests own, hc_Status5xx = cn_status5xx own,
               hc_ConnectFailures = cn_connectFailures own, hc_Targets = [],
               hc_Unrouted = \<lparr>uc_Requests = cn_requests own, uc_Status5xx = cn_status5xx own,
                 uc_ConnectFailures = cn_connectFailures own\<rparr>\<rparr>
      in foldl (\<lambda>h ts. add_target_counts h (target_counts m ts)) h (pool_targets p))"

definition hc_Target :: "HostCounts \<Rightarrow> int \<Rightarrow> TargetCounts option" where
  "hc_Target h replica = find (\<lambda>t. tc_Replica t = replica) (hc_Targets h)"

definition hc_Replicas :: "HostCounts \<Rightarrow> int list \<Rightarrow> TargetCounts" where
  "hc_Replicas h replicas =
     foldl (\<lambda>out r. case hc_Target h r of
         None \<Rightarrow> out
       | Some t \<Rightarrow> out\<lparr>tc_Requests := tc_Requests out + tc_Requests t, tc_Status5xx := tc_Status5xx out + tc_Status5xx t,
           tc_ConnectFailures := tc_ConnectFailures out + tc_ConnectFailures t\<rparr>)
       \<lparr>tc_Replica = 0, tc_Requests = 0, tc_Status5xx = 0, tc_ConnectFailures = 0\<rparr> replicas"

section \<open>A pool to run\<close>

text \<open>The host \<^verbatim>\<open>a\<close> with two replicas, installed at time 100 with a drain period of 30.\<close>

definition example_target :: "int \<Rightarrow> TargetState \<Rightarrow> Target" where
  "example_target r s = \<lparr>tgt_Replica = r, tgt_Port = 20000 + r, tgt_State = s, tgt_Inflight = 0, tgt_Since = 50, tgt_Detail = []\<rparr>"

definition example_route :: Route where
  "example_route = \<lparr>rt_Host = ''a'', rt_Kind = KindHTTPS, rt_App = ''shop'', rt_Env = ''main'', rt_Service = ''web'',
     rt_Targets = [example_target 1 TargetActive, example_target 2 TargetActive], rt_Via = [], rt_Drain = 30, rt_CreatedAt = 10\<rparr>"

definition example_ts :: "int \<Rightarrow> targetState" where
  "example_ts r = \<lparr>ts_t = example_target r TargetActive, ts_failedUntil = 0, ts_conns = [], ts_reported = False,
     ts_incarnation = r, ts_counted = counter_zero\<rparr>"

definition example_pool :: RoutePool where
  "example_pool = \<lparr>pool_host = ''a'', pool_optsDrain = 0, pool_drain = 30, pool_targets = [example_ts 1, example_ts 2],
     pool_next = 0, pool_seq = 0, pool_unrouted = counter_zero,
     pool_marks = [\<lparr>cm_at = 100, cm_unrouted = counter_zero, cm_per = map_from ts_Replica
       (\<lambda>ts. \<lparr>me_incarnation = ts_incarnation ts, me_counted = ts_counted ts\<rparr>) [example_ts 1, example_ts 2]\<rparr>]\<rparr>"

lemmas example_pool_defs = example_pool_def example_ts_def example_route_def example_target_def

lemma example_host: "NormalizeHost ''a'' = ''a''"
  by code_simp

lemma NewPool_example: "NewPool 100 0 0 example_route = (2, example_pool, [])"
  by (simp add: NewPool_def install_def example_host example_pool_defs fresh_target_def snapshot_def
      stable_sort_def Let_def)

lemma example_route_ok: "targets_ok example_route"
  by (simp add: targets_ok_def target_ok_def example_route_def example_target_def state_Valid_def TargetStates_def)

end
