(* ===== verification/EdgePick.thy ===== *)
theory EdgePick
  imports EdgePool
begin

text \<open>
  What \<^verbatim>\<open>RoutePool.Pick\<close> promises: only a target that may serve the request is picked, one is picked
  whenever there is one, and the picks go round: as many consecutive picks as there are
  eligible targets return each of them exactly once.
\<close>

section \<open>The rotation\<close>

lemma rotation_rotate: "rotation n k = rotate k [0..<n]"
  by (rule nth_equalityI) (simp_all add: rotation_def nth_rotate)

lemma set_rotation [simp]: "set (rotation n k) = {0..<n}"
  by (simp add: rotation_rotate)

lemma mset_rotation: "mset (rotation n k) = mset [0..<n]"
proof -
  have one: "mset (rotate1 xs) = mset xs" for xs :: "nat list" by (cases xs) auto
  have "mset (rotate k xs) = mset xs" for xs :: "nat list"
    by (induction k) (simp_all add: one)
  then show ?thesis by (simp only: rotation_rotate)
qed

text \<open>The rotation that starts after one of its members ends with that member.\<close>

lemma rotation_after:
  assumes "rotation n k = before @ i # after"
  shows "rotation n ((i + 1) mod n) = after @ before @ [i]"
proof -
  have len: "length before < n"
  proof -
    have "n = length (rotation n k)" by (simp add: rotation_rotate)
    also have "\<dots> = length before + Suc (length after)" by (simp add: assms)
    finally show ?thesis by simp
  qed
  have "i = rotation n k ! length before" by (simp add: assms)
  then have i: "i = (k + length before) mod n" using len by (simp add: rotation_def)
  have same: "(i + 1) mod n = (Suc (length before) + k) mod n"
    unfolding i by (simp add: mod_Suc_eq add.commute)
  have "rotation n ((i + 1) mod n) = rotate (i + 1) [0..<n]"
    unfolding rotation_rotate using rotate_conv_mod[of "i + 1" "[0..<n]"] by simp
  also have "\<dots> = rotate (Suc (length before) + k) [0..<n]"
    using rotate_conv_mod[of "i + 1" "[0..<n]"] rotate_conv_mod[of "Suc (length before) + k" "[0..<n]"]
    by (metis diff_zero length_upt same)
  also have "\<dots> = rotate (Suc (length before)) (rotation n k)"
    unfolding rotation_rotate by (rule rotate_rotate[symmetric])
  also have "\<dots> = after @ before @ [i]"
    unfolding assms using rotate_append[of "before @ [i]" after] by simp
  finally show ?thesis .
qed

section \<open>The eligible targets in the order of the next picks\<close>

interpretation pick: first_fit
  "\<lambda>(now, skip, p). rotation (length (pool_targets p)) (pool_next p)"
  "\<lambda>(now, skip, p) i. \<not> eligible now skip (pool_targets p ! i)"
  "\<lambda>(now, skip, p). pick_index now skip p"
  by unfold_locales (auto simp: pick_index_def)

definition upcoming :: "gtime \<Rightarrow> int list \<Rightarrow> RoutePool \<Rightarrow> nat list" where
  "upcoming now skip p =
     filter (\<lambda>i. eligible now skip (pool_targets p ! i)) (rotation (length (pool_targets p)) (pool_next p))"

lemma mset_upcoming:
  "image_mset ((!) (pool_targets p)) (mset (upcoming now skip p)) =
     mset (filter (eligible now skip) (pool_targets p))"
proof -
  have "mset (upcoming now skip p) = mset (filter (\<lambda>i. eligible now skip (pool_targets p ! i)) [0..<length (pool_targets p)])"
    unfolding upcoming_def by (simp only: mset_filter mset_rotation)
  moreover have "filter (eligible now skip) (map ((!) (pool_targets p)) [0..<length (pool_targets p)]) =
      map ((!) (pool_targets p)) (filter (\<lambda>i. eligible now skip (pool_targets p ! i)) [0..<length (pool_targets p)])"
    by (simp add: filter_map comp_def)
  ultimately show ?thesis by (simp only: map_nth mset_map)
qed

lemma Pick_None: "upcoming now skip p = [] \<Longrightarrow> Pick now skip p = (p, None)"
  by (auto simp: upcoming_def Pick_def pick_index_def filter_empty_conv find_None_iff split: option.split)

lemma Pick_Some:
  assumes "upcoming now skip p = i # is"
  shows "Pick now skip p = (p\<lparr>pool_next := (i + 1) mod length (pool_targets p)\<rparr>, Some (live (pool_targets p ! i)))"
    and "upcoming now skip (p\<lparr>pool_next := (i + 1) mod length (pool_targets p)\<rparr>) = is @ [i]"
    and "i < length (pool_targets p)"
proof -
  have "pick_index now skip p \<noteq> None"
  proof
    assume "pick_index now skip p = None"
    then have "upcoming now skip p = []"
      by (auto simp: pick_index_def upcoming_def find_None_iff filter_empty_conv)
    with assms show False by simp
  qed
  then obtain j where j: "pick_index now skip p = Some j" by blast
  obtain before after where split: "rotation (length (pool_targets p)) (pool_next p) = before @ j # after"
    and before: "\<forall>b \<in> set before. \<not> eligible now skip (pool_targets p ! b)"
    using pick.alloc_least[of "(now, skip, p)" j] j by auto
  have el: "eligible now skip (pool_targets p ! j)"
    using pick.alloc_Some[of "(now, skip, p)" j] j by auto
  have none: "filter (\<lambda>i. eligible now skip (pool_targets p ! i)) before = []"
    using before by (simp add: filter_empty_conv)
  then have ji: "j = i" and rest: "is = filter (\<lambda>i. eligible now skip (pool_targets p ! i)) after"
    using assms el by (auto simp: upcoming_def split)
  show "Pick now skip p = (p\<lparr>pool_next := (i + 1) mod length (pool_targets p)\<rparr>, Some (live (pool_targets p ! i)))"
    using j ji by (simp add: Pick_def)
  show "upcoming now skip (p\<lparr>pool_next := (i + 1) mod length (pool_targets p)\<rparr>) = is @ [i]"
    using rotation_after[OF split] el none ji rest by (simp add: upcoming_def)
  show "i < length (pool_targets p)"
    using pick.alloc_Some(1)[of "(now, skip, p)" j] j ji by simp
qed

text \<open>\<^verbatim>\<open>Pick\<close> returns no target exactly when none is active, outside the skipped replicas and past
  its failure window; otherwise it returns such a target of the pool with its open requests
  counted, and it changes nothing of the pool but the position of the next pick, which stays in range.\<close>

theorem Pick_correct:
  assumes "Pick now skip p = (p', r)"
  shows "(r = None \<longleftrightarrow> \<not> (\<exists>ts \<in> set (pool_targets p). eligible now skip ts)) \<and>
    (\<forall>t. r = Some t \<longrightarrow> (\<exists>ts \<in> set (pool_targets p). t = live ts \<and> ts_State ts = TargetActive \<and>
        ts_Replica ts \<notin> set skip \<and> ts_failedUntil ts \<le> now)) \<and>
    (\<exists>k. p' = p\<lparr>pool_next := k\<rparr> \<and> (k = pool_next p \<or> k < length (pool_targets p)))"
proof (cases "upcoming now skip p")
  case Nil
  then have "\<not> (\<exists>ts \<in> set (pool_targets p). eligible now skip ts)"
    by (auto simp: upcoming_def filter_empty_conv in_set_conv_nth)
  then show ?thesis using assms Pick_None[OF Nil] by (auto intro: exI[of _ "pool_next p"])
next
  case (Cons i "is")
  have "eligible now skip (pool_targets p ! i)"
    using Cons by (auto simp: upcoming_def filter_eq_Cons_iff)
  moreover have "pool_targets p ! i \<in> set (pool_targets p)" using Pick_Some(3)[OF Cons] by simp
  moreover have "(i + 1) mod length (pool_targets p) < length (pool_targets p)"
    using Pick_Some(3)[OF Cons] by (intro mod_less_divisor) linarith
  ultimately show ?thesis
    using assms Pick_Some(1)[OF Cons] by (auto simp: eligible_def Routable_def)
qed

text \<open>With replica 1 skipped, the pick is replica 2.\<close>

theorem Pick_correct_witness:
  "Pick 200 [1] example_pool = (example_pool, Some (example_target 2 TargetActive)) \<and>
   (\<exists>ts \<in> set (pool_targets example_pool). example_target 2 TargetActive = live ts \<and> ts_Replica ts \<notin> set [1])"
proof -
  have run: "Pick 200 [1] example_pool = (example_pool, Some (example_target 2 TargetActive))"
    by (simp add: Pick_def pick_index_def rotation_def eligible_def Routable_def live_def example_pool_defs numeral_2_eq_2)
  show ?thesis using run Pick_correct[OF run] by blast
qed

section \<open>Going round\<close>

fun picks :: "nat \<Rightarrow> gtime \<Rightarrow> int list \<Rightarrow> RoutePool \<Rightarrow> Target list" where
  "picks 0 now skip p = []"
| "picks (Suc k) now skip p =
     (case Pick now skip p of (p', Some t) \<Rightarrow> t # picks k now skip p' | (p', None) \<Rightarrow> [])"

lemma picks_upcoming:
  "k \<le> length (upcoming now skip p) \<Longrightarrow>
   picks k now skip p = map (\<lambda>i. live (pool_targets p ! i)) (take k (upcoming now skip p))"
proof (induction k arbitrary: p)
  case 0
  then show ?case by simp
next
  case (Suc k)
  then obtain i "is" where up: "upcoming now skip p = i # is"
    by (cases "upcoming now skip p") auto
  let ?p = "p\<lparr>pool_next := (i + 1) mod length (pool_targets p)\<rparr>"
  have "picks k now skip ?p = map (\<lambda>i. live (pool_targets p ! i)) (take k (is @ [i]))"
    using Suc.IH[of ?p] Suc.prems Pick_Some(2)[OF up] by (simp add: up)
  then show ?case
    using Suc.prems by (simp add: up Pick_Some(1)[OF up])
qed

text \<open>C27: the picks go round. From any position, as many consecutive picks as there are eligible targets
  return every eligible target exactly once, so no active target is starved.\<close>

theorem Pick_round_robin:
  "mset (picks (length (filter (eligible now skip) (pool_targets p))) now skip p) =
     mset (map live (filter (eligible now skip) (pool_targets p)))"
proof -
  let ?el = "filter (eligible now skip) (pool_targets p)"
  have "size (mset (upcoming now skip p)) = size (mset ?el)"
    by (metis mset_upcoming size_image_mset)
  then have "length ?el = length (upcoming now skip p)" by (simp only: size_mset)
  then have "picks (length ?el) now skip p = map live (map ((!) (pool_targets p)) (upcoming now skip p))"
    using picks_upcoming[of "length ?el" now skip p] by simp
  then have "mset (picks (length ?el) now skip p) =
      image_mset live (image_mset ((!) (pool_targets p)) (mset (upcoming now skip p)))"
    by (simp only: mset_map)
  then show ?thesis unfolding mset_upcoming by simp
qed

end
