(* ===== verification/EdgeDrain.thy ===== *)
theory EdgeDrain
  imports EdgePool
begin

text \<open>
  The pool as a transition system: every operation a client can run, the invariant they all keep,
  and what the drained events mean. The theory shows that a drained event is emitted exactly when a
  draining target becomes empty or is cut, once per drain, and that a sweep past the deadline leaves
  no draining target with an open connection.
\<close>

section \<open>The operations\<close>

datatype pool_op =
    DoInstall Route | DoPick "int list" | DoMark nat Mark | DoBegin int "nat option" | DoEnd int int
  | DoSweep | DoCount int int bool | DoCountUnrouted

fun pool_step :: "gtime \<Rightarrow> pool_op \<Rightarrow> int \<times> RoutePool \<Rightarrow> (int \<times> RoutePool) \<times> Event list" where
  "pool_step now (DoInstall r) (inc, p) =
     (let (inc', p', events, _) = install now inc r p in ((inc', p'), events))"
| "pool_step now (DoPick skip) (inc, p) = ((inc, fst (Pick now skip p)), [])"
| "pool_step now (DoMark rnd m) (inc, p) =
     (case mark rnd now m p of Inl _ \<Rightarrow> ((inc, p), []) | Inr (p', events, _) \<Rightarrow> ((inc, p'), events))"
| "pool_step now (DoBegin replica cancel) (inc, p) =
     (case pool_begin replica cancel p of Inl _ \<Rightarrow> ((inc, p), []) | Inr (p', _) \<Rightarrow> ((inc, p'), []))"
| "pool_step now (DoEnd replica cid) (inc, p) =
     (let (p', events) = pool_end now replica cid p in ((inc, p'), events))"
| "pool_step now DoSweep (inc, p) =
     (let (p', events, _) = sweep now p in ((inc, p'), events))"
| "pool_step now (DoCount replica status failed) (inc, p) = ((inc, countRequest replica status failed p), [])"
| "pool_step now DoCountUnrouted (inc, p) = ((inc, countUnrouted p), [])"

text \<open>The routes a pool is given come from a table that passed \<open>table_Validate\<close>.\<close>

fun op_ok :: "pool_op \<Rightarrow> bool" where
  "op_ok (DoInstall r) = targets_ok r"
| "op_ok _ = True"

section \<open>The invariant\<close>

definition ts_inv :: "int \<Rightarrow> int \<Rightarrow> targetState \<Rightarrow> bool" where
  "ts_inv inc seq ts \<longleftrightarrow> ts_incarnation ts \<le> inc \<and> distinct (map fst (ts_conns ts)) \<and>
     (\<forall>c \<in> fst ` set (ts_conns ts). 0 < c \<and> c \<le> seq) \<and>
     (ts_State ts = TargetDraining \<and> ts_conns ts = [] \<longrightarrow> ts_reported ts) \<and> state_Valid (ts_State ts)"

definition pool_inv :: "int \<Rightarrow> RoutePool \<Rightarrow> bool" where
  "pool_inv inc p \<longleftrightarrow> sorted_wrt (<) (map ts_Replica (pool_targets p)) \<and>
     (pool_next p = 0 \<or> pool_next p < length (pool_targets p)) \<and> 0 < pool_drain p \<and> 0 \<le> pool_seq p \<and>
     pool_marks p \<noteq> [] \<and> length (pool_marks p) \<le> maxCountMarks \<and>
     (\<forall>ts \<in> set (pool_targets p). ts_inv inc (pool_seq p) ts)"

definition replicas_distinct :: "RoutePool \<Rightarrow> bool" where
  "replicas_distinct p \<longleftrightarrow> distinct (map ts_Replica (pool_targets p))"

lemma sorted_less_distinct: "sorted_wrt (<) xs \<Longrightarrow> distinct (xs :: int list)"
  by (induction xs) auto

lemma pool_inv_distinct: "pool_inv inc p \<Longrightarrow> replicas_distinct p"
  by (simp add: pool_inv_def replicas_distinct_def sorted_less_distinct)

lemma pool_find_Some:
  "pool_find p r = Some ts \<Longrightarrow> ts \<in> set (pool_targets p) \<and> ts_Replica ts = r"
  by (auto simp: pool_find_def find_Some_iff)

lemma find_replaced:
  "ts_Replica ts' = k \<Longrightarrow> k \<in> ts_Replica ` set xs \<Longrightarrow>
   find (\<lambda>x. ts_Replica x = k) (map (\<lambda>x. if ts_Replica x = k then ts' else x) xs) = Some ts'"
  by (induction xs) auto

lemma update_first_map:
  "distinct (map f xs) \<Longrightarrow> update_first (\<lambda>x. f x = k) y xs = map (\<lambda>x. if f x = k then y else x) xs"
proof (induction xs)
  case Nil
  then show ?case by simp
next
  case (Cons x xs)
  have "map (\<lambda>x. if f x = k then y else x) xs = xs" if "f x = k"
    using Cons.prems that by (intro map_idI) (auto simp: image_iff)
  with Cons show ?case by simp
qed

lemma set_target_map:
  "replicas_distinct p \<Longrightarrow>
   set_target p r ts = p\<lparr>pool_targets := map (\<lambda>x. if ts_Replica x = r then ts else x) (pool_targets p)\<rparr>"
  by (simp add: set_target_def replicas_distinct_def update_first_map)

lemma set_target_id: "replicas_distinct p \<Longrightarrow> pool_find p r = Some ts \<Longrightarrow> set_target p r ts = p"
proof -
  assume d: "replicas_distinct p" and f: "pool_find p r = Some ts"
  have "(if ts_Replica x = r then ts else x) = x" if "x \<in> set (pool_targets p)" for x
    using pool_find_Some[OF f] that d
    by (auto simp: replicas_distinct_def distinct_map inj_on_def)
  then have "map (\<lambda>x. if ts_Replica x = r then ts else x) (pool_targets p) = pool_targets p"
    by (intro map_idI)
  then show ?thesis by (simp add: set_target_map[OF d])
qed

text \<open>Every operation but an installation rewrites the targets one by one, keeping their replica.
  The shape of such a step, with the single-target updates as the common case.\<close>

lemma pool_inv_map:
  assumes "pool_inv inc p" and "pool_targets p' = map g (pool_targets p)"
    and "\<And>ts. ts \<in> set (pool_targets p) \<Longrightarrow> ts_Replica (g ts) = ts_Replica ts \<and> ts_inv inc (pool_seq p') (g ts)"
    and "pool_next p' = pool_next p" "pool_drain p' = pool_drain p" "pool_seq p \<le> pool_seq p'"
      "pool_marks p' = pool_marks p"
  shows "pool_inv inc p'"
proof -
  have "map ts_Replica (pool_targets p') = map ts_Replica (pool_targets p)"
    using assms(2,3) by simp
  moreover have "\<forall>ts \<in> set (pool_targets p'). ts_inv inc (pool_seq p') ts"
    using assms(2,3) by auto
  moreover have "length (pool_targets p') = length (pool_targets p)" using assms(2) by simp
  moreover have "0 \<le> pool_seq p'" using assms(1,6) unfolding pool_inv_def by linarith
  ultimately show ?thesis using assms(1,4,5,7) unfolding pool_inv_def by (auto simp only:)
qed

lemma ts_inv_mono: "ts_inv inc seq ts \<Longrightarrow> inc \<le> inc' \<Longrightarrow> seq \<le> seq' \<Longrightarrow> ts_inv inc' seq' ts"
  unfolding ts_inv_def by force

lemma pool_inv_set_target:
  assumes "pool_inv inc p" "pool_find p r = Some ts" "ts_Replica ts' = r" "ts_inv inc seq ts'" "pool_seq p \<le> seq"
  shows "pool_inv inc ((set_target p r ts')\<lparr>pool_seq := seq\<rparr>)"
proof (rule pool_inv_map[OF assms(1)])
  let ?g = "\<lambda>x. if ts_Replica x = r then ts' else x"
  show "pool_targets ((set_target p r ts')\<lparr>pool_seq := seq\<rparr>) = map ?g (pool_targets p)"
    by (simp add: set_target_map[OF pool_inv_distinct[OF assms(1)]])
  show "ts_Replica (?g x) = ts_Replica x \<and> ts_inv inc (pool_seq ((set_target p r ts')\<lparr>pool_seq := seq\<rparr>)) (?g x)"
    if "x \<in> set (pool_targets p)" for x
    using assms that ts_inv_mono[of inc "pool_seq p" x inc seq] by (auto simp: pool_inv_def)
qed (simp_all add: set_target_def assms(5))

lemma pool_inv_set_target_same_seq:
  assumes "pool_inv inc p" "pool_find p r = Some ts" "ts_Replica ts' = r" "ts_inv inc (pool_seq p) ts'"
  shows "pool_inv inc (set_target p r ts')"
  using pool_inv_set_target[OF assms order_refl] by (simp add: set_target_def)

subsection \<open>The single-target operations\<close>

lemma pool_inv_found: "pool_inv inc p \<Longrightarrow> pool_find p r = Some ts \<Longrightarrow> ts_inv inc (pool_seq p) ts"
  using pool_find_Some unfolding pool_inv_def by blast

lemma release_props:
  assumes "ts_inv inc seq ts" and "release host at ts cid = (ts', events)"
  shows "ts_inv inc seq ts'" and "ts_t ts' = ts_t ts" and "ts_incarnation ts' = ts_incarnation ts"
    and "ts_counted ts' = ts_counted ts"
proof -
  have sub: "set (AList.delete cid (ts_conns ts)) \<subseteq> set (ts_conns ts)"
    by (auto simp: AList.delete_eq)
  have "distinct (map fst (AList.delete cid (ts_conns ts)))"
    using assms(1) by (simp add: ts_inv_def distinct_delete)
  moreover have "\<forall>c \<in> fst ` set (AList.delete cid (ts_conns ts)). 0 < c \<and> c \<le> seq"
    using assms(1) sub unfolding ts_inv_def by blast
  ultimately show "ts_inv inc seq ts'"
    using assms by (auto simp: release_def ts_inv_def Let_def split: if_splits)
  show "ts_t ts' = ts_t ts" "ts_incarnation ts' = ts_incarnation ts" "ts_counted ts' = ts_counted ts"
    using assms(2) by (auto simp: release_def Let_def split: if_splits)
qed

lemma update_fresh: "k \<notin> fst ` set xs \<Longrightarrow> AList.update k v xs = xs @ [(k, v)]"
  by (induction xs) auto

lemma open_conn_inv:
  assumes "ts_inv inc seq ts" "0 \<le> seq"
  shows "ts_inv inc (seq + 1) (ts\<lparr>ts_conns := AList.update (seq + 1) c (ts_conns ts)\<rparr>)"
proof -
  have "seq + 1 \<notin> fst ` set (ts_conns ts)" using assms unfolding ts_inv_def by force
  moreover have "\<forall>c \<in> fst ` set (ts_conns ts). 0 < c \<and> c \<le> seq + 1" using assms unfolding ts_inv_def by force
  ultimately show ?thesis
    using assms by (auto simp: ts_inv_def update_fresh)
qed

lemma mark_state_props:
  assumes "ts_inv inc seq ts" and "state_Valid (mk_State m)" and "mark_state host at m ts = (ts', events, dr)"
  shows "ts_inv inc seq ts'" and "ts_Replica ts' = ts_Replica ts" and "ts_incarnation ts' = ts_incarnation ts"
    and "ts_counted ts' = ts_counted ts" and "ts_conns ts' = ts_conns ts" and "ts_State ts' = mk_State m"
  using assms by (auto simp: mark_state_def ts_inv_def Let_def split: if_splits)

subsection \<open>Installation\<close>

lemma fresh_target_simps [simp]:
  "ts_Replica (fresh_target now i want) = tgt_Replica want"
  "ts_State (fresh_target now i want) = tgt_State want"
  "ts_conns (fresh_target now i want) = []"
  "ts_reported (fresh_target now i want) = False"
  "ts_incarnation (fresh_target now i want) = i"
  "ts_counted (fresh_target now i want) = counter_zero"
  by (simp_all add: fresh_target_def)

lemma keep_target_simps [simp]:
  "ts_Replica (keep_target now ts want) = ts_Replica ts"
  "ts_State (keep_target now ts want) = tgt_State want"
  "ts_conns (keep_target now ts want) = ts_conns ts"
  "ts_incarnation (keep_target now ts want) = ts_incarnation ts"
  "ts_counted (keep_target now ts want) = ts_counted ts"
  "tgt_Port (ts_t (keep_target now ts want)) = tgt_Port (ts_t ts)"
  by (simp_all add: keep_target_def Let_def)

definition from_old :: "gtime \<Rightarrow> int \<Rightarrow> int \<Rightarrow> (int \<times> targetState) list \<Rightarrow> Target list \<Rightarrow> targetState \<Rightarrow> bool" where
  "from_old now inc inc' old wants ts \<longleftrightarrow>
     (\<exists>want \<in> set wants. \<exists>i. inc < i \<and> i \<le> inc' \<and> ts = fresh_target now i want) \<or>
     (\<exists>want \<in> set wants. \<exists>ts0. (tgt_Replica want, ts0) \<in> set old \<and> ts = keep_target now ts0 want)"

lemma install_targets_props:
  assumes "install_targets now host inc old wants = (inc', nxt, events, draining)"
    and "\<forall>(k, ts) \<in> set old. ts_Replica ts = k"
  shows "inc \<le> inc' \<and> map ts_Replica nxt = map tgt_Replica wants \<and>
    (\<forall>ts \<in> set nxt. from_old now inc inc' old wants ts) \<and> (\<forall>e \<in> set events. ev_Kind e = EventTarget)"
  using assms
proof (induction wants arbitrary: inc old inc' nxt events draining)
  case Nil
  then show ?case by auto
next
  case (Cons want wants)
  show ?case
  proof (cases "\<exists>ts0. map_of old (tgt_Replica want) = Some ts0 \<and> tgt_Port (ts_t ts0) = tgt_Port want")
    case True
    then obtain ts0 where ts0: "map_of old (tgt_Replica want) = Some ts0" "tgt_Port (ts_t ts0) = tgt_Port want"
      by blast
    let ?old = "AList.delete (tgt_Replica want) old"
    obtain i1 n1 e1 d1 where rest: "install_targets now host inc ?old wants = (i1, n1, e1, d1)"
      by (cases "install_targets now host inc ?old wants") auto
    have sub: "set ?old \<subseteq> set old" by (auto simp: AList.delete_eq)
    have "(tgt_Replica want, ts0) \<in> set old" using ts0(1) by (rule map_of_SomeD)
    moreover have IH: "inc \<le> i1 \<and> map ts_Replica n1 = map tgt_Replica wants \<and>
        (\<forall>ts \<in> set n1. from_old now inc i1 ?old wants ts) \<and> (\<forall>e \<in> set e1. ev_Kind e = EventTarget)"
      by (rule Cons.IH[OF rest]) (use Cons.prems(2) sub in auto)
    moreover have "inc' = i1" "nxt = keep_target now ts0 want # n1"
      "set events \<subseteq> insert (targetEvent host (live (keep_target now ts0 want)) now) (set e1)"
      using Cons.prems(1) ts0 rest by (auto simp: Let_def split: if_splits)
    moreover have "from_old now inc i1 old (want # wants) ts" if "from_old now inc i1 ?old wants ts" for ts
      using that sub unfolding from_old_def by (metis list.set_intros(2) subsetD)
    moreover have "from_old now inc i1 old (want # wants) (keep_target now ts0 want)"
      unfolding from_old_def
      by (intro disjI2 bexI[of _ want] exI[of _ ts0]) (auto intro: map_of_SomeD[OF ts0(1)])
    ultimately show ?thesis
      using Cons.prems(2) by (auto simp: targetEvent_def)
  next
    case False
    obtain i1 n1 e1 d1 where rest: "install_targets now host (inc + 1) old wants = (i1, n1, e1, d1)"
      by (cases "install_targets now host (inc + 1) old wants") auto
    have IH: "inc + 1 \<le> i1 \<and> map ts_Replica n1 = map tgt_Replica wants \<and>
        (\<forall>ts \<in> set n1. from_old now (inc + 1) i1 old wants ts) \<and> (\<forall>e \<in> set e1. ev_Kind e = EventTarget)"
      by (rule Cons.IH[OF rest Cons.prems(2)])
    have "inc' = i1" "nxt = fresh_target now (inc + 1) want # n1"
      "set events \<subseteq> insert (targetEvent host (ts_t (fresh_target now (inc + 1) want)) now) (set e1)"
      using Cons.prems(1) False rest by (auto simp: Let_def split: option.splits if_splits)
    moreover have "from_old now inc i1 old (want # wants) ts" if "from_old now (inc + 1) i1 old wants ts" for ts
      using that unfolding from_old_def by (metis list.set_intros(2) zless_add1_eq less_trans)
    moreover have "from_old now inc i1 old (want # wants) (fresh_target now (inc + 1) want)"
      unfolding from_old_def
      by (intro disjI1 bexI[of _ want] exI[of _ "inc + 1"]) (use IH in auto)
    ultimately show ?thesis using IH by (auto simp: targetEvent_def)
  qed
qed

text \<open>What the last pass of an installation makes of a target.\<close>

definition settle :: "targetState \<Rightarrow> targetState" where
  "settle ts = (if ts_State ts = TargetDraining \<and> ts_conns ts = [] \<and> \<not> ts_reported ts
     then ts\<lparr>ts_reported := True\<rparr> else ts)"

lemma settle_simps [simp]:
  "ts_t (settle ts) = ts_t ts" "ts_conns (settle ts) = ts_conns ts" "ts_counted (settle ts) = ts_counted ts"
  "ts_incarnation (settle ts) = ts_incarnation ts"
  by (simp_all add: settle_def)

lemma report_drained_props:
  "fst (report_drained host now tss) = map settle tss"
  "snd (report_drained host now tss) =
     map (\<lambda>ts. drainedEvent host (live (ts\<lparr>ts_reported := True\<rparr>)) False 0 now)
       (filter (\<lambda>ts. ts_State ts = TargetDraining \<and> ts_conns ts = [] \<and> \<not> ts_reported ts) tss)"
  by (induction tss) (simp_all add: Let_def case_prod_beta settle_def)

definition old_targets :: "RoutePool \<Rightarrow> (int \<times> targetState) list" where
  "old_targets p = rev (map (\<lambda>ts. (ts_Replica ts, ts)) (pool_targets p))"

text \<open>What an installation leaves in the pool and what it emits.\<close>

lemma install_shape:
  assumes "install now inc r p = (inc', p', events, draining)" and "targets_ok r"
  obtains nxt evs where
    "install_targets now (NormalizeHost (rt_Host r)) inc (old_targets p) (rt_Targets r) = (inc', nxt, evs, draining)"
    "pool_targets p' = fst (report_drained (pool_host p') now (stable_sort (\<lambda>a b. ts_Replica a < ts_Replica b) nxt))"
    "events = evs @ snd (report_drained (pool_host p') now (stable_sort (\<lambda>a b. ts_Replica a < ts_Replica b) nxt))"
    "pool_host p' = NormalizeHost (rt_Host r)" "0 < pool_drain p'" "pool_seq p' = pool_seq p"
    "pool_unrouted p' = pool_unrouted p" "pool_optsDrain p' = pool_optsDrain p"
    "pool_next p' = (if pool_next p \<ge> length nxt then 0 else pool_next p)"
    "pool_marks p' = (let ms = pool_marks p @ [\<lparr>cm_at = now, cm_unrouted = pool_unrouted p,
        cm_per = map_from ts_Replica (\<lambda>ts. \<lparr>me_incarnation = ts_incarnation ts, me_counted = ts_counted ts\<rparr>) (pool_targets p')\<rparr>]
      in if length ms > maxCountMarks then tl ms else ms)"
proof -
  let ?host = "NormalizeHost (rt_Host r)"
  obtain i1 nxt evs d1 where it: "install_targets now ?host inc (old_targets p) (rt_Targets r) = (i1, nxt, evs, d1)"
    by (cases "install_targets now ?host inc (old_targets p) (rt_Targets r)") auto
  let ?s = "stable_sort (\<lambda>a b. ts_Replica a < ts_Replica b) nxt"
  let ?p = "p\<lparr>pool_host := ?host,
      pool_drain := (let d = (if rt_Drain r \<le> 0 then pool_optsDrain p else rt_Drain r) in if d \<le> 0 then DefaultDrain else d),
      pool_targets := fst (report_drained ?host now ?s),
      pool_next := (if pool_next p \<ge> length nxt then 0 else pool_next p)\<rparr>"
  have eq: "inc' = i1" "draining = d1" "p' = snapshot now ?p" "events = evs @ snd (report_drained ?host now ?s)"
    using assms(1) it unfolding install_def old_targets_def
    by (simp_all add: Let_def case_prod_beta report_drained_props(1))
  show ?thesis
    by (rule that[of nxt evs]) (simp_all add: it eq snapshot_def Let_def)
qed

lemma old_targets_keys: "\<forall>(k, ts) \<in> set (old_targets p). ts_Replica ts = k"
  "(k, ts) \<in> set (old_targets p) \<longleftrightarrow> ts \<in> set (pool_targets p) \<and> k = ts_Replica ts"
  by (auto simp: old_targets_def)

lemma sorted_install:
  "distinct (map ts_Replica nxt) \<Longrightarrow>
   sorted_wrt (<) (map ts_Replica (stable_sort (\<lambda>a b. ts_Replica a < ts_Replica b) nxt))"
  using sorted_stable_sort_key[of ts_Replica nxt]
  by (simp add: strict_sorted_iff)

text \<open>Every target after an installation was either created by it or kept, with its
  connections, its counters and its incarnation.\<close>

definition installed_from :: "gtime \<Rightarrow> int \<Rightarrow> int \<Rightarrow> RoutePool \<Rightarrow> Target list \<Rightarrow> targetState \<Rightarrow> bool" where
  "installed_from now inc inc' p wants ts \<longleftrightarrow>
     (\<exists>want \<in> set wants. \<exists>i. inc < i \<and> i \<le> inc' \<and> ts = fresh_target now i want) \<or>
     (\<exists>want \<in> set wants. \<exists>ts0 \<in> set (pool_targets p). ts_Replica ts0 = tgt_Replica want \<and> ts = keep_target now ts0 want)"

lemma install_members:
  assumes "install_targets now host inc (old_targets p) wants = (inc', nxt, evs, draining)" and "ts \<in> set nxt"
  shows "installed_from now inc inc' p wants ts"
  using install_targets_props[OF assms(1) old_targets_keys(1)] assms(2)
  unfolding installed_from_def from_old_def old_targets_keys(2) by metis

lemma ts_inv_installed:
  assumes "installed_from now inc inc' p wants ts" "\<forall>ts \<in> set (pool_targets p). ts_inv inc (pool_seq p) ts" "\<forall>t \<in> set wants. target_ok t" "inc \<le> inc'"
  shows "ts_inv inc' (pool_seq p) (settle ts)"
  using assms(1) unfolding installed_from_def
proof
  assume "\<exists>want \<in> set wants. \<exists>i. inc < i \<and> i \<le> inc' \<and> ts = fresh_target now i want"
  then show ?thesis using assms(3) by (auto simp: ts_inv_def target_ok_def settle_def)
next
  assume "\<exists>want \<in> set wants. \<exists>ts0 \<in> set (pool_targets p). ts_Replica ts0 = tgt_Replica want \<and> ts = keep_target now ts0 want"
  then obtain want ts0 where w: "want \<in> set wants" "ts0 \<in> set (pool_targets p)" "ts = keep_target now ts0 want"
    by blast
  then have "ts_inv inc (pool_seq p) ts0" using assms(2) by blast
  then show ?thesis
    using w assms(3,4) by (auto simp: ts_inv_def target_ok_def settle_def)
qed

lemma pool_inv_install_any:
  assumes "install now inc r p = (inc', p', events, draining)" "targets_ok r" "0 \<le> pool_seq p"
    and "length (pool_marks p) \<le> maxCountMarks" and "\<forall>ts \<in> set (pool_targets p). ts_inv inc (pool_seq p) ts"
  shows "pool_inv inc' p'"
proof -
  obtain nxt evs where sh:
    "install_targets now (NormalizeHost (rt_Host r)) inc (old_targets p) (rt_Targets r) = (inc', nxt, evs, draining)"
    "pool_targets p' = fst (report_drained (pool_host p') now (stable_sort (\<lambda>a b. ts_Replica a < ts_Replica b) nxt))"
    "0 < pool_drain p'" "pool_seq p' = pool_seq p" "pool_next p' = (if pool_next p \<ge> length nxt then 0 else pool_next p)"
    "pool_marks p' = (let ms = pool_marks p @ [\<lparr>cm_at = now, cm_unrouted = pool_unrouted p,
        cm_per = map_from ts_Replica (\<lambda>ts. \<lparr>me_incarnation = ts_incarnation ts, me_counted = ts_counted ts\<rparr>) (pool_targets p')\<rparr>]
      in if length ms > maxCountMarks then tl ms else ms)"
    by (rule install_shape[OF assms(1,2)]) blast
  note props = install_targets_props[OF sh(1) old_targets_keys(1)]
  have reps: "map ts_Replica (pool_targets p') = map ts_Replica (stable_sort (\<lambda>a b. ts_Replica a < ts_Replica b) nxt)"
    by (simp add: sh(2) report_drained_props)
  have "distinct (map ts_Replica nxt)" using props assms(2) by (simp add: targets_ok_def)
  then have "sorted_wrt (<) (map ts_Replica (pool_targets p'))" unfolding reps by (rule sorted_install)
  moreover have "length (pool_targets p') = length nxt" by (simp add: sh(2) report_drained_props)
  then have "pool_next p' = 0 \<or> pool_next p' < length (pool_targets p')" by (simp add: sh(5))
  moreover have "pool_marks p' \<noteq> []" "length (pool_marks p') \<le> maxCountMarks"
    using assms(4) by (auto simp: sh(6) Let_def tl_append split: list.split)
  moreover have "\<forall>ts \<in> set (pool_targets p'). ts_inv inc' (pool_seq p') ts"
    unfolding sh(2,4) report_drained_props
    using ts_inv_installed[OF install_members[OF sh(1)] assms(5)] props assms(2) by (auto simp: targets_ok_def)
  ultimately show ?thesis using sh(3,4) assms(3) by (simp add: pool_inv_def)
qed

lemma pool_inv_install:
  "pool_inv inc p \<Longrightarrow> install now inc r p = (inc', p', events, draining) \<Longrightarrow> targets_ok r \<Longrightarrow> pool_inv inc' p'"
  by (rule pool_inv_install_any) (auto simp: pool_inv_def)

lemma pool_inv_NewPool:
  "NewPool now inc d r = (inc', p', draining) \<Longrightarrow> targets_ok r \<Longrightarrow> pool_inv inc' p'"
  by (auto simp: NewPool_def Let_def split: prod.splits intro: pool_inv_install_any)

subsection \<open>Every operation keeps the invariant\<close>

lemma pool_inv_mark:
  assumes "pool_inv inc p" "mark rnd now m p = Inr (p', events, draining)"
  shows "pool_inv inc p'"
proof -
  obtain ts where ts: "pool_find p (mk_Replica m) = Some ts"
    using assms(2) by (auto simp: mark_def split: option.splits)
  note inv = pool_inv_found[OF assms(1) ts] and rep = conjunct2[OF pool_find_Some[OF ts]]
  note keep = pool_inv_set_target_same_seq[OF assms(1) ts]
  have rel: "pool_inv inc (set_target p (mk_Replica m) ts')" if "release h at ts c = (ts', ev)" for h at c ts' ev
    using release_props(1,2)[OF inv that] rep by (intro keep) simp_all
  show ?thesis
  proof (cases "mk_Kind m")
    case MarkStart
    have "pool_inv inc ((set_target p (mk_Replica m) (ts\<lparr>ts_conns := AList.update (pool_seq p + 1) None (ts_conns ts)\<rparr>))
        \<lparr>pool_seq := pool_seq p + 1\<rparr>)"
      using rep assms(1) by (intro pool_inv_set_target[OF assms(1) ts] open_conn_inv[OF inv]) (simp_all add: pool_inv_def)
    then show ?thesis using assms(2) MarkStart ts by (simp add: mark_def Let_def)
  next
    case MarkDone
    then show ?thesis
      using assms ts rel by (auto simp: mark_def Let_def split: option.splits prod.splits)
  next
    case MarkFail
    have "ts_inv inc (pool_seq p) (ts\<lparr>ts_failedUntil := f, ts_t := (ts_t ts)\<lparr>tgt_Detail := d\<rparr>\<rparr>)" for f d
      using inv by (simp add: ts_inv_def)
    then show ?thesis
      using assms(2) MarkFail ts rep by (auto simp: mark_def Let_def intro!: keep)
  next
    case MarkState
    show ?thesis
    proof (cases "ts_State ts = mk_State m \<or> \<not> state_Valid (mk_State m)")
      case True
      then show ?thesis using assms MarkState ts by (auto simp: mark_def Let_def split: if_splits)
    next
      case False
      then obtain at ts' ev dr where "mark_state (pool_host p) at m ts = (ts', ev, dr)"
        "p' = set_target p (mk_Replica m) ts'"
        using assms(2) MarkState ts by (auto simp: mark_def Let_def split: prod.splits if_splits)
      then show ?thesis
        using mark_state_props(1,2)[OF inv] False rep by (auto intro!: keep)
    qed
  next
    case (OtherMark k)
    then show ?thesis using assms(2) ts by (simp add: mark_def Let_def)
  qed
qed

lemma pool_inv_begin:
  assumes "pool_inv inc p" "pool_begin replica c p = Inr (p', cid)"
  shows "pool_inv inc p'"
proof -
  obtain ts where ts: "pool_find p replica = Some ts"
    using assms(2) by (auto simp: pool_begin_def split: option.splits)
  have "pool_inv inc ((set_target p replica (ts\<lparr>ts_conns := AList.update (pool_seq p + 1) c (ts_conns ts)\<rparr>))
      \<lparr>pool_seq := pool_seq p + 1\<rparr>)"
    using pool_find_Some[OF ts] assms(1)
    by (intro pool_inv_set_target[OF assms(1) ts] open_conn_inv[OF pool_inv_found[OF assms(1) ts]])
      (simp_all add: pool_inv_def)
  then show ?thesis using assms(2) ts by (auto simp: pool_begin_def Let_def)
qed

lemma pool_inv_end:
  assumes "pool_inv inc p" "pool_end now replica cid p = (p', events)"
  shows "pool_inv inc p'"
proof (cases "pool_find p replica")
  case None
  then show ?thesis using assms by (simp add: pool_end_def)
next
  case (Some ts)
  obtain ts' ev where rel: "release (pool_host p) now ts cid = (ts', ev)" by fastforce
  note props = release_props(1,2)[OF pool_inv_found[OF assms(1) Some] rel]
  then have "pool_inv inc (set_target p replica ts')"
    using pool_find_Some[OF Some] by (intro pool_inv_set_target_same_seq[OF assms(1) Some]) simp_all
  then show ?thesis using assms(2) Some rel by (simp add: pool_end_def)
qed

lemma pool_inv_sweep:
  assumes "pool_inv inc p" shows "pool_inv inc (fst (sweep now p))"
proof (rule pool_inv_map[OF assms])
  let ?g = "\<lambda>ts. if overdue now (pool_drain p) ts then cut_target ts else ts"
  show "pool_targets (fst (sweep now p)) = map ?g (pool_targets p)" by (simp add: sweep_def Let_def)
  show "ts_Replica (?g ts) = ts_Replica ts \<and> ts_inv inc (pool_seq (fst (sweep now p))) (?g ts)"
    if "ts \<in> set (pool_targets p)" for ts
    using assms that by (auto simp: pool_inv_def sweep_def Let_def cut_target_def ts_inv_def)
qed (simp_all add: sweep_def Let_def)

lemma pool_inv_countRequest:
  assumes "pool_inv inc p" shows "pool_inv inc (countRequest replica status failed p)"
proof (cases "pool_find p replica")
  case None
  then show ?thesis using assms by (simp add: countRequest_def pool_inv_def)
next
  case (Some ts)
  have "ts_inv inc (pool_seq p) (ts\<lparr>ts_counted := c\<rparr>)" for c
    using pool_inv_found[OF assms Some] by (simp add: ts_inv_def)
  then show ?thesis
    using pool_find_Some[OF Some] by (simp add: countRequest_def Some pool_inv_set_target_same_seq[OF assms Some])
qed

lemma pool_inv_Pick:
  assumes "pool_inv inc p" shows "pool_inv inc (fst (Pick now skip p))"
proof (cases "pick_index now skip p")
  case None
  then show ?thesis using assms by (simp add: Pick_def)
next
  case (Some i)
  then have "pool_targets p \<noteq> []" by (auto simp: pick_index_def rotation_def find_Some_iff)
  then show ?thesis using assms Some by (simp add: Pick_def pool_inv_def)
qed

lemma pool_inv_step:
  assumes "pool_inv inc p" "op_ok a" "pool_step now a (inc, p) = ((inc', p'), events)"
  shows "pool_inv inc' p'"
proof (cases a)
  case (DoInstall r)
  then show ?thesis using assms by (auto simp: Let_def split: prod.splits intro: pool_inv_install)
next
  case (DoMark rnd m)
  then show ?thesis using assms pool_inv_mark by (fastforce split: sum.splits prod.splits)
next
  case (DoBegin r c)
  then show ?thesis using assms pool_inv_begin by (fastforce split: sum.splits prod.splits)
next
  case (DoEnd r c)
  then show ?thesis using assms pool_inv_end by (fastforce split: prod.splits)
next
  case DoSweep
  then show ?thesis using assms pool_inv_sweep[of inc p now] by (auto split: prod.splits)
next
  case DoCountUnrouted
  then show ?thesis using assms by (auto simp: countUnrouted_def pool_inv_def)
qed (use assms pool_inv_Pick pool_inv_countRequest in auto)

text \<open>The states a pool can be in: it is made for a route with valid targets, and then any operations run on it, at any
  readings of the clock.\<close>

inductive pool_reachable :: "int \<Rightarrow> RoutePool \<Rightarrow> bool" where
  created: "targets_ok r \<Longrightarrow> NewPool now inc d r = (inc', p, draining) \<Longrightarrow> pool_reachable inc' p"
| stepped: "pool_reachable inc p \<Longrightarrow> op_ok a \<Longrightarrow> pool_step now a (inc, p) = ((inc', p'), events) \<Longrightarrow>
    pool_reachable inc' p'"
| elsewhere: "pool_reachable inc p \<Longrightarrow> inc \<le> inc' \<Longrightarrow> pool_reachable inc' p"

lemma pool_inv_mono: "pool_inv inc p \<Longrightarrow> inc \<le> inc' \<Longrightarrow> pool_inv inc' p"
  unfolding pool_inv_def by (meson order_refl ts_inv_mono)

lemma reachable_pool_inv: "pool_reachable inc p \<Longrightarrow> pool_inv inc p"
proof (induction rule: pool_reachable.induct)
  case (created r now inc d inc' p draining)
  then show ?case using pool_inv_NewPool by blast
next
  case (stepped inc p a now inc' p' events)
  then show ?case using pool_inv_step by blast
next
  case (elsewhere inc p inc')
  then show ?case using pool_inv_mono by blast
qed

text \<open>C28: in every reachable state of a pool the targets are sorted by replica without duplicates, the position
  of the next pick is in range, the drain period is positive, the connections of a target have
  different numbers, none above the last one given out, between 1 and 64 marks are kept, and a
  draining target without connections has been reported as drained.\<close>

theorem reachable_pool_wellformed:
  assumes "pool_reachable inc p"
  shows "sorted_wrt (<) (map ts_Replica (pool_targets p)) \<and>
    (pool_next p = 0 \<or> pool_next p < length (pool_targets p)) \<and> 0 < pool_drain p \<and>
    1 \<le> length (pool_marks p) \<and> length (pool_marks p) \<le> 64 \<and>
    (\<forall>ts \<in> set (pool_targets p). distinct (map fst (ts_conns ts)) \<and>
       (\<forall>c \<in> fst ` set (ts_conns ts). 0 < c \<and> c \<le> pool_seq p) \<and> state_Valid (ts_State ts) \<and>
       (ts_State ts = TargetDraining \<and> ts_conns ts = [] \<longrightarrow> ts_reported ts))"
proof -
  have "1 \<le> length (pool_marks p)"
    using reachable_pool_inv[OF assms] unfolding pool_inv_def by (cases "pool_marks p") auto
  then show ?thesis
    using reachable_pool_inv[OF assms] unfolding pool_inv_def ts_inv_def by (auto simp only:)
qed

lemma example_pool_reachable: "pool_reachable 2 example_pool"
  by (rule pool_reachable.created[OF example_route_ok NewPool_example])

theorem reachable_pool_wellformed_witness:
  "pool_reachable 2 example_pool \<and> sorted_wrt (<) (map ts_Replica (pool_targets example_pool)) \<and>
   0 < pool_drain example_pool"
  using example_pool_reachable reachable_pool_wellformed[OF example_pool_reachable] by blast

section \<open>What the drained events mean\<close>

text \<open>The drained events of a step for one replica, and the targets whose drain ended in it. A target is
  known by its replica and its incarnation.\<close>

definition drained_for :: "int \<Rightarrow> Event list \<Rightarrow> nat" where
  "drained_for r events =
     length (filter (\<lambda>e. ev_Kind e = EventDrained \<and> map_option tgt_Replica (ev_Target e) = Some r) events)"

definition ts_done :: "targetState \<Rightarrow> bool" where
  "ts_done ts \<longleftrightarrow> ts_State ts = TargetDraining \<and> ts_reported ts"

definition newly_done :: "RoutePool \<Rightarrow> RoutePool \<Rightarrow> int \<Rightarrow> bool" where
  "newly_done p p' r \<longleftrightarrow> (\<exists>ts' \<in> set (pool_targets p'). ts_Replica ts' = r \<and> ts_done ts' \<and>
     \<not> (\<exists>ts \<in> set (pool_targets p). ts_Replica ts = r \<and> ts_incarnation ts = ts_incarnation ts' \<and> ts_done ts))"

lemma drained_for_simps [simp]:
  "drained_for r [] = 0"
  "drained_for r (targetEvent h t at # es) = drained_for r es"
  "drained_for r (drainedEvent h t d n at # es) = (if tgt_Replica t = r then 1 else 0) + drained_for r es"
  "drained_for r (es @ es') = drained_for r es + drained_for r es'"
  by (auto simp: drained_for_def targetEvent_def drainedEvent_def)

lemma drained_for_none: "\<forall>e \<in> set es. ev_Kind e = EventTarget \<Longrightarrow> drained_for r es = 0"
  by (simp add: drained_for_def filter_empty_conv)

lemma tgt_Replica_live [simp]: "tgt_Replica (live ts) = ts_Replica ts"
  by (simp add: live_def)

lemma drained_for_map:
  assumes "distinct (map ts_Replica tss)" "\<And>ts. ts \<in> set tss \<Longrightarrow> ts_Replica (g ts) = ts_Replica ts"
  shows "drained_for r (map (\<lambda>ts. drainedEvent h (live (g ts)) d (n ts) at) (filter P tss)) =
    (if \<exists>ts \<in> set tss. ts_Replica ts = r \<and> P ts then 1 else 0)"
  using assms
proof (induction tss)
  case Nil
  then show ?case by simp
next
  case (Cons ts tss)
  have "\<not> (\<exists>x \<in> set tss. ts_Replica x = r \<and> P x)" if "ts_Replica ts = r"
    using Cons.prems(1) that by (auto simp: image_iff)
  with Cons show ?case by (cases "P ts") auto
qed

text \<open>A step that rewrites the targets one by one ends exactly the drains of the targets it completes.\<close>

lemma newly_done_map:
  assumes "replicas_distinct p" "pool_targets p' = map g (pool_targets p)"
    and "\<And>ts. ts \<in> set (pool_targets p) \<Longrightarrow> ts_Replica (g ts) = ts_Replica ts \<and> ts_incarnation (g ts) = ts_incarnation ts"
  shows "newly_done p p' r \<longleftrightarrow> (\<exists>ts \<in> set (pool_targets p). ts_Replica ts = r \<and> ts_done (g ts) \<and> \<not> ts_done ts)"
proof -
  have inj: "ts1 = ts2" if "ts1 \<in> set (pool_targets p)" "ts2 \<in> set (pool_targets p)" "ts_Replica ts1 = ts_Replica ts2" for ts1 ts2
    using assms(1) that by (auto simp: replicas_distinct_def distinct_map inj_on_def)
  show ?thesis
    unfolding newly_done_def assms(2) using assms(3) inj by (auto simp: image_iff)
qed

lemma newly_done_set_target:
  assumes "replicas_distinct p" "pool_find p k = Some ts" "ts_Replica ts' = k" "ts_incarnation ts' = ts_incarnation ts"
    and "pool_targets p' = pool_targets (set_target p k ts')"
  shows "newly_done p p' r \<longleftrightarrow> r = k \<and> ts_done ts' \<and> \<not> ts_done ts"
proof -
  let ?g = "\<lambda>x. if ts_Replica x = k then ts' else x"
  have only: "x = ts" if "x \<in> set (pool_targets p)" "ts_Replica x = k" for x
    using pool_find_Some[OF assms(2)] that assms(1) by (auto simp: replicas_distinct_def distinct_map inj_on_def)
  have "newly_done p p' r \<longleftrightarrow> (\<exists>x \<in> set (pool_targets p). ts_Replica x = r \<and> ts_done (?g x) \<and> \<not> ts_done x)"
    by (rule newly_done_map[OF assms(1)])
      (use only assms(3,4) in \<open>auto simp: assms(5) set_target_map[OF assms(1)]\<close>)
  then show ?thesis using only pool_find_Some[OF assms(2)] by auto
qed

lemma newly_done_same: "pool_targets p' = pool_targets p \<Longrightarrow> \<not> newly_done p p' r"
  by (auto simp: newly_done_def)

lemma drained_release:
  assumes "ts_inv inc seq ts" "release h at ts c = (ts', events)"
  shows "drained_for r events = (if ts_Replica ts = r \<and> ts_done ts' \<and> \<not> ts_done ts then 1 else 0)"
  using assms by (auto simp: release_def Let_def ts_done_def split: if_splits)

lemma drained_mark_state:
  assumes "mark_state h at m ts = (ts', events, dr)" "ts_State ts \<noteq> mk_State m"
  shows "drained_for r events = (if ts_Replica ts = r \<and> ts_done ts' \<and> \<not> ts_done ts then 1 else 0)"
  using assms by (auto simp: mark_state_def Let_def ts_done_def split: if_splits)

definition drained_exact :: "RoutePool \<Rightarrow> RoutePool \<Rightarrow> Event list \<Rightarrow> bool" where
  "drained_exact p p' events \<longleftrightarrow> (\<forall>r. drained_for r events = (if newly_done p p' r then 1 else 0))"

lemma drained_exact_quiet: "pool_targets p' = pool_targets p \<Longrightarrow> drained_exact p p' []"
  by (simp add: drained_exact_def newly_done_same)

lemma drained_exact_target:
  assumes "pool_inv inc p" "pool_find p k = Some ts" "ts_Replica ts' = k" "ts_incarnation ts' = ts_incarnation ts"
    and "\<And>r. drained_for r events = (if ts_Replica ts = r \<and> ts_done ts' \<and> \<not> ts_done ts then 1 else 0)"
    and "pool_targets p' = pool_targets (set_target p k ts')"
  shows "drained_exact p p' events"
  using newly_done_set_target[OF pool_inv_distinct[OF assms(1)] assms(2-4,6)] assms(5) pool_find_Some[OF assms(2)]
  by (auto simp: drained_exact_def)

lemma drained_exact_mark:
  assumes "pool_inv inc p" "mark rnd now m p = Inr (p', events, draining)"
  shows "drained_exact p p' events"
proof -
  obtain ts where ts: "pool_find p (mk_Replica m) = Some ts"
    using assms(2) by (auto simp: mark_def split: option.splits)
  note inv = pool_inv_found[OF assms(1) ts] and rep = conjunct2[OF pool_find_Some[OF ts]]
  note exact = drained_exact_target[OF assms(1) ts]
  have rel: "drained_exact p (set_target p (mk_Replica m) ts') ev" if "release h at ts c = (ts', ev)" for h at c ts' ev
    by (rule exact[OF _ _ drained_release[OF inv that]]) (simp_all add: release_props(2,3)[OF inv that] rep)
  show ?thesis
  proof (cases "mk_Kind m")
    case MarkStart
    have "drained_exact p p' []"
      by (rule exact[where ts' = "ts\<lparr>ts_conns := AList.update (pool_seq p + 1) None (ts_conns ts)\<rparr>"])
        (use assms(2) MarkStart ts rep in \<open>auto simp: mark_def Let_def ts_done_def\<close>)
    then show ?thesis using assms(2) MarkStart ts by (simp add: mark_def Let_def)
  next
    case MarkDone
    then show ?thesis
      using assms ts rel drained_exact_quiet[of p p]
      by (auto simp: mark_def Let_def split: option.splits prod.splits)
  next
    case MarkFail
    then obtain f d where p': "p' = set_target p (mk_Replica m) (ts\<lparr>ts_failedUntil := f, ts_t := (ts_t ts)\<lparr>tgt_Detail := d\<rparr>\<rparr>)"
      and "events = []"
      using assms(2) ts by (simp add: mark_def Let_def) blast
    have "drained_exact p p' []"
      by (rule exact[where ts' = "ts\<lparr>ts_failedUntil := f, ts_t := (ts_t ts)\<lparr>tgt_Detail := d\<rparr>\<rparr>"])
        (simp_all add: p' rep ts_done_def)
    then show ?thesis using \<open>events = []\<close> by simp
  next
    case MarkState
    show ?thesis
    proof (cases "ts_State ts = mk_State m \<or> \<not> state_Valid (mk_State m)")
      case True
      then show ?thesis
        using assms MarkState ts drained_exact_quiet[of p p] by (auto simp: mark_def Let_def split: if_splits)
    next
      case False
      then obtain at ts' dr where ms: "mark_state (pool_host p) at m ts = (ts', events, dr)"
        and p': "p' = set_target p (mk_Replica m) ts'"
        using assms(2) MarkState ts by (auto simp: mark_def Let_def split: prod.splits if_splits)
      have "state_Valid (mk_State m)" using False by simp
      from mark_state_props(2,3)[OF inv this ms] show ?thesis
        using False rep by (intro exact[OF _ _ drained_mark_state[OF ms]]) (simp_all add: p')
    qed
  next
    case (OtherMark k)
    then show ?thesis using assms(2) ts by (simp add: mark_def Let_def)
  qed
qed

lemma drained_exact_begin:
  assumes "pool_inv inc p" "pool_begin k c p = Inr (p', cid)"
  shows "drained_exact p p' []"
proof -
  obtain ts where ts: "pool_find p k = Some ts"
    using assms(2) by (auto simp: pool_begin_def split: option.splits)
  show ?thesis
    by (rule drained_exact_target[OF assms(1) ts, where ts' = "ts\<lparr>ts_conns := AList.update (pool_seq p + 1) c (ts_conns ts)\<rparr>"])
      (use assms(2) ts pool_find_Some[OF ts] in \<open>auto simp: pool_begin_def Let_def ts_done_def\<close>)
qed

lemma drained_exact_countRequest:
  assumes "pool_inv inc p" shows "drained_exact p (countRequest k st f p) []"
proof (cases "pool_find p k")
  case None
  then show ?thesis by (simp add: countRequest_def drained_exact_quiet)
next
  case (Some ts)
  show ?thesis
    by (rule drained_exact_target[OF assms Some, where ts' = "ts\<lparr>ts_counted := count_one st f (ts_counted ts)\<rparr>"])
      (use pool_find_Some[OF Some] in \<open>auto simp: countRequest_def Some ts_done_def\<close>)
qed

lemma drained_exact_end:
  assumes "pool_inv inc p" "pool_end now replica cid p = (p', events)"
  shows "drained_exact p p' events"
proof (cases "pool_find p replica")
  case None
  then show ?thesis using assms(2) drained_exact_quiet by (auto simp: pool_end_def)
next
  case (Some ts)
  obtain ts' ev where rel: "release (pool_host p) now ts cid = (ts', ev)" by fastforce
  note inv = pool_inv_found[OF assms(1) Some]
  have "drained_exact p (set_target p replica ts') ev"
    by (rule drained_exact_target[OF assms(1) Some _ _ drained_release[OF inv rel]])
      (simp_all add: release_props(2,3)[OF inv rel] pool_find_Some[OF Some])
  then show ?thesis using assms(2) Some rel by (simp add: pool_end_def)
qed

lemma drained_exact_sweep:
  assumes "pool_inv inc p" "sweep now p = (p', events, cancels)"
  shows "drained_exact p p' events"
proof -
  let ?g = "\<lambda>ts. if overdue now (pool_drain p) ts then cut_target ts else ts"
  have eqs: "pool_targets p' = map ?g (pool_targets p)"
    "events = map (\<lambda>ts. drainedEvent (pool_host p) (live (cut_target ts)) True (int (length (ts_conns ts))) now)
       (filter (overdue now (pool_drain p)) (pool_targets p))"
    using assms(2) by (auto simp: sweep_def Let_def)
  note d = pool_inv_distinct[OF assms(1)]
  have "newly_done p p' r \<longleftrightarrow> (\<exists>ts \<in> set (pool_targets p). ts_Replica ts = r \<and> ts_done (?g ts) \<and> \<not> ts_done ts)" for r
    by (rule newly_done_map[OF d eqs(1)]) (simp add: cut_target_def)
  moreover have "ts_done (?g ts) \<and> \<not> ts_done ts \<longleftrightarrow> overdue now (pool_drain p) ts" for ts
    by (auto simp: ts_done_def overdue_def cut_target_def)
  ultimately show ?thesis
    using d unfolding drained_exact_def eqs(2) replicas_distinct_def
    by (subst drained_for_map) (auto simp: cut_target_def)
qed

lemma done_installed:
  assumes "installed_from now inc inc' p wants ts" "pool_inv inc p"
  shows "ts_done (settle ts) \<and> \<not> (\<exists>ts0 \<in> set (pool_targets p). ts_Replica ts0 = ts_Replica ts \<and>
      ts_incarnation ts0 = ts_incarnation ts \<and> ts_done ts0) \<longleftrightarrow>
    ts_State ts = TargetDraining \<and> ts_conns ts = [] \<and> \<not> ts_reported ts"
  using assms(1) unfolding installed_from_def
proof
  assume "\<exists>want \<in> set wants. \<exists>i. inc < i \<and> i \<le> inc' \<and> ts = fresh_target now i want"
  moreover have "ts_incarnation ts0 \<le> inc" if "ts0 \<in> set (pool_targets p)" for ts0
    using assms(2) that by (simp add: pool_inv_def ts_inv_def)
  ultimately show ?thesis by (force simp: settle_def ts_done_def)
next
  assume "\<exists>want \<in> set wants. \<exists>ts0 \<in> set (pool_targets p). ts_Replica ts0 = tgt_Replica want \<and> ts = keep_target now ts0 want"
  then obtain want ts0 where w: "ts0 \<in> set (pool_targets p)" "ts = keep_target now ts0 want" by blast
  have only: "x = ts0" if "x \<in> set (pool_targets p)" "ts_Replica x = ts_Replica ts0" for x
    using pool_inv_distinct[OF assms(2)] that w(1) by (auto simp: replicas_distinct_def distinct_map inj_on_def)
  have "ts_inv inc (pool_seq p) ts0" using assms(2) w(1) by (simp add: pool_inv_def)
  then have "(ts_done (settle ts) \<and> \<not> ts_done ts0) \<longleftrightarrow> ts_State ts = TargetDraining \<and> ts_conns ts = [] \<and> \<not> ts_reported ts"
    unfolding w(2) by (auto simp: settle_def ts_done_def keep_target_def ts_inv_def Let_def)
  moreover have "(\<exists>x \<in> set (pool_targets p). ts_Replica x = ts_Replica ts \<and> ts_incarnation x = ts_incarnation ts \<and> ts_done x) \<longleftrightarrow> ts_done ts0"
    using w only by auto
  ultimately show ?thesis by blast
qed

lemma drained_exact_install:
  assumes "pool_inv inc p" "install now inc r p = (inc', p', events, draining)" "targets_ok r"
  shows "drained_exact p p' events"
proof -
  obtain nxt evs where sh:
    "install_targets now (NormalizeHost (rt_Host r)) inc (old_targets p) (rt_Targets r) = (inc', nxt, evs, draining)"
    "pool_targets p' = fst (report_drained (pool_host p') now (stable_sort (\<lambda>a b. ts_Replica a < ts_Replica b) nxt))"
    "events = evs @ snd (report_drained (pool_host p') now (stable_sort (\<lambda>a b. ts_Replica a < ts_Replica b) nxt))"
    by (rule install_shape[OF assms(2,3)]) blast
  let ?P = "\<lambda>ts. ts_State ts = TargetDraining \<and> ts_conns ts = [] \<and> \<not> ts_reported ts"
  note props = install_targets_props[OF sh(1) old_targets_keys(1)]
  have d: "distinct (map ts_Replica (stable_sort (\<lambda>a b. ts_Replica a < ts_Replica b) nxt))"
    using props assms(3) by (simp add: targets_ok_def)
  have evs: "drained_for q evs = 0" for q
    using props by (intro drained_for_none) blast
  have "drained_for q events = (if \<exists>ts \<in> set nxt. ts_Replica ts = q \<and> ?P ts then 1 else 0)" for q
    unfolding sh(3) report_drained_props(2) drained_for_simps evs
    by (subst drained_for_map[OF d]) auto
  moreover have "newly_done p p' q \<longleftrightarrow> (\<exists>ts \<in> set nxt. ts_Replica ts = q \<and> ?P ts)" for q
    unfolding newly_done_def sh(2) report_drained_props
    using done_installed[OF install_members[OF sh(1)] assms(1)] by auto
  ultimately show ?thesis by (simp add: drained_exact_def)
qed

text \<open>The drained events are exact. In every step of a pool that satisfies the invariant, and for every
  replica, exactly one drained event is emitted if the step completes the drain of that replica's target
  (it was not draining and reported before, and is now), and none otherwise.
  So every drain that completes is announced, and announced once.\<close>

theorem drained_events_exact:
  assumes "pool_reachable inc p" "op_ok a" "pool_step now a (inc, p) = ((inc', p'), events)"
  shows "drained_for r events = (if newly_done p p' r then 1 else 0)"
proof -
  note inv = reachable_pool_inv[OF assms(1)]
  have "drained_exact p p' events"
  proof (cases a)
    case (DoInstall q)
    then show ?thesis using assms(2,3) drained_exact_install[OF inv] by (auto simp: Let_def split: prod.splits)
  next
    case (DoPick skip)
    have "pool_targets (fst (Pick now skip p)) = pool_targets p" by (simp add: Pick_def split: option.split)
    then show ?thesis using DoPick assms(3) drained_exact_quiet by auto
  next
    case (DoMark rnd m)
    then show ?thesis
      using assms(3) drained_exact_mark[OF inv] drained_exact_quiet[of p p] by (auto split: sum.splits)
  next
    case (DoBegin k c)
    then show ?thesis
      using assms(3) drained_exact_begin[OF inv] drained_exact_quiet[of p p] by (auto split: sum.splits)
  next
    case (DoEnd k c)
    then show ?thesis using assms(3) drained_exact_end[OF inv] by (auto split: prod.splits)
  next
    case DoSweep
    then show ?thesis using assms(3) drained_exact_sweep[OF inv] by (auto split: prod.splits)
  next
    case (DoCount k st f)
    then show ?thesis using assms(3) drained_exact_countRequest[OF inv] by auto
  next
    case DoCountUnrouted
    then show ?thesis using assms(3) drained_exact_quiet by (auto simp: countUnrouted_def)
  qed
  then show ?thesis by (simp add: drained_exact_def)
qed

text \<open>Replica 2 has no connection: marking it as draining completes its drain at once.\<close>

definition example_drain_mark :: Mark where
  "example_drain_mark = \<lparr>mk_Replica = 2, mk_Kind = MarkState, mk_State = TargetDraining, mk_At = 150, mk_Detail = []\<rparr>"

theorem drained_events_exact_witness:
  "drained_for 2 (snd (pool_step 150 (DoMark 0 example_drain_mark) (2, example_pool))) = 1 \<and>
   drained_for 1 (snd (pool_step 150 (DoMark 0 example_drain_mark) (2, example_pool))) = 0"
proof -
  obtain inc' p' events where st: "pool_step 150 (DoMark 0 example_drain_mark) (2, example_pool) = ((inc', p'), events)"
    by (metis prod.exhaust)
  have "pool_targets p' = [example_ts 1, (example_ts 2)\<lparr>ts_t := (example_target 2 TargetDraining)\<lparr>tgt_Since := 150\<rparr>, ts_reported := True\<rparr>]"
    using st by (auto simp: mark_def example_drain_mark_def example_pool_defs pool_find_def mark_state_def Let_def set_target_def
      state_Valid_def TargetStates_def)
  then have "newly_done example_pool p' 2" "\<not> newly_done example_pool p' 1"
    by (simp_all add: newly_done_def ts_done_def example_pool_defs)
  then show ?thesis
    using drained_events_exact[OF example_pool_reachable _ st] by (simp add: st del: pool_step.simps)
qed


definition example_draining_pool :: RoutePool where
  "example_draining_pool = example_pool\<lparr>pool_targets :=
     [example_ts 1, (example_ts 2)\<lparr>ts_t := example_target 2 TargetDraining, ts_conns := [(1, Some 7), (2, None)]\<rparr>]\<rparr>"


text \<open>A connection that is opened is counted until it is closed: \<^verbatim>\<open>begin\<close> gives it a number no open
  connection has and adds one to the requests in flight of its target only, and \<^verbatim>\<open>end\<close> with
  that number takes it away again, whatever the state of the target.\<close>

theorem begin_end_inflight:
  assumes "pool_reachable inc p" "pool_begin r c p = Inr (p', cid)"
  shows "(\<forall>ts \<in> set (pool_targets p). cid \<notin> fst ` set (ts_conns ts)) \<and>
    map tgt_Inflight (pool_Counts p') =
      map (\<lambda>t. tgt_Inflight t + (if tgt_Replica t = r then 1 else 0)) (pool_Counts p) \<and>
    map tgt_Inflight (pool_Counts (fst (pool_end now r cid p'))) = map tgt_Inflight (pool_Counts p)"
proof -
  note inv = reachable_pool_inv[OF assms(1)]
  note d = pool_inv_distinct[OF inv]
  obtain ts where ts: "pool_find p r = Some ts" and cid: "cid = pool_seq p + 1"
    and p': "p' = (set_target p r (ts\<lparr>ts_conns := AList.update cid c (ts_conns ts)\<rparr>))\<lparr>pool_seq := cid\<rparr>"
    using assms(2) by (auto simp: pool_begin_def Let_def split: option.splits)
  have only: "x = ts" if "x \<in> set (pool_targets p)" "ts_Replica x = r" for x
    using pool_find_Some[OF ts] that d by (auto simp: replicas_distinct_def distinct_map inj_on_def)
  have fresh: "\<forall>ts \<in> set (pool_targets p). cid \<notin> fst ` set (ts_conns ts)"
    using inv unfolding cid pool_inv_def ts_inv_def by force
  then have conns: "AList.update cid c (ts_conns ts) = ts_conns ts @ [(cid, c)]"
    using pool_find_Some[OF ts] by (intro update_fresh) blast
  let ?ts = "ts\<lparr>ts_conns := ts_conns ts @ [(cid, c)]\<rparr>"
  have targets: "pool_targets p' = map (\<lambda>x. if ts_Replica x = r then ?ts else x) (pool_targets p)"
    by (simp add: p' conns set_target_map[OF d])
  have one: "map tgt_Inflight (pool_Counts p') =
      map (\<lambda>t. tgt_Inflight t + (if tgt_Replica t = r then 1 else 0)) (pool_Counts p)"
    using only by (auto simp: pool_Counts_def targets live_def)
  obtain ts2 ev where rel: "release (pool_host p') now ?ts cid = (ts2, ev)" by fastforce
  have del: "AList.delete cid (ts_conns ts @ [(cid, c)]) = ts_conns ts"
    using fresh pool_find_Some[OF ts] by (force simp: AList.delete_eq filter_id_conv)
  have ts2: "ts_conns ts2 = ts_conns ts" "ts_Replica ts2 = r"
    using rel del pool_find_Some[OF ts] by (auto simp: release_def Let_def split: if_splits)
  have "pool_find p' r = Some ?ts"
    unfolding pool_find_def targets by (rule find_replaced) (use pool_find_Some[OF ts] in auto)
  then have "fst (pool_end now r cid p') = set_target p' r ts2" by (simp add: pool_end_def rel)
  moreover have "replicas_distinct p'"
    using d pool_find_Some[OF ts] unfolding replicas_distinct_def targets
    by (simp add: comp_def if_distrib cong: if_cong)
  ultimately have "map tgt_Inflight (pool_Counts (fst (pool_end now r cid p'))) = map tgt_Inflight (pool_Counts p)"
    using only ts2 by (auto simp: pool_Counts_def set_target_map targets live_def)
  with fresh one show ?thesis by blast
qed

theorem begin_end_inflight_witness:
  "\<exists>p'. pool_begin 2 (Some 9) example_pool = Inr (p', 1) \<and>
     map tgt_Inflight (pool_Counts p') = [0, 1] \<and>
     map tgt_Inflight (pool_Counts (fst (pool_end 160 2 1 p'))) = [0, 0]"
proof -
  obtain p' where run: "pool_begin 2 (Some 9) example_pool = Inr (p', 1)"
    by (simp add: pool_begin_def pool_find_def example_pool_defs)
  have "pool_Counts example_pool = [example_target 1 TargetActive, example_target 2 TargetActive]"
    by (simp add: pool_Counts_def live_def example_pool_defs)
  with begin_end_inflight[OF example_pool_reachable run, of 160] run show ?thesis
    by (simp add: example_target_def)
qed

end
