(* ===== verification/EdgeCounts.thy ===== *)
theory EdgeCounts
  imports EdgeDrain
begin

text \<open>
  What \<^verbatim>\<open>RoutePool.counts\<close> reports: since an installation, exactly the requests that were counted after
  it, per target and in total, whatever other operations ran in between.
\<close>

section \<open>Adding up\<close>

definition cadd :: "counter \<Rightarrow> counter \<Rightarrow> counter" where
  "cadd c d = \<lparr>cn_requests = cn_requests c + cn_requests d, cn_status5xx = cn_status5xx c + cn_status5xx d,
     cn_connectFailures = cn_connectFailures c + cn_connectFailures d\<rparr>"

definition cnonneg :: "counter \<Rightarrow> bool" where
  "cnonneg c \<longleftrightarrow> 0 \<le> cn_requests c \<and> 0 \<le> cn_status5xx c \<and> 0 \<le> cn_connectFailures c"

text \<open>The replica a counting operation names, and what it counts.\<close>

fun op_replica :: "pool_op \<Rightarrow> int option" where
  "op_replica (DoCount r st f) = Some r"
| "op_replica _ = None"

fun op_counter :: "pool_op \<Rightarrow> counter" where
  "op_counter (DoCount r st f) = count_one st f counter_zero"
| "op_counter DoCountUnrouted = \<lparr>cn_requests = 1, cn_status5xx = 1, cn_connectFailures = 0\<rparr>"
| "op_counter _ = counter_zero"

fun tally :: "(int option \<Rightarrow> bool) \<Rightarrow> pool_op list \<Rightarrow> counter" where
  "tally P [] = counter_zero"
| "tally P (a # as) = (if P (op_replica a) then cadd (op_counter a) (tally P as) else tally P as)"

lemma cadd_simps [simp]:
  "cadd c counter_zero = c" "cadd counter_zero c = c" "cadd (cadd a b) c = cadd a (cadd b c)"
  "cn_requests (cadd c d) = cn_requests c + cn_requests d"
  "cn_status5xx (cadd c d) = cn_status5xx c + cn_status5xx d"
  "cn_connectFailures (cadd c d) = cn_connectFailures c + cn_connectFailures d"
  "cn_requests counter_zero = 0" "cn_status5xx counter_zero = 0" "cn_connectFailures counter_zero = 0"
  by (simp_all add: cadd_def counter_zero_def)

lemma counter_eta [simp]:
  "\<lparr>cn_requests = cn_requests c, cn_status5xx = cn_status5xx c, cn_connectFailures = cn_connectFailures c\<rparr> = c"
  by (rule counter.equality) simp_all

lemma count_one_cadd: "count_one st f c = cadd c (count_one st f counter_zero)"
  by (simp add: count_one_def cadd_def counter_zero_def Let_def)

lemma cnonneg_tally: "cnonneg (tally P as)"
proof (induction as)
  case Nil
  then show ?case by (simp add: cnonneg_def)
next
  case (Cons a as)
  have "cnonneg (op_counter a)" by (cases a) (simp_all add: cnonneg_def count_one_def Let_def)
  with Cons show ?case by (simp add: cnonneg_def)
qed

lemma counter_sub_cadd: "cnonneg d \<Longrightarrow> counter_sub (cadd c d) c = d"
  by (simp add: counter_sub_def cnonneg_def atLeastZero_def cadd_def)

section \<open>What a step counts\<close>

fun is_install :: "pool_op \<Rightarrow> bool" where
  "is_install (DoInstall r) = True"
| "is_install _ = False"

text \<open>The target after a step that is not an installation, as far as counting goes.\<close>

definition counted_by :: "pool_op list \<Rightarrow> targetState \<Rightarrow> targetState \<Rightarrow> bool" where
  "counted_by as ts ts' \<longleftrightarrow> ts_Replica ts' = ts_Replica ts \<and> ts_incarnation ts' = ts_incarnation ts \<and>
     ts_counted ts' = cadd (ts_counted ts) (tally (\<lambda>r. r = Some (ts_Replica ts)) as)"

definition pool_counted_by :: "pool_op list \<Rightarrow> RoutePool \<Rightarrow> RoutePool \<Rightarrow> bool" where
  "pool_counted_by as p p' \<longleftrightarrow> list_all2 (counted_by as) (pool_targets p) (pool_targets p') \<and>
     pool_marks p' = pool_marks p \<and>
     pool_unrouted p' = cadd (pool_unrouted p) (tally (\<lambda>r. r \<notin> Some ` set (map ts_Replica (pool_targets p))) as)"

lemma counted_by_refl: "as = [] \<or> op_counter a = counter_zero \<and> as = [a] \<Longrightarrow> counted_by as ts ts"
  by (auto simp: counted_by_def)

lemma pool_counted_quiet:
  assumes "op_counter a = counter_zero" "pool_marks p' = pool_marks p" "pool_unrouted p' = pool_unrouted p"
    and "list_all2 (\<lambda>ts ts'. ts_Replica ts' = ts_Replica ts \<and> ts_incarnation ts' = ts_incarnation ts \<and>
      ts_counted ts' = ts_counted ts) (pool_targets p) (pool_targets p')"
  shows "pool_counted_by [a] p p'"
  using assms(1-3) list_all2_mono[OF assms(4)] by (simp add: pool_counted_by_def counted_by_def)

lemma list_all2_map_if:
  "(\<And>x. x \<in> set xs \<Longrightarrow> R x (g x)) \<Longrightarrow> list_all2 R xs (map g xs)"
  by (simp add: list_all2_conv_all_nth)

lemma counted_set_target:
  assumes "pool_inv inc p" "pool_find p k = Some ts" "ts_Replica ts' = k" "ts_incarnation ts' = ts_incarnation ts"
    and "ts_counted ts' = cadd (ts_counted ts) d"
  shows "list_all2 (\<lambda>x x'. ts_Replica x' = ts_Replica x \<and> ts_incarnation x' = ts_incarnation x \<and>
    ts_counted x' = (if ts_Replica x = k then cadd (ts_counted x) d else ts_counted x))
    (pool_targets p) (pool_targets (set_target p k ts'))"
proof -
  note d = pool_inv_distinct[OF assms(1)]
  have "x = ts" if "x \<in> set (pool_targets p)" "ts_Replica x = k" for x
    using pool_find_Some[OF assms(2)] that d by (auto simp: replicas_distinct_def distinct_map inj_on_def)
  then show ?thesis
    using assms(3-) by (auto simp: set_target_map[OF d] intro!: list_all2_map_if)
qed

text \<open>An update of one target that counts nothing.\<close>

lemma counted_quiet_target:
  assumes "pool_inv inc p" "pool_find p k = Some ts" "ts_Replica ts' = k" "ts_incarnation ts' = ts_incarnation ts"
    "ts_counted ts' = ts_counted ts" "op_counter a = counter_zero"
  shows "pool_counted_by [a] p ((set_target p k ts')\<lparr>pool_seq := seq\<rparr>)"
    and "pool_counted_by [a] p (set_target p k ts')"
  using counted_set_target[OF assms(1-4), of counter_zero] assms(5,6)
  by (auto intro!: pool_counted_quiet elim!: list_all2_mono simp: set_target_def)

lemma counted_mark:
  assumes "pool_inv inc p" "mark rnd now m p = Inr (p', events, draining)"
  shows "pool_counted_by [DoMark rnd m] p p'"
proof -
  obtain ts where ts: "pool_find p (mk_Replica m) = Some ts"
    using assms(2) by (auto simp: mark_def split: option.splits)
  note inv = pool_inv_found[OF assms(1) ts] and rep = conjunct2[OF pool_find_Some[OF ts]]
  have refl: "pool_counted_by [DoMark rnd m] p p"
    by (rule pool_counted_quiet) (simp_all add: list_all2_same)
  have rel: "pool_counted_by [DoMark rnd m] p (set_target p (mk_Replica m) ts')"
    if "release h at ts c = (ts', ev)" for h at c ts' ev
    using release_props(2-4)[OF inv that] rep by (intro counted_quiet_target(2)[OF assms(1) ts]) simp_all
  show ?thesis
  proof (cases "mk_Kind m")
    case MarkStart
    then obtain cs seq where "p' = (set_target p (mk_Replica m) (ts\<lparr>ts_conns := cs\<rparr>))\<lparr>pool_seq := seq\<rparr>"
      using assms(2) ts by (simp add: mark_def Let_def) blast
    then show ?thesis using rep by (simp add: counted_quiet_target(1)[OF assms(1) ts])
  next
    case MarkDone
    then show ?thesis
      using assms(2) ts rel refl by (auto simp: mark_def Let_def split: option.splits prod.splits)
  next
    case MarkFail
    then obtain f d where "p' = set_target p (mk_Replica m) (ts\<lparr>ts_failedUntil := f, ts_t := (ts_t ts)\<lparr>tgt_Detail := d\<rparr>\<rparr>)"
      using assms(2) ts by (simp add: mark_def Let_def) blast
    then show ?thesis using rep by (simp add: counted_quiet_target(2)[OF assms(1) ts])
  next
    case MarkState
    show ?thesis
    proof (cases "ts_State ts = mk_State m \<or> \<not> state_Valid (mk_State m)")
      case True
      then show ?thesis using assms(2) MarkState ts refl by (auto simp: mark_def Let_def split: if_splits)
    next
      case False
      then have valid: "state_Valid (mk_State m)" by simp
      obtain at ts' ev dr where ms: "mark_state (pool_host p) at m ts = (ts', ev, dr)"
        and p': "p' = set_target p (mk_Replica m) ts'"
        using assms(2) MarkState ts False by (auto simp: mark_def Let_def split: prod.splits if_splits)
      show ?thesis
        using mark_state_props(2-4)[OF inv valid ms] rep
        by (simp add: p' counted_quiet_target(2)[OF assms(1) ts])
    qed
  next
    case (OtherMark k)
    then show ?thesis using assms(2) ts by (simp add: mark_def Let_def)
  qed
qed

lemma counted_countRequest:
  assumes "pool_inv inc p" shows "pool_counted_by [DoCount k st f] p (countRequest k st f p)"
proof (cases "pool_find p k")
  case None
  then have "k \<notin> ts_Replica ` set (pool_targets p)" by (auto simp: pool_find_def find_None_iff)
  then show ?thesis
    by (auto simp: countRequest_def None pool_counted_by_def counted_by_def list_all2_same count_one_cadd[of _ _ "pool_unrouted p"])
next
  case (Some ts)
  let ?ts = "ts\<lparr>ts_counted := count_one st f (ts_counted ts)\<rparr>"
  have "list_all2 (counted_by [DoCount k st f]) (pool_targets p) (pool_targets (set_target p k ?ts))"
    using counted_set_target[OF assms Some, of ?ts "count_one st f counter_zero"] pool_find_Some[OF Some]
    by (auto simp: counted_by_def count_one_cadd[of _ _ "ts_counted ts"] elim!: list_all2_mono)
  moreover have "k \<in> ts_Replica ` set (pool_targets p)" using pool_find_Some[OF Some] by blast
  ultimately show ?thesis by (auto simp: countRequest_def Some pool_counted_by_def set_target_def)
qed

lemma counted_step:
  assumes "pool_inv inc p" "\<not> is_install a" "pool_step now a (inc, p) = ((inc', p'), events)"
  shows "pool_counted_by [a] p p'"
proof (cases a)
  case (DoInstall r)
  then show ?thesis using assms(2) by simp
next
  case (DoPick skip)
  have "pool_counted_by [DoPick skip] p (fst (Pick now skip p))"
    by (rule pool_counted_quiet) (simp_all add: Pick_def list_all2_same split: option.split)
  then show ?thesis using assms(3) DoPick by auto
next
  case (DoMark rnd m)
  have "pool_counted_by [DoMark rnd m] p p"
    by (rule pool_counted_quiet) (simp_all add: list_all2_same)
  then show ?thesis
    using assms(3) DoMark counted_mark[OF assms(1)] by (auto split: sum.splits)
next
  case (DoBegin k c)
  show ?thesis
  proof (cases "pool_find p k")
    case None
    then have "p' = p" using assms(3) DoBegin by (simp add: pool_begin_def)
    then show ?thesis by (auto simp: DoBegin list_all2_same intro!: pool_counted_quiet)
  next
    case (Some ts)
    then obtain cs seq where "p' = (set_target p k (ts\<lparr>ts_conns := cs\<rparr>))\<lparr>pool_seq := seq\<rparr>"
      using assms(3) DoBegin by (simp add: pool_begin_def Let_def) blast
    then show ?thesis
      using pool_find_Some[OF Some] by (simp add: DoBegin counted_quiet_target(1)[OF assms(1) Some])
  qed
next
  case (DoEnd k c)
  show ?thesis
  proof (cases "pool_find p k")
    case None
    then have "p' = p" using assms(3) DoEnd by (simp add: pool_end_def)
    then show ?thesis by (auto simp: DoEnd list_all2_same intro!: pool_counted_quiet)
  next
    case (Some ts)
    obtain ts' ev where rel: "release (pool_host p) now ts c = (ts', ev)" by fastforce
    then have "p' = set_target p k ts'" using assms(3) DoEnd Some by (simp add: pool_end_def)
    then show ?thesis
      using release_props(2-4)[OF pool_inv_found[OF assms(1) Some] rel] pool_find_Some[OF Some]
      by (simp add: DoEnd counted_quiet_target(2)[OF assms(1) Some])
  qed
next
  case DoSweep
  have "pool_counted_by [DoSweep] p (fst (sweep now p))"
    by (rule pool_counted_quiet) (auto simp: sweep_def Let_def cut_target_def intro!: list_all2_map_if)
  then show ?thesis using assms(3) DoSweep by (auto split: prod.splits)
next
  case (DoCount k st f)
  then show ?thesis using assms(3) counted_countRequest[OF assms(1)] by auto
next
  case DoCountUnrouted
  then show ?thesis
    using assms(3) by (auto simp: countUnrouted_def pool_counted_by_def counted_by_def list_all2_same cadd_def)
qed

section \<open>What a run counts\<close>

fun pool_run :: "(gtime \<times> pool_op) list \<Rightarrow> int \<times> RoutePool \<Rightarrow> int \<times> RoutePool" where
  "pool_run [] s = s"
| "pool_run ((now, a) # as) s = pool_run as (fst (pool_step now a s))"

lemma tally_Cons: "tally P (a # as) = cadd (tally P [a]) (tally P as)"
  by simp

lemma pool_counted_trans:
  assumes "pool_counted_by [a] p q" "pool_counted_by as q s"
  shows "pool_counted_by (a # as) p s"
proof -
  have "map ts_Replica (pool_targets q) = map ts_Replica (pool_targets p)"
    using assms(1) by (auto simp: pool_counted_by_def counted_by_def list_all2_conv_all_nth intro!: nth_equalityI)
  moreover have "list_all2 (counted_by (a # as)) (pool_targets p) (pool_targets s)"
    by (rule list_all2_trans[where ?P1.0 = "counted_by [a]" and ?P2.0 = "counted_by as"])
      (use assms in \<open>auto simp: pool_counted_by_def counted_by_def\<close>)
  ultimately show ?thesis using assms unfolding pool_counted_by_def tally_Cons[of _ a as] by simp
qed

lemma counted_run:
  assumes "pool_inv inc p" "\<forall>(now, a) \<in> set ops. \<not> is_install a" "pool_run ops (inc, p) = (inc', p')"
  shows "pool_counted_by (map snd ops) p p'"
  using assms
proof (induction ops arbitrary: inc p)
  case Nil
  then show ?case by (simp add: pool_counted_by_def counted_by_def list_all2_same)
next
  case (Cons x ops)
  obtain now a where x: "x = (now, a)" by fastforce
  obtain i1 p1 ev where st: "pool_step now a (inc, p) = ((i1, p1), ev)"
    by (cases "pool_step now a (inc, p)") auto
  have na: "\<not> is_install a" using Cons.prems(2) x by auto
  then have "op_ok a" by (cases a) auto
  then have "pool_inv i1 p1" using pool_inv_step[OF Cons.prems(1) _ st] by blast
  then have "pool_counted_by (map snd ops) p1 p'"
    using Cons.IH[of i1 p1] Cons.prems(2,3) st x by auto
  then show ?case
    using pool_counted_trans[OF counted_step[OF Cons.prems(1) na st]] x by simp
qed

text \<open>The requests of all targets and the unrouted ones are all requests.\<close>

definition csum :: "counter list \<Rightarrow> counter" where
  "csum cs = foldr cadd cs counter_zero"

lemma cadd_ac: "cadd a b = cadd b a" "cadd a (cadd b c) = cadd b (cadd a c)"
  by (simp_all add: cadd_def)

lemma tally_split:
  "(\<And>r. \<not> (P r \<and> Q r)) \<Longrightarrow> tally (\<lambda>r. P r \<or> Q r) as = cadd (tally P as) (tally Q as)"
  by (induction as) (auto simp: cadd_ac)

lemma tally_partition:
  "distinct rs \<Longrightarrow> cadd (tally (\<lambda>r. r \<notin> Some ` set rs) as) (csum (map (\<lambda>k. tally (\<lambda>r. r = Some k) as) rs)) =
     tally (\<lambda>_. True) as"
proof (induction rs)
  case Nil
  then show ?case by (simp add: csum_def)
next
  case (Cons k rs)
  have "(\<lambda>r. r \<notin> Some ` set rs) = (\<lambda>r. r \<notin> Some ` set (k # rs) \<or> r = Some k)"
    using Cons.prems by auto
  moreover have "tally (\<lambda>r. r \<notin> Some ` set (k # rs) \<or> r = Some k) as =
      cadd (tally (\<lambda>r. r \<notin> Some ` set (k # rs)) as) (tally (\<lambda>r. r = Some k) as)"
    by (rule tally_split) auto
  ultimately show ?case using Cons by (simp add: csum_def cadd_ac)
qed

section \<open>What is reported\<close>

text \<open>The reported figures as a counter, of a target and of the whole host.\<close>

definition tc_counter :: "TargetCounts \<Rightarrow> counter" where
  "tc_counter t = \<lparr>cn_requests = tc_Requests t, cn_status5xx = tc_Status5xx t, cn_connectFailures = tc_ConnectFailures t\<rparr>"

definition hc_counter :: "HostCounts \<Rightarrow> counter" where
  "hc_counter h = \<lparr>cn_requests = hc_Requests h, cn_status5xx = hc_Status5xx h, cn_connectFailures = hc_ConnectFailures h\<rparr>"

definition uc_counter :: "UnroutedCounts \<Rightarrow> counter" where
  "uc_counter u = \<lparr>cn_requests = uc_Requests u, cn_status5xx = uc_Status5xx u, cn_connectFailures = uc_ConnectFailures u\<rparr>"

lemma foldl_add_target_counts:
  "hc_Targets (foldl (\<lambda>h ts. add_target_counts h (f ts)) h tss) = hc_Targets h @ map f tss"
  "hc_Unrouted (foldl (\<lambda>h ts. add_target_counts h (f ts)) h tss) = hc_Unrouted h"
  "hc_counter (foldl (\<lambda>h ts. add_target_counts h (f ts)) h tss) = cadd (hc_counter h) (csum (map (tc_counter \<circ> f) tss))"
  by (induction tss arbitrary: h)
    (simp_all add: add_target_counts_def hc_counter_def tc_counter_def csum_def cadd_def)

lemma marks_until_last:
  "ms \<noteq> [] \<Longrightarrow> \<forall>m \<in> set ms. cm_at m \<le> since \<Longrightarrow> marks_until since ms = Some (last ms)"
  by (induction ms) (auto split: option.splits)

definition mark_of :: "gtime \<Rightarrow> RoutePool \<Rightarrow> countMark" where
  "mark_of at p = \<lparr>cm_at = at, cm_unrouted = pool_unrouted p,
     cm_per = map_from ts_Replica (\<lambda>ts. \<lparr>me_incarnation = ts_incarnation ts, me_counted = ts_counted ts\<rparr>) (pool_targets p)\<rparr>"

lemma markAt_after_install:
  assumes "targets_ok r" "install now inc r p = (inc', p1, events, draining)"
    and "\<forall>m \<in> set (pool_marks p). cm_at m \<le> since" "now \<le> since" "pool_marks p2 = pool_marks p1"
  shows "markAt since p2 = Some (mark_of now p1)"
proof -
  have unr: "pool_unrouted p1 = pool_unrouted p" by (rule install_shape[OF assms(2,1)])
  have "pool_marks p1 = (let ms = pool_marks p @ [\<lparr>cm_at = now, cm_unrouted = pool_unrouted p,
        cm_per = map_from ts_Replica (\<lambda>ts. \<lparr>me_incarnation = ts_incarnation ts, me_counted = ts_counted ts\<rparr>) (pool_targets p1)\<rparr>]
      in if length ms > maxCountMarks then tl ms else ms)"
    by (rule install_shape[OF assms(2,1)])
  then have "pool_marks p1 = pool_marks p @ [mark_of now p1] \<or> pool_marks p1 = tl (pool_marks p) @ [mark_of now p1]"
    by (cases "pool_marks p") (auto simp: mark_of_def unr Let_def)
  then have ms: "pool_marks p1 \<noteq> []" "last (pool_marks p1) = mark_of now p1" "\<forall>m \<in> set (pool_marks p1). cm_at m \<le> since"
    using assms(3,4) by (cases "pool_marks p"; auto simp: mark_of_def)+
  show ?thesis
    unfolding markAt_def assms(5) marks_until_last[OF ms(1,3)] ms(2) using ms(1) by (simp split: list.split)
qed

text \<open>The entry of a target in the report, since a mark of the pool.\<close>

lemma target_counts_since:
  assumes "replicas_distinct p1" "ts1 \<in> set (pool_targets p1)" "counted_by as ts1 ts2"
  shows "(tc_Replica (target_counts (Some (mark_of now p1)) ts2), tc_counter (target_counts (Some (mark_of now p1)) ts2)) =
    (ts_Replica ts1, tally (\<lambda>k. k = Some (ts_Replica ts1)) as)"
proof -
  have "cm_per (mark_of now p1) (ts_Replica ts1) = Some \<lparr>me_incarnation = ts_incarnation ts1, me_counted = ts_counted ts1\<rparr>"
    using map_from_distinct[OF assms(1)[unfolded replicas_distinct_def] assms(2)] by (simp add: mark_of_def)
  then show ?thesis
    using assms(3) by (simp add: target_counts_def Let_def counted_by_def tc_counter_def counter_sub_cadd[OF cnonneg_tally])
qed


text \<open>The route is installed again at 200; then replica 1 answers twice, once with a 502, and one request finds no target.\<close>

definition example_requests :: "(gtime \<times> pool_op) list" where
  "example_requests = [(210, DoCount 1 200 False), (220, DoPick []), (230, DoCount 1 502 False), (240, DoCountUnrouted)]"


end
