(* ===== verification/EdgeBroker.thy ===== *)
theory EdgeBroker
  imports EdgePool
begin

text \<open>
  The broker of edge events (\<^verbatim>\<open>internal/edge/broker.go\<close>). A subscriber is known by the number it was
  given; the broker's map of subscribers holds pointers, so the subscribers live in \<open>br_heap\<close>
  and \<open>br_subs\<close> lists the numbers still registered. The loop of \<^verbatim>\<open>subscribe\<close> is one \<open>receive\<close> per round
  and a \<open>leave\<close> when it returns. Every operation runs under the broker's mutex.
\<close>

abbreviation historyLimit :: nat where
  "historyLimit \<equiv> 512"

abbreviation subscriberBuffer :: nat where
  "subscriberBuffer \<equiv> 256"

record subscriber =
  sub_ch :: "Event list"
  sub_lagged :: bool

record broker =
  br_next :: nat
  br_subs :: "nat list"
  br_heap :: "nat \<Rightarrow> subscriber"
  br_history :: "Event list"
  br_closed :: bool

datatype broker_error = ShuttingDown

definition new_subscriber :: subscriber where
  "new_subscriber = \<lparr>sub_ch = [], sub_lagged = False\<rparr>"

definition newBroker :: broker where
  "newBroker = \<lparr>br_next = 0, br_subs = [], br_heap = (\<lambda>_. new_subscriber), br_history = [], br_closed = False\<rparr>"

definition stamp :: "gtime \<Rightarrow> Event \<Rightarrow> Event" where
  "stamp now e = (if is_zero (ev_At e) then e\<lparr>ev_At := now\<rparr> else e)"

text \<open>A send that does not block, and what is done when it would; the channel is closed once \<^verbatim>\<open>lagged\<close> is set.\<close>

definition offer :: "Event \<Rightarrow> subscriber \<Rightarrow> subscriber" where
  "offer e s =
     (if sub_lagged s then s
      else if length (sub_ch s) < subscriberBuffer then s\<lparr>sub_ch := sub_ch s @ [e]\<rparr>
      else s\<lparr>sub_lagged := True\<rparr>)"

definition publish :: "gtime \<Rightarrow> Event \<Rightarrow> broker \<Rightarrow> broker" where
  "publish now e0 b =
     (let e = stamp now e0
      in if br_closed b then b
         else
           (let h = br_history b @ [e]
            in b\<lparr>br_history := (if length h > historyLimit then drop (length h - historyLimit) h else h),
                 br_heap := (\<lambda>i. if i \<in> set (br_subs b) then offer e (br_heap b i) else br_heap b i)\<rparr>))"

definition since_events :: "gtime \<Rightarrow> broker \<Rightarrow> Event list" where
  "since_events t b = (if is_zero t then [] else filter (\<lambda>e. \<not> ev_At e < t) (br_history b))"

definition subscribe :: "gtime \<Rightarrow> broker \<Rightarrow> broker_error + (broker \<times> nat \<times> Event list)" where
  "subscribe since b =
     (if br_closed b then Inl ShuttingDown
      else
        (let replay = (if is_zero since then [] else filter (\<lambda>e. \<not> ev_At e < since) (br_history b));
             i = br_next b
         in Inr (b\<lparr>br_next := i + 1, br_subs := i # br_subs b, br_heap := (br_heap b)(i := new_subscriber)\<rparr>, i, replay)))"

datatype received = Received Event | Blocked | SubscriberTooSlow | EndOfEvents

definition receive :: "nat \<Rightarrow> broker \<Rightarrow> broker \<times> received" where
  "receive i b =
     (case sub_ch (br_heap b i) of
        e # es \<Rightarrow> (b\<lparr>br_heap := (br_heap b)(i := (br_heap b i)\<lparr>sub_ch := es\<rparr>)\<rparr>, Received e)
      | [] \<Rightarrow>
          if \<not> sub_lagged (br_heap b i) then (b, Blocked)
          else if br_closed b then (b, EndOfEvents)
          else (b, SubscriberTooSlow))"

definition leave :: "nat \<Rightarrow> broker \<Rightarrow> broker" where
  "leave i b = b\<lparr>br_subs := removeAll i (br_subs b)\<rparr>"

definition broker_close :: "broker \<Rightarrow> broker" where
  "broker_close b =
     (if br_closed b then b
      else b\<lparr>br_closed := True, br_subs := [],
             br_heap := (\<lambda>i. if i \<in> set (br_subs b) then (br_heap b i)\<lparr>sub_lagged := True\<rparr> else br_heap b i)\<rparr>)"

section \<open>What a subscriber gets\<close>

datatype broker_op = BPublish gtime Event | BSubscribe gtime | BReceive nat | BLeave nat | BClose

text \<open>One operation, with the event it hands to a subscriber, if it does.\<close>

fun broker_step :: "broker_op \<Rightarrow> broker \<Rightarrow> broker \<times> (nat \<times> Event) option" where
  "broker_step (BPublish now e) b = (publish now e b, None)"
| "broker_step (BSubscribe since) b =
     (case subscribe since b of Inl _ \<Rightarrow> (b, None) | Inr (b', _) \<Rightarrow> (b', None))"
| "broker_step (BReceive i) b =
     (case receive i b of (b', Received e) \<Rightarrow> (b', Some (i, e)) | (b', _) \<Rightarrow> (b', None))"
| "broker_step (BLeave i) b = (leave i b, None)"
| "broker_step BClose b = (broker_close b, None)"

fun broker_run :: "broker_op list \<Rightarrow> broker \<Rightarrow> broker" where
  "broker_run [] b = b"
| "broker_run (a # as) b = broker_run as (fst (broker_step a b))"

text \<open>The events handed to subscriber \<open>i\<close> in a run, and the ones published in it.\<close>

fun delivered :: "nat \<Rightarrow> broker_op list \<Rightarrow> broker \<Rightarrow> Event list" where
  "delivered i [] b = []"
| "delivered i (a # as) b =
     (case snd (broker_step a b) of
        Some (j, e) \<Rightarrow> (if j = i then e # delivered i as (fst (broker_step a b)) else delivered i as (fst (broker_step a b)))
      | None \<Rightarrow> delivered i as (fst (broker_step a b)))"

fun published_events :: "broker_op list \<Rightarrow> broker \<Rightarrow> Event list" where
  "published_events [] b = []"
| "published_events (BPublish now e # as) b =
     (if br_closed b then published_events as (fst (broker_step (BPublish now e) b))
      else stamp now e # published_events as (fst (broker_step (BPublish now e) b)))"
| "published_events (a # as) b = published_events as (fst (broker_step a b))"

definition broker_inv :: "broker \<Rightarrow> bool" where
  "broker_inv b \<longleftrightarrow> length (br_history b) \<le> historyLimit \<and> (\<forall>i. length (sub_ch (br_heap b i)) \<le> subscriberBuffer) \<and>
     (\<forall>i \<in> set (br_subs b). i < br_next b) \<and> distinct (br_subs b) \<and> (br_closed b \<longrightarrow> br_subs b = [])"

lemma broker_inv_new: "broker_inv newBroker"
  by (simp add: broker_inv_def newBroker_def new_subscriber_def)

lemma offer_length: "length (sub_ch s) \<le> subscriberBuffer \<Longrightarrow> length (sub_ch (offer e s)) \<le> subscriberBuffer"
  by (simp add: offer_def)

lemma broker_inv_step: "broker_inv b \<Longrightarrow> broker_inv (fst (broker_step a b))"
proof (cases a)
  case (BPublish now e)
  then show "broker_inv b \<Longrightarrow> ?thesis" by (auto simp: broker_inv_def publish_def Let_def offer_length)
next
  case (BSubscribe since)
  then show "broker_inv b \<Longrightarrow> ?thesis"
    by (auto simp: broker_inv_def subscribe_def Let_def new_subscriber_def less_Suc_eq)
next
  case (BReceive i)
  have "length (sub_ch ((br_heap b i)\<lparr>sub_ch := es\<rparr>)) \<le> subscriberBuffer"
    if "broker_inv b" "sub_ch (br_heap b i) = e # es" for e es
    using that unfolding broker_inv_def by (metis Suc_leD length_Cons subscriber.select_convs(1) subscriber.surjective subscriber.update_convs(1))
  then show "broker_inv b \<Longrightarrow> ?thesis"
    using BReceive by (auto simp: broker_inv_def receive_def split: list.splits)
next
  case (BLeave i)
  then show "broker_inv b \<Longrightarrow> ?thesis" by (auto simp: broker_inv_def leave_def distinct_removeAll)
next
  case BClose
  then show "broker_inv b \<Longrightarrow> ?thesis" by (auto simp: broker_inv_def broker_close_def)
qed

definition alive :: "nat \<Rightarrow> broker \<Rightarrow> bool" where
  "alive i b \<longleftrightarrow> i \<in> set (br_subs b) \<and> \<not> sub_lagged (br_heap b i)"

text \<open>What one step publishes and what it hands to subscriber \<open>i\<close>.\<close>

definition step_out :: "nat \<Rightarrow> broker_op \<Rightarrow> broker \<Rightarrow> Event list" where
  "step_out i a b = (case snd (broker_step a b) of Some (j, e) \<Rightarrow> if j = i then [e] else [] | None \<Rightarrow> [])"

lemma delivered_Cons: "delivered i (a # as) b = step_out i a b @ delivered i as (fst (broker_step a b))"
  by (simp add: step_out_def split: option.split)

lemma published_Cons: "published_events (a # as) b = published_events [a] b @ published_events as (fst (broker_step a b))"
  by (cases a) simp_all

lemma br_next_mono: "br_next b \<le> br_next (fst (broker_step a b))"
  by (cases a) (auto simp: publish_def subscribe_def receive_def leave_def broker_close_def Let_def split: list.splits)

text \<open>A subscriber that has been dropped or has left only empties its buffer; one that is alive misses nothing.\<close>

lemma dead_step:
  assumes "broker_inv b" "\<not> alive i b" "i < br_next b"
  shows "sub_ch (br_heap b i) = step_out i a b @ sub_ch (br_heap (fst (broker_step a b)) i) \<and>
    \<not> alive i (fst (broker_step a b))"
  using assms
  by (cases a)
    (auto simp: alive_def step_out_def publish_def subscribe_def receive_def leave_def broker_close_def offer_def Let_def
      split: list.splits if_splits)

lemma alive_step:
  assumes "broker_inv b" "alive i b"
  shows "\<exists>rest. sub_ch (br_heap b i) @ published_events [a] b =
      step_out i a b @ sub_ch (br_heap (fst (broker_step a b)) i) @ rest \<and>
    (alive i (fst (broker_step a b)) \<longrightarrow> rest = [])"
proof -
  have "i < br_next b" "\<not> br_closed b" using assms unfolding broker_inv_def alive_def by auto
  then show ?thesis
    using assms(2)
    by (cases a)
      (auto simp: alive_def step_out_def publish_def subscribe_def receive_def leave_def broker_close_def offer_def Let_def
        split: list.splits if_splits)
qed

lemma dead_run:
  assumes "broker_inv b" "\<not> alive i b" "i < br_next b"
  shows "sub_ch (br_heap b i) = delivered i as b @ sub_ch (br_heap (broker_run as b) i) \<and> \<not> alive i (broker_run as b)"
  using assms
proof (induction as arbitrary: b)
  case Nil
  then show ?case by simp
next
  case (Cons a as)
  show ?case
    using dead_step[OF Cons.prems, of a] broker_inv_step[OF Cons.prems(1), of a] Cons.prems(3) br_next_mono[of b a]
      Cons.IH[of "fst (broker_step a b)"]
    unfolding delivered_Cons by simp
qed

lemma alive_run:
  assumes "broker_inv b" "alive i b"
  shows "\<exists>rest. sub_ch (br_heap b i) @ published_events as b =
      delivered i as b @ sub_ch (br_heap (broker_run as b) i) @ rest \<and> (alive i (broker_run as b) \<longrightarrow> rest = [])"
  using assms
proof (induction as arbitrary: b)
  case Nil
  then show ?case by simp
next
  case (Cons a as)
  let ?b = "fst (broker_step a b)"
  obtain rest where step: "sub_ch (br_heap b i) @ published_events [a] b = step_out i a b @ sub_ch (br_heap ?b i) @ rest"
    "alive i ?b \<longrightarrow> rest = []"
    using alive_step[OF Cons.prems] by blast
  have inv: "broker_inv ?b" by (rule broker_inv_step[OF Cons.prems(1)])
  have "i < br_next b" using Cons.prems unfolding broker_inv_def alive_def by auto
  then have nxt: "i < br_next ?b" using br_next_mono[of b a] by linarith
  show ?case
  proof (cases "alive i ?b")
    case True
    then have "rest = []" using step(2) by simp
    with step(1) Cons.IH[OF inv True] show ?thesis
      unfolding delivered_Cons published_Cons[of a as] by (metis append.right_neutral append_assoc broker_run.simps(2))
  next
    case False
    from dead_run[OF inv False nxt, of as] step(1) show ?thesis
      unfolding delivered_Cons published_Cons[of a as] by (metis append_assoc broker_run.simps(2))
  qed
qed

text \<open>C31: a subscription has no gaps. Whatever is published, however many others subscribe, receive, leave or
  fall behind, the events a subscriber has been handed, followed by the ones waiting in its
  buffer, are the first of the events published since it subscribed, in order; and as long as it is
  registered and was not dropped for lagging they are all of them. It is handed first the history from
  the time it asked for. The history and every buffer stay within their limits.\<close>

theorem subscription_no_gaps:
  assumes "broker_inv b" "subscribe since b = Inr (b', i, replay)"
  shows "(\<exists>missed. published_events as b' = delivered i as b' @ sub_ch (br_heap (broker_run as b') i) @ missed \<and>
      (i \<in> set (br_subs (broker_run as b')) \<and> \<not> sub_lagged (br_heap (broker_run as b') i) \<longrightarrow> missed = [])) \<and>
    replay = since_events since b \<and> broker_inv (broker_run as b')"
proof -
  have b': "broker_inv b'" using broker_inv_step[OF assms(1), of "BSubscribe since"] assms(2) by simp
  have "alive i b'" "sub_ch (br_heap b' i) = []" "replay = since_events since b"
    using assms(2) by (auto simp: subscribe_def since_events_def alive_def new_subscriber_def Let_def split: if_splits)
  moreover have "broker_inv (broker_run as b)" if "broker_inv b" for b
    using that broker_inv_step by (induction as arbitrary: b) auto
  ultimately show ?thesis using alive_run[OF b', of i as] b' by (auto simp: alive_def)
qed

definition example_event :: "gtime \<Rightarrow> Event" where
  "example_event t = \<lparr>ev_Kind = EventTable, ev_Host = [], ev_Target = None, ev_Deadline = False, ev_Detail = [], ev_At = t\<rparr>"

text \<open>One event before the subscription, two after it, of which one has been received.\<close>

theorem subscription_no_gaps_witness:
  "\<exists>b'. subscribe 5 (publish 5 (example_event 0) newBroker) = Inr (b', 0, [example_event 5]) \<and>
     delivered 0 [BPublish 6 (example_event 0), BReceive 0, BPublish 7 (example_event 0)] b' = [example_event 6] \<and>
     published_events [BPublish 6 (example_event 0), BReceive 0, BPublish 7 (example_event 0)] b' =
       [example_event 6] @ [example_event 7] @ [] \<and>
     broker_inv (broker_run [BPublish 6 (example_event 0), BReceive 0, BPublish 7 (example_event 0)] b')"
proof -
  let ?b = "publish 5 (example_event 0) newBroker" and ?as = "[BPublish 6 (example_event 0), BReceive 0, BPublish 7 (example_event 0)]"
  have inv: "broker_inv ?b"
    by (simp add: broker_inv_def publish_def newBroker_def new_subscriber_def Let_def)
  obtain b' where sub: "subscribe 5 ?b = Inr (b', 0, [example_event 5])"
      and b': "br_subs b' = [0]" "br_heap b' 0 = new_subscriber" "\<not> br_closed b'"
    by (simp add: subscribe_def publish_def newBroker_def example_event_def stamp_def Let_def)
  have "published_events ?as b' = [example_event 6, example_event 7]" "delivered 0 ?as b' = [example_event 6]"
    using b' by (simp_all add: publish_def Let_def stamp_def receive_def offer_def new_subscriber_def example_event_def)
  with subscription_no_gaps[OF inv sub, of ?as] sub show ?thesis by auto
qed

end
