(* ===== verification/EdgeRouter.thy ===== *)
theory EdgeRouter
  imports EdgeDrain EdgeBroker
begin

text \<open>
  The router (\<^verbatim>\<open>internal/edge/router.go\<close>) keeps the installed table and a pool per host. The pools are
  an association list from hosts; the clock is read once per operation. The text of an event about a new
  table prints a time, so the function that formats times is an argument (\<open>rfc3339\<close>). The
  counts of all hosts are read by \<open>router_Counts\<close> (\<^verbatim>\<open>counts.go\<close>).
\<close>

record Router =
  rtr_drain :: duration
  rtr_events :: broker
  rtr_table :: Table
  rtr_pools :: "(string \<times> RoutePool) list"
  rtr_pushed :: gtime

definition NewRouter :: "duration \<Rightarrow> Router" where
  "NewRouter drain = \<lparr>rtr_drain = drain, rtr_events = newBroker,
     rtr_table = \<lparr>tbl_Routes = [], tbl_Ingress = None, tbl_UpdatedAt = 0\<rparr>, rtr_pools = [], rtr_pushed = 0\<rparr>"

text \<open>The loop over the routes: the pools of the new table, and the events of those that were there before. The
  events of a pool that is made here are dropped, as in \<^verbatim>\<open>NewPool\<close>.\<close>

fun install_pools ::
  "gtime \<Rightarrow> duration \<Rightarrow> (string \<times> RoutePool) list \<Rightarrow> int \<Rightarrow> Route list \<Rightarrow>
     int \<times> (string \<times> RoutePool) list \<times> Event list \<times> Target list" where
  "install_pools now drain pools inc [] = (inc, [], [], [])"
| "install_pools now drain pools inc (route # routes) =
     (case map_of pools (rt_Host route) of
        Some p \<Rightarrow>
          (let (inc1, p', events, draining) = install now inc route p;
               (inc2, rest, events', draining') = install_pools now drain pools inc1 routes
           in (inc2, (rt_Host route, p') # rest, events @ events', draining @ draining'))
      | None \<Rightarrow>
          (let (inc1, p', draining) = NewPool now inc drain route;
               (inc2, rest, events', draining') = install_pools now drain pools inc1 routes
           in (inc2, (rt_Host route, p') # rest, events', draining @ draining')))"

definition tableDetail :: "(gtime \<Rightarrow> string) \<Rightarrow> nat \<Rightarrow> gtime \<Rightarrow> string" where
  "tableDetail rfc3339 routes updated =
     (let noun = (if routes = 1 then ''route'' else ''routes'')
      in if is_zero updated then Itoa (int routes) @ '' '' @ noun @ '' installed''
         else Itoa (int routes) @ '' '' @ noun @ '' installed, built '' @ rfc3339 updated)"

definition publish_all :: "gtime \<Rightarrow> Event list \<Rightarrow> broker \<Rightarrow> broker" where
  "publish_all now es b = foldl (\<lambda>b e. publish now e b) b es"

definition normalized_table :: "Table \<Rightarrow> Table" where
  "normalized_table t =
     (let t1 = table_Clone t
      in t1\<lparr>tbl_Routes := map (\<lambda>r. r\<lparr>rt_Host := NormalizeHost (rt_Host r)\<rparr>) (tbl_Routes t1)\<rparr>)"

definition router_Install ::
  "(gtime \<Rightarrow> string) \<Rightarrow> gtime \<Rightarrow> int \<Rightarrow> Table \<Rightarrow> Router \<Rightarrow> edge_error + (int \<times> Router \<times> Target list)" where
  "router_Install rfc3339 now inc t0 r =
     bind_result (table_Validate t0) (\<lambda>_.
       let t = normalized_table t0;
           (inc', pools, events, draining) = install_pools now (rtr_drain r) (rtr_pools r) inc (tbl_Routes t);
           table_event = \<lparr>ev_Kind = EventTable, ev_Host = [], ev_Target = None, ev_Deadline = False,
             ev_Detail = tableDetail rfc3339 (length (tbl_Routes t)) (tbl_UpdatedAt t), ev_At = now\<rparr>
       in Inr (inc', r\<lparr>rtr_pools := pools, rtr_table := t, rtr_pushed := now,
                  rtr_events := publish now table_event (publish_all now events (rtr_events r))\<rparr>, draining))"

definition empty_route :: Route where
  "empty_route = \<lparr>rt_Host = [], rt_Kind = OtherKind [], rt_App = [], rt_Env = [], rt_Service = [], rt_Targets = [],
     rt_Via = [], rt_Drain = 0, rt_CreatedAt = 0\<rparr>"

definition router_Lookup :: "Router \<Rightarrow> string \<Rightarrow> (Route \<times> RoutePool) option" where
  "router_Lookup r host0 =
     (let host = NormalizeHost host0
      in case map_of (rtr_pools r) host of
           None \<Rightarrow> None
         | Some p \<Rightarrow> Some ((case table_Route (rtr_table r) host of Some route \<Rightarrow> route | None \<Rightarrow> empty_route), p))"

definition router_Has :: "Router \<Rightarrow> string \<Rightarrow> bool" where
  "router_Has r host \<longleftrightarrow> map_of (rtr_pools r) (NormalizeHost host) \<noteq> None"

definition router_Hosts :: "Router \<Rightarrow> string list" where
  "router_Hosts r = table_Hosts (rtr_table r)"

definition router_Pushed :: "Router \<Rightarrow> Table" where
  "router_Pushed r = table_Clone (rtr_table r)"

definition router_Table :: "Router \<Rightarrow> Table" where
  "router_Table r =
     (let out = table_Clone (rtr_table r)
      in out\<lparr>tbl_Routes := map (\<lambda>route. case map_of (rtr_pools r) (rt_Host route) of
             Some p \<Rightarrow> route\<lparr>rt_Targets := pool_Counts p\<rparr>
           | None \<Rightarrow> route) (tbl_Routes out)\<rparr>)"

definition router_Ingress :: "Router \<Rightarrow> Ingress option" where
  "router_Ingress r = map_option (\<lambda>ing. ing\<lparr>ing_Trusted := [] @ ing_Trusted ing\<rparr>) (tbl_Ingress (rtr_table r))"

definition TableUpdatedAt :: "Router \<Rightarrow> gtime" where
  "TableUpdatedAt r = (if \<not> is_zero (tbl_UpdatedAt (rtr_table r)) then tbl_UpdatedAt (rtr_table r) else rtr_pushed r)"

definition router_Sweep :: "gtime \<Rightarrow> Router \<Rightarrow> Router \<times> nat list" where
  "router_Sweep now r =
     (let swept = map (\<lambda>(h, p). (h, sweep now p)) (rtr_pools r)
      in (r\<lparr>rtr_pools := map (\<lambda>(h, p', _, _). (h, p')) swept,
            rtr_events := publish_all now (concat (map (\<lambda>(_, _, events, _). events) swept)) (rtr_events r)\<rparr>,
          concat (map (\<lambda>(_, _, _, cancels). cancels) swept)))"

definition router_Counts :: "gtime \<Rightarrow> Router \<Rightarrow> HostCounts list" where
  "router_Counts since r = sort_key hc_Host (map (\<lambda>(_, p). counts since p) (rtr_pools r))"

section \<open>The pools follow the table\<close>

text \<open>The part of a target the table determines.\<close>

definition target_view :: "Target \<Rightarrow> int \<times> int \<times> TargetState" where
  "target_view t = (tgt_Replica t, tgt_Port t, tgt_State t)"

definition pool_serves :: "Route \<Rightarrow> RoutePool \<Rightarrow> bool" where
  "pool_serves r p \<longleftrightarrow> mset (map target_view (pool_Counts p)) = mset (map target_view (rt_Targets r)) \<and>
     sorted_wrt (<) (map tgt_Replica (pool_Counts p))"

lemma target_view_new [simp]:
  "target_view (ts_t (fresh_target now i want)) = target_view want"
  "ts_Replica ts = tgt_Replica want \<Longrightarrow> tgt_Port (ts_t ts) = tgt_Port want \<Longrightarrow>
   target_view (ts_t (keep_target now ts want)) = target_view want"
  by (simp_all add: target_view_def fresh_target_def)

lemma install_targets_view:
  assumes "install_targets now host inc old wants = (inc', nxt, events, draining)"
    and "\<forall>(k, ts) \<in> set old. ts_Replica ts = k"
  shows "map (\<lambda>ts. target_view (ts_t ts)) nxt = map target_view wants"
  using assms
proof (induction wants arbitrary: inc old inc' nxt events draining)
  case Nil
  then show ?case by simp
next
  case (Cons want wants)
  show ?case
  proof (cases "\<exists>ts0. map_of old (tgt_Replica want) = Some ts0 \<and> tgt_Port (ts_t ts0) = tgt_Port want")
    case True
    then obtain ts0 where ts0: "map_of old (tgt_Replica want) = Some ts0" "tgt_Port (ts_t ts0) = tgt_Port want"
      by blast
    let ?old = "AList.delete (tgt_Replica want) old"
    obtain i1 n1 e1 d1 where rest: "install_targets now host inc ?old wants = (i1, n1, e1, d1)"
      by (cases "install_targets now host inc ?old wants") auto
    have "\<forall>(k, ts) \<in> set ?old. ts_Replica ts = k" using Cons.prems(2) by (auto simp: AList.delete_eq)
    from Cons.IH[OF rest this] have "map (\<lambda>ts. target_view (ts_t ts)) n1 = map target_view wants" .
    moreover have "nxt = keep_target now ts0 want # n1"
      using Cons.prems(1) ts0 rest by (auto simp: Let_def split: if_splits)
    moreover have "ts_Replica ts0 = tgt_Replica want" using map_of_SomeD[OF ts0(1)] Cons.prems(2) by auto
    ultimately show ?thesis using ts0(2) by simp
  next
    case False
    obtain i1 n1 e1 d1 where rest: "install_targets now host (inc + 1) old wants = (i1, n1, e1, d1)"
      by (cases "install_targets now host (inc + 1) old wants") auto
    have "map (\<lambda>ts. target_view (ts_t ts)) n1 = map target_view wants" by (rule Cons.IH[OF rest Cons.prems(2)])
    moreover have "nxt = fresh_target now (inc + 1) want # n1"
      using Cons.prems(1) False rest by (auto simp: Let_def split: option.splits if_splits)
    ultimately show ?thesis by simp
  qed
qed

lemma target_view_live [simp]: "target_view (live ts) = target_view (ts_t ts)"
  by (simp add: target_view_def live_def)

lemma install_serves:
  assumes "install now inc r p = (inc', p', events, draining)" "targets_ok r"
  shows "pool_serves r p'"
proof -
  obtain nxt evs where sh:
    "install_targets now (NormalizeHost (rt_Host r)) inc (old_targets p) (rt_Targets r) = (inc', nxt, evs, draining)"
    "pool_targets p' = fst (report_drained (pool_host p') now (stable_sort (\<lambda>a b. ts_Replica a < ts_Replica b) nxt))"
    by (rule install_shape[OF assms]) blast
  have view: "map (\<lambda>ts. target_view (ts_t ts)) nxt = map target_view (rt_Targets r)"
    by (rule install_targets_view[OF sh(1) old_targets_keys(1)])
  have "mset (map target_view (pool_Counts p')) = mset (map (\<lambda>ts. target_view (ts_t ts)) nxt)"
    unfolding pool_Counts_def sh(2) report_drained_props(1) by (simp add: image_mset.compositionality comp_def)
  moreover have "map tgt_Replica (pool_Counts p') = map ts_Replica (stable_sort (\<lambda>a b. ts_Replica a < ts_Replica b) nxt)"
    unfolding pool_Counts_def sh(2) report_drained_props(1) by simp
  moreover have "distinct (map ts_Replica nxt)"
    using install_targets_props[OF sh(1) old_targets_keys(1)] assms(2) by (simp add: targets_ok_def)
  ultimately show ?thesis using sorted_install[of nxt] by (simp add: pool_serves_def view)
qed

lemma NewPool_serves: "NewPool now inc d r = (inc', p', draining) \<Longrightarrow> targets_ok r \<Longrightarrow> pool_serves r p'"
  by (auto simp: NewPool_def Let_def split: prod.splits intro: install_serves)

lemma install_pools_serves:
  assumes "install_pools now drain pools inc routes = (inc', ps, events, draining)" "\<forall>r \<in> set routes. targets_ok r"
  shows "list_all2 (\<lambda>r (h, p). h = rt_Host r \<and> pool_serves r p) routes ps"
  using assms
proof (induction routes arbitrary: inc inc' ps events draining)
  case Nil
  then show ?case by simp
next
  case (Cons r routes)
  obtain i1 p1 where head: "\<exists>ev dr. install now inc r (the (map_of pools (rt_Host r))) = (i1, p1, ev, dr) \<and>
        map_of pools (rt_Host r) \<noteq> None \<or> NewPool now inc drain r = (i1, p1, dr) \<and> map_of pools (rt_Host r) = None"
    by (cases "map_of pools (rt_Host r)"; cases "install now inc r (the (map_of pools (rt_Host r)))";
        cases "NewPool now inc drain r") auto
  obtain i2 rest e2 d2 where tail: "install_pools now drain pools i1 routes = (i2, rest, e2, d2)"
    by (cases "install_pools now drain pools i1 routes") auto
  have "ps = (rt_Host r, p1) # rest"
    using Cons.prems(1) head tail by (auto split: option.splits)
  moreover have "pool_serves r p1"
    using head Cons.prems(2) by (auto intro: install_serves NewPool_serves)
  ultimately show ?case using Cons.IH[OF tail] Cons.prems(2) by auto
qed

lemma map_of_zip_hosts:
  assumes "list_all2 (\<lambda>r (h, p). h = rt_Host r \<and> P r p) routes ps" "distinct (map rt_Host routes)" "r \<in> set routes"
  shows "\<exists>p. map_of ps (rt_Host r) = Some p \<and> P r p"
  using assms by (induction rule: list_all2_induct) (auto simp: image_iff)

lemma map_of_zip_dom:
  assumes "list_all2 (\<lambda>r (h, p). h = rt_Host r \<and> P r p) routes ps"
  shows "map_of ps h \<noteq> None \<longleftrightarrow> h \<in> rt_Host ` set routes"
  using assms by (induction rule: list_all2_induct) auto

lemma normalized_routes:
  "tbl_Routes (normalized_table t) = map (\<lambda>r. r\<lparr>rt_Host := NormalizeHost (rt_Host r)\<rparr>) (tbl_Routes t)"
  by (simp add: normalized_table_def table_Clone_def Let_def comp_def)

text \<open>C32: after a table is installed the router serves exactly its hosts, and every one of its routes
  is served by a pool whose targets are the route's: the same replicas on the same ports in
  the same states, ordered by replica. A table that does not validate is refused. The looked-up route is
  the table's provided that normalizing the host a second time does not change it again.\<close>

theorem router_serves_table:
  assumes "router_Install rfc3339 now inc t r = Inr (inc', r', draining)"
  shows "table_ok t \<and>
    (\<forall>h. router_Has r' h \<longleftrightarrow> (\<exists>route \<in> set (tbl_Routes t). NormalizeHost (rt_Host route) = NormalizeHost h)) \<and>
    (\<forall>route \<in> set (tbl_Routes t). \<forall>h. NormalizeHost h = NormalizeHost (rt_Host route) \<longrightarrow>
       (\<exists>found p. router_Lookup r' h = Some (found, p) \<and> pool_serves route p \<and>
          (NormalizeHost (NormalizeHost h) = NormalizeHost h \<longrightarrow> found = route\<lparr>rt_Host := NormalizeHost h\<rparr>)))"
proof -
  let ?routes = "tbl_Routes (normalized_table t)"
  obtain ps evs where valid: "table_Validate t = Inr ()"
    and ip: "install_pools now (rtr_drain r) (rtr_pools r) inc ?routes = (inc', ps, evs, draining)"
    and r': "rtr_pools r' = ps" "rtr_table r' = normalized_table t"
    using assms by (auto simp: router_Install_def bind_result_Inr Let_def split: prod.splits)
  have ok: "table_ok t" using valid by (simp add: table_Validate_def table_ok_def validate_routes_iff)
  then have dist: "distinct (map rt_Host ?routes)"
    by (simp add: table_ok_def normalized_routes comp_def)
  have "\<forall>r \<in> set ?routes. targets_ok r"
    using ok by (auto simp: table_ok_def route_ok_def normalized_routes targets_ok_def)
  note serves = install_pools_serves[OF ip this]
  have has: "router_Has r' h \<longleftrightarrow> (\<exists>route \<in> set (tbl_Routes t). NormalizeHost (rt_Host route) = NormalizeHost h)" for h
    unfolding router_Has_def r' map_of_zip_dom[OF serves] by (auto simp: normalized_routes image_iff) metis
  have look: "\<exists>found p. router_Lookup r' h = Some (found, p) \<and> pool_serves route p \<and>
      (NormalizeHost (NormalizeHost h) = NormalizeHost h \<longrightarrow> found = route\<lparr>rt_Host := NormalizeHost h\<rparr>)"
    if route: "route \<in> set (tbl_Routes t)" and h: "NormalizeHost h = NormalizeHost (rt_Host route)" for route h
  proof -
    let ?r = "route\<lparr>rt_Host := NormalizeHost (rt_Host route)\<rparr>"
    have mem: "?r \<in> set ?routes" using route by (auto simp: normalized_routes)
    from map_of_zip_hosts[OF serves dist mem] obtain p where p: "map_of ps (NormalizeHost h) = Some p" "pool_serves ?r p"
      by (auto simp: h)
    have "table_Route (normalized_table t) (NormalizeHost h) = Some ?r" if "NormalizeHost (NormalizeHost h) = NormalizeHost h"
    proof -
      have "find (\<lambda>r. rt_Host r = rt_Host ?r) ?routes = Some ?r"
        using dist mem by (rule find_distinct_key)
      then show ?thesis using that by (simp add: table_Route_def h)
    qed
    then show ?thesis using p h by (auto simp: router_Lookup_def r' pool_serves_def)
  qed
  show ?thesis using ok has look by blast
qed

definition example_routing :: Table where
  "example_routing = \<lparr>tbl_Routes = [example_route], tbl_Ingress = None, tbl_UpdatedAt = 0\<rparr>"

theorem router_serves_table_witness:
  "\<exists>inc r draining p. router_Install (\<lambda>_. []) 100 0 example_routing (NewRouter 0) = Inr (inc, r, draining) \<and>
     table_ok example_routing \<and> router_Has r ''A.'' \<and> \<not> router_Has r ''b'' \<and>
     router_Lookup r ''A.'' = Some (example_route, p) \<and> pool_serves example_route p"
proof -
  have v: "table_Validate example_routing = Inr ()" by code_simp
  have n: "NormalizeHost ''A.'' = ''a''" "NormalizeHost ''b'' = ''b''" by code_simp+
  have h: "rt_Host example_route = ''a''" "tbl_Routes example_routing = [example_route]" "example_route\<lparr>rt_Host := ''a''\<rparr> = example_route"
    by (simp_all add: example_route_def example_routing_def)
  obtain inc r draining where run: "router_Install (\<lambda>_. []) 100 0 example_routing (NewRouter 0) = Inr (inc, r, draining)"
  proof -
    have "\<exists>x. router_Install (\<lambda>_. []) 100 0 example_routing (NewRouter 0) = Inr x"
      using v by (simp add: router_Install_def Let_def split: prod.split)
    then show thesis using that by fastforce
  qed
  from router_serves_table[OF run] run show ?thesis by (fastforce simp: n h example_host)
qed

definition two_dots :: Table where
  "two_dots = \<lparr>tbl_Routes = [\<lparr>rt_Host = ''a..'', rt_Kind = KindHTTPS, rt_App = ''shop'', rt_Env = ''main'',
      rt_Service = ''web'', rt_Targets = [], rt_Via = [], rt_Drain = 0, rt_CreatedAt = 0\<rparr>],
    tbl_Ingress = None, tbl_UpdatedAt = 0\<rparr>"

lemma normalize_dots:
  "NormalizeHost ''a..'' = ''a.''" "NormalizeHost ''a.'' = ''a''"
  by code_simp+

text \<open>The host is normalized twice on the way from a request to the route, and one normalization takes
  off one trailing dot. For a table with the single host \<^verbatim>\<open>a..\<close> the router finds the pool of a request
  for that host but hands out an empty route with it.\<close>

theorem double_normalization_loses_route:
  "\<exists>inc r draining p. router_Install (\<lambda>_. []) 1 0 two_dots (NewRouter 0) = Inr (inc, r, draining) \<and>
     router_Lookup r ''a..'' = Some (empty_route, p)"
proof -
  have "table_Validate two_dots = Inr ()" by code_simp
  then show ?thesis
    by (simp add: router_Install_def normalized_table_def table_Clone_def two_dots_def NewRouter_def Let_def
        router_Lookup_def table_Route_def normalize_dots NewPool_def split: prod.split)
qed

end
