(* ===== verification/ShellWords.thy ===== *)
theory ShellWords
  imports GoStrings
begin

text \<open>
  Quoting and splitting of command lines (\<^verbatim>\<open>internal/remote/quote.go\<close>, \<^verbatim>\<open>internal/task/dispatch.go\<close>) and
  machine addresses (\<^verbatim>\<open>internal/remote/target.go\<close>). \<^verbatim>\<open>SplitWords\<close> goes through the runes of a string; all
  the characters it looks at are ASCII, so on valid UTF-8 it does the same byte by byte, as here.
\<close>

section \<open>Quoting\<close>

definition safe_chars :: string where
  "safe_chars = ''abcdefghijklmnopqrstuvwxyzABCDEFGHIJKLMNOPQRSTUVWXYZ0123456789'' @ ''@%_-+=:,./''"

definition needsQuoting :: "string \<Rightarrow> bool" where
  "needsQuoting s \<longleftrightarrow> (\<exists>c \<in> set s. c \<notin> set safe_chars)"

abbreviation squote :: char where "squote \<equiv> CHR 0x27"
abbreviation dquote :: char where "dquote \<equiv> CHR 0x22"
abbreviation backslash :: char where "backslash \<equiv> CHR 0x5C"
abbreviation tab :: char where "tab \<equiv> CHR 0x09"
abbreviation newline :: char where "newline \<equiv> CHR 0x0A"

definition Quote :: "string \<Rightarrow> string" where
  "Quote s =
     (if s = [] then [squote, squote]
      else if \<not> needsQuoting s then s
      else [squote] @ ReplaceByte s squote [squote, dquote, squote, dquote, squote] @ [squote])"

definition QuoteArgs :: "string list \<Rightarrow> string list" where
  "QuoteArgs args = map Quote args"

definition JoinArgs :: "string list \<Rightarrow> string" where
  "JoinArgs args = JoinWith (QuoteArgs args) '' ''"

datatype words_error = TrailingBackslash | UnterminatedQuote

text \<open>The loop of \<^verbatim>\<open>SplitWords\<close>: the open quote, whether a word has begun, the word so far, and the rest.\<close>

fun split_words :: "char option \<Rightarrow> bool \<Rightarrow> string \<Rightarrow> string \<Rightarrow> words_error + string list" where
  "split_words quote inWord cur [] =
     (if quote \<noteq> None then Inl UnterminatedQuote
      else Inr (if inWord then [cur] else []))"
| "split_words (Some q) inWord cur (c # cs) =
     (if c = q then split_words None inWord cur cs
      else if c = backslash \<and> q = dquote then
        (case cs of d # ds \<Rightarrow> split_words (Some q) inWord (cur @ [d]) ds
         | [] \<Rightarrow> split_words (Some q) inWord (cur @ [c]) [])
      else split_words (Some q) inWord (cur @ [c]) cs)"
| "split_words None inWord cur (c # cs) =
     (if c = squote \<or> c = dquote then split_words (Some c) True cur cs
      else if c = backslash then
        (case cs of [] \<Rightarrow> Inl TrailingBackslash | d # ds \<Rightarrow> split_words None True (cur @ [d]) ds)
      else if c = CHR '' '' \<or> c = tab \<or> c = newline then
        (if inWord then bind_result (split_words None False [] cs) (\<lambda>ws. Inr (cur # ws))
         else split_words None False cur cs)
      else split_words None True (cur @ [c]) cs)"

definition SplitWords :: "string \<Rightarrow> words_error + string list" where
  "SplitWords s = split_words None False [] s"

section \<open>The dispatcher's words\<close>

definition Binary :: string where
  "Binary = ''caramelo''"

definition Metacharacters :: string where
  "Metacharacters = ''|&;<>()$'' @ [CHR 0x60, backslash] @ ''*?[]#~=%'' @ [newline]"

fun split_argv :: "char option \<Rightarrow> bool \<Rightarrow> string \<Rightarrow> string \<Rightarrow> string list option" where
  "split_argv quote inWord cur [] =
     (if quote \<noteq> None then None else Some (if inWord then [cur] else []))"
| "split_argv (Some q) inWord cur (c # cs) =
     (if c = q then split_argv None inWord cur cs else split_argv (Some q) inWord (cur @ [c]) cs)"
| "split_argv None inWord cur (c # cs) =
     (if c = squote \<or> c = dquote then split_argv (Some c) True cur cs
      else if c = CHR '' '' \<or> c = tab then
        (if inWord then map_option ((#) cur) (split_argv None False [] cs)
         else split_argv None False cur cs)
      else split_argv None True (cur @ [c]) cs)"

definition splitArgv :: "string \<Rightarrow> string list option" where
  "splitArgv s = split_argv None False [] s"

definition InProcess :: "string \<Rightarrow> string list option" where
  "InProcess script =
     (if ContainsAny script Metacharacters then None
      else (case splitArgv script of
              None \<Rightarrow> None
            | Some argv \<Rightarrow> if argv = [] \<or> hd argv \<noteq> Binary then None else Some argv))"

section \<open>Quoted words are read back\<close>

text \<open>The interface of a word syntax: a quoted word is consumed whole, from any word in progress, and
  a separator ends the word. \<open>split\<close> reads on from a word that has begun (\<open>Some\<close>) or from between words.\<close>

locale word_syntax =
  fixes quote :: "string \<Rightarrow> string"
    and sep :: string
    and split :: "string option \<Rightarrow> string \<Rightarrow> string list option"
  assumes split_quote: "split None (quote w @ rest) = split (Some w) rest"
    and split_sep: "split (Some w) (sep @ rest) = map_option ((#) w) (split None rest)"
    and split_end: "split (Some w) [] = Some [w]" "split None [] = Some []"
begin

lemma split_join: "split None (JoinWith (map quote ws) sep) = Some ws"
proof (induction ws rule: induct_list012)
  case 1
  then show ?case by (simp add: split_end)
next
  case (2 w)
  then show ?case using split_quote[of w "[]"] by (simp add: split_end)
next
  case (3 v w ws)
  then show ?case by (simp add: split_quote split_sep)
qed

end

definition word_result :: "'e + 'a \<Rightarrow> 'a option" where
  "word_result r = (case r of Inl _ \<Rightarrow> None | Inr x \<Rightarrow> Some x)"

lemma word_result_simps [simp]:
  "word_result (Inl e) = None" "word_result (Inr x) = Some x"
  "word_result (bind_result r (\<lambda>ws. Inr (w # ws))) = map_option ((#) w) (word_result r)"
  "word_result r = Some x \<longleftrightarrow> r = Inr x"
  by (cases r; simp add: word_result_def)+

lemma safe_char_plain:
  "c \<in> set safe_chars \<Longrightarrow> c \<noteq> squote \<and> c \<noteq> dquote \<and> c \<noteq> backslash \<and> c \<noteq> CHR '' '' \<and> c \<noteq> tab \<and> c \<noteq> newline"
  by (auto simp: safe_chars_def)

lemma split_words_safe:
  "\<forall>c \<in> set s. c \<in> set safe_chars \<Longrightarrow> s \<noteq> [] \<Longrightarrow>
   split_words None w cur (s @ rest) = split_words None True (cur @ s) rest"
proof (induction s arbitrary: w cur)
  case Nil
  then show ?case by simp
next
  case (Cons c s)
  then have "split_words None w cur ((c # s) @ rest) = split_words None True (cur @ [c]) (s @ rest)"
    using safe_char_plain[of c] by simp
  then show ?case using Cons by (cases s) auto
qed

lemma split_words_quoted:
  "split_words (Some squote) w cur (ReplaceByte s squote [squote, dquote, squote, dquote, squote] @ squote # rest) =
   (if w then split_words None True (cur @ s) rest else split_words None (squote \<in> set s) (cur @ s) rest)"
  by (induction s arbitrary: w cur) auto

lemma split_words_Quote: "split_words None w cur (Quote s @ rest) = split_words None True (cur @ s) rest"
  using split_words_safe[of s w cur rest] split_words_quoted[of True cur s rest]
  by (auto simp: Quote_def needsQuoting_def)

interpretation shell: word_syntax Quote "'' ''"
  "\<lambda>state s. word_result (case state of None \<Rightarrow> split_words None False [] s | Some w \<Rightarrow> split_words None True w s)"
  by unfold_locales (simp_all add: split_words_Quote)

lemma SplitWords_joined: "SplitWords (JoinArgs args) = Inr args"
  using shell.split_join[of args] by (simp add: SplitWords_def JoinArgs_def QuoteArgs_def)


section \<open>The dispatcher reads the same words\<close>

lemma split_argv_words:
  "\<forall>c \<in> set s. c \<notin> set Metacharacters \<Longrightarrow> split_argv q w cur s = word_result (split_words q w cur s)"
proof (induction q w cur s rule: split_argv.induct)
  case (1 quote inWord cur)
  then show ?case by simp
next
  case (2 q inWord cur c cs)
  then show ?case by (auto simp: Metacharacters_def)
next
  case (3 inWord cur c cs)
  then show ?case by (auto simp: Metacharacters_def)
qed

lemma ReplaceByte_set: "set (ReplaceByte s c r) \<subseteq> set s \<union> set r"
  by (induction s) auto

lemma Quote_set: "set (Quote s) \<subseteq> set s \<union> {squote, dquote}"
  using ReplaceByte_set[of s squote "[squote, dquote, squote, dquote, squote]"] by (auto simp: Quote_def)

lemma JoinWith_set: "set (JoinWith ws sep) \<subseteq> (\<Union>w \<in> set ws. set w) \<union> set sep"
  by (induction ws sep rule: JoinWith.induct) auto

lemma JoinArgs_set: "set (JoinArgs args) \<subseteq> (\<Union>a \<in> set args. set a) \<union> {squote, dquote, CHR '' ''}"
  unfolding JoinArgs_def QuoteArgs_def
  using JoinWith_set[of "map Quote args" "'' ''"] Quote_set by fastforce

text \<open>A step's script that the engine runs without a shell is read the way the shell words are: a script
  with no metacharacter has the same words for \<^verbatim>\<open>splitArgv\<close> and \<^verbatim>\<open>SplitWords\<close>, a script that is run
  in process is such a one and names the program itself, and the program's own command lines
  made of arguments without metacharacters are recognized with exactly their arguments.\<close>

theorem InProcess_words:
  "(InProcess script = Some argv \<longrightarrow> SplitWords script = Inr argv \<and> (\<exists>args. argv = Binary # args)) \<and>
   (\<not> ContainsAny script Metacharacters \<longrightarrow> splitArgv script = word_result (SplitWords script)) \<and>
   ((\<forall>a \<in> set args. \<not> ContainsAny a Metacharacters) \<longrightarrow>
      InProcess (JoinArgs (Binary # args)) = Some (Binary # args))"
proof -
  have same: "splitArgv s = word_result (SplitWords s)" if "\<not> ContainsAny s Metacharacters" for s
    using split_argv_words[of s None False "[]"] that by (auto simp: splitArgv_def SplitWords_def ContainsAny_def)
  have "SplitWords script = Inr argv \<and> (\<exists>args. argv = Binary # args)" if "InProcess script = Some argv"
    using that same[of script] by (cases argv) (auto simp: InProcess_def split: if_splits option.splits)
  moreover have "InProcess (JoinArgs (Binary # args)) = Some (Binary # args)"
    if "\<forall>a \<in> set args. \<not> ContainsAny a Metacharacters"
  proof -
    have "\<not> ContainsAny Binary Metacharacters" by code_simp
    moreover have "set [squote, dquote, CHR '' ''] \<inter> set Metacharacters = {}" by code_simp
    ultimately have "\<not> ContainsAny (JoinArgs (Binary # args)) Metacharacters"
      using that JoinArgs_set[of "Binary # args"] unfolding ContainsAny_def by fastforce
    then show ?thesis using same by (simp add: InProcess_def SplitWords_joined)
  qed
  ultimately show ?thesis using same by blast
qed

theorem InProcess_words_witness:
  "InProcess ''caramelo up'' = Some [''caramelo'', ''up''] \<and> SplitWords ''caramelo up'' = Inr [''caramelo'', ''up''] \<and>
   InProcess (JoinArgs (Binary # [''a b''])) = Some (Binary # [''a b'']) \<and>
   splitArgv ''ls -l'' = word_result (SplitWords ''ls -l'')"
proof -
  have "InProcess ''caramelo up'' = Some [''caramelo'', ''up'']" "\<not> ContainsAny ''ls -l'' Metacharacters"
    "\<not> ContainsAny ''a b'' Metacharacters"
    by code_simp+
  then show ?thesis
    using InProcess_words[of "''caramelo up''" "[''caramelo'', ''up'']" "[''a b'']"] InProcess_words[of "''ls -l''" "[]" "[]"]
    by simp
qed

end
