(* ===== verification/RemoteTarget.thy ===== *)
theory RemoteTarget
  imports GoStrings
begin

text \<open>
  Machine addresses \<^verbatim>\<open>user@host:port\<close> (\<^verbatim>\<open>internal/remote/target.go\<close>): what \<^verbatim>\<open>ParseTarget\<close> accepts and that
  it reads back what \<^verbatim>\<open>Target.String\<close> prints.
\<close>

record STarget =
  st_User :: string
  st_Host :: string
  st_Port :: int

datatype target_error =
    EmptyAddress | EmptyUser string | UnclosedBracket | UnexpectedAfterBracket string | EmptyHost
  | HostWhitespace | BadPort string | PortOutOfRange int

definition STarget_String :: "STarget \<Rightarrow> string" where
  "STarget_String t =
     (let host = (if CHR '':'' \<in> set (st_Host t) then ''['' @ st_Host t @ '']'' else st_Host t)
      in st_User t @ ''@'' @ host @ '':'' @ Itoa (st_Port t))"

definition Destination :: "STarget \<Rightarrow> string" where
  "Destination t = st_User t @ ''@'' @ st_Host t"

definition parsePort :: "string \<Rightarrow> target_error + int" where
  "parsePort s =
     (case Atoi s of
        None \<Rightarrow> Inl (BadPort s)
      | Some n \<Rightarrow> if n < 1 \<or> n > 65535 then Inl (PortOutOfRange n) else Inr n)"

definition check_host :: "string \<Rightarrow> int \<Rightarrow> target_error + (string \<times> int)" where
  "check_host host port =
     (if host = [] then Inl EmptyHost
      else if ContainsAny host [CHR '' '', CHR 0x09] then Inl HostWhitespace
      else Inr (host, port))"

definition splitHostPort :: "string \<Rightarrow> target_error + (string \<times> int)" where
  "splitHostPort s =
     (if HasPrefix s ''['' then
        (case IndexByte s (CHR '']'') of
           None \<Rightarrow> Inl UnclosedBracket
         | Some e \<Rightarrow>
             (let host = drop 1 (take e s); tail = drop (Suc e) s
              in if tail = [] then check_host host 0
                 else if HasPrefix tail '':'' then bind_result (parsePort (drop 1 tail)) (\<lambda>port. check_host host port)
                 else Inl (UnexpectedAfterBracket tail)))
      else if count_list s (CHR '':'') = 1 then
        (case IndexByte s (CHR '':'') of
           None \<Rightarrow> check_host s 0
         | Some i \<Rightarrow> bind_result (parsePort (drop (Suc i) s)) (\<lambda>port. check_host (take i s) port))
      else check_host s 0)"

definition ParseTargetWith :: "string \<Rightarrow> string \<Rightarrow> int \<Rightarrow> target_error + STarget" where
  "ParseTargetWith s defaultUser defaultPort =
     (let rest = TrimSpace s
      in if rest = [] then Inl EmptyAddress
         else
           bind_result
             (case LastIndexByte rest (CHR ''@'') of
                None \<Rightarrow> Inr (defaultUser, rest)
              | Some i \<Rightarrow> if take i rest = [] then Inl (EmptyUser s) else Inr (take i rest, drop (Suc i) rest))
             (\<lambda>(user, rest). bind_result (splitHostPort rest) (\<lambda>(host, port).
                Inr \<lparr>st_User = user, st_Host = host, st_Port = (if port \<noteq> 0 then port else defaultPort)\<rparr>)))"

abbreviation DefaultUser :: string where
  "DefaultUser \<equiv> ''caramelo''"

abbreviation DefaultSSHPort :: int where
  "DefaultSSHPort \<equiv> 4022"

definition ParseTarget :: "string \<Rightarrow> target_error + STarget" where
  "ParseTarget s = ParseTargetWith s DefaultUser DefaultSSHPort"

section \<open>Printing and reading back\<close>

text \<open>The targets that can be printed and read back: a user that does not begin with white space, a host
  without an \<^verbatim>\<open>@\<close>, white space or brackets, and a port of the TCP range.\<close>

definition target_printable :: "STarget \<Rightarrow> bool" where
  "target_printable t \<longleftrightarrow> st_User t \<noteq> [] \<and> (\<forall>e \<in> set space_encodings. \<not> HasPrefix (st_User t) e) \<and>
     st_Host t \<noteq> [] \<and> \<not> ContainsAny (st_Host t) [CHR '' '', CHR 0x09, CHR ''@'', CHR ''['', CHR '']''] \<and>
     1 \<le> st_Port t \<and> st_Port t \<le> 65535"

lemma parsePort_Itoa: "1 \<le> n \<Longrightarrow> n \<le> 65535 \<Longrightarrow> parsePort (Itoa n) = Inr n"
  by (simp add: parsePort_def Atoi_Itoa minInt64_def maxInt64_def)

lemma Itoa_digits: "0 \<le> n \<Longrightarrow> list_all is_digit (Itoa n)"
  by (simp add: Itoa_def show_nat_digits)

lemma Itoa_nonempty: "Itoa n \<noteq> []"
  by (simp add: Itoa_def show_nat_nonempty)

lemma Itoa_no: "0 \<le> n \<Longrightarrow> \<not> is_digit c \<Longrightarrow> c \<notin> set (Itoa n)"
  using Itoa_digits[of n] by (auto simp: list_all_iff)

lemma not_digits [simp]:
  "\<not> is_digit (CHR '':'')" "\<not> is_digit (CHR ''@'')" "\<not> is_digit (CHR ''['')" "\<not> is_digit (CHR '']'')"
  by code_simp+

lemma splitHostPort_bracket:
  assumes "CHR '']'' \<notin> set host" "1 \<le> p" "p \<le> 65535"
  shows "splitHostPort (''['' @ host @ '']:'' @ Itoa p) = check_host host p"
proof -
  have "IndexByte ((''['' @ host) @ CHR '']'' # CHR '':'' # Itoa p) (CHR '']'') = Some (length (''['' @ host))"
    using assms(1) by (intro IndexByte_append) simp
  then show ?thesis
    using parsePort_Itoa[OF assms(2,3)] by (simp add: splitHostPort_def HasPrefix_def)
qed

lemma splitHostPort_plain:
  assumes "CHR '':'' \<notin> set host" "\<not> HasPrefix host ''[''" "host \<noteq> []" "1 \<le> p" "p \<le> 65535"
  shows "splitHostPort (host @ '':'' @ Itoa p) = check_host host p"
proof -
  have no: "CHR '':'' \<notin> set (Itoa p)" using Itoa_no[of p "CHR '':''"] assms(4) by simp
  have "count_list (host @ CHR '':'' # Itoa p) (CHR '':'') = 1"
    using assms(1) no by (simp add: count_list_0_iff[THEN iffD2])
  moreover have "\<not> HasPrefix (host @ CHR '':'' # Itoa p) ''[''"
    using assms(2,3) by (cases host) (auto simp: HasPrefix_def)
  ultimately show ?thesis
    using parsePort_Itoa[OF assms(4,5)] IndexByte_append[OF assms(1), of "Itoa p"] by (simp add: splitHostPort_def)
qed

lemma digit_no_space_end:
  assumes "list_all is_digit ds" "ds \<noteq> []" "e \<in> set space_encodings"
  shows "\<not> HasSuffix (s @ ds) e"
proof
  assume "HasSuffix (s @ ds) e"
  then have "last (s @ ds) = last e"
    using space_encodings_nonempty[OF assms(3)] by (auto simp: HasSuffix_iff)
  then have "is_digit (last e)" using assms(1,2) by (metis last_appendR last_in_set list_all_iff)
  moreover have "\<forall>e \<in> set space_encodings. \<not> is_digit (last e)" by code_simp
  ultimately show False using assms(3) by blast
qed

lemma space_prefix_user:
  assumes "e \<in> set space_encodings" "HasPrefix (user @ CHR ''@'' # rest) e"
  shows "HasPrefix user e"
proof -
  obtain r where r: "user @ CHR ''@'' # rest = e @ r" using assms(2) by (auto simp: HasPrefix_iff)
  have no: "CHR ''@'' \<notin> set e"
  proof -
    have "\<forall>e \<in> set space_encodings. CHR ''@'' \<notin> set e" by code_simp
    then show ?thesis using assms(1) by blast
  qed
  from r consider us where "user = e @ us" | us where "us \<noteq> []" "user @ us = e" "us @ r = CHR ''@'' # rest"
    by (auto simp: append_eq_append_conv2) fastforce
  then show ?thesis
  proof cases
    case 1
    then show ?thesis by simp
  next
    case 2
    then have "CHR ''@'' \<in> set e" by (cases us) auto
    then show ?thesis using no by simp
  qed
qed

text \<open>A printed machine address is read back as the same target, whatever the defaults: for every user,
  every host name or address (with colons or not) and every port.\<close>

theorem ParseTarget_String:
  assumes "target_printable t"
  shows "ParseTargetWith (STarget_String t) defaultUser defaultPort = Inr t"
proof -
  let ?host = "if CHR '':'' \<in> set (st_Host t) then ''['' @ st_Host t @ '']'' else st_Host t"
  let ?rest = "?host @ '':'' @ Itoa (st_Port t)"
  have str: "STarget_String t = st_User t @ CHR ''@'' # ?rest" by (simp add: STarget_String_def Let_def)
  have t: "st_User t \<noteq> []" "st_Host t \<noteq> []" "1 \<le> st_Port t" "st_Port t \<le> 65535"
    "CHR ''@'' \<notin> set (st_Host t)" "CHR '']'' \<notin> set (st_Host t)" "CHR ''['' \<notin> set (st_Host t)"
    "\<not> ContainsAny (st_Host t) [CHR '' '', CHR 0x09]"
    using assms by (auto simp: target_printable_def ContainsAny_def)
  have "trimmed (STarget_String t)"
    unfolding trimmed_def
  proof (intro ballI conjI)
    fix e assume e: "e \<in> set space_encodings"
    show "\<not> HasPrefix (STarget_String t) e"
      using space_prefix_user[OF e] assms e unfolding str by (auto simp: target_printable_def)
    show "\<not> HasSuffix (STarget_String t) e"
      using digit_no_space_end[OF Itoa_digits Itoa_nonempty e, of "st_Port t" "st_User t @ ''@'' @ ?host @ '':''"] t(3)
      unfolding str by simp
  qed
  then have trim: "TrimSpace (STarget_String t) = STarget_String t" by simp
  have "CHR ''@'' \<notin> set ?rest"
    using t(3,5) Itoa_no[of "st_Port t" "CHR ''@''"] by auto
  then have at: "LastIndexByte (STarget_String t) (CHR ''@'') = Some (length (st_User t))"
    unfolding str by (rule LastIndexByte_append)
  have "splitHostPort ?rest = check_host (st_Host t) (st_Port t)"
  proof (cases "CHR '':'' \<in> set (st_Host t)")
    case True
    then show ?thesis using splitHostPort_bracket[OF t(6,3,4)] by simp
  next
    case False
    moreover have "\<not> HasPrefix (st_Host t) ''[''" using t(7) by (cases "st_Host t") (auto simp: HasPrefix_def)
    ultimately show ?thesis using splitHostPort_plain[OF False _ t(2,3,4)] by simp
  qed
  then show ?thesis
    unfolding ParseTargetWith_def trim Let_def at
    using t by (simp add: str check_host_def)
qed

theorem ParseTarget_String_witness:
  "target_printable \<lparr>st_User = ''ana'', st_Host = ''fd00::7'', st_Port = 2222\<rparr> \<and>
   STarget_String \<lparr>st_User = ''ana'', st_Host = ''fd00::7'', st_Port = 2222\<rparr> = ''ana@[fd00::7]:2222'' \<and>
   ParseTargetWith ''ana@[fd00::7]:2222'' ''root'' 22 = Inr \<lparr>st_User = ''ana'', st_Host = ''fd00::7'', st_Port = 2222\<rparr>"
proof -
  have p: "target_printable \<lparr>st_User = ''ana'', st_Host = ''fd00::7'', st_Port = 2222\<rparr>"
    and s: "STarget_String \<lparr>st_User = ''ana'', st_Host = ''fd00::7'', st_Port = 2222\<rparr> = ''ana@[fd00::7]:2222''"
    by code_simp+
  show ?thesis using ParseTarget_String[OF p, of "''root''" 22] p s by simp
qed

end
