(* ===== verification/Vault.thy ===== *)
theory Vault
  imports GoStrings
begin

text \<open>
  The vault: names, values, scopes and references (\<^verbatim>\<open>internal/vault/vault.go\<close>), the table of encrypted
  secrets (\<^verbatim>\<open>internal/state/vault.go\<close>) and the store over it (\<^verbatim>\<open>internal/vault/store.go\<close>). The
  encryption is the code of a cryptographic library: \<open>seal\<close> (with the randomness of the call as its first
  argument) and \<open>opn\<close> are arguments of the operations, and so is the hash of \<open>Fingerprint\<close>. A table of secrets
  is the list of its rows; a query returns them in the order its \<^verbatim>\<open>ORDER BY\<close> gives. Scopes are a datatype with a
  constructor for any other string. Failures of the database are not modelled.
\<close>

section \<open>Scopes, references and names\<close>

datatype Scope = ScopeDefault | ScopeMachine | ScopeApp | ScopeEnv | OtherScope string

definition Scopes :: "Scope list" where
  "Scopes = [ScopeDefault, ScopeMachine, ScopeApp, ScopeEnv]"

fun Scope_String :: "Scope \<Rightarrow> string" where
  "Scope_String ScopeDefault = ''default''"
| "Scope_String ScopeMachine = ''machine''"
| "Scope_String ScopeApp = ''app''"
| "Scope_String ScopeEnv = ''env''"
| "Scope_String (OtherScope s) = s"

fun index_of :: "'a list \<Rightarrow> 'a \<Rightarrow> int \<Rightarrow> int" where
  "index_of [] x i = - 1"
| "index_of (y # ys) x i = (if y = x then i else index_of ys x (i + 1))"

definition Rank :: "Scope \<Rightarrow> int" where
  "Rank s = index_of Scopes s 0"

definition Beats :: "Scope \<Rightarrow> Scope \<Rightarrow> bool" where
  "Beats s other \<longleftrightarrow> Rank s > Rank other"

datatype vault_error =
    NoName | NameTooLong string | NameStartsWithDigit string | NameBadChar string char
  | ValueTooLong string nat
  | ScopeTakesNoApp Scope string string | ScopeNeedsApp Scope | ScopeTakesNoEnv Scope string
  | ScopeNeedsAppAndEnv Scope string string | UnknownScope Scope
  | EmptyScope | EmptyName | NoCiphertext string | NoNonce string | SecretNotFound
  | SealFailed | OpenFailed string

definition ParseScope :: "string \<Rightarrow> string + Scope" where
  "ParseScope s =
     (let sc = ToLower (TrimSpace s)
      in if sc = ''machine'' then Inr ScopeMachine
         else if sc = ''app'' then Inr ScopeApp
         else if sc = ''env'' then Inr ScopeEnv
         else Inl s)"

abbreviation MaxNameLen :: nat where
  "MaxNameLen \<equiv> 128"

abbreviation MaxValueLen :: nat where
  "MaxValueLen \<equiv> 65536"

fun validate_name_chars :: "string \<Rightarrow> bool \<Rightarrow> string \<Rightarrow> vault_error + unit" where
  "validate_name_chars name first [] = Inr ()"
| "validate_name_chars name first (c # cs) =
     (if is_upper c \<or> c = CHR ''_'' then validate_name_chars name False cs
      else if is_digit c \<and> \<not> first then validate_name_chars name False cs
      else if first \<and> is_digit c then Inl (NameStartsWithDigit name)
      else Inl (NameBadChar name c))"

definition ValidateName :: "string \<Rightarrow> vault_error + unit" where
  "ValidateName name =
     (if name = [] then Inl NoName
      else if length name > MaxNameLen then Inl (NameTooLong name)
      else validate_name_chars name True name)"

definition ValidateValue :: "string \<Rightarrow> string \<Rightarrow> vault_error + unit" where
  "ValidateValue name value =
     (if length value > MaxValueLen then Inl (ValueTooLong name (length value)) else Inr ())"

record Ref =
  ref_Scope :: Scope
  ref_App :: string
  ref_Env :: string
  ref_Name :: string

text \<open>The checks of \<^verbatim>\<open>Ref.Validate\<close> on the scope; \<^verbatim>\<open>validVaultScope\<close> makes the same on a row.\<close>

definition validVaultScope :: "Scope \<Rightarrow> string \<Rightarrow> string \<Rightarrow> vault_error + unit" where
  "validVaultScope scope app env =
     (case scope of
        ScopeMachine \<Rightarrow> if app \<noteq> [] \<or> env \<noteq> [] then Inl (ScopeTakesNoApp scope app env) else Inr ()
      | ScopeApp \<Rightarrow>
          if app = [] then Inl (ScopeNeedsApp scope)
          else if env \<noteq> [] then Inl (ScopeTakesNoEnv scope env) else Inr ()
      | ScopeEnv \<Rightarrow> if app = [] \<or> env = [] then Inl (ScopeNeedsAppAndEnv scope app env) else Inr ()
      | _ \<Rightarrow> Inl (UnknownScope scope))"

definition Ref_Validate :: "Ref \<Rightarrow> vault_error + unit" where
  "Ref_Validate r =
     bind_result (ValidateName (ref_Name r)) (\<lambda>_.
       case ref_Scope r of
         ScopeMachine \<Rightarrow>
           if ref_App r \<noteq> [] \<or> ref_Env r \<noteq> [] then Inl (ScopeTakesNoApp (ref_Scope r) (ref_App r) (ref_Env r)) else Inr ()
       | ScopeApp \<Rightarrow>
           if ref_App r = [] then Inl (ScopeNeedsApp (ref_Scope r))
           else if ref_Env r \<noteq> [] then Inl (ScopeTakesNoEnv (ref_Scope r) (ref_Env r)) else Inr ()
       | ScopeEnv \<Rightarrow>
           if ref_App r = [] \<or> ref_Env r = [] then Inl (ScopeNeedsAppAndEnv (ref_Scope r) (ref_App r) (ref_Env r)) else Inr ()
       | _ \<Rightarrow> Inl (UnknownScope (ref_Scope r)))"

definition MachineRef :: "string \<Rightarrow> Ref" where
  "MachineRef name = \<lparr>ref_Scope = ScopeMachine, ref_App = [], ref_Env = [], ref_Name = name\<rparr>"

definition AppRef :: "string \<Rightarrow> string \<Rightarrow> Ref" where
  "AppRef app name = \<lparr>ref_Scope = ScopeApp, ref_App = app, ref_Env = [], ref_Name = name\<rparr>"

definition EnvRef :: "string \<Rightarrow> string \<Rightarrow> string \<Rightarrow> Ref" where
  "EnvRef app env name = \<lparr>ref_Scope = ScopeEnv, ref_App = app, ref_Env = env, ref_Name = name\<rparr>"

record Entry = Ref +
  en_Value :: string
  en_Version :: int
  en_UpdatedBy :: string
  en_UpdatedAt :: gtime

definition Redact :: "Entry \<Rightarrow> Entry" where
  "Redact e = e\<lparr>en_Value := []\<rparr>"

definition Sort :: "Entry list \<Rightarrow> Entry list" where
  "Sort entries = stable_sort (\<lambda>a b.
     if ref_Scope a \<noteq> ref_Scope b then Rank (ref_Scope a) < Rank (ref_Scope b)
     else ref_Name a < ref_Name b) entries"

section \<open>The table of secrets\<close>

record VaultEntry =
  ve_Scope :: Scope
  ve_App :: string
  ve_Env :: string
  ve_Name :: string
  ve_Ciphertext :: string
  ve_Nonce :: string
  ve_Version :: int
  ve_UpdatedBy :: string
  ve_UpdatedAt :: gtime

type_synonym vault_rows = "VaultEntry list"

definition at_key :: "Scope \<Rightarrow> string \<Rightarrow> string \<Rightarrow> string \<Rightarrow> VaultEntry \<Rightarrow> bool" where
  "at_key scope app env name e \<longleftrightarrow> ve_Scope e = scope \<and> ve_App e = app \<and> ve_Env e = env \<and> ve_Name e = name"

definition Secret :: "vault_rows \<Rightarrow> Scope \<Rightarrow> string \<Rightarrow> string \<Rightarrow> string \<Rightarrow> VaultEntry option" where
  "Secret rows scope app env name = find (at_key scope app env name) rows"

text \<open>The insertion, or on a conflict of the key the update that counts the version up.\<close>

definition upsert :: "VaultEntry \<Rightarrow> vault_rows \<Rightarrow> vault_rows" where
  "upsert e rows =
     (if Secret rows (ve_Scope e) (ve_App e) (ve_Env e) (ve_Name e) = None then rows @ [e\<lparr>ve_Version := 1\<rparr>]
      else map (\<lambda>r. if at_key (ve_Scope e) (ve_App e) (ve_Env e) (ve_Name e) r
                 then r\<lparr>ve_Ciphertext := ve_Ciphertext e, ve_Nonce := ve_Nonce e, ve_Version := ve_Version r + 1,
                        ve_UpdatedBy := ve_UpdatedBy e, ve_UpdatedAt := ve_UpdatedAt e\<rparr>
                 else r) rows)"

definition PutSecret :: "gtime \<Rightarrow> VaultEntry \<Rightarrow> vault_rows \<Rightarrow> vault_error + (vault_rows \<times> VaultEntry)" where
  "PutSecret now e0 rows =
     (if ve_Scope e0 = OtherScope [] then Inl EmptyScope
      else if ve_Name e0 = [] then Inl EmptyName
      else if ve_Ciphertext e0 = [] then Inl (NoCiphertext (ve_Name e0))
      else if ve_Nonce e0 = [] then Inl (NoNonce (ve_Name e0))
      else bind_result (validVaultScope (ve_Scope e0) (ve_App e0) (ve_Env e0)) (\<lambda>_.
        let e = (if is_zero (ve_UpdatedAt e0) then e0\<lparr>ve_UpdatedAt := now\<rparr> else e0);
            rows' = upsert e rows
        in case Secret rows' (ve_Scope e) (ve_App e) (ve_Env e) (ve_Name e) of
             None \<Rightarrow> Inl SecretNotFound
           | Some row \<Rightarrow> Inr (rows', row)))"

definition Secrets :: "vault_rows \<Rightarrow> Scope \<Rightarrow> string \<Rightarrow> string \<Rightarrow> vault_rows" where
  "Secrets rows scope app env =
     sort_key ve_Name (filter (\<lambda>e. ve_Scope e = scope \<and> ve_App e = app \<and> ve_Env e = env) rows)"

definition scope_order :: "Scope \<Rightarrow> nat" where
  "scope_order s = (case s of ScopeMachine \<Rightarrow> 0 | ScopeApp \<Rightarrow> 1 | _ \<Rightarrow> 2)"

definition SecretsFor :: "vault_rows \<Rightarrow> string \<Rightarrow> string \<Rightarrow> vault_rows" where
  "SecretsFor rows app env =
     stable_sort (\<lambda>a b. scope_order (ve_Scope a) < scope_order (ve_Scope b) \<or>
         scope_order (ve_Scope a) = scope_order (ve_Scope b) \<and> ve_Name a < ve_Name b)
       (filter (\<lambda>e. ve_Scope e = ScopeMachine \<and> ve_App e = [] \<and> ve_Env e = [] \<or>
                    ve_Scope e = ScopeApp \<and> ve_App e = app \<and> ve_Env e = [] \<or>
                    ve_Scope e = ScopeEnv \<and> ve_App e = app \<and> ve_Env e = env) rows)"

definition RemoveSecret :: "vault_rows \<Rightarrow> Scope \<Rightarrow> string \<Rightarrow> string \<Rightarrow> string \<Rightarrow> vault_error + vault_rows" where
  "RemoveSecret rows scope app env name =
     (if Secret rows scope app env name = None then Inl SecretNotFound
      else Inr (filter (\<lambda>e. \<not> at_key scope app env name e) rows))"

section \<open>The store\<close>

type_synonym sealer = "nat \<Rightarrow> string \<Rightarrow> (string \<times> string) option"
type_synonym opener = "string \<Rightarrow> string \<Rightarrow> string option"

definition entryOf :: "VaultEntry \<Rightarrow> Entry" where
  "entryOf row = \<lparr>ref_Scope = ve_Scope row, ref_App = ve_App row, ref_Env = ve_Env row, ref_Name = ve_Name row,
     en_Value = [], en_Version = ve_Version row, en_UpdatedBy = ve_UpdatedBy row, en_UpdatedAt = ve_UpdatedAt row\<rparr>"

definition open_row :: "opener \<Rightarrow> VaultEntry \<Rightarrow> vault_error + string" where
  "open_row opn row =
     (case opn (ve_Ciphertext row) (ve_Nonce row) of None \<Rightarrow> Inl (OpenFailed (ve_Name row)) | Some v \<Rightarrow> Inr v)"

definition vault_Set ::
  "sealer \<Rightarrow> nat \<Rightarrow> gtime \<Rightarrow> string \<Rightarrow> Ref \<Rightarrow> string \<Rightarrow> vault_rows \<Rightarrow> vault_error + (vault_rows \<times> Entry)" where
  "vault_Set seal rnd now who r value rows =
     bind_result (Ref_Validate r) (\<lambda>_.
     bind_result (ValidateValue (ref_Name r) value) (\<lambda>_.
       case seal rnd value of
         None \<Rightarrow> Inl SealFailed
       | Some (ciphertext, nonce) \<Rightarrow>
           bind_result (PutSecret now \<lparr>ve_Scope = ref_Scope r, ve_App = ref_App r, ve_Env = ref_Env r, ve_Name = ref_Name r,
               ve_Ciphertext = ciphertext, ve_Nonce = nonce, ve_Version = 0, ve_UpdatedBy = who, ve_UpdatedAt = now\<rparr> rows)
             (\<lambda>(rows', row). Inr (rows', entryOf row))))"

definition vault_Get :: "opener \<Rightarrow> Ref \<Rightarrow> vault_rows \<Rightarrow> vault_error + Entry" where
  "vault_Get opn r rows =
     bind_result (Ref_Validate r) (\<lambda>_.
       case Secret rows (ref_Scope r) (ref_App r) (ref_Env r) (ref_Name r) of
         None \<Rightarrow> Inl SecretNotFound
       | Some row \<Rightarrow> bind_result (open_row opn row) (\<lambda>value. Inr ((entryOf row)\<lparr>en_Value := value\<rparr>)))"

definition layers :: "string \<Rightarrow> string \<Rightarrow> vault_rows \<Rightarrow> vault_rows" where
  "layers app env rows =
     (if app \<noteq> [] \<and> env \<noteq> [] then SecretsFor rows app env
      else if app \<noteq> [] then Secrets rows ScopeMachine [] [] @ Secrets rows ScopeApp app []
      else Secrets rows ScopeMachine [] [])"

definition vault_List :: "string \<Rightarrow> string \<Rightarrow> vault_rows \<Rightarrow> Entry list" where
  "vault_List app env rows = Sort (map entryOf (layers app env rows))"

definition vault_Remove :: "Ref \<Rightarrow> vault_rows \<Rightarrow> vault_error + vault_rows" where
  "vault_Remove r rows =
     bind_result (Ref_Validate r) (\<lambda>_. RemoveSecret rows (ref_Scope r) (ref_App r) (ref_Env r) (ref_Name r))"

text \<open>\<^verbatim>\<open>byScope\<close>: of the rows of one name, the last one in the order of the ranks, the names sorted.\<close>

definition byScope :: "vault_rows \<Rightarrow> vault_rows" where
  "byScope rows =
     (let ranked = stable_sort (\<lambda>a b. Rank (ve_Scope a) < Rank (ve_Scope b)) rows;
          win = map_from ve_Name (\<lambda>row. row) ranked
      in List.map_filter win (sort (remdups (map ve_Name ranked))))"

definition Resolve :: "opener \<Rightarrow> string \<Rightarrow> string \<Rightarrow> vault_rows \<Rightarrow> vault_error + (string \<times> string) list" where
  "Resolve opn app env rows =
     map_result (\<lambda>row. bind_result (open_row opn row) (\<lambda>value. Inr (ve_Name row, value))) (byScope (layers app env rows))"

definition Sources :: "string \<Rightarrow> string \<Rightarrow> vault_rows \<Rightarrow> (string \<times> Scope) list" where
  "Sources app env rows = map (\<lambda>row. (ve_Name row, ve_Scope row)) (byScope (layers app env rows))"

definition fingerprint_line :: "VaultEntry \<Rightarrow> string" where
  "fingerprint_line row =
     Scope_String (ve_Scope row) @ [CHR 0x00] @ ve_Name row @ [CHR 0x00] @ Itoa (ve_Version row) @ [CHR 0x00]"

definition Fingerprint :: "(string \<Rightarrow> string) \<Rightarrow> string \<Rightarrow> string \<Rightarrow> vault_rows \<Rightarrow> string" where
  "Fingerprint hexsum app env rows =
     (let win = byScope (layers app env rows)
      in if win = [] then [] else hexsum (concat (map fingerprint_line win)))"

end
