(* ===== verification/VaultStore.thy ===== *)
theory VaultStore
  imports Vault
begin

text \<open>
  What the vault promises: a secret that was set is read back with the next version and no other secret
  changes, and the secrets of an environment are the environment's own, then the app's, then the machine's.
\<close>

section \<open>The table's invariant\<close>

definition ve_key :: "VaultEntry \<Rightarrow> Scope \<times> string \<times> string \<times> string" where
  "ve_key e = (ve_Scope e, ve_App e, ve_Env e, ve_Name e)"

definition rows_ok :: "vault_rows \<Rightarrow> bool" where
  "rows_ok rows \<longleftrightarrow> distinct (map ve_key rows) \<and>
     (\<forall>e \<in> set rows. validVaultScope (ve_Scope e) (ve_App e) (ve_Env e) = Inr ())"

lemma at_key_iff: "at_key s a v n e \<longleftrightarrow> ve_key e = (s, a, v, n)"
  by (auto simp: at_key_def ve_key_def)

lemma Secret_Some: "Secret rows s a v n = Some e \<Longrightarrow> e \<in> set rows \<and> ve_key e = (s, a, v, n)"
  by (auto simp: Secret_def find_Some_iff at_key_iff)

lemma Secret_None: "Secret rows s a v n = None \<longleftrightarrow> (s, a, v, n) \<notin> ve_key ` set rows"
  by (auto simp: Secret_def find_None_iff at_key_iff image_iff)

lemma Secret_unique:
  assumes "rows_ok rows" "e \<in> set rows"
  shows "Secret rows (ve_Scope e) (ve_App e) (ve_Env e) (ve_Name e) = Some e"
  using find_distinct_key[of ve_key rows e] assms
  by (simp add: Secret_def rows_ok_def at_key_iff[abs_def]) (simp add: ve_key_def)

lemma ve_key_upd [simp]:
  "ve_key (e\<lparr>ve_Version := i\<rparr>) = ve_key e" "ve_key (e\<lparr>ve_UpdatedAt := t\<rparr>) = ve_key e"
  "ve_key (e\<lparr>ve_Ciphertext := c\<rparr>) = ve_key e" "ve_key (e\<lparr>ve_Nonce := c\<rparr>) = ve_key e"
  "ve_key (e\<lparr>ve_UpdatedBy := c\<rparr>) = ve_key e"
  by (simp_all add: ve_key_def)

lemma find_map_key:
  "(\<And>x. f (g x) = f x) \<Longrightarrow> find (\<lambda>x. f x = k) (map g xs) = map_option g (find (\<lambda>x. f x = k) xs)"
  by (induction xs) auto

text \<open>What the insertion-or-update leaves under every key.\<close>

lemma Secret_upsert:
  "Secret (upsert e rows) s a v n =
     (if (s, a, v, n) = ve_key e then
        Some (case Secret rows s a v n of
            None \<Rightarrow> e\<lparr>ve_Version := 1\<rparr>
          | Some r \<Rightarrow> r\<lparr>ve_Ciphertext := ve_Ciphertext e, ve_Nonce := ve_Nonce e, ve_Version := ve_Version r + 1,
                        ve_UpdatedBy := ve_UpdatedBy e, ve_UpdatedAt := ve_UpdatedAt e\<rparr>)
      else Secret rows s a v n)"
proof (cases "Secret rows (ve_Scope e) (ve_App e) (ve_Env e) (ve_Name e)")
  case None
  have app: "find P (rows @ [x]) = (case find P rows of None \<Rightarrow> if P x then Some x else None | Some y \<Rightarrow> Some y)" for P x
    by (induction rows) auto
  show ?thesis
    using None unfolding upsert_def Secret_def
    by (auto simp: app at_key_iff split: option.split) (auto simp: ve_key_def)
next
  case (Some r)
  let ?g = "\<lambda>r. if at_key (ve_Scope e) (ve_App e) (ve_Env e) (ve_Name e) r
      then r\<lparr>ve_Ciphertext := ve_Ciphertext e, ve_Nonce := ve_Nonce e, ve_Version := ve_Version r + 1,
             ve_UpdatedBy := ve_UpdatedBy e, ve_UpdatedAt := ve_UpdatedAt e\<rparr> else r"
  have "find (\<lambda>x. ve_key x = (s, a, v, n)) (map ?g rows) = map_option ?g (find (\<lambda>x. ve_key x = (s, a, v, n)) rows)"
    by (rule find_map_key) simp
  then have "Secret (upsert e rows) s a v n = map_option ?g (Secret rows s a v n)"
    unfolding upsert_def using Some by (simp add: Secret_def at_key_iff[abs_def])
  moreover have "Secret rows s a v n = Some r" "?g r = r\<lparr>ve_Ciphertext := ve_Ciphertext e, ve_Nonce := ve_Nonce e,
      ve_Version := ve_Version r + 1, ve_UpdatedBy := ve_UpdatedBy e, ve_UpdatedAt := ve_UpdatedAt e\<rparr>"
    if "(s, a, v, n) = ve_key e"
    using that Some Secret_Some[OF Some] by (simp_all add: ve_key_def at_key_def)
  moreover have "?g q = q" if "(s, a, v, n) \<noteq> ve_key e" "Secret rows s a v n = Some q" for q
    using that Secret_Some[OF that(2)] by (auto simp: ve_key_def at_key_def)
  ultimately show ?thesis by (cases "Secret rows s a v n") auto
qed

lemma rows_ok_upsert:
  assumes "rows_ok rows" "validVaultScope (ve_Scope e) (ve_App e) (ve_Env e) = Inr ()"
  shows "rows_ok (upsert e rows)"
proof (cases "Secret rows (ve_Scope e) (ve_App e) (ve_Env e) (ve_Name e)")
  case None
  then have "ve_key e \<notin> ve_key ` set rows" using Secret_None by (simp add: ve_key_def)
  then show ?thesis using assms None by (auto simp: rows_ok_def upsert_def)
next
  case (Some r)
  have "map ve_key (upsert e rows) = map ve_key rows" using Some by (simp add: upsert_def)
  moreover have "\<forall>x \<in> set (upsert e rows). \<exists>y \<in> set rows. ve_key x = ve_key y"
    using Some by (auto simp: upsert_def)
  ultimately show ?thesis
    using assms(1) unfolding rows_ok_def by (metis (no_types, lifting) ve_key_def prod.inject)
qed

lemma Ref_Validate_scope: "Ref_Validate r = Inr () \<Longrightarrow> validVaultScope (ref_Scope r) (ref_App r) (ref_Env r) = Inr ()"
  by (auto simp: Ref_Validate_def validVaultScope_def bind_result_Inr split: Scope.splits if_splits)

text \<open>A secret that was set is read back. With a cipher that opens what it sealed, reading the reference
  just set gives the value, with the version 1 for a new secret and the next version
  otherwise; every other reference reads as before; and the table keeps its invariant.\<close>

theorem vault_set_get:
  assumes "rows_ok rows" and "vault_Set seal rnd now who r value rows = Inr (rows', e)"
    and cipher: "\<And>k v c n. seal k v = Some (c, n) \<Longrightarrow> opn c n = Some v"
  shows "rows_ok rows' \<and>
    (\<exists>g. vault_Get opn r rows' = Inr g \<and> en_Value g = value \<and> en_UpdatedBy g = who \<and>
       en_Version g = (case Secret rows (ref_Scope r) (ref_App r) (ref_Env r) (ref_Name r) of
         None \<Rightarrow> 1 | Some old \<Rightarrow> ve_Version old + 1)) \<and>
    (\<forall>q. (ref_Scope q, ref_App q, ref_Env q, ref_Name q) \<noteq> (ref_Scope r, ref_App r, ref_Env r, ref_Name r) \<longrightarrow>
       vault_Get opn q rows' = vault_Get opn q rows)"
proof -
  obtain c n where seal: "seal rnd value = Some (c, n)" and valid: "Ref_Validate r = Inr ()"
    using assms(2) by (auto simp: vault_Set_def bind_result_Inr split: option.splits)
  define row where "row = \<lparr>ve_Scope = ref_Scope r, ve_App = ref_App r, ve_Env = ref_Env r, ve_Name = ref_Name r,
      ve_Ciphertext = c, ve_Nonce = n, ve_Version = 0, ve_UpdatedBy = who, ve_UpdatedAt = now\<rparr>"
  have rows': "rows' = upsert row rows"
    using assms(2) seal
    by (auto simp: vault_Set_def PutSecret_def bind_result_Inr Let_def row_def split: if_splits option.splits)
  have key: "ve_key row = (ref_Scope r, ref_App r, ref_Env r, ref_Name r)" by (simp add: row_def ve_key_def)
  have ok: "rows_ok rows'"
    unfolding rows' using Ref_Validate_scope[OF valid] by (intro rows_ok_upsert[OF assms(1)]) (simp add: row_def)
  let ?old = "Secret rows (ref_Scope r) (ref_App r) (ref_Env r) (ref_Name r)"
  obtain st where st: "Secret rows' (ref_Scope r) (ref_App r) (ref_Env r) (ref_Name r) = Some st"
    "ve_Ciphertext st = c" "ve_Nonce st = n" "ve_UpdatedBy st = who"
    "ve_Version st = (case ?old of None \<Rightarrow> 1 | Some old \<Rightarrow> ve_Version old + 1)"
  proof -
    have "Secret rows' (ref_Scope r) (ref_App r) (ref_Env r) (ref_Name r) = Some (case ?old of
        None \<Rightarrow> row\<lparr>ve_Version := 1\<rparr>
      | Some old \<Rightarrow> old\<lparr>ve_Ciphertext := c, ve_Nonce := n, ve_Version := ve_Version old + 1,
          ve_UpdatedBy := who, ve_UpdatedAt := now\<rparr>)"
      unfolding rows' Secret_upsert key by (simp add: row_def split: option.split)
    then show thesis by (rule that) (simp_all add: row_def split: option.split)
  qed
  have "\<exists>g. vault_Get opn r rows' = Inr g \<and> en_Value g = value \<and> en_UpdatedBy g = who \<and>
      en_Version g = (case ?old of None \<Rightarrow> 1 | Some old \<Rightarrow> ve_Version old + 1)"
    using valid cipher[OF seal] st
    by (intro exI[of _ "(entryOf st)\<lparr>en_Value := value\<rparr>"]) (simp add: vault_Get_def open_row_def entryOf_def)
  moreover have "vault_Get opn q rows' = vault_Get opn q rows"
    if "(ref_Scope q, ref_App q, ref_Env q, ref_Name q) \<noteq> (ref_Scope r, ref_App r, ref_Env r, ref_Name r)" for q
  proof -
    have "Secret rows' (ref_Scope q) (ref_App q) (ref_Env q) (ref_Name q) =
        Secret rows (ref_Scope q) (ref_App q) (ref_Env q) (ref_Name q)"
      unfolding rows' Secret_upsert key using that by presburger
    then show ?thesis by (simp add: vault_Get_def)
  qed
  ultimately show ?thesis using ok by blast
qed

section \<open>Which scope wins\<close>

text \<open>The row an environment gets for a name: its own, else the app's, else the machine's.\<close>

definition winner :: "vault_rows \<Rightarrow> string \<Rightarrow> string \<Rightarrow> string \<Rightarrow> VaultEntry option" where
  "winner rows app env name =
     (case Secret rows ScopeEnv app env name of
        Some e \<Rightarrow> Some e
      | None \<Rightarrow>
          (case Secret rows ScopeApp app [] name of
             Some e \<Rightarrow> Some e
           | None \<Rightarrow> Secret rows ScopeMachine [] [] name))"

lemma map_from_append: "map_from key val (xs @ [y]) = (map_from key val xs)(key y \<mapsto> val y)"
  by (simp add: map_from_def)

lemma map_from_last:
  assumes "sorted_wrt R xs" "map_from key (\<lambda>x. x) xs k = Some x" "y \<in> set xs" "key y = k"
  shows "y = x \<or> R y x"
  using assms
proof (induction xs rule: rev_induct)
  case Nil
  then show ?case by simp
next
  case (snoc z zs)
  then show ?case
    by (cases "key z = k") (auto simp: map_from_append sorted_wrt_append)
qed

lemma map_of_map_filter:
  assumes "distinct ns" "\<And>n r. w n = Some r \<Longrightarrow> name r = n" "\<And>n. w n \<noteq> None \<Longrightarrow> n \<in> set ns"
  shows "map_of (map (\<lambda>r. (name r, f r)) (List.map_filter w ns)) n = map_option f (w n)"
proof -
  have "map_of (map (\<lambda>r. (name r, f r)) (List.map_filter w ns)) n = (if n \<in> set ns then map_option f (w n) else None)"
    if "distinct ns"
    using that assms(2) by (induction ns) (auto simp: List.map_filter_simps split: option.split)
  then show ?thesis using assms(1,3) by (cases "w n") auto
qed

lemma byScope_lookup:
  "map_of (map (\<lambda>row. (ve_Name row, f row)) (byScope rows)) n =
     map_option f (map_from ve_Name (\<lambda>row. row) (stable_sort (\<lambda>a b. Rank (ve_Scope a) < Rank (ve_Scope b)) rows) n)"
  unfolding byScope_def Let_def
proof (rule map_of_map_filter)
  let ?w = "map_from ve_Name (\<lambda>row. row) (stable_sort (\<lambda>a b. Rank (ve_Scope a) < Rank (ve_Scope b)) rows)"
  show "ve_Name r = n" if "?w n = Some r" for n r
    using map_from_Some_in[OF that] by auto
  show "n \<in> set (sort (remdups (map ve_Name (stable_sort (\<lambda>a b. Rank (ve_Scope a) < Rank (ve_Scope b)) rows))))"
    if "?w n \<noteq> None" for n
    using that by simp
qed simp

lemma byScope_best:
  assumes "map_from ve_Name (\<lambda>row. row) (stable_sort (\<lambda>a b. Rank (ve_Scope a) < Rank (ve_Scope b)) rows) n = Some row"
  shows "row \<in> set rows" "ve_Name row = n"
    "\<And>r. r \<in> set rows \<Longrightarrow> ve_Name r = n \<Longrightarrow> Rank (ve_Scope r) \<le> Rank (ve_Scope row)"
proof -
  show "row \<in> set rows" "ve_Name row = n" using map_from_Some_in[OF assms] by auto
  show "Rank (ve_Scope r) \<le> Rank (ve_Scope row)" if "r \<in> set rows" "ve_Name r = n" for r
    using map_from_last[OF key_order.sorted_stable_sort assms, of r] that by auto
qed

lemma Rank_simps [simp]: "Rank ScopeMachine = 1" "Rank ScopeApp = 2" "Rank ScopeEnv = 3"
  by (simp_all add: Rank_def Scopes_def)

lemma layers_iff:
  assumes "app \<noteq> []" "env \<noteq> []"
  shows "e \<in> set (layers app env rows) \<longleftrightarrow> e \<in> set rows \<and>
    (ve_Scope e = ScopeMachine \<and> ve_App e = [] \<and> ve_Env e = [] \<or> ve_Scope e = ScopeApp \<and> ve_App e = app \<and> ve_Env e = [] \<or>
     ve_Scope e = ScopeEnv \<and> ve_App e = app \<and> ve_Env e = env)"
  using assms by (auto simp: layers_def SecretsFor_def)

lemma byScope_winner:
  assumes "rows_ok rows" "app \<noteq> []" "env \<noteq> []"
  shows "map_from ve_Name (\<lambda>row. row)
      (stable_sort (\<lambda>a b. Rank (ve_Scope a) < Rank (ve_Scope b)) (layers app env rows)) name = winner rows app env name"
    (is "?w name = _")
proof (cases "?w name")
  case None
  then have none: "name \<notin> ve_Name ` set (layers app env rows)" by simp
  have "Secret rows s a v name = None" if "(s, a, v) \<in> {(ScopeEnv, app, env), (ScopeApp, app, []), (ScopeMachine, [], [])}" for s a v
  proof (rule ccontr)
    assume "Secret rows s a v name \<noteq> None"
    then obtain e where "Secret rows s a v name = Some e" by blast
    from Secret_Some[OF this] have "e \<in> set (layers app env rows)" "ve_Name e = name"
      using that by (auto simp: layers_iff[OF assms(2,3)] ve_key_def)
    with none show False by blast
  qed
  then show ?thesis using None by (simp add: winner_def)
next
  case (Some row)
  note best = byScope_best[OF Some]
  have row: "row \<in> set rows" "ve_Name row = name"
    "ve_Scope row = ScopeMachine \<and> ve_App row = [] \<and> ve_Env row = [] \<or> ve_Scope row = ScopeApp \<and> ve_App row = app \<and> ve_Env row = [] \<or>
     ve_Scope row = ScopeEnv \<and> ve_App row = app \<and> ve_Env row = env"
    using best(1,2) by (auto simp: layers_iff[OF assms(2,3)])
  have found: "Secret rows (ve_Scope row) (ve_App row) (ve_Env row) name = Some row"
    using Secret_unique[OF assms(1) row(1)] row(2) by simp
  have beaten: "Rank s \<le> Rank (ve_Scope row)"
    if "Secret rows s a v name = Some e" "(s, a, v) \<in> {(ScopeEnv, app, env), (ScopeApp, app, []), (ScopeMachine, [], [])}" for s a v e
    using best(3)[of e] Secret_Some[OF that(1)] that(2) by (auto simp: layers_iff[OF assms(2,3)] ve_key_def)
  show ?thesis
    using row(3) found beaten[of ScopeEnv app env] beaten[of ScopeApp app "[]"]
    by (auto simp: winner_def Some split: option.split)
qed

lemma set_byScope:
  "set (byScope rows) =
     ran (map_from ve_Name (\<lambda>row. row) (stable_sort (\<lambda>a b. Rank (ve_Scope a) < Rank (ve_Scope b)) rows))"
  (is "_ = ran ?w")
proof -
  have "set (List.map_filter w ns) = {r. \<exists>n \<in> set ns. w n = Some r}" for w :: "string \<Rightarrow> VaultEntry option" and ns
    by (induction ns) (auto simp: List.map_filter_simps split: option.splits)
  then have "set (byScope rows) = {r. \<exists>n \<in> ve_Name ` set rows. ?w n = Some r}"
    by (simp add: byScope_def Let_def)
  also have "\<dots> = ran ?w"
    using map_from_Some_in[of ve_Name "\<lambda>row. row"] unfolding ran_def by (metis (mono_tags) imageI set_stable_sort)
  finally show ?thesis .
qed

abbreviation opened :: "opener \<Rightarrow> VaultEntry \<Rightarrow> string option" where
  "opened opn row \<equiv> opn (ve_Ciphertext row) (ve_Nonce row)"

lemma Resolve_Inr:
  "Resolve opn app env rows = Inr m \<longleftrightarrow>
     (\<forall>row \<in> set (byScope (layers app env rows)). opened opn row \<noteq> None) \<and>
     m = map (\<lambda>row. (ve_Name row, the (opened opn row))) (byScope (layers app env rows))"
proof -
  have row: "bind_result (open_row opn row) (\<lambda>value. Inr (ve_Name row, value)) = Inr nv \<longleftrightarrow>
      opened opn row \<noteq> None \<and> nv = (ve_Name row, the (opened opn row))" for row nv
    by (auto simp: bind_result_Inr open_row_def split: option.splits)
  show ?thesis unfolding Resolve_def map_result_Inr row by (rule list_all2_map_iff)
qed

text \<open>C34: the narrowest scope wins. For an app and an environment, the value a name resolves to is the one of
  the environment's own secret if it has one, else the app's, else the machine's, and a name that none of the
  three has is absent; the reported source of the name is the scope of that same secret. Resolving succeeds
  exactly when every one of these secrets can be opened.\<close>

theorem Resolve_precedence:
  assumes "rows_ok rows" "app \<noteq> []" "env \<noteq> []"
  shows "map_of (Sources app env rows) name = map_option ve_Scope (winner rows app env name) \<and>
    ((\<exists>m. Resolve opn app env rows = Inr m) \<longleftrightarrow>
       (\<forall>n row. winner rows app env n = Some row \<longrightarrow> opened opn row \<noteq> None)) \<and>
    (\<forall>m. Resolve opn app env rows = Inr m \<longrightarrow> map_of m name = Option.bind (winner rows app env name) (opened opn))"
proof -
  note w = byScope_winner[OF assms]
  have src: "map_of (Sources app env rows) name = map_option ve_Scope (winner rows app env name)"
    unfolding Sources_def byScope_lookup w ..
  have set: "set (byScope (layers app env rows)) = {row. \<exists>n. winner rows app env n = Some row}"
    by (simp add: set_byScope ran_def w)
  have "map_of m name = Option.bind (winner rows app env name) (opened opn)" if "Resolve opn app env rows = Inr m" for m
  proof -
    have "map_of m name = map_option (\<lambda>row. the (opened opn row)) (winner rows app env name)"
      using that by (simp add: Resolve_Inr byScope_lookup w)
    moreover have "opened opn row \<noteq> None" if "winner rows app env name = Some row" for row
      using that \<open>Resolve opn app env rows = Inr m\<close> by (auto simp: Resolve_Inr set)
    ultimately show ?thesis by (cases "winner rows app env name") auto
  qed
  then show ?thesis using src by (auto simp: Resolve_Inr set)
qed

text \<open>A cipher that hides nothing, and two secrets of one name.\<close>

definition example_seal :: sealer where
  "example_seal rnd v = Some (v @ ''!'', ''n'')"

definition example_open :: opener where
  "example_open c n = Some (butlast c)"

definition example_secret :: "Scope \<Rightarrow> string \<Rightarrow> string \<Rightarrow> string \<Rightarrow> VaultEntry" where
  "example_secret s a e v = \<lparr>ve_Scope = s, ve_App = a, ve_Env = e, ve_Name = ''K'', ve_Ciphertext = v @ ''!'', ve_Nonce = ''n'',
     ve_Version = 1, ve_UpdatedBy = ''ana'', ve_UpdatedAt = 3\<rparr>"

definition example_vault :: vault_rows where
  "example_vault = [example_secret ScopeEnv ''shop'' ''main'' ''e'', example_secret ScopeMachine [] [] ''m'']"

lemma example_vault_ok: "rows_ok example_vault"
  by (simp add: rows_ok_def example_vault_def example_secret_def ve_key_def validVaultScope_def)

theorem Resolve_precedence_witness:
  "map_of (Sources ''shop'' ''main'' example_vault) ''K'' = Some ScopeEnv \<and>
   (\<exists>m. Resolve example_open ''shop'' ''main'' example_vault = Inr m \<and> map_of m ''K'' = Some ''e'') \<and>
   (\<exists>m. Resolve example_open ''shop'' ''x'' example_vault = Inr m \<and> map_of m ''K'' = Some ''m'')"
proof -
  have "winner example_vault ''shop'' ''main'' ''K'' = Some (example_secret ScopeEnv ''shop'' ''main'' ''e'')"
    "winner example_vault ''shop'' ''x'' ''K'' = Some (example_secret ScopeMachine [] [] ''m'')"
    by (simp_all add: winner_def Secret_def at_key_def example_vault_def example_secret_def)
  then show ?thesis
    using Resolve_precedence[OF example_vault_ok, of "''shop''" "''main''" "''K''" example_open]
      Resolve_precedence[OF example_vault_ok, of "''shop''" "''x''" "''K''" example_open]
    by (auto simp: example_open_def example_secret_def)
qed

theorem vault_set_get_witness:
  "\<exists>rows' e. vault_Set example_seal 0 9 ''bob'' (EnvRef ''shop'' ''main'' ''K'') ''v'' example_vault = Inr (rows', e) \<and>
     (\<exists>g. vault_Get example_open (EnvRef ''shop'' ''main'' ''K'') rows' = Inr g \<and> en_Value g = ''v'' \<and> en_Version g = 2) \<and>
     vault_Get example_open (MachineRef ''K'') rows' = vault_Get example_open (MachineRef ''K'') example_vault"
proof -
  have valid: "Ref_Validate (EnvRef ''shop'' ''main'' ''K'') = Inr ()" by code_simp
  obtain rows' e where run: "vault_Set example_seal 0 9 ''bob'' (EnvRef ''shop'' ''main'' ''K'') ''v'' example_vault = Inr (rows', e)"
    by (simp add: vault_Set_def valid) (simp add: EnvRef_def ValidateValue_def example_seal_def PutSecret_def validVaultScope_def
      Let_def upsert_def Secret_def at_key_def example_vault_def example_secret_def)
  have "example_open c n = Some v" if "example_seal k v = Some (c, n)" for k v c n
    using that by (auto simp: example_seal_def example_open_def)
  moreover have "Secret example_vault ScopeEnv ''shop'' ''main'' ''K'' = Some (example_secret ScopeEnv ''shop'' ''main'' ''e'')"
    by (simp add: Secret_def at_key_def example_vault_def example_secret_def)
  ultimately show ?thesis
    using vault_set_get[OF example_vault_ok run, of example_open] run
    by (auto simp: EnvRef_def MachineRef_def example_secret_def)
qed

end
