(* ===== verification/Dotenv.thy ===== *)
theory Dotenv
  imports Vault ShellWords
begin

text \<open>
  The text formats of secrets (\<^verbatim>\<open>internal/vault/envfile.go\<close>): the env file given to containers, the
  dotenv files that are imported, and the export in the same format. A Go map of values is an association
  list with distinct names. Writing and removing the files is not modelled; the JSON export needs
  \<^verbatim>\<open>strconv.Quote\<close>, which is an argument of \<open>Render\<close>.
\<close>

type_synonym env_values = "(string \<times> string) list"

definition sortedKeys :: "env_values \<Rightarrow> string list" where
  "sortedKeys m = sort (map fst m)"

definition value_of :: "env_values \<Rightarrow> string \<Rightarrow> string" where
  "value_of m name = (case map_of m name of None \<Rightarrow> [] | Some v \<Rightarrow> v)"

datatype dotenv_error =
    NewlineInValue string | NotNameValue string | SetTwice nat string | BadEscape char
  | OnLine nat dotenv_error | OfVault vault_error | UnknownFormat string

definition EnvFileContent :: "env_values \<Rightarrow> dotenv_error + string" where
  "EnvFileContent values =
     bind_result (map_result (\<lambda>name.
         if ContainsAny (value_of values name) [newline, CHR 0x0D] then Inl (NewlineInValue name)
         else Inr (name @ ''='' @ value_of values name @ [newline])) (sortedKeys values))
       (\<lambda>lines. Inr (concat lines))"

definition prefix_char :: "char \<Rightarrow> char" where
  "prefix_char c = (if is_lower c \<or> is_upper c \<or> is_digit c \<or> c = CHR ''-'' \<or> c = CHR ''_'' then c else CHR ''-'')"

definition envFilePrefix :: "string \<Rightarrow> string" where
  "envFilePrefix name =
     (let b = map prefix_char name;
          out = rev (dropWhile (\<lambda>c. c = CHR ''-'') (rev (dropWhile (\<lambda>c. c = CHR ''-'') b)))
      in (if out = [] then ''secrets'' else out) @ ''-'')"

section \<open>Reading\<close>

fun unescape_loop :: "string \<Rightarrow> dotenv_error + string" where
  "unescape_loop [] = Inr []"
| "unescape_loop [c] = Inr [c]"
| "unescape_loop (c # d # cs) =
     (if c \<noteq> backslash then bind_result (unescape_loop (d # cs)) (\<lambda>r. Inr (c # r))
      else if d = CHR ''n'' then bind_result (unescape_loop cs) (\<lambda>r. Inr (newline # r))
      else if d = CHR ''r'' then bind_result (unescape_loop cs) (\<lambda>r. Inr (CHR 0x0D # r))
      else if d = CHR ''t'' then bind_result (unescape_loop cs) (\<lambda>r. Inr (tab # r))
      else if d = backslash \<or> d = dquote \<or> d = squote then bind_result (unescape_loop cs) (\<lambda>r. Inr (d # r))
      else Inl (BadEscape d))"

definition unescape :: "string \<Rightarrow> dotenv_error + string" where
  "unescape v = (if backslash \<notin> set v then Inr v else unescape_loop v)"

definition unquote :: "string \<Rightarrow> dotenv_error + string" where
  "unquote v =
     (if length v < 2 then Inr v
      else if hd v = squote \<and> last v = squote then Inr (butlast (tl v))
      else if hd v = dquote \<and> last v = dquote then unescape (butlast (tl v))
      else Inr v)"

text \<open>What of a line an error message shows; the last three bytes are the ellipsis.\<close>

definition redactLine :: "string \<Rightarrow> string" where
  "redactLine line = (if length line \<le> 16 then line else take 16 line @ [CHR 0xE2, CHR 0x80, CHR 0xA6])"

definition parseDotenvLine :: "string \<Rightarrow> dotenv_error + (string \<times> string)" where
  "parseDotenvLine line0 =
     (let line = TrimPrefix line0 ''export ''
      in case Cut line (CHR ''='') of
           None \<Rightarrow> Inl (NotNameValue (redactLine line))
         | Some (name0, value) \<Rightarrow>
             (let name = TrimSpace name0
              in case ValidateName name of
                   Inl e \<Rightarrow> Inl (OfVault e)
                 | Inr _ \<Rightarrow> bind_result (unquote (TrimSpace value)) (\<lambda>v. Inr (name, v))))"

fun parse_lines :: "nat \<Rightarrow> env_values \<Rightarrow> string list \<Rightarrow> dotenv_error + env_values" where
  "parse_lines i out [] = Inr out"
| "parse_lines i out (raw # raws) =
     (let line = TrimSpace (TrimSuffix raw [CHR 0x0D])
      in if line = [] \<or> HasPrefix line ''#'' then parse_lines (i + 1) out raws
         else (case parseDotenvLine line of
                 Inl e \<Rightarrow> Inl (OnLine (i + 1) e)
               | Inr (name, value) \<Rightarrow>
                   if map_of out name \<noteq> None then Inl (SetTwice (i + 1) name)
                   else (case ValidateValue name value of
                           Inl e \<Rightarrow> Inl (OnLine (i + 1) (OfVault e))
                         | Inr _ \<Rightarrow> parse_lines (i + 1) (out @ [(name, value)]) raws)))"

definition ParseDotenv :: "string \<Rightarrow> dotenv_error + env_values" where
  "ParseDotenv content = parse_lines 0 [] (SplitByte content newline)"

section \<open>Writing\<close>

definition shell_special :: string where
  "shell_special = [CHR '' '', tab, newline, CHR 0x0D, dquote, squote] @ ''$'' @ [CHR 0x60, backslash] @
     ''|&;<>()*?[]#~=%!{}''"

definition shellQuote :: "string \<Rightarrow> string" where
  "shellQuote v =
     (if v \<noteq> [] \<and> \<not> ContainsAny v shell_special then v
      else [squote] @ ReplaceByte v squote [squote, backslash, squote, squote] @ [squote])"

definition render_line :: "env_values \<Rightarrow> string \<Rightarrow> string" where
  "render_line values name = name @ ''='' @ shellQuote (value_of values name)"

definition json_body :: "(string \<Rightarrow> string) \<Rightarrow> env_values \<Rightarrow> string" where
  "json_body quoted values =
     (let names = sortedKeys values
      in concat (map (\<lambda>(i, name). ''  '' @ quoted name @ '': '' @ quoted (value_of values name)
           @ (if i < length names - 1 then '','' else []) @ [newline]) (enumerate 0 names)))"

definition Render :: "(string \<Rightarrow> string) \<Rightarrow> env_values \<Rightarrow> string \<Rightarrow> dotenv_error + string" where
  "Render quoted values format =
     (if format = [] \<or> format = ''env'' then
        bind_result (map_result (\<lambda>name.
            if ContainsAny (value_of values name) [newline, CHR 0x0D] then Inl (NewlineInValue name)
            else Inr (render_line values name @ [newline])) (sortedKeys values))
          (\<lambda>lines. Inr (concat lines))
      else if format = ''json'' then
        Inr ([CHR ''{'', newline] @ json_body quoted values @ [CHR ''}'', newline])
      else Inl (UnknownFormat format))"

section \<open>Reading what was written\<close>

lemma name_chars:
  "validate_name_chars name first cs = Inr () \<Longrightarrow> c \<in> set cs \<Longrightarrow> is_upper c \<or> c = CHR ''_'' \<or> is_digit c"
  by (induction name first cs rule: validate_name_chars.induct) (auto split: if_splits)

lemma valid_name:
  assumes "ValidateName name = Inr ()"
  shows "name \<noteq> []" and "\<And>c. c \<in> set name \<Longrightarrow> is_upper c \<or> c = CHR ''_'' \<or> is_digit c"
  using assms name_chars[of name True name] by (auto simp: ValidateName_def split: if_splits)

text \<open>No character of a name occurs in the encoding of a white space, or is special in a line.\<close>

lemma env_name_plain:
  assumes "is_upper c \<or> c = CHR ''_'' \<or> is_digit c"
  shows "c \<noteq> CHR ''='' \<and> c \<noteq> newline \<and> c \<noteq> CHR 0x0D \<and> c \<noteq> CHR ''#'' \<and> c \<noteq> CHR ''e'' \<and>
    (\<forall>e \<in> set space_encodings. c \<notin> set e)"
proof -
  have "\<forall>e \<in> set space_encodings. \<forall>x \<in> set e. \<not> (is_upper x \<or> x = CHR ''_'' \<or> is_digit x)" by code_simp
  then have "\<forall>e \<in> set space_encodings. c \<notin> set e" using assms by blast
  moreover have "c \<noteq> CHR ''='' \<and> c \<noteq> newline \<and> c \<noteq> CHR 0x0D \<and> c \<noteq> CHR ''#'' \<and> c \<noteq> CHR ''e''"
    using assms by (auto simp: is_upper_def is_digit_def less_eq_char_def)
  ultimately show ?thesis by blast
qed

lemma trimmed_name: "ValidateName name = Inr () \<Longrightarrow> trimmed name"
  using valid_name[of name] env_name_plain hd_in_set[of name] last_in_set[of name] by (intro trimmed_ends) blast+

lemma no_encoding_eq: "e \<in> set space_encodings \<Longrightarrow> CHR ''='' \<notin> set e \<and> squote \<notin> set e"
proof -
  have "\<forall>e \<in> set space_encodings. CHR ''='' \<notin> set e \<and> squote \<notin> set e" by code_simp
  then show "e \<in> set space_encodings \<Longrightarrow> CHR ''='' \<notin> set e \<and> squote \<notin> set e" by blast
qed

text \<open>A line \<^verbatim>\<open>NAME=value\<close> whose value does not end in white space is left as it is by \<open>TrimSpace\<close>.\<close>

lemma trimmed_line:
  assumes "ValidateName name = Inr ()" "v \<noteq> []" "trimmed v"
  shows "trimmed (name @ CHR ''='' # v)"
  unfolding trimmed_def
proof (intro ballI conjI notI)
  fix e assume e: "e \<in> set space_encodings"
  then have ne: "e \<noteq> []" by (rule space_encodings_nonempty)
  show False if "HasPrefix (name @ CHR ''='' # v) e"
  proof -
    from that obtain r where "name @ CHR ''='' # v = e @ r" by (auto simp: HasPrefix_iff)
    then have "hd name = hd e" using ne valid_name(1)[OF assms(1)] by (metis hd_append2)
    then show False
      using env_name_plain[OF valid_name(2)[OF assms(1) hd_in_set[OF valid_name(1)[OF assms(1)]]]] e ne by (metis hd_in_set)
  qed
  show False if "HasSuffix (name @ CHR ''='' # v) e"
  proof -
    from that obtain r where r: "name @ CHR ''='' # v = r @ e" by (auto simp: HasSuffix_iff)
    have "\<exists>q. v = q @ e"
    proof (cases "length e \<le> length v")
      case True
      then have "drop (length (name @ ''='')) (r @ e) = v" using r by (metis append.assoc append_Cons append_Nil append_eq_conv_conj)
      moreover have "length (name @ ''='') \<le> length r" using arg_cong[OF r, of length] True by simp
      ultimately show ?thesis by (auto simp: drop_append)
    next
      case False
      then have "CHR ''='' \<in> set e"
        using r by (auto simp: append_eq_append_conv2 Cons_eq_append_conv)
      then show ?thesis using no_encoding_eq[OF e] by simp
    qed
    then show False using assms(3) e by (auto simp: trimmed_def HasSuffix_iff)
  qed
qed

lemma ReplaceByte_none: "c \<notin> set s \<Longrightarrow> ReplaceByte s c r = s"
  by (induction s) auto

text \<open>The values that survive an export: no single quote, and white space at the ends only if the value is quoted.\<close>

definition exportable :: "string \<Rightarrow> bool" where
  "exportable v \<longleftrightarrow> squote \<notin> set v \<and> (trimmed v \<or> ContainsAny v shell_special \<or> v = []) \<and> length v \<le> MaxValueLen"

lemma shellQuote_cases:
  assumes "exportable v"
  obtains "shellQuote v = v" "v \<noteq> []" "trimmed v" "set v \<inter> set shell_special = {}"
  | "shellQuote v = squote # v @ [squote]"
proof (cases "v \<noteq> [] \<and> \<not> ContainsAny v shell_special")
  case True
  then have "shellQuote v = v" "v \<noteq> []" "trimmed v" "set v \<inter> set shell_special = {}"
    using assms by (auto simp: shellQuote_def exportable_def ContainsAny_def)
  then show thesis by (rule that(1))
next
  case False
  then have "shellQuote v = squote # v @ [squote]"
    using assms ReplaceByte_none[of squote v] by (auto simp: shellQuote_def exportable_def)
  then show thesis by (rule that(2))
qed

lemma shellQuote_trimmed: "exportable v \<Longrightarrow> shellQuote v \<noteq> [] \<and> trimmed (shellQuote v)"
  by (erule shellQuote_cases) (auto intro!: trimmed_ends simp: no_encoding_eq)

lemma unquote_shellQuote: "exportable v \<Longrightarrow> unquote (shellQuote v) = Inr v"
proof (erule shellQuote_cases)
  assume v: "shellQuote v = v" "v \<noteq> []" "set v \<inter> set shell_special = {}"
  have "{squote, dquote} \<subseteq> set shell_special" by (simp add: shell_special_def)
  then have "hd v \<notin> {squote, dquote}" using hd_in_set[OF v(2)] v(3) by blast
  then show ?thesis using v by (simp add: unquote_def)
qed (simp add: unquote_def butlast_append)

lemma shellQuote_no_newline:
  "exportable v \<Longrightarrow> \<not> ContainsAny v [newline, CHR 0x0D] \<Longrightarrow> newline \<notin> set (shellQuote v) \<and> CHR 0x0D \<notin> set (shellQuote v)"
  by (erule shellQuote_cases) (auto simp: ContainsAny_def)

lemma parse_rendered_line:
  assumes "ValidateName name = Inr ()" "exportable v"
  shows "parseDotenvLine (name @ CHR ''='' # shellQuote v) = Inr (name, v)"
proof -
  note ne = valid_name(1)[OF assms(1)]
  have "hd name \<noteq> CHR ''e''" using env_name_plain[OF valid_name(2)[OF assms(1) hd_in_set[OF ne]]] by blast
  then have "\<not> HasPrefix (name @ CHR ''='' # shellQuote v) ''export ''"
    using ne by (cases name) (auto simp: HasPrefix_def)
  then have "TrimPrefix (name @ CHR ''='' # shellQuote v) ''export '' = name @ CHR ''='' # shellQuote v"
    by (simp add: TrimPrefix_def)
  moreover have "CHR ''='' \<notin> set name" using env_name_plain valid_name(2)[OF assms(1)] by blast
  then have "Cut (name @ CHR ''='' # shellQuote v) (CHR ''='') = Some (name, shellQuote v)" by simp
  ultimately show ?thesis
    using assms trimmed_name[OF assms(1)] shellQuote_trimmed[OF assms(2)]
    by (simp add: parseDotenvLine_def unquote_shellQuote)
qed

lemma SplitByte_lines:
  "\<forall>l \<in> set ls. c \<notin> set l \<Longrightarrow> SplitByte (concat (map (\<lambda>l. l @ [c]) ls)) c = ls @ [[]]"
  by (induction ls) (auto simp: SplitByte_append)

lemma TrimSuffix_absent: "CHR 0x0D \<notin> set s \<Longrightarrow> TrimSuffix s [CHR 0x0D] = s"
  by (auto simp: TrimSuffix_def HasSuffix_iff)

lemma parse_lines_rendered:
  assumes "\<forall>n \<in> set names. ValidateName n = Inr () \<and> exportable (val n) \<and> \<not> ContainsAny (val n) [newline, CHR 0x0D]"
    and "distinct names" "\<forall>n \<in> set names. map_of out n = None"
  shows "parse_lines i out (map (\<lambda>n. n @ CHR ''='' # shellQuote (val n)) names @ [[]]) = Inr (out @ map (\<lambda>n. (n, val n)) names)"
  using assms
proof (induction names arbitrary: i out)
  case Nil
  then show ?case by (simp add: TrimSuffix_def HasSuffix_def)
next
  case (Cons n ns)
  let ?line = "n @ CHR ''='' # shellQuote (val n)"
  have n: "ValidateName n = Inr ()" "exportable (val n)" "\<not> ContainsAny (val n) [newline, CHR 0x0D]" using Cons.prems(1) by auto
  have "CHR 0x0D \<notin> set n" using valid_name(2)[OF n(1)] env_name_plain by blast
  then have "TrimSuffix ?line [CHR 0x0D] = ?line"
    using shellQuote_no_newline[OF n(2,3)] by (intro TrimSuffix_absent) auto
  moreover have "TrimSpace ?line = ?line"
    using trimmed_line[OF n(1)] shellQuote_trimmed[OF n(2)] by simp
  moreover have "\<not> HasPrefix ?line ''#''"
    using valid_name[OF n(1)] env_name_plain hd_in_set[of n] by (cases n) (auto simp: HasPrefix_def)
  moreover have "ValidateValue n (val n) = Inr ()" using n(2) by (simp add: ValidateValue_def exportable_def)
  ultimately have step: "parse_lines i out (?line # xs) = parse_lines (i + 1) (out @ [(n, val n)]) xs" for xs
    using Cons.prems(3) parse_rendered_line[OF n(1,2)] by simp
  have "\<forall>k \<in> set ns. map_of (out @ [(n, val n)]) k = None"
    using Cons.prems(2,3) by (auto simp: map_add_def)
  from Cons.IH[OF _ _ this, of "i + 1"] show ?case
    using Cons.prems(1,2) step by simp
qed

lemma map_of_sortedKeys: "distinct (map fst m) \<Longrightarrow> map_of (map (\<lambda>n. (n, value_of m n)) (sortedKeys m)) = map_of m"
proof
  fix n assume "distinct (map fst m)"
  have look: "map_of (map (\<lambda>n. (n, value_of m n)) xs) n = (if n \<in> set xs then Some (value_of m n) else None)" for xs
    by (induction xs) auto
  show "map_of (map (\<lambda>n. (n, value_of m n)) (sortedKeys m)) n = map_of m n"
  proof (cases "map_of m n")
    case None
    then have "n \<notin> set (sortedKeys m)" by (simp add: sortedKeys_def map_of_eq_None_iff)
    then show ?thesis using look None by simp
  next
    case (Some v)
    then have "n \<in> set (sortedKeys m)" by (force simp: sortedKeys_def dest: map_of_SomeD)
    then show ?thesis using look Some by (simp add: value_of_def)
  qed
qed



text \<open>A single quote does not survive the round trip. The export writes a quote inside a quoted value the way a
  shell reads it, but the import only takes off the outer quotes, so a value that is one quote comes back
  as four characters.\<close>

theorem single_quote_not_restored:
  "\<exists>text. Render (\<lambda>s. s) [(''A'', [squote])] ''env'' = Inr text \<and>
     ParseDotenv text = Inr [(''A'', [squote, backslash, squote, squote])]"
proof -
  have "Render (\<lambda>s. s) [(''A'', [squote])] ''env'' =
      Inr (''A='' @ [squote, squote, backslash, squote, squote, squote, newline])"
    by code_simp
  moreover have "ParseDotenv (''A='' @ [squote, squote, backslash, squote, squote, squote, newline]) =
      Inr [(''A'', [squote, backslash, squote, squote])]"
  proof -
    let ?v = "[squote, squote, backslash, squote, squote, squote]"
    have A: "ValidateName ''A'' = Inr ()" by code_simp
    have v: "trimmed ?v" using no_encoding_eq by (intro trimmed_ends) auto
    have "TrimSpace (''A'' @ CHR ''='' # ?v) = ''A'' @ CHR ''='' # ?v" using trimmed_line[OF A _ v] by simp
    moreover have "TrimSpace ''A'' = ''A''" using trimmed_name[OF A] by simp
    ultimately show ?thesis
      using A v by (simp add: ParseDotenv_def TrimSuffix_def HasSuffix_def HasPrefix_def parseDotenvLine_def
          TrimPrefix_def unquote_def ValidateValue_def)
  qed
  ultimately show ?thesis by blast
qed

end
