(* ===== verification/NetPrefix.thy ===== *)
theory NetPrefix
  imports Prelude
begin

text \<open>
  The part of Go's \<^verbatim>\<open>net/netip\<close> the fleet and the tunnel use: addresses of 32 or 128 bits and prefixes of
  them. Parsing the text of an address is an argument of the operations that do it.
\<close>

unbundle bit_operations_syntax

datatype Addr = InvalidAddr | Addr4 "32 word" | Addr6 "128 word"

datatype Prefix = InvalidPrefix | Prefix4 "32 word" nat | Prefix6 "128 word" nat

fun prefix_IsValid :: "Prefix \<Rightarrow> bool" where
  "prefix_IsValid InvalidPrefix = False"
| "prefix_IsValid (Prefix4 a b) = (b \<le> 32)"
| "prefix_IsValid (Prefix6 a b) = (b \<le> 128)"

fun prefix_Bits :: "Prefix \<Rightarrow> int" where
  "prefix_Bits InvalidPrefix = - 1"
| "prefix_Bits (Prefix4 a b) = int b"
| "prefix_Bits (Prefix6 a b) = int b"

fun prefix_Addr :: "Prefix \<Rightarrow> Addr" where
  "prefix_Addr InvalidPrefix = InvalidAddr"
| "prefix_Addr (Prefix4 a b) = Addr4 a"
| "prefix_Addr (Prefix6 a b) = Addr6 a"

fun addr_Is4 :: "Addr \<Rightarrow> bool" where
  "addr_Is4 (Addr4 a) = True"
| "addr_Is4 _ = False"

text \<open>The first \<open>b\<close> bits of an address of \<open>n\<close> bits.\<close>

definition top_bits :: "nat \<Rightarrow> nat \<Rightarrow> 'l::len word \<Rightarrow> 'l word" where
  "top_bits n b a = push_bit (n - b) (drop_bit (n - b) a)"

fun prefix_Masked :: "Prefix \<Rightarrow> Prefix" where
  "prefix_Masked InvalidPrefix = InvalidPrefix"
| "prefix_Masked (Prefix4 a b) = Prefix4 (top_bits 32 b a) b"
| "prefix_Masked (Prefix6 a b) = Prefix6 (top_bits 128 b a) b"

fun prefix_Contains :: "Prefix \<Rightarrow> Addr \<Rightarrow> bool" where
  "prefix_Contains (Prefix4 a b) (Addr4 x) = (b \<le> 32 \<and> top_bits 32 b a = top_bits 32 b x)"
| "prefix_Contains (Prefix6 a b) (Addr6 x) = (b \<le> 128 \<and> top_bits 128 b a = top_bits 128 b x)"
| "prefix_Contains _ _ = False"

fun prefix_Overlaps :: "Prefix \<Rightarrow> Prefix \<Rightarrow> bool" where
  "prefix_Overlaps (Prefix4 a b) (Prefix4 c d) =
     (b \<le> 32 \<and> d \<le> 32 \<and> top_bits 32 (min b d) a = top_bits 32 (min b d) c)"
| "prefix_Overlaps (Prefix6 a b) (Prefix6 c d) =
     (b \<le> 128 \<and> d \<le> 128 \<and> top_bits 128 (min b d) a = top_bits 128 (min b d) c)"
| "prefix_Overlaps _ _ = False"

lemma bit_top_bits: "bit (top_bits n b a) i \<longleftrightarrow> n - b \<le> i \<and> bit a i" for a :: "'l::len word"
  by (auto simp: top_bits_def bit_simps dest: bit_imp_le_length)

lemma top_bits_idem [simp]: "top_bits n b (top_bits n b a) = top_bits n b a" for a :: "'l::len word"
  by (rule bit_word_eqI) (simp add: bit_top_bits)

text \<open>Two prefixes overlap exactly when they have an address in common.\<close>

lemma top_bits_min: "top_bits n b a = top_bits n b c \<Longrightarrow> top_bits n (min b d) a = top_bits n (min b d) c"
  for a c :: "'l::len word"
  by (rule bit_word_eqI) (metis (no_types, opaque_lifting) bit_top_bits diff_le_mono2 le_trans min.cobounded1)

lemma Overlaps4_iff:
  "prefix_Overlaps (Prefix4 a b) (Prefix4 c d) \<longleftrightarrow>
     (\<exists>x. prefix_Contains (Prefix4 a b) (Addr4 x) \<and> prefix_Contains (Prefix4 c d) (Addr4 x))"
proof
  assume o: "prefix_Overlaps (Prefix4 a b) (Prefix4 c d)"
  show "\<exists>x. prefix_Contains (Prefix4 a b) (Addr4 x) \<and> prefix_Contains (Prefix4 c d) (Addr4 x)"
  proof (cases "b \<le> d")
    case True
    with o show ?thesis by (intro exI[of _ c]) (simp add: min_def)
  next
    case False
    with o show ?thesis by (intro exI[of _ a]) (simp add: min_def)
  qed
next
  assume "\<exists>x. prefix_Contains (Prefix4 a b) (Addr4 x) \<and> prefix_Contains (Prefix4 c d) (Addr4 x)"
  then obtain x where x: "b \<le> 32" "d \<le> 32" "top_bits 32 b a = top_bits 32 b x" "top_bits 32 d c = top_bits 32 d x"
    by auto
  have "top_bits 32 (min b d) a = top_bits 32 (min b d) x" by (rule top_bits_min[OF x(3)])
  also have "\<dots> = top_bits 32 (min b d) c" using top_bits_min[OF x(4), of b] by (simp add: min.commute)
  finally show "prefix_Overlaps (Prefix4 a b) (Prefix4 c d)" using x(1,2) by simp
qed

end
