(* ===== verification/FleetMachine.thy ===== *)
theory FleetMachine
  imports GoStrings NetPrefix
begin

text \<open>
  Machines of a fleet and their subnets (\<^verbatim>\<open>internal/fleet/machine.go\<close>, \<^verbatim>\<open>subnet.go\<close>, \<^verbatim>\<open>announce.go\<close>).
  Of a machine's gauge the fleet reads the two figures below. Parsing an address is an argument.
\<close>

section \<open>Machines\<close>

datatype Role = RoleUnset | RoleHub | RoleMember | OtherRole string

definition role_of :: "string \<Rightarrow> Role" where
  "role_of s = (if s = [] then RoleUnset else if s = ''hub'' then RoleHub else if s = ''member'' then RoleMember
     else OtherRole s)"

fun role_text :: "Role \<Rightarrow> string" where
  "role_text RoleUnset = []"
| "role_text RoleHub = ''hub''"
| "role_text RoleMember = ''member''"
| "role_text (OtherRole s) = s"

datatype fleet_error =
    UnknownRole string | NoFreeSubnet
  | AnnouncementNoMachine | AnnouncedNoName string | AnnouncedOther string string string string
  | AnnouncedTwice string string string | AnnouncedBadAddress string string string string
  | MachineNoName | MachineNoKey string | MachineNoSubnet string | MachineBadSubnet string Prefix
  | MachineBadRole string | HubPrivate string | BadSubnet string

definition ParseRole :: "string \<Rightarrow> fleet_error + Role" where
  "ParseRole s =
     (case role_of (ToLower (TrimSpace s)) of
        RoleUnset \<Rightarrow> Inr RoleHub
      | RoleHub \<Rightarrow> Inr RoleHub
      | RoleMember \<Rightarrow> Inr RoleMember
      | OtherRole _ \<Rightarrow> Inl (UnknownRole s))"

definition IsHub :: "Role \<Rightarrow> bool" where
  "IsHub r \<longleftrightarrow> r = RoleUnset \<or> r = RoleHub"

record GaugeRecord =
  g_AvailableBytes :: int
  g_ReservedBytes :: int

record Machine =
  m_Name :: string
  m_Role :: Role
  m_PublicKey :: string
  m_Subnet :: Prefix
  m_Arch :: string
  m_OS :: string
  m_Endpoint :: string
  m_Private :: bool
  m_JoinedAt :: gtime
  m_LastSeen :: gtime
  m_Gauge :: "GaugeRecord option"
  m_Envs :: int

abbreviation UnreachableAfter :: duration where
  "UnreachableAfter \<equiv> 100 * second"

definition machine_Address :: "Machine \<Rightarrow> Addr" where
  "machine_Address m =
     (if \<not> prefix_IsValid (m_Subnet m) then InvalidAddr
      else (case prefix_Addr (prefix_Masked (m_Subnet m)) of
              Addr4 a \<Rightarrow> Addr4 (push_bit 8 (drop_bit 8 a) OR 1)
            | _ \<Rightarrow> InvalidAddr))"

definition Reachable :: "Machine \<Rightarrow> gtime \<Rightarrow> bool" where
  "Reachable m now \<longleftrightarrow>
     (if IsHub (m_Role m) then True
      else if is_zero (m_LastSeen m) then False
      else time_sub now (m_LastSeen m) \<le> UnreachableAfter)"

record ViaHost =
  vh_Host :: string
  vh_Service :: string
  vh_Drain :: duration

record DirectoryEntry =
  de_App :: string
  de_Env :: string
  de_Machine :: string
  de_Address :: string
  de_Owner :: string
  de_Mode :: string
  de_Via :: string
  de_Hosts :: "ViaHost list"
  de_UpdatedAt :: gtime

record Announcement =
  an_Machine :: string
  an_Arch :: string
  an_OS :: string
  an_Gauge :: "GaugeRecord option"
  an_Envs :: "DirectoryEntry list"
  an_Full :: bool
  an_At :: gtime

definition de_Key :: "DirectoryEntry \<Rightarrow> string \<times> string" where
  "de_Key e = (de_App e, de_Env e)"

section \<open>Subnets\<close>

abbreviation SubnetBits :: nat where
  "SubnetBits \<equiv> 16"

text \<open>\<^verbatim>\<open>10.80.0.0/12\<close> and \<^verbatim>\<open>10.86.0.0/16\<close>.\<close>

definition Range :: Prefix where
  "Range = Prefix4 0x0A500000 12"

definition HubSubnet :: Prefix where
  "HubSubnet = Prefix4 0x0A560000 SubnetBits"

definition Subnets :: "Prefix list" where
  "Subnets = map (\<lambda>i. Prefix4 (0x0A500000 + word_of_nat (i * 65536)) SubnetBits) [0..<2 ^ (SubnetBits - 12)]"

definition fleet_Contains :: "Prefix \<Rightarrow> bool" where
  "fleet_Contains p \<longleftrightarrow>
     (if \<not> prefix_IsValid p \<or> prefix_Bits p \<noteq> int SubnetBits \<or> \<not> addr_Is4 (prefix_Addr p) then False
      else prefix_Overlaps Range p \<and> prefix_Contains Range (prefix_Addr (prefix_Masked p)))"

definition used_subnet :: "Prefix list \<Rightarrow> Prefix \<Rightarrow> bool" where
  "used_subnet taken p \<longleftrightarrow> p \<in> set (map prefix_Masked (filter prefix_IsValid taken))"

fun first_free :: "('a \<Rightarrow> bool) \<Rightarrow> 'a list \<Rightarrow> 'a option" where
  "first_free used [] = None"
| "first_free used (p # ps) = (if \<not> used p then Some p else first_free used ps)"

definition AllocateSubnet :: "Prefix list \<Rightarrow> fleet_error + Prefix" where
  "AllocateSubnet taken =
     (case first_free (used_subnet taken) Subnets of Some p \<Rightarrow> Inr p | None \<Rightarrow> Inl NoFreeSubnet)"

definition prefix_word :: "Prefix \<Rightarrow> nat" where
  "prefix_word p = (case p of Prefix4 a _ \<Rightarrow> unat a | Prefix6 a _ \<Rightarrow> 2 ^ 32 + unat a | InvalidPrefix \<Rightarrow> 0)"

definition TakenSubnets :: "Machine list \<Rightarrow> Prefix list" where
  "TakenSubnets machines =
     sort_key prefix_word (map prefix_Masked (filter prefix_IsValid (map m_Subnet machines)))"

definition ParseSubnet :: "(string \<Rightarrow> Prefix option) \<Rightarrow> string \<Rightarrow> fleet_error + Prefix" where
  "ParseSubnet parse s =
     (case parse s of
        None \<Rightarrow> Inl (BadSubnet s)
      | Some p0 \<Rightarrow> let p = prefix_Masked p0 in if \<not> fleet_Contains p then Inl (BadSubnet s) else Inr p)"

lemma first_free_find: "first_free used ps = find (\<lambda>p. \<not> used p) ps"
  by (induction ps) auto

interpretation subnets: first_fit "\<lambda>_. Subnets" used_subnet "\<lambda>taken. first_free (used_subnet taken) Subnets"
  by unfold_locales (simp add: first_free_find)

text \<open>The sixteen subnets.\<close>

lemma Subnets_list:
  "Subnets = map (\<lambda>a. Prefix4 a 16) [0x0A500000, 0x0A510000, 0x0A520000, 0x0A530000, 0x0A540000, 0x0A550000, 0x0A560000,
     0x0A570000, 0x0A580000, 0x0A590000, 0x0A5A0000, 0x0A5B0000, 0x0A5C0000, 0x0A5D0000, 0x0A5E0000, 0x0A5F0000]"
proof -
  have "[0..<2 ^ (SubnetBits - 12)] = [0, 1, 2, 3, 4, 5, 6, 7, 8, 9, 10, 11, 12, 13, 14, 15 :: nat]" by code_simp
  then show ?thesis by (simp only: Subnets_def list.map) simp
qed

lemma Subnets_distinct: "distinct Subnets" "length Subnets = 16"
  by (simp_all add: Subnets_list)

lemma Subnets_masked: "\<forall>p \<in> set Subnets. prefix_Masked p = p \<and> fleet_Contains p"
  by (simp add: Subnets_list top_bits_def fleet_Contains_def Range_def)

text \<open>A machine that joins gets a subnet of its own. When every subnet already taken is one of the fleet's,
  the subnet allocated is the first of the sixteen that is free, lies in the fleet's range and has
  no address in common with any taken one; the allocation fails only when all sixteen
  are taken, so never with fewer than sixteen machines.\<close>

theorem AllocateSubnet_correct:
  assumes "\<forall>t \<in> set taken. prefix_IsValid t \<longrightarrow> fleet_Contains t"
  shows "(\<forall>p. AllocateSubnet taken = Inr p \<longrightarrow>
      p \<in> set Subnets \<and> fleet_Contains p \<and> (\<forall>t \<in> set taken. \<not> prefix_Overlaps p t) \<and>
      (\<exists>before after. Subnets = before @ p # after \<and> (\<forall>b \<in> set before. used_subnet taken b))) \<and>
    (AllocateSubnet taken = Inl NoFreeSubnet \<longleftrightarrow> (\<forall>p \<in> set Subnets. used_subnet taken p)) \<and>
    (length taken < 16 \<longrightarrow> (\<exists>p. AllocateSubnet taken = Inr p))"
proof -
  have apart: "\<not> prefix_Overlaps p t" if p: "p \<in> set Subnets" "\<not> used_subnet taken p" and t: "t \<in> set taken" for p t
  proof
    assume o: "prefix_Overlaps p t"
    obtain a where a: "p = Prefix4 a 16" using p(1) by (auto simp: Subnets_def)
    from o a obtain c d where c: "t = Prefix4 c d" "d \<le> 32" by (cases t) auto
    then have "d = 16" using assms t by (auto simp: fleet_Contains_def split: if_splits)
    then have "prefix_Masked t = prefix_Masked p" using o a c by simp
    then have "prefix_Masked t = p" using Subnets_masked p(1) by simp
    moreover have "t \<in> {x \<in> set taken. prefix_IsValid x}" using t c by simp
    ultimately show False using p(2) unfolding used_subnet_def set_map set_filter by (metis imageI)
  qed
  have some: "p \<in> set Subnets \<and> fleet_Contains p \<and> (\<forall>t \<in> set taken. \<not> prefix_Overlaps p t) \<and>
      (\<exists>before after. Subnets = before @ p # after \<and> (\<forall>b \<in> set before. used_subnet taken b))"
    if "AllocateSubnet taken = Inr p" for p
  proof -
    have p: "first_free (used_subnet taken) Subnets = Some p"
      using that by (simp add: AllocateSubnet_def split: option.splits)
    show ?thesis
      using subnets.alloc_Some[OF p] subnets.alloc_least[OF p] apart Subnets_masked by blast
  qed
  have none: "AllocateSubnet taken = Inl NoFreeSubnet \<longleftrightarrow> (\<forall>p \<in> set Subnets. used_subnet taken p)"
    using subnets.alloc_None[of taken] by (auto simp: AllocateSubnet_def split: option.splits)
  have "\<exists>p. AllocateSubnet taken = Inr p" if "length taken < 16"
  proof (rule ccontr)
    assume "\<nexists>p. AllocateSubnet taken = Inr p"
    then have "AllocateSubnet taken = Inl NoFreeSubnet" by (simp add: AllocateSubnet_def split: option.splits)
    then have "set Subnets \<subseteq> set (map prefix_Masked (filter prefix_IsValid taken))"
      using none by (auto simp: used_subnet_def)
    then have "card (set Subnets) \<le> card (set (map prefix_Masked (filter prefix_IsValid taken)))"
      by (intro card_mono) simp_all
    also have "\<dots> \<le> length (map prefix_Masked (filter prefix_IsValid taken))" by (rule card_length)
    also have "\<dots> \<le> length taken" by simp
    finally have "card (set Subnets) \<le> length taken" .
    then show False using that Subnets_distinct by (simp add: distinct_card)
  qed
  with some none show ?thesis by blast
qed

theorem AllocateSubnet_correct_witness:
  "AllocateSubnet [Prefix4 0x0A500000 16, HubSubnet] = Inr (Prefix4 0x0A510000 16) \<and>
   fleet_Contains (Prefix4 0x0A510000 16) \<and> \<not> prefix_Overlaps (Prefix4 0x0A510000 16) HubSubnet"
proof -
  have run: "AllocateSubnet [Prefix4 0x0A500000 16, HubSubnet] = Inr (Prefix4 0x0A510000 16)"
    by (simp add: AllocateSubnet_def Subnets_list used_subnet_def HubSubnet_def top_bits_def)
  have ok: "\<forall>t \<in> set [Prefix4 0x0A500000 16, HubSubnet]. prefix_IsValid t \<longrightarrow> fleet_Contains t"
    by (simp add: fleet_Contains_def Range_def HubSubnet_def top_bits_def)
  show ?thesis using AllocateSubnet_correct[OF ok] run by force
qed

section \<open>Announcements\<close>

definition Seen :: "Machine list \<Rightarrow> (string \<times> gtime) list \<Rightarrow> Machine list" where
  "Seen machines handshakes = map (\<lambda>m.
     case map_of handshakes (m_PublicKey m) of
       None \<Rightarrow> m
     | Some hs \<Rightarrow> if is_zero hs \<or> \<not> hs > m_LastSeen m then m else m\<lparr>m_LastSeen := hs\<rparr>) machines"

definition Unreachable :: "Machine list \<Rightarrow> gtime \<Rightarrow> Machine list" where
  "Unreachable machines now = sort_key m_Name (filter (\<lambda>m. \<not> Reachable m now) machines)"

definition Find :: "Machine list \<Rightarrow> string \<Rightarrow> Machine option" where
  "Find machines name = find (\<lambda>m. m_Name m = TrimSpace name) machines"

definition HubOf :: "Machine list \<Rightarrow> Machine option" where
  "HubOf machines = find (\<lambda>m. IsHub (m_Role m)) machines"

fun validate_envs :: "(string \<Rightarrow> Addr option) \<Rightarrow> string \<Rightarrow> (string \<times> string) list \<Rightarrow> DirectoryEntry list \<Rightarrow> fleet_error + unit" where
  "validate_envs parse_addr machine seen [] = Inr ()"
| "validate_envs parse_addr machine seen (e # es) =
     (if blank (de_App e) \<or> blank (de_Env e) then Inl (AnnouncedNoName machine)
      else if de_Machine e \<noteq> [] \<and> de_Machine e \<noteq> machine then Inl (AnnouncedOther machine (de_App e) (de_Env e) (de_Machine e))
      else if de_Key e \<in> set seen then Inl (AnnouncedTwice machine (de_App e) (de_Env e))
      else if de_Address e \<noteq> [] \<and> parse_addr (de_Address e) = None
        then Inl (AnnouncedBadAddress machine (de_App e) (de_Env e) (de_Address e))
      else validate_envs parse_addr machine (de_Key e # seen) es)"

definition Announcement_Validate :: "(string \<Rightarrow> Addr option) \<Rightarrow> Announcement \<Rightarrow> fleet_error + unit" where
  "Announcement_Validate parse_addr a =
     (if blank (an_Machine a) then Inl AnnouncementNoMachine
      else validate_envs parse_addr (an_Machine a) [] (an_Envs a))"

definition sortEntries :: "DirectoryEntry list \<Rightarrow> DirectoryEntry list" where
  "sortEntries es = stable_sort (\<lambda>a b.
     if de_App a \<noteq> de_App b then de_App a < de_App b else de_Env a < de_Env b) es"

definition announced_entry :: "Announcement \<Rightarrow> DirectoryEntry \<Rightarrow> DirectoryEntry" where
  "announced_entry a e = e\<lparr>de_Machine := an_Machine a,
     de_UpdatedAt := (if is_zero (de_UpdatedAt e) then an_At a else de_UpdatedAt e)\<rparr>"

definition Reconcile ::
  "(string \<Rightarrow> Addr option) \<Rightarrow> DirectoryEntry list \<Rightarrow> Announcement \<Rightarrow> fleet_error + (DirectoryEntry list \<times> DirectoryEntry list)" where
  "Reconcile parse_addr existing a =
     bind_result (Announcement_Validate parse_addr a) (\<lambda>_.
       let keep = map de_Key (an_Envs a);
           ups = map (announced_entry a) (an_Envs a)
       in if \<not> an_Full a then Inr (ups, [])
          else Inr (sortEntries ups,
                    sortEntries (filter (\<lambda>e. \<not> (de_Machine e \<noteq> an_Machine a \<or> de_Key e \<in> set keep)) existing)))"

definition Machine_Validate :: "Machine \<Rightarrow> fleet_error + unit" where
  "Machine_Validate m =
     (if blank (m_Name m) then Inl MachineNoName
      else if blank (m_PublicKey m) then Inl (MachineNoKey (m_Name m))
      else if \<not> prefix_IsValid (m_Subnet m) then Inl (MachineNoSubnet (m_Name m))
      else if \<not> fleet_Contains (m_Subnet m) then Inl (MachineBadSubnet (m_Name m) (m_Subnet m))
      else (case ParseRole (role_text (m_Role m)) of
              Inl _ \<Rightarrow> Inl (MachineBadRole (m_Name m))
            | Inr _ \<Rightarrow> if m_Private m \<and> IsHub (m_Role m) then Inl (HubPrivate (m_Name m)) else Inr ()))"

section \<open>The directory of environments\<close>

text \<open>The table of \<^verbatim>\<open>internal/state/fleet.go\<close>: the rows with the hosts decoded, one per app and environment.\<close>

datatype directory_error = EmptyApp | EmptyEnvName string | EmptyMachine string string | EmptyMachineArg
  | OnOtherMachine string string string string

definition validDirectoryRow :: "DirectoryEntry \<Rightarrow> directory_error + unit" where
  "validDirectoryRow r =
     (if blank (de_App r) then Inl EmptyApp
      else if blank (de_Env r) then Inl (EmptyEnvName (de_App r))
      else if blank (de_Machine r) then Inl (EmptyMachine (de_App r) (de_Env r))
      else Inr ())"

definition directoryUpsert :: "DirectoryEntry \<Rightarrow> DirectoryEntry list \<Rightarrow> DirectoryEntry list" where
  "directoryUpsert r dir =
     (if de_Key r \<in> set (map de_Key dir) then map (\<lambda>x. if de_Key x = de_Key r then r else x) dir else dir @ [r])"

definition PutDirectoryEntry :: "gtime \<Rightarrow> DirectoryEntry \<Rightarrow> DirectoryEntry list \<Rightarrow> directory_error + DirectoryEntry list" where
  "PutDirectoryEntry now r dir =
     bind_result (validDirectoryRow r) (\<lambda>_.
       Inr (directoryUpsert (if is_zero (de_UpdatedAt r) then r\<lparr>de_UpdatedAt := now\<rparr> else r) dir))"

definition DeleteDirectoryEntry :: "string \<Rightarrow> string \<Rightarrow> DirectoryEntry list \<Rightarrow> DirectoryEntry list" where
  "DeleteDirectoryEntry app env dir = filter (\<lambda>x. \<not> (de_App x = app \<and> de_Env x = env)) dir"

definition check_machine_row :: "gtime \<Rightarrow> string \<Rightarrow> DirectoryEntry \<Rightarrow> directory_error + DirectoryEntry" where
  "check_machine_row now machine r0 =
     (let r = (if de_Machine r0 = [] then r0\<lparr>de_Machine := machine\<rparr> else r0)
      in if de_Machine r \<noteq> machine then Inl (OnOtherMachine machine (de_App r) (de_Env r) (de_Machine r))
         else bind_result (validDirectoryRow r) (\<lambda>_.
                Inr (if is_zero (de_UpdatedAt r) then r\<lparr>de_UpdatedAt := now\<rparr> else r)))"

definition ReplaceMachineDirectory ::
  "gtime \<Rightarrow> string \<Rightarrow> DirectoryEntry list \<Rightarrow> DirectoryEntry list \<Rightarrow> directory_error + DirectoryEntry list" where
  "ReplaceMachineDirectory now machine rows dir =
     (if blank machine then Inl EmptyMachineArg
      else bind_result (map_result (check_machine_row now machine) rows) (\<lambda>rows'.
        Inr (foldl (\<lambda>d r. directoryUpsert r d) (filter (\<lambda>x. de_Machine x \<noteq> machine) dir) rows')))"

definition directory_lookup :: "DirectoryEntry list \<Rightarrow> string \<times> string \<Rightarrow> DirectoryEntry option" where
  "directory_lookup dir k = find (\<lambda>x. de_Key x = k) dir"

lemma lookup_upsert: "directory_lookup (directoryUpsert r dir) k = (if k = de_Key r then Some r else directory_lookup dir k)"
proof (cases "de_Key r \<in> set (map de_Key dir)")
  case True
  then show ?thesis using find_replace_key[of de_Key r dir k] by (simp add: directory_lookup_def directoryUpsert_def)
next
  case False
  then show ?thesis
    using find_absent_key[of "de_Key r" de_Key dir]
    by (auto simp: directory_lookup_def directoryUpsert_def find_snoc split: option.split)
qed

lemma lookup_upserts:
  "distinct (map de_Key rs) \<Longrightarrow> directory_lookup (foldl (\<lambda>d r. directoryUpsert r d) dir rs) k =
     (case find (\<lambda>r. de_Key r = k) rs of Some r \<Rightarrow> Some r | None \<Rightarrow> directory_lookup dir k)"
proof (induction rs arbitrary: dir)
  case Nil
  then show ?case by simp
next
  case (Cons r rs)
  have "find (\<lambda>x. de_Key x = k) rs = None" if "k = de_Key r"
    using Cons.prems that by (intro find_absent_key) simp
  with Cons show ?case by (auto simp: lookup_upsert split: option.split)
qed

end
