(* ===== verification/FleetDirectory.thy ===== *)
theory FleetDirectory
  imports FleetMachine
begin

text \<open>
  What a machine's announcement does to the directory of environments. There are two ways to take one in:
  \<^verbatim>\<open>Reconcile\<close> computes the entries to write and to delete, and \<^verbatim>\<open>ReplaceMachineDirectory\<close> rewrites
  the machine's part of the table in one transaction. Both come to the same directory.
\<close>

text \<open>Writing the entries of \<open>Reconcile\<close>: the deletions, then the upserts, one by one.\<close>

fun put_all :: "gtime \<Rightarrow> DirectoryEntry list \<Rightarrow> DirectoryEntry list \<Rightarrow> directory_error + DirectoryEntry list" where
  "put_all now [] dir = Inr dir"
| "put_all now (r # rs) dir = bind_result (PutDirectoryEntry now r dir) (\<lambda>dir'. put_all now rs dir')"

definition delete_all :: "DirectoryEntry list \<Rightarrow> DirectoryEntry list \<Rightarrow> DirectoryEntry list" where
  "delete_all rs dir = foldl (\<lambda>d r. DeleteDirectoryEntry (de_App r) (de_Env r) d) dir rs"

definition stamped :: "gtime \<Rightarrow> DirectoryEntry \<Rightarrow> DirectoryEntry" where
  "stamped now r = (if is_zero (de_UpdatedAt r) then r\<lparr>de_UpdatedAt := now\<rparr> else r)"

text \<open>The directory an announcement asks for: the announced entries, and of the rest those of other machines.\<close>

definition announced :: "gtime \<Rightarrow> Announcement \<Rightarrow> DirectoryEntry list" where
  "announced now a = map (\<lambda>e. stamped now (announced_entry a e)) (an_Envs a)"

definition directory_after :: "gtime \<Rightarrow> Announcement \<Rightarrow> DirectoryEntry list \<Rightarrow> string \<times> string \<Rightarrow> DirectoryEntry option" where
  "directory_after now a dir k =
     (case find (\<lambda>r. de_Key r = k) (announced now a) of
        Some r \<Rightarrow> Some r
      | None \<Rightarrow> (case directory_lookup dir k of
            None \<Rightarrow> None
          | Some e \<Rightarrow> if de_Machine e = an_Machine a then None else Some e))"

lemma de_Key_simps [simp]:
  "de_Key (stamped now r) = de_Key r" "de_Key (announced_entry a e) = de_Key e"
  "de_Machine (stamped now r) = de_Machine r" "de_Machine (announced_entry a e) = an_Machine a"
  by (simp_all add: stamped_def de_Key_def announced_entry_def)

lemma keys_announced: "map de_Key (announced now a) = map de_Key (an_Envs a)"
  by (simp add: announced_def comp_def)

lemma validate_envs_ok:
  assumes "validate_envs parse m seen es = Inr ()"
  shows "distinct (map de_Key es) \<and> (\<forall>e \<in> set es. \<not> blank (de_App e) \<and> \<not> blank (de_Env e) \<and>
    (de_Machine e = [] \<or> de_Machine e = m) \<and> de_Key e \<notin> set seen)"
  using assms
proof (induction es arbitrary: seen)
  case Nil
  then show ?case by simp
next
  case (Cons e es)
  then have e: "\<not> blank (de_App e) \<and> \<not> blank (de_Env e) \<and> (de_Machine e = [] \<or> de_Machine e = m) \<and> de_Key e \<notin> set seen"
    and rest: "validate_envs parse m (de_Key e # seen) es = Inr ()"
    by (simp_all split: if_splits)
  have "de_Key e \<notin> de_Key ` set es" using Cons.IH[OF rest] by fastforce
  then show ?case using Cons.IH[OF rest] e by simp
qed

lemma announcement_ok:
  assumes "Announcement_Validate parse a = Inr ()"
  shows "\<not> blank (an_Machine a)" "distinct (map de_Key (an_Envs a))"
    and "\<And>e. e \<in> set (an_Envs a) \<Longrightarrow> \<not> blank (de_App e) \<and> \<not> blank (de_Env e)"
  using assms validate_envs_ok[of parse "an_Machine a" "[]" "an_Envs a"]
  by (auto simp: Announcement_Validate_def split: if_splits)

lemma put_all_valid:
  "\<forall>r \<in> set rs. validDirectoryRow r = Inr () \<Longrightarrow>
   put_all now rs dir = Inr (foldl (\<lambda>d r. directoryUpsert r d) dir (map (stamped now) rs))"
  by (induction rs arbitrary: dir) (simp_all add: PutDirectoryEntry_def stamped_def)

lemma find_filter_key:
  "distinct (map f xs) \<Longrightarrow> find (\<lambda>x. f x = k) (filter P xs) =
     (case find (\<lambda>x. f x = k) xs of None \<Rightarrow> None | Some x \<Rightarrow> if P x then Some x else None)"
proof (induction xs)
  case Nil
  then show ?case by simp
next
  case (Cons x xs)
  have "find (\<lambda>x. f x = k) xs = None" if "f x = k"
    using Cons.prems that by (intro find_absent_key) auto
  with Cons show ?case by auto
qed

lemma delete_all_filter: "delete_all rs dir = filter (\<lambda>x. de_Key x \<notin> set (map de_Key rs)) dir"
proof (induction rs arbitrary: dir)
  case Nil
  then show ?case by (simp add: delete_all_def)
next
  case (Cons r rs)
  have "DeleteDirectoryEntry (de_App r) (de_Env r) dir = filter (\<lambda>x. de_Key x \<noteq> de_Key r) dir"
    by (simp add: DeleteDirectoryEntry_def de_Key_def)
  then have "delete_all (r # rs) dir = delete_all rs (filter (\<lambda>x. de_Key x \<noteq> de_Key r) dir)"
    by (simp add: delete_all_def)
  also have "\<dots> = filter (\<lambda>x. de_Key x \<notin> set (map de_Key (r # rs))) dir"
    unfolding Cons.IH by (simp add: conj_commute)
  finally show ?case .
qed

lemma announced_valid:
  assumes "Announcement_Validate parse a = Inr ()" "e \<in> set (an_Envs a)"
  shows "validDirectoryRow (announced_entry a e) = Inr ()"
  using announcement_ok[OF assms(1)] assms(2) by (simp add: validDirectoryRow_def announced_entry_def)

lemma find_sorted_entries:
  assumes "distinct (map de_Key es)" and keys: "\<And>e. de_Key (g e) = de_Key e"
  shows "find (\<lambda>r. de_Key r = k) (map g (sortEntries es)) = find (\<lambda>r. de_Key r = k) (map g es)"
proof (cases "k \<in> de_Key ` set es")
  case False
  then have "k \<notin> de_Key ` set (map g es)" "k \<notin> de_Key ` set (map g (sortEntries es))"
    using keys by (auto simp: sortEntries_def image_image)
  then show ?thesis by (simp add: find_absent_key)
next
  case True
  then obtain e where e: "e \<in> set es" "k = de_Key (g e)" using keys by auto
  have d: "distinct (map de_Key (map g es))" using assms(1) keys by (simp add: comp_def)
  have "distinct (map de_Key (map g (sortEntries es)))"
    using assms(1) keys by (simp add: comp_def sortEntries_def)
  from find_distinct_key[OF this, of "g e"] find_distinct_key[OF d, of "g e"] e show ?thesis
    by (simp add: sortEntries_def)
qed

lemma reconcile_directory:
  assumes "Announcement_Validate parse a = Inr ()" "an_Full a" "distinct (map de_Key dir)"
    and "Reconcile parse dir a = Inr (ups, removes)"
  shows "\<exists>dir'. put_all now ups (delete_all removes dir) = Inr dir' \<and>
    (\<forall>k. directory_lookup dir' k = directory_after now a dir k)"
proof -
  let ?m = "an_Machine a" and ?keys = "set (map de_Key (an_Envs a))"
  have ups: "ups = sortEntries (map (announced_entry a) (an_Envs a))"
    and removes: "removes = sortEntries (filter (\<lambda>e. \<not> (de_Machine e \<noteq> ?m \<or> de_Key e \<in> ?keys)) dir)"
    using assms(1,2,4) by (auto simp: Reconcile_def Let_def)
  have dk: "distinct (map de_Key (map (announced_entry a) (an_Envs a)))"
    using announcement_ok(2)[OF assms(1)] by (simp add: comp_def)
  have valid: "\<forall>r \<in> set ups. validDirectoryRow r = Inr ()"
    using announced_valid[OF assms(1)] by (auto simp: ups sortEntries_def)
  let ?dir = "foldl (\<lambda>d r. directoryUpsert r d) (delete_all removes dir) (map (stamped now) ups)"
  have "distinct (map de_Key (map (stamped now) ups))" using dk by (simp add: ups sortEntries_def comp_def)
  note look = lookup_upserts[OF this, of "delete_all removes dir"]
  have "find (\<lambda>r. de_Key r = k) (map (stamped now) ups) = find (\<lambda>r. de_Key r = k) (announced now a)" for k
    unfolding ups announced_def using find_sorted_entries[OF dk, of "stamped now" k] by (simp add: comp_def)
  moreover have "directory_lookup (delete_all removes dir) k = (case directory_lookup dir k of
      None \<Rightarrow> None | Some e \<Rightarrow> if de_Machine e = ?m then None else Some e)"
    if "find (\<lambda>r. de_Key r = k) (announced now a) = None" for k
  proof -
    have "k \<notin> ?keys"
    proof
      assume "k \<in> ?keys"
      then have "k \<in> set (map de_Key (announced now a))" by (simp only: keys_announced)
      then show False using that by (auto simp: find_None_iff)
    qed
    then have gone: "e \<in> set removes \<longleftrightarrow> de_Machine e = ?m" if "directory_lookup dir k = Some e" for e
      using that by (auto simp: removes sortEntries_def directory_lookup_def find_Some_iff)
    have only: "de_Key x = k \<Longrightarrow> x \<in> set dir \<Longrightarrow> directory_lookup dir k = Some x" for x
      using find_distinct_key[OF assms(3), of x] by (auto simp: directory_lookup_def)
    have "de_Key e \<in> set (map de_Key removes) \<longleftrightarrow> de_Machine e = ?m" if "directory_lookup dir k = Some e" for e
    proof -
      have e: "de_Key e = k" "e \<in> set dir" using that by (auto simp: directory_lookup_def find_Some_iff)
      have "x = e" if "x \<in> set removes" "de_Key x = k" for x
        using only[OF that(2)] that(1) \<open>directory_lookup dir k = Some e\<close> by (auto simp: removes sortEntries_def)
      then show ?thesis using gone[OF that] e by auto
    qed
    then show ?thesis
      unfolding delete_all_filter directory_lookup_def find_filter_key[OF assms(3)]
      by (auto simp: directory_lookup_def split: option.split)
  qed
  ultimately have "directory_lookup ?dir k = directory_after now a dir k" for k
    unfolding look directory_after_def by (simp split: option.split)
  then show ?thesis using put_all_valid[OF valid] by auto
qed

lemma replace_directory:
  assumes "Announcement_Validate parse a = Inr ()" "distinct (map de_Key dir)"
  shows "\<exists>dir'. ReplaceMachineDirectory now (an_Machine a) (map (announced_entry a) (an_Envs a)) dir = Inr dir' \<and>
    (\<forall>k. directory_lookup dir' k = directory_after now a dir k)"
proof -
  let ?m = "an_Machine a"
  have row: "check_machine_row now ?m (announced_entry a e) = Inr (stamped now (announced_entry a e))"
    if "e \<in> set (an_Envs a)" for e
    using announced_valid[OF assms(1) that] announcement_ok(1)[OF assms(1)]
    by (auto simp: check_machine_row_def stamped_def Let_def blank_def)
  have rows: "map_result (check_machine_row now ?m) (map (announced_entry a) (an_Envs a)) = Inr (announced now a)"
    unfolding map_result_Inr announced_def using row by (simp add: list_all2_conv_all_nth)
  have "distinct (map de_Key (announced now a))"
    unfolding keys_announced by (rule announcement_ok(2)[OF assms(1)])
  then have "directory_lookup (foldl (\<lambda>d r. directoryUpsert r d) (filter (\<lambda>x. de_Machine x \<noteq> ?m) dir) (announced now a)) k =
      directory_after now a dir k" for k
    unfolding lookup_upserts[OF \<open>distinct (map de_Key (announced now a))\<close>] directory_after_def
    by (simp add: directory_lookup_def find_filter_key[OF assms(2)] split: option.split)
  then show ?thesis using rows announcement_ok(1)[OF assms(1)] by (simp add: ReplaceMachineDirectory_def)
qed


definition example_entry :: "string \<Rightarrow> string \<Rightarrow> DirectoryEntry" where
  "example_entry env machine = \<lparr>de_App = ''shop'', de_Env = env, de_Machine = machine, de_Address = [], de_Owner = ''ana'',
     de_Mode = [], de_Via = [], de_Hosts = [], de_UpdatedAt = 4\<rparr>"

definition example_announcement :: Announcement where
  "example_announcement = \<lparr>an_Machine = ''m'', an_Arch = [], an_OS = [], an_Gauge = None, an_Envs = [example_entry ''b'' ''m''],
     an_Full = True, an_At = 5\<rparr>"


end
