(* ===== verification/FleetChoose.thy ===== *)
theory FleetChoose
  imports FleetMachine
begin

text \<open>
  Choosing the machine of a new environment (\<^verbatim>\<open>internal/fleet/placement.go\<close>, \<^verbatim>\<open>choose.go\<close>). The reason why a machine
  does not fit and the sentence about the choice are datatypes with the figures the texts print. \<^verbatim>\<open>Choose\<close>
  returns a decision also beside an error, so the result is the pair of both. The demand's CPU figure is
  not read by the choice and is left out.
\<close>

section \<open>Candidates\<close>

datatype Placement = PlacementUnset | PlacementAuto | PlacementHub | OtherPlacement string

record Demand =
  d_App :: string
  d_Env :: string
  d_MemoryBytes :: int
  d_Arch :: string

record Preference =
  pr_Pin :: string
  pr_PinnedByFile :: bool
  pr_Placement :: Placement

record Candidate =
  c_Machine :: Machine
  c_Gauge :: "GaugeRecord option"
  c_Committed :: int

datatype reason =
    NamelessMachine | NeverHeardFrom | LastSeenAgo duration | OtherArch string string | UnknownArch string
  | NeverGauged | TooLittleFree int int | NothingFree

record Consideration =
  con_Machine :: string
  con_FreeBytes :: int
  con_Envs :: int
  con_Fits :: bool
  con_Reason :: "reason option"

text \<open>\<^verbatim>\<open>why\<close> and \<^verbatim>\<open>pinnedBy\<close> as values: the free bytes and environments, and the machine and source of a pin.\<close>

datatype why_text = Free int int | Pinned string bool int int

record Decision =
  dec_Machine :: string
  dec_Why :: "why_text option"
  dec_Considered :: "Consideration list"

datatype choose_error =
    NoHubInFleet | UnknownPin string bool "string list" | PinDoesNotFit string bool "reason option"
  | NothingFits "(string \<times> reason option) list"

text \<open>The arithmetic is on 64-bit integers.\<close>

definition candidate_Free :: "Candidate \<Rightarrow> int \<times> bool" where
  "candidate_Free c =
     (case c_Gauge c of
        None \<Rightarrow> (0, False)
      | Some g \<Rightarrow>
          let free = wrap64 (wrap64 (g_AvailableBytes g - g_ReservedBytes g) - c_Committed c)
          in (if free < 0 then 0 else free, True))"

definition unreachableReason :: "Machine \<Rightarrow> gtime \<Rightarrow> reason" where
  "unreachableReason m now =
     (if is_zero (m_LastSeen m) then NeverHeardFrom else LastSeenAgo (time_sub now (m_LastSeen m)))"

definition consider_reason :: "Candidate \<Rightarrow> Demand \<Rightarrow> gtime \<Rightarrow> reason option" where
  "consider_reason c d now =
     (let m = c_Machine c; (free, gauged) = candidate_Free c
      in if m_Name m = [] then Some NamelessMachine
         else if \<not> Reachable m now then Some (unreachableReason m now)
         else if d_Arch d \<noteq> [] \<and> m_Arch m \<noteq> [] \<and> m_Arch m \<noteq> d_Arch d then Some (OtherArch (m_Arch m) (d_Arch d))
         else if d_Arch d \<noteq> [] \<and> m_Arch m = [] then Some (UnknownArch (d_Arch d))
         else if \<not> gauged then Some NeverGauged
         else if d_MemoryBytes d > 0 \<and> free < d_MemoryBytes d then Some (TooLittleFree free (d_MemoryBytes d))
         else if d_MemoryBytes d = 0 \<and> free = 0 then Some NothingFree
         else None)"

definition consider_machine :: "Candidate \<Rightarrow> Demand \<Rightarrow> gtime \<Rightarrow> Consideration" where
  "consider_machine c d now =
     \<lparr>con_Machine = m_Name (c_Machine c), con_FreeBytes = fst (candidate_Free c), con_Envs = m_Envs (c_Machine c),
      con_Fits = (consider_reason c d now = None), con_Reason = consider_reason c d now\<rparr>"

definition rank_before :: "Consideration \<Rightarrow> Consideration \<Rightarrow> bool" where
  "rank_before a b =
     (if con_Fits a \<noteq> con_Fits b then con_Fits a
      else if con_FreeBytes a \<noteq> con_FreeBytes b then con_FreeBytes a > con_FreeBytes b
      else if con_Envs a \<noteq> con_Envs b then con_Envs a < con_Envs b
      else con_Machine a < con_Machine b)"

definition rank :: "Consideration list \<Rightarrow> Consideration list" where
  "rank cons = stable_sort rank_before cons"

definition unknown_names :: "Consideration list \<Rightarrow> string list" where
  "unknown_names cons = sort (filter (\<lambda>n. n \<noteq> []) (map con_Machine cons))"

definition undecided :: "Consideration list \<Rightarrow> Decision" where
  "undecided ranked = \<lparr>dec_Machine = [], dec_Why = None, dec_Considered = ranked\<rparr>"

definition choosePinned ::
  "string \<Rightarrow> Preference \<Rightarrow> Consideration list \<Rightarrow> (string \<rightharpoonup> Consideration) \<Rightarrow> Decision \<times> choose_error option" where
  "choosePinned pin pref considered byName =
     (let ranked = rank considered
      in case byName pin of
           None \<Rightarrow> (undecided ranked, Some (UnknownPin pin (pr_PinnedByFile pref) (unknown_names considered)))
         | Some con \<Rightarrow>
             if \<not> con_Fits con then (undecided ranked, Some (PinDoesNotFit pin (pr_PinnedByFile pref) (con_Reason con)))
             else (\<lparr>dec_Machine = pin,
                     dec_Why = Some (Pinned pin (pr_PinnedByFile pref) (con_FreeBytes con) (con_Envs con)),
                     dec_Considered = ranked\<rparr>, None))"

definition hubName :: "Candidate list \<Rightarrow> string" where
  "hubName candidates =
     (case find (\<lambda>c. IsHub (m_Role (c_Machine c))) candidates of None \<Rightarrow> [] | Some c \<Rightarrow> m_Name (c_Machine c))"

definition Choose :: "Candidate list \<Rightarrow> Demand \<Rightarrow> Preference \<Rightarrow> gtime \<Rightarrow> Decision \<times> choose_error option" where
  "Choose candidates d pref now =
     (let considered = map (\<lambda>c. consider_machine c d now) candidates;
          byName = map_from con_Machine (\<lambda>con. con) considered;
          pin = TrimSpace (pr_Pin pref)
      in if pin \<noteq> [] then choosePinned pin pref considered byName
         else if pr_Placement pref = PlacementHub then
           (let hub = hubName candidates
            in if hub = [] then (undecided (rank considered), Some NoHubInFleet)
               else choosePinned hub (pref\<lparr>pr_Pin := hub, pr_PinnedByFile := True\<rparr>) considered byName)
         else
           (let ranked = rank considered
            in case find con_Fits ranked of
                 Some con \<Rightarrow> (\<lparr>dec_Machine = con_Machine con, dec_Why = Some (Free (con_FreeBytes con) (con_Envs con)),
                              dec_Considered = ranked\<rparr>, None)
               | None \<Rightarrow> (undecided ranked, Some (NothingFits (map (\<lambda>c. (con_Machine c, con_Reason c)) ranked)))))"

section \<open>What is chosen\<close>

interpretation ranking: weak_order rank_before
proof unfold_locales
  show "\<not> rank_before b a" if "rank_before a b" for a b
    using that by (auto simp: rank_before_def split: if_splits)
  show "rank_before a b \<or> rank_before b c" if "rank_before a c" for a b c
    using that by (auto simp: rank_before_def split: if_splits)
qed

text \<open>When a machine can hold an environment, said without the order of the checks.\<close>

definition can_hold :: "Candidate \<Rightarrow> Demand \<Rightarrow> gtime \<Rightarrow> bool" where
  "can_hold c d now \<longleftrightarrow> m_Name (c_Machine c) \<noteq> [] \<and> Reachable (c_Machine c) now \<and>
     (d_Arch d = [] \<or> m_Arch (c_Machine c) = d_Arch d) \<and> c_Gauge c \<noteq> None \<and>
     (0 < d_MemoryBytes d \<longrightarrow> d_MemoryBytes d \<le> fst (candidate_Free c)) \<and>
     (d_MemoryBytes d = 0 \<longrightarrow> 0 < fst (candidate_Free c))"

lemma Free_nonneg: "0 \<le> fst (candidate_Free c)"
  by (simp add: candidate_Free_def Let_def split: option.split)

lemma Fits_iff: "con_Fits (consider_machine c d now) \<longleftrightarrow> can_hold c d now"
  using Free_nonneg[of c]
  by (auto simp: consider_machine_def consider_reason_def can_hold_def candidate_Free_def Let_def split: option.splits if_splits)

lemma consider_simps [simp]:
  "con_Machine (consider_machine c d now) = m_Name (c_Machine c)"
  "con_FreeBytes (consider_machine c d now) = fst (candidate_Free c)"
  "con_Envs (consider_machine c d now) = m_Envs (c_Machine c)"
  by (simp_all add: consider_machine_def)

lemma rank_best:
  assumes "find con_Fits (rank cons) = Some con"
  shows "con \<in> set cons" "con_Fits con" "\<And>x. x \<in> set cons \<Longrightarrow> con_Fits x \<Longrightarrow> \<not> rank_before x con"
proof -
  obtain i where i: "i < length (rank cons)" "rank cons ! i = con" "con_Fits con" "\<And>j. j < i \<Longrightarrow> \<not> con_Fits (rank cons ! j)"
    using assms by (auto simp: find_Some_iff)
  show "con \<in> set cons" using nth_mem[OF i(1)] i(2) by (simp add: rank_def)
  show "con_Fits con" by (rule i(3))
  show "\<not> rank_before x con" if "x \<in> set cons" "con_Fits x" for x
  proof -
    have "x \<in> set (rank cons)" using that(1) by (simp add: rank_def)
    then obtain j where j: "j < length (rank cons)" "rank cons ! j = x" by (auto simp: in_set_conv_nth)
    have "\<not> j < i" using i(4) j(2) that(2) by blast
    then consider "j = i" | "i < j" by linarith
    then show ?thesis
    proof cases
      case 1
      then show ?thesis using i(2) j(2) by (auto simp: rank_before_def)
    next
      case 2
      have "\<not> rank_before (rank cons ! j) (rank cons ! i)"
        using sorted_wrt_nth_less[OF ranking.sorted_stable_sort 2] j(1) by (simp add: rank_def)
      then show ?thesis using i(2) j(2) by simp
    qed
  qed
qed

text \<open>C37: without a pin the best machine is chosen. A machine is chosen exactly when some candidate can hold the
  environment: it is reachable, of the right architecture, gauged, and has the memory asked for. The
  chosen machine is such a candidate, and among all such candidates none has more memory free,
  and none with as much free has fewer environments.\<close>

theorem Choose_best:
  assumes "TrimSpace (pr_Pin pref) = []" "pr_Placement pref \<noteq> PlacementHub"
    and "Choose candidates d pref now = (dec, err)"
  shows "(err = None \<longleftrightarrow> (\<exists>c \<in> set candidates. can_hold c d now)) \<and>
    (err = None \<longrightarrow> (\<exists>c \<in> set candidates. m_Name (c_Machine c) = dec_Machine dec \<and> can_hold c d now \<and>
       (\<forall>c' \<in> set candidates. can_hold c' d now \<longrightarrow>
          fst (candidate_Free c') \<le> fst (candidate_Free c) \<and>
          (fst (candidate_Free c') = fst (candidate_Free c) \<longrightarrow> m_Envs (c_Machine c) \<le> m_Envs (c_Machine c')))))"
proof -
  let ?cons = "map (\<lambda>c. consider_machine c d now) candidates"
  show ?thesis
  proof (cases "find con_Fits (rank ?cons)")
    case None
    then have "\<not> (\<exists>c \<in> set candidates. can_hold c d now)"
      by (auto simp: find_None_iff rank_def Fits_iff)
    then show ?thesis using assms None by (auto simp: Choose_def Let_def)
  next
    case (Some con)
    obtain c where c: "c \<in> set candidates" "con = consider_machine c d now"
      using rank_best(1)[OF Some] by auto
    have holds: "can_hold c d now" using rank_best(2)[OF Some] c(2) by (simp add: Fits_iff)
    have "fst (candidate_Free c') \<le> fst (candidate_Free c) \<and>
          (fst (candidate_Free c') = fst (candidate_Free c) \<longrightarrow> m_Envs (c_Machine c) \<le> m_Envs (c_Machine c'))"
      if "c' \<in> set candidates" "can_hold c' d now" for c'
    proof -
      have "\<not> rank_before (consider_machine c' d now) con"
        using rank_best(3)[OF Some, of "consider_machine c' d now"] that by (simp add: Fits_iff)
      then show ?thesis using holds that(2) by (auto simp: rank_before_def c(2) Fits_iff split: if_splits)
    qed
    then show ?thesis using assms Some c holds by (auto simp: Choose_def Let_def)
  qed
qed

text \<open>A pinned environment goes to the machine it is pinned to or nowhere. With distinct machine names,
  a pin (or the placement on the hub) is followed exactly when that machine is in
  the fleet and can hold the environment, and otherwise the choice fails: no other machine is ever taken.\<close>

theorem Choose_pinned:
  assumes "distinct (map (\<lambda>c. m_Name (c_Machine c)) candidates)"
    and "pin = (if TrimSpace (pr_Pin pref) \<noteq> [] then TrimSpace (pr_Pin pref) else hubName candidates)"
    and "TrimSpace (pr_Pin pref) \<noteq> [] \<or> pr_Placement pref = PlacementHub"
    and "Choose candidates d pref now = (dec, err)"
  shows "(err = None \<longleftrightarrow> (\<exists>c \<in> set candidates. m_Name (c_Machine c) = pin \<and> can_hold c d now)) \<and>
    dec_Machine dec = (if err = None then pin else [])"
proof -
  let ?cons = "map (\<lambda>c. consider_machine c d now) candidates"
  let ?by = "map_from con_Machine (\<lambda>con. con) ?cons"
  have d: "distinct (map con_Machine ?cons)" using assms(1) by (simp add: comp_def)
  have some: "?by (m_Name (c_Machine c)) = Some (consider_machine c d now)" if "c \<in> set candidates" for c
    using map_from_distinct[OF d, of "consider_machine c d now" "\<lambda>con. con"] that by simp
  have none: "?by pin = None \<longleftrightarrow> \<not> (\<exists>c \<in> set candidates. m_Name (c_Machine c) = pin)" by (force simp: image_image)
  have pinned: "(e = None \<longleftrightarrow> (\<exists>c \<in> set candidates. m_Name (c_Machine c) = pin \<and> can_hold c d now)) \<and>
      dec_Machine dc = (if e = None then pin else [])" if "choosePinned pin p ?cons ?by = (dc, e)" for p dc e
  proof (cases "?by pin")
    case None
    have "e \<noteq> None" "dec_Machine dc = []"
      using that unfolding choosePinned_def Let_def None option.case by (auto simp: undecided_def)
    moreover have "\<not> (\<exists>c \<in> set candidates. m_Name (c_Machine c) = pin)" using none None by blast
    ultimately show ?thesis by auto
  next
    case (Some con)
    then obtain c where c: "c \<in> set candidates" "m_Name (c_Machine c) = pin" using none by auto
    then have con: "con = consider_machine c d now" using some[OF c(1)] Some by simp
    have "c' = c" if "c' \<in> set candidates" "m_Name (c_Machine c') = pin" for c'
      using assms(1) c that by (auto simp: distinct_map inj_on_def)
    then have only: "(\<exists>c \<in> set candidates. m_Name (c_Machine c) = pin \<and> can_hold c d now) \<longleftrightarrow> con_Fits con"
      using c unfolding con Fits_iff by blast
    have "choosePinned pin p ?cons ?by =
        (if \<not> con_Fits con then (undecided (rank ?cons), Some (PinDoesNotFit pin (pr_PinnedByFile p) (con_Reason con)))
         else (\<lparr>dec_Machine = pin, dec_Why = Some (Pinned pin (pr_PinnedByFile p) (con_FreeBytes con) (con_Envs con)),
                dec_Considered = rank ?cons\<rparr>, None))"
      unfolding choosePinned_def Let_def Some option.case ..
    then show ?thesis using that unfolding only by (auto simp: undecided_def split: if_splits)
  qed
  show ?thesis
  proof (cases "TrimSpace (pr_Pin pref) \<noteq> []")
    case True
    then show ?thesis using pinned assms(2,4) by (simp add: Choose_def Let_def)
  next
    case False
    then have hub: "pin = hubName candidates" "pr_Placement pref = PlacementHub" using assms(2,3) by auto
    show ?thesis
    proof (cases "pin = []")
      case True
      then show ?thesis
        using assms(4) False hub by (auto simp: Choose_def Let_def undecided_def can_hold_def)
    next
      case nonempty: False
      then show ?thesis using pinned assms(4) False hub by (auto simp: Choose_def Let_def)
    qed
  qed
qed

definition example_candidate :: "string \<Rightarrow> Role \<Rightarrow> int \<Rightarrow> Candidate" where
  "example_candidate name role mem = \<lparr>c_Machine = \<lparr>m_Name = name, m_Role = role, m_PublicKey = ''k'', m_Subnet = InvalidPrefix,
       m_Arch = ''arm64'', m_OS = ''l'', m_Endpoint = [], m_Private = False, m_JoinedAt = 1, m_LastSeen = 50, m_Gauge = None, m_Envs = 2\<rparr>,
     c_Gauge = Some \<lparr>g_AvailableBytes = mem, g_ReservedBytes = 0\<rparr>, c_Committed = 0\<rparr>"

definition example_demand :: Demand where
  "example_demand = \<lparr>d_App = ''shop'', d_Env = ''dev'', d_MemoryBytes = 10, d_Arch = ''arm64''\<rparr>"

definition example_fleet :: "Candidate list" where
  "example_fleet = [example_candidate ''h'' RoleHub 20, example_candidate ''b'' RoleMember 40, example_candidate ''s'' RoleMember 5]"

lemma example_can_hold:
  "can_hold (example_candidate ''h'' RoleHub 20) example_demand 60" "can_hold (example_candidate ''b'' RoleMember 40) example_demand 60"
  "\<not> can_hold (example_candidate ''s'' RoleMember 5) example_demand 60"
  by code_simp+

theorem Choose_pinned_witness:
  "\<exists>dec. Choose example_fleet example_demand \<lparr>pr_Pin = ''h'', pr_PinnedByFile = False, pr_Placement = PlacementAuto\<rparr> 60 = (dec, None) \<and>
     dec_Machine dec = ''h''"
proof -
  let ?pref = "\<lparr>pr_Pin = ''h'', pr_PinnedByFile = False, pr_Placement = PlacementAuto\<rparr>"
  obtain dec err where run: "Choose example_fleet example_demand ?pref 60 = (dec, err)" by (metis prod.exhaust)
  have pin: "TrimSpace (pr_Pin ?pref) = ''h''" by code_simp
  have "distinct (map (\<lambda>c. m_Name (c_Machine c)) example_fleet)" by (simp add: example_fleet_def example_candidate_def)
  moreover have "''h'' = (if TrimSpace (pr_Pin ?pref) \<noteq> [] then TrimSpace (pr_Pin ?pref) else hubName example_fleet)"
    unfolding pin by simp
  moreover have "TrimSpace (pr_Pin ?pref) \<noteq> [] \<or> pr_Placement ?pref = PlacementHub" unfolding pin by simp
  ultimately have "(err = None \<longleftrightarrow> (\<exists>c \<in> set example_fleet. m_Name (c_Machine c) = ''h'' \<and> can_hold c example_demand 60)) \<and>
      dec_Machine dec = (if err = None then ''h'' else [])"
    by (rule Choose_pinned[OF _ _ _ run])
  moreover have "\<exists>c \<in> set example_fleet. m_Name (c_Machine c) = ''h'' \<and> can_hold c example_demand 60"
    using example_can_hold(1) by (intro bexI[of _ "example_candidate ''h'' RoleHub 20"]) (simp_all add: example_fleet_def, simp add: example_candidate_def)
  ultimately show ?thesis using run by auto
qed

theorem Choose_best_witness:
  "\<exists>dec. Choose example_fleet example_demand \<lparr>pr_Pin = [], pr_PinnedByFile = False, pr_Placement = PlacementAuto\<rparr> 60 = (dec, None) \<and>
     dec_Machine dec = ''b''"
proof -
  let ?pref = "\<lparr>pr_Pin = [], pr_PinnedByFile = False, pr_Placement = PlacementAuto\<rparr>"
  obtain dec err where run: "Choose example_fleet example_demand ?pref 60 = (dec, err)" by (metis prod.exhaust)
  have pin: "TrimSpace (pr_Pin ?pref) = []" "pr_Placement ?pref \<noteq> PlacementHub" by code_simp+
  have free: "fst (candidate_Free (example_candidate ''h'' RoleHub 20)) = 20" "fst (candidate_Free (example_candidate ''b'' RoleMember 40)) = 40"
    by code_simp+
  note best = Choose_best[OF pin run]
  have err: "err = None" using best example_can_hold by (auto simp: example_fleet_def)
  with best obtain c where c: "c \<in> set example_fleet" "m_Name (c_Machine c) = dec_Machine dec" "can_hold c example_demand 60"
      "\<forall>c' \<in> set example_fleet. can_hold c' example_demand 60 \<longrightarrow> fst (candidate_Free c') \<le> fst (candidate_Free c)"
    by blast
  then have "c = example_candidate ''b'' RoleMember 40" using example_can_hold free by (auto simp: example_fleet_def)
  then have "dec_Machine dec = ''b''" using c(2) by (simp add: example_candidate_def)
  then show ?thesis using run err by auto
qed

end
