(* ===== verification/FleetJoin.thy ===== *)
theory FleetJoin
  imports FleetMachine
begin

text \<open>
  How a machine joins the fleet: the join tokens (\<^verbatim>\<open>internal/fleet/token.go\<close>), the hub's tables of tokens and
  machines (\<^verbatim>\<open>internal/state/fleet.go\<close>) and the hub's side of a join (\<^verbatim>\<open>MachineRedeem\<close> and
  \<^verbatim>\<open>admitMember\<close> in \<^verbatim>\<open>internal/sshapi/fleet_machines.go\<close>). The hash of a secret, the text of a time in
  the table and the outcome of adding the tunnel's peer are arguments. The table of machines is
  a list of machines with the subnet and the gauge decoded. A call reads the clock once.

  \<^verbatim>\<open>MachineRedeem\<close> runs without a lock, so it is also given in the three parts between which the calls of
  two joining machines can interleave: reading and checking the token, admitting the machine, marking the token.
\<close>

section \<open>Tokens\<close>

record Token =
  tk_Hash :: string
  tk_CreatedBy :: string
  tk_CreatedAt :: gtime
  tk_ExpiresAt :: gtime
  tk_UsedBy :: string
  tk_UsedAt :: gtime

datatype token_error = TokenUnknown | TokenUsed | TokenExpired

datatype token_problem = SecretMissing | NegativeTTL | TTLTooLong

abbreviation TokenTTL :: duration where
  "TokenTTL \<equiv> 3600 * second"

abbreviation MaxTokenTTL :: duration where
  "MaxTokenTTL \<equiv> 24 * 3600 * second"

definition token_Used :: "Token \<Rightarrow> bool" where
  "token_Used t \<longleftrightarrow> tk_UsedBy t \<noteq> [] \<or> \<not> is_zero (tk_UsedAt t)"

definition token_Expired :: "Token \<Rightarrow> gtime \<Rightarrow> bool" where
  "token_Expired t now \<longleftrightarrow> \<not> is_zero (tk_ExpiresAt t) \<and> \<not> now < tk_ExpiresAt t"

definition token_Check :: "Token \<Rightarrow> gtime \<Rightarrow> token_error option" where
  "token_Check t now =
     (if tk_Hash t = [] then Some TokenUnknown
      else if token_Used t then Some TokenUsed
      else if token_Expired t now then Some TokenExpired
      else None)"

definition Hash :: "(string \<Rightarrow> string) \<Rightarrow> string \<Rightarrow> string" where
  "Hash sha secret = sha (TrimSpace secret)"

definition NewToken :: "(string \<Rightarrow> string) \<Rightarrow> string \<Rightarrow> string \<Rightarrow> gtime \<Rightarrow> duration \<Rightarrow> token_problem + Token" where
  "NewToken sha secret createdBy now ttl0 =
     (if blank secret then Inl SecretMissing
      else if ttl0 < 0 then Inl NegativeTTL
      else if ttl0 > MaxTokenTTL then Inl TTLTooLong
      else (let ttl = (if ttl0 = 0 then TokenTTL else ttl0)
            in Inr \<lparr>tk_Hash = Hash sha secret, tk_CreatedBy = createdBy, tk_CreatedAt = now, tk_ExpiresAt = now + ttl,
                    tk_UsedBy = [], tk_UsedAt = 0\<rparr>))"

section \<open>The hub's tables\<close>

datatype store_error = StoreNotFound | StoreExists | StoreInvalid

definition AddJoinToken :: "gtime \<Rightarrow> Token \<Rightarrow> Token list \<Rightarrow> store_error + Token list" where
  "AddJoinToken now t tokens =
     (if blank (tk_Hash t) then Inl StoreInvalid
      else if tk_Hash t \<in> set (map tk_Hash tokens) then Inl StoreExists
      else Inr (tokens @ [if is_zero (tk_CreatedAt t) then t\<lparr>tk_CreatedAt := now\<rparr> else t]))"

definition JoinToken :: "string \<Rightarrow> Token list \<Rightarrow> store_error + Token" where
  "JoinToken hash tokens =
     (if blank hash then Inl StoreNotFound
      else (case find (\<lambda>t. tk_Hash t = hash) tokens of None \<Rightarrow> Inl StoreNotFound | Some t \<Rightarrow> Inr t))"

definition RedeemJoinToken :: "gtime \<Rightarrow> string \<Rightarrow> string \<Rightarrow> gtime \<Rightarrow> Token list \<Rightarrow> store_error + Token list" where
  "RedeemJoinToken now hash machine at0 tokens =
     (if blank hash then Inl StoreNotFound
      else if blank machine then Inl StoreInvalid
      else
        (let at = (if is_zero at0 then now else at0);
             free = (\<lambda>t. tk_Hash t = hash \<and> tk_UsedBy t = [] \<and> is_zero (tk_UsedAt t))
         in if \<exists>t \<in> set tokens. free t
            then Inr (map (\<lambda>t. if free t then t\<lparr>tk_UsedBy := machine, tk_UsedAt := at\<rparr> else t) tokens)
            else (case JoinToken hash tokens of Inl _ \<Rightarrow> Inl StoreNotFound | Inr _ \<Rightarrow> Inl StoreExists)))"

text \<open>Times are compared as the texts in the table.\<close>

definition DeleteExpiredJoinTokens :: "(gtime \<Rightarrow> string) \<Rightarrow> gtime \<Rightarrow> gtime \<Rightarrow> Token list \<Rightarrow> Token list \<times> nat" where
  "DeleteExpiredJoinTokens format now t0 tokens =
     (let t = (if is_zero t0 then now else t0);
          gone = (\<lambda>k. tk_UsedBy k = [] \<and> is_zero (tk_UsedAt k) \<and> \<not> is_zero (tk_ExpiresAt k) \<and>
                    format (tk_ExpiresAt k) < format t)
      in (filter (\<lambda>k. \<not> gone k) tokens, length (filter gone tokens)))"

definition merged_row :: "Machine \<Rightarrow> Machine \<Rightarrow> Machine" where
  "merged_row old m = m\<lparr>m_JoinedAt := m_JoinedAt old,
     m_Endpoint := (if m_Endpoint m = [] then m_Endpoint old else m_Endpoint m),
     m_LastSeen := (if is_zero (m_LastSeen m) then m_LastSeen old else m_LastSeen m),
     m_Gauge := (if m_Gauge m = None then m_Gauge old else m_Gauge m)\<rparr>"

definition clashes :: "Machine \<Rightarrow> Machine \<Rightarrow> bool" where
  "clashes a b \<longleftrightarrow> m_PublicKey a = m_PublicKey b \<or> m_Subnet a = m_Subnet b"

definition PutFleetMachine :: "gtime \<Rightarrow> Machine \<Rightarrow> Machine list \<Rightarrow> store_error + Machine list" where
  "PutFleetMachine now m0 machines =
     (if blank (m_Name m0) \<or> blank (m_PublicKey m0) \<or> \<not> prefix_IsValid (m_Subnet m0) then Inl StoreInvalid
      else
        (let m = m0\<lparr>m_Role := (if m_Role m0 = RoleUnset then RoleHub else m_Role m0),
                    m_JoinedAt := (if is_zero (m_JoinedAt m0) then now else m_JoinedAt m0)\<rparr>
         in if \<exists>x \<in> set machines. m_Name x \<noteq> m_Name m \<and> clashes x m then Inl StoreExists
            else if \<exists>x \<in> set machines. m_Name x = m_Name m
              then Inr (map (\<lambda>x. if m_Name x = m_Name m then merged_row x m else x) machines)
              else Inr (machines @ [m])))"

definition FleetMachine_row :: "string \<Rightarrow> Machine list \<Rightarrow> Machine option" where
  "FleetMachine_row name machines = find (\<lambda>m. m_Name m = name) machines"

section \<open>The hub's side of a join\<close>

fun slug_loop :: "bool \<Rightarrow> string \<Rightarrow> string \<Rightarrow> string" where
  "slug_loop dash b [] = b"
| "slug_loop dash b (c # cs) =
     (if is_lower c \<or> is_digit c then slug_loop False (b @ [c]) cs
      else if \<not> dash \<and> b \<noteq> [] then slug_loop True (b @ [CHR ''-'']) cs
      else slug_loop dash b cs)"

definition machineSlug :: "string \<Rightarrow> string" where
  "machineSlug s =
     (let b = slug_loop False [] (ToLower (TrimSpace s));
          out = rev (dropWhile (\<lambda>c. c = CHR ''-'') (rev (dropWhile (\<lambda>c. c = CHR ''-'') b)))
      in if out = [] then ''hub'' else out)"

definition NormaliseArch :: "string \<Rightarrow> string" where
  "NormaliseArch s =
     (let a = ToLower (TrimSpace s)
      in if a = ''x86_64'' \<or> a = ''amd64'' then ''amd64''
         else if a = ''aarch64'' \<or> a = ''arm64'' \<or> a = ''arm64/v8'' then ''arm64''
         else if a = ''armv7l'' \<or> a = ''armv6l'' then ''arm''
         else if a = ''i386'' \<or> a = ''i686'' \<or> a = ''x86'' then ''386''
         else a)"

record RedeemRequest =
  rq_Secret :: string
  rq_Fleet :: string
  rq_Name :: string
  rq_PublicKey :: string
  rq_Arch :: string
  rq_OS :: string
  rq_Private :: bool
  rq_Endpoint :: string

text \<open>What a hub knows of itself, and its tables.\<close>

record HubConfig =
  hub_IsMember :: bool
  hub_FleetName :: string
  hub_TunnelUp :: bool
  hub_Self :: Machine

record HubState =
  hs_tokens :: "Token list"
  hs_machines :: "Machine list"

datatype join_error =
    NotAHub | OtherFleet string | NoTunnel | NoJoinName | NoJoinKey string | NotOurToken
  | TokenRefused token_error | NoHubKey | HubRowFailed store_error | NameTaken string | JoinNoSubnet
  | InvalidMember fleet_error | RecordFailed store_error | PeerFailed | MarkFailed store_error

text \<open>The first part: the checks of the request and of the token. Its result is the machine's name.\<close>

definition redeem_check :: "(string \<Rightarrow> string) \<Rightarrow> HubConfig \<Rightarrow> gtime \<Rightarrow> RedeemRequest \<Rightarrow> HubState \<Rightarrow> join_error + string" where
  "redeem_check sha hub now req st =
     (if hub_IsMember hub then Inl NotAHub
      else if TrimSpace (rq_Fleet req) \<noteq> [] \<and> TrimSpace (rq_Fleet req) \<noteq> hub_FleetName hub
        then Inl (OtherFleet (TrimSpace (rq_Fleet req)))
      else if \<not> hub_TunnelUp hub then Inl NoTunnel
      else if blank (rq_Name req) then Inl NoJoinName
      else
        (let name = machineSlug (rq_Name req)
         in if blank (rq_PublicKey req) then Inl (NoJoinKey name)
            else (case JoinToken (Hash sha (rq_Secret req)) (hs_tokens st) of
                    Inl _ \<Rightarrow> Inl NotOurToken
                  | Inr tok \<Rightarrow>
                      (case token_Check tok now of
                         None \<Rightarrow> Inr name
                       | Some e \<Rightarrow> if \<not> token_Used tok \<or> tk_UsedBy tok \<noteq> name then Inl (TokenRefused e) else Inr name))))"

definition ensureHubRow :: "HubConfig \<Rightarrow> gtime \<Rightarrow> HubState \<Rightarrow> join_error + HubState" where
  "ensureHubRow hub now st =
     (let self = (hub_Self hub)\<lparr>m_Role := RoleHub, m_Subnet := HubSubnet\<rparr>
      in if m_PublicKey self = [] then Inl NoHubKey
         else
           (let joined = (case FleetMachine_row (m_Name self) (hs_machines st) of
                   Some old \<Rightarrow> m_JoinedAt old | None \<Rightarrow> m_JoinedAt self);
                row = self\<lparr>m_JoinedAt := (if is_zero joined then now else joined), m_LastSeen := now\<rparr>
            in case PutFleetMachine now row (hs_machines st) of
                 Inl e \<Rightarrow> Inl (HubRowFailed e)
               | Inr ms \<Rightarrow> Inr (st\<lparr>hs_machines := ms\<rparr>)))"

definition admitMember :: "gtime \<Rightarrow> string \<Rightarrow> RedeemRequest \<Rightarrow> Machine list \<Rightarrow> Machine list \<Rightarrow> join_error + (Machine \<times> bool \<times> Machine list)" where
  "admitMember now name req machines table =
     (let m = \<lparr>m_Name = name, m_Role = RoleMember, m_PublicKey = TrimSpace (rq_PublicKey req), m_Subnet = InvalidPrefix,
               m_Arch = NormaliseArch (rq_Arch req), m_OS = rq_OS req, m_Endpoint = rq_Endpoint req,
               m_Private = rq_Private req, m_JoinedAt = now, m_LastSeen = now, m_Gauge = None, m_Envs = 0\<rparr>
      in bind_result
           (case Find machines name of
              Some existing \<Rightarrow>
                if m_PublicKey existing \<noteq> m_PublicKey m then Inl (NameTaken name)
                else Inr (m\<lparr>m_Subnet := m_Subnet existing, m_JoinedAt := m_JoinedAt existing\<rparr>,
                          m_Private existing \<noteq> m_Private m \<or> m_Arch existing \<noteq> m_Arch m)
            | None \<Rightarrow>
                (case AllocateSubnet (TakenSubnets machines) of
                   Inl _ \<Rightarrow> Inl JoinNoSubnet
                 | Inr subnet \<Rightarrow> Inr (m\<lparr>m_Subnet := subnet\<rparr>, True)))
           (\<lambda>(m, changed).
             case Machine_Validate m of
               Inl e \<Rightarrow> Inl (InvalidMember e)
             | Inr _ \<Rightarrow>
                 (case PutFleetMachine now m table of
                    Inl e \<Rightarrow> Inl (RecordFailed e)
                  | Inr ms \<Rightarrow> Inr (m, changed, ms))))"

text \<open>The second part: the hub's own row, the list of machines, and the new member's row.\<close>

definition redeem_admit :: "HubConfig \<Rightarrow> gtime \<Rightarrow> RedeemRequest \<Rightarrow> string \<Rightarrow> HubState \<Rightarrow> join_error + (Machine \<times> HubState)" where
  "redeem_admit hub now req name st =
     bind_result (ensureHubRow hub now st) (\<lambda>st1.
     bind_result (admitMember now name req (hs_machines st1) (hs_machines st1)) (\<lambda>(m, changed, ms).
       Inr (m, st1\<lparr>hs_machines := ms\<rparr>)))"

text \<open>The third part: the tunnel's peer, and the mark on the token. A token that is already marked is let pass.\<close>

definition redeem_mark ::
  "(string \<Rightarrow> string) \<Rightarrow> (Machine \<Rightarrow> bool) \<Rightarrow> gtime \<Rightarrow> RedeemRequest \<Rightarrow> Machine \<Rightarrow> HubState \<Rightarrow> join_error + HubState" where
  "redeem_mark sha add_peer now req m st =
     (if \<not> add_peer m then Inl PeerFailed
      else (case RedeemJoinToken now (Hash sha (rq_Secret req)) (m_Name m) now (hs_tokens st) of
              Inl StoreExists \<Rightarrow> Inr st
            | Inl e \<Rightarrow> Inl (MarkFailed e)
            | Inr tokens \<Rightarrow> Inr (st\<lparr>hs_tokens := tokens\<rparr>)))"

text \<open>The whole call. On an error after the member's row was written the row stays.\<close>

definition MachineRedeem ::
  "(string \<Rightarrow> string) \<Rightarrow> (Machine \<Rightarrow> bool) \<Rightarrow> HubConfig \<Rightarrow> gtime \<Rightarrow> RedeemRequest \<Rightarrow> HubState \<Rightarrow> HubState \<times> (join_error + Machine)" where
  "MachineRedeem sha add_peer hub now req st =
     (case redeem_check sha hub now req st of
        Inl e \<Rightarrow> (st, Inl e)
      | Inr name \<Rightarrow>
          (case redeem_admit hub now req name st of
             Inl e \<Rightarrow> ((case ensureHubRow hub now st of Inl _ \<Rightarrow> st | Inr st1 \<Rightarrow> st1), Inl e)
           | Inr (m, st2) \<Rightarrow>
               (case redeem_mark sha add_peer now req m st2 of
                  Inl e \<Rightarrow> (st2, Inl e)
                | Inr st3 \<Rightarrow> (st3, Inr m))))"

end
