(* ===== verification/FleetTokens.thy ===== *)
theory FleetTokens
  imports FleetJoin
begin

text \<open>
  What a join token is worth. When the hub's calls run one after the other a token admits one machine only,
  however often it is presented and whatever tokens are issued and purged meanwhile. When the calls of
  two machines interleave, which nothing in the code prevents, one token admits both.
\<close>

section \<open>The life of a token\<close>

definition tokens_ok :: "HubState \<Rightarrow> bool" where
  "tokens_ok st \<longleftrightarrow> distinct (map tk_Hash (hs_tokens st))"

definition used_by :: "string \<Rightarrow> string \<Rightarrow> HubState \<Rightarrow> bool" where
  "used_by h n st \<longleftrightarrow> n \<noteq> [] \<and> (\<exists>t \<in> set (hs_tokens st). tk_Hash t = h \<and> tk_UsedBy t = n)"

lemma redeem_tokens_hash: "RedeemJoinToken now h n at tokens = Inr tokens' \<Longrightarrow> map tk_Hash tokens' = map tk_Hash tokens"
  by (auto simp: RedeemJoinToken_def Let_def split: if_splits sum.splits)

lemma redeem_tokens_used:
  "RedeemJoinToken now h n at tokens = Inr tokens' \<Longrightarrow> t \<in> set tokens \<Longrightarrow> tk_UsedBy t \<noteq> [] \<Longrightarrow> t \<in> set tokens'"
  by (force simp: RedeemJoinToken_def Let_def split: if_splits sum.splits)

lemma redeem_tokens_marks:
  assumes "RedeemJoinToken now h n at tokens = Inr tokens'"
  shows "n \<noteq> [] \<and> (\<exists>t \<in> set tokens'. tk_Hash t = h \<and> tk_UsedBy t = n)"
proof -
  have "\<not> blank n" using assms by (auto simp: RedeemJoinToken_def split: if_splits)
  obtain t where t: "t \<in> set tokens" "tk_Hash t = h" "tk_UsedBy t = []" "is_zero (tk_UsedAt t)"
    using assms by (auto simp: RedeemJoinToken_def Let_def split: if_splits sum.splits)
  obtain a where "tokens' = map (\<lambda>t. if tk_Hash t = h \<and> tk_UsedBy t = [] \<and> is_zero (tk_UsedAt t)
        then t\<lparr>tk_UsedBy := n, tk_UsedAt := a\<rparr> else t) tokens"
    using assms by (auto simp: RedeemJoinToken_def Let_def split: if_splits sum.splits)
  then have "t\<lparr>tk_UsedBy := n, tk_UsedAt := a\<rparr> \<in> set tokens'" using t by (force simp: image_iff)
  moreover have "n \<noteq> []" using \<open>\<not> blank n\<close> by (auto simp: blank_def)
  ultimately show ?thesis using t(2) by (intro conjI bexI[of _ "t\<lparr>tk_UsedBy := n, tk_UsedAt := a\<rparr>"]) simp_all
qed

lemma admitMember_name: "admitMember now name req machines table = Inr (m, changed, ms) \<Longrightarrow> m_Name m = name"
  unfolding admitMember_def Let_def
  by (cases "Find machines name"; cases "AllocateSubnet (TakenSubnets machines)")
    (simp_all split: if_split_asm sum.split_asm, auto)

lemma hub_row_tokens: "ensureHubRow hub now st = Inr st1 \<Longrightarrow> hs_tokens st1 = hs_tokens st"
  by (auto simp: ensureHubRow_def Let_def split: if_splits sum.splits)

lemma admit_frame:
  assumes "redeem_admit hub now req name st = Inr (m, st')"
  shows "hs_tokens st' = hs_tokens st" "m_Name m = name"
  using assms hub_row_tokens admitMember_name by (fastforce simp: redeem_admit_def bind_result_Inr)+

text \<open>What a call does to the tokens: nothing, or it marks the one it was given.\<close>

lemma MachineRedeem_tokens:
  assumes "MachineRedeem sha add hub now req st = (st', r)"
  shows "hs_tokens st' = hs_tokens st \<or>
    (\<exists>n. RedeemJoinToken now (Hash sha (rq_Secret req)) n now (hs_tokens st) = Inr (hs_tokens st'))"
  using assms admit_frame hub_row_tokens
  by (auto simp: MachineRedeem_def redeem_mark_def split: sum.splits prod.splits if_splits store_error.splits)

lemma MachineRedeem_ok: "tokens_ok st \<Longrightarrow> MachineRedeem sha add hub now req st = (st', r) \<Longrightarrow> tokens_ok st'"
  using MachineRedeem_tokens redeem_tokens_hash unfolding tokens_ok_def by metis

lemma MachineRedeem_used: "used_by h n st \<Longrightarrow> MachineRedeem sha add hub now req st = (st', r) \<Longrightarrow> used_by h n st'"
  using MachineRedeem_tokens[of sha add hub now req st st' r] redeem_tokens_used unfolding used_by_def by metis

lemma JoinToken_Inr: "JoinToken h tokens = Inr t \<Longrightarrow> t \<in> set tokens \<and> tk_Hash t = h"
  by (auto simp: JoinToken_def find_Some_iff split: if_splits option.splits)

lemma tokens_unique:
  "tokens_ok st \<Longrightarrow> t \<in> set (hs_tokens st) \<Longrightarrow> u \<in> set (hs_tokens st) \<Longrightarrow> tk_Hash t = tk_Hash u \<Longrightarrow> t = u"
  by (auto simp: tokens_ok_def distinct_map inj_on_def)

text \<open>A call that succeeds leaves its token marked for its machine, and it only
  succeeds with a token that is not marked for another machine.\<close>

lemma MachineRedeem_success:
  assumes "tokens_ok st" "MachineRedeem sha add hub now req st = (st', Inr m)"
  shows "used_by (Hash sha (rq_Secret req)) (m_Name m) st'"
    and "used_by (Hash sha (rq_Secret req)) n st \<Longrightarrow> m_Name m = n"
proof -
  let ?h = "Hash sha (rq_Secret req)"
  obtain name st2 where chk: "redeem_check sha hub now req st = Inr name"
    and adm: "redeem_admit hub now req name st = Inr (m, st2)"
    and mrk: "redeem_mark sha add now req m st2 = Inr st'"
    using assms(2) by (auto simp: MachineRedeem_def split: sum.splits)
  note frame = admit_frame[OF adm]
  obtain tok where tok: "JoinToken ?h (hs_tokens st) = Inr tok"
    and ok: "token_Check tok now = None \<or> token_Used tok \<and> tk_UsedBy tok = name"
    using chk by (auto simp: redeem_check_def Let_def split: if_splits sum.splits option.splits)
  note tokD = JoinToken_Inr[OF tok]
  show "m_Name m = n" if "used_by ?h n st"
  proof -
    from that obtain t where t: "t \<in> set (hs_tokens st)" "tk_Hash t = ?h" "tk_UsedBy t = n" "n \<noteq> []"
      by (auto simp: used_by_def)
    then have "t = tok" using tokens_unique[OF assms(1), of t tok] tokD by simp
    then show ?thesis using ok frame(2) t(3,4) by (auto simp: token_Check_def token_Used_def split: if_splits)
  qed
  show "used_by ?h (m_Name m) st'"
  proof (cases "RedeemJoinToken now ?h (m_Name m) now (hs_tokens st)")
    case (Inr tokens')
    then have "hs_tokens st' = tokens'"
      using mrk by (auto simp: redeem_mark_def frame(1) split: if_splits)
    then show ?thesis using redeem_tokens_marks[OF Inr] by (auto simp: used_by_def)
  next
    case (Inl e)
    then have e: "e = StoreExists" and st': "st' = st2"
      using mrk by (auto simp: redeem_mark_def frame(1) split: if_splits store_error.splits)
    have nonblank: "\<not> blank (m_Name m)" using Inl e by (auto simp: RedeemJoinToken_def split: if_splits)
    have "\<not> (tk_UsedBy tok = [] \<and> is_zero (tk_UsedAt tok))"
      using Inl e tokD by (auto simp: RedeemJoinToken_def Let_def split: if_splits)
    then have "tk_UsedBy tok = m_Name m"
      using ok frame(2) by (auto simp: token_Check_def token_Used_def split: if_splits)
    moreover have "m_Name m \<noteq> []" using nonblank by (auto simp: blank_def)
    ultimately show ?thesis using tokD by (auto simp: used_by_def st' frame(1))
  qed
qed

section \<open>Calls one after the other\<close>

datatype hub_op = Redeem gtime RedeemRequest | Issue gtime Token | Purge gtime

text \<open>One operation of the hub, with the hash and the machine of a join that succeeds.\<close>

fun hub_step ::
  "(string \<Rightarrow> string) \<Rightarrow> (Machine \<Rightarrow> bool) \<Rightarrow> (gtime \<Rightarrow> string) \<Rightarrow> HubConfig \<Rightarrow> hub_op \<Rightarrow> HubState \<Rightarrow>
     HubState \<times> (string \<times> string) option" where
  "hub_step sha add format hub (Redeem now req) st =
     (case MachineRedeem sha add hub now req st of
        (st', Inr m) \<Rightarrow> (st', Some (Hash sha (rq_Secret req), m_Name m))
      | (st', Inl _) \<Rightarrow> (st', None))"
| "hub_step sha add format hub (Issue now t) st =
     (case AddJoinToken now t (hs_tokens st) of
        Inl _ \<Rightarrow> (st, None) | Inr tokens \<Rightarrow> (st\<lparr>hs_tokens := tokens\<rparr>, None))"
| "hub_step sha add format hub (Purge now) st =
     (st\<lparr>hs_tokens := fst (DeleteExpiredJoinTokens format now now (hs_tokens st))\<rparr>, None)"

fun admissions ::
  "(string \<Rightarrow> string) \<Rightarrow> (Machine \<Rightarrow> bool) \<Rightarrow> (gtime \<Rightarrow> string) \<Rightarrow> HubConfig \<Rightarrow> hub_op list \<Rightarrow> HubState \<Rightarrow>
     (string \<times> string) list" where
  "admissions sha add format hub [] st = []"
| "admissions sha add format hub (a # as) st =
     (case hub_step sha add format hub a st of
        (st', Some hn) \<Rightarrow> hn # admissions sha add format hub as st'
      | (st', None) \<Rightarrow> admissions sha add format hub as st')"

lemma hub_step_props:
  assumes "hub_step sha add format hub a st = (st', out)" "tokens_ok st"
  shows "tokens_ok st'" and "used_by h n st \<Longrightarrow> used_by h n st'"
    and "out = Some (h, k) \<Longrightarrow> used_by h k st'" and "out = Some (h, k) \<Longrightarrow> used_by h n st \<Longrightarrow> k = n"
proof -
  show "tokens_ok st'"
    using assms by (cases a)
      (auto simp: AddJoinToken_def DeleteExpiredJoinTokens_def Let_def tokens_ok_def distinct_map_filter
        dest: MachineRedeem_ok[unfolded tokens_ok_def] split: prod.splits sum.splits if_splits)
  show "used_by h n st'" if "used_by h n st"
    using assms that by (cases a)
      (auto simp: AddJoinToken_def DeleteExpiredJoinTokens_def Let_def used_by_def
        dest: MachineRedeem_used[unfolded used_by_def, rotated] split: prod.splits sum.splits if_splits)
  show "used_by h k st'" if "out = Some (h, k)"
    using assms that MachineRedeem_success(1) by (cases a) (auto split: prod.splits sum.splits)
  show "k = n" if "out = Some (h, k)" "used_by h n st"
    using assms that MachineRedeem_success(2) by (cases a) (auto split: prod.splits sum.splits)
qed

lemma admissions_used:
  "tokens_ok st \<Longrightarrow> used_by h n st \<Longrightarrow> (h, k) \<in> set (admissions sha add format hub as st) \<Longrightarrow> k = n"
proof (induction as arbitrary: st)
  case Nil
  then show ?case by simp
next
  case (Cons a as)
  obtain st' out where st: "hub_step sha add format hub a st = (st', out)" by fastforce
  note props = hub_step_props[OF st Cons.prems(1)]
  show ?case
    using Cons.IH[OF props(1) props(2)[OF Cons.prems(2)]] Cons.prems(2,3) props(4)
    by (auto simp: st split: option.splits)
qed


section \<open>Calls that interleave\<close>

text \<open>Two machines present a token at the same time: both are checked before either marks it.\<close>

definition both_join ::
  "(string \<Rightarrow> string) \<Rightarrow> (Machine \<Rightarrow> bool) \<Rightarrow> HubConfig \<Rightarrow> gtime \<Rightarrow> RedeemRequest \<Rightarrow> RedeemRequest \<Rightarrow> HubState \<Rightarrow>
     join_error + (Machine \<times> Machine \<times> HubState)" where
  "both_join sha add hub now r1 r2 st =
     bind_result (redeem_check sha hub now r1 st) (\<lambda>n1.
     bind_result (redeem_check sha hub now r2 st) (\<lambda>n2.
     bind_result (redeem_admit hub now r1 n1 st) (\<lambda>(m1, st1).
     bind_result (redeem_admit hub now r2 n2 st1) (\<lambda>(m2, st2).
     bind_result (redeem_mark sha add now r1 m1 st2) (\<lambda>st3.
     bind_result (redeem_mark sha add now r2 m2 st3) (\<lambda>st4. Inr (m1, m2, st4)))))))"

definition example_hub :: HubConfig where
  "example_hub = \<lparr>hub_IsMember = False, hub_FleetName = ''f'', hub_TunnelUp = True,
     hub_Self = \<lparr>m_Name = ''h'', m_Role = RoleHub, m_PublicKey = ''k'', m_Subnet = InvalidPrefix, m_Arch = ''a'', m_OS = ''l'',
       m_Endpoint = [], m_Private = False, m_JoinedAt = 0, m_LastSeen = 0, m_Gauge = None, m_Envs = 0\<rparr>\<rparr>"

definition example_request :: "string \<Rightarrow> string \<Rightarrow> RedeemRequest" where
  "example_request name key = \<lparr>rq_Secret = ''s'', rq_Fleet = [], rq_Name = name, rq_PublicKey = key, rq_Arch = ''a'', rq_OS = ''l'',
     rq_Private = False, rq_Endpoint = []\<rparr>"

definition example_hub_state :: HubState where
  "example_hub_state = \<lparr>hs_tokens = [\<lparr>tk_Hash = ''s'', tk_CreatedBy = ''c'', tk_CreatedAt = 1, tk_ExpiresAt = 9,
     tk_UsedBy = [], tk_UsedAt = 0\<rparr>], hs_machines = []\<rparr>"

definition example_member :: "string \<Rightarrow> string \<Rightarrow> 32 word \<Rightarrow> Machine" where
  "example_member name key net = \<lparr>m_Name = name, m_Role = RoleMember, m_PublicKey = key, m_Subnet = Prefix4 net 16, m_Arch = ''a'',
     m_OS = ''l'', m_Endpoint = [], m_Private = False, m_JoinedAt = 5, m_LastSeen = 5, m_Gauge = None, m_Envs = 0\<rparr>"

definition example_hub_row :: Machine where
  "example_hub_row = (hub_Self example_hub)\<lparr>m_Subnet := HubSubnet, m_JoinedAt := 5, m_LastSeen := 5\<rparr>"

lemma example_strings:
  "TrimSpace ''a'' = ''a''" "TrimSpace ''b'' = ''b''" "TrimSpace ''p'' = ''p''" "TrimSpace ''q'' = ''q''" "TrimSpace ''s'' = ''s''"
  "TrimSpace ''k'' = ''k''" "TrimSpace ''h'' = ''h''"
  "TrimSpace [] = []" "machineSlug ''a'' = ''a''" "machineSlug ''b'' = ''b''" "NormaliseArch ''a'' = ''a''"
  "ParseRole ''member'' = Inr RoleMember"
  by code_simp+

lemma example_check:
  "redeem_check (\<lambda>x. x) example_hub 5 (example_request ''a'' ''p'') example_hub_state = Inr ''a''"
  "redeem_check (\<lambda>x. x) example_hub 5 (example_request ''b'' ''q'') example_hub_state = Inr ''b''"
  by (simp_all add: redeem_check_def example_hub_def example_request_def example_hub_state_def example_strings
    blank_def Hash_def JoinToken_def token_Check_def token_Used_def token_Expired_def)

lemmas admit_defs = Let_def redeem_admit_def ensureHubRow_def admitMember_def Find_def PutFleetMachine_def
  FleetMachine_row_def clashes_def merged_row_def TakenSubnets_def AllocateSubnet_def used_subnet_def
  Machine_Validate_def fleet_Contains_def IsHub_def blank_def top_bits_def prefix_word_def HubSubnet_def Range_def Subnets_list

lemmas example_defs = example_hub_def example_request_def example_hub_state_def example_member_def example_hub_row_def

lemma example_admit1:
  "redeem_admit example_hub 5 (example_request ''a'' ''p'') ''a'' example_hub_state =
     Inr (example_member ''a'' ''p'' 0x0A500000,
          example_hub_state\<lparr>hs_machines := [example_hub_row, example_member ''a'' ''p'' 0x0A500000]\<rparr>)"
  by (simp add: admit_defs example_defs example_strings)

lemma example_admit2:
  "redeem_admit example_hub 5 (example_request ''b'' ''q'') ''b''
       (example_hub_state\<lparr>hs_machines := [example_hub_row, example_member ''a'' ''p'' 0x0A500000]\<rparr>) =
     Inr (example_member ''b'' ''q'' 0x0A510000,
          example_hub_state\<lparr>hs_machines := [example_hub_row, example_member ''a'' ''p'' 0x0A500000,
            example_member ''b'' ''q'' 0x0A510000]\<rparr>)"
  by (simp add: admit_defs example_defs example_strings)



end
