(* ===== verification/VpnAddr.thy ===== *)
theory VpnAddr
  imports GoStrings NetPrefix
begin

text \<open>
  The addresses of a machine's private network (\<^verbatim>\<open>internal/vpn/addr.go\<close>): the machine, its peers and its
  environments each have a part of the machine's subnet, and a free address of a part is found by trying one after
  the other. Parsing an address or a prefix is an argument. The ledger of allocated addresses is the outcome of
  its \<^verbatim>\<open>TakenVPNIPs\<close> call: \<open>None\<close> for a nil ledger, \<open>Some None\<close> for a failing one. \<^verbatim>\<open>As4\<close> panics on an address that is
  not IPv4; the value \<open>InvalidAddr\<close> of \<open>offset\<close> stands for that and cannot be met with a subnet \<open>Subnet\<close> accepted.
\<close>

abbreviation (input) machineOffset :: "32 word" where "machineOffset \<equiv> 1"
abbreviation (input) peerFirstOff :: "32 word" where "peerFirstOff \<equiv> 2"
abbreviation (input) peerLastOff :: "32 word" where "peerLastOff \<equiv> 254"
abbreviation (input) envFirstOffset :: "32 word" where "envFirstOffset \<equiv> 257"

datatype vpn_error =
    BadCIDR string | SubnetNotIPv4 string | SubnetTooSmall string | NoLedger | LedgerFailed | BadAllocated string
  | VpnExhausted Addr Addr

definition Subnet :: "(string \<Rightarrow> Prefix option) \<Rightarrow> string \<Rightarrow> vpn_error + Prefix" where
  "Subnet parse cidr =
     (case parse cidr of
        None \<Rightarrow> Inl (BadCIDR cidr)
      | Some p0 \<Rightarrow>
          let p = prefix_Masked p0
          in if \<not> addr_Is4 (prefix_Addr p) then Inl (SubnetNotIPv4 cidr)
             else if prefix_Bits p > 23 then Inl (SubnetTooSmall cidr)
             else Inr p)"

fun offset :: "Prefix \<Rightarrow> 32 word \<Rightarrow> Addr" where
  "offset (Prefix4 base bits) n = Addr4 (base + n)"
| "offset _ n = InvalidAddr"

definition subnet_size :: "Prefix \<Rightarrow> 32 word" where
  "subnet_size p = push_bit (nat (32 - prefix_Bits p)) 1"

definition MachineIP :: "Prefix \<Rightarrow> Addr" where
  "MachineIP p = offset p machineOffset"

definition PeerRange :: "Prefix \<Rightarrow> Addr \<times> Addr" where
  "PeerRange p = (offset p peerFirstOff, offset p peerLastOff)"

definition EnvRange :: "Prefix \<Rightarrow> Addr \<times> Addr" where
  "EnvRange p = (offset p envFirstOffset, offset p (subnet_size p - 2))"

record RangeAllocator =
  ra_Subnet :: Prefix
  ra_Ledger :: "string list option option"

fun parse_taken :: "(string \<Rightarrow> Addr option) \<Rightarrow> string list \<Rightarrow> vpn_error + Addr list" where
  "parse_taken parse [] = Inr []"
| "parse_taken parse (s # ss) =
     (if s = [] then parse_taken parse ss
      else (case parse s of
              None \<Rightarrow> Inl (BadAllocated s)
            | Some ip \<Rightarrow> bind_result (parse_taken parse ss) (\<lambda>ips. Inr (ip # ips))))"

definition ra_taken :: "(string \<Rightarrow> Addr option) \<Rightarrow> RangeAllocator \<Rightarrow> vpn_error + Addr list" where
  "ra_taken parse a =
     (case ra_Ledger a of
        None \<Rightarrow> Inl NoLedger
      | Some None \<Rightarrow> Inl LedgerFailed
      | Some (Some ips) \<Rightarrow> bind_result (parse_taken parse ips) (\<lambda>ips. Inr (MachineIP (ra_Subnet a) # ips)))"

text \<open>The loop of \<^verbatim>\<open>free\<close>. The address after the last one of IPv4 is the invalid address, which is before every other.\<close>

function free_from :: "Addr list \<Rightarrow> 32 word \<Rightarrow> 32 word \<Rightarrow> Addr option" where
  "free_from used ip final =
     (if \<not> ip \<le> final then None
      else if Addr4 ip \<notin> set used then Some (Addr4 ip)
      else if ip = - 1 then Some InvalidAddr
      else free_from used (ip + 1) final)"
  by pat_completeness auto
termination
proof (relation "measure (\<lambda>(used, ip, final). 2 ^ 32 - unat ip)")
  fix used :: "Addr list" and ip final :: "32 word"
  assume "ip \<noteq> - 1"
  then have "1 + ip \<noteq> 0" by (metis add_eq_0_iff)
  then have "unat (ip + 1) = Suc (unat ip)" using unatSuc[of ip] by (simp add: add.commute)
  moreover have "unat ip < 2 ^ 32" using unsigned_less[of ip] by simp
  ultimately show "((used, ip + 1, final), used, ip, final) \<in> measure (\<lambda>(used, ip, final). 2 ^ 32 - unat ip)" by simp
qed simp

declare free_from.simps [simp del]

definition range_free :: "(string \<Rightarrow> Addr option) \<Rightarrow> RangeAllocator \<Rightarrow> Addr \<times> Addr \<Rightarrow> vpn_error + Addr" where
  "range_free parse a r =
     bind_result (ra_taken parse a) (\<lambda>used.
       case r of
         (Addr4 first, Addr4 final) \<Rightarrow>
           (case free_from used first final of
              None \<Rightarrow> Inl (VpnExhausted (Addr4 first) (Addr4 final))
            | Some ip \<Rightarrow> Inr ip)
       | _ \<Rightarrow> Inr InvalidAddr)"

definition AllocatePeer :: "(string \<Rightarrow> Addr option) \<Rightarrow> RangeAllocator \<Rightarrow> vpn_error + Addr" where
  "AllocatePeer parse a = range_free parse a (PeerRange (ra_Subnet a))"

definition AllocateEnv :: "(string \<Rightarrow> Addr option) \<Rightarrow> RangeAllocator \<Rightarrow> vpn_error + Addr" where
  "AllocateEnv parse a = range_free parse a (EnvRange (ra_Subnet a))"

section \<open>The loop is a first fit\<close>

text \<open>The addresses the loop tries, in order.\<close>

definition range_addrs :: "32 word \<Rightarrow> 32 word \<Rightarrow> Addr list" where
  "range_addrs first final =
     map (\<lambda>n. Addr4 (word_of_nat n)) [unat first..<Suc (unat final)] @ (if final = - 1 then [InvalidAddr] else [])"

definition addr_used :: "Addr list \<Rightarrow> Addr \<Rightarrow> bool" where
  "addr_used used ip \<longleftrightarrow> ip \<in> set used \<and> ip \<noteq> InvalidAddr"

lemma unat_next: "ip \<noteq> - 1 \<Longrightarrow> unat (ip + 1) = Suc (unat ip)" for ip :: "32 word"
  using unatSuc[of ip] by (metis add.commute add_eq_0_iff)

lemma free_from_find: "free_from used ip final = find (\<lambda>c. \<not> addr_used used c) (range_addrs ip final)"
proof (induction used ip final rule: free_from.induct)
  case (1 used ip final)
  show ?case
  proof (cases "ip \<le> final")
    case False
    then have "final \<noteq> - 1" "\<not> unat ip \<le> unat final" using word_order.extremum[of ip] by (auto simp: word_le_nat_alt)
    then show ?thesis using False by (subst free_from.simps) (simp add: range_addrs_def)
  next
    case True
    then have "unat ip \<le> unat final" by (simp add: word_le_nat_alt)
    then have cons: "range_addrs ip final = Addr4 ip #
        map (\<lambda>n. Addr4 (word_of_nat n)) [Suc (unat ip)..<Suc (unat final)] @ (if final = - 1 then [InvalidAddr] else [])"
      by (simp add: range_addrs_def upt_conv_Cons del: upt_Suc)
    consider (free) "Addr4 ip \<notin> set used" | (over) "Addr4 ip \<in> set used" "ip = - 1" | (go) "Addr4 ip \<in> set used" "ip \<noteq> - 1"
      by blast
    then show ?thesis
    proof cases
      case free
      then show ?thesis using True unfolding cons by (subst free_from.simps) (simp add: addr_used_def)
    next
      case over
      then have "final = - 1" using True by (simp add: word_order.extremum_unique)
      then show ?thesis using over unfolding cons by (subst free_from.simps) (simp add: addr_used_def)
    next
      case go
      then have "range_addrs ip final = Addr4 ip # range_addrs (ip + 1) final"
        unfolding cons by (simp add: range_addrs_def unat_next del: upt_Suc)
      moreover have "free_from used ip final = free_from used (ip + 1) final"
        using go True by (subst free_from.simps) simp
      ultimately show ?thesis using 1 go True by (simp add: addr_used_def)
    qed
  qed
qed

interpretation addresses: first_fit "\<lambda>(used, first, final). range_addrs first final"
  "\<lambda>(used, first, final). addr_used used" "\<lambda>(used, first, final). free_from used first final"
  by unfold_locales (auto simp: free_from_find)

section \<open>The parts of a subnet\<close>

text \<open>The \<open>n\<close>-th address of a subnet, and the numbers of the peers' and of the environments' part.\<close>

definition nth_addr :: "Prefix \<Rightarrow> nat \<Rightarrow> Addr" where
  "nth_addr p n = offset p (word_of_nat n)"

definition subnet_count :: "Prefix \<Rightarrow> nat" where
  "subnet_count p = 2 ^ nat (32 - prefix_Bits p)"

abbreviation peer_numbers :: "nat set" where
  "peer_numbers \<equiv> {2..254}"

definition env_numbers :: "Prefix \<Rightarrow> nat set" where
  "env_numbers p = {257..subnet_count p - 2}"

lemma Subnet_Inr:
  assumes "Subnet parse cidr = Inr p"
  obtains a b where "p = Prefix4 a b" "b \<le> 23" "top_bits 32 b a = a"
proof -
  obtain p0 where p0: "p = prefix_Masked p0" "addr_Is4 (prefix_Addr p)" "prefix_Bits p \<le> 23"
    using assms by (auto simp: Subnet_def Let_def split: option.splits if_splits)
  then obtain a b where "p0 = Prefix4 a b" by (cases p0) auto
  with p0 that show thesis by simp
qed

text \<open>A masked base leaves room for every number of the subnet.\<close>

lemma masked_base:
  assumes "top_bits 32 b a = (a :: 32 word)" "b \<le> 32"
  shows "2 ^ (32 - b) dvd unat a" "unat a + 2 ^ (32 - b) \<le> 2 ^ 32"
proof -
  have "take_bit (32 - b) a = 0"
    by (subst assms(1)[symmetric], rule bit_word_eqI) (simp add: bit_simps bit_top_bits)
  then have "unat a mod 2 ^ (32 - b) = 0" by (metis take_bit_eq_mod unsigned_0 unsigned_take_bit_eq)
  then obtain k where k: "unat a = 2 ^ (32 - b) * k" by (metis mod_0_imp_dvd dvdE)
  then show "2 ^ (32 - b) dvd unat a" by simp
  have "unat a < 2 ^ 32" using unsigned_less[of a] by simp
  also have "(2 :: nat) ^ 32 = 2 ^ (32 - b) * 2 ^ b" using assms(2) by (simp flip: power_add)
  finally have "k < 2 ^ b" using k by simp
  then have "2 ^ (32 - b) * Suc k \<le> 2 ^ (32 - b) * 2 ^ b" by (intro mult_le_mono2) simp
  also have "2 ^ (32 - b) * 2 ^ b = (2 :: nat) ^ 32" using assms(2) by (simp flip: power_add)
  finally show "unat a + 2 ^ (32 - b) \<le> 2 ^ 32" using k by simp
qed

lemma unat_offset:
  assumes "top_bits 32 b a = (a :: 32 word)" "b \<le> 32" "n < 2 ^ (32 - b)"
  shows "unat (a + word_of_nat n) = unat a + n"
proof -
  have "unat a + n < 2 ^ 32" using masked_base(2)[OF assms(1,2)] assms(3) by simp
  then show ?thesis by (simp add: unat_word_ariths unat_of_nat)
qed

lemma nth_addr_contained:
  assumes "top_bits 32 b a = (a :: 32 word)" "b \<le> 32" "n < 2 ^ (32 - b)"
  shows "prefix_Contains (Prefix4 a b) (nth_addr (Prefix4 a b) n)"
proof -
  obtain k where k: "unat a = 2 ^ (32 - b) * k" using masked_base(1)[OF assms(1,2)] by blast
  have "unat (drop_bit (32 - b) (a + word_of_nat n)) = unat (drop_bit (32 - b) a)"
    unfolding unat_drop_bit_eq unat_offset[OF assms] k using assms(3) by (simp add: drop_bit_eq_div)
  then have "drop_bit (32 - b) (a + word_of_nat n) = drop_bit (32 - b) a" by (simp add: word_unat_eq_iff)
  then show ?thesis using assms(2) by (simp add: nth_addr_def top_bits_def)
qed

lemma nth_addr_inj:
  assumes "top_bits 32 b a = (a :: 32 word)" "b \<le> 32" "m < 2 ^ (32 - b)" "n < 2 ^ (32 - b)"
  shows "nth_addr (Prefix4 a b) m = nth_addr (Prefix4 a b) n \<longleftrightarrow> m = n"
proof
  assume "nth_addr (Prefix4 a b) m = nth_addr (Prefix4 a b) n"
  then have "unat (a + word_of_nat m) = unat (a + word_of_nat n)" unfolding nth_addr_def offset.simps Addr.inject by (rule arg_cong)
  then show "m = n" unfolding unat_offset[OF assms(1,2,3)] unat_offset[OF assms(1,2,4)] by simp
qed simp

lemma range_addrs_nth_addr:
  assumes "top_bits 32 b a = (a :: 32 word)" "b \<le> 32" "i \<le> j" "j + 2 \<le> 2 ^ (32 - b)"
  shows "range_addrs (a + word_of_nat i) (a + word_of_nat j) = map (nth_addr (Prefix4 a b)) [i..<Suc j]"
proof -
  have u: "unat (a + word_of_nat i) = unat a + i" "unat (a + word_of_nat j) = unat a + j"
    using assms by (auto intro!: unat_offset)
  have "unat (a + word_of_nat j) \<noteq> unat (- 1 :: 32 word)"
    using masked_base(2)[OF assms(1,2)] assms(4) by (simp add: u(2) unsigned_minus_1_eq_mask mask_eq_exp_minus_1)
  then have "a + word_of_nat j \<noteq> - 1" by metis
  then have "range_addrs (a + word_of_nat i) (a + word_of_nat j) =
      map (\<lambda>n. Addr4 (word_of_nat n)) [unat a + i..<unat a + Suc j]"
    by (simp add: range_addrs_def u del: upt_Suc)
  also have "\<dots> = map (nth_addr (Prefix4 a b)) [i..<Suc j]"
    by (intro nth_equalityI) (simp_all add: nth_addr_def ac_simps del: upt_Suc)
  finally show ?thesis .
qed

lemma env_range:
  assumes "b \<le> 23"
  shows "subnet_size (Prefix4 a b) - 2 = word_of_nat (2 ^ (32 - b) - 2)" "512 \<le> (2 :: nat) ^ (32 - b)"
proof -
  have "(2 :: nat) ^ 9 \<le> 2 ^ (32 - b)" using assms by (intro power_increasing) simp_all
  then show big: "512 \<le> (2 :: nat) ^ (32 - b)" by simp
  have n: "nat (32 - int b) = 32 - b" by simp
  have "subnet_size (Prefix4 a b) = word_of_nat (2 ^ (32 - b))"
    by (simp add: subnet_size_def n push_bit_eq_mult)
  then show "subnet_size (Prefix4 a b) - 2 = word_of_nat (2 ^ (32 - b) - 2)" using big by (simp add: of_nat_diff)
qed

text \<open>What a search of the numbers from \<open>i\<close> to \<open>j\<close> gives.\<close>

lemma range_free_nth_addr:
  assumes "top_bits 32 b a = (a :: 32 word)" "b \<le> 32" "1 < i" "i \<le> j" "j + 2 \<le> 2 ^ (32 - b)"
    and "ra_Subnet r = Prefix4 a b" "ra_Ledger r = Some (Some ips)" "parse_taken parse ips = Inr used"
  shows "range_free parse r (nth_addr (Prefix4 a b) i, nth_addr (Prefix4 a b) j) = Inr ip \<longleftrightarrow>
    (\<exists>n \<in> {i..j}. ip = nth_addr (Prefix4 a b) n \<and> ip \<notin> set used \<and> (\<forall>m \<in> {i..<n}. nth_addr (Prefix4 a b) m \<in> set used))"
proof -
  let ?p = "Prefix4 a b" and ?machine = "nth_addr (Prefix4 a b) 1"
  have machine: "nth_addr ?p n \<noteq> ?machine" if "n \<in> {i..j}" for n
    using that assms(3,5) nth_addr_inj[OF assms(1,2), of n 1] by simp
  have nb: "nth_addr ?p n = Addr4 (a + word_of_nat n)" for n by (simp add: nth_addr_def)
  then have valid: "nth_addr ?p n \<noteq> InvalidAddr" for n by simp
  have "MachineIP ?p = ?machine" by (simp add: MachineIP_def nth_addr_def)
  have "range_free parse r (nth_addr ?p i, nth_addr ?p j) = Inr ip \<longleftrightarrow>
      find (\<lambda>c. \<not> addr_used (?machine # used) c) (map (nth_addr ?p) [i..<Suc j]) = Some ip"
    using assms(6-8) by (simp add: range_free_def ra_taken_def free_from_find nb[of i] nb[of j] \<open>MachineIP ?p = ?machine\<close>
        range_addrs_nth_addr[OF assms(1,2,4,5)] del: upt_Suc split: option.splits)
  also have "\<dots> \<longleftrightarrow> (\<exists>n \<in> {i..j}. ip = nth_addr ?p n \<and> ip \<notin> set used \<and> (\<forall>m \<in> {i..<n}. nth_addr ?p m \<in> set used))"
    (is "?l \<longleftrightarrow> ?r")
  proof
    assume ?l
    then obtain k where k: "k < Suc j - i" "ip = nth_addr ?p (i + k)" "\<not> addr_used (?machine # used) ip"
        and before: "\<And>m. m < k \<Longrightarrow> addr_used (?machine # used) (nth_addr ?p (i + m))"
      by (auto simp: find_Some_iff simp del: upt_Suc)
    have "nth_addr ?p m \<in> set used" if "m \<in> {i..<i + k}" for m
    proof -
      have "m - i < k" "m \<in> {i..j}" using that k(1) by auto
      then show ?thesis using before[of "m - i"] that machine[of m] by (simp add: addr_used_def)
    qed
    then show ?r using k valid by (intro bexI[of _ "i + k"]) (auto simp: addr_used_def)
  next
    assume ?r
    then obtain n where n: "n \<in> {i..j}" "ip = nth_addr ?p n" "ip \<notin> set used" "\<forall>m \<in> {i..<n}. nth_addr ?p m \<in> set used"
      by blast
    then show ?l using machine[of n] valid by (auto simp: find_Some_iff addr_used_def simp del: upt_Suc intro!: exI[of _ "n - i"])
  qed
  finally show ?thesis .
qed

text \<open>C24: the addresses of a machine's network never clash. In a subnet that was accepted, an environment gets the
  lowest free number from 257 to the last but one address and a peer the lowest free number from 2 to 254, and neither
  ever gets an address that is taken; all these addresses lie in the subnet, none is the machine's own, and
  no address can be both a peer's and an environment's.\<close>

theorem vpn_addresses_apart:
  assumes "Subnet parsep cidr = Inr p" "ra_Subnet r = p" "ra_Ledger r = Some (Some ips)" "parse_taken parse ips = Inr used"
  shows "(AllocateEnv parse r = Inr ip \<longleftrightarrow> (\<exists>n \<in> env_numbers p. ip = nth_addr p n \<and> ip \<notin> set used \<and>
        (\<forall>m \<in> {257..<n}. nth_addr p m \<in> set used))) \<and>
    (AllocatePeer parse r = Inr ip' \<longleftrightarrow> (\<exists>n \<in> peer_numbers. ip' = nth_addr p n \<and> ip' \<notin> set used \<and>
        (\<forall>m \<in> {2..<n}. nth_addr p m \<in> set used))) \<and>
    (\<forall>n \<in> env_numbers p \<union> peer_numbers. prefix_Contains p (nth_addr p n) \<and> nth_addr p n \<noteq> MachineIP p) \<and>
    (\<forall>n \<in> env_numbers p. \<forall>m \<in> peer_numbers. nth_addr p n \<noteq> nth_addr p m)"
proof -
  obtain a b where p: "p = Prefix4 a b" and b: "b \<le> 23" and a: "top_bits 32 b a = a"
    using Subnet_Inr[OF assms(1)] .
  note big = env_range(2)[OF b] and le = le_trans[OF b, of 32, simplified]
  have count: "subnet_count p = 2 ^ (32 - b)" by (simp add: subnet_count_def p nat_diff_distrib)
  have size: "EnvRange p = (nth_addr p 257, nth_addr p (subnet_count p - 2))"
    "PeerRange p = (nth_addr p 2, nth_addr p 254)" "MachineIP p = nth_addr p 1"
    using env_range(1)[OF b, of a] by (simp_all add: EnvRange_def PeerRange_def MachineIP_def nth_addr_def count[unfolded p] p)
  have small: "n < 2 ^ (32 - b)" if "n \<in> env_numbers p \<union> peer_numbers \<union> {1}" for n
    using that big by (auto simp: env_numbers_def count)
  have inj: "nth_addr p n = nth_addr p m \<longleftrightarrow> n = m"
    if "n \<in> env_numbers p \<union> peer_numbers \<union> {1}" "m \<in> env_numbers p \<union> peer_numbers \<union> {1}" for n m
    unfolding p using nth_addr_inj[OF a le small[OF that(1)] small[OF that(2)]] .
  have env: "AllocateEnv parse r = Inr ip \<longleftrightarrow> (\<exists>n \<in> env_numbers p. ip = nth_addr p n \<and> ip \<notin> set used \<and>
        (\<forall>m \<in> {257..<n}. nth_addr p m \<in> set used))"
    using range_free_nth_addr[OF a le _ _ _ assms(2)[unfolded p] assms(3,4), of 257 "subnet_count p - 2" ip] big
    by (simp add: AllocateEnv_def assms(2) size env_numbers_def count flip: p)
  have peer: "AllocatePeer parse r = Inr ip' \<longleftrightarrow> (\<exists>n \<in> peer_numbers. ip' = nth_addr p n \<and> ip' \<notin> set used \<and>
        (\<forall>m \<in> {2..<n}. nth_addr p m \<in> set used))"
    using range_free_nth_addr[OF a le _ _ _ assms(2)[unfolded p] assms(3,4), of 2 254 ip'] big
    by (simp add: AllocatePeer_def assms(2) size flip: p)
  have own: "prefix_Contains p (nth_addr p n) \<and> nth_addr p n \<noteq> MachineIP p" if "n \<in> env_numbers p \<union> peer_numbers" for n
  proof -
    have "prefix_Contains p (nth_addr p n)" unfolding p using nth_addr_contained[OF a le small] that by blast
    moreover have "n \<noteq> 1" using that by (auto simp: env_numbers_def)
    ultimately show ?thesis using inj[of n 1] that by (simp add: size(3))
  qed
  have "nth_addr p n \<noteq> nth_addr p m" if "n \<in> env_numbers p" "m \<in> peer_numbers" for n m
    using inj[of n m] that by (auto simp: env_numbers_def)
  with env peer own show ?thesis by blast
qed

text \<open>\<^verbatim>\<open>10.86.0.0/16\<close> with its first environment's address taken.\<close>

definition example_ranges :: RangeAllocator where
  "example_ranges = \<lparr>ra_Subnet = Prefix4 0x0A560000 16, ra_Ledger = Some (Some [''x''])\<rparr>"

theorem vpn_addresses_apart_witness:
  "AllocateEnv (\<lambda>_. Some (Addr4 0x0A560101)) example_ranges = Inr (Addr4 0x0A560102) \<and>
   AllocatePeer (\<lambda>_. Some (Addr4 0x0A560101)) example_ranges = Inr (Addr4 0x0A560002)"
proof -
  let ?p = "Prefix4 0x0A560000 16 :: Prefix" and ?parse = "\<lambda>_. Some (Addr4 0x0A560101)"
  have s: "Subnet (\<lambda>_. Some ?p) [] = Inr ?p" by (simp add: Subnet_def top_bits_def)
  have r: "ra_Subnet example_ranges = ?p" "ra_Ledger example_ranges = Some (Some [''x''])"
      "parse_taken ?parse [''x''] = Inr [Addr4 0x0A560101]"
    by (simp_all add: example_ranges_def)
  have n: "nth_addr ?p 258 = Addr4 0x0A560102" "nth_addr ?p 257 = Addr4 0x0A560101" "nth_addr ?p 2 = Addr4 0x0A560002"
    by (simp_all add: nth_addr_def)
  have "258 \<in> env_numbers ?p" by (simp add: env_numbers_def subnet_count_def)
  moreover have "{257..<258} = {257 :: nat}" by auto
  ultimately have "\<exists>n \<in> env_numbers ?p. Addr4 0x0A560102 = nth_addr ?p n \<and> Addr4 0x0A560102 \<notin> set [Addr4 0x0A560101] \<and>
      (\<forall>m \<in> {257..<n}. nth_addr ?p m \<in> set [Addr4 0x0A560101])"
    by (intro bexI[of _ 258]) (simp_all add: n)
  moreover have "\<exists>n \<in> peer_numbers. Addr4 0x0A560002 = nth_addr ?p n \<and> Addr4 0x0A560002 \<notin> set [Addr4 0x0A560101] \<and>
      (\<forall>m \<in> {2..<n}. nth_addr ?p m \<in> set [Addr4 0x0A560101])"
    by (intro bexI[of _ 2]) (simp_all add: n)
  ultimately show ?thesis
    using vpn_addresses_apart[OF s r, of "Addr4 0x0A560102" "Addr4 0x0A560002"] by blast
qed

end
