(* ===== verification/VpnZone.thy ===== *)
theory VpnZone
  imports GoStrings NetPrefix
begin

text \<open>
  The names of the private network (\<^verbatim>\<open>internal/vpn/names.go\<close>) and the resolver that answers for them
  (\<^verbatim>\<open>internal/vpn/resolver.go\<close>). A zone is an association list from names to addresses. The forwarder for names the zone
  does not have is part of the resolver; its errors are texts. The wire format of DNS is the code of a library and is
  not modelled.
\<close>

section \<open>Names\<close>

definition Domain :: string where
  "Domain = ''internal''"

definition Suffix :: string where
  "Suffix = ''.'' @ Domain"

definition EnvHost :: "string \<Rightarrow> string \<Rightarrow> string" where
  "EnvHost app env = JoinWith [env, app, Domain] ''.''"

definition ServiceHost :: "string \<Rightarrow> string \<Rightarrow> string \<Rightarrow> string" where
  "ServiceHost app env name = JoinWith [name, env, app, Domain] ''.''"

definition MachineHost :: "string \<Rightarrow> string" where
  "MachineHost machine = JoinWith [machine, Domain] ''.''"

definition EnvHosts :: "string \<Rightarrow> string \<Rightarrow> string list \<Rightarrow> string list" where
  "EnvHosts app env names = EnvHost app env # map (ServiceHost app env) names"

definition Normalize :: "string \<Rightarrow> string" where
  "Normalize name = ToLower (TrimSuffix (TrimSpace name) ''.'')"

definition IsInternal :: "string \<Rightarrow> bool" where
  "IsInternal name \<longleftrightarrow> (let n = Normalize name in n \<noteq> [] \<and> n \<noteq> Domain \<and> HasSuffix n Suffix)"

section \<open>The resolver\<close>

datatype AddressKind = KindMachine | KindPeer | KindEnv

record Address =
  ad_IP :: Addr
  ad_Kind :: AddressKind
  ad_Owner :: string
  ad_Names :: "string list"

text \<open>The order of \<^verbatim>\<open>netip.Addr.Compare\<close>: the invalid address, then IPv4, then IPv6.\<close>

fun addr_key :: "Addr \<Rightarrow> nat" where
  "addr_key InvalidAddr = 0"
| "addr_key (Addr4 a) = 1 + unat a"
| "addr_key (Addr6 a) = 1 + 2 ^ 32 + unat a"

definition sortAddresses :: "Address list \<Rightarrow> Address list" where
  "sortAddresses addrs = sort_key (\<lambda>a. addr_key (ad_IP a)) addrs"

type_synonym zone = "(string \<times> Addr list) list"

record ZoneResolver =
  zr_zone :: zone
  zr_forward :: "(string \<Rightarrow> string + Addr list) option"

datatype zone_error = NotAnAddress string | OutsideZone string | NXDomain string | ForwardError string

definition NewResolver :: ZoneResolver where
  "NewResolver = \<lparr>zr_zone = [], zr_forward = None\<rparr>"

definition zone_at :: "zone \<Rightarrow> string \<Rightarrow> Addr list" where
  "zone_at z n = (case map_of z n of None \<Rightarrow> [] | Some ips \<Rightarrow> ips)"

fun zone_names :: "Addr \<Rightarrow> string list \<Rightarrow> zone \<Rightarrow> zone_error + zone" where
  "zone_names ip [] z = Inr z"
| "zone_names ip (n # ns) z =
     (let name = Normalize n
      in if name = [] then zone_names ip ns z
         else if \<not> IsInternal name then Inl (OutsideZone n)
         else zone_names ip ns (AList.update name (zone_at z name @ [ip]) z))"

fun zone_addrs :: "Address list \<Rightarrow> zone \<Rightarrow> zone_error + zone" where
  "zone_addrs [] z = Inr z"
| "zone_addrs (a # as) z =
     (if ad_IP a = InvalidAddr then Inl (NotAnAddress (ad_Owner a))
      else bind_result (zone_names (ad_IP a) (ad_Names a) z) (\<lambda>z'. zone_addrs as z'))"

definition SetZone :: "Address list \<Rightarrow> ZoneResolver \<Rightarrow> zone_error + ZoneResolver" where
  "SetZone addrs r = bind_result (zone_addrs (sortAddresses addrs) []) (\<lambda>z. Inr (r\<lparr>zr_zone := z\<rparr>))"

definition SetForwarder :: "(string \<Rightarrow> string + Addr list) option \<Rightarrow> ZoneResolver \<Rightarrow> ZoneResolver" where
  "SetForwarder f r = r\<lparr>zr_forward := f\<rparr>"

definition zone_Resolve :: "ZoneResolver \<Rightarrow> string \<Rightarrow> zone_error + Addr list" where
  "zone_Resolve r name =
     (let n = Normalize name
      in if \<not> IsInternal n then Inl (NXDomain name)
         else if zone_at (zr_zone r) n \<noteq> [] then Inr (zone_at (zr_zone r) n)
         else (case zr_forward r of
                 None \<Rightarrow> Inl (NXDomain name)
               | Some fwd \<Rightarrow>
                   (case fwd n of
                      Inl e \<Rightarrow> Inl (ForwardError e)
                    | Inr up \<Rightarrow> if up = [] then Inl (NXDomain name) else Inr up)))"

definition zone_Names :: "ZoneResolver \<Rightarrow> string list" where
  "zone_Names r = sort (map fst (zr_zone r))"

section \<open>What a zone holds\<close>

text \<open>The addresses whose names, normalized, are \<open>n\<close>: one for every such name.\<close>

definition addrs_of :: "Address list \<Rightarrow> string \<Rightarrow> Addr list" where
  "addrs_of as n = concat (map (\<lambda>a. map (\<lambda>_. ad_IP a) (filter (\<lambda>x. Normalize x = n) (ad_Names a))) as)"

definition zone_ok :: "Address list \<Rightarrow> bool" where
  "zone_ok as \<longleftrightarrow> (\<forall>a \<in> set as. ad_IP a \<noteq> InvalidAddr \<and> (\<forall>x \<in> set (ad_Names a). Normalize x = [] \<or> IsInternal (Normalize x)))"

lemma zone_at_update [simp]: "zone_at (AList.update k v z) n = (if n = k then v else zone_at z n)"
  by (simp add: zone_at_def update_conv')

lemma zone_names_Inr:
  "(\<exists>z'. zone_names ip ns z = Inr z') \<longleftrightarrow> (\<forall>x \<in> set ns. Normalize x = [] \<or> IsInternal (Normalize x))"
  "zone_names ip ns z = Inr z' \<Longrightarrow> n \<noteq> [] \<Longrightarrow>
     zone_at z' n = zone_at z n @ map (\<lambda>_. ip) (filter (\<lambda>x. Normalize x = n) ns)"
  by (induction ip ns z rule: zone_names.induct) (auto simp: Let_def split: if_splits)

lemma zone_addrs_Inr:
  "(\<exists>z'. zone_addrs as z = Inr z') \<longleftrightarrow> zone_ok as"
  "zone_addrs as z = Inr z' \<Longrightarrow> n \<noteq> [] \<Longrightarrow> zone_at z' n = zone_at z n @ addrs_of as n"
proof (induction as z rule: zone_addrs.induct)
  case (2 a as z)
  {
    case 1
    show ?case
      using 2(1) zone_names_Inr(1)[of "ad_IP a" "ad_Names a" z]
      by (cases "zone_names (ad_IP a) (ad_Names a) z") (auto simp: zone_ok_def)
  next
    case 2
    then obtain z1 where "zone_names (ad_IP a) (ad_Names a) z = Inr z1" "zone_addrs as z1 = Inr z'"
      by (auto simp: bind_result_Inr split: if_splits)
    then show ?case using "2.IH"(2)[of z1] 2 zone_names_Inr(2)[of "ad_IP a" "ad_Names a" z z1 n]
      by (simp add: addrs_of_def split: if_splits)
  }
qed (simp_all add: zone_ok_def addrs_of_def)

end
