(* ===== verification/EnvNames.thy ===== *)
theory EnvNames
  imports GoStrings
begin

text \<open>
  The names an environment's things have on a machine (\<^verbatim>\<open>internal/env/names.go\<close>) and the number of a replica in
  the name of its container (\<^verbatim>\<open>internal/env/replica.go\<close>, \<^verbatim>\<open>replicas.go\<close>). The pattern of a slug is written out.
  Paths are not modelled.
\<close>

section \<open>Slugs\<close>

abbreviation (input) MaxSlugLen :: nat where
  "MaxSlugLen \<equiv> 32"

definition ValidSlug :: "string \<Rightarrow> bool" where
  "ValidSlug s \<longleftrightarrow> (case s of [] \<Rightarrow> False
     | c # cs \<Rightarrow> (is_lower c \<or> is_digit c) \<and> list_all name_char cs \<and> length cs \<le> 31)"

datatype name_error = NameRequired string | NameLong string string | NameInvalid string string

definition env_ValidateName :: "string \<Rightarrow> string \<Rightarrow> name_error + unit" where
  "env_ValidateName kind name =
     (if name = [] then Inl (NameRequired kind)
      else if length name > MaxSlugLen then Inl (NameLong kind name)
      else if \<not> ValidSlug name then Inl (NameInvalid kind name)
      else Inr ())"

section \<open>Names of containers, networks and volumes\<close>

definition NamePrefix :: string where
  "NamePrefix = ''caramelo''"

definition ContainerName :: "string \<Rightarrow> string \<Rightarrow> string \<Rightarrow> string" where
  "ContainerName app env dep = JoinWith [NamePrefix, app, env, dep] ''-''"

definition ServiceContainerName :: "string \<Rightarrow> string \<Rightarrow> string \<Rightarrow> string" where
  "ServiceContainerName app env service = ContainerName app env service"

definition NetworkName :: "string \<Rightarrow> string \<Rightarrow> string" where
  "NetworkName app env = JoinWith [NamePrefix, app, env] ''-''"

definition cacheSuffix :: string where
  "cacheSuffix = ''--cache''"

definition CacheVolumeName :: "string \<Rightarrow> string \<Rightarrow> string" where
  "CacheVolumeName app env = NetworkName app env @ cacheSuffix"

definition ImageRef :: "string \<Rightarrow> string \<Rightarrow> string" where
  "ImageRef app tag = NamePrefix @ ''/'' @ app @ '':'' @ tag"

definition VolumeName :: "string \<Rightarrow> string \<Rightarrow> string \<Rightarrow> string" where
  "VolumeName app env dep = ContainerName app env dep"

definition LabelApp :: string where "LabelApp = ''caramelo.app''"
definition LabelEnv :: string where "LabelEnv = ''caramelo.env''"
definition LabelDep :: string where "LabelDep = ''caramelo.dep''"
definition LabelVersion :: string where "LabelVersion = ''caramelo.version''"
definition LabelService :: string where "LabelService = ''caramelo.service''"
definition LabelTree :: string where "LabelTree = ''caramelo.tree''"

type_synonym labels = "(string \<times> string) list"

definition Labels :: "string \<Rightarrow> string \<Rightarrow> string \<Rightarrow> string \<Rightarrow> labels" where
  "Labels app env dep version =
     [(LabelApp, app), (LabelEnv, env)] @ (if dep \<noteq> [] then [(LabelDep, dep)] else []) @
     (if version \<noteq> [] then [(LabelVersion, version)] else [])"

definition ServiceLabels :: "string \<Rightarrow> string \<Rightarrow> string \<Rightarrow> string \<Rightarrow> labels" where
  "ServiceLabels app env service version =
     Labels app env [] version @ (if service \<noteq> [] then [(LabelService, service)] else [])"

definition ReplicaLabels :: "string \<Rightarrow> string \<Rightarrow> string \<Rightarrow> string \<Rightarrow> string \<Rightarrow> labels" where
  "ReplicaLabels app env service version tree =
     ServiceLabels app env service version @ (if tree \<noteq> [] then [(LabelTree, tree)] else [])"

definition ReplicaContainerName :: "string \<Rightarrow> string \<Rightarrow> string \<Rightarrow> int \<Rightarrow> string" where
  "ReplicaContainerName app env service replica = ServiceContainerName app env service @ ''-'' @ Itoa replica"

abbreviation (input) legacyReplica :: int where
  "legacyReplica \<equiv> 0"

definition replicaIndexOf :: "string \<Rightarrow> string \<Rightarrow> string \<Rightarrow> string \<Rightarrow> int option" where
  "replicaIndexOf app env service container =
     (let prefix = ServiceContainerName app env service
      in if container = prefix then Some legacyReplica
         else if \<not> HasPrefix container (prefix @ ''-'') then None
         else (case Atoi (drop (length prefix + 1) container) of
                 None \<Rightarrow> None
               | Some n \<Rightarrow> if n < 1 then None else Some n))"

lemma replicaIndexOf_legacy: "replicaIndexOf app env s (ServiceContainerName app env s) = Some legacyReplica"
  by (simp add: replicaIndexOf_def)

text \<open>Whatever number is read off the name of a replica is the replica's.\<close>

lemma replicaIndexOf_name:
  assumes "replicaIndexOf app env s (ReplicaContainerName app env s i) = Some n"
  shows "n = i"
  using assms by (simp add: replicaIndexOf_def ReplicaContainerName_def HasPrefix_def Atoi_Itoa_eq split: if_splits)

lemma Itoa_inj: "Itoa m = Itoa n \<longleftrightarrow> m = n" if "minInt64 \<le> m" "m \<le> maxInt64" "minInt64 \<le> n" "n \<le> maxInt64"
  using Atoi_Itoa[of m] Atoi_Itoa[of n] that by (metis option.inject)

text \<open>The number of a replica can be read off the name of its container: for every replica number from 1 on, the
  name of the replica's container has that number, and the container of a service from before there were replicas has
  the number 0.\<close>

theorem replica_index_of_name:
  assumes "1 \<le> n" "n \<le> maxInt64"
  shows "replicaIndexOf app env s (ReplicaContainerName app env s n) = Some n \<and>
    replicaIndexOf app env s (ServiceContainerName app env s) = Some legacyReplica"
proof -
  have "minInt64 \<le> n" using assms(1) by (simp add: minInt64_def)
  then have "Atoi (Itoa n) = Some n" using assms(2) by (simp add: Atoi_Itoa)
  then show ?thesis
    using assms(1) by (simp add: replicaIndexOf_def ReplicaContainerName_def HasPrefix_def)
qed

theorem replica_index_of_name_witness:
  "replicaIndexOf ''shop'' ''main'' ''web'' (ReplicaContainerName ''shop'' ''main'' ''web'' 12) = Some 12 \<and>
   ReplicaContainerName ''shop'' ''main'' ''web'' 12 = ''caramelo-shop-main-web-12''"
proof -
  have "ReplicaContainerName ''shop'' ''main'' ''web'' 12 = ''caramelo-shop-main-web-12''" by code_simp
  then show ?thesis using replica_index_of_name[of 12 "''shop''" "''main''" "''web''"] by (simp add: maxInt64_def)
qed

section \<open>Names that clash\<close>

text \<open>The names are not unique. Two environments of different apps, all of whose names are valid, can have the
  same network and, for a dependency of the same name, the same container and volume; and the cache of one environment
  can have the name of a volume of another environment of the same app.\<close>

theorem container_names_clash:
  "\<exists>app env app' env' dep. (app, env) \<noteq> (app', env') \<and>
     list_all ValidSlug [app, env, app', env', dep] \<and> NetworkName app env = NetworkName app' env' \<and>
     ContainerName app env dep = ContainerName app' env' dep \<and> VolumeName app env dep = VolumeName app' env' dep \<and>
     (\<exists>a e e' d. e \<noteq> e' \<and> list_all ValidSlug [a, e, e', d] \<and> CacheVolumeName a e = VolumeName a e' d)"
proof -
  have one: "list_all ValidSlug [''a'', ''b-c'', ''a-b'', ''c'', ''db'']" "NetworkName ''a'' ''b-c'' = NetworkName ''a-b'' ''c''"
    "ContainerName ''a'' ''b-c'' ''db'' = ContainerName ''a-b'' ''c'' ''db''"
    by code_simp+
  have two: "list_all ValidSlug [''a'', ''x'', ''x-'', ''cache'']" "CacheVolumeName ''a'' ''x'' = VolumeName ''a'' ''x-'' ''cache''"
    by code_simp+
  have "\<exists>a e e' d. e \<noteq> e' \<and> list_all ValidSlug [a, e, e', d] \<and> CacheVolumeName a e = VolumeName a e' d"
    using two by (intro exI conjI) simp_all
  moreover have "(''a'', ''b-c'') \<noteq> (''a-b'', ''c'')" by simp
  moreover have "VolumeName ''a'' ''b-c'' ''db'' = VolumeName ''a-b'' ''c'' ''db''" using one(3) by (simp add: VolumeName_def)
  ultimately show ?thesis using one by blast
qed

end
