(* ===== verification/Float64.thy ===== *)
theory Float64
  imports Complex_Main GoStrings
begin

text \<open>
  Go's \<^verbatim>\<open>float64\<close> and the functions of its library that read numbers: \<^verbatim>\<open>strconv.ParseFloat\<close> and \<^verbatim>\<open>time.ParseDuration\<close>. A finite
  value is the rational it stands for; the sign of zero is left out, which no modelled code looks at. The results of the
  operations are rounded to 53 bits, to the even one of two that are equally near.
\<close>

section \<open>Rounding\<close>

datatype float64 = Finite rat | Infinite bool | NaN

definition pow2 :: "int \<Rightarrow> rat" where
  "pow2 e = (if 0 \<le> e then 2 ^ nat e else 1 / 2 ^ nat (- e))"

function bits :: "int \<Rightarrow> int" where
  "bits n = (if n \<le> 0 then 0 else 1 + bits (n div 2))"
  by pat_completeness auto
termination
  by (relation "measure nat") auto

declare bits.simps [simp del]

text \<open>The exponent of the largest power of two that is not above a positive number.\<close>

definition ilog2 :: "rat \<Rightarrow> int" where
  "ilog2 q = (case quotient_of q of (a, b) \<Rightarrow>
     let e = bits a - bits b in if pow2 e \<le> q then e else e - 1)"

definition round_even :: "rat \<Rightarrow> int" where
  "round_even x = (let n = floor x; d = x - of_int n
     in if d < 1 / 2 then n else if d > 1 / 2 then n + 1 else if even n then n else n + 1)"

definition round_pos :: "rat \<Rightarrow> rat" where
  "round_pos q = (let e = max (ilog2 q - 52) (- 1074) in of_int (round_even (q / pow2 e)) * pow2 e)"

definition fl :: "rat \<Rightarrow> float64" where
  "fl q = (if q = 0 then Finite 0
           else (let r = round_pos (abs q)
                 in if r \<ge> pow2 1024 then Infinite (q < 0) else Finite (if q < 0 then - r else r)))"

lemma pow2_pos [simp]: "0 < pow2 e"
  by (simp add: pow2_def)

lemma pow2_not_neg [simp]: "\<not> pow2 e < 0"
  using pow2_pos[of e] by linarith

lemma pow2_nonzero [simp]: "pow2 e \<noteq> 0"
  using pow2_pos[of e] by linarith

lemma pow2_abs [simp]: "\<bar>pow2 e\<bar> = pow2 e"
  by (simp add: abs_of_pos)

lemma pow2_power_int: "pow2 e = 2 powi e"
  by (simp add: pow2_def power_int_def field_simps)

lemma pow2_mono: "d \<le> e \<Longrightarrow> pow2 d \<le> pow2 e"
  by (simp add: pow2_power_int power_int_increasing)

lemma pow2_diff: "pow2 (d - e) = pow2 d / pow2 e"
  by (simp add: pow2_power_int power_int_diff)

lemma pow2_add: "pow2 (d + e) = pow2 d * pow2 e"
  by (simp add: pow2_power_int power_int_add)

lemma bits_nonneg: "0 \<le> bits n"
  by (induction n rule: bits.induct) (simp add: bits.simps)

lemma bits_bounds: "n > 0 \<Longrightarrow> pow2 (bits n - 1) \<le> of_int n \<and> of_int n < pow2 (bits n)"
proof (induction n rule: bits.induct)
  case (1 n)
  have b: "bits n = 1 + bits (n div 2)" using 1(2) by (simp add: bits.simps[of n])
  show ?case
  proof (cases "n div 2 > 0")
    case False
    with 1(2) have "n = 1" by linarith
    then show ?thesis by (simp add: bits.simps pow2_def)
  next
    case True
    with 1 have ih: "pow2 (bits (n div 2) - 1) \<le> of_int (n div 2)" "of_int (n div 2) < pow2 (bits (n div 2))" by auto
    have "pow2 (bits n - 1) = 2 * pow2 (bits (n div 2) - 1)" "pow2 (bits n) = 2 * pow2 (bits (n div 2))"
      unfolding b using pow2_add[of 1 "bits (n div 2) - 1"] pow2_add[of 1 "bits (n div 2)"] by (simp_all add: pow2_def[of 1])
    moreover have "pow2 (bits (n div 2)) \<ge> of_int (n div 2 + 1)"
    proof -
      have "bits (n div 2) \<ge> 0" using bits_nonneg by simp
      then have "pow2 (bits (n div 2)) = of_int (2 ^ nat (bits (n div 2)))" by (simp add: pow2_def)
      with ih(2) have "n div 2 < 2 ^ nat (bits (n div 2))" by (metis of_int_less_iff)
      then have "of_int (n div 2 + 1) \<le> (of_int (2 ^ nat (bits (n div 2))) :: rat)" by (simp only: of_int_le_iff)
      then show ?thesis by (simp only: \<open>pow2 (bits (n div 2)) = _\<close>)
    qed
    moreover have "(of_int (2 * (n div 2)) :: rat) \<le> of_int n" "(of_int n :: rat) < of_int (2 * (n div 2 + 1))"
      unfolding of_int_le_iff of_int_less_iff by presburger+
    ultimately show ?thesis using ih(1) by simp
  qed
qed

lemma quotient_pos:
  assumes "0 < q" "quotient_of q = (a, b)"
  shows "q = of_int a / of_int b" "0 < a" "0 < b"
proof -
  show q: "q = of_int a / of_int b" "0 < b" using assms(2) by (auto simp: quotient_of_div quotient_of_denom_pos)
  with assms(1) show "0 < a" by (simp add: zero_less_divide_iff)
qed

lemma ilog2_le: "0 < q \<Longrightarrow> pow2 (ilog2 q) \<le> q"
proof -
  assume q: "0 < q"
  obtain a b where ab: "quotient_of q = (a, b)" by (cases "quotient_of q")
  note qa = quotient_pos[OF q ab]
  have "pow2 (bits a - 1) / pow2 (bits b) \<le> q"
    unfolding qa(1) using bits_bounds[OF qa(2)] bits_bounds[OF qa(3)] qa(2,3) by (intro frac_le) auto
  then have "pow2 (bits a - bits b - 1) \<le> q" using pow2_diff[of "bits a - 1" "bits b"] by (simp add: algebra_simps)
  then show ?thesis by (simp add: ilog2_def ab Let_def)
qed

lemma ilog2_greatest: "0 < q \<Longrightarrow> pow2 d \<le> q \<Longrightarrow> d \<le> ilog2 q"
proof -
  assume q: "0 < q" and d: "pow2 d \<le> q"
  obtain a b where ab: "quotient_of q = (a, b)" by (cases "quotient_of q")
  note qa = quotient_pos[OF q ab]
  have lt: "d \<le> e" if "pow2 d < pow2 (e + 1)" for e
    using that pow2_mono[of "e + 1" d] by (cases "d \<le> e") auto
  have "q < pow2 (bits a) / pow2 (bits b - 1)"
    unfolding qa(1) using bits_bounds[OF qa(2)] bits_bounds[OF qa(3)] qa(2) by (intro frac_less) auto
  then have "pow2 d < pow2 (bits a - bits b + 1)" using d pow2_diff[of "bits a" "bits b - 1"] by (simp add: algebra_simps)
  then have "d \<le> bits a - bits b" by (rule lt)
  moreover have "d \<le> bits a - bits b - 1" if "\<not> pow2 (bits a - bits b) \<le> q" using lt[of "bits a - bits b - 1"] that d by simp
  ultimately show ?thesis by (auto simp: ilog2_def ab Let_def)
qed

lemma round_even_near: "\<bar>of_int (round_even x) - x\<bar> \<le> 1 / 2"
proof -
  define d where "d = x - of_int \<lfloor>x\<rfloor>"
  have d: "0 \<le> d" "d < 1" "x = of_int \<lfloor>x\<rfloor> + d" by (simp_all add: d_def) linarith
  have "round_even x = \<lfloor>x\<rfloor> \<and> d \<le> 1 / 2 \<or> round_even x = \<lfloor>x\<rfloor> + 1 \<and> 1 / 2 \<le> d"
    unfolding round_even_def Let_def d_def[symmetric] by auto
  then show ?thesis
  proof
    assume "round_even x = \<lfloor>x\<rfloor> \<and> d \<le> 1 / 2"
    then show ?thesis using d by linarith
  next
    assume "round_even x = \<lfloor>x\<rfloor> + 1 \<and> 1 / 2 \<le> d"
    then show ?thesis using d by linarith
  qed
qed

text \<open>The relative error of rounding, for numbers that are not tiny.\<close>

lemma round_pos_near:
  assumes "pow2 (- 1022) \<le> q"
  shows "\<bar>round_pos q - q\<bar> \<le> q * pow2 (- 53)"
proof -
  have q: "0 < q" using assms less_le_trans[OF pow2_pos] by blast
  let ?e = "ilog2 q - 52"
  have e: "max ?e (- 1074) = ?e" using ilog2_greatest[OF q assms] by simp
  have "round_pos q - q = (of_int (round_even (q / pow2 ?e)) - q / pow2 ?e) * pow2 ?e"
    unfolding round_pos_def Let_def e using pow2_pos[of ?e] by (simp add: left_diff_distrib)
  then have "\<bar>round_pos q - q\<bar> = \<bar>of_int (round_even (q / pow2 ?e)) - q / pow2 ?e\<bar> * pow2 ?e"
    using pow2_pos[of ?e] by (simp add: abs_mult)
  also have "\<dots> \<le> 1 / 2 * pow2 ?e" by (intro mult_right_mono round_even_near) (simp add: less_imp_le)
  also have "\<dots> = pow2 (ilog2 q) * pow2 (- 53)" by (simp add: pow2_diff pow2_def[of 52] pow2_def[of "- 53"])
  also have "\<dots> \<le> q * pow2 (- 53)" using ilog2_le[OF q] by (simp add: less_imp_le)
  finally show ?thesis .
qed

text \<open>Numbers of 53 bits are not changed.\<close>

lemma round_even_int: "round_even (of_int n) = n"
  by (simp add: round_even_def)

lemma round_pos_exact:
  assumes "0 < m" "m < 2 ^ 53" "- 1074 \<le> e"
  shows "round_pos (of_int m * pow2 e) = of_int m * pow2 e"
proof -
  let ?q = "of_int m * pow2 e"
  let ?k = "max (ilog2 ?q - 52) (- 1074)"
  have q: "0 < ?q" using assms(1) by simp
  have "of_int m < pow2 53" using assms(2) by (simp add: pow2_def)
  then have "?q < pow2 (53 + e)" by (simp add: pow2_add)
  then have "ilog2 ?q < 53 + e" using ilog2_le[OF q] pow2_mono[of "53 + e" "ilog2 ?q"] by (cases "ilog2 ?q < 53 + e") auto
  then have k: "?k \<le> e" using assms(3) by simp
  have "?q / pow2 ?k = of_int (m * 2 ^ nat (e - ?k))"
    using k by (simp add: pow2_diff[symmetric] pow2_def[of "e - ?k"] flip: times_divide_eq_right)
  then obtain n where n: "?q / pow2 ?k = of_int n" by blast
  then have "round_pos ?q = of_int n * pow2 ?k" unfolding round_pos_def Let_def by (simp only: round_even_int)
  also have "\<dots> = ?q" unfolding n[symmetric] using pow2_nonzero[of ?k] by simp
  finally show ?thesis .
qed

lemma fl_exact:
  assumes "\<bar>m\<bar> < 2 ^ 53" "- 1074 \<le> e" "e \<le> 971"
  shows "fl (of_int m * pow2 e) = Finite (of_int m * pow2 e)"
proof (cases "m = 0")
  case False
  have a: "0 < \<bar>m\<bar>" using False by simp
  have "round_pos (of_int \<bar>m\<bar> * pow2 e) = of_int \<bar>m\<bar> * pow2 e" by (rule round_pos_exact[OF a assms(1,2)])
  moreover have "of_int \<bar>m\<bar> * pow2 e < pow2 53 * pow2 971"
    using assms pow2_mono[of e 971] by (intro mult_less_le_imp_less) (auto simp: pow2_def[of 53] of_int_less_iff[of _ "2 ^ 53", simplified])
  then have "of_int \<bar>m\<bar> * pow2 e < pow2 1024" using pow2_add[of 53 971] by simp
  moreover have "\<bar>of_int m * pow2 e\<bar> = of_int \<bar>m\<bar> * pow2 e" by (simp add: abs_mult)
  moreover have "of_int m * pow2 e < 0 \<longleftrightarrow> m < 0" using pow2_pos[of e] by (auto simp: mult_less_0_iff)
  ultimately show ?thesis using False unfolding fl_def Let_def by (auto simp: abs_if)
qed (simp add: fl_def)

lemma fl_int: "\<bar>m\<bar> < 2 ^ 53 \<Longrightarrow> fl (of_int m) = Finite (of_int m)"
  using fl_exact[of m 0] by (simp add: pow2_def)

section \<open>Arithmetic\<close>

definition fl_of_int :: "int \<Rightarrow> float64" where
  "fl_of_int n = fl (of_int n)"

fun fl_div :: "float64 \<Rightarrow> float64 \<Rightarrow> float64" where
  "fl_div (Finite a) (Finite b) = (if b = 0 then (if a = 0 then NaN else Infinite (a < 0)) else fl (a / b))"
| "fl_div (Infinite n) (Finite b) = Infinite (n \<noteq> (b < 0))"
| "fl_div (Finite a) (Infinite n) = Finite 0"
| "fl_div _ _ = NaN"

fun fl_mult :: "float64 \<Rightarrow> float64 \<Rightarrow> float64" where
  "fl_mult (Finite a) (Finite b) = fl (a * b)"
| "fl_mult (Infinite n) (Finite b) = (if b = 0 then NaN else Infinite (n \<noteq> (b < 0)))"
| "fl_mult (Finite a) (Infinite n) = (if a = 0 then NaN else Infinite (n \<noteq> (a < 0)))"
| "fl_mult (Infinite n) (Infinite m) = Infinite (n \<noteq> m)"
| "fl_mult _ _ = NaN"

fun fl_less :: "float64 \<Rightarrow> float64 \<Rightarrow> bool" where
  "fl_less (Finite a) (Finite b) \<longleftrightarrow> a < b"
| "fl_less (Infinite n) (Finite b) \<longleftrightarrow> n"
| "fl_less (Finite a) (Infinite n) \<longleftrightarrow> \<not> n"
| "fl_less (Infinite n) (Infinite m) \<longleftrightarrow> n \<and> \<not> m"
| "fl_less _ _ \<longleftrightarrow> False"

section \<open>Reading a number\<close>

definition hex_char :: "char \<Rightarrow> bool" where
  "hex_char c \<longleftrightarrow> lower_char c \<in> set ''abcdef''"

definition hex_val :: "char \<Rightarrow> int" where
  "hex_val c = (if is_digit c then int (digit_val c) else of_char (lower_char c) - of_char (CHR ''a'') + 10)"

text \<open>The digits of the mantissa, how many of them stand after the point, whether there were any, and the rest.\<close>

fun scan_mant :: "bool \<Rightarrow> bool \<Rightarrow> int \<Rightarrow> int \<Rightarrow> bool \<Rightarrow> string \<Rightarrow> int \<times> int \<times> bool \<times> string" where
  "scan_mant hex dot m fr saw [] = (m, fr, saw, [])"
| "scan_mant hex dot m fr saw (c # s) =
     (if c = CHR ''_'' then scan_mant hex dot m fr saw s
      else if c = CHR ''.'' then (if dot then (m, fr, saw, c # s) else scan_mant hex True m fr saw s)
      else if is_digit c \<or> hex \<and> hex_char c
      then scan_mant hex dot (m * (if hex then 16 else 10) + hex_val c) (if dot then fr + 1 else fr) True s
      else (m, fr, saw, c # s))"

fun scan_exp :: "int \<Rightarrow> string \<Rightarrow> int \<times> string" where
  "scan_exp e [] = (e, [])"
| "scan_exp e (c # s) =
     (if c = CHR ''_'' then scan_exp e s
      else if is_digit c then scan_exp (if e < 10000 then e * 10 + int (digit_val c) else e) s
      else (e, c # s))"

text \<open>The optional exponent: its value and the rest, or \<open>None\<close> when it is malformed.\<close>

definition read_exp :: "char \<Rightarrow> bool \<Rightarrow> string \<Rightarrow> (int \<times> string) option" where
  "read_exp marker required s =
     (case s of
        [] \<Rightarrow> if required then None else Some (0, [])
      | c # s' \<Rightarrow>
          if lower_char c \<noteq> marker then (if required then None else Some (0, s))
          else (let (neg, t) = (case s' of d # t \<Rightarrow> if d = CHR ''+'' then (False, t) else if d = CHR ''-'' then (True, t) else (False, s')
                                | [] \<Rightarrow> (False, []))
                in case t of
                     [] \<Rightarrow> None
                   | d # _ \<Rightarrow> if \<not> is_digit d then None
                             else (let (e, rest) = scan_exp 0 t in Some (if neg then - e else e, rest))))"

datatype underscore_state = Begin | Digit | Under | Other

fun underscores :: "bool \<Rightarrow> underscore_state \<Rightarrow> string \<Rightarrow> bool" where
  "underscores hex saw [] \<longleftrightarrow> saw \<noteq> Under"
| "underscores hex saw (c # s) \<longleftrightarrow>
     (if is_digit c \<or> hex \<and> hex_char c then underscores hex Digit s
      else if c = CHR ''_'' then saw = Digit \<and> underscores hex Under s
      else saw \<noteq> Under \<and> underscores hex Other s)"

definition drop_sign :: "string \<Rightarrow> string" where
  "drop_sign s = (case s of c # t \<Rightarrow> if c = CHR ''+'' \<or> c = CHR ''-'' then t else s | [] \<Rightarrow> [])"

definition underscoreOK :: "string \<Rightarrow> bool" where
  "underscoreOK s0 =
     (let s = drop_sign s0
      in if length s \<ge> 2 \<and> s ! 0 = CHR ''0'' \<and> lower_char (s ! 1) \<in> set ''box''
         then underscores (lower_char (s ! 1) = CHR ''x'') Digit (drop 2 s)
         else underscores False Begin s)"

definition special_float :: "string \<Rightarrow> float64 option" where
  "special_float s =
     (if ToLower (drop_sign s) \<in> {''inf'', ''infinity''} then Some (Infinite (s ! 0 = CHR ''-''))
      else if ToLower s = ''nan'' then Some NaN else None)"

definition ParseFloat :: "string \<Rightarrow> float64 option" where
  "ParseFloat s =
     (case special_float s of
        Some f \<Rightarrow> Some f
      | None \<Rightarrow>
          (let t = drop_sign s;
               hex = (length t \<ge> 3 \<and> t ! 0 = CHR ''0'' \<and> lower_char (t ! 1) = CHR ''x'');
               (m, fr, saw, rest) = scan_mant hex False 0 0 False (if hex then drop 2 t else t)
           in if \<not> saw then None
              else (case read_exp (if hex then CHR ''p'' else CHR ''e'') hex rest of
                      None \<Rightarrow> None
                    | Some (e, rest') \<Rightarrow>
                        if rest' \<noteq> [] \<or> CHR ''_'' \<in> set s \<and> \<not> underscoreOK s then None
                        else (let v = (if hex then of_int m * pow2 (e - 4 * fr)
                                       else if e - fr \<ge> 0 then of_int m * 10 ^ nat (e - fr) else of_int m / 10 ^ nat (fr - e))
                              in case fl (if s ! 0 = CHR ''-'' then - v else v) of
                                   Finite q \<Rightarrow> Some (Finite q) | _ \<Rightarrow> None))))"

text \<open>A number written in digits.\<close>

lemma digit_plain:
  assumes "is_digit c"
  shows "lower_char c = c" "c \<noteq> CHR ''_''" "c \<noteq> CHR ''.''" "c \<noteq> CHR ''+''" "c \<noteq> CHR ''-''" "c \<noteq> CHR ''x''" "c \<notin> set ''infty''"
proof -
  have "\<forall>c. is_digit c \<longrightarrow> lower_char c = c \<and> c \<noteq> CHR ''_'' \<and> c \<noteq> CHR ''.'' \<and> c \<noteq> CHR ''+'' \<and> c \<noteq> CHR ''-'' \<and> c \<noteq> CHR ''x'' \<and>
      c \<notin> set ''infty''" by code_simp
  with assms show "lower_char c = c" "c \<noteq> CHR ''_''" "c \<noteq> CHR ''.''" "c \<noteq> CHR ''+''" "c \<noteq> CHR ''-''" "c \<noteq> CHR ''x''" "c \<notin> set ''infty''"
    by blast+
qed

lemma scan_mant_digits:
  "list_all is_digit ds \<Longrightarrow> scan_mant False False m 0 saw ds = (int (foldl (\<lambda>n c. 10 * n + digit_val c) (nat m) ds), 0, saw \<or> ds \<noteq> [], [])"
  if "0 \<le> m"
  using that
proof (induction ds arbitrary: m saw)
  case (Cons c ds)
  then have c: "is_digit c" "c \<noteq> CHR ''_''" "c \<noteq> CHR ''.''" by (auto simp: digit_plain)
  have "nat (m * 10 + hex_val c) = 10 * nat m + digit_val c" using Cons.prems by (simp add: hex_val_def c(1) nat_add_distrib nat_mult_distrib)
  moreover have "0 \<le> m * 10 + hex_val c" using Cons.prems by (simp add: hex_val_def c(1))
  ultimately show ?case using Cons.IH[of "m * 10 + hex_val c" True] Cons.prems c by simp
qed simp

lemma ParseFloat_digits:
  assumes "list_all is_digit ds" "ds \<noteq> []"
  shows "ParseFloat ds = (case fl (of_nat (read_nat ds)) of Finite q \<Rightarrow> Some (Finite q) | _ \<Rightarrow> None)"
proof -
  obtain c cs where ds: "ds = c # cs" by (cases ds) (use assms(2) in auto)
  have all: "is_digit x" if "x \<in> set ds" for x using assms(1) that by (auto simp: list_all_iff)
  have low: "ToLower ds = ds" using digit_plain(1) all by (auto simp: ToLower_def intro!: map_idI)
  have sign: "drop_sign ds = ds" using digit_plain(4,5)[OF all, of c] by (simp add: drop_sign_def ds)
  have letters: "c \<noteq> CHR ''i''" "c \<noteq> CHR ''n''" "c \<noteq> CHR ''-''" using digit_plain(5,7)[OF all, of c] ds by auto
  have special: "special_float ds = None" using letters unfolding special_float_def low sign by (simp add: ds)
  have hex: "(length ds \<ge> 3 \<and> ds ! 0 = CHR ''0'' \<and> lower_char (ds ! 1) = CHR ''x'') = False"
    using digit_plain(1,6)[OF all, of "ds ! 1"] by auto
  have first: "ds ! 0 \<noteq> CHR ''-''" using letters(3) by (simp add: ds)
  have under: "CHR ''_'' \<notin> set ds" using digit_plain(2)[OF all] by blast
  have scan: "scan_mant False False 0 0 False ds = (int (read_nat ds), 0, True, [])"
    using scan_mant_digits[of 0 ds False] assms by (simp add: read_nat_def)
  show ?thesis
    unfolding ParseFloat_def special sign Let_def hex if_False option.case scan by (simp add: read_exp_def first under)
qed

section \<open>Reading a duration\<close>

text \<open>A run of digits as a number of 64 bits; more than \<open>2^63\<close> is an overflow.\<close>

fun leadingInt :: "int \<Rightarrow> string \<Rightarrow> (int \<times> string) option" where
  "leadingInt x [] = Some (x, [])"
| "leadingInt x (c # s) =
     (if \<not> is_digit c then Some (x, c # s)
      else if x > 2 ^ 63 div 10 then None
      else if x * 10 + int (digit_val c) > 2 ^ 63 then None
      else leadingInt (x * 10 + int (digit_val c)) s)"

text \<open>The digits after a point: digits that no longer fit are skipped.\<close>

fun leadingFraction :: "int \<Rightarrow> float64 \<Rightarrow> bool \<Rightarrow> string \<Rightarrow> int \<times> float64 \<times> string" where
  "leadingFraction x scale overflow [] = (x, scale, [])"
| "leadingFraction x scale overflow (c # s) =
     (if \<not> is_digit c then (x, scale, c # s)
      else if overflow then leadingFraction x scale overflow s
      else if x > (2 ^ 63 - 1) div 10 then leadingFraction x scale True s
      else if x * 10 + int (digit_val c) > 2 ^ 63 then leadingFraction x scale True s
      else leadingFraction (x * 10 + int (digit_val c)) (fl_mult scale (Finite 10)) overflow s)"

text \<open>The micro sign and the Greek letter are two bytes each.\<close>

definition duration_unit :: "string \<Rightarrow> int option" where
  "duration_unit u =
     map_of [(''ns'', 1), (''us'', 10 ^ 3), ([CHR 0xC2, CHR 0xB5] @ ''s'', 10 ^ 3), ([CHR 0xCE, CHR 0xBC] @ ''s'', 10 ^ 3),
             (''ms'', 10 ^ 6), (''s'', 10 ^ 9), (''m'', 60 * 10 ^ 9), (''h'', 3600 * 10 ^ 9)] u"

fun fl_trunc :: "float64 \<Rightarrow> int" where
  "fl_trunc (Finite q) = (if q < 0 then - floor (- q) else floor q)"
| "fl_trunc _ = 0"

text \<open>One number with its unit, in nanoseconds, and the rest.\<close>

definition duration_part :: "string \<Rightarrow> (int \<times> string) option" where
  "duration_part s =
     (if s = [] \<or> \<not> (hd s = CHR ''.'' \<or> is_digit (hd s)) then None
      else (case leadingInt 0 s of
              None \<Rightarrow> None
            | Some (v, s1) \<Rightarrow>
                (let pre = (length s1 \<noteq> length s);
                     (f, scale, s2, post) =
                       (if s1 \<noteq> [] \<and> hd s1 = CHR ''.''
                        then (let (f, scale, s2) = leadingFraction 0 (Finite 1) False (tl s1) in (f, scale, s2, length s2 \<noteq> length (tl s1)))
                        else (0, Finite 1, s1, False));
                     u = takeWhile (\<lambda>c. c \<noteq> CHR ''.'' \<and> \<not> is_digit c) s2;
                     s3 = dropWhile (\<lambda>c. c \<noteq> CHR ''.'' \<and> \<not> is_digit c) s2
                 in if \<not> pre \<and> \<not> post then None
                    else if u = [] then None
                    else (case duration_unit u of
                            None \<Rightarrow> None
                          | Some unit \<Rightarrow>
                              if v > 2 ^ 63 div unit then None
                              else (let w = v * unit + (if f > 0 then fl_trunc (fl_mult (fl_of_int f) (fl_div (fl_of_int unit) scale)) else 0)
                                    in if w > 2 ^ 63 then None else Some (w, s3))))))"

lemma leadingInt_length: "leadingInt x s = Some (v, s') \<Longrightarrow> length s' \<le> length s"
  by (induction x s rule: leadingInt.induct) (auto split: if_splits)

lemma leadingFraction_length: "leadingFraction x sc ov s = (v, sc', s') \<Longrightarrow> length s' \<le> length s"
  by (induction x sc ov s rule: leadingFraction.induct) (auto split: if_splits)

lemma dropWhile_shorter: "takeWhile P xs \<noteq> [] \<Longrightarrow> length (dropWhile P xs) < length xs"
  by (cases xs) (auto simp: less_Suc_eq_le length_dropWhile_le split: if_splits)

lemma duration_part_shorter: "duration_part s = Some (w, s') \<Longrightarrow> length s' < length s"
proof -
  assume part: "duration_part s = Some (w, s')"
  obtain v s1 where s1: "leadingInt 0 s = Some (v, s1)" using part by (auto simp: duration_part_def split: if_splits option.splits)
  let ?frac = "leadingFraction 0 (Finite 1) False (tl s1)"
  define s2 where "s2 = (if s1 \<noteq> [] \<and> hd s1 = CHR ''.'' then snd (snd ?frac) else s1)"
  let ?P = "\<lambda>c. c \<noteq> CHR ''.'' \<and> \<not> is_digit c"
  have "length s2 \<le> length s1"
    using leadingFraction_length[of 0 "Finite 1" False "tl s1"] by (cases ?frac) (auto simp: s2_def length_tl)
  moreover have "takeWhile ?P s2 \<noteq> [] \<and> s' = dropWhile ?P s2"
    using part s1 by (cases ?frac) (auto simp: duration_part_def Let_def s2_def split: if_splits option.splits)
  ultimately show ?thesis using dropWhile_shorter[of ?P s2] leadingInt_length[OF s1] by auto
qed

function duration_sum :: "int \<Rightarrow> string \<Rightarrow> int option" where
  "duration_sum d s =
     (if s = [] then Some d
      else (case duration_part s of
              None \<Rightarrow> None
            | Some (w, s') \<Rightarrow> if d + w > 2 ^ 63 then None else duration_sum (d + w) s'))"
  by pat_completeness auto
termination
  by (relation "measure (\<lambda>(d, s). length s)") (auto dest: duration_part_shorter)

declare duration_sum.simps [simp del]

definition ParseDuration :: "string \<Rightarrow> duration option" where
  "ParseDuration s0 =
     (let s = drop_sign s0
      in if s = ''0'' then Some 0
         else if s = [] then None
         else (case duration_sum 0 s of
                 None \<Rightarrow> None
               | Some d \<Rightarrow> if s0 ! 0 = CHR ''-'' then Some (- d) else if d > 2 ^ 63 - 1 then None else Some d))"

end
