(* ===== verification/ConfigApp.thy ===== *)
theory ConfigApp
  imports NetPrefix EnvNames Float64
begin

text \<open>
  What the configuration of an app says about its services and their public names (\<^verbatim>\<open>internal/config/edge.go\<close>,
  the types of \<^verbatim>\<open>config.go\<close>, \<^verbatim>\<open>service.go\<close> and \<^verbatim>\<open>deploy.go\<close>). A nil pointer is \<open>None\<close>, the empty text of an optional
  setting is \<open>[]\<close>, and a Go map is an association list with distinct keys. An error names the key it is about; the path of the
  file, which it is printed with, is left out.
\<close>

section \<open>The configuration of an app\<close>

type_synonym go_vars = "(string \<times> string) list"

record Dep =
  dep_Name :: string
  dep_Image :: string
  dep_Port :: int
  dep_Env :: go_vars
  dep_Ready :: "string list"
  dep_Data :: string

datatype Expose = ExposeUnset | ExposeNone | ExposeHTTPS | OtherExpose string

datatype Protocol = ProtocolTCP | ProtocolUDP | OtherProtocol string

record Build =
  bd_Context :: string
  bd_Dockerfile :: string

record Health =
  hl_Path :: string
  hl_Command :: "string list"

record Resources =
  rs_Memory :: int
  rs_CPU :: float64

abbreviation (input) PortNone :: int where
  "PortNone \<equiv> - 1"

record Service =
  svc_Name :: string
  svc_Image :: string
  svc_Build :: "Build option"
  svc_Install :: string
  svc_Run :: string
  svc_Port :: int
  svc_Protocol :: Protocol
  svc_Health :: "Health option"
  svc_Env :: go_vars
  svc_ReplicaCount :: int
  svc_Expose :: Expose
  svc_Drain :: duration
  svc_Resources :: "Resources option"

record Deploy =
  dy_Before :: string
  dy_Check :: string
  dy_Watch :: duration
  dy_MaxErrors :: string
  dy_Promote :: string
  dy_Keep :: int

record ServiceOverride =
  so_Replicas :: int
  so_Resources :: "Resources option"

record EnvOverride =
  ov_Hosts :: "string list"
  ov_Services :: "(string \<times> ServiceOverride) list"
  ov_Deploy :: "Deploy option"
  ov_Machine :: string
  ov_Via :: string

record App =
  app_Name :: string
  app_Domain :: string
  app_Deps :: "Dep list"
  app_Services :: "Service list"
  app_Test :: string
  app_Deploy :: "Deploy option"
  app_Envs :: "(string \<times> EnvOverride) list"
  app_Placement :: string
  app_Env :: go_vars

abbreviation (input) DefaultDrain :: duration where
  "DefaultDrain \<equiv> 30 * second"

abbreviation (input) DefaultReplicas :: int where
  "DefaultReplicas \<equiv> 1"

abbreviation (input) MaxReplicas :: int where
  "MaxReplicas \<equiv> 8"

definition DomainAuto :: string where
  "DomainAuto = ''auto''"

definition SslipSuffix :: string where
  "SslipSuffix = ''sslip.io''"

datatype config_error =
    ExposeReserved string | ExposeUnknown string
  | NoAppName | NeedsIPv4 Addr
  | HostRequired | HostIsURL string | HostHasPort string | HostDots string | HostEmptyLabel string | HostNotQualified string
  | HostUpper string | HostLong string | LabelDash string | LabelLong string | HostChar string char
  | KeyError string config_error | ReplicasRange int | DrainNegative int | ExposeNeedsPort | ExposeUDPService | ExposeNoDomain

definition ReservedExposeKinds :: "string list" where
  "ReservedExposeKinds = [''tls'', ''tls-passthrough'', ''tcp'', ''udp'']"

definition ParseExpose :: "string \<Rightarrow> config_error + Expose" where
  "ParseExpose s =
     (let v = TrimSpace s
      in if v = [] then Inr ExposeUnset
         else if v = ''none'' then Inr ExposeNone
         else if v = ''https'' then Inr ExposeHTTPS
         else
           (let kind = (case IndexByte v CHR '':'' of Some i \<Rightarrow> if i > 0 then take i v else v | None \<Rightarrow> v)
            in if kind \<in> set ReservedExposeKinds then Inl (ExposeReserved v) else Inl (ExposeUnknown v)))"

definition svc_Replicas :: "Service \<Rightarrow> int" where
  "svc_Replicas s = (if svc_ReplicaCount s \<le> 0 then DefaultReplicas else svc_ReplicaCount s)"

definition DrainTimeout :: "Service \<Rightarrow> duration" where
  "DrainTimeout s = (if svc_Drain s \<le> 0 then DefaultDrain else svc_Drain s)"

definition HasPort :: "Service \<Rightarrow> bool" where
  "HasPort s \<longleftrightarrow> svc_Port s \<noteq> PortNone"

definition app_Service :: "App option \<Rightarrow> string \<Rightarrow> Service option" where
  "app_Service a name = (case a of None \<Rightarrow> None | Some a \<Rightarrow> find (\<lambda>s. svc_Name s = name) (app_Services a))"

definition FirstService :: "App option \<Rightarrow> Service option" where
  "FirstService a = (case a of None \<Rightarrow> None | Some a \<Rightarrow> (case app_Services a of [] \<Rightarrow> None | s # _ \<Rightarrow> Some s))"

section \<open>Public names\<close>

definition firstExposable :: "App \<Rightarrow> Service option" where
  "firstExposable a =
     find (\<lambda>s. HasPort s \<and> svc_Expose s \<noteq> ExposeNone \<and> svc_Protocol s \<noteq> ProtocolUDP) (app_Services a)"

definition ExposeOf :: "App option \<Rightarrow> string \<Rightarrow> Expose" where
  "ExposeOf a name =
     (case a of None \<Rightarrow> ExposeNone
      | Some a \<Rightarrow>
          (case app_Service (Some a) name of None \<Rightarrow> ExposeNone
           | Some svc \<Rightarrow>
               if svc_Expose svc \<noteq> ExposeUnset then svc_Expose svc
               else if app_Domain a = [] \<or> \<not> HasPort svc then ExposeNone
               else (case firstExposable a of
                       Some f \<Rightarrow> if svc_Name f = name then ExposeHTTPS else ExposeNone
                     | None \<Rightarrow> ExposeNone)))"

definition ExposedServices :: "App option \<Rightarrow> Service list" where
  "ExposedServices a =
     (case a of None \<Rightarrow> [] | Some a' \<Rightarrow> filter (\<lambda>s. ExposeOf a (svc_Name s) = ExposeHTTPS) (app_Services a'))"

definition isFirstExposed :: "App option \<Rightarrow> string \<Rightarrow> bool" where
  "isFirstExposed a service = (case ExposedServices a of [] \<Rightarrow> False | s # _ \<Rightarrow> svc_Name s = service)"

definition DerivedHost :: "string \<Rightarrow> string \<Rightarrow> string \<Rightarrow> bool \<Rightarrow> string" where
  "DerivedHost domain0 env service first =
     (let domain = TrimSuffix (TrimSpace (ToLower domain0)) ''.''
      in if domain = [] \<or> env = [] then []
         else if first \<or> service = [] then env @ ''.'' @ domain
         else service @ ''.'' @ env @ ''.'' @ domain)"

definition HostFor :: "App option \<Rightarrow> string \<Rightarrow> string \<Rightarrow> string" where
  "HostFor a env service =
     (case a of None \<Rightarrow> []
      | Some a' \<Rightarrow>
          if app_Domain a' = [] \<or> env = [] then []
          else if ExposeOf a service \<noteq> ExposeHTTPS then []
          else DerivedHost (app_Domain a') env service (isFirstExposed a service))"

definition Override :: "App option \<Rightarrow> string \<Rightarrow> EnvOverride option" where
  "Override a env = (case a of None \<Rightarrow> None | Some a \<Rightarrow> map_of (app_Envs a) env)"

definition app_EnvHosts :: "App option \<Rightarrow> string \<Rightarrow> string list" where
  "app_EnvHosts a env = (case Override a env of None \<Rightarrow> [] | Some ov \<Rightarrow> ov_Hosts ov)"

definition HostsFor :: "App option \<Rightarrow> string \<Rightarrow> string \<Rightarrow> string list" where
  "HostsFor a env service =
     (if a = None \<or> env = [] then []
      else if ExposeOf a service \<noteq> ExposeHTTPS then []
      else if app_EnvHosts a env \<noteq> [] \<and> isFirstExposed a service then app_EnvHosts a env
      else if HostFor a env service \<noteq> [] then [HostFor a env service]
      else [])"

fun addr_String4 :: "32 word \<Rightarrow> string" where
  "addr_String4 a = JoinWith (map (\<lambda>k. Itoa (uint (drop_bit k a AND 255))) [24, 16, 8, 0]) ''.''"

fun AutoDomain :: "string \<Rightarrow> Addr \<Rightarrow> config_error + string" where
  "AutoDomain app ip =
     (if TrimSpace app = [] then Inl NoAppName
      else (case ip of
              Addr4 a \<Rightarrow> Inr (app @ ''.'' @ ReplaceByte (addr_String4 a) CHR ''.'' ''-'' @ ''.'' @ SslipSuffix)
            | _ \<Rightarrow> Inl (NeedsIPv4 ip)))"

section \<open>Hostnames\<close>

abbreviation (input) MaxHostLen :: nat where "MaxHostLen \<equiv> 253"
abbreviation (input) MaxLabelLen :: nat where "MaxLabelLen \<equiv> 63"

text \<open>The check of one label; of a letter outside ASCII the error has the first byte.\<close>

definition validate_label :: "string \<Rightarrow> string \<Rightarrow> config_error + unit" where
  "validate_label host label =
     (if HasPrefix label ''-'' \<or> HasSuffix label ''-'' then Inl (LabelDash label)
      else if length label > MaxLabelLen then Inl (LabelLong label)
      else (case find (\<lambda>c. \<not> name_char c) label of Some c \<Rightarrow> Inl (HostChar host c) | None \<Rightarrow> Inr ()))"

fun validate_labels :: "string \<Rightarrow> string list \<Rightarrow> config_error + unit" where
  "validate_labels host [] = Inr ()"
| "validate_labels host (l # ls) = bind_result (validate_label host l) (\<lambda>_. validate_labels host ls)"

definition ValidateHostname :: "string \<Rightarrow> config_error + unit" where
  "ValidateHostname host =
     (if TrimSpace host = [] then Inl HostRequired
      else if CHR ''/'' \<in> set host then Inl (HostIsURL host)
      else if CHR '':'' \<in> set host then Inl (HostHasPort host)
      else if HasPrefix host ''.'' \<or> HasSuffix host ''.'' then Inl (HostDots host)
      else if Contains host ''..'' then Inl (HostEmptyLabel host)
      else if CHR ''.'' \<notin> set host then Inl (HostNotQualified host)
      else if host \<noteq> ToLower host then Inl (HostUpper host)
      else if length host > MaxHostLen then Inl (HostLong host)
      else validate_labels host (SplitByte host CHR ''.''))"

definition validateDomain :: "string \<Rightarrow> config_error + unit" where
  "validateDomain domain =
     (if domain = [] \<or> domain = DomainAuto then Inr ()
      else (case ValidateHostname domain of Inl e \<Rightarrow> Inl (KeyError ''domain'' e) | Inr _ \<Rightarrow> Inr ()))"

definition validate_service :: "App \<Rightarrow> Service \<Rightarrow> config_error + unit" where
  "validate_service a s =
     (let key = ''services.'' @ svc_Name s
      in if svc_ReplicaCount s \<noteq> 0 \<and> (svc_ReplicaCount s < 1 \<or> svc_ReplicaCount s > MaxReplicas)
         then Inl (KeyError (key @ ''.replicas'') (ReplicasRange (svc_ReplicaCount s)))
         else if svc_Drain s < 0 then Inl (KeyError (key @ ''.drain'') (DrainNegative (svc_Drain s)))
         else (case svc_Expose s of
                 ExposeUnset \<Rightarrow> Inr ()
               | ExposeNone \<Rightarrow> Inr ()
               | ExposeHTTPS \<Rightarrow>
                   if \<not> HasPort s then Inl (KeyError (key @ ''.expose'') ExposeNeedsPort)
                   else if svc_Protocol s = ProtocolUDP then Inl (KeyError (key @ ''.expose'') ExposeUDPService)
                   else if app_Domain a = [] then Inl (KeyError (key @ ''.expose'') ExposeNoDomain)
                   else Inr ()
               | OtherExpose x \<Rightarrow>
                   (case ParseExpose x of Inl e \<Rightarrow> Inl (KeyError (key @ ''.expose'') e) | Inr _ \<Rightarrow> Inr ())))"

definition validateEdge :: "App \<Rightarrow> config_error + unit" where
  "validateEdge a = bind_result (validateDomain (app_Domain a)) (\<lambda>_.
     bind_result (map_result (validate_service a) (app_Services a)) (\<lambda>_. Inr ()))"

section \<open>What a hostname is\<close>

definition label_ok :: "string \<Rightarrow> bool" where
  "label_ok l \<longleftrightarrow> l \<noteq> [] \<and> hd l \<noteq> CHR ''-'' \<and> last l \<noteq> CHR ''-'' \<and> length l \<le> 63 \<and> list_all name_char l"

text \<open>Two labels or more of letters, digits and inner dashes, separated by dots.\<close>

definition hostname :: "string \<Rightarrow> bool" where
  "hostname h \<longleftrightarrow> length h \<le> 253 \<and> 2 \<le> length (SplitByte h CHR ''.'') \<and> list_all label_ok (SplitByte h CHR ''.'')"

lemma dash_ends:
  "HasPrefix l [c] \<longleftrightarrow> l \<noteq> [] \<and> hd l = c" "HasSuffix l [c] \<longleftrightarrow> l \<noteq> [] \<and> last l = c"
  by (cases l; auto simp: HasPrefix_iff) (cases l rule: rev_cases; auto simp: HasSuffix_iff)

lemma validate_label_iff: "l \<noteq> [] \<Longrightarrow> validate_label h l = Inr () \<longleftrightarrow> label_ok l"
  by (auto simp: validate_label_def label_ok_def dash_ends find_None_iff find_Some_iff list_all_iff split: option.splits)

lemma validate_labels_iff:
  "[] \<notin> set ls \<Longrightarrow> validate_labels h ls = Inr () \<longleftrightarrow> list_all label_ok ls"
  by (induction ls) (auto simp: bind_result_Inr validate_label_iff)

lemma hostname_chars:
  assumes "hostname h" "c \<in> set h"
  shows "name_char c \<or> c = CHR ''.''"
proof -
  have "set (JoinWith ws sep) \<subseteq> \<Union> (set ` set ws) \<union> set sep" for ws and sep :: string
    by (induction ws sep rule: JoinWith.induct) auto
  then have "set h \<subseteq> \<Union> (set ` set (SplitByte h CHR ''.'')) \<union> {CHR ''.''}"
    using JoinWith_SplitByte[of h "CHR ''.''"] by (metis list.set(1,2))
  with assms show ?thesis by (auto simp: hostname_def list_all_iff label_ok_def)
qed

lemma hostname_ends:
  assumes "hostname h"
  shows "h \<noteq> []" "name_char (hd h)" "name_char (last h)"
proof -
  have no_empty: "[] \<notin> set (SplitByte h CHR ''.'')" using assms by (auto simp: hostname_def list_all_iff label_ok_def)
  then have ends: "h \<noteq> [] \<and> hd h \<noteq> CHR ''.'' \<and> last h \<noteq> CHR ''.''"
    by (auto simp: SplitByte_empty_words dash_ends)
  then show "h \<noteq> []" "name_char (hd h)" "name_char (last h)"
    using hostname_chars[OF assms, of "hd h"] hostname_chars[OF assms, of "last h"] by auto
qed

lemma hostname_plain:
  assumes "hostname h"
  shows "trimmed h" "ToLower h = h" "CHR ''/'' \<notin> set h" "CHR '':'' \<notin> set h" "\<not> HasSuffix h ''.''"
proof -
  show "trimmed h" using hostname_ends[OF assms] by (auto intro!: trimmed_ends simp: name_char_plain(5))
  have "lower_char c = c \<and> c \<noteq> CHR ''/'' \<and> c \<noteq> CHR '':''" if "c \<in> set h" for c
    using hostname_chars[OF assms that] name_char_plain[of c] by (auto simp: lower_char_def)
  then show "ToLower h = h" "CHR ''/'' \<notin> set h" "CHR '':'' \<notin> set h"
    by (auto simp: ToLower_def intro: map_idI)
  show "\<not> HasSuffix h ''.''" using hostname_ends[OF assms] name_char_plain(2)[of "CHR ''.''"] by (auto simp: dash_ends)
qed

lemma ValidateHostname_iff: "ValidateHostname h = Inr () \<longleftrightarrow> hostname h"
proof
  assume v: "ValidateHostname h = Inr ()"
  then have "h \<noteq> []" by (auto simp: ValidateHostname_def)
  with v have "[] \<notin> set (SplitByte h CHR ''.'')"
    unfolding SplitByte_empty_words by (auto simp: ValidateHostname_def split: if_splits)
  with v show "hostname h"
    using length_SplitByte[of h "CHR ''.''"]
    by (auto simp: ValidateHostname_def hostname_def validate_labels_iff split: if_splits)
next
  assume h: "hostname h"
  then have no_empty: "[] \<notin> set (SplitByte h CHR ''.'')" by (auto simp: hostname_def list_all_iff label_ok_def)
  then have "validate_labels h (SplitByte h CHR ''.'') = Inr ()"
    using h by (simp add: validate_labels_iff hostname_def)
  then show "ValidateHostname h = Inr ()"
    using h no_empty hostname_plain[OF h] hostname_ends[OF h] length_SplitByte[of h "CHR ''.''"]
    by (auto simp: ValidateHostname_def hostname_def SplitByte_empty_words)
qed

section \<open>The derived names\<close>

lemma ValidSlug_plain: "ValidSlug s \<Longrightarrow> s \<noteq> [] \<and> length s \<le> 32 \<and> hd s \<noteq> CHR ''-'' \<and> list_all name_char s"
proof -
  have "name_char c \<and> c \<noteq> CHR ''-''" if "is_lower c \<or> is_digit c" for c
    using that by (auto simp: name_char_def is_lower_def is_digit_def less_eq_char_def)
  then show "ValidSlug s \<Longrightarrow> s \<noteq> [] \<and> length s \<le> 32 \<and> hd s \<noteq> CHR ''-'' \<and> list_all name_char s"
    by (auto simp: ValidSlug_def split: list.splits)
qed

lemma slug_label_ok: "ValidSlug s \<Longrightarrow> label_ok s \<longleftrightarrow> last s \<noteq> CHR ''-''"
  using ValidSlug_plain[of s] by (auto simp: label_ok_def)

lemma name_no_dot: "list_all name_char s \<Longrightarrow> CHR ''.'' \<notin> set s"
  using name_char_plain(2) by (auto simp: list_all_iff)

lemma hostname_sub:
  assumes "hostname d" "list_all name_char l" "length (l @ ''.'' @ d) \<le> 253"
  shows "hostname (l @ ''.'' @ d) \<longleftrightarrow> label_ok l"
  using assms SplitByte_append[OF name_no_dot[OF assms(2)], of d]
  by (auto simp: hostname_def)

lemma DerivedHost_plain:
  assumes "hostname d" "ValidSlug env" "ValidSlug service"
  shows "DerivedHost d env service first = (if first then [] else service @ ''.'') @ env @ ''.'' @ d"
  using hostname_plain[OF assms(1)] hostname_ends(1)[OF assms(1)] ValidSlug_plain[OF assms(2)] ValidSlug_plain[OF assms(3)]
  by (simp add: DerivedHost_def TrimSuffix_def)

text \<open>Where the first dots are is decided by the names before them.\<close>

lemma dotted_inj:
  assumes "list_all name_char a" "list_all name_char b" "a @ ''.'' @ r = b @ ''.'' @ t"
  shows "a = b" "r = t"
proof -
  have "Cut (a @ CHR ''.'' # r) CHR ''.'' = Some (a, r)" "Cut (b @ CHR ''.'' # t) CHR ''.'' = Some (b, t)"
    by (rule Cut_append, rule name_no_dot, rule assms)+
  moreover have "a @ CHR ''.'' # r = b @ CHR ''.'' # t" using assms(3) by simp
  ultimately have "Some (a, r) = Some (b, t)" by metis
  then show "a = b" "r = t" by simp_all
qed

lemma DerivedHost_inj:
  assumes "hostname d" "ValidSlug env" "ValidSlug service" "ValidSlug env'" "ValidSlug service'"
    and eq: "DerivedHost d env service first = DerivedHost d env' service' first'"
  shows "env = env' \<and> first = first' \<and> (first \<or> service = service')"
proof -
  note slugs = assms(2-5)[THEN ValidSlug_plain]
  have longer: "s @ ''.'' @ e @ ''.'' @ d \<noteq> e' @ ''.'' @ d" if "list_all name_char s" "list_all name_char e'" for s e e'
  proof
    assume "s @ ''.'' @ e @ ''.'' @ d = e' @ ''.'' @ d"
    then have "e @ ''.'' @ d = d" using dotted_inj(2)[OF that] by blast
    then have "length (e @ ''.'' @ d) = length d" by (rule arg_cong)
    then show False by simp
  qed
  note plain = DerivedHost_plain[OF assms(1-3), of first] DerivedHost_plain[OF assms(1,4,5), of first']
  consider "first" "first'" | "first" "\<not> first'" | "\<not> first" "first'" | "\<not> first" "\<not> first'" by blast
  then show ?thesis
  proof cases
    case 1
    then have "env @ ''.'' @ d = env' @ ''.'' @ d" using eq unfolding plain by simp
    then show ?thesis using 1 dotted_inj(1)[of env env'] slugs by blast
  next
    case 2
    then have "env @ ''.'' @ d = service' @ ''.'' @ env' @ ''.'' @ d" using eq unfolding plain by simp
    then show ?thesis using longer[of service' env env'] slugs by metis
  next
    case 3
    then have "service @ ''.'' @ env @ ''.'' @ d = env' @ ''.'' @ d" using eq unfolding plain by simp
    then show ?thesis using longer[of service env' env] slugs by metis
  next
    case 4
    then have "service @ ''.'' @ env @ ''.'' @ d = service' @ ''.'' @ env' @ ''.'' @ d" using eq unfolding plain by simp
    then have "service = service'" "env @ ''.'' @ d = env' @ ''.'' @ d" using dotted_inj[of service service'] slugs by blast+
    then show ?thesis using 4 dotted_inj(1)[of env env'] slugs by blast
  qed
qed



end
