(* ===== verification/EnvNetwork.thy ===== *)
theory EnvNetwork
  imports VpnZone ConfigApp EnvStore
begin

text \<open>
  How environments get their names on the private network (\<^verbatim>\<open>internal/env/vpn.go\<close>): the address of an
  environment with the names of its services and dependencies, and the comparison of what is published with what
  should be. Parsing the stored address is an argument; an environment whose address does not parse has the
  invalid address. The theorem is about the zone the resolver makes of these addresses.
\<close>

section \<open>Addresses and their names\<close>

definition hostNames :: "App option \<Rightarrow> string list" where
  "hostNames cfg = (case cfg of None \<Rightarrow> [] | Some a \<Rightarrow> map svc_Name (app_Services a) @ map dep_Name (app_Deps a))"

definition env_Address :: "(string \<Rightarrow> Addr option) \<Rightarrow> EnvRecord \<Rightarrow> App option \<Rightarrow> Address" where
  "env_Address parse rec cfg =
     \<lparr>ad_IP = (case parse (env_VPNIP rec) of Some ip \<Rightarrow> ip | None \<Rightarrow> InvalidAddr), ad_Kind = KindEnv,
      ad_Owner = env_App rec @ ''/'' @ env_Name rec, ad_Names = EnvHosts (env_App rec) (env_Name rec) (hostNames cfg)\<rparr>"

text \<open>The address \<^verbatim>\<open>installMachineAddress\<close> gives the machine itself.\<close>

definition own_Address :: "string \<Rightarrow> Addr \<Rightarrow> Address" where
  "own_Address host ip =
     \<lparr>ad_IP = ip, ad_Kind = KindMachine, ad_Owner = host, ad_Names = (if host \<noteq> [] then [MachineHost host] else [])\<rparr>"

section \<open>Is the published state the wanted one\<close>

datatype vpn_Protocol = TCP | UDP | OtherProtocol string

record vpn_Route =
  vr_IP :: Addr
  vr_Port :: int
  vr_Protocol :: vpn_Protocol
  vr_Target :: string
  vr_App :: string
  vr_Env :: string
  vr_Name :: string

fun same_names :: "string list \<Rightarrow> string list \<Rightarrow> bool" where
  "same_names (a # as) (b # bs) \<longleftrightarrow> a = b \<and> same_names as bs"
| "same_names _ _ \<longleftrightarrow> True"

definition sameNames :: "Address \<Rightarrow> Address \<Rightarrow> bool" where
  "sameNames a b \<longleftrightarrow>
     (if ad_IP a \<noteq> ad_IP b \<or> length (ad_Names a) \<noteq> length (ad_Names b) then False else same_names (ad_Names a) (ad_Names b))"

definition route_key :: "vpn_Route \<Rightarrow> int \<times> vpn_Protocol \<times> string" where
  "route_key r = (vr_Port r, vr_Protocol r, vr_Target r)"

text \<open>The map of counts, and the loop that takes the wanted routes off it one by one.\<close>

type_synonym route_counts = "int \<times> vpn_Protocol \<times> string \<Rightarrow> nat"

fun route_tally :: "vpn_Route list \<Rightarrow> route_counts \<Rightarrow> route_counts" where
  "route_tally [] h = h"
| "route_tally (r # rs) h = route_tally rs (h(route_key r := h (route_key r) + 1))"

fun take_off :: "vpn_Route list \<Rightarrow> route_counts \<Rightarrow> bool" where
  "take_off [] h = True"
| "take_off (r # rs) h = (if h (route_key r) = 0 then False else take_off rs (h(route_key r := h (route_key r) - 1)))"

definition sameRoutes :: "vpn_Route list \<Rightarrow> vpn_Route list \<Rightarrow> bool" where
  "sameRoutes a b = (if length a \<noteq> length b then False else take_off b (route_tally a (\<lambda>_. 0)))"

lemma same_names_eq: "length as = length bs \<Longrightarrow> same_names as bs \<longleftrightarrow> as = bs"
  by (induction as bs rule: same_names.induct) auto

lemma sameNames_iff: "sameNames a b \<longleftrightarrow> ad_IP a = ad_IP b \<and> ad_Names a = ad_Names b"
  by (auto simp: sameNames_def same_names_eq)

lemma route_tally_count: "route_tally rs h k = h k + count_list (map route_key rs) k"
  by (induction rs arbitrary: h) auto

lemma take_off_iff: "take_off rs h \<longleftrightarrow> (\<forall>k. count_list (map route_key rs) k \<le> h k)"
proof (induction rs arbitrary: h)
  case (Cons r rs)
  show ?case
  proof (cases "h (route_key r) = 0")
    case True
    then have "\<not> count_list (map route_key (r # rs)) (route_key r) \<le> h (route_key r)" by simp
    then show ?thesis using True by (metis take_off.simps(2))
  next
    case False
    have "(count_list (map route_key rs) k \<le> (h(route_key r := h (route_key r) - 1)) k) \<longleftrightarrow>
        (count_list (map route_key (r # rs)) k \<le> h k)" for k
      using False by auto
    then show ?thesis using False Cons by simp
  qed
qed simp

lemma sameRoutes_iff: "sameRoutes a b \<longleftrightarrow> mset (map route_key a) = mset (map route_key b)"
proof -
  have "sameRoutes a b \<longleftrightarrow> length a = length b \<and> mset (map route_key b) \<subseteq># mset (map route_key a)"
    by (auto simp: sameRoutes_def take_off_iff route_tally_count subseteq_mset_def count_mset simp del: mset_map)
  also have "\<dots> \<longleftrightarrow> mset (map route_key a) = mset (map route_key b)"
  proof
    assume h: "length a = length b \<and> mset (map route_key b) \<subseteq># mset (map route_key a)"
    then have "\<not> mset (map route_key b) \<subset># mset (map route_key a)"
      using mset_subset_size[of "mset (map route_key b)" "mset (map route_key a)"] by auto
    then show "mset (map route_key a) = mset (map route_key b)" using h unfolding subset_mset_def by metis
  next
    assume e: "mset (map route_key a) = mset (map route_key b)"
    then have "length (map route_key a) = length (map route_key b)" by (rule mset_eq_length)
    then show "length a = length b \<and> mset (map route_key b) \<subseteq># mset (map route_key a)" by (simp add: e del: mset_map)
  qed
  finally show ?thesis .
qed

section \<open>Names of labels\<close>

definition dotted :: "string list \<Rightarrow> string" where
  "dotted ls = JoinWith ls ''.''"

definition labels_ok :: "string list \<Rightarrow> bool" where
  "labels_ok ls \<longleftrightarrow> ls \<noteq> [] \<and> list_all (\<lambda>l. l \<noteq> [] \<and> list_all name_char l) ls"

lemma dotted_split: "labels_ok ls \<Longrightarrow> SplitByte (dotted ls) CHR ''.'' = ls"
  unfolding dotted_def
  by (induction ls "''.''" rule: JoinWith.induct)
     (auto simp: labels_ok_def name_no_dot SplitByte_no_sep SplitByte_append)

lemma dotted_inject: "labels_ok ls \<Longrightarrow> labels_ok ks \<Longrightarrow> dotted ls = dotted ks \<longleftrightarrow> ls = ks"
  using dotted_split by metis

lemma dotted_chars: "c \<in> set (dotted ls) \<Longrightarrow> labels_ok ls \<Longrightarrow> name_char c \<or> c = CHR ''.''"
  unfolding dotted_def
  by (induction ls "''.''" rule: JoinWith.induct) (auto simp: labels_ok_def list_all_iff)

lemma dotted_plain:
  assumes "labels_ok ls"
  shows "trimmed (dotted ls)" "ToLower (dotted ls) = dotted ls" "\<not> HasSuffix (dotted ls) ''.''" "dotted ls \<noteq> []"
proof -
  have no: "[] \<notin> set (SplitByte (dotted ls) CHR ''.'')"
    unfolding dotted_split[OF assms] using assms by (auto simp: labels_ok_def list_all_iff)
  then show "\<not> HasSuffix (dotted ls) ''.''" "dotted ls \<noteq> []" unfolding SplitByte_empty_words by auto
  have dot: "lower_char CHR ''.'' = CHR ''.''" "\<forall>e \<in> set space_encodings. CHR ''.'' \<notin> set e" by code_simp+
  have "lower_char c = c" if "c \<in> set (dotted ls)" for c
    using dotted_chars[OF that assms] name_char_plain(1) dot(1) by auto
  then show "ToLower (dotted ls) = dotted ls" by (simp add: ToLower_def map_idI)
  have "\<forall>e \<in> set space_encodings. c \<notin> set e" if "c \<in> set (dotted ls)" for c
    using dotted_chars[OF that assms] name_char_plain(5) dot(2) by blast
  then show "trimmed (dotted ls)" using \<open>dotted ls \<noteq> []\<close> by (intro trimmed_ends) auto
qed

lemma Normalize_dotted: "labels_ok ls \<Longrightarrow> Normalize (dotted ls) = dotted ls"
  using dotted_plain[of ls] by (simp add: Normalize_def TrimSuffix_def)

lemma IsInternal_dotted:
  assumes "labels_ok (ls @ [Domain])" "ls \<noteq> []"
  shows "IsInternal (dotted (ls @ [Domain]))"
proof -
  have "dotted (ls @ [Domain]) = dotted ls @ Suffix"
    using assms(2) unfolding dotted_def
    by (induction ls "''.''" rule: JoinWith.induct) (auto simp: Suffix_def)
  moreover have "dotted (ls @ [Domain]) \<noteq> dotted [Domain]"
    using dotted_inject[OF assms(1), of "[Domain]"] assms by (auto simp: labels_ok_def)
  moreover have "dotted [Domain] = Domain" by (simp add: dotted_def)
  ultimately show ?thesis using dotted_plain(4)[OF assms(1)] Normalize_dotted[OF assms(1)]
    by (metis HasSuffix_iff IsInternal_def)
qed

section \<open>The zone\<close>

text \<open>A zone of addresses whose names, all different, are names of the private network.\<close>

lemma addrs_of_perm: "mset as = mset bs \<Longrightarrow> mset (addrs_of as n) = mset (addrs_of bs n)"
proof -
  have "mset (addrs_of xs n) = (\<Sum>a \<in># mset xs. mset (map (\<lambda>_. ad_IP a) (filter (\<lambda>x. Normalize x = n) (ad_Names a))))" for xs
    by (induction xs) (simp_all add: addrs_of_def)
  then show "mset as = mset bs \<Longrightarrow> mset (addrs_of as n) = mset (addrs_of bs n)" by simp
qed

lemma filter_same: "distinct xs \<Longrightarrow> n \<in> set xs \<Longrightarrow> filter (\<lambda>x. x = n) xs = [n]"
  by (induction xs) (auto simp: filter_empty_conv)

lemma addrs_of_unique:
  assumes "distinct (concat (map ad_Names as))" "\<forall>a \<in> set as. \<forall>x \<in> set (ad_Names a). Normalize x = x"
    and "a \<in> set as" "n \<in> set (ad_Names a)"
  shows "addrs_of as n = [ad_IP a]"
  using assms
proof (induction as)
  case (Cons b bs)
  have none: "addrs_of cs n = []" if "\<forall>c \<in> set cs. \<forall>x \<in> set (ad_Names c). Normalize x = x" "n \<notin> set (concat (map ad_Names cs))" for cs
    using that by (induction cs) (auto simp: addrs_of_def filter_empty_conv)
  have own: "filter (\<lambda>x. Normalize x = n) (ad_Names b) = filter (\<lambda>x. x = n) (ad_Names b)"
    using Cons.prems(2) by (intro filter_cong) auto
  show ?case
  proof (cases "n \<in> set (ad_Names b)")
    case True
    then have "n \<notin> set (concat (map ad_Names bs))" "a = b \<or> a \<notin> set bs" using Cons.prems by auto
    moreover have "filter (\<lambda>x. x = n) (ad_Names b) = [n]" using True Cons.prems(1) by (intro filter_same) auto
    ultimately show ?thesis using none[of bs] Cons.prems own by (auto simp: addrs_of_def)
  next
    case False
    then have "filter (\<lambda>x. x = n) (ad_Names b) = []" by (auto simp: filter_empty_conv)
    then show ?thesis using Cons False own by (auto simp: addrs_of_def)
  qed
qed simp

lemma SetZone_resolves:
  assumes "\<forall>a \<in> set as. ad_IP a \<noteq> InvalidAddr \<and> (\<forall>x \<in> set (ad_Names a). Normalize x = x \<and> IsInternal x)"
    and "distinct (concat (map ad_Names as))"
  obtains r' where "SetZone as r = Inr r'" "\<And>a n. a \<in> set as \<Longrightarrow> n \<in> set (ad_Names a) \<Longrightarrow> zone_Resolve r' n = Inr [ad_IP a]"
proof -
  have "zone_ok (sortAddresses as)" using assms(1) by (auto simp: zone_ok_def sortAddresses_def)
  then obtain z where z: "zone_addrs (sortAddresses as) [] = Inr z" using zone_addrs_Inr(1)[of "sortAddresses as" "[]"] by blast
  have "zone_Resolve (r\<lparr>zr_zone := z\<rparr>) n = Inr [ad_IP a]" if a: "a \<in> set as" "n \<in> set (ad_Names a)" for a n
  proof -
    have n: "Normalize n = n" "IsInternal n" using assms(1) a by blast+
    then have "n \<noteq> []" by (auto simp: IsInternal_def Let_def)
    have "addrs_of as n = [ad_IP a]" using assms a by (intro addrs_of_unique) auto
    then have "addrs_of (sortAddresses as) n = [ad_IP a]"
      using addrs_of_perm[of "sortAddresses as" as n] by (simp add: sortAddresses_def)
    then have "zone_at z n = [ad_IP a]" using zone_addrs_Inr(2)[OF z \<open>n \<noteq> []\<close>] by (simp add: zone_at_def)
    then show ?thesis using n by (simp add: zone_Resolve_def)
  qed
  then show thesis using that z by (simp add: SetZone_def)
qed

text \<open>The label lists of an environment's names, and those of all the names of a network.\<close>

definition env_labels :: "EnvRecord \<Rightarrow> App option \<Rightarrow> string list list" where
  "env_labels rec cfg = [env_Name rec, env_App rec] # map (\<lambda>n. [n, env_Name rec, env_App rec]) (hostNames cfg)"

definition named_ok :: "EnvRecord \<times> App option \<Rightarrow> bool" where
  "named_ok p \<longleftrightarrow> ValidSlug (env_Name (fst p)) \<and> ValidSlug (env_App (fst p)) \<and> list_all ValidSlug (hostNames (snd p)) \<and>
     distinct (hostNames (snd p))"

lemma env_names_dotted: "ad_Names (env_Address parse rec cfg) = map (\<lambda>ls. dotted (ls @ [Domain])) (env_labels rec cfg)"
  by (simp add: env_Address_def EnvHosts_def EnvHost_def ServiceHost_def env_labels_def dotted_def)

lemma slug_labels: "list_all ValidSlug ls \<Longrightarrow> labels_ok (ls @ [Domain])"
proof -
  have "Domain \<noteq> [] \<and> list_all name_char Domain" by (simp add: Domain_def name_char_set)
  moreover assume "list_all ValidSlug ls"
  then have "list_all (\<lambda>l. l \<noteq> [] \<and> list_all name_char l) ls" by (rule list.pred_mono_strong) (use ValidSlug_plain in blast)
  ultimately show "labels_ok (ls @ [Domain])" by (simp add: labels_ok_def)
qed

lemma env_labels_slugs: "named_ok p \<Longrightarrow> ls \<in> set (env_labels (fst p) (snd p)) \<Longrightarrow> ls \<noteq> [] \<and> list_all ValidSlug ls"
  by (auto simp: named_ok_def env_labels_def list_all_iff)

lemma env_labels_distinct:
  assumes "list_all named_ok ps" "distinct (map (\<lambda>p. (env_App (fst p), env_Name (fst p))) ps)"
  shows "distinct (concat (map (\<lambda>p. env_labels (fst p) (snd p)) ps))"
  using assms
proof (induction ps)
  case (Cons p ps)
  have "distinct (env_labels (fst p) (snd p))"
    using Cons.prems(1) by (auto simp: env_labels_def named_ok_def distinct_map inj_on_def)
  moreover have "set (env_labels (fst p) (snd p)) \<inter> set (env_labels (fst q) (snd q)) = {}" if "q \<in> set ps" for q
  proof -
    have "(env_App (fst p), env_Name (fst p)) \<noteq> (env_App (fst q), env_Name (fst q))" using that Cons.prems(2) by (auto simp: image_iff)
    then show ?thesis by (auto simp: env_labels_def)
  qed
  ultimately show ?case using Cons by auto
qed simp

text \<open>C25: the names of a machine's environments resolve. When the machine, the applications, the environments and their
  services and dependencies are named by slugs, no two environments of an application share a name and no two services or
  dependencies of an environment do, and every environment has an address, the zone made of their addresses is accepted,
  and the machine's name, every environment's and every service's and dependency's resolve to exactly that one
  address.\<close>

theorem names_resolve:
  assumes "ValidSlug machine" "own \<noteq> InvalidAddr" "list_all named_ok ps"
    and "distinct (map (\<lambda>p. (env_App (fst p), env_Name (fst p))) ps)"
    and "\<forall>p \<in> set ps. \<exists>ip. parse (env_VPNIP (fst p)) = Some ip \<and> ip \<noteq> InvalidAddr"
  shows "\<exists>r'. SetZone (own_Address machine own # map (\<lambda>p. env_Address parse (fst p) (snd p)) ps) r = Inr r' \<and>
    zone_Resolve r' (MachineHost machine) = Inr [own] \<and>
    (\<forall>p \<in> set ps. \<forall>ip. parse (env_VPNIP (fst p)) = Some ip \<longrightarrow>
      zone_Resolve r' (EnvHost (env_App (fst p)) (env_Name (fst p))) = Inr [ip] \<and>
      (\<forall>n \<in> set (hostNames (snd p)). zone_Resolve r' (ServiceHost (env_App (fst p)) (env_Name (fst p)) n) = Inr [ip]))"
proof -
  let ?a = "\<lambda>p. env_Address parse (fst p) (snd p)" and ?d = "\<lambda>ls. dotted (ls @ [Domain])"
  let ?as = "own_Address machine own # map ?a ps" and ?L = "[machine] # concat (map (\<lambda>p. env_labels (fst p) (snd p)) ps)"
  have own: "ad_Names (own_Address machine own) = [?d [machine]]"
    using ValidSlug_plain[OF assms(1)] by (simp add: own_Address_def MachineHost_def dotted_def)
  then have names: "concat (map ad_Names ?as) = map ?d ?L" by (simp add: env_names_dotted map_concat comp_def)
  have slugs: "ls \<noteq> [] \<and> list_all ValidSlug ls" if "ls \<in> set ?L" for ls
    using that assms(1,3) env_labels_slugs by (auto simp: list_all_iff)
  then have "inj_on ?d (set ?L)"
    by (intro inj_onI) (metis append_same_eq dotted_inject slug_labels)
  moreover have "[machine] \<notin> set (concat (map (\<lambda>p. env_labels (fst p) (snd p)) ps))" by (auto simp: env_labels_def)
  ultimately have d: "distinct (concat (map ad_Names ?as))"
    unfolding names distinct_map using env_labels_distinct[OF assms(3,4)] by simp
  have "Normalize n = n \<and> IsInternal n" if "n \<in> set (map ?d ?L)" for n
  proof -
    from that obtain ls where "ls \<in> set ?L" "n = ?d ls" unfolding set_map by (rule imageE)
    then show ?thesis using slugs slug_labels Normalize_dotted IsInternal_dotted by metis
  qed
  then have "Normalize n = n \<and> IsInternal n" if "a \<in> set ?as" "n \<in> set (ad_Names a)" for a n
    using that unfolding names[symmetric] by auto
  moreover have "ad_IP a \<noteq> InvalidAddr" if "a \<in> set ?as" for a
    using that assms(2,5) by (fastforce simp: own_Address_def env_Address_def)
  ultimately obtain r' where r': "SetZone ?as r = Inr r'"
    "\<And>a n. a \<in> set ?as \<Longrightarrow> n \<in> set (ad_Names a) \<Longrightarrow> zone_Resolve r' n = Inr [ad_IP a]"
    using SetZone_resolves[of ?as r] d by blast
  have "zone_Resolve r' (MachineHost machine) = Inr [own]"
    using r'(2)[of "own_Address machine own" "MachineHost machine"] ValidSlug_plain[OF assms(1)] by (simp add: own_Address_def)
  moreover have "zone_Resolve r' n = Inr [ip]"
    if "p \<in> set ps" "parse (env_VPNIP (fst p)) = Some ip" "n \<in> set (EnvHosts (env_App (fst p)) (env_Name (fst p)) (hostNames (snd p)))" for p ip n
  proof -
    have "?a p \<in> set ?as" using that(1) by simp
    moreover have "n \<in> set (ad_Names (?a p))" "ad_IP (?a p) = ip" using that(2,3) by (simp_all add: env_Address_def)
    ultimately show ?thesis using r'(2) by metis
  qed
  ultimately show ?thesis using r'(1) by (auto simp: EnvHosts_def)
qed

definition net_env :: "string \<Rightarrow> string \<Rightarrow> EnvRecord" where
  "net_env name ip = \<lparr>env_ID = 0, env_App = ''shop'', env_Name = name, env_Branch = [], env_Commit = [], env_Worktree = [],
     env_PortBase = 20000, env_PortCount = 20, env_Status = [], env_ConfigJSON = [], env_VarsJSON = [], env_VPNIP = ip, env_Mode = [],
     env_Protected = False, env_ReleaseID = 0, env_DeployID = 0, env_CreatedBy = [], env_Owner = [], env_Via = [], env_PushedAt = 0,
     env_PushedBy = [], env_SourceBranch = [], env_CreatedAt = 0, env_UpdatedAt = 0\<rparr>"

definition net_app :: App where
  "net_app = \<lparr>app_Name = ''shop'', app_Domain = [], app_Deps = [\<lparr>dep_Name = ''db'', dep_Image = [], dep_Port = 0, dep_Env = [], dep_Ready = [], dep_Data = []\<rparr>], app_Services = [],
     app_Test = [], app_Deploy = None, app_Envs = [], app_Placement = [], app_Env = []\<rparr>"

theorem names_resolve_witness:
  "\<exists>r'. SetZone [own_Address ''box'' (Addr4 1), env_Address (\<lambda>s. Some (Addr4 (of_nat (length s)))) (net_env ''a'' ''10'') None,
        env_Address (\<lambda>s. Some (Addr4 (of_nat (length s)))) (net_env ''b'' ''100'') (Some net_app)] NewResolver = Inr r' \<and>
     zone_Resolve r' ''box.internal'' = Inr [Addr4 1] \<and> zone_Resolve r' ''a.shop.internal'' = Inr [Addr4 2] \<and>
     zone_Resolve r' ''db.b.shop.internal'' = Inr [Addr4 3]"
proof -
  let ?ps = "[(net_env ''a'' ''10'', None), (net_env ''b'' ''100'', Some net_app)]"
  have slug: "ValidSlug ''box''" "ValidSlug ''a''" "ValidSlug ''b''" "ValidSlug ''shop''" "ValidSlug ''db''" by code_simp+
  have ok: "list_all named_ok ?ps" using slug by (simp add: named_ok_def net_env_def net_app_def hostNames_def)
  have d: "distinct (map (\<lambda>p. (env_App (fst p), env_Name (fst p))) ?ps)" by (simp add: net_env_def)
  have ip: "\<forall>p \<in> set ?ps. \<exists>ip. Some (Addr4 (of_nat (length (env_VPNIP (fst p))))) = Some ip \<and> ip \<noteq> InvalidAddr" by simp
  have host: "MachineHost ''box'' = ''box.internal''" "EnvHost ''shop'' ''a'' = ''a.shop.internal''"
    "ServiceHost ''shop'' ''b'' ''db'' = ''db.b.shop.internal''" by code_simp+
  show ?thesis
    using names_resolve[OF slug(1) _ ok d ip, of "Addr4 1" NewResolver] host
    by (auto simp: net_env_def net_app_def hostNames_def)
qed

end
