(* ===== verification/EdgeStore.thy ===== *)
theory EdgeStore
  imports EdgeTable
begin

text \<open>
  The routes and their targets in the state store (\<^verbatim>\<open>internal/state/edge.go\<close> over the tables \<^verbatim>\<open>routes\<close> and
  \<^verbatim>\<open>edge_targets\<close> of \<^verbatim>\<open>migrations/0001_schema.sql\<close>). Routes are kept in the order of their ids. The kinds and states are
  the strings of the edge, so the datatypes of \<open>EdgeTable\<close> stand for them; the empty string is \<open>OtherState []\<close> and
  \<open>OtherKind []\<close>. The ids of the environments, which routes refer to, are part of the state. A \<^verbatim>\<open>UNIQUE\<close> constraint is
  checked when the row is inserted and a foreign key at the end of the statement, as SQLite does. A failing
  connection is not modelled.
\<close>

record RouteRow =
  rr_ID :: int
  rr_EnvID :: int
  rr_Service :: string
  rr_Host :: string
  rr_Kind :: Kind
  rr_Managed :: bool
  rr_CreatedAt :: gtime

record EdgeTarget =
  et_RouteID :: int
  et_Replica :: int
  et_Port :: int
  et_State :: TargetState
  et_Inflight :: int
  et_UpdatedAt :: gtime

record edge_store =
  es_routes :: "RouteRow list"
  es_next :: int
  es_targets :: "EdgeTarget list"
  es_envs :: "int list"

datatype edge_store_error =
    RouteNoEnvID | RouteEmptyHost | RouteEmptyService string | RouteExists | RouteNoEnv string int | RouteNotFound
  | TargetNoRouteID | TargetBadReplica int int | TargetNoRoute int int

definition normalizeHost :: "string \<Rightarrow> string" where
  "normalizeHost s = ToLower (TrimSuffix (TrimSpace s) ''.'')"

section \<open>Routes\<close>

definition store_Routes :: "edge_store \<Rightarrow> RouteRow list" where
  "store_Routes s = sort_key rr_Host (es_routes s)"

definition RoutesOfEnv :: "edge_store \<Rightarrow> int \<Rightarrow> RouteRow list" where
  "RoutesOfEnv s envID = filter (\<lambda>r. rr_EnvID r = envID) (es_routes s)"

definition RouteByHost :: "edge_store \<Rightarrow> string \<Rightarrow> edge_store_error + RouteRow" where
  "RouteByHost s host =
     (case find (\<lambda>r. rr_Host r = normalizeHost host) (es_routes s) of None \<Rightarrow> Inl RouteNotFound | Some r \<Rightarrow> Inr r)"

definition AddRoute :: "gtime \<Rightarrow> edge_store \<Rightarrow> RouteRow \<Rightarrow> edge_store_error + (RouteRow \<times> edge_store)" where
  "AddRoute now s r0 =
     (let r = r0\<lparr>rr_Host := normalizeHost (rr_Host r0)\<rparr>
      in if rr_EnvID r = 0 then Inl RouteNoEnvID
         else if rr_Host r = [] then Inl RouteEmptyHost
         else if rr_Service r = [] then Inl (RouteEmptyService (rr_Host r))
         else
           (let r1 = (if rr_Kind r = OtherKind [] then r\<lparr>rr_Kind := KindHTTPS\<rparr> else r);
                r2 = (if is_zero (rr_CreatedAt r1) then r1\<lparr>rr_CreatedAt := now\<rparr> else r1);
                row = r2\<lparr>rr_ID := es_next s\<rparr>
            in if rr_Host r2 \<in> rr_Host ` set (es_routes s) then Inl RouteExists
               else if rr_EnvID r2 \<notin> set (es_envs s) then Inl (RouteNoEnv (rr_Host r2) (rr_EnvID r2))
               else Inr (row, s\<lparr>es_routes := es_routes s @ [row], es_next := es_next s + 1\<rparr>)))"

definition DeleteRoute :: "edge_store \<Rightarrow> int \<Rightarrow> edge_store" where
  "DeleteRoute s i =
     s\<lparr>es_routes := filter (\<lambda>r. rr_ID r \<noteq> i) (es_routes s), es_targets := filter (\<lambda>t. et_RouteID t \<noteq> i) (es_targets s)\<rparr>"

definition SetRouteManaged :: "edge_store \<Rightarrow> int \<Rightarrow> bool \<Rightarrow> edge_store_error + edge_store" where
  "SetRouteManaged s i managed =
     (if i \<in> rr_ID ` set (es_routes s)
      then Inr (s\<lparr>es_routes := map (\<lambda>r. if rr_ID r = i then r\<lparr>rr_Managed := managed\<rparr> else r) (es_routes s)\<rparr>)
      else Inl RouteNotFound)"

text \<open>What the database does to the routes when an environment is deleted or created.\<close>

definition env_deleted :: "edge_store \<Rightarrow> int \<Rightarrow> edge_store" where
  "env_deleted s e =
     (let gone = map rr_ID (filter (\<lambda>r. rr_EnvID r = e) (es_routes s))
      in s\<lparr>es_envs := filter (\<lambda>x. x \<noteq> e) (es_envs s), es_routes := filter (\<lambda>r. rr_EnvID r \<noteq> e) (es_routes s),
           es_targets := filter (\<lambda>t. et_RouteID t \<notin> set gone) (es_targets s)\<rparr>)"

definition env_created :: "edge_store \<Rightarrow> int \<Rightarrow> edge_store" where
  "env_created s e = s\<lparr>es_envs := e # es_envs s\<rparr>"

section \<open>Targets\<close>

definition target_key :: "EdgeTarget \<Rightarrow> int \<times> int" where
  "target_key t = (et_RouteID t, et_Replica t)"

definition store_Targets :: "edge_store \<Rightarrow> int \<Rightarrow> EdgeTarget list" where
  "store_Targets s routeID = sort_key et_Replica (filter (\<lambda>t. et_RouteID t = routeID) (es_targets s))"

definition filled_target :: "gtime \<Rightarrow> EdgeTarget \<Rightarrow> EdgeTarget" where
  "filled_target now t =
     (let t1 = (if et_State t = OtherState [] then t\<lparr>et_State := TargetStarting\<rparr> else t)
      in if is_zero (et_UpdatedAt t1) then t1\<lparr>et_UpdatedAt := now\<rparr> else t1)"

definition PutTarget :: "gtime \<Rightarrow> edge_store \<Rightarrow> EdgeTarget \<Rightarrow> edge_store_error + edge_store" where
  "PutTarget now s t =
     (if et_RouteID t = 0 then Inl TargetNoRouteID
      else if et_Replica t < 1 then Inl (TargetBadReplica (et_RouteID t) (et_Replica t))
      else if et_RouteID t \<notin> rr_ID ` set (es_routes s) then Inl (TargetNoRoute (et_Replica t) (et_RouteID t))
      else Inr (s\<lparr>es_targets := upsert_by target_key (filled_target now t) (es_targets s)\<rparr>))"

fun put_targets :: "gtime \<Rightarrow> edge_store \<Rightarrow> EdgeTarget list \<Rightarrow> edge_store_error + edge_store" where
  "put_targets now s [] = Inr s"
| "put_targets now s (t # ts) = bind_result (PutTarget now s t) (\<lambda>s'. put_targets now s' ts)"

definition DeleteTarget :: "edge_store \<Rightarrow> int \<Rightarrow> int \<Rightarrow> edge_store" where
  "DeleteTarget s routeID replica = s\<lparr>es_targets := filter (\<lambda>t. target_key t \<noteq> (routeID, replica)) (es_targets s)\<rparr>"

text \<open>\<^verbatim>\<open>SetTargets\<close> is a transaction: an error leaves the store as it was.\<close>

definition SetTargets :: "gtime \<Rightarrow> edge_store \<Rightarrow> int \<Rightarrow> EdgeTarget list \<Rightarrow> edge_store_error + edge_store" where
  "SetTargets now s routeID targets =
     put_targets now (s\<lparr>es_targets := filter (\<lambda>t. et_RouteID t \<noteq> routeID) (es_targets s)\<rparr>)
       (map (\<lambda>t. t\<lparr>et_RouteID := routeID\<rparr>) targets)"

section \<open>The invariant of the tables\<close>

definition edge_store_inv :: "edge_store \<Rightarrow> bool" where
  "edge_store_inv s \<longleftrightarrow>
     0 < es_next s \<and> sorted_wrt (<) (map rr_ID (es_routes s)) \<and>
     (\<forall>r \<in> set (es_routes s). 0 < rr_ID r \<and> rr_ID r < es_next s \<and> rr_EnvID r \<in> set (es_envs s) \<and>
        rr_Host r \<noteq> [] \<and> rr_Service r \<noteq> [] \<and> rr_Kind r \<noteq> OtherKind []) \<and>
     distinct (map rr_Host (es_routes s)) \<and>
     distinct (map target_key (es_targets s)) \<and>
     (\<forall>t \<in> set (es_targets s). et_RouteID t \<in> rr_ID ` set (es_routes s) \<and> 1 \<le> et_Replica t \<and> et_State t \<noteq> OtherState [])"

definition empty_store :: "int list \<Rightarrow> edge_store" where
  "empty_store envs = \<lparr>es_routes = [], es_next = 1, es_targets = [], es_envs = envs\<rparr>"

inductive edge_store_step :: "edge_store \<Rightarrow> edge_store \<Rightarrow> bool" where
  step_add: "AddRoute now s r = Inr (r', s') \<Longrightarrow> edge_store_step s s'"
| step_delete: "edge_store_step s (DeleteRoute s i)"
| step_managed: "SetRouteManaged s i b = Inr s' \<Longrightarrow> edge_store_step s s'"
| step_put: "PutTarget now s t = Inr s' \<Longrightarrow> edge_store_step s s'"
| step_set: "SetTargets now s i ts = Inr s' \<Longrightarrow> edge_store_step s s'"
| step_remove: "edge_store_step s (DeleteTarget s i n)"
| step_env_deleted: "edge_store_step s (env_deleted s e)"
| step_env_created: "edge_store_step s (env_created s e)"

lemma filled_target_simps [simp]:
  "et_RouteID (filled_target now t) = et_RouteID t" "et_Replica (filled_target now t) = et_Replica t"
  "et_Port (filled_target now t) = et_Port t" "et_Inflight (filled_target now t) = et_Inflight t"
  "target_key (filled_target now t) = target_key t" "et_State (filled_target now t) \<noteq> OtherState []"
  by (auto simp: filled_target_def target_key_def Let_def)

lemma filled_target_id: "et_State t \<noteq> OtherState [] \<Longrightarrow> et_UpdatedAt t \<noteq> 0 \<Longrightarrow> filled_target now t = t"
  by (simp add: filled_target_def)

lemma inv_AddRoute:
  assumes "edge_store_inv s" "AddRoute now s r = Inr (r', s')"
  shows "edge_store_inv s'"
proof -
  obtain row where row: "s' = s\<lparr>es_routes := es_routes s @ [row], es_next := es_next s + 1\<rparr>" "rr_ID row = es_next s"
    "rr_Host row \<notin> rr_Host ` set (es_routes s)" "rr_EnvID row \<in> set (es_envs s)" "rr_Host row \<noteq> []" "rr_Service row \<noteq> []"
    "rr_Kind row \<noteq> OtherKind []"
    using assms(2) by (auto simp: AddRoute_def Let_def split: if_splits)
  then show ?thesis using assms(1) by (fastforce simp: edge_store_inv_def sorted_wrt_append)
qed

lemma inv_PutTarget:
  assumes "edge_store_inv s" "PutTarget now s t = Inr s'"
  shows "edge_store_inv s'"
  using assms by (auto simp: PutTarget_def edge_store_inv_def set_upsert_by distinct_upsert_by split: if_splits)

lemma inv_put_targets: "edge_store_inv s \<Longrightarrow> put_targets now s ts = Inr s' \<Longrightarrow> edge_store_inv s'"
  by (induction ts arbitrary: s) (auto simp: bind_result_Inr intro: inv_PutTarget)

lemma inv_fewer_targets: "edge_store_inv s \<Longrightarrow> edge_store_inv (s\<lparr>es_targets := filter P (es_targets s)\<rparr>)"
  by (auto simp: edge_store_inv_def distinct_map_filter)

lemma inv_fewer_routes:
  assumes "edge_store_inv s" "\<And>r t. r \<in> set (es_routes s) \<Longrightarrow> t \<in> set (es_targets s) \<Longrightarrow> Q t \<Longrightarrow> et_RouteID t = rr_ID r \<Longrightarrow> P r"
    and "\<And>r. P r \<Longrightarrow> rr_EnvID r \<in> set (es_envs s) \<Longrightarrow> rr_EnvID r \<in> set envs"
  shows "edge_store_inv (s\<lparr>es_envs := envs, es_routes := filter P (es_routes s), es_targets := filter Q (es_targets s)\<rparr>)"
  using assms by (fastforce simp: edge_store_inv_def distinct_map_filter sorted_wrt_filter sorted_wrt_map)

lemma inv_SetRouteManaged:
  assumes "edge_store_inv s" "SetRouteManaged s i b = Inr s'"
  shows "edge_store_inv s'"
proof -
  define f where "f r = (if rr_ID r = i then r\<lparr>rr_Managed := b\<rparr> else r)" for r :: RouteRow
  have s': "s' = s\<lparr>es_routes := map f (es_routes s)\<rparr>"
    using assms(2) by (auto simp: SetRouteManaged_def f_def split: if_splits)
  have f: "rr_ID (f r) = rr_ID r" "rr_EnvID (f r) = rr_EnvID r" "rr_Host (f r) = rr_Host r" "rr_Service (f r) = rr_Service r"
    "rr_Kind (f r) = rr_Kind r" for r by (simp_all add: f_def)
  show ?thesis using assms(1) by (simp add: s' edge_store_inv_def f comp_def image_image)
qed

lemma inv_step: "edge_store_step s s' \<Longrightarrow> edge_store_inv s \<Longrightarrow> edge_store_inv s'"
proof (induction rule: edge_store_step.induct)
  case (step_delete s i)
  have "edge_store_inv (s\<lparr>es_envs := es_envs s, es_routes := filter (\<lambda>r. rr_ID r \<noteq> i) (es_routes s),
      es_targets := filter (\<lambda>t. et_RouteID t \<noteq> i) (es_targets s)\<rparr>)"
    by (rule inv_fewer_routes[OF step_delete]) auto
  then show ?case by (simp add: DeleteRoute_def)
next
  case (step_env_deleted s e)
  have "edge_store_inv (s\<lparr>es_envs := filter (\<lambda>x. x \<noteq> e) (es_envs s), es_routes := filter (\<lambda>r. rr_EnvID r \<noteq> e) (es_routes s),
      es_targets := filter (\<lambda>t. et_RouteID t \<notin> set (map rr_ID (filter (\<lambda>r. rr_EnvID r = e) (es_routes s)))) (es_targets s)\<rparr>)"
    by (rule inv_fewer_routes[OF step_env_deleted]) auto
  then show ?case by (simp add: env_deleted_def Let_def)
next
  case (step_env_created s e)
  then show ?case by (auto simp: edge_store_inv_def env_created_def)
next
  case (step_set now s i ts s')
  then show ?case unfolding SetTargets_def using inv_put_targets inv_fewer_targets by blast
qed (auto intro: inv_AddRoute inv_PutTarget inv_SetRouteManaged inv_fewer_targets simp: DeleteTarget_def)

lemma inv_steps: "edge_store_step\<^sup>*\<^sup>* s s' \<Longrightarrow> edge_store_inv s \<Longrightarrow> edge_store_inv s'"
  by (induction rule: rtranclp_induct) (auto intro: inv_step)

lemma inv_empty: "edge_store_inv (empty_store envs)"
  by (simp add: edge_store_inv_def empty_store_def)

section \<open>Reading back what was set\<close>

definition settable :: "edge_store \<Rightarrow> EdgeTarget \<Rightarrow> bool" where
  "settable s t \<longleftrightarrow> et_RouteID t \<noteq> 0 \<and> 1 \<le> et_Replica t \<and> et_RouteID t \<in> rr_ID ` set (es_routes s)"

lemma PutTarget_Inr:
  "PutTarget now s t = Inr s' \<longleftrightarrow>
     settable s t \<and> s' = s\<lparr>es_targets := upsert_by target_key (filled_target now t) (es_targets s)\<rparr>"
  by (auto simp: PutTarget_def settable_def)

lemma put_targets_fresh:
  assumes "distinct (map target_key ts)" "target_key ` set ts \<inter> target_key ` set (es_targets s) = {}"
  shows "put_targets now s ts = Inr s' \<longleftrightarrow>
    (\<forall>t \<in> set ts. settable s t) \<and> s' = s\<lparr>es_targets := es_targets s @ map (filled_target now) ts\<rparr>"
  using assms
proof (induction ts arbitrary: s)
  case (Cons t ts)
  define s1 where "s1 = s\<lparr>es_targets := es_targets s @ [filled_target now t]\<rparr>"
  have put: "PutTarget now s t = Inr s'' \<longleftrightarrow> settable s t \<and> s'' = s1" for s''
    using Cons.prems(2) unfolding PutTarget_Inr upsert_by_def s1_def by auto
  have rest: "put_targets now s1 ts = Inr s' \<longleftrightarrow>
      (\<forall>t \<in> set ts. settable s1 t) \<and> s' = s1\<lparr>es_targets := es_targets s1 @ map (filled_target now) ts\<rparr>"
    using Cons.prems by (intro Cons.IH) (auto simp: s1_def)
  have "settable s1 = settable s" by (auto simp: s1_def settable_def fun_eq_iff)
  then show ?case by (auto simp: bind_result_Inr put rest) (auto simp: s1_def)
qed auto

lemma SetTargets_Inr:
  assumes "distinct (map et_Replica ts)"
  shows "SetTargets now s i ts = Inr s' \<longleftrightarrow>
    (\<forall>t \<in> set ts. settable s (t\<lparr>et_RouteID := i\<rparr>)) \<and>
    s' = s\<lparr>es_targets := filter (\<lambda>t. et_RouteID t \<noteq> i) (es_targets s) @ map (\<lambda>t. filled_target now (t\<lparr>et_RouteID := i\<rparr>)) ts\<rparr>"
proof -
  have "map target_key (map (\<lambda>t. t\<lparr>et_RouteID := i\<rparr>) ts) = map (Pair i) (map et_Replica ts)"
    by (simp add: target_key_def)
  then have "distinct (map target_key (map (\<lambda>t. t\<lparr>et_RouteID := i\<rparr>) ts))"
    using assms by (simp only: distinct_map) (simp add: inj_on_def distinct_map)
  then show ?thesis
    unfolding SetTargets_def by (subst put_targets_fresh) (auto simp: target_key_def settable_def comp_def)
qed

text \<open>C22: in every store reached by the operations on routes and targets, no two routes have the same host, ids are
  unique and never used again, every route belongs to an environment and every target to a route, and no route has two
  targets of one replica. Setting the targets of a route succeeds exactly when the route exists and the replicas
  are numbered from 1, or there are none; afterwards the targets of the route are those set, in the order of their
  replicas, with the state and the time filled in where they were empty, and no other route has changed.\<close>

theorem edge_store_correct:
  assumes "edge_store_step\<^sup>*\<^sup>* (empty_store envs) s" "distinct (map et_Replica ts)"
  shows "edge_store_inv s \<and>
    ((\<exists>s'. SetTargets now s i ts = Inr s') \<longleftrightarrow>
      (ts = [] \<or> i \<in> rr_ID ` set (es_routes s)) \<and> (\<forall>t \<in> set ts. 1 \<le> et_Replica t)) \<and>
    (\<forall>s'. SetTargets now s i ts = Inr s' \<longrightarrow>
      store_Targets s' i = map (\<lambda>t. filled_target now (t\<lparr>et_RouteID := i\<rparr>)) (sort_key et_Replica ts) \<and>
      (\<forall>j. j \<noteq> i \<longrightarrow> store_Targets s' j = store_Targets s j) \<and> es_routes s' = es_routes s)"
proof -
  have inv: "edge_store_inv s" using inv_steps[OF assms(1) inv_empty] .
  have i: "i \<noteq> 0" if "i \<in> rr_ID ` set (es_routes s)" using inv that by (auto simp: edge_store_inv_def)
  have ok: "(\<exists>s'. SetTargets now s i ts = Inr s') \<longleftrightarrow>
      (ts = [] \<or> i \<in> rr_ID ` set (es_routes s)) \<and> (\<forall>t \<in> set ts. 1 \<le> et_Replica t)"
    using i unfolding SetTargets_Inr[OF assms(2)] by (cases ts) (auto simp: settable_def)
  have sorted: "sort_key et_Replica (map (\<lambda>t. filled_target now (t\<lparr>et_RouteID := i\<rparr>)) ts) =
      map (\<lambda>t. filled_target now (t\<lparr>et_RouteID := i\<rparr>)) (sort_key et_Replica ts)"
    by (rule sort_key_map_commute) simp
  have "store_Targets s' i = map (\<lambda>t. filled_target now (t\<lparr>et_RouteID := i\<rparr>)) (sort_key et_Replica ts) \<and>
      (\<forall>j. j \<noteq> i \<longrightarrow> store_Targets s' j = store_Targets s j) \<and> es_routes s' = es_routes s"
    if "SetTargets now s i ts = Inr s'" for s'
    using that unfolding SetTargets_Inr[OF assms(2)]
    by (auto simp: store_Targets_def comp_def sorted intro!: arg_cong[where f = "sort_key et_Replica"] filter_cong)
  with inv ok show ?thesis by blast
qed

definition example_store :: edge_store where
  "example_store = (case AddRoute 5 (empty_store [7])
       \<lparr>rr_ID = 0, rr_EnvID = 7, rr_Service = ''web'', rr_Host = ''Shop.example.com.'', rr_Kind = OtherKind [], rr_Managed = True,
        rr_CreatedAt = 0\<rparr> of Inr (_, s) \<Rightarrow> s | Inl _ \<Rightarrow> empty_store [7])"

definition example_row :: "int \<Rightarrow> int \<Rightarrow> EdgeTarget" where
  "example_row n port = \<lparr>et_RouteID = 0, et_Replica = n, et_Port = port, et_State = TargetActive, et_Inflight = 0, et_UpdatedAt = 3\<rparr>"

lemma example_store_eq:
  "example_store = \<lparr>es_routes = [\<lparr>rr_ID = 1, rr_EnvID = 7, rr_Service = ''web'', rr_Host = ''shop.example.com'',
     rr_Kind = KindHTTPS, rr_Managed = True, rr_CreatedAt = 5\<rparr>], es_next = 2, es_targets = [], es_envs = [7]\<rparr>"
  by code_simp

lemma example_store_reached: "edge_store_step\<^sup>*\<^sup>* (empty_store [7]) example_store"
proof -
  have "\<exists>now r r'. AddRoute now (empty_store [7]) r = Inr (r', example_store)"
    by (rule exI[of _ 5], rule exI[of _ "\<lparr>rr_ID = 0, rr_EnvID = 7, rr_Service = ''web'', rr_Host = ''Shop.example.com.'',
        rr_Kind = OtherKind [], rr_Managed = True, rr_CreatedAt = 0\<rparr>"],
        rule exI[of _ "\<lparr>rr_ID = 1, rr_EnvID = 7, rr_Service = ''web'', rr_Host = ''shop.example.com'',
        rr_Kind = KindHTTPS, rr_Managed = True, rr_CreatedAt = 5\<rparr>"]) code_simp
  then show ?thesis using step_add by blast
qed

theorem edge_store_correct_witness:
  "\<exists>s'. SetTargets 9 example_store 1 [example_row 2 20001, example_row 1 20000] = Inr s' \<and>
     store_Targets s' 1 = map (\<lambda>t. t\<lparr>et_RouteID := 1\<rparr>) [example_row 1 20000, example_row 2 20001]"
proof -
  have d: "distinct (map et_Replica [example_row 2 20001, example_row 1 20000])" by (simp add: example_row_def)
  note c = edge_store_correct[OF example_store_reached d, of 9 1]
  obtain s' where s': "SetTargets 9 example_store 1 [example_row 2 20001, example_row 1 20000] = Inr s'"
    using c by (auto simp: example_store_eq example_row_def)
  moreover have "store_Targets s' 1 = map (\<lambda>t. t\<lparr>et_RouteID := 1\<rparr>) [example_row 1 20000, example_row 2 20001]"
    using c s' by (simp add: example_row_def filled_target_id)
  ultimately show ?thesis by blast
qed

end
