(* ===== verification/EnvReplicas.thy ===== *)
theory EnvReplicas
  imports EnvNames PortLayout EdgeStore ConfigApp
begin

text \<open>
  The services of an environment in the store (\<^verbatim>\<open>internal/state/service.go\<close>), the states of a replica
  (\<^verbatim>\<open>internal/env/replica.go\<close>) and what the daemon knows of the replicas of a service (\<^verbatim>\<open>internal/env/replicas.go\<close>).
  The containers with the labels of a service are an argument: the answer of the container runtime. Where the source
  sorts replicas by their numbers with an unstable sort, equal numbers keep their order here.
\<close>

section \<open>Services in the store\<close>

record EnvService =
  es_ID :: int
  es_EnvID :: int
  es_Name :: string
  es_Image :: string
  es_Container :: string
  es_Port :: int
  es_ContainerPort :: int
  es_Protocol :: string
  es_CommandJSON :: string
  es_VarsJSON :: string
  es_HealthJSON :: string
  es_Status :: string
  es_UpdatedAt :: gtime
  es_Replicas :: int

definition ServiceStarting :: string where "ServiceStarting = ''starting''"
definition ServiceRunning :: string where "ServiceRunning = ''running''"
definition ServiceFailed :: string where "ServiceFailed = ''failed''"
definition ServiceStopped :: string where "ServiceStopped = ''stopped''"
definition ServiceExited :: string where "ServiceExited = ''exited''"
definition ServiceMissing :: string where "ServiceMissing = ''missing''"

record service_table =
  st_rows :: "EnvService list"
  st_next :: int
  st_envs :: "int list"

datatype service_error = ServiceNoEnvID | ServiceEmptyName | ServiceNoEnv string int

definition Services :: "service_table \<Rightarrow> int \<Rightarrow> EnvService list" where
  "Services t envID = filter (\<lambda>s. es_EnvID s = envID) (st_rows t)"

definition service_key :: "EnvService \<Rightarrow> int \<times> string" where
  "service_key s = (es_EnvID s, es_Name s)"

text \<open>The row of a conflicting insert keeps its id; a fresh one gets the next.\<close>

definition PutService :: "gtime \<Rightarrow> service_table \<Rightarrow> EnvService \<Rightarrow> service_error + service_table" where
  "PutService now t svc =
     (if es_EnvID svc = 0 then Inl ServiceNoEnvID
      else if es_Name svc = [] then Inl ServiceEmptyName
      else
        (let s1 = (if es_Status svc = [] then svc\<lparr>es_Status := ServiceStarting\<rparr> else svc);
             s2 = (if es_Protocol s1 = [] then s1\<lparr>es_Protocol := ''tcp''\<rparr> else s1);
             s3 = (if es_Replicas s2 \<le> 0 then s2\<lparr>es_Replicas := 1\<rparr> else s2);
             s4 = (if is_zero (es_UpdatedAt s3) then s3\<lparr>es_UpdatedAt := now\<rparr> else s3)
         in if es_EnvID s4 \<notin> set (st_envs t) then Inl (ServiceNoEnv (es_Name s4) (es_EnvID s4))
            else (case find (\<lambda>r. service_key r = service_key s4) (st_rows t) of
                    Some old \<Rightarrow> Inr (t\<lparr>st_rows := upsert_by service_key (s4\<lparr>es_ID := es_ID old\<rparr>) (st_rows t)\<rparr>)
                  | None \<Rightarrow> Inr (t\<lparr>st_rows := upsert_by service_key (s4\<lparr>es_ID := st_next t\<rparr>) (st_rows t), st_next := st_next t + 1\<rparr>))))"

definition DeleteService :: "service_table \<Rightarrow> int \<Rightarrow> string \<Rightarrow> service_table" where
  "DeleteService t envID name = t\<lparr>st_rows := filter (\<lambda>s. service_key s \<noteq> (envID, name)) (st_rows t)\<rparr>"

section \<open>States of a replica\<close>

datatype ReplicaState =
    ReplicaStarting | ReplicaHealthy | ReplicaActive | ReplicaDraining | ReplicaStopped | ReplicaFailed
  | ReplicaHeld | ReplicaUnhealthy | OtherReplica string

definition ReplicaStates :: "ReplicaState list" where
  "ReplicaStates = [ReplicaStarting, ReplicaHealthy, ReplicaActive, ReplicaDraining, ReplicaStopped, ReplicaFailed,
     ReplicaHeld, ReplicaUnhealthy]"

definition replica_Valid :: "ReplicaState \<Rightarrow> bool" where
  "replica_Valid s \<longleftrightarrow> s \<in> set ReplicaStates"

fun replica_TargetState :: "ReplicaState \<Rightarrow> TargetState" where
  "replica_TargetState ReplicaActive = TargetActive"
| "replica_TargetState ReplicaDraining = TargetDraining"
| "replica_TargetState ReplicaStopped = TargetStopped"
| "replica_TargetState ReplicaFailed = TargetStopped"
| "replica_TargetState ReplicaHeld = TargetHeld"
| "replica_TargetState ReplicaUnhealthy = TargetUnhealthy"
| "replica_TargetState _ = TargetStarting"

text \<open>The conversion \<^verbatim>\<open>ReplicaState(t.State)\<close>, which keeps the string.\<close>

fun state_of_target :: "TargetState \<Rightarrow> ReplicaState" where
  "state_of_target TargetStarting = ReplicaStarting"
| "state_of_target TargetActive = ReplicaActive"
| "state_of_target TargetDraining = ReplicaDraining"
| "state_of_target TargetStopped = ReplicaStopped"
| "state_of_target TargetUnhealthy = ReplicaUnhealthy"
| "state_of_target TargetHeld = ReplicaHeld"
| "state_of_target (OtherState s) =
     (if s = ''healthy'' then ReplicaHealthy else if s = ''failed'' then ReplicaFailed else OtherReplica s)"

record Replica =
  rp_Service :: string
  rp_Index :: int
  rp_Container :: string
  rp_ID :: string
  rp_Port :: int
  rp_State :: ReplicaState
  rp_Status :: string
  rp_Health :: string
  rp_Inflight :: int
  rp_Since :: gtime
  rp_Detail :: string
  rp_Restarts :: int

section \<open>Replicas that exist\<close>

record ContainerState =
  cs_Name :: string
  cs_ID :: string
  cs_Status :: string
  cs_Labels :: "string \<rightharpoonup> string"
  cs_Restarts :: int

definition cs_Running :: "ContainerState \<Rightarrow> bool" where
  "cs_Running c \<longleftrightarrow> cs_Status c = ''running''"

record replica =
  re_index :: int
  re_container :: string
  re_id :: string
  re_running :: bool
  re_status :: string
  re_tree :: string

definition label_of :: "ContainerState \<Rightarrow> string \<Rightarrow> string" where
  "label_of c l = (case cs_Labels c l of None \<Rightarrow> [] | Some v \<Rightarrow> v)"

fun live_of :: "string \<Rightarrow> string \<Rightarrow> string \<Rightarrow> ContainerState list \<Rightarrow> replica list" where
  "live_of app env service [] = []"
| "live_of app env service (c # cs) =
     (case replicaIndexOf app env service (cs_Name c) of
        None \<Rightarrow> live_of app env service cs
      | Some idx \<Rightarrow>
          \<lparr>re_index = idx, re_container = cs_Name c, re_id = cs_ID c, re_running = cs_Running c, re_status = cs_Status c,
           re_tree = label_of c LabelTree\<rparr> # live_of app env service cs)"

definition liveReplicas :: "string \<Rightarrow> string \<Rightarrow> string \<Rightarrow> string + ContainerState list \<Rightarrow> string + replica list" where
  "liveReplicas app env service found =
     bind_result found (\<lambda>cs. Inr (sort_key re_index (live_of app env service cs)))"

text \<open>The answer of the runtime about one container: an error, no such container, or its state.\<close>

definition inspectReplica :: "int \<Rightarrow> string \<Rightarrow> string + ContainerState option \<Rightarrow> string + replica" where
  "inspectReplica index container answer =
     bind_result answer (\<lambda>cur.
       let r = \<lparr>re_index = index, re_container = container, re_id = [], re_running = False, re_status = [], re_tree = []\<rparr>
       in Inr (case cur of None \<Rightarrow> r
               | Some c \<Rightarrow> r\<lparr>re_id := cs_ID c, re_running := cs_Running c, re_status := cs_Status c, re_tree := label_of c LabelTree\<rparr>))"

definition numbered :: "replica list \<Rightarrow> replica list" where
  "numbered replicas = filter (\<lambda>r. re_index r \<ge> 1) replicas"

definition legacyOf :: "replica list \<Rightarrow> replica option" where
  "legacyOf replicas = find (\<lambda>r. re_index r = legacyReplica) replicas"

definition runningReplicas :: "replica list \<Rightarrow> replica list" where
  "runningReplicas live = filter re_running live"

text \<open>The loop that looks for numbers that are not used.\<close>

function next_free :: "int list \<Rightarrow> int \<Rightarrow> nat \<Rightarrow> int list" where
  "next_free used i 0 = []"
| "next_free used i (Suc n) =
     (if i \<in> set used then next_free used (i + 1) (Suc n) else i # next_free used (i + 1) n)"
  by pat_completeness auto
termination
proof (relation "measure (\<lambda>(used, i, n). n + card {t \<in> set used. i \<le> t})")
  fix used :: "int list" and i :: int and n
  have sub: "{t \<in> set used. i + 1 \<le> t} \<subseteq> {t \<in> set used. i \<le> t}" by auto
  then have le: "card {t \<in> set used. i + 1 \<le> t} \<le> card {t \<in> set used. i \<le> t}"
    by (intro card_mono) auto
  then show "((used, i + 1, n), used, i, Suc n) \<in> measure (\<lambda>(used, i, n). n + card {t \<in> set used. i \<le> t})" by simp
  assume "i \<in> set used"
  then have "i \<in> {t \<in> set used. i \<le> t}" "i \<notin> {t \<in> set used. i + 1 \<le> t}" by auto
  with sub have "{t \<in> set used. i + 1 \<le> t} \<subset> {t \<in> set used. i \<le> t}" by blast
  then have "card {t \<in> set used. i + 1 \<le> t} < card {t \<in> set used. i \<le> t}"
    by (intro psubset_card_mono) auto
  then show "((used, i + 1, Suc n), used, i, Suc n) \<in> measure (\<lambda>(used, i, n). n + card {t \<in> set used. i \<le> t})" by simp
qed simp

definition freeIndexes :: "replica list \<Rightarrow> int \<Rightarrow> int list" where
  "freeIndexes live n = next_free (map re_index live) 1 (nat n)"

definition replicaCount :: "App option \<Rightarrow> string \<Rightarrow> int" where
  "replicaCount cfg service =
     (case cfg of None \<Rightarrow> DefaultReplicas
      | Some _ \<Rightarrow> (case app_Service cfg service of None \<Rightarrow> DefaultReplicas | Some s \<Rightarrow> svc_Replicas s))"

definition drainOf :: "App option \<Rightarrow> string \<Rightarrow> duration" where
  "drainOf cfg service =
     (case cfg of None \<Rightarrow> DefaultDrain
      | Some _ \<Rightarrow> (case app_Service cfg service of None \<Rightarrow> DefaultDrain | Some s \<Rightarrow> DrainTimeout s))"

section \<open>Where a service is reached\<close>

definition drainingReplicas :: "edge_store \<Rightarrow> int \<Rightarrow> (string \<times> int) list" where
  "drainingReplicas s envID =
     concat (map (\<lambda>r. map (\<lambda>t. (rr_Service r, et_Replica t))
       (filter (\<lambda>t. et_State t = TargetDraining) (store_Targets s (rr_ID r)))) (RoutesOfEnv s envID))"

text \<open>The port of the first replica of a list, when it has one.\<close>

definition first_port :: "portLayout \<Rightarrow> string \<Rightarrow> replica list \<Rightarrow> (string \<rightharpoonup> int) \<Rightarrow> (string \<rightharpoonup> int)" where
  "first_port l name rs out =
     (case rs of [] \<Rightarrow> out
      | r # _ \<Rightarrow> (case replicaPort l name (re_index r) of Inr port \<Rightarrow> out(name \<mapsto> port) | Inl _ \<Rightarrow> out))"

definition front_of ::
  "portLayout \<Rightarrow> (string \<times> int) list \<Rightarrow> (string \<Rightarrow> string + replica list) \<Rightarrow> string \<Rightarrow> (string \<rightharpoonup> int) \<Rightarrow> (string \<rightharpoonup> int)" where
  "front_of l draining live name out =
     (if lay_services l name = None then out
      else (case live name of
              Inl _ \<Rightarrow> out
            | Inr lv \<Rightarrow>
                (let running = runningReplicas (numbered lv);
                     out1 = first_port l name (filter (\<lambda>r. (name, re_index r) \<notin> set draining) running) out
                 in if out1 name \<noteq> None then out1 else first_port l name running out1)))"

definition frontPorts ::
  "portLayout option \<Rightarrow> App option \<Rightarrow> (string \<times> int) list \<Rightarrow> (string \<Rightarrow> string + replica list) \<Rightarrow> (string \<rightharpoonup> int)" where
  "frontPorts lay cfg draining live =
     (case cfg of None \<Rightarrow> Map.empty
      | Some a \<Rightarrow>
          (case lay of None \<Rightarrow> Map.empty
           | Some l \<Rightarrow> foldl (\<lambda>out s. front_of l draining live (svc_Name s) out) Map.empty (app_Services a)))"

section \<open>Views\<close>

definition replicaStatus :: "replica \<Rightarrow> string" where
  "replicaStatus r =
     (if re_container r = [] \<or> re_id r = [] \<and> re_status r = [] then ServiceMissing
      else if re_running r then ServiceRunning
      else ServiceExited)"

definition replicaState :: "replica \<Rightarrow> EnvService \<Rightarrow> ReplicaState" where
  "replicaState r row =
     (if replicaStatus r \<noteq> ServiceRunning then ReplicaStopped
      else if es_Status row = ServiceFailed then ReplicaFailed
      else if es_Status row = ServiceStarting then ReplicaStarting
      else ReplicaActive)"

definition targetsByReplica :: "EdgeTarget list \<Rightarrow> (int \<rightharpoonup> EdgeTarget)" where
  "targetsByReplica ts = map_from et_Replica (\<lambda>t. t) ts"

definition missing_replica :: "string \<Rightarrow> string \<Rightarrow> string \<Rightarrow> int \<Rightarrow> replica" where
  "missing_replica app env service i =
     \<lparr>re_index = i, re_container = ReplicaContainerName app env service i, re_id = [], re_running = False, re_status = [],
      re_tree = []\<rparr>"

definition view_of ::
  "portLayout \<Rightarrow> EnvService \<Rightarrow> (int \<rightharpoonup> EdgeTarget) \<Rightarrow> bool \<Rightarrow> (string \<Rightarrow> int option) \<Rightarrow> replica \<Rightarrow> Replica" where
  "view_of l row targets exposed restarts r =
     (let port = (case replicaPort l (es_Name row) (re_index r) of Inr p \<Rightarrow> p | Inl _ \<Rightarrow> 0);
          v = \<lparr>rp_Service = es_Name row, rp_Index = re_index r, rp_Container = re_container r, rp_ID = re_id r, rp_Port = port,
               rp_State = replicaState r row, rp_Status = replicaStatus r, rp_Health = [], rp_Inflight = 0, rp_Since = 0,
               rp_Detail = [], rp_Restarts = 0\<rparr>;
          v1 = (case targets (re_index r) of
                  Some t \<Rightarrow> if exposed then v\<lparr>rp_State := state_of_target (et_State t), rp_Inflight := et_Inflight t,
                                rp_Since := et_UpdatedAt t\<rparr> else v
                | None \<Rightarrow> v)
      in if re_id r \<noteq> [] then (case restarts (re_container r) of Some n \<Rightarrow> v1\<lparr>rp_Restarts := n\<rparr> | None \<Rightarrow> v1) else v1)"

text \<open>The loop that fills up to the wanted number stops at once when there are enough.\<close>

definition replicaViews ::
  "string \<Rightarrow> string \<Rightarrow> portLayout \<Rightarrow> EnvService \<Rightarrow> (int \<rightharpoonup> EdgeTarget) \<Rightarrow> bool \<Rightarrow> (string \<Rightarrow> int option) \<Rightarrow>
   string + replica list \<Rightarrow> string + Replica list" where
  "replicaViews app env l row targets exposed restarts live =
     bind_result live (\<lambda>lv.
       let want = (if es_Replicas row \<le> 0 then DefaultReplicas else es_Replicas row);
           nums = numbered lv;
           fill = next_free (map re_index nums) 1 (nat (want - int (length nums)));
           all = sort_key re_index (nums @ map (missing_replica app env (es_Name row)) fill)
       in Inr (map (view_of l row targets exposed restarts) all))"

definition replicaOf :: "string \<Rightarrow> portLayout \<Rightarrow> ReplicaState \<Rightarrow> replica \<Rightarrow> Replica" where
  "replicaOf service l st r =
     \<lparr>rp_Service = service, rp_Index = re_index r, rp_Container = re_container r, rp_ID = re_id r,
      rp_Port = (case replicaPort l service (re_index r) of Inr p \<Rightarrow> p | Inl _ \<Rightarrow> 0),
      rp_State = st, rp_Status = replicaStatus r, rp_Health = [], rp_Inflight = 0, rp_Since = 0, rp_Detail = [], rp_Restarts = 0\<rparr>"

definition replicasOf :: "string \<Rightarrow> portLayout \<Rightarrow> replica list \<Rightarrow> ReplicaState \<Rightarrow> Replica list" where
  "replicasOf service l live st = map (replicaOf service l st) live"

section \<open>The numbers of new replicas\<close>

lemma length_next_free: "length (next_free used i n) = n"
  by (induction used i n rule: next_free.induct) simp_all

lemma next_free_untaken: "x \<in> set (next_free used i n) \<Longrightarrow> i \<le> x \<and> x \<notin> set used"
proof (induction used i n rule: next_free.induct)
  case (2 used i n)
  show ?case
  proof (cases "i \<in> set used")
    case True
    then show ?thesis using "2.IH"(1)[OF True] "2.prems" by simp
  next
    case False
    then show ?thesis using "2.IH"(2)[OF False] "2.prems" by auto
  qed
qed simp

lemma next_free_sorted: "sorted_wrt (<) (next_free used i n)"
proof (induction used i n rule: next_free.induct)
  case (2 used i n)
  then show ?case using next_free_untaken[of _ used "i + 1" n] by (auto dest!: zless_add1_eq[THEN iffD2] simp: add1_zle_eq)
qed simp

lemma next_free_smallest:
  "i \<le> j \<Longrightarrow> j \<notin> set used \<Longrightarrow> j \<in> set (next_free used i n) \<or> (\<forall>x \<in> set (next_free used i n). x < j)"
proof (induction used i n rule: next_free.induct)
  case (2 used i n)
  show ?case
  proof (cases "i \<in> set used")
    case True
    then have "i + 1 \<le> j" using "2.prems" by (metis add1_zle_eq order_le_less)
    then show ?thesis using "2.IH"(1)[OF True] "2.prems" True by simp
  next
    case False
    then show ?thesis using "2.IH"(2)[OF False] "2.prems" by (cases "j = i") auto
  qed
qed simp

lemma freeIndexes_untaken: "i \<in> set (freeIndexes live n) \<Longrightarrow> 1 \<le> i \<and> i \<notin> re_index ` set live"
  using next_free_untaken[of i "map re_index live" 1 "nat n"] by (auto simp: freeIndexes_def)

text \<open>C23: a rollout numbers the replicas it starts with the smallest positive numbers no running replica has: as many as
  asked for, ascending, each free, and every smaller free number is among them. The search always ends.\<close>

theorem freeIndexes_smallest:
  "length (freeIndexes live n) = nat n \<and> sorted_wrt (<) (freeIndexes live n) \<and>
   (\<forall>i \<in> set (freeIndexes live n). 1 \<le> i \<and> i \<notin> re_index ` set live) \<and>
   (\<forall>j \<ge> 1. j \<notin> re_index ` set live \<longrightarrow> j \<in> set (freeIndexes live n) \<or> (\<forall>i \<in> set (freeIndexes live n). i < j))"
  using freeIndexes_untaken[of _ live n] next_free_smallest[of 1 _ "map re_index live" "nat n"]
  by (auto simp: freeIndexes_def length_next_free next_free_sorted)

theorem freeIndexes_smallest_witness:
  "freeIndexes [missing_replica ''a'' ''b'' ''c'' 1, missing_replica ''a'' ''b'' ''c'' 3] 2 = [2, 4] \<and>
   length (freeIndexes [missing_replica ''a'' ''b'' ''c'' 1, missing_replica ''a'' ''b'' ''c'' 3] 2) = 2"
proof -
  have "freeIndexes [missing_replica ''a'' ''b'' ''c'' 1, missing_replica ''a'' ''b'' ''c'' 3] 2 = [2, 4]" by code_simp
  then show ?thesis
    using freeIndexes_smallest[of "[missing_replica ''a'' ''b'' ''c'' 1, missing_replica ''a'' ''b'' ''c'' 3]" 2] by simp
qed

end
