(* ===== verification/EnvExpose.thy ===== *)
theory EnvExpose
  imports EnvReplicas FleetMachine
begin

text \<open>
  Which hosts the edge of a machine serves (\<^verbatim>\<open>internal/env/expose.go\<close>, \<^verbatim>\<open>internal/env/via.go\<close>): the hosts of a service,
  adding a route, the routes of a plan, and the table of the edge, made of the routes in the store and, on the hub, of
  the hosts the other machines announced. The environments, the recorded configuration of an environment and what the
  daemon knows of the fleet are arguments. Lines of the log and events are not modelled.
\<close>

section \<open>Hosts of a service\<close>

datatype expose_error =
    NoServices | NoSuchService string | NoPort string | NoPublishedService
  | NoDomain string | NoPublicIP | BadHost string config_error | DomainError config_error
  | RouteFailed string edge_store_error | ServedElsewhere string "(string \<times> string) option" | RoutesTo string string string

definition exposableService :: "App option \<Rightarrow> string \<Rightarrow> expose_error + string" where
  "exposableService cfg name =
     (case cfg of None \<Rightarrow> Inl NoServices
      | Some a \<Rightarrow>
          if app_Services a = [] then Inl NoServices
          else if name \<noteq> [] then
            (case app_Service cfg name of None \<Rightarrow> Inl (NoSuchService name)
             | Some s \<Rightarrow> if \<not> HasPort s then Inl (NoPort name) else Inr name)
          else (case find HasPort (app_Services a) of Some s \<Rightarrow> Inr (svc_Name s) | None \<Rightarrow> Inl NoPublishedService))"

definition domainOf :: "Addr \<Rightarrow> App option \<Rightarrow> expose_error + string" where
  "domainOf publicIP cfg =
     (case cfg of None \<Rightarrow> Inr []
      | Some a \<Rightarrow>
          if app_Domain a = [] then Inr []
          else if app_Domain a \<noteq> DomainAuto then Inr (app_Domain a)
          else if publicIP = InvalidAddr then Inl NoPublicIP
          else (case AutoDomain (app_Name a) publicIP of Inl e \<Rightarrow> Inl (DomainError e) | Inr d \<Rightarrow> Inr d))"

definition firstExposed :: "App option \<Rightarrow> string" where
  "firstExposed cfg =
     (case cfg of None \<Rightarrow> []
      | Some _ \<Rightarrow> (case ExposedServices cfg of s # _ \<Rightarrow> svc_Name s
                   | [] \<Rightarrow> (case FirstService cfg of Some s \<Rightarrow> svc_Name s | None \<Rightarrow> [])))"

definition hostFor :: "Addr \<Rightarrow> string \<Rightarrow> string \<Rightarrow> App option \<Rightarrow> string \<Rightarrow> expose_error + string" where
  "hostFor publicIP app env cfg service =
     bind_result (domainOf publicIP cfg) (\<lambda>domain.
       if domain = [] then Inl (NoDomain app)
       else
         (let first = (case ExposedServices cfg of s # _ \<Rightarrow> svc_Name s = service
                       | [] \<Rightarrow> (case FirstService cfg of Some s \<Rightarrow> svc_Name s = service | None \<Rightarrow> True))
          in Inr (DerivedHost domain env service first)))"

definition checked_host :: "string \<Rightarrow> expose_error + string" where
  "checked_host h = (let host = NormalizeHost h
     in case ValidateHostname host of Inl e \<Rightarrow> Inl (BadHost host e) | Inr _ \<Rightarrow> Inr host)"

definition hostsFor :: "Addr \<Rightarrow> string \<Rightarrow> string \<Rightarrow> App option \<Rightarrow> string \<Rightarrow> expose_error + string list" where
  "hostsFor publicIP app env cfg service =
     (if app_EnvHosts cfg env \<noteq> [] \<and> firstExposed cfg = service then map_result checked_host (app_EnvHosts cfg env)
      else bind_result (hostFor publicIP app env cfg service) (\<lambda>h. Inr [h]))"

section \<open>Adding a route\<close>

definition envOf :: "EnvRecord list \<Rightarrow> int \<Rightarrow> EnvRecord option" where
  "envOf envs i = find (\<lambda>e. env_ID e = i) envs"

text \<open>The result says whether the route is new.\<close>

definition addRoute ::
  "gtime \<Rightarrow> EnvRecord list \<Rightarrow> edge_store \<Rightarrow> int \<Rightarrow> string \<Rightarrow> string \<Rightarrow> bool \<Rightarrow> (expose_error + bool) \<times> edge_store" where
  "addRoute t envs s envID service host managed =
     (case AddRoute t s \<lparr>rr_ID = 0, rr_EnvID = envID, rr_Service = service, rr_Host = host, rr_Kind = KindHTTPS,
             rr_Managed = managed, rr_CreatedAt = t\<rparr> of
        Inr (_, s') \<Rightarrow> (Inr True, s')
      | Inl e \<Rightarrow>
          if e \<noteq> RouteExists then (Inl (RouteFailed host e), s)
          else (case RouteByHost s host of
                  Inl e' \<Rightarrow> (Inl (RouteFailed host e'), s)
                | Inr have \<Rightarrow>
                    if rr_EnvID have \<noteq> envID
                    then (Inl (ServedElsewhere host (map_option (\<lambda>e. (env_Name e, env_App e)) (envOf envs (rr_EnvID have)))), s)
                    else if rr_Service have \<noteq> service then (Inl (RoutesTo host (rr_Service have) service), s)
                    else (Inr False, s)))"

section \<open>The table of the edge\<close>

definition routeOf :: "edge_store \<Rightarrow> EnvRecord \<Rightarrow> App option \<Rightarrow> RouteRow \<Rightarrow> Route" where
  "routeOf s rec cfg r =
     \<lparr>rt_Host = rr_Host r, rt_Kind = (if rr_Kind r = OtherKind [] then KindHTTPS else rr_Kind r), rt_App = env_App rec,
      rt_Env = env_Name rec, rt_Service = rr_Service r,
      rt_Targets = sort_key tgt_Replica (map (\<lambda>t. \<lparr>tgt_Replica = et_Replica t, tgt_Port = et_Port t, tgt_State = et_State t,
        tgt_Inflight = 0, tgt_Since = et_UpdatedAt t, tgt_Detail = []\<rparr>) (store_Targets s (rr_ID r))),
      rt_Via = [], rt_Drain = drainOf cfg (rr_Service r), rt_CreatedAt = rr_CreatedAt r\<rparr>"

abbreviation (input) ViaRelayPort :: int where
  "ViaRelayPort \<equiv> 18443"

fun ViaRelayPortFor :: "Machine \<Rightarrow> int option" where
  "ViaRelayPortFor mach =
     (case machine_Address mach of Addr4 a \<Rightarrow> Some (ViaRelayPort + uint (drop_bit 16 a AND 255)) | _ \<Rightarrow> None)"

definition ViaRoute :: "string \<Rightarrow> string \<Rightarrow> string \<Rightarrow> string \<Rightarrow> string \<Rightarrow> int list \<Rightarrow> duration \<Rightarrow> Route" where
  "ViaRoute host machine app env service ports drain =
     \<lparr>rt_Host = NormalizeHost host, rt_Kind = KindVia, rt_App = app, rt_Env = env, rt_Service = service,
      rt_Targets = map (\<lambda>(i, p). \<lparr>tgt_Replica = int i + 1, tgt_Port = p, tgt_State = TargetActive, tgt_Inflight = 0, tgt_Since = 0,
        tgt_Detail = []\<rparr>) (enumerate 0 ports),
      rt_Via = machine, rt_Drain = drain, rt_CreatedAt = 0\<rparr>"

text \<open>What the daemon knows of its fleet; a read of the directory may fail.\<close>

record fleet_view =
  fv_Fleet :: bool
  fv_Role :: Role
  fv_Machine :: string
  fv_Private :: bool
  fv_Entries :: "string + DirectoryEntry list"
  fv_Machines :: "string + Machine list"
  fv_Vias :: "string + string list"

text \<open>The hosts of one directory entry; \<open>served\<close> are the hosts taken so far.\<close>

fun via_hosts :: "DirectoryEntry \<Rightarrow> int \<Rightarrow> ViaHost list \<Rightarrow> string list \<Rightarrow> Route list \<times> string list" where
  "via_hosts e port [] served = ([], served)"
| "via_hosts e port (h # hs) served =
     (let host = NormalizeHost (vh_Host h)
      in if host = [] \<or> host \<in> set served then via_hosts e port hs served
         else (case via_hosts e port hs (host # served) of
                 (rs, served') \<Rightarrow>
                   (ViaRoute (vh_Host h) (de_Machine e) (de_App e) (de_Env e) (vh_Service h) [port] (vh_Drain h) # rs, served')))"

fun via_entries :: "string \<Rightarrow> Machine list \<Rightarrow> DirectoryEntry list \<Rightarrow> string list \<Rightarrow> Route list" where
  "via_entries self machines [] served = []"
| "via_entries self machines (e # es) served =
     (if de_Machine e = [] \<or> de_Machine e = self \<or> de_Hosts e = [] then via_entries self machines es served
      else (case Find machines (de_Machine e) of
              None \<Rightarrow> via_entries self machines es served
            | Some mach \<Rightarrow>
                (case ViaRelayPortFor mach of
                   None \<Rightarrow> via_entries self machines es served
                 | Some port \<Rightarrow>
                     (case via_hosts e port (de_Hosts e) served of (rs, served') \<Rightarrow> rs @ via_entries self machines es served'))))"

definition viaRoutes :: "fleet_view \<Rightarrow> string list \<Rightarrow> Route list" where
  "viaRoutes fv served =
     (if \<not> fv_Fleet fv \<or> \<not> IsHub (fv_Role fv) then []
      else (case fv_Entries fv of Inl _ \<Rightarrow> []
            | Inr entries \<Rightarrow> (case fv_Machines fv of Inl _ \<Rightarrow> [] | Inr machines \<Rightarrow> via_entries (fv_Machine fv) machines entries served)))"

abbreviation (input) IngressPort :: int where
  "IngressPort \<equiv> 8443"

definition anyServedViaHub :: "fleet_view \<Rightarrow> bool" where
  "anyServedViaHub fv = (case fv_Vias fv of Inl _ \<Rightarrow> False | Inr vs \<Rightarrow> ''hub'' \<in> set vs)"

definition IngressWanted :: "(Addr \<Rightarrow> string) \<Rightarrow> fleet_view \<Rightarrow> Ingress option" where
  "IngressWanted addr_text fv =
     (if \<not> fv_Fleet fv \<or> IsHub (fv_Role fv) then None
      else (case fv_Machines fv of Inl _ \<Rightarrow> None
            | Inr machines \<Rightarrow>
                (let hub = (case find (\<lambda>m. m_Role m = RoleHub) machines of
                              Some m \<Rightarrow> if machine_Address m \<noteq> InvalidAddr then addr_text (machine_Address m) else []
                            | None \<Rightarrow> [])
                 in if \<not> fv_Private fv \<and> \<not> anyServedViaHub fv then Some \<lparr>ing_Enabled = False, ing_Port = 0, ing_Trusted = []\<rparr>
                    else Some \<lparr>ing_Enabled = True, ing_Port = IngressPort, ing_Trusted = (if hub \<noteq> [] then [hub] else [])\<rparr>)))"

definition local_routes :: "edge_store \<Rightarrow> EnvRecord list \<Rightarrow> (EnvRecord \<Rightarrow> App option) \<Rightarrow> Route list" where
  "local_routes s envs config =
     List.map_filter (\<lambda>r. map_option (\<lambda>e. routeOf s e (config e) r) (envOf envs (rr_EnvID r))) (store_Routes s)"

definition edge_table ::
  "(Addr \<Rightarrow> string) \<Rightarrow> gtime \<Rightarrow> edge_store \<Rightarrow> EnvRecord list \<Rightarrow> (EnvRecord \<Rightarrow> App option) \<Rightarrow> fleet_view \<Rightarrow> Table" where
  "edge_table addr_text t s envs config fv =
     (let rs = local_routes s envs config
      in \<lparr>tbl_Routes = rs @ viaRoutes fv (map (\<lambda>r. NormalizeHost (rt_Host r)) rs), tbl_Ingress = IngressWanted addr_text fv,
          tbl_UpdatedAt = t\<rparr>)"

section \<open>The edge accepts the table\<close>

lemma NormalizeHost_hostname: "hostname h \<Longrightarrow> NormalizeHost h = h"
  using hostname_plain[of h] hostname_ends(1)[of h]
  by (simp add: NormalizeHost_def SplitHostPort_None TrimSuffix_def)

lemma map_filter_set: "set (List.map_filter f xs) = {y. \<exists>x \<in> set xs. f x = Some y}"
  by (induction xs) (auto simp: map_filter_def split: option.splits)

lemma distinct_map_filter_key:
  assumes "distinct (map k xs)" "\<And>x y. f x = Some y \<Longrightarrow> g y = k x"
  shows "distinct (map g (List.map_filter f xs))"
  using assms(1)
proof (induction xs)
  case (Cons x xs)
  have "g ` set (List.map_filter f xs) \<subseteq> k ` set xs" using assms(2) by (force simp: map_filter_set)
  then show ?case using Cons assms(2)[of x] by (cases "f x") (auto simp: map_filter_simps)
qed (simp add: map_filter_simps)

text \<open>What the table says of a target.\<close>

definition store_ok :: "edge_store \<Rightarrow> bool" where
  "store_ok s \<longleftrightarrow> edge_store_inv s \<and>
     (\<forall>r \<in> set (es_routes s). ValidateHostname (rr_Host r) = Inr () \<and> rr_Kind r = KindHTTPS) \<and>
     (\<forall>t \<in> set (es_targets s). 1 \<le> et_Port t \<and> et_Port t \<le> 65535 \<and> state_Valid (et_State t))"

lemma routeOf_ok:
  assumes "store_ok s" "r \<in> set (es_routes s)"
  shows "route_ok (routeOf s e cfg r)"
proof -
  have host: "hostname (rr_Host r)" using assms by (auto simp: store_ok_def ValidateHostname_iff)
  have "distinct (map et_Replica (store_Targets s (rr_ID r)))"
  proof -
    have "distinct (map target_key (filter (\<lambda>t. et_RouteID t = rr_ID r) (es_targets s)))"
      using assms(1) by (simp add: store_ok_def edge_store_inv_def distinct_map_filter)
    then have "distinct (map et_Replica (filter (\<lambda>t. et_RouteID t = rr_ID r) (es_targets s)))"
      by (simp add: distinct_map inj_on_def target_key_def)
    moreover have "mset (map et_Replica (store_Targets s (rr_ID r))) = mset (map et_Replica (filter (\<lambda>t. et_RouteID t = rr_ID r) (es_targets s)))"
      by (simp add: store_Targets_def)
    ultimately show ?thesis using mset_eq_imp_distinct_iff by blast
  qed
  moreover have "mset (map tgt_Replica (rt_Targets (routeOf s e cfg r))) = mset (map et_Replica (store_Targets s (rr_ID r)))"
    by (simp add: routeOf_def image_mset.compositionality comp_def)
  ultimately have "distinct (map tgt_Replica (rt_Targets (routeOf s e cfg r)))" using mset_eq_imp_distinct_iff by metis
  moreover have "target_ok t" if "t \<in> set (rt_Targets (routeOf s e cfg r))" for t
    using that assms(1) by (auto simp: routeOf_def store_Targets_def target_ok_def store_ok_def edge_store_inv_def)
  ultimately have "targets_ok (routeOf s e cfg r)" by (simp add: targets_ok_def)
  then show ?thesis using assms host hostname_ends(1)[OF host]
    by (auto simp: route_ok_def routeOf_def NormalizeHost_hostname store_ok_def)
qed

lemma local_routes_ok:
  assumes "store_ok s"
  shows "\<forall>r \<in> set (local_routes s envs config). route_ok r \<and> NormalizeHost (rt_Host r) = rt_Host r"
    and "distinct (map (\<lambda>r. NormalizeHost (rt_Host r)) (local_routes s envs config))"
proof -
  have host: "NormalizeHost (rr_Host r) = rr_Host r" if "r \<in> set (es_routes s)" for r
    using assms that by (auto simp: store_ok_def ValidateHostname_iff NormalizeHost_hostname)
  have rows: "set (store_Routes s) = set (es_routes s)" by (simp add: store_Routes_def)
  have h: "rt_Host (routeOf s e cfg r) = rr_Host r" for e cfg r by (simp add: routeOf_def)
  show ok: "\<forall>r \<in> set (local_routes s envs config). route_ok r \<and> NormalizeHost (rt_Host r) = rt_Host r"
    using host routeOf_ok[OF assms] by (auto simp: local_routes_def map_filter_set rows h)
  have "mset (map rr_Host (store_Routes s)) = mset (map rr_Host (es_routes s))" by (simp add: store_Routes_def)
  then have "distinct (map rr_Host (store_Routes s))"
    using assms mset_eq_imp_distinct_iff by (metis store_ok_def edge_store_inv_def)
  then have "distinct (map rt_Host (local_routes s envs config))"
    unfolding local_routes_def by (rule distinct_map_filter_key) (auto simp: routeOf_def)
  moreover have "map (\<lambda>r. NormalizeHost (rt_Host r)) (local_routes s envs config) = map rt_Host (local_routes s envs config)"
    using ok by simp
  ultimately show "distinct (map (\<lambda>r. NormalizeHost (rt_Host r)) (local_routes s envs config))" by (simp only:)
qed

lemma relay_port_range:
  assumes "ViaRelayPortFor mach = Some port"
  shows "ViaRelayPort \<le> port" "port \<le> ViaRelayPort + 255"
proof -
  obtain a where a: "port = ViaRelayPort + uint (drop_bit 16 a AND (255 :: 32 word))"
    using assms by (auto split: Addr.splits)
  have "drop_bit 16 a AND (255 :: 32 word) \<le> 255" by (rule word_and_le1)
  then have "uint (drop_bit 16 a AND (255 :: 32 word)) \<le> 255" by (simp add: word_le_def)
  then show "ViaRelayPort \<le> port" "port \<le> ViaRelayPort + 255" by (simp_all add: a)
qed

text \<open>The routes of an announced host are new, stable under normalization, and fit for the edge.\<close>

definition via_ok :: "string list \<Rightarrow> Route list \<Rightarrow> bool" where
  "via_ok served rs \<longleftrightarrow> distinct (map (\<lambda>r. NormalizeHost (rt_Host r)) rs) \<and>
     (\<forall>r \<in> set rs. route_ok r \<and> NormalizeHost (rt_Host r) \<notin> set served)"

definition stable_hosts :: "DirectoryEntry \<Rightarrow> bool" where
  "stable_hosts e \<longleftrightarrow> (\<forall>h \<in> set (de_Hosts e). NormalizeHost (NormalizeHost (vh_Host h)) = NormalizeHost (vh_Host h))"

lemma ViaRoute_ok:
  assumes "NormalizeHost (NormalizeHost h) \<noteq> []" "machine \<noteq> []" "1 \<le> port" "port \<le> 65535"
  shows "route_ok (ViaRoute h machine app env service [port] drain)"
  using assms by (simp add: route_ok_def ViaRoute_def targets_ok_def target_ok_def state_Valid_def TargetStates_def enumerate_eq_zip)

lemma via_hosts_ok:
  assumes "de_Machine e \<noteq> []" "1 \<le> port" "port \<le> 65535"
    and "\<forall>h \<in> set hs. NormalizeHost (NormalizeHost (vh_Host h)) = NormalizeHost (vh_Host h)"
    and "via_hosts e port hs served = (rs, served')"
  shows "via_ok served rs \<and> set served' = set served \<union> (\<lambda>r. NormalizeHost (rt_Host r)) ` set rs"
  using assms(4,5)
proof (induction hs arbitrary: served rs)
  case (Cons h hs)
  let ?host = "NormalizeHost (vh_Host h)"
  show ?case
  proof (cases "?host = [] \<or> ?host \<in> set served")
    case True
    then show ?thesis using Cons by (auto simp: Let_def)
  next
    case False
    obtain rs' where rs': "via_hosts e port hs (?host # served) = (rs', served')"
      "rs = ViaRoute (vh_Host h) (de_Machine e) (de_App e) (de_Env e) (vh_Service h) [port] (vh_Drain h) # rs'"
      using Cons.prems(2) False by (auto simp: Let_def split: prod.splits)
    have stable: "NormalizeHost ?host = ?host" using Cons.prems(1) by simp
    then have "route_ok (ViaRoute (vh_Host h) (de_Machine e) (de_App e) (de_Env e) (vh_Service h) [port] (vh_Drain h))"
      using False assms(1-3) by (intro ViaRoute_ok) auto
    moreover have "via_ok (?host # served) rs' \<and> set served' = set (?host # served) \<union> (\<lambda>r. NormalizeHost (rt_Host r)) ` set rs'"
      using Cons.IH[OF _ rs'(1)] Cons.prems(1) by simp
    ultimately show ?thesis using stable False by (auto simp: rs'(2) via_ok_def ViaRoute_def)
  qed
qed (simp add: via_ok_def)

lemma via_ok_append:
  assumes "via_ok served rs" "via_ok served' rs'" "set served' = set served \<union> (\<lambda>r. NormalizeHost (rt_Host r)) ` set rs"
  shows "via_ok served (rs @ rs')"
proof -
  have "NormalizeHost (rt_Host r') \<noteq> NormalizeHost (rt_Host r)" if "r \<in> set rs" "r' \<in> set rs'" for r r'
    using that assms(2,3) by (auto simp: via_ok_def)
  then show ?thesis using assms unfolding via_ok_def by (fastforce simp: image_iff)
qed

lemma via_entries_ok:
  assumes "\<forall>e \<in> set es. stable_hosts e"
  shows "via_ok served (via_entries self machines es served)"
  using assms
proof (induction es arbitrary: served)
  case Nil
  then show ?case by (simp add: via_ok_def)
next
  case (Cons e es)
  have skip: ?case if "via_entries self machines (e # es) served = via_entries self machines es served"
    using that Cons by simp
  have hosts: ?case if "de_Machine e \<noteq> []" "ViaRelayPortFor mach = Some port"
    "via_hosts e port (de_Hosts e) served = (rs, served')"
    "via_entries self machines (e # es) served = rs @ via_entries self machines es served'" for mach port rs served'
  proof -
    have "via_ok served rs \<and> set served' = set served \<union> (\<lambda>r. NormalizeHost (rt_Host r)) ` set rs"
      using relay_port_range[OF that(2)] Cons.prems that(1,3)
      by (intro via_hosts_ok[of e port "de_Hosts e"]) (auto simp: stable_hosts_def)
    moreover have "via_ok served' (via_entries self machines es served')" using Cons by simp
    ultimately show ?thesis unfolding that(4) using via_ok_append by blast
  qed
  show ?case
  proof (cases "de_Machine e = [] \<or> de_Machine e = self \<or> de_Hosts e = []")
    case False
    show ?thesis
    proof (cases "Option.bind (Find machines (de_Machine e)) ViaRelayPortFor")
      case None
      show ?thesis by (rule skip) (use False None in \<open>auto split: option.split simp del: ViaRelayPortFor.simps\<close>)
    next
      case (Some port)
      then obtain mach where mach: "Find machines (de_Machine e) = Some mach" "ViaRelayPortFor mach = Some port"
        by (auto simp: bind_eq_Some_conv simp del: ViaRelayPortFor.simps)
      obtain rs served' where rs: "via_hosts e port (de_Hosts e) served = (rs, served')" by fastforce
      show ?thesis by (rule hosts[OF _ mach(2) rs]) (use False mach rs in \<open>simp_all del: ViaRelayPortFor.simps\<close>)
    qed
  qed (rule skip, auto)
qed


definition served_store :: edge_store where
  "served_store = example_store\<lparr>es_targets := [(example_row 1 20000)\<lparr>et_RouteID := 1\<rparr>]\<rparr>"

definition hub_machine :: Machine where
  "hub_machine = \<lparr>m_Name = ''box'', m_Role = RoleMember, m_PublicKey = [], m_Subnet = Prefix4 0x0A4D0300 24, m_Arch = [], m_OS = [],
     m_Endpoint = [], m_Private = True, m_JoinedAt = 0, m_LastSeen = 0, m_Gauge = None, m_Envs = 0\<rparr>"

definition hub_view :: fleet_view where
  "hub_view = \<lparr>fv_Fleet = True, fv_Role = RoleHub, fv_Machine = ''hub'', fv_Private = False,
     fv_Entries = Inr [\<lparr>de_App = ''shop'', de_Env = ''b'', de_Machine = ''box'', de_Address = [], de_Owner = [], de_Mode = [],
       de_Via = ''hub'', de_Hosts = [\<lparr>vh_Host = ''SHOP.example.com'', vh_Service = ''web'', vh_Drain = 0\<rparr>,
         \<lparr>vh_Host = ''b.example.com.'', vh_Service = ''web'', vh_Drain = 0\<rparr>], de_UpdatedAt = 0\<rparr>],
     fv_Machines = Inr [hub_machine], fv_Vias = Inr []\<rparr>"

definition hub_envs :: "EnvRecord list" where
  "hub_envs = [\<lparr>env_ID = 7, env_App = ''shop'', env_Name = ''a'', env_Branch = [], env_Commit = [], env_Worktree = [], env_PortBase = 20000,
     env_PortCount = 20, env_Status = [], env_ConfigJSON = [], env_VarsJSON = [], env_VPNIP = [], env_Mode = [], env_Protected = False,
     env_ReleaseID = 0, env_DeployID = 0, env_CreatedBy = [], env_Owner = [], env_Via = [], env_PushedAt = 0, env_PushedBy = [],
     env_SourceBranch = [], env_CreatedAt = 0, env_UpdatedAt = 0\<rparr>]"

lemma hub_names:
  "NormalizeHost ''SHOP.example.com'' = ''shop.example.com''" "NormalizeHost ''b.example.com.'' = ''b.example.com''"
  "NormalizeHost ''shop.example.com'' = ''shop.example.com''" "NormalizeHost ''b.example.com'' = ''b.example.com''"
  "TrimSpace ''box'' = ''box''"
  by code_simp+

lemma hub_hosts_stable: "\<forall>entries. fv_Entries hub_view = Inr entries \<longrightarrow> (\<forall>e \<in> set entries. stable_hosts e)"
  by (simp add: hub_view_def stable_hosts_def hub_names)

lemma hub_relay: "ViaRelayPortFor hub_machine = Some 18520"
  by code_simp


end
