(* ===== verification/EnvWorld.thy ===== *)
theory EnvWorld
  imports EnvReplicas EdgePool "HOL-Library.State_Monad"
begin

text \<open>
  The world the manager of environments (\<^verbatim>\<open>internal/env\<close>) acts on. Its operations are programs of the state monad
  over the tables of routes and targets and a log of the calls the manager makes: to the container runtime, to the
  edge, to the services it probes, to the rest of the store and to the clock. What a call answers is decided by a
  record of functions of the log so far, so that a theorem for all answers holds however the outside world behaves: any
  call may fail at any time. A failing call of the runtime has no effect the model sees.
\<close>

text \<open>The calls of a deploy beside those of a rollout.\<close>

datatype deploy_call =
    DeployCreate | DeployUpdate int string | DeployClear int | DeployBegin int int | EnvRelease int int | EnvSave
  | DeployEvent string | DeployImage string | DeployBuild | DeployPlan int | DeployOneOff string | DeployPlanRoutes | DeployService string
  | DeployRead string | DeployRecreate string | DeployWait string | DeployPutService string | DeployPrune int | DeployCounts gtime | DeployRoutes | DeploySelect

datatype call =
    CallNow
  | CallList string | CallInspect string | CallRemove string | CallRun string int int | CallStop string duration
  | CallRestart string duration
  | CallServices | CallEncode | CallSpec int | CallSecrets | CallResource string int int
  | CallHealth string int | CallSleep | CallProbe string
  | CallSetTargets int "EdgeTarget list" | CallPutTarget EdgeTarget | CallTargets int
  | CallPush | CallDrain string int duration gtime
  | CallReady string int | CallEvent string int string string | CallDeploy deploy_call

type_synonym log = "(call \<times> string option) list"

text \<open>How watching the edge's events ended, unless the watcher ended it.\<close>

datatype watch_end = WatchClosed | WatchDeadline

record answers =
  an_error :: "log \<Rightarrow> call \<Rightarrow> string option"
  an_now :: "log \<Rightarrow> gtime"
  an_containers :: "log \<Rightarrow> string \<Rightarrow> ContainerState list"
  an_inspect :: "log \<Rightarrow> string \<Rightarrow> ContainerState option"
  an_services :: "log \<Rightarrow> EnvService list"
  an_encoded :: "log \<Rightarrow> string \<times> string \<times> string"
  an_id :: "log \<Rightarrow> string"
  an_watch :: "log \<Rightarrow> Event list \<times> watch_end"

record world =
  wd_store :: edge_store
  wd_log :: log

record manager =
  mg_Edge :: bool
  mg_StopTimeout :: duration

datatype act_error =
    LayoutError layout_error | CallFailed call string | StoreFailed string edge_store_error

abbreviation (input) DefaultStopTimeout :: duration where
  "DefaultStopTimeout \<equiv> 10 * second"

definition stopTimeout :: "manager \<Rightarrow> duration" where
  "stopTimeout m = (if mg_StopTimeout m > 0 then mg_StopTimeout m else DefaultStopTimeout)"

section \<open>Programs\<close>

text \<open>One call: it is logged with the error it answers, if any.\<close>

definition ask :: "answers \<Rightarrow> call \<Rightarrow> ('z world_scheme, string option) state" where
  "ask a c = State (\<lambda>w. let e = an_error a (wd_log w) c in (e, w\<lparr>wd_log := wd_log w @ [(c, e)]\<rparr>))"

text \<open>The value a successful call returns is read off the log before the call.\<close>

definition the_log :: "('z world_scheme, log) state" where
  "the_log = State (\<lambda>w. (wd_log w, w))"

definition attempt :: "answers \<Rightarrow> call \<Rightarrow> ('z world_scheme, act_error + unit) state" where
  "attempt a c = do { e \<leftarrow> ask a c; State_Monad.return (case e of None \<Rightarrow> Inr () | Some x \<Rightarrow> Inl (CallFailed c x)) }"

definition and_then :: "('s, 'e + 'a) state \<Rightarrow> ('a \<Rightarrow> ('s, 'e + 'b) state) \<Rightarrow> ('s, 'e + 'b) state" where
  "and_then m f = do { r \<leftarrow> m; (case r of Inl e \<Rightarrow> State_Monad.return (Inl e) | Inr x \<Rightarrow> f x) }"

definition now :: "answers \<Rightarrow> ('z world_scheme, gtime) state" where
  "now a = do { l \<leftarrow> the_log; _ \<leftarrow> ask a CallNow; State_Monad.return (an_now a l) }"

definition stopReplica :: "answers \<Rightarrow> manager \<Rightarrow> string \<Rightarrow> ('z world_scheme, act_error + unit) state" where
  "stopReplica a m container =
     and_then (attempt a (CallStop container (stopTimeout m))) (\<lambda>_. attempt a (CallRemove container))"

definition list_live ::
  "answers \<Rightarrow> string \<Rightarrow> string \<Rightarrow> string \<Rightarrow> ('z world_scheme, act_error + replica list) state" where
  "list_live a app env service = do {
     l \<leftarrow> the_log;
     and_then (attempt a (CallList service)) (\<lambda>_.
       State_Monad.return (case liveReplicas app env service (Inr (an_containers a l service)) of
         Inl e \<Rightarrow> Inl (CallFailed (CallList service) e) | Inr lv \<Rightarrow> Inr lv)) }"

definition pushRoutes :: "answers \<Rightarrow> manager \<Rightarrow> ('z world_scheme, act_error + unit) state" where
  "pushRoutes a m = (if mg_Edge m then attempt a CallPush else State_Monad.return (Inr ()))"

section \<open>Recording targets\<close>

record route =
  ro_id :: int
  ro_host :: string
  ro_more :: "(int \<times> string) list"

definition route_all :: "route \<Rightarrow> (int \<times> string) list" where
  "route_all r = (ro_id r, ro_host r) # ro_more r"

text \<open>Writing to the store: the connection may fail, or the tables may refuse.\<close>

definition set_targets :: "answers \<Rightarrow> gtime \<Rightarrow> int \<times> string \<Rightarrow> EdgeTarget list \<Rightarrow> ('z world_scheme, act_error + unit) state" where
  "set_targets a t one ts =
     and_then (attempt a (CallSetTargets (fst one) ts)) (\<lambda>_.
       State (\<lambda>w. case SetTargets t (wd_store w) (fst one) ts of
         Inl e \<Rightarrow> (Inl (StoreFailed (snd one) e), w)
       | Inr s \<Rightarrow> (Inr (), w\<lparr>wd_store := s\<rparr>)))"

text \<open>The rows of a route: a replica without a port has none; each row reads the clock.\<close>

fun target_rows :: "answers \<Rightarrow> int \<Rightarrow> Replica list \<Rightarrow> ('z world_scheme, EdgeTarget list) state" where
  "target_rows a routeID [] = State_Monad.return []"
| "target_rows a routeID (rep # reps) =
     (if rp_Port rep \<le> 0 then target_rows a routeID reps
      else do {
        t \<leftarrow> now a;
        rest \<leftarrow> target_rows a routeID reps;
        State_Monad.return (\<lparr>et_RouteID = routeID, et_Replica = rp_Index rep, et_Port = rp_Port rep,
          et_State = replica_TargetState (rp_State rep), et_Inflight = 0, et_UpdatedAt = t\<rparr> # rest) })"

fun record_all :: "answers \<Rightarrow> (int \<times> string) list \<Rightarrow> Replica list \<Rightarrow> ('z world_scheme, act_error + unit) state" where
  "record_all a [] reps = State_Monad.return (Inr ())"
| "record_all a (one # ones) reps = do {
     ts \<leftarrow> target_rows a (fst one) reps;
     t \<leftarrow> now a;
     and_then (set_targets a t one ts) (\<lambda>_. record_all a ones reps) }"

definition recordTargets :: "answers \<Rightarrow> manager \<Rightarrow> route \<Rightarrow> Replica list \<Rightarrow> ('z world_scheme, act_error + unit) state" where
  "recordTargets a m r reps =
     (if \<not> mg_Edge m \<or> ro_id r = 0 then State_Monad.return (Inr ()) else record_all a (route_all r) reps)"

definition publishTargets :: "answers \<Rightarrow> manager \<Rightarrow> route \<Rightarrow> Replica list \<Rightarrow> ('z world_scheme, act_error + unit) state" where
  "publishTargets a m r reps =
     (if \<not> mg_Edge m \<or> ro_id r = 0 then State_Monad.return (Inr ())
      else and_then (recordTargets a m r reps) (\<lambda>_. pushRoutes a m))"

section \<open>What a program logs\<close>

definition writes :: "call \<Rightarrow> bool" where
  "writes c \<longleftrightarrow> (case c of CallSetTargets _ _ \<Rightarrow> True | CallPutTarget _ \<Rightarrow> True | CallDeploy d \<Rightarrow> d = DeployPlanRoutes | _ \<Rightarrow> False)"

text \<open>A program logs calls of the kind \<open>P\<close> after those before it, and changes the tables only with a call that writes.\<close>

definition logs :: "('z world_scheme, 'a) state \<Rightarrow> (call \<Rightarrow> bool) \<Rightarrow> bool" where
  "logs m P \<longleftrightarrow> (\<forall>w r w'. run_state m w = (r, w') \<longrightarrow>
     (\<exists>es. wd_log w' = wd_log w @ es \<and> (\<forall>x \<in> set es. P (fst x)) \<and>
        ((\<forall>x \<in> set es. \<not> writes (fst x)) \<longrightarrow> wd_store w' = wd_store w)))"

named_theorems logs_rules \<open>which calls the programs log\<close>

lemma logsD:
  "logs m P \<Longrightarrow> run_state m w = (r, w') \<Longrightarrow>
   \<exists>es. wd_log w' = wd_log w @ es \<and> (\<forall>x \<in> set es. P (fst x)) \<and> ((\<forall>x \<in> set es. \<not> writes (fst x)) \<longrightarrow> wd_store w' = wd_store w)"
  unfolding logs_def by blast

lemma logs_return [logs_rules]: "logs (State_Monad.return x) P"
  by (simp add: logs_def)

lemma logs_bind [logs_rules]:
  assumes "logs m P" "\<And>x. logs (f x) P"
  shows "logs (State_Monad.bind m f) P"
  unfolding logs_def
proof (intro allI impI)
  fix w r w' assume "run_state (State_Monad.bind m f) w = (r, w')"
  then obtain x w1 where run: "run_state m w = (x, w1)" "run_state (f x) w1 = (r, w')" by (auto split: prod.splits)
  obtain es1 where es1: "wd_log w1 = wd_log w @ es1" "\<forall>x \<in> set es1. P (fst x)"
    "(\<forall>x \<in> set es1. \<not> writes (fst x)) \<longrightarrow> wd_store w1 = wd_store w"
    using logsD[OF assms(1) run(1)] by blast
  obtain es2 where es2: "wd_log w' = wd_log w1 @ es2" "\<forall>x \<in> set es2. P (fst x)"
    "(\<forall>x \<in> set es2. \<not> writes (fst x)) \<longrightarrow> wd_store w' = wd_store w1"
    using logsD[OF assms(2) run(2)] by blast
  show "\<exists>es. wd_log w' = wd_log w @ es \<and> (\<forall>x \<in> set es. P (fst x)) \<and>
      ((\<forall>x \<in> set es. \<not> writes (fst x)) \<longrightarrow> wd_store w' = wd_store w)"
    using es1 es2 by (intro exI[of _ "es1 @ es2"]) auto
qed

lemma logs_weaken: "logs m P \<Longrightarrow> (\<And>c. P c \<Longrightarrow> Q c) \<Longrightarrow> logs m Q"
  unfolding logs_def by (meson order_refl)

lemma logs_ask [logs_rules]: "P c \<Longrightarrow> logs (ask a c) P"
  by (auto simp: logs_def ask_def Let_def)

lemma logs_the_log [logs_rules]: "logs the_log P"
  by (auto simp: logs_def the_log_def)

lemma logs_attempt [logs_rules]: "P c \<Longrightarrow> logs (attempt a c) P"
  unfolding attempt_def by (intro logs_rules)

lemma logs_sum [logs_rules]:
  "(\<And>e. logs (f e) P) \<Longrightarrow> (\<And>x. logs (g x) P) \<Longrightarrow> logs (case r of Inl e \<Rightarrow> f e | Inr x \<Rightarrow> g x) P"
  by (cases r) auto

lemma logs_option [logs_rules]:
  "logs f P \<Longrightarrow> (\<And>x. logs (g x) P) \<Longrightarrow> logs (case r of None \<Rightarrow> f | Some x \<Rightarrow> g x) P"
  by (cases r) auto

lemma logs_prod [logs_rules]: "(\<And>x y. logs (f x y) P) \<Longrightarrow> logs (case r of (x, y) \<Rightarrow> f x y) P"
  by (cases r) auto

lemma logs_if [logs_rules]: "logs m P \<Longrightarrow> logs n P \<Longrightarrow> logs (if b then m else n) P"
  by simp

lemma logs_Let [logs_rules]: "logs (f x) P \<Longrightarrow> logs (let y = x in f y) P"
  by (simp add: Let_def)

lemma logs_and_then [logs_rules]: "logs m P \<Longrightarrow> (\<And>x. logs (f x) P) \<Longrightarrow> logs (and_then m f) P"
  unfolding and_then_def by (intro logs_rules)

lemma logs_now [logs_rules]: "P CallNow \<Longrightarrow> logs (now a) P"
  unfolding now_def by (intro logs_rules)

lemma logs_stopReplica [logs_rules]:
  "P (CallStop c (stopTimeout m)) \<Longrightarrow> P (CallRemove c) \<Longrightarrow> logs (stopReplica a m c) P"
  unfolding stopReplica_def by (intro logs_rules)

lemma logs_list_live [logs_rules]: "P (CallList service) \<Longrightarrow> logs (list_live a app env service) P"
  unfolding list_live_def by (intro logs_rules)

lemma logs_pushRoutes [logs_rules]: "P CallPush \<Longrightarrow> logs (pushRoutes a m) P"
  unfolding pushRoutes_def by (intro logs_rules)

lemma logs_set_targets [logs_rules]: "P (CallSetTargets (fst one) ts) \<Longrightarrow> logs (set_targets a t one ts) P"
  unfolding logs_def set_targets_def and_then_def attempt_def ask_def
  by (auto simp: Let_def writes_def split: option.splits sum.splits)

lemma logs_target_rows [logs_rules]: "P CallNow \<Longrightarrow> logs (target_rows a i reps) P"
  by (induction reps) (auto intro!: logs_rules)

lemma logs_record_all [logs_rules]:
  "P CallNow \<Longrightarrow> (\<And>i ts. P (CallSetTargets i ts)) \<Longrightarrow> logs (record_all a ones reps) P"
  by (induction ones) (auto intro!: logs_rules)

lemma logs_recordTargets [logs_rules]:
  "P CallNow \<Longrightarrow> (\<And>i ts. P (CallSetTargets i ts)) \<Longrightarrow> logs (recordTargets a m r reps) P"
  unfolding recordTargets_def by (intro logs_rules)

lemma logs_publishTargets [logs_rules]:
  "P CallNow \<Longrightarrow> (\<And>i ts. P (CallSetTargets i ts)) \<Longrightarrow> P CallPush \<Longrightarrow> logs (publishTargets a m r reps) P"
  unfolding publishTargets_def by (intro logs_rules)

section \<open>Successful programs\<close>

lemma attempt_run:
  "run_state (attempt a c) w = (r, w') \<longleftrightarrow>
     (let e = an_error a (wd_log w) c
      in w' = w\<lparr>wd_log := wd_log w @ [(c, e)]\<rparr> \<and> r = (case e of None \<Rightarrow> Inr () | Some x \<Rightarrow> Inl (CallFailed c x)))"
  by (auto simp: attempt_def ask_def Let_def)

lemma attempt_Inr: "run_state (attempt a c) w = (Inr u, w') \<longleftrightarrow>
    an_error a (wd_log w) c = None \<and> w' = w\<lparr>wd_log := wd_log w @ [(c, None)]\<rparr>"
  by (auto simp: attempt_run Let_def split: option.splits)

lemma and_then_Inr:
  "run_state (and_then m f) w = (Inr y, w') \<longleftrightarrow>
     (\<exists>x w1. run_state m w = (Inr x, w1) \<and> run_state (f x) w1 = (Inr y, w'))"
  by (auto simp: and_then_def split: prod.splits sum.splits)

lemma bind_run:
  "run_state (State_Monad.bind m f) w = (y, w') \<longleftrightarrow> (\<exists>x w1. run_state m w = (x, w1) \<and> run_state (f x) w1 = (y, w'))"
  by (auto split: prod.splits)

lemma now_run: "run_state (now a) w = (t, w') \<longleftrightarrow>
    t = an_now a (wd_log w) \<and> w' = w\<lparr>wd_log := wd_log w @ [(CallNow, an_error a (wd_log w) CallNow)]\<rparr>"
  by (auto simp: now_def ask_def the_log_def Let_def)

declare State_Monad.run_state_bind [simp del]

lemma bind_runE:
  assumes "run_state (State_Monad.bind m f) w = (y, w')"
  obtains x w1 where "run_state m w = (x, w1)" "run_state (f x) w1 = (y, w')"
  using assms by (auto simp: bind_run)

lemma and_then_runE:
  assumes "run_state (and_then m f) w = (y, w')"
  obtains e where "run_state m w = (Inl e, w')" "y = Inl e" | x w1 where "run_state m w = (Inr x, w1)" "run_state (f x) w1 = (y, w')"
  using assms by (auto simp: and_then_def elim!: bind_runE split: sum.split_asm)

lemmas run_simps = bind_run and_then_Inr attempt_Inr now_run

text \<open>The rows written for a route are those of the replicas that have a port.\<close>

definition row_view :: "EdgeTarget \<Rightarrow> int \<times> int \<times> TargetState" where
  "row_view t = (et_Replica t, et_Port t, et_State t)"

definition pool_view :: "Replica list \<Rightarrow> (int \<times> int \<times> TargetState) list" where
  "pool_view reps = map (\<lambda>rep. (rp_Index rep, rp_Port rep, replica_TargetState (rp_State rep))) (filter (\<lambda>rep. rp_Port rep > 0) reps)"

lemma target_rows_view: "run_state (target_rows a i reps) w = (ts, w') \<Longrightarrow> map row_view ts = pool_view reps"
  by (induction reps arbitrary: w ts w') (auto simp: bind_run pool_view_def row_view_def split: if_splits)

lemma record_all_Inr:
  assumes "run_state (record_all a ones reps) w = (Inr u, w')"
  shows "\<exists>es. wd_log w' = wd_log w @ es \<and>
    (\<forall>one \<in> set ones. \<exists>ts. (CallSetTargets (fst one) ts, None) \<in> set es \<and> map row_view ts = pool_view reps)"
  using assms
proof (induction ones arbitrary: w)
  case (Cons one ones)
  obtain ts w1 t w2 w3 where run: "run_state (target_rows a (fst one) reps) w = (ts, w1)" "run_state (now a) w1 = (t, w2)"
    "run_state (set_targets a t one ts) w2 = (Inr (), w3)" "run_state (record_all a ones reps) w3 = (Inr u, w')"
    using Cons.prems by (auto simp: bind_run and_then_Inr)
  obtain es1 where es1: "wd_log w1 = wd_log w @ es1" using logsD[OF logs_target_rows[of "\<lambda>_. True"] run(1)] by blast
  obtain es2 where es2: "wd_log w2 = wd_log w1 @ es2" using logsD[OF logs_now[of "\<lambda>_. True"] run(2)] by blast
  have es3: "wd_log w3 = wd_log w2 @ [(CallSetTargets (fst one) ts, None)]"
    using run(3) by (auto simp: set_targets_def and_then_Inr attempt_Inr split: sum.splits)
  obtain es4 where es4: "wd_log w' = wd_log w3 @ es4"
    "\<forall>one \<in> set ones. \<exists>ts. (CallSetTargets (fst one) ts, None) \<in> set es4 \<and> map row_view ts = pool_view reps"
    using Cons.IH[OF run(4)] by blast
  let ?es = "es1 @ es2 @ [(CallSetTargets (fst one) ts, None)] @ es4"
  have "wd_log w' = wd_log w @ ?es" by (simp add: es1 es2 es3 es4(1))
  moreover have "\<exists>ts. (CallSetTargets (fst one') ts, None) \<in> set ?es \<and> map row_view ts = pool_view reps"
    if "one' \<in> set (one # ones)" for one'
    using that es4(2) target_rows_view[OF run(1)] by auto
  ultimately show ?case by blast
qed simp

end
