(* ===== verification/Rollout.thy ===== *)
theory Rollout
  imports EnvWorld
begin

text \<open>
  Replacing the replicas of a service without an interruption (\<^verbatim>\<open>internal/env/rollout.go\<close>): bring up new replicas, wait
  until they are healthy, flip the pool of the service's routes to them, drain the old replicas and stop them. The record
  of the rollout and the view of the service, which the source changes through pointers, are part of the state. The texts
  of the steps and the lines of progress are not modelled; waiting for a container to be healthy, and building its
  specification and its secret variables, are calls.
\<close>

section \<open>Data\<close>

datatype RolloutStepName = StepStart | StepHealth | StepProbe | StepFlip | StepDrain | StepStop | StepRoute

datatype StepStatus = StepStarted | StepOK | StepFailed | StepSkipped

record RolloutStep =
  rs_Service :: string
  rs_Replica :: int
  rs_Step :: RolloutStepName
  rs_Status :: StepStatus
  rs_State :: "ReplicaState option"
  rs_Host :: string
  rs_Inflight :: int
  rs_At :: gtime
  rs_Duration :: duration

record Rollout =
  rl_Service :: string
  rl_Host :: string
  rl_URL :: string
  rl_Steps :: "RolloutStep list"
  rl_Replicas :: "Replica list"
  rl_Failed :: "RolloutStep option"

definition roll_Add :: "Rollout \<Rightarrow> RolloutStep \<Rightarrow> Rollout" where
  "roll_Add r s0 =
     (let s = (if rs_Service s0 = [] then s0\<lparr>rs_Service := rl_Service r\<rparr> else s0);
          r1 = r\<lparr>rl_Steps := rl_Steps r @ [s]\<rparr>
      in if rs_Status s = StepFailed \<and> rl_Failed r1 = None then r1\<lparr>rl_Failed := Some s\<rparr> else r1)"

definition HealthNone :: string where "HealthNone = ''none''"
definition HealthWaiting :: string where "HealthWaiting = ''waiting''"
definition HealthOK :: string where "HealthOK = ''ok''"
definition HealthFailed :: string where "HealthFailed = ''failed''"

datatype change_why =
    NotRecorded | ImageChanged string string | PortsChanged | ReplicasChanged int int | CommandChanged | VarsChanged
  | HealthChanged | CodeChanged string string

record ServiceView =
  sv_Name :: string
  sv_Container :: string
  sv_ID :: string
  sv_Image :: string
  sv_Port :: int
  sv_ContainerPort :: int
  sv_Protocol :: string
  sv_Status :: string
  sv_Health :: string
  sv_Change :: string
  sv_Detail :: "change_why option"
  sv_Replicas :: "Replica list"

record svcRollPlan = svcPlan +
  plan_protocol :: string
  plan_health :: "Health option"

record upPlan =
  up_app :: string
  up_env :: string
  up_cfg :: "App option"
  up_layout :: portLayout
  up_tree :: string

record roll_world = world +
  wd_roll :: Rollout
  wd_svc :: ServiceView

definition PublicURL :: "string \<Rightarrow> string" where
  "PublicURL host = (if host = [] then [] else ''https://'' @ host)"

definition DepHost :: string where
  "DepHost = ''127.0.0.1''"

abbreviation (input) probeTries :: nat where
  "probeTries \<equiv> 3"

definition new_step :: "int \<Rightarrow> RolloutStepName \<Rightarrow> StepStatus \<Rightarrow> ReplicaState \<Rightarrow> RolloutStep" where
  "new_step index name status st =
     \<lparr>rs_Service = [], rs_Replica = index, rs_Step = name, rs_Status = status, rs_State = Some st, rs_Host = [], rs_Inflight = 0,
      rs_At = 0, rs_Duration = 0\<rparr>"

section \<open>Small operations\<close>

definition step :: "answers \<Rightarrow> RolloutStep \<Rightarrow> (roll_world, unit) state" where
  "step a s = do {
     s' \<leftarrow> (if is_zero (rs_At s) then do { t \<leftarrow> now a; State_Monad.return (s\<lparr>rs_At := t\<rparr>) } else State_Monad.return s);
     State (\<lambda>w. ((), w\<lparr>wd_roll := roll_Add (wd_roll w) s'\<rparr>)) }"

definition set_svc :: "(ServiceView \<Rightarrow> ServiceView) \<Rightarrow> (roll_world, unit) state" where
  "set_svc f = State (\<lambda>w. ((), w\<lparr>wd_svc := f (wd_svc w)\<rparr>))"

definition set_roll_replicas :: "Replica list \<Rightarrow> (roll_world, unit) state" where
  "set_roll_replicas reps = State (\<lambda>w. ((), w\<lparr>wd_roll := (wd_roll w)\<lparr>rl_Replicas := reps\<rparr>\<rparr>))"

definition noHealthCheck :: "svcRollPlan \<Rightarrow> int \<Rightarrow> bool" where
  "noHealthCheck s port =
     ((case plan_health s of Some h \<Rightarrow> hl_Command h = [] | None \<Rightarrow> True) \<and>
      (port = 0 \<or> ToLower (plan_protocol s) = ''udp''))"

definition healthOf :: "svcRollPlan \<Rightarrow> int \<Rightarrow> string" where
  "healthOf s port = (if noHealthCheck s port then HealthNone else HealthWaiting)"

definition shortTree :: "string \<Rightarrow> string" where
  "shortTree tree = (if tree = [] then ''unknown'' else tree)"

definition staleTree :: "replica list \<Rightarrow> string \<Rightarrow> change_why option" where
  "staleTree pool tree =
     (if tree = [] then None
      else map_option (\<lambda>r. CodeChanged (shortTree (re_tree r)) tree) (find (\<lambda>r. re_tree r \<noteq> tree) pool))"

definition fillFromFirst :: "ServiceView \<Rightarrow> ServiceView" where
  "fillFromFirst svc =
     (case sv_Replicas svc of [] \<Rightarrow> svc
      | first # _ \<Rightarrow>
          (let s1 = svc\<lparr>sv_Container := rp_Container first, sv_ID := rp_ID first\<rparr>
           in if rp_Port first > 0 then s1\<lparr>sv_Port := rp_Port first\<rparr> else s1))"

definition unchanged_row :: "EnvService \<Rightarrow> ServiceView \<Rightarrow> string \<times> string \<times> string \<Rightarrow> int \<Rightarrow> bool \<times> change_why option" where
  "unchanged_row have want enc replicas =
     (let haveReplicas = (if es_Replicas have \<le> 0 then DefaultReplicas else es_Replicas have)
      in if es_Image have \<noteq> sv_Image want then (False, Some (ImageChanged (es_Image have) (sv_Image want)))
         else if es_Port have \<noteq> sv_Port want \<or> es_ContainerPort have \<noteq> sv_ContainerPort want \<or> es_Protocol have \<noteq> sv_Protocol want
         then (False, Some PortsChanged)
         else if haveReplicas \<noteq> replicas then (False, Some (ReplicasChanged haveReplicas replicas))
         else if es_CommandJSON have \<noteq> fst enc then (False, Some CommandChanged)
         else if es_VarsJSON have \<noteq> fst (snd enc) then (False, Some VarsChanged)
         else if es_HealthJSON have \<noteq> snd (snd enc) then (False, Some HealthChanged)
         else (True, None))"

definition unchanged :: "answers \<Rightarrow> ServiceView \<Rightarrow> int \<Rightarrow> (roll_world, act_error + (bool \<times> change_why option)) state" where
  "unchanged a want replicas = do {
     l \<leftarrow> the_log;
     and_then (attempt a CallServices) (\<lambda>_.
       case find (\<lambda>r. es_Name r = sv_Name want) (an_services a l) of
         None \<Rightarrow> State_Monad.return (Inr (False, Some NotRecorded))
       | Some have \<Rightarrow> do {
           l2 \<leftarrow> the_log;
           and_then (attempt a CallEncode) (\<lambda>_. State_Monad.return (Inr (unchanged_row have want (an_encoded a l2) replicas))) }) }"

section \<open>Bringing up a replica\<close>

text \<open>The error comes with the replica when there is one.\<close>

definition with_rep :: "Replica option \<Rightarrow> (roll_world, act_error + 'a) state \<Rightarrow> (roll_world, (Replica option \<times> act_error) + 'a) state" where
  "with_rep rep m = do { r \<leftarrow> m; State_Monad.return (case r of Inl e \<Rightarrow> Inl (rep, e) | Inr x \<Rightarrow> Inr x) }"

definition fresh_replica :: "upPlan \<Rightarrow> svcRollPlan \<Rightarrow> int \<Rightarrow> int \<Rightarrow> gtime \<Rightarrow> Replica" where
  "fresh_replica p s index port t =
     \<lparr>rp_Service = plan_name s, rp_Index = index, rp_Container = ReplicaContainerName (up_app p) (up_env p) (plan_name s) index,
      rp_ID = [], rp_Port = port, rp_State = ReplicaStarting, rp_Status = ServiceStarting, rp_Health = healthOf s port,
      rp_Inflight = 0, rp_Since = t, rp_Detail = [], rp_Restarts = 0\<rparr>"

definition startReplica :: "answers \<Rightarrow> upPlan \<Rightarrow> svcRollPlan \<Rightarrow> int \<Rightarrow> (roll_world, (Replica option \<times> act_error) + Replica) state" where
  "startReplica a p s index =
     (case replicaPort (up_layout p) (plan_name s) index of
        Inl e \<Rightarrow> State_Monad.return (Inl (None, LayoutError e))
      | Inr port \<Rightarrow>
          and_then (with_rep None (attempt a (CallSpec index))) (\<lambda>_. do {
            t \<leftarrow> now a;
            let rep = fresh_replica p s index port t in
            and_then (with_rep (Some rep) (attempt a (CallRemove (rp_Container rep)))) (\<lambda>_.
            and_then (with_rep (Some rep) (attempt a CallSecrets)) (\<lambda>_. do {
              l \<leftarrow> the_log;
              and_then (with_rep (Some rep) (attempt a (CallRun (rp_Container rep) index port))) (\<lambda>_. do {
                _ \<leftarrow> now a;
                _ \<leftarrow> ask a (CallResource (rp_Container rep) index port);
                State_Monad.return (Inr (rep\<lparr>rp_ID := an_id a l, rp_Status := ServiceRunning\<rparr>)) }) })) }))"

definition healthReplica :: "answers \<Rightarrow> Replica \<Rightarrow> (roll_world, act_error + unit) state" where
  "healthReplica a rep =
     (if rp_Health rep = HealthNone then State_Monad.return (Inr ())
      else attempt a (CallHealth (rp_Container rep) (rp_Index rep)))"

definition probe_url :: "svcRollPlan \<Rightarrow> Replica \<Rightarrow> string" where
  "probe_url s rep =
     (let path = (case plan_health s of Some h \<Rightarrow> if hl_Path h \<noteq> [] then hl_Path h else ''/'' | None \<Rightarrow> ''/'')
      in ''http://'' @ DepHost @ '':'' @ Itoa (rp_Port rep) @ path)"

text \<open>The tries after the first wait before they probe.\<close>

fun probe_loop :: "answers \<Rightarrow> string \<Rightarrow> nat \<Rightarrow> bool \<Rightarrow> act_error option \<Rightarrow> (roll_world, act_error + unit) state" where
  "probe_loop a url 0 first lst =
     State_Monad.return (case lst of None \<Rightarrow> Inr () | Some e \<Rightarrow> Inl e)"
| "probe_loop a url (Suc n) first lst =
     and_then (if first then State_Monad.return (Inr ()) else attempt a CallSleep) (\<lambda>_. do {
       r \<leftarrow> attempt a (CallProbe url);
       (case r of Inr _ \<Rightarrow> State_Monad.return (Inr ()) | Inl e \<Rightarrow> probe_loop a url n False (Some e)) })"

definition probeReplica :: "answers \<Rightarrow> svcRollPlan \<Rightarrow> Replica \<Rightarrow> (roll_world, act_error + unit) state" where
  "probeReplica a s rep =
     (if rp_Port rep \<le> 0 then State_Monad.return (Inr ()) else probe_loop a (probe_url s rep) probeTries True None)"

definition bringUpReplica :: "answers \<Rightarrow> upPlan \<Rightarrow> svcRollPlan \<Rightarrow> int \<Rightarrow> (roll_world, (Replica option \<times> act_error) + Replica) state" where
  "bringUpReplica a p s index = do {
     r \<leftarrow> startReplica a p s index;
     (case r of
        Inl e \<Rightarrow> do { _ \<leftarrow> step a (new_step index StepStart StepFailed ReplicaFailed); State_Monad.return (Inl e) }
      | Inr rep \<Rightarrow> do {
          _ \<leftarrow> step a (new_step index StepStart StepOK ReplicaStarting);
          h \<leftarrow> healthReplica a rep;
          (case h of
             Inl e \<Rightarrow> do {
               _ \<leftarrow> step a (new_step index StepHealth StepFailed ReplicaFailed);
               State_Monad.return (Inl (Some (rep\<lparr>rp_State := ReplicaFailed, rp_Health := HealthFailed\<rparr>), e)) }
           | Inr _ \<Rightarrow> do {
               let rep1 = rep\<lparr>rp_State := ReplicaHealthy, rp_Health := HealthOK\<rparr>;
               _ \<leftarrow> step a (new_step index StepHealth StepOK ReplicaHealthy);
               pr \<leftarrow> probeReplica a s rep1;
               (case pr of
                  Inl e \<Rightarrow> do {
                    _ \<leftarrow> step a (new_step index StepProbe StepFailed ReplicaFailed);
                    State_Monad.return (Inl (Some (rep1\<lparr>rp_State := ReplicaFailed\<rparr>), e)) }
                | Inr _ \<Rightarrow> do {
                    _ \<leftarrow> step a (new_step index StepProbe StepOK ReplicaHealthy);
                    State_Monad.return (Inr rep1) }) }) }) }"

text \<open>The loop over the numbers of the new replicas; the replicas brought up so far come with the error.\<close>

fun bring_up_all :: "answers \<Rightarrow> upPlan \<Rightarrow> svcRollPlan \<Rightarrow> int list \<Rightarrow> Replica list \<Rightarrow>
   (roll_world, (Replica list \<times> Replica option \<times> act_error) + Replica list) state" where
  "bring_up_all a p s [] fresh = State_Monad.return (Inr fresh)"
| "bring_up_all a p s (i # is) fresh = do {
     r \<leftarrow> bringUpReplica a p s i;
     (case r of Inl e \<Rightarrow> State_Monad.return (Inl (fresh, e)) | Inr rep \<Rightarrow> bring_up_all a p s is (fresh @ [rep])) }"

section \<open>Flipping the pool\<close>

definition flipTargets :: "upPlan \<Rightarrow> svcRollPlan \<Rightarrow> gtime \<Rightarrow> Replica list \<Rightarrow> replica list \<Rightarrow> Replica list \<times> Replica list" where
  "flipTargets p s t fresh old =
     (map (\<lambda>rep. rep\<lparr>rp_State := ReplicaActive, rp_Since := t\<rparr>) fresh,
      map (\<lambda>rep. rep\<lparr>rp_Since := t\<rparr>) (replicasOf (plan_name s) (up_layout p) old ReplicaDraining))"

fun each_step :: "answers \<Rightarrow> (Replica \<Rightarrow> RolloutStep) \<Rightarrow> Replica list \<Rightarrow> (roll_world, unit) state" where
  "each_step a f [] = State_Monad.return ()"
| "each_step a f (rep # reps) = do { _ \<leftarrow> step a (f rep); each_step a f reps }"

definition flipSteps :: "answers \<Rightarrow> route \<Rightarrow> Replica list \<Rightarrow> Replica list \<Rightarrow> gtime \<Rightarrow> (roll_world, unit) state" where
  "flipSteps a r fresh draining t = do {
     _ \<leftarrow> each_step a (\<lambda>rep. (new_step (rp_Index rep) StepFlip StepOK ReplicaActive)\<lparr>rs_Host := ro_host r, rs_At := t\<rparr>) fresh;
     (if draining = [] then each_step a (\<lambda>rep. (new_step (rp_Index rep) StepDrain StepSkipped ReplicaActive)\<lparr>rs_Host := ro_host r\<rparr>) fresh
      else State_Monad.return ()) }"

definition flipFailed :: "answers \<Rightarrow> route \<Rightarrow> Replica list \<Rightarrow> (roll_world, unit) state" where
  "flipFailed a r fresh =
     each_step a (\<lambda>rep. (new_step (rp_Index rep) StepFlip StepFailed ReplicaHealthy)\<lparr>rs_Host := ro_host r\<rparr>) fresh"

text \<open>The new replicas are active from the flip on, in the caller's list too, also when recording it fails.\<close>

definition flipPool :: "answers \<Rightarrow> manager \<Rightarrow> upPlan \<Rightarrow> svcRollPlan \<Rightarrow> route \<Rightarrow> Replica list \<Rightarrow> replica list \<Rightarrow>
   (roll_world, Replica list \<times> (act_error + gtime)) state" where
  "flipPool a m p s r fresh0 old = do {
     t \<leftarrow> now a;
     let (fresh, draining) = flipTargets p s t fresh0 old;
     rec \<leftarrow> recordTargets a m r (fresh @ draining);
     (case rec of
        Inl e \<Rightarrow> do { _ \<leftarrow> flipFailed a r fresh; State_Monad.return (fresh, Inl e) }
      | Inr _ \<Rightarrow> do {
          pu \<leftarrow> pushRoutes a m;
          (case pu of
             Inl e \<Rightarrow> do { _ \<leftarrow> flipFailed a r fresh; State_Monad.return (fresh, Inl e) }
           | Inr _ \<Rightarrow> do { _ \<leftarrow> flipSteps a r fresh draining t; State_Monad.return (fresh, Inr t) }) }) }"

section \<open>Draining and stopping\<close>

definition drained_event :: "string \<Rightarrow> int \<Rightarrow> Event \<Rightarrow> bool" where
  "drained_event host index ev \<longleftrightarrow>
     ev_Kind ev = EventDrained \<and> NormalizeHost (ev_Host ev) = NormalizeHost host \<and>
     (case ev_Target ev of None \<Rightarrow> False | Some t \<Rightarrow> tgt_Replica t = index)"

text \<open>The first event that says the replica is drained ends the watch.\<close>

definition watch_result :: "string \<Rightarrow> int \<Rightarrow> Event list \<times> watch_end \<Rightarrow> int \<times> bool" where
  "watch_result host index res =
     (case find (drained_event host index) (fst res) of
        Some ev \<Rightarrow> ((case ev_Target ev of Some t \<Rightarrow> tgt_Inflight t | None \<Rightarrow> 0), ev_Deadline ev)
      | None \<Rightarrow> (0, snd res = WatchDeadline))"

definition waitDrain :: "answers \<Rightarrow> manager \<Rightarrow> string \<Rightarrow> int \<Rightarrow> duration \<Rightarrow> gtime \<Rightarrow> ('z world_scheme, act_error + (int \<times> bool)) state" where
  "waitDrain a m host index drain since =
     (if \<not> mg_Edge m then State_Monad.return (Inr (0, False))
      else do {
        since' \<leftarrow> (if is_zero since then do { t \<leftarrow> now a; State_Monad.return (t - second) } else State_Monad.return since);
        l \<leftarrow> the_log;
        and_then (attempt a (CallDrain host index drain since')) (\<lambda>_.
          State_Monad.return (Inr (watch_result host index (an_watch a l)))) })"

text \<open>The part after the wait.\<close>

definition stop_drained :: "answers \<Rightarrow> manager \<Rightarrow> route \<Rightarrow> replica \<Rightarrow> Replica list \<Rightarrow> gtime \<Rightarrow> act_error + (int \<times> bool) \<Rightarrow>
   (roll_world, act_error + unit) state" where
  "stop_drained a m r old pool started d = do {
     let st = (new_step (re_index old) StepDrain StepOK ReplicaDraining)\<lparr>rs_Host := ro_host r\<rparr>;
     _ \<leftarrow> (case d of
        Inl e \<Rightarrow> step a (st\<lparr>rs_Status := StepSkipped\<rparr>)
      | Inr (inflight, byDeadline) \<Rightarrow> do {
          t \<leftarrow> now a;
          step a (if byDeadline then st\<lparr>rs_Inflight := inflight, rs_Duration := time_sub t started\<rparr>
                  else st\<lparr>rs_Duration := time_sub t started\<rparr>) });
     x \<leftarrow> stopReplica a m (re_container old);
     (case x of
        Inl e \<Rightarrow> do { _ \<leftarrow> step a (new_step (re_index old) StepStop StepFailed ReplicaDraining); State_Monad.return (Inl e) }
      | Inr _ \<Rightarrow> do {
          _ \<leftarrow> step a (new_step (re_index old) StepStop StepOK ReplicaStopped);
          publishTargets a m r pool }) }"

definition drainAndStop :: "answers \<Rightarrow> manager \<Rightarrow> route \<Rightarrow> replica \<Rightarrow> Replica list \<Rightarrow> duration \<Rightarrow> gtime \<Rightarrow>
   (roll_world, act_error + unit) state" where
  "drainAndStop a m r old pool drain since = do {
     started \<leftarrow> now a;
     d \<leftarrow> waitDrain a m (ro_host r) (re_index old) drain since;
     stop_drained a m r old pool started d }"

text \<open>The loop over the old replicas; a failure says which of them are left.\<close>

fun drain_all :: "answers \<Rightarrow> manager \<Rightarrow> upPlan \<Rightarrow> svcRollPlan \<Rightarrow> route \<Rightarrow> Replica list \<Rightarrow> duration \<Rightarrow> gtime \<Rightarrow> replica list \<Rightarrow>
   (roll_world, (replica list \<times> act_error) + unit) state" where
  "drain_all a m p s r fresh drain t [] = State_Monad.return (Inr ())"
| "drain_all a m p s r fresh drain t (old # olds) = do {
     let remaining = replicasOf (plan_name s) (up_layout p) olds ReplicaDraining;
     x \<leftarrow> drainAndStop a m r old (fresh @ remaining) drain t;
     (case x of Inl e \<Rightarrow> State_Monad.return (Inl (old # olds, e)) | Inr _ \<Rightarrow> drain_all a m p s r fresh drain t olds) }"

section \<open>The rollout\<close>

definition stop_legacy :: "answers \<Rightarrow> manager \<Rightarrow> replica option \<Rightarrow> (roll_world, act_error + unit) state" where
  "stop_legacy a m legacy =
     (case legacy of None \<Rightarrow> State_Monad.return (Inr ())
      | Some lg \<Rightarrow> and_then (stopReplica a m (re_container lg)) (\<lambda>_. do {
          _ \<leftarrow> step a (new_step 0 StepStop StepOK ReplicaStopped); State_Monad.return (Inr ()) }))"

text \<open>After the flip: drain and stop the old replicas, then the container from before there were replicas.\<close>

definition roll_drain :: "answers \<Rightarrow> manager \<Rightarrow> upPlan \<Rightarrow> svcRollPlan \<Rightarrow> route \<Rightarrow> Replica list \<Rightarrow> gtime \<Rightarrow> replica list \<Rightarrow> replica option \<Rightarrow>
   (roll_world, act_error + unit) state" where
  "roll_drain a m p s r fresh t old legacy = do {
     d \<leftarrow> drain_all a m p s r fresh (drainOf (up_cfg p) (plan_name s)) t old;
     (case d of
        Inl (left_over, e) \<Rightarrow> do {
          _ \<leftarrow> set_roll_replicas (fresh @ replicasOf (plan_name s) (up_layout p) left_over ReplicaDraining);
          State_Monad.return (Inl e) }
      | Inr _ \<Rightarrow> and_then (stop_legacy a m legacy) (\<lambda>_. do {
          _ \<leftarrow> set_svc (\<lambda>sv. fillFromFirst (sv\<lparr>sv_Replicas := fresh, sv_Status := ServiceRunning, sv_Health := HealthOK\<rparr>));
          _ \<leftarrow> set_roll_replicas fresh;
          State_Monad.return (Inr ()) })) }"

definition roll_flip :: "answers \<Rightarrow> manager \<Rightarrow> upPlan \<Rightarrow> svcRollPlan \<Rightarrow> route \<Rightarrow> Replica list \<Rightarrow> replica list \<Rightarrow> replica option \<Rightarrow>
   (roll_world, act_error + unit) state" where
  "roll_flip a m p s r fresh0 old legacy = do {
     ff \<leftarrow> flipPool a m p s r fresh0 old;
     (case snd ff of
        Inl e \<Rightarrow> do {
          _ \<leftarrow> set_roll_replicas (fst ff @ replicasOf (plan_name s) (up_layout p) old ReplicaActive);
          State_Monad.return (Inl e) }
      | Inr t \<Rightarrow> roll_drain a m p s r (fst ff) t old legacy) }"

definition roll_failed :: "upPlan \<Rightarrow> svcRollPlan \<Rightarrow> replica list \<Rightarrow> Replica list \<Rightarrow> Replica option \<Rightarrow> act_error \<Rightarrow> (roll_world, act_error + unit) state" where
  "roll_failed p s old fresh rep e = do {
     let reps = (case rep of None \<Rightarrow> [] | Some x \<Rightarrow> [x]) @ fresh @ replicasOf (plan_name s) (up_layout p) old ReplicaActive;
     _ \<leftarrow> set_svc (\<lambda>sv. sv\<lparr>sv_Status := ServiceFailed, sv_Health := HealthFailed, sv_Replicas := reps\<rparr>);
     _ \<leftarrow> set_roll_replicas reps;
     State_Monad.return (Inl e) }"

definition roll_changed :: "answers \<Rightarrow> manager \<Rightarrow> upPlan \<Rightarrow> svcRollPlan \<Rightarrow> route \<Rightarrow> int \<Rightarrow> replica list \<Rightarrow> replica option \<Rightarrow>
   (roll_world, act_error + unit) state" where
  "roll_changed a m p s r want old legacy = do {
     b \<leftarrow> bring_up_all a p s (freeIndexes old want) [];
     (case b of
        Inl (fresh, rep, e) \<Rightarrow> roll_failed p s old fresh rep e
      | Inr fresh0 \<Rightarrow> roll_flip a m p s r fresh0 old legacy) }"

definition roll_unchanged :: "answers \<Rightarrow> manager \<Rightarrow> upPlan \<Rightarrow> svcRollPlan \<Rightarrow> route \<Rightarrow> replica list \<Rightarrow> (roll_world, act_error + unit) state" where
  "roll_unchanged a m p s r old = do {
     let reps = replicasOf (plan_name s) (up_layout p) old ReplicaActive;
     _ \<leftarrow> set_svc (\<lambda>sv. fillFromFirst (sv\<lparr>sv_Change := ''unchanged'', sv_Status := ServiceRunning, sv_Health := HealthOK, sv_Replicas := reps\<rparr>));
     publishTargets a m r reps }"

text \<open>What is done with the live replicas and the verdict whether the service is unchanged.\<close>

definition roll_live :: "answers \<Rightarrow> manager \<Rightarrow> upPlan \<Rightarrow> svcRollPlan \<Rightarrow> route \<Rightarrow> int \<Rightarrow> replica list \<Rightarrow> bool \<times> change_why option \<Rightarrow>
   (roll_world, act_error + unit) state" where
  "roll_live a m p s r want found verdict =
     (let old = runningReplicas (numbered found);
          legacy = legacyOf found;
          (same, why) = (if fst verdict then (case staleTree old (up_tree p) of None \<Rightarrow> verdict | Some x \<Rightarrow> (False, Some x)) else verdict)
      in if same \<and> int (length old) = want \<and> legacy = None
         then roll_unchanged a m p s r old
         else do {
           _ \<leftarrow> set_svc (\<lambda>sv. if \<not> same \<and> why \<noteq> None then sv\<lparr>sv_Detail := why\<rparr> else sv);
           roll_changed a m p s r want old legacy })"

definition rollService :: "answers \<Rightarrow> manager \<Rightarrow> upPlan \<Rightarrow> svcRollPlan \<Rightarrow> route \<Rightarrow> (roll_world, act_error + unit) state" where
  "rollService a m p s r = do {
     svc \<leftarrow> State (\<lambda>w. (wd_svc w, w\<lparr>wd_roll := \<lparr>rl_Service = plan_name s, rl_Host = ro_host r, rl_URL = PublicURL (ro_host r),
             rl_Steps = [], rl_Replicas = [], rl_Failed = None\<rparr>\<rparr>));
     let want = replicaCount (up_cfg p) (plan_name s) in
     (case fits (up_layout p) (plan_name s) (2 * want) of
        Inl e \<Rightarrow> State_Monad.return (Inl (LayoutError e))
      | Inr _ \<Rightarrow>
          and_then (list_live a (up_app p) (up_env p) (plan_name s)) (\<lambda>found.
          and_then (unchanged a svc want) (\<lambda>verdict. roll_live a m p s r want found verdict))) }"

section \<open>What the parts of a rollout log\<close>

definition container_of :: "upPlan \<Rightarrow> svcRollPlan \<Rightarrow> int \<Rightarrow> string" where
  "container_of p s i = ReplicaContainerName (up_app p) (up_env p) (plan_name s) i"

text \<open>The calls that take a container away.\<close>

definition touches :: "string \<Rightarrow> call \<Rightarrow> bool" where
  "touches c x \<longleftrightarrow> x = CallRemove c \<or> (\<exists>t. x = CallStop c t)"

text \<open>The calls of the bring-up of the replicas \<open>I\<close>.\<close>

fun bringup_call :: "upPlan \<Rightarrow> svcRollPlan \<Rightarrow> int set \<Rightarrow> call \<Rightarrow> bool" where
  "bringup_call p s I (CallRemove x) = (x \<in> container_of p s ` I)"
| "bringup_call p s I (CallStop _ _) = False"
| "bringup_call p s I (CallRestart _ _) = False"
| "bringup_call p s I (CallSetTargets _ _) = False"
| "bringup_call p s I (CallPutTarget _) = False"
| "bringup_call p s I CallPush = False"
| "bringup_call p s I (CallDeploy _) = False"
| "bringup_call p s I _ = True"

lemma logs_step [logs_rules]: "P CallNow \<Longrightarrow> logs (step a s) P"
  unfolding step_def by (intro logs_rules) (auto simp: logs_def)

lemma logs_set_svc [logs_rules]: "logs (set_svc f) P"
  by (auto simp: set_svc_def logs_def)

lemma logs_set_roll_replicas [logs_rules]: "logs (set_roll_replicas f) P"
  by (auto simp: set_roll_replicas_def logs_def)

lemma logs_unchanged [logs_rules]: "P CallServices \<Longrightarrow> P CallEncode \<Longrightarrow> logs (unchanged a want n) P"
  unfolding unchanged_def by (intro logs_rules)

lemma logs_with_rep [logs_rules]: "logs m P \<Longrightarrow> logs (with_rep rep m) P"
  unfolding with_rep_def by (intro logs_rules)

lemma logs_startReplica [logs_rules]: "i \<in> I \<Longrightarrow> logs (startReplica a p s i) (bringup_call p s I)"
  unfolding startReplica_def by (intro logs_rules) (auto simp: fresh_replica_def container_of_def)

lemma logs_probe_loop [logs_rules]: "logs (probe_loop a url n first lst) (bringup_call p s I)"
  by (induction a url n first lst rule: probe_loop.induct) (auto intro!: logs_rules)

lemma logs_bringUpReplica [logs_rules]: "i \<in> I \<Longrightarrow> logs (bringUpReplica a p s i) (bringup_call p s I)"
  unfolding bringUpReplica_def healthReplica_def probeReplica_def by (intro logs_rules) auto

lemma logs_bring_up_all: "set is \<subseteq> I \<Longrightarrow> logs (bring_up_all a p s is fresh) (bringup_call p s I)"
  by (induction "is" arbitrary: fresh) (auto intro!: logs_rules)

lemma logs_each_step [logs_rules]: "P CallNow \<Longrightarrow> logs (each_step a f reps) P"
  by (induction reps) (auto intro!: logs_rules)

lemma logs_flipPool [logs_rules]:
  "P CallNow \<Longrightarrow> (\<And>i ts. P (CallSetTargets i ts)) \<Longrightarrow> P CallPush \<Longrightarrow> logs (flipPool a m p s r fresh old) P"
  unfolding flipPool_def flipFailed_def flipSteps_def by (intro logs_rules)

lemma logs_waitDrain [logs_rules]:
  "P CallNow \<Longrightarrow> (\<And>t. P (CallDrain host i d t)) \<Longrightarrow> logs (waitDrain a m host i d since) P"
  unfolding waitDrain_def by (intro logs_rules)

lemma logs_stop_legacy [logs_rules]:
  "P CallNow \<Longrightarrow> (\<And>lg. legacy = Some lg \<Longrightarrow> P (CallStop (re_container lg) (stopTimeout m)) \<and> P (CallRemove (re_container lg))) \<Longrightarrow>
   logs (stop_legacy a m legacy) P"
  unfolding stop_legacy_def by (cases legacy) (auto intro!: logs_rules)

section \<open>What a successful bring-up means\<close>

definition ready :: "upPlan \<Rightarrow> svcRollPlan \<Rightarrow> int \<Rightarrow> int \<Rightarrow> log \<Rightarrow> bool" where
  "ready p s i port l \<longleftrightarrow> replicaPort (up_layout p) (plan_name s) i = Inr port \<and>
     (CallRun (container_of p s i) i port, None) \<in> set l \<and>
     (noHealthCheck s port \<or> (CallHealth (container_of p s i) i, None) \<in> set l) \<and>
     (port \<le> 0 \<or> (\<exists>url. (CallProbe url, None) \<in> set l))"

lemma probe_loop_Inr:
  assumes "run_state (probe_loop a url n first lst) w = (Inr u, w')" "n > 0 \<or> lst \<noteq> None"
  shows "\<exists>es. wd_log w' = wd_log w @ es \<and> (CallProbe url, None) \<in> set es"
  using assms
proof (induction a url n first lst arbitrary: w rule: probe_loop.induct)
  case (1 a url first lst)
  then show ?case by (auto split: option.splits)
next
  case (2 a url n first lst)
  obtain w1 r w2 where run: "run_state (if first then State_Monad.return (Inr ()) else attempt a CallSleep) w = (Inr (), w1)"
    "run_state (attempt a (CallProbe url)) w1 = (r, w2)"
    "run_state (case r of Inr _ \<Rightarrow> State_Monad.return (Inr ()) | Inl e \<Rightarrow> probe_loop a url n False (Some e)) w2 = (Inr u, w')"
    using "2.prems" by (auto simp: run_simps)
  have "logs (if first then State_Monad.return (Inr ()) else attempt a CallSleep) (\<lambda>_. True)" by (intro logs_rules) simp
  then obtain es1 where es1: "wd_log w1 = wd_log w @ es1" using logsD[OF _ run(1)] by blast
  show ?case
  proof (cases r)
    case (Inl e)
    have "wd_log w2 = wd_log w1 @ [(CallProbe url, an_error a (wd_log w1) (CallProbe url))]"
      using run(2) by (simp add: attempt_run Let_def)
    then show ?thesis using es1 "2.IH"[where w = w2] run(3) Inl by fastforce
  next
    case (Inr u')
    then show ?thesis using es1 run(2,3) by (auto simp: attempt_Inr)
  qed
qed

lemma with_rep_Inr: "run_state (with_rep rep m) w = (Inr u, w') \<longleftrightarrow> run_state m w = (Inr u, w')"
proof
  show "run_state m w = (Inr u, w')" if "run_state (with_rep rep m) w = (Inr u, w')"
    using that by (auto simp: with_rep_def elim!: bind_runE split: sum.split_asm)
  show "run_state (with_rep rep m) w = (Inr u, w')" if "run_state m w = (Inr u, w')"
    using that by (auto simp: with_rep_def bind_run)
qed

lemma startReplica_Inr:
  assumes "run_state (startReplica a p s i) w = (Inr rep, w')"
  obtains es where "wd_log w' = wd_log w @ es" "rp_Index rep = i" "rp_Container rep = container_of p s i"
    "replicaPort (up_layout p) (plan_name s) i = Inr (rp_Port rep)" "rp_Health rep = healthOf s (rp_Port rep)"
    "(CallRun (container_of p s i) i (rp_Port rep), None) \<in> set es"
  using assms
  by (auto simp: startReplica_def with_rep_Inr fresh_replica_def container_of_def run_simps ask_def the_log_def Let_def
        split: sum.split_asm)

lemma bringUpReplica_Inr:
  assumes "run_state (bringUpReplica a p s i) w = (Inr rep, w')"
  shows "\<exists>es. wd_log w' = wd_log w @ es \<and> rp_Index rep = i \<and> ready p s i (rp_Port rep) es"
proof -
  obtain rep0 w1 w2 w3 w4 w5 where run: "run_state (startReplica a p s i) w = (Inr rep0, w1)"
    "run_state (step a (new_step i StepStart StepOK ReplicaStarting)) w1 = ((), w2)"
    "run_state (healthReplica a rep0) w2 = (Inr (), w3)"
    "run_state (step a (new_step i StepHealth StepOK ReplicaHealthy)) w3 = ((), w4)"
    "run_state (probeReplica a s (rep0\<lparr>rp_State := ReplicaHealthy, rp_Health := HealthOK\<rparr>)) w4 = (Inr (), w5)"
    "run_state (step a (new_step i StepProbe StepOK ReplicaHealthy)) w5 = ((), w')"
    "rep = rep0\<lparr>rp_State := ReplicaHealthy, rp_Health := HealthOK\<rparr>"
    using assms by (auto simp: bringUpReplica_def Let_def elim!: bind_runE split: sum.split_asm)
  obtain es1 where es1: "wd_log w1 = wd_log w @ es1" "rp_Index rep0 = i" "rp_Container rep0 = container_of p s i"
    "replicaPort (up_layout p) (plan_name s) i = Inr (rp_Port rep0)" "rp_Health rep0 = healthOf s (rp_Port rep0)"
    "(CallRun (container_of p s i) i (rp_Port rep0), None) \<in> set es1"
    using startReplica_Inr[OF run(1)] .
  note steps = logsD[OF logs_step[where P = "\<lambda>_. True"]]
  obtain es2 where es2: "wd_log w2 = wd_log w1 @ es2" using steps[OF _ run(2)] by blast
  obtain es3 where es3: "wd_log w3 = wd_log w2 @ es3"
    "noHealthCheck s (rp_Port rep0) \<or> (CallHealth (container_of p s i) i, None) \<in> set es3"
  proof (cases "noHealthCheck s (rp_Port rep0)")
    case True
    then show ?thesis using run(3) es1(5) that[of "[]"] by (simp add: healthReplica_def healthOf_def)
  next
    case False
    then have "rp_Health rep0 \<noteq> HealthNone" using es1(5) by (simp add: healthOf_def HealthNone_def HealthWaiting_def)
    then have "wd_log w3 = wd_log w2 @ [(CallHealth (container_of p s i) i, None)]"
      using run(3) es1(2,3) by (simp add: healthReplica_def attempt_Inr)
    then show ?thesis using that[of "[(CallHealth (container_of p s i) i, None)]"] by simp
  qed
  obtain es4 where es4: "wd_log w4 = wd_log w3 @ es4" using steps[OF _ run(4)] by blast
  obtain es5 where es5: "wd_log w5 = wd_log w4 @ es5" "rp_Port rep0 \<le> 0 \<or> (\<exists>url. (CallProbe url, None) \<in> set es5)"
  proof (cases "rp_Port rep0 \<le> 0")
    case True
    then show ?thesis using run(5) that[of "[]"] by (simp add: probeReplica_def)
  next
    case False
    then show ?thesis using run(5) probe_loop_Inr[of a _ probeTries True None w4 "()" w5] that by (simp add: probeReplica_def) blast
  qed
  obtain es6 where es6: "wd_log w' = wd_log w5 @ es6" using steps[OF _ run(6)] by blast
  show ?thesis
    using es1 es2 es3 es4 es5 es6 by (intro exI[of _ "es1 @ es2 @ es3 @ es4 @ es5 @ es6"]) (auto simp: run(7) ready_def)
qed

lemma ready_mono: "ready p s i port l \<Longrightarrow> set l \<subseteq> set l' \<Longrightarrow> ready p s i port l'"
  unfolding ready_def by blast

lemma bring_up_all_Inr:
  assumes "run_state (bring_up_all a p s is fresh0) w = (Inr fresh, w')"
  shows "\<exists>es reps. wd_log w' = wd_log w @ es \<and> fresh = fresh0 @ reps \<and> map rp_Index reps = is \<and>
    (\<forall>rep \<in> set reps. ready p s (rp_Index rep) (rp_Port rep) es)"
  using assms
proof (induction "is" arbitrary: fresh0 w)
  case Nil
  then show ?case by simp
next
  case (Cons i "is")
  obtain rep w1 where run: "run_state (bringUpReplica a p s i) w = (Inr rep, w1)"
    "run_state (bring_up_all a p s is (fresh0 @ [rep])) w1 = (Inr fresh, w')"
    using Cons.prems by (auto elim!: bind_runE split: sum.split_asm)
  obtain es1 where es1: "wd_log w1 = wd_log w @ es1" "rp_Index rep = i" "ready p s i (rp_Port rep) es1"
    using bringUpReplica_Inr[OF run(1)] by blast
  obtain es2 reps where es2: "wd_log w' = wd_log w1 @ es2" "fresh = (fresh0 @ [rep]) @ reps" "map rp_Index reps = is"
    "\<forall>rep \<in> set reps. ready p s (rp_Index rep) (rp_Port rep) es2"
    using Cons.IH[OF run(2)] by blast
  have "ready p s i (rp_Port rep) (es1 @ es2)" using es1(3) by (rule ready_mono) simp
  moreover have "\<forall>rep \<in> set reps. ready p s (rp_Index rep) (rp_Port rep) (es1 @ es2)"
    using es2(4) ready_mono[of p s _ _ es2 "es1 @ es2"] by auto
  ultimately show ?case using es1 es2 by (intro exI[of _ "es1 @ es2"] exI[of _ "rep # reps"]) simp
qed

section \<open>What a successful flip means\<close>

text \<open>Every route of the service was given a pool with the new replicas active and the old ones draining, and the edge
  was told.\<close>

definition flipped :: "upPlan \<Rightarrow> svcRollPlan \<Rightarrow> route \<Rightarrow> int set \<Rightarrow> int set \<Rightarrow> log \<Rightarrow> bool" where
  "flipped p s r new old l \<longleftrightarrow> (\<exists>l1 l2. l = l1 @ (CallPush, None) # l2 \<and>
     (\<forall>one \<in> set (route_all r). \<exists>ts. (CallSetTargets (fst one) ts, None) \<in> set l1 \<and>
        (\<forall>i port. replicaPort (up_layout p) (plan_name s) i = Inr port \<longrightarrow> 0 < port \<longrightarrow>
           (i \<in> new \<longrightarrow> (i, port, TargetActive) \<in> row_view ` set ts) \<and>
           (i \<in> old \<longrightarrow> (i, port, TargetDraining) \<in> row_view ` set ts))))"

lemma flipped_extend: "flipped p s r new old l \<Longrightarrow> flipped p s r new old (l0 @ l @ l')"
proof -
  assume "flipped p s r new old l"
  then obtain l1 l2 where l: "l = l1 @ (CallPush, None) # l2"
    "\<forall>one \<in> set (route_all r). \<exists>ts. (CallSetTargets (fst one) ts, None) \<in> set l1 \<and>
        (\<forall>i port. replicaPort (up_layout p) (plan_name s) i = Inr port \<longrightarrow> 0 < port \<longrightarrow>
           (i \<in> new \<longrightarrow> (i, port, TargetActive) \<in> row_view ` set ts) \<and>
           (i \<in> old \<longrightarrow> (i, port, TargetDraining) \<in> row_view ` set ts))"
    unfolding flipped_def by blast
  then show "flipped p s r new old (l0 @ l @ l')"
    unfolding flipped_def by (intro exI[of _ "l0 @ l1"] exI[of _ "l2 @ l'"]) fastforce
qed

lemma in_pool_view:
  "(i, port, st) \<in> set (pool_view reps) \<longleftrightarrow>
     0 < port \<and> (\<exists>rep \<in> set reps. rp_Index rep = i \<and> rp_Port rep = port \<and> replica_TargetState (rp_State rep) = st)"
  by (auto simp: pool_view_def image_iff)

lemma flipPool_Inr:
  assumes "run_state (flipPool a m p s r fresh0 old) w = ((fresh, Inr t), w')" "mg_Edge m" "ro_id r \<noteq> 0"
    and "\<forall>rep \<in> set fresh0. replicaPort (up_layout p) (plan_name s) (rp_Index rep) = Inr (rp_Port rep)"
  shows "\<exists>es. wd_log w' = wd_log w @ es \<and> flipped p s r (rp_Index ` set fresh0) (re_index ` set old) es"
proof -
  let ?flip = "flipTargets p s t fresh0 old"
  obtain w1 w2 w3 where run: "run_state (now a) w = (t, w1)"
    "run_state (recordTargets a m r (fst ?flip @ snd ?flip)) w1 = (Inr (), w2)"
    "run_state (pushRoutes a m) w2 = (Inr (), w3)" "run_state (flipSteps a r (fst ?flip) (snd ?flip) t) w3 = ((), w')"
    using assms(1) by (auto simp: flipPool_def Let_def elim!: bind_runE split: sum.split_asm prod.split_asm)
  obtain es1 where es1: "wd_log w1 = wd_log w @ es1" using logsD[OF logs_now[where P = "\<lambda>_. True"] run(1)] by blast
  have "run_state (record_all a (route_all r) (fst ?flip @ snd ?flip)) w1 = (Inr (), w2)"
    using run(2) assms(2,3) by (simp add: recordTargets_def)
  from record_all_Inr[OF this] obtain es2 where es2: "wd_log w2 = wd_log w1 @ es2"
    "\<forall>one \<in> set (route_all r). \<exists>ts. (CallSetTargets (fst one) ts, None) \<in> set es2 \<and>
       map row_view ts = pool_view (fst ?flip @ snd ?flip)" by blast
  have es3: "wd_log w3 = wd_log w2 @ [(CallPush, None)]" using run(3) assms(2) by (auto simp: pushRoutes_def attempt_Inr)
  have "logs (flipSteps a r (fst ?flip) (snd ?flip) t) (\<lambda>_. True)"
    unfolding flipSteps_def by (intro logs_rules) simp_all
  then obtain es4 where es4: "wd_log w' = wd_log w3 @ es4" using logsD[OF _ run(4)] by blast
  have view: "(i \<in> rp_Index ` set fresh0 \<longrightarrow> (i, port, TargetActive) \<in> row_view ` set ts) \<and>
      (i \<in> re_index ` set old \<longrightarrow> (i, port, TargetDraining) \<in> row_view ` set ts)"
    if "map row_view ts = pool_view (fst ?flip @ snd ?flip)" "replicaPort (up_layout p) (plan_name s) i = Inr port" "0 < port"
    for ts i port
  proof -
    have rows: "row_view ` set ts = set (pool_view (fst ?flip @ snd ?flip))" using that(1) by (metis list.set_map)
    show ?thesis
      unfolding rows in_pool_view using that(2,3) assms(4)
      by (auto simp: flipTargets_def replicasOf_def replicaOf_def image_iff Bex_def)
  qed
  have "flipped p s r (rp_Index ` set fresh0) (re_index ` set old) (es1 @ es2 @ [(CallPush, None)] @ es4)"
    unfolding flipped_def
  proof (rule exI[of _ "es1 @ es2"], rule exI[of _ es4], intro conjI ballI)
    fix one assume "one \<in> set (route_all r)"
    then obtain ts where "(CallSetTargets (fst one) ts, None) \<in> set es2" "map row_view ts = pool_view (fst ?flip @ snd ?flip)"
      using es2(2) by blast
    then show "\<exists>ts. (CallSetTargets (fst one) ts, None) \<in> set (es1 @ es2) \<and>
        (\<forall>i port. replicaPort (up_layout p) (plan_name s) i = Inr port \<longrightarrow> 0 < port \<longrightarrow>
           (i \<in> rp_Index ` set fresh0 \<longrightarrow> (i, port, TargetActive) \<in> row_view ` set ts) \<and>
           (i \<in> re_index ` set old \<longrightarrow> (i, port, TargetDraining) \<in> row_view ` set ts))"
      using view[of ts] by (intro exI[of _ ts]) auto
  qed simp
  then show ?thesis using es1 es2(1) es3 es4 by (intro exI[of _ "es1 @ es2 @ [(CallPush, None)] @ es4"]) simp
qed

section \<open>Draining comes before stopping\<close>

lemma waitDrain_logs:
  assumes "run_state (waitDrain a m host i d since) w = (x, w')" "mg_Edge m"
  shows "\<exists>es t e. wd_log w' = wd_log w @ es @ [(CallDrain host i d t, e)] \<and> (\<forall>y \<in> set es. fst y = CallNow)"
proof -
  let ?since = "if is_zero since then do { t \<leftarrow> now a; State_Monad.return (t - second) } else State_Monad.return since"
  obtain t w1 where run: "run_state ?since w = (t, w1)"
    "run_state (and_then (attempt a (CallDrain host i d t)) (\<lambda>_. State_Monad.return (Inr (watch_result host i (an_watch a (wd_log w1)))))) w1 = (x, w')"
    using assms by (auto simp: waitDrain_def the_log_def elim!: bind_runE)
  have "logs ?since (\<lambda>c. c = CallNow)" by (intro logs_rules) simp
  then obtain es where "wd_log w1 = wd_log w @ es" "\<forall>y \<in> set es. fst y = CallNow" using logsD[OF _ run(1)] by blast
  moreover have "wd_log w' = wd_log w1 @ [(CallDrain host i d t, an_error a (wd_log w1) (CallDrain host i d t))]"
    using run(2) by (auto simp: and_then_def attempt_run Let_def elim!: bind_runE split: option.splits sum.split_asm)
  ultimately show ?thesis by auto
qed

lemma logs_stop_drained:
  "logs (stop_drained a m r old pool started d) (\<lambda>x. \<forall>c. touches c x \<longrightarrow> c = re_container old)"
  unfolding stop_drained_def by (intro logs_rules) (auto simp: touches_def)

lemma drainAndStop_logs:
  assumes "run_state (drainAndStop a m r old pool d since) w = (x, w')" "mg_Edge m"
  shows "\<exists>es1 es2. wd_log w' = wd_log w @ es1 @ es2 \<and> (\<forall>y \<in> set es1. \<forall>c. \<not> touches c (fst y)) \<and>
    (\<exists>t e. (CallDrain (ro_host r) (re_index old) d t, e) \<in> set es1) \<and>
    (\<forall>y \<in> set es2. \<forall>c. touches c (fst y) \<longrightarrow> c = re_container old)"
proof -
  obtain started w1 dr w2 where run: "run_state (now a) w = (started, w1)"
    "run_state (waitDrain a m (ro_host r) (re_index old) d since) w1 = (dr, w2)"
    "run_state (stop_drained a m r old pool started dr) w2 = (x, w')"
    using assms(1) unfolding drainAndStop_def by (elim bind_runE)
  obtain es1 where es1: "wd_log w1 = wd_log w @ es1" "\<forall>y \<in> set es1. fst y = CallNow"
    using logsD[OF logs_now[where P = "\<lambda>c. c = CallNow"] run(1)] by blast
  obtain es2 t e where es2: "wd_log w2 = wd_log w1 @ es2 @ [(CallDrain (ro_host r) (re_index old) d t, e)]"
    "\<forall>y \<in> set es2. fst y = CallNow"
    using waitDrain_logs[OF run(2) assms(2)] by blast
  obtain es3 where es3: "wd_log w' = wd_log w2 @ es3" "\<forall>y \<in> set es3. \<forall>c. touches c (fst y) \<longrightarrow> c = re_container old"
    using logsD[OF logs_stop_drained run(3)] by blast
  show ?thesis
    using es1 es2 es3
    by (intro exI[of _ "es1 @ es2 @ [(CallDrain (ro_host r) (re_index old) d t, e)]"] exI[of _ es3]) (auto simp: touches_def)
qed

lemma drain_all_logs:
  assumes "run_state (drain_all a m p s r fresh d t olds) w = (x, w')" "mg_Edge m"
  shows "\<exists>es. wd_log w' = wd_log w @ es \<and> (\<forall>pre y post c. es = pre @ y # post \<longrightarrow> touches c (fst y) \<longrightarrow>
    (\<exists>old \<in> set olds. c = re_container old \<and> (\<exists>t e. (CallDrain (ro_host r) (re_index old) d t, e) \<in> set pre)))"
  using assms(1)
proof (induction olds arbitrary: w)
  case (Cons old olds)
  obtain y w1 where run: "run_state (drainAndStop a m r old (fresh @ replicasOf (plan_name s) (up_layout p) olds ReplicaDraining) d t) w = (y, w1)"
    and rest: "run_state (case y of Inl e \<Rightarrow> State_Monad.return (Inl (old # olds, e)) | Inr _ \<Rightarrow> drain_all a m p s r fresh d t olds) w1 = (x, w')"
    using Cons.prems unfolding drain_all.simps Let_def by (elim bind_runE)
  obtain es1 es2 where es: "wd_log w1 = wd_log w @ es1 @ es2" "\<forall>y \<in> set es1. \<forall>c. \<not> touches c (fst y)"
    "\<exists>t e. (CallDrain (ro_host r) (re_index old) d t, e) \<in> set es1" "\<forall>y \<in> set es2. \<forall>c. touches c (fst y) \<longrightarrow> c = re_container old"
    using drainAndStop_logs[OF run assms(2)] by blast
  obtain es3 where es3: "wd_log w' = wd_log w1 @ es3" "\<forall>pre y post c. es3 = pre @ y # post \<longrightarrow> touches c (fst y) \<longrightarrow>
    (\<exists>old \<in> set olds. c = re_container old \<and> (\<exists>t e. (CallDrain (ro_host r) (re_index old) d t, e) \<in> set pre))"
    using rest Cons.IH[of w1] by (cases y) auto
  have "\<exists>old \<in> set (old # olds). c = re_container old \<and> (\<exists>t e. (CallDrain (ro_host r) (re_index old) d t, e) \<in> set pre)"
    if split: "(es1 @ es2) @ es3 = pre @ y # post" and c: "touches c (fst y)" for pre y post c
  proof (cases "c = re_container old")
    case True
    obtain pre' where "pre = es1 @ pre'"
      using event_after[of es1 "es2 @ es3" pre y post "\<lambda>y. touches c (fst y)"] split es(2) c by auto
    then show ?thesis using True es(3) by auto
  next
    case False
    obtain pre' where "pre = (es1 @ es2) @ pre'" "es3 = pre' @ y # post"
      using event_after[of "es1 @ es2" es3 pre y post "\<lambda>y. touches c (fst y)"] split es(2,4) c False by auto
    then show ?thesis using es3(2) c by fastforce
  qed
  then show ?case using es(1) es3(1) by (intro exI[of _ "(es1 @ es2) @ es3"]) auto
qed simp

section \<open>The replicas a rollout replaces\<close>

definition live_replicas :: "answers \<Rightarrow> upPlan \<Rightarrow> svcRollPlan \<Rightarrow> log \<Rightarrow> replica list" where
  "live_replicas a p s l = sort_key re_index (live_of (up_app p) (up_env p) (plan_name s) (an_containers a l (plan_name s)))"

definition old_replicas :: "answers \<Rightarrow> upPlan \<Rightarrow> svcRollPlan \<Rightarrow> log \<Rightarrow> replica list" where
  "old_replicas a p s l = runningReplicas (numbered (live_replicas a p s l))"

definition new_indexes :: "answers \<Rightarrow> upPlan \<Rightarrow> svcRollPlan \<Rightarrow> log \<Rightarrow> int list" where
  "new_indexes a p s l = freeIndexes (old_replicas a p s l) (replicaCount (up_cfg p) (plan_name s))"

lemma live_of_index: "r \<in> set (live_of app env s cs) \<Longrightarrow> replicaIndexOf app env s (re_container r) = Some (re_index r)"
  by (induction cs) (auto split: option.splits)

lemma old_replicas_index:
  assumes "r \<in> set (old_replicas a p s l)"
  shows "replicaIndexOf (up_app p) (up_env p) (plan_name s) (re_container r) = Some (re_index r)" "1 \<le> re_index r"
  using assms live_of_index by (auto simp: old_replicas_def live_replicas_def runningReplicas_def numbered_def)

text \<open>No old replica is in a container of a new one, or in the container from before there were replicas.\<close>

lemma old_not_new:
  assumes "old \<in> set (old_replicas a p s l)"
  shows "re_container old \<notin> container_of p s ` set (new_indexes a p s l)"
    and "legacyOf (live_replicas a p s l) = Some lg \<Longrightarrow> re_container old \<noteq> re_container lg"
proof -
  note idx = old_replicas_index[OF assms]
  show "re_container old \<notin> container_of p s ` set (new_indexes a p s l)"
  proof
    assume "re_container old \<in> container_of p s ` set (new_indexes a p s l)"
    then obtain i where i: "i \<in> set (new_indexes a p s l)" "re_container old = container_of p s i" by blast
    then have "re_index old = i" using idx(1) replicaIndexOf_name by (simp add: container_of_def)
    moreover have "i \<notin> re_index ` set (old_replicas a p s l)"
      using i(1) freeIndexes_untaken by (auto simp: new_indexes_def)
    ultimately show False using assms by blast
  qed
  assume "legacyOf (live_replicas a p s l) = Some lg"
  then have "lg \<in> set (live_replicas a p s l)" "re_index lg = 0" by (auto simp: legacyOf_def find_Some_iff)
  then have "replicaIndexOf (up_app p) (up_env p) (plan_name s) (re_container lg) = Some 0"
    using live_of_index[of lg] by (auto simp: live_replicas_def)
  then show "re_container old \<noteq> re_container lg" using idx by auto
qed

section \<open>Nothing is taken away before its replacement serves\<close>

definition ready_all :: "upPlan \<Rightarrow> svcRollPlan \<Rightarrow> int set \<Rightarrow> log \<Rightarrow> bool" where
  "ready_all p s new l \<longleftrightarrow> (\<forall>i \<in> new. \<exists>port. ready p s i port l)"

definition drained :: "route \<Rightarrow> replica list \<Rightarrow> string \<Rightarrow> log \<Rightarrow> bool" where
  "drained r olds c l \<longleftrightarrow>
     (\<exists>old \<in> set olds. re_container old = c \<and> (\<exists>d t e. (CallDrain (ro_host r) (re_index old) d t, e) \<in> set l))"

lemma ready_all_extend: "ready_all p s new l \<Longrightarrow> ready_all p s new (l @ l')"
  using ready_mono[of p s _ _ l "l @ l'"] unfolding ready_all_def by force

text \<open>The order of a rollout: \<open>es\<close> are its calls, \<open>olds\<close> the replicas it replaces, \<open>new\<close> the numbers of the new ones.\<close>

definition in_order :: "upPlan \<Rightarrow> svcRollPlan \<Rightarrow> route \<Rightarrow> replica list \<Rightarrow> int set \<Rightarrow> log \<Rightarrow> bool" where
  "in_order p s r olds new es \<longleftrightarrow> (\<forall>pre y post. es = pre @ y # post \<longrightarrow>
     (writes (fst y) \<or> fst y = CallPush \<longrightarrow> ready_all p s new pre) \<and>
     (\<forall>c \<in> re_container ` set olds. touches c (fst y) \<longrightarrow>
        ready_all p s new pre \<and> flipped p s r new (re_index ` set olds) pre \<and> drained r olds c pre))"

lemma in_order_bring_up:
  assumes "\<forall>y \<in> set es. bringup_call p s new (fst y)" "re_container ` set olds \<inter> container_of p s ` new = {}"
  shows "in_order p s r olds new es"
proof -
  have "\<not> writes x \<and> x \<noteq> CallPush \<and> (\<forall>c \<in> re_container ` set olds. \<not> touches c x)" if "bringup_call p s new x" for x
    using that assms(2) by (cases x) (auto simp: writes_def touches_def)
  then show ?thesis using assms(1) by (auto simp: in_order_def)
qed

lemma in_order_flip:
  assumes "in_order p s r olds new es1" "ready_all p s new es1" "\<forall>y \<in> set es2. \<forall>c. \<not> touches c (fst y)"
    and first: "\<forall>y \<in> set es1. \<not> writes (fst y) \<and> fst y \<noteq> CallPush \<and> (\<forall>c \<in> re_container ` set olds. \<not> touches c (fst y))"
  shows "in_order p s r olds new (es1 @ es2)"
  unfolding in_order_def
proof (intro allI impI conjI ballI)
  fix pre y post assume split: "es1 @ es2 = pre @ y # post"
  show "ready_all p s new pre" if "writes (fst y) \<or> fst y = CallPush"
    using event_after[OF split, of "\<lambda>y. writes (fst y) \<or> fst y = CallPush"] first that ready_all_extend[OF assms(2)] by auto
  fix c assume c: "c \<in> re_container ` set olds" "touches c (fst y)"
  have "y \<in> set (es1 @ es2)" using split by simp
  then have False using c first assms(3) by auto
  then show "ready_all p s new pre" "flipped p s r new (re_index ` set olds) pre" "drained r olds c pre" by auto
qed

lemma in_order_stop:
  assumes "in_order p s r olds new es1" "ready_all p s new es1" "flipped p s r new (re_index ` set olds) es1"
    and "\<forall>pre y post c. es2 = pre @ y # post \<longrightarrow> touches c (fst y) \<longrightarrow> c \<in> re_container ` set olds \<longrightarrow> drained r olds c pre"
    and first: "\<forall>y \<in> set es1. \<forall>c \<in> re_container ` set olds. \<not> touches c (fst y)"
  shows "in_order p s r olds new (es1 @ es2)"
  unfolding in_order_def
proof (intro allI impI conjI ballI)
  fix pre y post assume split: "es1 @ es2 = pre @ y # post"
  show "ready_all p s new pre" if y: "writes (fst y) \<or> fst y = CallPush"
    using split
  proof (cases rule: event_split)
    case (1 us)
    then show ?thesis using assms(1) y unfolding in_order_def by blast
  qed (use ready_all_extend[OF assms(2)] in simp)
  fix c assume c: "c \<in> re_container ` set olds" "touches c (fst y)"
  obtain pre' where pre: "pre = es1 @ pre'" "es2 = pre' @ y # post"
    using event_after[OF split, of "\<lambda>y. touches c (fst y)"] first c by auto
  show "ready_all p s new pre" using ready_all_extend[OF assms(2)] by (simp add: pre(1))
  show "flipped p s r new (re_index ` set olds) pre" using flipped_extend[OF assms(3), of "[]" pre'] by (simp add: pre(1))
  show "drained r olds c pre" using assms(4) pre(2) c unfolding pre(1) drained_def by fastforce
qed

lemma logs_roll_failed: "logs (roll_failed p s old fresh rep e) P"
  unfolding roll_failed_def by (intro logs_rules)

lemma roll_drain_logs:
  assumes run: "run_state (roll_drain a m p s r fresh t olds legacy) w = (x, w')" and edge: "mg_Edge m"
    and legacy: "\<forall>lg. legacy = Some lg \<longrightarrow> re_container lg \<notin> re_container ` set olds"
  shows "\<exists>es. wd_log w' = wd_log w @ es \<and>
    (\<forall>pre y post c. es = pre @ y # post \<longrightarrow> touches c (fst y) \<longrightarrow> c \<in> re_container ` set olds \<longrightarrow> drained r olds c pre)"
proof -
  obtain d w1 where d: "run_state (drain_all a m p s r fresh (drainOf (up_cfg p) (plan_name s)) t olds) w = (d, w1)"
    and rest: "run_state (case d of
        Inl (left_over, e) \<Rightarrow> do {
          _ \<leftarrow> set_roll_replicas (fresh @ replicasOf (plan_name s) (up_layout p) left_over ReplicaDraining);
          State_Monad.return (Inl e) }
      | Inr _ \<Rightarrow> and_then (stop_legacy a m legacy) (\<lambda>_. do {
          _ \<leftarrow> set_svc (\<lambda>sv. fillFromFirst (sv\<lparr>sv_Replicas := fresh, sv_Status := ServiceRunning, sv_Health := HealthOK\<rparr>));
          _ \<leftarrow> set_roll_replicas fresh;
          State_Monad.return (Inr ()) })) w1 = (x, w')"
    using run unfolding roll_drain_def by (elim bind_runE)
  obtain es1 where es1: "wd_log w1 = wd_log w @ es1"
    "\<forall>pre y post c. es1 = pre @ y # post \<longrightarrow> touches c (fst y) \<longrightarrow> (\<exists>old \<in> set olds. c = re_container old \<and>
       (\<exists>t e. (CallDrain (ro_host r) (re_index old) (drainOf (up_cfg p) (plan_name s)) t, e) \<in> set pre))"
    using drain_all_logs[OF d edge] by blast
  obtain es2 where es2: "wd_log w' = wd_log w1 @ es2" "\<forall>y \<in> set es2. \<forall>c \<in> re_container ` set olds. \<not> touches c (fst y)"
  proof -
    have "logs (case d of
        Inl (left_over, e) \<Rightarrow> do {
          _ \<leftarrow> set_roll_replicas (fresh @ replicasOf (plan_name s) (up_layout p) left_over ReplicaDraining);
          State_Monad.return (Inl e) }
      | Inr _ \<Rightarrow> and_then (stop_legacy a m legacy) (\<lambda>_. do {
          _ \<leftarrow> set_svc (\<lambda>sv. fillFromFirst (sv\<lparr>sv_Replicas := fresh, sv_Status := ServiceRunning, sv_Health := HealthOK\<rparr>));
          _ \<leftarrow> set_roll_replicas fresh;
          State_Monad.return (Inr ()) })) (\<lambda>x. \<forall>c \<in> re_container ` set olds. \<not> touches c x)"
      using legacy by (intro logs_rules) (auto simp: touches_def)
    then show thesis using logsD[OF _ rest] that by blast
  qed
  have "drained r olds c pre" if "es1 @ es2 = pre @ y # post" "touches c (fst y)" "c \<in> re_container ` set olds" for pre y post c
    using that(1)
  proof (cases rule: event_split)
    case (1 us)
    then show ?thesis using es1(2) that(2) unfolding drained_def by blast
  next
    case (2 us)
    then show ?thesis using es2(2) that(2,3) by auto
  qed
  then show ?thesis using es1(1) es2(1) by (intro exI[of _ "es1 @ es2"]) auto
qed

lemma list_live_Inr:
  assumes "run_state (list_live a app env service) w = (Inr lv, w')"
  shows "lv = sort_key re_index (live_of app env service (an_containers a (wd_log w) service))"
  using assms by (auto simp: list_live_def the_log_def liveReplicas_def run_simps)

text \<open>The calls of a rollout that does something.\<close>

lemma roll_changed_in_order:
  assumes run: "run_state (roll_changed a m p s r want olds legacy) w = (x, w')" and edge: "mg_Edge m" "ro_id r \<noteq> 0"
    and new: "re_container ` set olds \<inter> container_of p s ` set (freeIndexes olds want) = {}"
    and legacy: "\<forall>lg. legacy = Some lg \<longrightarrow> re_container lg \<notin> re_container ` set olds"
  shows "\<exists>es. wd_log w' = wd_log w @ es \<and> in_order p s r olds (set (freeIndexes olds want)) es"
proof -
  let ?new = "set (freeIndexes olds want)"
  obtain b w1 where b: "run_state (bring_up_all a p s (freeIndexes olds want) []) w = (b, w1)"
    and rest: "run_state (case b of Inl (fresh, rep, e) \<Rightarrow> roll_failed p s olds fresh rep e
      | Inr fresh0 \<Rightarrow> roll_flip a m p s r fresh0 olds legacy) w1 = (x, w')"
    using run unfolding roll_changed_def by (elim bind_runE)
  obtain es1 where es1: "wd_log w1 = wd_log w @ es1" "\<forall>y \<in> set es1. bringup_call p s ?new (fst y)"
    using logsD[OF logs_bring_up_all b] by blast
  note order1 = in_order_bring_up[OF es1(2) new, of r]
  show ?thesis
  proof (cases b)
    case (Inl f)
    have "run_state (roll_failed p s olds (fst f) (fst (snd f)) (snd (snd f))) w1 = (x, w')"
      using rest unfolding Inl by (simp add: split_beta)
    then obtain es2 where "wd_log w' = wd_log w1 @ es2" "\<forall>y \<in> set es2. False"
      using logsD[OF logs_roll_failed[where P = "\<lambda>_. False"]] by blast
    moreover from this have "es2 = []" by (cases es2) auto
    ultimately show ?thesis using es1(1) order1 by auto
  next
    case (Inr fresh0)
    have reps: "map rp_Index fresh0 = freeIndexes olds want" "\<forall>rep \<in> set fresh0. ready p s (rp_Index rep) (rp_Port rep) es1"
      using bring_up_all_Inr[of a p s _ "[]" w fresh0 w1] b es1(1) unfolding Inr by auto
    have idx: "rp_Index ` set fresh0 = ?new" using arg_cong[OF reps(1), of set] by simp
    have all: "ready_all p s ?new es1" using reps(2) unfolding ready_all_def idx[symmetric] by blast
    have quiet: "\<forall>y \<in> set es1. \<not> writes (fst y) \<and> fst y \<noteq> CallPush \<and> (\<forall>c \<in> re_container ` set olds. \<not> touches c (fst y))"
    proof
      fix y assume "y \<in> set es1"
      then have "bringup_call p s ?new (fst y)" using es1(2) by blast
      then show "\<not> writes (fst y) \<and> fst y \<noteq> CallPush \<and> (\<forall>c \<in> re_container ` set olds. \<not> touches c (fst y))"
        using new by (cases "fst y") (auto simp: writes_def touches_def)
    qed
    obtain ff w2 where ff: "run_state (flipPool a m p s r fresh0 olds) w1 = (ff, w2)"
      and after: "run_state (case snd ff of
        Inl e \<Rightarrow> do {
          _ \<leftarrow> set_roll_replicas (fst ff @ replicasOf (plan_name s) (up_layout p) olds ReplicaActive);
          State_Monad.return (Inl e) }
      | Inr t \<Rightarrow> roll_drain a m p s r (fst ff) t olds legacy) w2 = (x, w')"
      using rest unfolding Inr sum.case roll_flip_def by (elim bind_runE)
    have "logs (flipPool a m p s r fresh0 olds) (\<lambda>x. \<forall>c. \<not> touches c x)" by (intro logs_rules) (auto simp: touches_def)
    then obtain es2 where es2: "wd_log w2 = wd_log w1 @ es2" "\<forall>y \<in> set es2. \<forall>c. \<not> touches c (fst y)"
      using logsD[OF _ ff] by blast
    note order2 = in_order_flip[OF order1 all es2(2) quiet]
    show ?thesis
    proof (cases "snd ff")
      case (Inl e)
      then have "wd_log w' = wd_log w2" using after by (auto simp: set_roll_replicas_def elim!: bind_runE)
      then show ?thesis using es1(1) es2(1) order2 by auto
    next
      case (Inr t)
      have "\<forall>rep \<in> set fresh0. replicaPort (up_layout p) (plan_name s) (rp_Index rep) = Inr (rp_Port rep)"
        using reps(2) by (auto simp: ready_def)
      then have flip: "flipped p s r ?new (re_index ` set olds) es2"
        using flipPool_Inr[of a m p s r fresh0 olds w1 "fst ff" t w2] ff edge es2(1) Inr unfolding idx by (cases ff) auto
      obtain es3 where es3: "wd_log w' = wd_log w2 @ es3" "\<forall>pre y post c. es3 = pre @ y # post \<longrightarrow> touches c (fst y) \<longrightarrow>
          c \<in> re_container ` set olds \<longrightarrow> drained r olds c pre"
        using roll_drain_logs[of a m p s r "fst ff" t olds legacy w2 x w'] after edge legacy Inr by auto
      have "in_order p s r olds ?new ((es1 @ es2) @ es3)"
        using flipped_extend[OF flip, of es1 "[]"] quiet es2(2)
        by (intro in_order_stop[OF order2 ready_all_extend[OF all] _ es3(2)]) auto
      then show ?thesis using es1(1) es2(1) es3(1) by (intro exI[of _ "(es1 @ es2) @ es3"]) auto
    qed
  qed
qed

text \<open>A rollout that finds nothing to do starts and stops nothing.\<close>

definition idle :: "log \<Rightarrow> bool" where
  "idle es \<longleftrightarrow> (\<forall>y \<in> set es. (\<forall>c. \<not> touches c (fst y)) \<and> (\<forall>c i port. fst y \<noteq> CallRun c i port))"

definition reads :: "call \<Rightarrow> bool" where
  "reads x \<longleftrightarrow> \<not> writes x \<and> x \<noteq> CallPush \<and> (\<forall>c. \<not> touches c x) \<and> (\<forall>c i port. x \<noteq> CallRun c i port)"

lemma idle_reads: "\<forall>y \<in> set es. reads (fst y) \<Longrightarrow> idle es"
  by (simp add: idle_def reads_def)

lemma in_order_prefix:
  assumes "in_order p s r olds new es"
    and quiet: "\<forall>y \<in> set es0. reads (fst y)"
  shows "in_order p s r olds new (es0 @ es)"
  unfolding in_order_def
proof (intro allI impI)
  fix pre y post assume "es0 @ es = pre @ y # post"
  then show "(writes (fst y) \<or> fst y = CallPush \<longrightarrow> ready_all p s new pre) \<and>
     (\<forall>c \<in> re_container ` set olds. touches c (fst y) \<longrightarrow>
        ready_all p s new pre \<and> flipped p s r new (re_index ` set olds) pre \<and> drained r olds c pre)"
  proof (cases rule: event_split)
    case (1 us)
    then show ?thesis using quiet by (simp add: reads_def)
  next
    case (2 us)
    have "ready_all p s new (es0 @ us)" if "ready_all p s new us"
      using that ready_mono[of p s _ _ us "es0 @ us"] unfolding ready_all_def by force
    moreover have "flipped p s r new (re_index ` set olds) (es0 @ us)" if "flipped p s r new (re_index ` set olds) us"
      using flipped_extend[OF that, of es0 "[]"] by simp
    moreover have "drained r olds c (es0 @ us)" if "drained r olds c us" for c using that by (auto simp: drained_def)
    ultimately show ?thesis using assms(1) 2 unfolding in_order_def by blast
  qed
qed

lemma logs_drain_all [logs_rules]: "logs (drain_all a m p s r fresh d t olds) (\<lambda>_. True)"
  unfolding drain_all.simps drainAndStop_def stop_drained_def
  by (induction olds) (auto simp: drainAndStop_def stop_drained_def intro!: logs_rules)

lemma logs_rollService: "logs (rollService a m p s r) (\<lambda>_. True)"
proof -
  have "logs (bring_up_all a p s is []) (\<lambda>_. True)" for "is"
    using logs_bring_up_all by (rule logs_weaken) auto
  then show ?thesis
    unfolding rollService_def roll_live_def roll_unchanged_def roll_changed_def roll_flip_def roll_drain_def roll_failed_def
    by (intro logs_rules) (auto simp: logs_def)
qed

lemma roll_live_order:
  assumes "run_state (roll_live a m p s r want found verdict) w = (x, w')" "mg_Edge m" "ro_id r \<noteq> 0"
    and "found = live_replicas a p s l" "want = replicaCount (up_cfg p) (plan_name s)"
  shows "\<exists>es. wd_log w' = wd_log w @ es \<and> (idle es \<or> in_order p s r (old_replicas a p s l) (set (new_indexes a p s l)) es)"
proof -
  let ?olds = "old_replicas a p s l"
  have olds: "runningReplicas (numbered found) = ?olds" by (simp add: assms(4) old_replicas_def)
  consider "run_state (roll_unchanged a m p s r ?olds) w = (x, w')"
    | f w1 where "run_state (set_svc f) w = ((), w1)" "run_state (roll_changed a m p s r want ?olds (legacyOf found)) w1 = (x, w')"
    using assms(1) unfolding roll_live_def Let_def olds by (auto elim!: bind_runE split: if_splits prod.split_asm)
  then show ?thesis
  proof cases
    case 1
    have "logs (roll_unchanged a m p s r ?olds) (\<lambda>x. (\<forall>c. \<not> touches c x) \<and> (\<forall>c i port. x \<noteq> CallRun c i port))"
      unfolding roll_unchanged_def by (intro logs_rules) (auto simp: touches_def)
    then show ?thesis using logsD[OF _ 1] unfolding idle_def by blast
  next
    case 2
    have w1: "wd_log w1 = wd_log w" using 2(1) by (auto simp: set_svc_def)
    have new: "freeIndexes ?olds want = new_indexes a p s l" by (simp add: new_indexes_def assms(5))
    have "\<exists>es. wd_log w' = wd_log w1 @ es \<and> in_order p s r ?olds (set (freeIndexes ?olds want)) es"
    proof (intro roll_changed_in_order[OF 2(2) assms(2,3)])
      show "re_container ` set ?olds \<inter> container_of p s ` set (freeIndexes ?olds want) = {}"
        unfolding new using old_not_new(1)[of _ a p s l] by blast
      show "\<forall>lg. legacyOf found = Some lg \<longrightarrow> re_container lg \<notin> re_container ` set ?olds"
        unfolding assms(4) using old_not_new(2)[of _ a p s l] by fastforce
    qed
    then show ?thesis using w1 new by auto
  qed
qed

lemma reads_first:
  "logs (list_live a app env service) reads" "logs (unchanged a sv want) reads"
  by (intro logs_rules; simp add: reads_def writes_def touches_def)+

lemma order_after_reads:
  assumes "\<forall>y \<in> set es0. reads (fst y)" "idle es \<or> in_order p s r olds new es"
  shows "idle (es0 @ es) \<or> in_order p s r olds new (es0 @ es)"
  using assms in_order_prefix[of p s r olds new es es0] idle_reads[OF assms(1)] by (auto simp: idle_def)

lemma rollService_order:
  assumes "run_state (rollService a m p s r) w = (x, w')" "mg_Edge m" "ro_id r \<noteq> 0"
  shows "\<exists>es. wd_log w' = wd_log w @ es \<and>
    (idle es \<or> in_order p s r (old_replicas a p s (wd_log w)) (set (new_indexes a p s (wd_log w))) es)"
proof -
  let ?goal = "\<lambda>es. idle es \<or> in_order p s r (old_replicas a p s (wd_log w)) (set (new_indexes a p s (wd_log w))) es"
  let ?want = "replicaCount (up_cfg p) (plan_name s)"
  let ?w0 = "w\<lparr>wd_roll := \<lparr>rl_Service = plan_name s, rl_Host = ro_host r, rl_URL = PublicURL (ro_host r),
      rl_Steps = [], rl_Replicas = [], rl_Failed = None\<rparr>\<rparr>"
  have run: "run_state (case fits (up_layout p) (plan_name s) (2 * ?want) of
        Inl e \<Rightarrow> State_Monad.return (Inl (LayoutError e))
      | Inr _ \<Rightarrow>
          and_then (list_live a (up_app p) (up_env p) (plan_name s)) (\<lambda>found.
          and_then (unchanged a (wd_svc w) ?want) (roll_live a m p s r ?want found))) ?w0 = (x, w')"
    using assms(1) by (simp add: rollService_def Let_def bind_run)
  show ?thesis
  proof (cases "fits (up_layout p) (plan_name s) (2 * ?want)")
    case (Inl e)
    then show ?thesis using run by (auto simp: idle_def)
  next
    case (Inr u)
    from run[unfolded Inr sum.case] show ?thesis
    proof (cases rule: and_then_runE)
      case (1 e)
      then obtain es where "wd_log w' = wd_log w @ es" "\<forall>y \<in> set es. reads (fst y)" using logsD[OF reads_first(1) 1(1)] by auto
      then show ?thesis using idle_reads by blast
    next
      case (2 found w1)
      have found: "found = live_replicas a p s (wd_log w)" using list_live_Inr[OF 2(1)] by (simp add: live_replicas_def)
      obtain es1 where es1: "wd_log w1 = wd_log w @ es1" "\<forall>y \<in> set es1. reads (fst y)" using logsD[OF reads_first(1) 2(1)] by auto
      from 2(2) obtain es2 where es2: "wd_log w' = wd_log w1 @ es2" "?goal es2"
      proof (cases rule: and_then_runE)
        case (1 e)
        then show thesis using logsD[OF reads_first(2) 1(1)] idle_reads that by blast
      next
        case (2 verdict w2)
        obtain es2 where es2: "wd_log w2 = wd_log w1 @ es2" "\<forall>y \<in> set es2. reads (fst y)"
          using logsD[OF reads_first(2) 2(1)] by blast
        obtain es3 where "wd_log w' = wd_log w2 @ es3" "?goal es3"
          using roll_live_order[OF 2(2) assms(2,3) found refl] by blast
        then show thesis using that[of "es2 @ es3"] es2 order_after_reads[of es2 es3] by simp
      qed
      then show ?thesis using es1 order_after_reads[of es1 es2] by (intro exI[of _ "es1 @ es2"]) simp
    qed
  qed
qed


section \<open>An example\<close>

definition example_answers :: answers where
  "example_answers = \<lparr>an_error = (\<lambda>_ _. None), an_now = (\<lambda>l. 100 + int (length l)),
     an_containers = (\<lambda>_ _. [\<lparr>cs_Name = ''caramelo-shop-main-web-1'', cs_ID = ''c1'', cs_Status = ''running'', cs_Labels = Map.empty, cs_Restarts = 0\<rparr>]),
     an_inspect = (\<lambda>_ _. None), an_services = (\<lambda>_. []), an_encoded = (\<lambda>_. ([], [], [])), an_id = (\<lambda>_. ''c2''),
     an_watch = (\<lambda>_. ([], WatchDeadline))\<rparr>"

definition example_plan :: upPlan where
  "example_plan = \<lparr>up_app = ''shop'', up_env = ''main'', up_cfg = None,
     up_layout = \<lparr>lay_base = 20000, lay_count = 20, lay_deps = Map.empty, lay_services = [''web'' \<mapsto> 20000], lay_containerPorts = Map.empty,
       lay_order = [''web'' \<mapsto> 0], lay_spare = 20001, lay_published = 1\<rparr>, up_tree = []\<rparr>"

definition example_service :: svcRollPlan where
  "example_service = \<lparr>plan_name = ''web'', plan_port = 0, plan_portless = False, plan_protocol = ''tcp'', plan_health = None\<rparr>"

definition example_manager :: manager where
  "example_manager = \<lparr>mg_Edge = True, mg_StopTimeout = 0\<rparr>"

definition example_route :: route where
  "example_route = \<lparr>ro_id = 1, ro_host = ''shop.example.com'', ro_more = []\<rparr>"

definition example_world :: roll_world where
  "example_world = \<lparr>wd_store = example_store, wd_log = [],
     wd_roll = \<lparr>rl_Service = [], rl_Host = [], rl_URL = [], rl_Steps = [], rl_Replicas = [], rl_Failed = None\<rparr>,
     wd_svc = \<lparr>sv_Name = ''web'', sv_Container = [], sv_ID = [], sv_Image = [], sv_Port = 0, sv_ContainerPort = 0, sv_Protocol = [],
       sv_Status = [], sv_Health = [], sv_Change = [], sv_Detail = None, sv_Replicas = []\<rparr>\<rparr>"

definition example_run :: "(act_error + unit) \<times> roll_world" where
  "example_run = run_state (rollService example_answers example_manager example_plan example_service example_route) example_world"

lemma example_replicas:
  "map re_container (old_replicas example_answers example_plan example_service []) = [''caramelo-shop-main-web-1'']"
  "new_indexes example_answers example_plan example_service [] = [2]"
  by code_simp+


end
