(* ===== verification/HealthLoop.thy ===== *)
theory HealthLoop
  imports EnvWorld
begin

text \<open>
  The loop that watches running environments (\<^verbatim>\<open>internal/env/health_loop.go\<close>). A pass probes every replica of every
  service: a replica that fails often enough in a row is taken out of the pools of its service and its container is
  restarted; one that answers again is put back. What the loop remembers between passes is part of the state. Probing a
  container and a dependency are calls; the texts of events are not modelled.
\<close>

section \<open>What the loop remembers\<close>

record HealthLoop =
  hl_fails :: "string \<rightharpoonup> int"
  hl_restarts :: "string \<rightharpoonup> int"
  hl_down :: "string \<rightharpoonup> bool"

record health_world = world +
  hw_loop :: HealthLoop

abbreviation (input) DefaultHealthFailures :: int where
  "DefaultHealthFailures \<equiv> 3"

definition NewHealthLoop :: HealthLoop where
  "NewHealthLoop = \<lparr>hl_fails = Map.empty, hl_restarts = Map.empty, hl_down = Map.empty\<rparr>"

text \<open>The number of failures in a row, from the setting of the loop.\<close>

definition health_failures :: "int \<Rightarrow> int" where
  "health_failures n = (if n > 0 then n else DefaultHealthFailures)"

definition healthKey :: "int \<Rightarrow> string \<Rightarrow> int \<Rightarrow> string" where
  "healthKey envID service index = Itoa envID @ ''/'' @ service @ ''/'' @ Itoa index"

definition fail_count :: "HealthLoop \<Rightarrow> string \<Rightarrow> int" where
  "fail_count l key = (case hl_fails l key of None \<Rightarrow> 0 | Some n \<Rightarrow> n)"

definition hl_fail :: "string \<Rightarrow> (health_world, int) state" where
  "hl_fail key = State (\<lambda>w. let n = fail_count (hw_loop w) key + 1
     in (n, w\<lparr>hw_loop := (hw_loop w)\<lparr>hl_fails := (hl_fails (hw_loop w))(key \<mapsto> n)\<rparr>\<rparr>))"

definition hl_pass :: "string \<Rightarrow> (health_world, unit) state" where
  "hl_pass key = State (\<lambda>w. ((), w\<lparr>hw_loop := (hw_loop w)\<lparr>hl_fails := (hl_fails (hw_loop w))(key := None)\<rparr>\<rparr>))"

definition is_down :: "HealthLoop \<Rightarrow> string \<Rightarrow> bool" where
  "is_down l key \<longleftrightarrow> hl_down l key = Some True"

definition wasDown :: "string \<Rightarrow> (health_world, bool) state" where
  "wasDown key = State (\<lambda>w. (is_down (hw_loop w) key, w))"

definition setDown :: "string \<Rightarrow> (health_world, unit) state" where
  "setDown key = State (\<lambda>w. ((), w\<lparr>hw_loop := (hw_loop w)\<lparr>hl_down := (hl_down (hw_loop w))(key \<mapsto> True)\<rparr>\<rparr>))"

definition hl_up :: "string \<Rightarrow> (health_world, unit) state" where
  "hl_up key = State (\<lambda>w. ((), w\<lparr>hw_loop := (hw_loop w)\<lparr>hl_down := (hl_down (hw_loop w))(key := None)\<rparr>\<rparr>))"

definition restartMoved :: "string \<Rightarrow> int \<Rightarrow> (health_world, bool) state" where
  "restartMoved key restarts = State (\<lambda>w.
     (case hl_restarts (hw_loop w) key of None \<Rightarrow> False | Some before \<Rightarrow> restarts > before,
      w\<lparr>hw_loop := (hw_loop w)\<lparr>hl_restarts := (hl_restarts (hw_loop w))(key \<mapsto> restarts)\<rparr>\<rparr>))"

section \<open>Changing the state of targets\<close>

text \<open>The targets of one route; whether any was changed.\<close>

fun put_states :: "answers \<Rightarrow> int \<Rightarrow> TargetState \<Rightarrow> EdgeTarget list \<Rightarrow> bool \<Rightarrow> (health_world, act_error + bool) state" where
  "put_states a index want [] changed = State_Monad.return (Inr changed)"
| "put_states a index want (t # ts) changed =
     (if et_Replica t \<noteq> index \<or> et_State t = want then put_states a index want ts changed
      else if et_State t = TargetHeld then put_states a index want ts changed
      else do {
        tm \<leftarrow> now a;
        let t' = t\<lparr>et_State := want, et_UpdatedAt := tm\<rparr>;
        and_then (attempt a (CallPutTarget t')) (\<lambda>_.
          and_then (State (\<lambda>w. case PutTarget tm (wd_store w) t' of
              Inl e \<Rightarrow> (Inl (StoreFailed [] e), w) | Inr st \<Rightarrow> (Inr (), w\<lparr>wd_store := st\<rparr>)))
            (\<lambda>_. put_states a index want ts True)) })"

fun setTargetState :: "answers \<Rightarrow> string \<Rightarrow> int \<Rightarrow> TargetState \<Rightarrow> RouteRow list \<Rightarrow> bool \<Rightarrow> (health_world, act_error + bool) state" where
  "setTargetState a service index want [] changed = State_Monad.return (Inr changed)"
| "setTargetState a service index want (one # ones) changed =
     (if rr_Service one \<noteq> service then setTargetState a service index want ones changed
      else and_then (attempt a (CallTargets (rr_ID one))) (\<lambda>_. do {
        ts \<leftarrow> State (\<lambda>w. (store_Targets (wd_store w) (rr_ID one), w));
        and_then (put_states a index want ts changed) (\<lambda>changed'. setTargetState a service index want ones changed') }))"

section \<open>One replica\<close>

definition health_event :: "answers \<Rightarrow> string \<Rightarrow> int \<Rightarrow> string \<Rightarrow> string \<Rightarrow> (health_world, unit) state" where
  "health_event a service index action status = do { _ \<leftarrow> ask a (CallEvent service index action status); State_Monad.return () }"

definition healthy :: "answers \<Rightarrow> string \<Rightarrow> replica \<Rightarrow> string \<Rightarrow> RouteRow list \<Rightarrow> (health_world, act_error + bool) state" where
  "healthy a service one key routes = do {
     _ \<leftarrow> hl_pass key;
     down \<leftarrow> wasDown key;
     (if \<not> down then State_Monad.return (Inr False)
      else do {
        _ \<leftarrow> hl_up key;
        _ \<leftarrow> health_event a service (re_index one) ''health'' ''ok'';
        setTargetState a service (re_index one) TargetActive routes False }) }"

text \<open>Restarting the container of a replica that is out of the pool.\<close>

definition restart_down :: "answers \<Rightarrow> manager \<Rightarrow> string \<Rightarrow> replica \<Rightarrow> string \<Rightarrow> bool \<Rightarrow> (health_world, act_error + bool) state" where
  "restart_down a m service one key changed = do {
     e \<leftarrow> ask a (CallRestart (re_container one) (stopTimeout m));
     (case e of
        Some _ \<Rightarrow> State_Monad.return (Inr changed)
      | None \<Rightarrow> do {
          _ \<leftarrow> health_event a service (re_index one) ''restart'' ''changed'';
          _ \<leftarrow> hl_pass key;
          _ \<leftarrow> setDown key;
          State_Monad.return (Inr changed) }) }"

definition unhealthy :: "answers \<Rightarrow> manager \<Rightarrow> string \<Rightarrow> replica \<Rightarrow> string \<Rightarrow> RouteRow list \<Rightarrow> (health_world, act_error + bool) state" where
  "unhealthy a m service one key routes = do {
     down \<leftarrow> wasDown key;
     _ \<leftarrow> setDown key;
     and_then
       (if down then State_Monad.return (Inr False)
        else and_then (setTargetState a service (re_index one) TargetUnhealthy routes False) (\<lambda>changed. do {
          _ \<leftarrow> health_event a service (re_index one) ''health'' ''failed'';
          State_Monad.return (Inr changed) }))
       (restart_down a m service one key) }"

definition nothingToProbe :: "Health option \<Rightarrow> int \<Rightarrow> bool" where
  "nothingToProbe check port =
     (if (case check of Some h \<Rightarrow> hl_Command h \<noteq> [] | None \<Rightarrow> False) then False else port = 0)"

definition note_restarts :: "answers \<Rightarrow> string \<Rightarrow> int \<Rightarrow> string \<Rightarrow> ContainerState option \<Rightarrow> (health_world, unit) state" where
  "note_restarts a service index key cur =
     (case cur of None \<Rightarrow> State_Monad.return ()
      | Some c \<Rightarrow> do {
          moved \<leftarrow> restartMoved key (cs_Restarts c);
          (if moved then health_event a service index ''crashloop'' ''warning'' else State_Monad.return ()) })"

definition health_probe ::
  "answers \<Rightarrow> manager \<Rightarrow> int \<Rightarrow> string \<Rightarrow> replica \<Rightarrow> string \<Rightarrow> int \<Rightarrow> Health option \<Rightarrow> RouteRow list \<Rightarrow> (health_world, act_error + bool) state" where
  "health_probe a m failures service one key port check routes =
     (if nothingToProbe check port then State_Monad.return (Inr False)
      else do {
        e \<leftarrow> ask a (CallHealth (re_container one) (re_index one));
        (case e of
           None \<Rightarrow> healthy a service one key routes
         | Some _ \<Rightarrow> do {
             fails \<leftarrow> hl_fail key;
             (if fails < health_failures failures then State_Monad.return (Inr False)
              else unhealthy a m service one key routes) }) })"

definition health_replica ::
  "answers \<Rightarrow> manager \<Rightarrow> int \<Rightarrow> int \<Rightarrow> string \<Rightarrow> replica \<Rightarrow> int \<Rightarrow> Health option \<Rightarrow> RouteRow list \<Rightarrow> (health_world, act_error + bool) state" where
  "health_replica a m failures envID service one port check routes =
     (if re_container one = [] then State_Monad.return (Inr False)
      else do {
        l \<leftarrow> the_log;
        and_then (attempt a (CallInspect (re_container one))) (\<lambda>_. do {
          _ \<leftarrow> note_restarts a service (re_index one) (healthKey envID service (re_index one)) (an_inspect a l (re_container one));
          health_probe a m failures service one (healthKey envID service (re_index one)) port check routes }) })"

section \<open>One environment\<close>

definition held_of :: "edge_store \<Rightarrow> RouteRow list \<Rightarrow> (string \<times> int) list" where
  "held_of s routes = concat (map (\<lambda>one. map (\<lambda>t. (rr_Service one, et_Replica t))
     (filter (\<lambda>t. et_State t = TargetHeld) (store_Targets s (rr_ID one)))) routes)"

fun heldReplicas :: "answers \<Rightarrow> RouteRow list \<Rightarrow> (health_world, act_error + (string \<times> int) list) state" where
  "heldReplicas a [] = State_Monad.return (Inr [])"
| "heldReplicas a (one # ones) =
     and_then (attempt a (CallTargets (rr_ID one))) (\<lambda>_. do {
       s \<leftarrow> State (\<lambda>w. (wd_store w, w));
       and_then (heldReplicas a ones) (\<lambda>rest. State_Monad.return (Inr (held_of s [one] @ rest))) })"

fun health_replicas ::
  "answers \<Rightarrow> manager \<Rightarrow> int \<Rightarrow> int \<Rightarrow> portLayout \<Rightarrow> (string \<times> int) list \<Rightarrow> string \<Rightarrow> Health option \<Rightarrow> RouteRow list \<Rightarrow> replica list \<Rightarrow> bool \<Rightarrow>
   (health_world, act_error + bool) state" where
  "health_replicas a m n envID lay held service check routes [] pushed = State_Monad.return (Inr pushed)"
| "health_replicas a m n envID lay held service check routes (one # ones) pushed =
     (if (service, re_index one) \<in> set held then health_replicas a m n envID lay held service check routes ones pushed
      else
        (let port = (case replicaPort lay service (re_index one) of Inr p \<Rightarrow> p | Inl _ \<Rightarrow> 0)
         in and_then (health_replica a m n envID service one port check routes) (\<lambda>changed.
              health_replicas a m n envID lay held service check routes ones (pushed \<or> changed))))"

definition serviceHealthCheck :: "App option \<Rightarrow> string \<Rightarrow> Health option" where
  "serviceHealthCheck cfg service =
     (case cfg of None \<Rightarrow> None | Some _ \<Rightarrow> (case app_Service cfg service of None \<Rightarrow> None | Some s \<Rightarrow> svc_Health s))"

fun health_services ::
  "answers \<Rightarrow> manager \<Rightarrow> int \<Rightarrow> string \<Rightarrow> string \<Rightarrow> int \<Rightarrow> App option \<Rightarrow> portLayout \<Rightarrow> (string \<times> int) list \<Rightarrow> RouteRow list \<Rightarrow> EnvService list \<Rightarrow> bool \<Rightarrow>
   (health_world, act_error + bool) state" where
  "health_services a m n app env envID cfg lay held routes [] pushed = State_Monad.return (Inr pushed)"
| "health_services a m n app env envID cfg lay held routes (row # rest) pushed =
     (if es_Status row = ServiceStopped then health_services a m n app env envID cfg lay held routes rest pushed
      else and_then (list_live a app env (es_Name row)) (\<lambda>found.
        and_then (health_replicas a m n envID lay held (es_Name row) (serviceHealthCheck cfg (es_Name row)) routes (numbered found) pushed)
          (\<lambda>pushed'. health_services a m n app env envID cfg lay held routes rest pushed')))"

text \<open>The dependencies; the number of a dependency decides its port.\<close>

definition health_dep :: "answers \<Rightarrow> manager \<Rightarrow> int \<Rightarrow> int \<Rightarrow> string \<Rightarrow> string \<Rightarrow> int \<Rightarrow> (health_world, act_error + unit) state" where
  "health_dep a m failures envID dep container port = do {
     let key = healthKey envID (''dep:'' @ dep) 0;
     l \<leftarrow> the_log;
     and_then (attempt a (CallInspect container)) (\<lambda>_.
       (case an_inspect a l container of
          None \<Rightarrow> State_Monad.return (Inr ())
        | Some c \<Rightarrow> do {
            _ \<leftarrow> note_restarts a dep 0 key (Some c);
            e \<leftarrow> ask a (CallReady container port);
            (case e of
               None \<Rightarrow> do {
                 down \<leftarrow> wasDown key;
                 _ \<leftarrow> (if down then do { _ \<leftarrow> hl_up key; health_event a dep 0 ''health'' ''ok'' } else State_Monad.return ());
                 _ \<leftarrow> hl_pass key;
                 State_Monad.return (Inr ()) }
             | Some _ \<Rightarrow> do {
                 fails \<leftarrow> hl_fail key;
                 (if fails < health_failures failures then State_Monad.return (Inr ())
                  else do {
                    down \<leftarrow> wasDown key;
                    _ \<leftarrow> (if \<not> down then do { _ \<leftarrow> setDown key; health_event a dep 0 ''health'' ''failed'' } else State_Monad.return ());
                    r \<leftarrow> ask a (CallRestart container (stopTimeout m));
                    (case r of
                       Some _ \<Rightarrow> State_Monad.return (Inr ())
                     | None \<Rightarrow> do {
                         _ \<leftarrow> health_event a dep 0 ''restart'' ''changed'';
                         _ \<leftarrow> hl_pass key;
                         _ \<leftarrow> setDown key;
                         State_Monad.return (Inr ()) }) }) }) })) }"

fun health_deps :: "answers \<Rightarrow> manager \<Rightarrow> int \<Rightarrow> string \<Rightarrow> string \<Rightarrow> int \<Rightarrow> int \<Rightarrow> int \<Rightarrow> string list \<Rightarrow> (health_world, act_error + unit) state" where
  "health_deps a m n app env envID base i [] = State_Monad.return (Inr ())"
| "health_deps a m n app env envID base i (dep # deps) =
     and_then (health_dep a m n envID dep (ContainerName app env dep) (depPort base i)) (\<lambda>_.
       health_deps a m n app env envID base (i + 1) deps)"

definition health_env ::
  "answers \<Rightarrow> manager \<Rightarrow> int \<Rightarrow> EnvRecord \<Rightarrow> App option \<Rightarrow> layout_error + portLayout \<Rightarrow> (health_world, act_error + unit) state" where
  "health_env a m failures rec cfg lay = do {
     l \<leftarrow> the_log;
     and_then (attempt a CallServices) (\<lambda>_. do {
       routes \<leftarrow> State (\<lambda>w. (RoutesOfEnv (wd_store w) (env_ID rec), w));
       (case lay of
          Inl e \<Rightarrow> State_Monad.return (Inl (LayoutError e))
        | Inr la \<Rightarrow>
            and_then (heldReplicas a routes) (\<lambda>held.
            and_then (health_services a m failures (env_App rec) (env_Name rec) (env_ID rec) cfg la held routes (an_services a l) False) (\<lambda>pushed.
            and_then (if pushed then pushRoutes a m else State_Monad.return (Inr ())) (\<lambda>_.
              health_deps a m failures (env_App rec) (env_Name rec) (env_ID rec) (env_PortBase rec) 0
                (case cfg of None \<Rightarrow> [] | Some c \<Rightarrow> map dep_Name (app_Deps c)))))) }) }"

text \<open>A pass over the environments: those that are ready, not busy and not being deployed; an error ends the
  environment, not the pass.\<close>

fun health_once ::
  "answers \<Rightarrow> manager \<Rightarrow> int \<Rightarrow> (EnvRecord \<Rightarrow> bool) \<Rightarrow> (EnvRecord \<Rightarrow> bool) \<Rightarrow> (EnvRecord \<Rightarrow> App option) \<Rightarrow> (EnvRecord \<Rightarrow> layout_error + portLayout) \<Rightarrow>
   EnvRecord list \<Rightarrow> (health_world, unit) state" where
  "health_once a m n busy deploying cfg lay [] = State_Monad.return ()"
| "health_once a m n busy deploying cfg lay (rec # recs) = do {
     _ \<leftarrow> (if env_Status rec \<noteq> EnvReady \<or> busy rec \<or> deploying rec then State_Monad.return (Inr ())
           else health_env a m n rec (cfg rec) (lay rec));
     health_once a m n busy deploying cfg lay recs }"

section \<open>What a change of targets does\<close>

text \<open>The state of the target of a replica on a route.\<close>

definition state_at :: "edge_store \<Rightarrow> int \<times> int \<Rightarrow> TargetState option" where
  "state_at s k = map_option et_State (find (\<lambda>t. target_key t = k) (es_targets s))"

text \<open>The targets of one replica on some routes were put into a state, except those that are held.\<close>

definition moved :: "TargetState \<Rightarrow> int set \<Rightarrow> int \<Rightarrow> edge_store \<Rightarrow> edge_store \<Rightarrow> bool" where
  "moved want ids index s s' \<longleftrightarrow> es_routes s' = es_routes s \<and> edge_store_inv s' \<and>
     (\<forall>i n. state_at s' (i, n) =
        (if i \<in> ids \<and> n = index \<and> state_at s (i, n) \<noteq> Some TargetHeld then map_option (\<lambda>_. want) (state_at s (i, n))
         else state_at s (i, n)))"

lemma moved_none: "edge_store_inv s \<Longrightarrow> moved want {} index s s"
  by (simp add: moved_def)

lemma moved_trans:
  assumes "moved v ids index s s'" "moved want ids' index s' s''" "v \<noteq> TargetHeld" "ids \<subseteq> ids' \<or> v = want"
  shows "moved want (ids \<union> ids') index s s''"
  using assms unfolding moved_def by (auto simp: option.map_comp comp_def)

lemma state_at_put:
  "state_at (s\<lparr>es_targets := upsert_by target_key t (es_targets s)\<rparr>) k = (if k = target_key t then Some (et_State t) else state_at s k)"
  by (simp add: state_at_def find_upsert_by)

text \<open>No call that reads or writes targets fails.\<close>

definition store_works :: "answers \<Rightarrow> bool" where
  "store_works a \<longleftrightarrow> (\<forall>l. (\<forall>i. an_error a l (CallTargets i) = None) \<and> (\<forall>t. an_error a l (CallPutTarget t) = None))"

lemma put_states_works:
  assumes "store_works a" "edge_store_inv (wd_store w)" "want \<noteq> OtherState []"
    and "\<forall>t \<in> set ts. settable (wd_store w) t"
  shows "\<exists>ch w'. run_state (put_states a index want ts changed) w = (Inr ch, w') \<and> hw_loop w' = hw_loop w \<and>
    es_routes (wd_store w') = es_routes (wd_store w) \<and> edge_store_inv (wd_store w') \<and>
    (\<forall>k. state_at (wd_store w') k =
       (if \<exists>t \<in> set ts. target_key t = k \<and> et_Replica t = index \<and> et_State t \<noteq> want \<and> et_State t \<noteq> TargetHeld then Some want
        else state_at (wd_store w) k))"
  using assms(2,4)
proof (induction ts arbitrary: changed w)
  case (Cons t ts)
  show ?case
  proof (cases "et_Replica t = index \<and> et_State t \<noteq> want \<and> et_State t \<noteq> TargetHeld")
    case True
    define tm where "tm = an_now a (wd_log w)"
    define t' where "t' = t\<lparr>et_State := want, et_UpdatedAt := tm\<rparr>"
    define l where "l = wd_log w @ [(CallNow, an_error a (wd_log w) CallNow), (CallPutTarget t', None)]"
    define s1 where "s1 = (wd_store w)\<lparr>es_targets := upsert_by target_key (filled_target tm t') (es_targets (wd_store w))\<rparr>"
    define w1 where "w1 = w\<lparr>wd_log := l, wd_store := s1\<rparr>"
    have "settable (wd_store w) t'" using Cons.prems(2) by (simp add: t'_def settable_def)
    then have put: "PutTarget tm (wd_store w) t' = Inr s1" unfolding PutTarget_Inr s1_def by blast
    have none: "an_error a (wd_log w @ [(CallNow, an_error a (wd_log w) CallNow)]) (CallPutTarget t') = None"
      using assms(1) by (simp add: store_works_def)
    have run: "run_state (put_states a index want (t # ts) changed) w = run_state (put_states a index want ts True) w1"
      using True put none
      by (simp add: State_Monad.run_state_bind now_def ask_def the_log_def attempt_def and_then_def Let_def
          tm_def[symmetric] t'_def[symmetric] w1_def l_def)
    have key: "target_key t' = target_key t" by (simp add: t'_def target_key_def)
    have st: "et_State (filled_target tm t') = want" using assms(3) by (simp add: t'_def filled_target_def Let_def)
    have inv: "edge_store_inv s1" by (rule inv_PutTarget[OF Cons.prems(1) put])
    have "\<forall>x \<in> set ts. settable (wd_store w1) x" using Cons.prems(2) by (simp add: settable_def w1_def s1_def)
    then obtain ch w' where ih: "run_state (put_states a index want ts True) w1 = (Inr ch, w')" "hw_loop w' = hw_loop w1"
      "es_routes (wd_store w') = es_routes (wd_store w1)" "edge_store_inv (wd_store w')"
      "\<forall>k. state_at (wd_store w') k =
        (if \<exists>t \<in> set ts. target_key t = k \<and> et_Replica t = index \<and> et_State t \<noteq> want \<and> et_State t \<noteq> TargetHeld then Some want
         else state_at (wd_store w1) k)"
      using Cons.IH[of w1 True] inv by (auto simp: w1_def)
    have "state_at (wd_store w1) k = (if k = target_key t then Some want else state_at (wd_store w) k)" for k
      by (simp add: w1_def s1_def state_at_put key st)
    then have "\<forall>k. state_at (wd_store w') k =
        (if \<exists>x \<in> set (t # ts). target_key x = k \<and> et_Replica x = index \<and> et_State x \<noteq> want \<and> et_State x \<noteq> TargetHeld
         then Some want else state_at (wd_store w) k)"
      using ih(5) True by auto
    moreover have "hw_loop w' = hw_loop w" "es_routes (wd_store w') = es_routes (wd_store w)"
      using ih(2,3) by (simp_all add: w1_def s1_def)
    ultimately show ?thesis unfolding run using ih(1,4) by blast
  next
    case False
    have "run_state (put_states a index want (t # ts) changed) w = run_state (put_states a index want ts changed) w"
      using False by auto
    then show ?thesis using Cons.IH[of w changed] Cons.prems False by auto
  qed
qed simp

lemma state_at_Some:
  assumes "edge_store_inv s"
  shows "state_at s k = Some st \<longleftrightarrow> (\<exists>t \<in> set (es_targets s). target_key t = k \<and> et_State t = st)"
proof -
  have d: "distinct (map target_key (es_targets s))" using assms by (simp add: edge_store_inv_def)
  show ?thesis
  proof
    assume "state_at s k = Some st"
    then obtain t where "find (\<lambda>t. target_key t = k) (es_targets s) = Some t" "et_State t = st" by (auto simp: state_at_def)
    then show "\<exists>t \<in> set (es_targets s). target_key t = k \<and> et_State t = st" by (auto simp: find_Some_iff)
  next
    assume "\<exists>t \<in> set (es_targets s). target_key t = k \<and> et_State t = st"
    then show "state_at s k = Some st" using find_distinct_key[OF d] by (auto simp: state_at_def)
  qed
qed

lemma put_route_works:
  assumes "store_works a" "edge_store_inv (wd_store w)" "want \<noteq> OtherState []" "i \<in> rr_ID ` set (es_routes (wd_store w))"
  shows "\<exists>ch w'. run_state (put_states a index want (store_Targets (wd_store w) i) changed) w = (Inr ch, w') \<and>
    hw_loop w' = hw_loop w \<and> moved want {i} index (wd_store w) (wd_store w')"
proof -
  let ?ts = "store_Targets (wd_store w) i"
  have in_ts: "t \<in> set ?ts \<longleftrightarrow> t \<in> set (es_targets (wd_store w)) \<and> et_RouteID t = i" for t by (auto simp: store_Targets_def)
  have i: "i \<noteq> 0" using assms(2,4) by (auto simp: edge_store_inv_def)
  have "\<forall>t \<in> set ?ts. settable (wd_store w) t" using assms(2,4) i by (auto simp: in_ts settable_def edge_store_inv_def)
  from put_states_works[OF assms(1-3) this] obtain ch w' where run:
    "run_state (put_states a index want ?ts changed) w = (Inr ch, w')" "hw_loop w' = hw_loop w"
    "es_routes (wd_store w') = es_routes (wd_store w)" "edge_store_inv (wd_store w')"
    "\<forall>k. state_at (wd_store w') k =
       (if \<exists>t \<in> set ?ts. target_key t = k \<and> et_Replica t = index \<and> et_State t \<noteq> want \<and> et_State t \<noteq> TargetHeld then Some want
        else state_at (wd_store w) k)" by blast
  have "(\<exists>t \<in> set ?ts. target_key t = (j, n) \<and> et_Replica t = index \<and> et_State t \<noteq> want \<and> et_State t \<noteq> TargetHeld) \<longleftrightarrow>
      j = i \<and> n = index \<and> (\<exists>st. state_at (wd_store w) (j, n) = Some st \<and> st \<noteq> want \<and> st \<noteq> TargetHeld)" for j n
    unfolding state_at_Some[OF assms(2)] target_key_def by (rule iffI) (use in_ts in \<open>blast dest: Pair_inject\<close>)+
  then have "state_at (wd_store w') (j, n) =
      (if j \<in> {i} \<and> n = index \<and> state_at (wd_store w) (j, n) \<noteq> Some TargetHeld then map_option (\<lambda>_. want) (state_at (wd_store w) (j, n))
       else state_at (wd_store w) (j, n))" for j n
    using run(5) by (cases "state_at (wd_store w) (j, n)") auto
  then show ?thesis using run(1-4) by (auto simp: moved_def)
qed

definition service_ids :: "string \<Rightarrow> RouteRow list \<Rightarrow> int set" where
  "service_ids service routes = rr_ID ` {r \<in> set routes. rr_Service r = service}"

lemma setTargetState_works:
  assumes "store_works a" "edge_store_inv (wd_store w)" "want \<noteq> OtherState []" "want \<noteq> TargetHeld"
    and "set routes \<subseteq> set (es_routes (wd_store w))"
  shows "\<exists>ch w'. run_state (setTargetState a service index want routes changed) w = (Inr ch, w') \<and>
    hw_loop w' = hw_loop w \<and> moved want (service_ids service routes) index (wd_store w) (wd_store w')"
  using assms(2,5)
proof (induction routes arbitrary: changed w)
  case Nil
  then show ?case by (simp add: service_ids_def moved_none)
next
  case (Cons one ones)
  show ?case
  proof (cases "rr_Service one = service")
    case False
    then have "service_ids service (one # ones) = service_ids service ones" by (auto simp: service_ids_def)
    then show ?thesis using Cons False by simp
  next
    case True
    let ?w1 = "w\<lparr>wd_log := wd_log w @ [(CallTargets (rr_ID one), None)]\<rparr>"
    obtain ch w2 where put: "run_state (put_states a index want (store_Targets (wd_store ?w1) (rr_ID one)) changed) ?w1 = (Inr ch, w2)"
      "hw_loop w2 = hw_loop ?w1" "moved want {rr_ID one} index (wd_store ?w1) (wd_store w2)"
      using put_route_works[OF assms(1) _ assms(3), of ?w1 "rr_ID one" index changed] Cons.prems by auto
    have "edge_store_inv (wd_store w2)" "set ones \<subseteq> set (es_routes (wd_store w2))" using put(3) Cons.prems by (auto simp: moved_def)
    from Cons.IH[OF this] obtain ch' w' where rest: "run_state (setTargetState a service index want ones ch) w2 = (Inr ch', w')"
      "hw_loop w' = hw_loop w2" "moved want (service_ids service ones) index (wd_store w2) (wd_store w')" by blast
    have none: "an_error a (wd_log w) (CallTargets (rr_ID one)) = None" using assms(1) by (simp add: store_works_def)
    have run: "run_state (setTargetState a service index want (one # ones) changed) w = (Inr ch', w')"
      using True none put(1) rest(1)
      by (simp add: State_Monad.run_state_bind ask_def attempt_def and_then_def Let_def)
    have "moved want ({rr_ID one} \<union> service_ids service ones) index (wd_store w) (wd_store w')"
      using moved_trans[OF put(3) rest(3) assms(4)] by simp
    moreover have "{rr_ID one} \<union> service_ids service ones = service_ids service (one # ones)" using True by (auto simp: service_ids_def)
    ultimately show ?thesis using run rest(2) put(2) by auto
  qed
qed

section \<open>One pass over a replica\<close>

definition probe_fails :: "answers \<Rightarrow> replica \<Rightarrow> bool" where
  "probe_fails a one \<longleftrightarrow> (\<forall>l. an_error a l (CallHealth (re_container one) (re_index one)) \<noteq> None)"

definition probe_answers :: "answers \<Rightarrow> replica \<Rightarrow> bool" where
  "probe_answers a one \<longleftrightarrow> (\<forall>l. an_error a l (CallHealth (re_container one) (re_index one)) = None)"

definition runtime_works :: "answers \<Rightarrow> bool" where
  "runtime_works a \<longleftrightarrow> (\<forall>l c. an_error a l (CallInspect c) = None)"

definition same_memory :: "string \<Rightarrow> health_world \<Rightarrow> health_world \<Rightarrow> bool" where
  "same_memory key w w' \<longleftrightarrow> wd_store w' = wd_store w \<and> fail_count (hw_loop w') key = fail_count (hw_loop w) key \<and>
     is_down (hw_loop w') key = is_down (hw_loop w) key"

lemmas run_defs = State_Monad.run_state_bind ask_def attempt_def and_then_def the_log_def hl_fail_def hl_pass_def wasDown_def setDown_def
  hl_up_def health_event_def restartMoved_def Let_def

lemma note_restarts_memory: "\<exists>w'. run_state (note_restarts a service index key' cur) w = ((), w') \<and> same_memory key w w'"
  by (cases cur) (auto simp: note_restarts_def run_defs same_memory_def fail_count_def is_down_def)

lemma health_replica_run:
  assumes "re_container one \<noteq> []" "runtime_works a"
  shows "\<exists>w1. same_memory (healthKey envID service (re_index one)) w w1 \<and>
    run_state (health_replica a m n envID service one port check routes) w =
    run_state (health_probe a m n service one (healthKey envID service (re_index one)) port check routes) w1"
proof -
  let ?key = "healthKey envID service (re_index one)"
  let ?w0 = "w\<lparr>wd_log := wd_log w @ [(CallInspect (re_container one), None)]\<rparr>"
  obtain w1 where noted: "run_state (note_restarts a service (re_index one) ?key (an_inspect a (wd_log w) (re_container one))) ?w0 = ((), w1)"
    "same_memory ?key ?w0 w1"
    using note_restarts_memory by blast
  have "same_memory ?key w w1" using noted(2) by (simp add: same_memory_def)
  moreover have "run_state (health_replica a m n envID service one port check routes) w =
      run_state (health_probe a m n service one ?key port check routes) w1"
    using assms noted(1) by (simp add: health_replica_def runtime_works_def run_defs)
  ultimately show ?thesis by blast
qed

text \<open>A probe that answers while the replica is in the pool changes nothing but the count.\<close>

lemma probe_up:
  assumes "\<not> nothingToProbe check port" "probe_answers a one" "\<not> is_down (hw_loop w) key"
  shows "\<exists>w'. run_state (health_probe a m n service one key port check routes) w = (Inr False, w') \<and>
    wd_store w' = wd_store w \<and> fail_count (hw_loop w') key = 0 \<and> \<not> is_down (hw_loop w') key"
  using assms by (auto simp: health_probe_def healthy_def probe_answers_def run_defs fail_count_def is_down_def)

text \<open>A probe that fails too few times in a row is only counted.\<close>

lemma probe_counted:
  assumes "\<not> nothingToProbe check port" "probe_fails a one" "fail_count (hw_loop w) key + 1 < health_failures n"
  shows "\<exists>w'. run_state (health_probe a m n service one key port check routes) w = (Inr False, w') \<and>
    wd_store w' = wd_store w \<and> fail_count (hw_loop w') key = fail_count (hw_loop w) key + 1 \<and>
    is_down (hw_loop w') key = is_down (hw_loop w) key"
proof -
  obtain e where "an_error a (wd_log w) (CallHealth (re_container one) (re_index one)) = Some e"
    using assms(2) by (auto simp: probe_fails_def)
  then show ?thesis using assms(1,3) by (auto simp: health_probe_def run_defs fail_count_def is_down_def)
qed

lemma restart_down_run:
  "\<exists>ch w'. run_state (restart_down a m service one key changed) w = (Inr ch, w') \<and> wd_store w' = wd_store w \<and>
     (is_down (hw_loop w) key \<longrightarrow> is_down (hw_loop w') key)"
  by (auto simp: restart_down_def run_defs is_down_def split: option.splits)

lemma probe_down:
  assumes "\<not> nothingToProbe check port" "probe_fails a one" "is_down (hw_loop w) key"
  shows "\<exists>ch w'. run_state (health_probe a m n service one key port check routes) w = (Inr ch, w') \<and>
    wd_store w' = wd_store w \<and> is_down (hw_loop w') key"
proof -
  obtain e where e: "an_error a (wd_log w) (CallHealth (re_container one) (re_index one)) = Some e"
    using assms(2) by (auto simp: probe_fails_def)
  define w1 where "w1 = w\<lparr>wd_log := wd_log w @ [(CallHealth (re_container one) (re_index one), Some e)],
    hw_loop := (hw_loop w)\<lparr>hl_fails := (hl_fails (hw_loop w))(key \<mapsto> fail_count (hw_loop w) key + 1)\<rparr>\<rparr>"
  define w2 where "w2 = w1\<lparr>hw_loop := (hw_loop w1)\<lparr>hl_down := (hl_down (hw_loop w1))(key \<mapsto> True)\<rparr>\<rparr>"
  have down: "is_down (hw_loop w1) key" "is_down (hw_loop w2) key" "wd_store w1 = wd_store w" "wd_store w2 = wd_store w"
    using assms(3) by (simp_all add: w1_def w2_def is_down_def)
  have "run_state (health_probe a m n service one key port check routes) w =
      (if fail_count (hw_loop w) key + 1 < health_failures n then (Inr False, w1)
       else run_state (restart_down a m service one key False) w2)"
    using assms(1,3) e by (simp add: health_probe_def unhealthy_def run_defs w1_def w2_def is_down_def)
  then show ?thesis using down restart_down_run[of a m service one key False w2] by auto
qed

lemma probe_takes_out:
  assumes "\<not> nothingToProbe check port" "probe_fails a one" "\<not> is_down (hw_loop w) key"
    and "fail_count (hw_loop w) key + 1 \<ge> health_failures n"
    and "store_works a" "edge_store_inv (wd_store w)" "set routes \<subseteq> set (es_routes (wd_store w))"
  shows "\<exists>ch w'. run_state (health_probe a m n service one key port check routes) w = (Inr ch, w') \<and>
    moved TargetUnhealthy (service_ids service routes) (re_index one) (wd_store w) (wd_store w') \<and> is_down (hw_loop w') key"
proof -
  obtain e where e: "an_error a (wd_log w) (CallHealth (re_container one) (re_index one)) = Some e"
    using assms(2) by (auto simp: probe_fails_def)
  define w2 where "w2 = w\<lparr>wd_log := wd_log w @ [(CallHealth (re_container one) (re_index one), Some e)],
    hw_loop := (hw_loop w)\<lparr>hl_fails := (hl_fails (hw_loop w))(key \<mapsto> fail_count (hw_loop w) key + 1),
      hl_down := (hl_down (hw_loop w))(key \<mapsto> True)\<rparr>\<rparr>"
  have store: "wd_store w2 = wd_store w" and down: "is_down (hw_loop w2) key" by (simp_all add: w2_def is_down_def)
  obtain ch w3 where set: "run_state (setTargetState a service (re_index one) TargetUnhealthy routes False) w2 = (Inr ch, w3)"
    "hw_loop w3 = hw_loop w2" "moved TargetUnhealthy (service_ids service routes) (re_index one) (wd_store w) (wd_store w3)"
    using setTargetState_works[OF assms(5), of w2 TargetUnhealthy routes service "re_index one" False] assms(6,7) store by auto
  define w4 where "w4 = w3\<lparr>wd_log := wd_log w3 @ [(CallEvent service (re_index one) ''health'' ''failed'',
    an_error a (wd_log w3) (CallEvent service (re_index one) ''health'' ''failed''))]\<rparr>"
  have "run_state (health_probe a m n service one key port check routes) w = run_state (restart_down a m service one key ch) w4"
    using assms(1,3,4) e set(1) by (simp add: health_probe_def unhealthy_def run_defs w2_def w4_def is_down_def)
  then show ?thesis
    using restart_down_run[of a m service one key ch w4] set(2,3) down by (auto simp: w4_def)
qed

lemma probe_puts_back:
  assumes "\<not> nothingToProbe check port" "probe_answers a one" "is_down (hw_loop w) key"
    and "store_works a" "edge_store_inv (wd_store w)" "set routes \<subseteq> set (es_routes (wd_store w))"
  shows "\<exists>ch w'. run_state (health_probe a m n service one key port check routes) w = (Inr ch, w') \<and>
    moved TargetActive (service_ids service routes) (re_index one) (wd_store w) (wd_store w') \<and>
    \<not> is_down (hw_loop w') key \<and> fail_count (hw_loop w') key = 0"
proof -
  let ?ev = "CallEvent service (re_index one) ''health'' ''ok''" and ?h = "(CallHealth (re_container one) (re_index one), None)"
  define w2 where "w2 = w\<lparr>
    hw_loop := (hw_loop w)\<lparr>hl_fails := (hl_fails (hw_loop w))(key := None), hl_down := (hl_down (hw_loop w))(key := None)\<rparr>,
    wd_log := wd_log w @ [?h, (?ev, an_error a (wd_log w @ [?h]) ?ev)]\<rparr>"
  have store: "wd_store w2 = wd_store w" and up: "\<not> is_down (hw_loop w2) key" "fail_count (hw_loop w2) key = 0"
    by (simp_all add: w2_def is_down_def fail_count_def)
  have "run_state (health_probe a m n service one key port check routes) w =
      run_state (setTargetState a service (re_index one) TargetActive routes False) w2"
    using assms(1-3) by (simp add: health_probe_def healthy_def probe_answers_def run_defs w2_def is_down_def)
  then show ?thesis
    using setTargetState_works[OF assms(4), of w2 TargetActive routes service "re_index one" False] assms(5,6) store up by auto
qed

section \<open>Passes in a row\<close>

text \<open>What is watched: a replica that is in a container and can be probed.\<close>

record watched =
  wt_env :: int
  wt_service :: string
  wt_replica :: replica
  wt_port :: int
  wt_check :: "Health option"

definition watched_key :: "watched \<Rightarrow> string" where
  "watched_key t = healthKey (wt_env t) (wt_service t) (re_index (wt_replica t))"

definition probed :: "watched \<Rightarrow> bool" where
  "probed t \<longleftrightarrow> re_container (wt_replica t) \<noteq> [] \<and> \<not> nothingToProbe (wt_check t) (wt_port t)"

definition health_pass :: "manager \<Rightarrow> int \<Rightarrow> watched \<Rightarrow> RouteRow list \<Rightarrow> answers \<Rightarrow> (health_world, act_error + bool) state" where
  "health_pass m n t routes a =
     health_replica a m n (wt_env t) (wt_service t) (wt_replica t) (wt_port t) (wt_check t) routes"

text \<open>Passes over one replica, each with its own answers of the outside world.\<close>

fun health_passes :: "manager \<Rightarrow> int \<Rightarrow> watched \<Rightarrow> RouteRow list \<Rightarrow> answers list \<Rightarrow> health_world \<Rightarrow> health_world" where
  "health_passes m n t routes [] w = w"
| "health_passes m n t routes (a # as) w = health_passes m n t routes as (snd (run_state (health_pass m n t routes a) w))"

lemma health_passes_append:
  "health_passes m n t routes (as @ bs) w = health_passes m n t routes bs (health_passes m n t routes as w)"
  by (induction as arbitrary: w) auto

abbreviation fails_in :: "watched \<Rightarrow> health_world \<Rightarrow> int" where
  "fails_in t w \<equiv> fail_count (hw_loop w) (watched_key t)"

abbreviation down_in :: "watched \<Rightarrow> health_world \<Rightarrow> bool" where
  "down_in t w \<equiv> is_down (hw_loop w) (watched_key t)"

abbreviation watched_ids :: "watched \<Rightarrow> RouteRow list \<Rightarrow> int set" where
  "watched_ids t routes \<equiv> service_ids (wt_service t) routes"

lemma health_pass_run:
  assumes "probed t" "runtime_works a"
  obtains w1 where "same_memory (watched_key t) w w1" "run_state (health_pass m n t routes a) w =
    run_state (health_probe a m n (wt_service t) (wt_replica t) (watched_key t) (wt_port t) (wt_check t) routes) w1"
  using health_replica_run[of "wt_replica t" a "wt_env t" "wt_service t" w m n "wt_port t" "wt_check t" routes] assms
  by (auto simp: probed_def watched_key_def health_pass_def)

lemma pass_up:
  assumes "probed t" "runtime_works a" "probe_answers a (wt_replica t)" "\<not> down_in t w"
  shows "wd_store (snd (run_state (health_pass m n t routes a) w)) = wd_store w"
    and "\<not> down_in t (snd (run_state (health_pass m n t routes a) w))"
proof -
  obtain w1 where w1: "same_memory (watched_key t) w w1" "run_state (health_pass m n t routes a) w =
    run_state (health_probe a m n (wt_service t) (wt_replica t) (watched_key t) (wt_port t) (wt_check t) routes) w1"
    using health_pass_run[OF assms(1,2)] .
  then show "wd_store (snd (run_state (health_pass m n t routes a) w)) = wd_store w"
    "\<not> down_in t (snd (run_state (health_pass m n t routes a) w))"
    using probe_up[of "wt_check t" "wt_port t" a "wt_replica t" w1 "watched_key t" m n "wt_service t" routes] assms
    by (auto simp: same_memory_def probed_def)
qed

lemma passes_up:
  assumes "probed t" "\<forall>a \<in> set as. runtime_works a \<and> probe_answers a (wt_replica t)" "\<not> down_in t w"
  shows "wd_store (health_passes m n t routes as w) = wd_store w"
  using assms(2,3)
proof (induction as arbitrary: w)
  case (Cons a as)
  then show ?case using pass_up[OF assms(1), of a w m n routes] by auto
qed simp

text \<open>What failing probes lead to: counting up to the limit, then out of the pool.\<close>

definition failing :: "int \<Rightarrow> watched \<Rightarrow> RouteRow list \<Rightarrow> health_world \<Rightarrow> int \<Rightarrow> health_world \<Rightarrow> bool" where
  "failing n t routes w k w' \<longleftrightarrow>
     (if k < health_failures n then wd_store w' = wd_store w \<and> fails_in t w' = k \<and> \<not> down_in t w'
      else moved TargetUnhealthy (watched_ids t routes) (re_index (wt_replica t)) (wd_store w) (wd_store w') \<and> down_in t w')"

lemma pass_fails:
  assumes "probed t" "runtime_works a" "store_works a" "probe_fails a (wt_replica t)"
    and "edge_store_inv (wd_store w)" "set routes \<subseteq> set (es_routes (wd_store w))" "0 \<le> k" "failing n t routes w k w'"
  shows "failing n t routes w (k + 1) (snd (run_state (health_pass m n t routes a) w'))"
proof -
  let ?probe = "health_probe a m n (wt_service t) (wt_replica t) (watched_key t) (wt_port t) (wt_check t) routes"
  have probe: "\<not> nothingToProbe (wt_check t) (wt_port t)" using assms(1) by (simp add: probed_def)
  obtain w1 where w1: "same_memory (watched_key t) w' w1" "run_state (health_pass m n t routes a) w' = run_state ?probe w1"
    using health_pass_run[OF assms(1,2)] .
  consider "k + 1 < health_failures n" | "k < health_failures n" "k + 1 \<ge> health_failures n" | "k \<ge> health_failures n" by linarith
  then show ?thesis
  proof cases
    case 1
    then have "wd_store w1 = wd_store w" "fails_in t w1 = k" "\<not> down_in t w1"
      using assms(8) w1(1) by (auto simp: failing_def same_memory_def)
    then show ?thesis using probe_counted[OF probe assms(4), of w1 "watched_key t" n m "wt_service t" routes] 1
      by (auto simp: failing_def w1(2))
  next
    case 2
    then have "wd_store w1 = wd_store w" "fails_in t w1 = k" "\<not> down_in t w1"
      using assms(8) w1(1) by (auto simp: failing_def same_memory_def)
    then show ?thesis using probe_takes_out[OF probe assms(4), of w1 "watched_key t" n routes m "wt_service t"] 2 assms(3,5,6)
      by (auto simp: failing_def w1(2))
  next
    case 3
    then have "wd_store w1 = wd_store w'" "down_in t w1" using assms(8) w1(1) by (auto simp: failing_def same_memory_def)
    then show ?thesis using probe_down[OF probe assms(4), of w1 "watched_key t" m n "wt_service t" routes] 3 assms(8)
      by (auto simp: failing_def w1(2))
  qed
qed

lemma passes_fail:
  assumes "probed t" "\<forall>a \<in> set as. runtime_works a \<and> store_works a \<and> probe_fails a (wt_replica t)"
    and "edge_store_inv (wd_store w)" "set routes \<subseteq> set (es_routes (wd_store w))" "fails_in t w = 0" "\<not> down_in t w"
  shows "failing n t routes w (int (length as)) (health_passes m n t routes as w)"
  using assms(2)
proof (induction as rule: rev_induct)
  case Nil
  then show ?case using assms(5,6) by (auto simp: failing_def health_failures_def)
next
  case (snoc a as)
  then have "failing n t routes w (int (length as) + 1) (snd (run_state (health_pass m n t routes a) (health_passes m n t routes as w)))"
    by (intro pass_fails assms) auto
  then show ?case by (simp add: health_passes_append add.commute)
qed


section \<open>A recovery that is not written is lost\<close>

lemma setTargetState_fails:
  assumes "\<forall>l i. an_error a l (CallTargets i) \<noteq> None" "service \<in> rr_Service ` set routes"
  shows "\<exists>e w'. run_state (setTargetState a service index want routes changed) w = (Inl e, w') \<and> wd_store w' = wd_store w \<and> hw_loop w' = hw_loop w"
  using assms(2)
proof (induction routes)
  case (Cons one ones)
  obtain e where "an_error a (wd_log w) (CallTargets (rr_ID one)) = Some e" using assms(1) by fast
  then show ?case using Cons by (auto simp: run_defs)
qed simp

lemma pass_recovery_fails:
  assumes "probed t" "runtime_works a" "probe_answers a (wt_replica t)" "down_in t w"
    and "\<forall>l i. an_error a l (CallTargets i) \<noteq> None" "wt_service t \<in> rr_Service ` set routes"
  shows "wd_store (snd (run_state (health_pass m n t routes a) w)) = wd_store w"
    and "\<not> down_in t (snd (run_state (health_pass m n t routes a) w))"
proof -
  let ?one = "wt_replica t" and ?key = "watched_key t"
  obtain w1 where w1: "same_memory ?key w w1" "run_state (health_pass m n t routes a) w =
    run_state (health_probe a m n (wt_service t) ?one ?key (wt_port t) (wt_check t) routes) w1"
    using health_pass_run[OF assms(1,2)] .
  have down: "is_down (hw_loop w1) ?key" using w1(1) assms(4) by (simp add: same_memory_def)
  let ?ev = "CallEvent (wt_service t) (re_index ?one) ''health'' ''ok''" and ?h = "(CallHealth (re_container ?one) (re_index ?one), None)"
  define w2 where "w2 = w1\<lparr>
    hw_loop := (hw_loop w1)\<lparr>hl_fails := (hl_fails (hw_loop w1))(?key := None), hl_down := (hl_down (hw_loop w1))(?key := None)\<rparr>,
    wd_log := wd_log w1 @ [?h, (?ev, an_error a (wd_log w1 @ [?h]) ?ev)]\<rparr>"
  have "run_state (health_probe a m n (wt_service t) ?one ?key (wt_port t) (wt_check t) routes) w1 =
      run_state (setTargetState a (wt_service t) (re_index ?one) TargetActive routes False) w2"
    using assms(1,3) down by (simp add: health_probe_def healthy_def probe_answers_def probed_def run_defs w2_def is_down_def)
  moreover have "wd_store w2 = wd_store w" "\<not> down_in t w2" using w1(1) by (simp_all add: w2_def same_memory_def is_down_def)
  ultimately show "wd_store (snd (run_state (health_pass m n t routes a) w)) = wd_store w"
    "\<not> down_in t (snd (run_state (health_pass m n t routes a) w))"
    using setTargetState_fails[OF assms(5,6), of "re_index ?one" TargetActive False w2] by (auto simp: w1(2))
qed

text \<open>The loop forgets that a replica is out of the pool before it has put it back. When reading the targets fails in the pass in
  which the replica answers again, the replica stays out however often it answers afterwards; and so does every replica
  that was out when the daemon was started anew, because a new loop remembers none. In both cases no pass changes any
  target.\<close>

theorem recovery_not_retried:
  assumes "probed t" "\<forall>a \<in> set as. runtime_works a \<and> probe_answers a (wt_replica t)"
  shows "wd_store (health_passes m n t routes as (w\<lparr>hw_loop := NewHealthLoop\<rparr>)) = wd_store w \<and>
    (down_in t w \<longrightarrow> wt_service t \<in> rr_Service ` set routes \<longrightarrow> runtime_works b \<longrightarrow> probe_answers b (wt_replica t) \<longrightarrow>
       (\<forall>l i. an_error b l (CallTargets i) \<noteq> None) \<longrightarrow> wd_store (health_passes m n t routes (b # as) w) = wd_store w)"
proof (intro conjI impI)
  have "\<not> down_in t (w\<lparr>hw_loop := NewHealthLoop\<rparr>)" by (simp add: NewHealthLoop_def is_down_def)
  from passes_up[OF assms this] show "wd_store (health_passes m n t routes as (w\<lparr>hw_loop := NewHealthLoop\<rparr>)) = wd_store w" by simp
  assume b: "down_in t w" "wt_service t \<in> rr_Service ` set routes" "runtime_works b" "probe_answers b (wt_replica t)"
    "\<forall>l i. an_error b l (CallTargets i) \<noteq> None"
  show "wd_store (health_passes m n t routes (b # as) w) = wd_store w"
    using passes_up[OF assms pass_recovery_fails(2)[OF assms(1) b(3,4,1,5,2)]] pass_recovery_fails(1)[OF assms(1) b(3,4,1,5,2)]
    by simp
qed

section \<open>An example\<close>

definition health_answers :: "bool \<Rightarrow> bool \<Rightarrow> answers" where
  "health_answers alive store = \<lparr>an_error = (\<lambda>_ c. case c of CallHealth _ _ \<Rightarrow> if alive then None else Some ''refused''
       | CallTargets _ \<Rightarrow> if store then None else Some ''locked'' | _ \<Rightarrow> None),
     an_now = (\<lambda>_. 50), an_containers = (\<lambda>_ _. []), an_inspect = (\<lambda>_ _. None), an_services = (\<lambda>_. []),
     an_encoded = (\<lambda>_. ([], [], [])), an_id = (\<lambda>_. []), an_watch = (\<lambda>_. ([], WatchClosed))\<rparr>"

definition health_manager :: manager where
  "health_manager = \<lparr>mg_Edge = True, mg_StopTimeout = 0\<rparr>"

definition example_watched :: watched where
  "example_watched = \<lparr>wt_env = 7, wt_service = ''web'', wt_replica = missing_replica ''shop'' ''main'' ''web'' 1, wt_port = 20000, wt_check = None\<rparr>"

definition example_pool_store :: "TargetState \<Rightarrow> edge_store" where
  "example_pool_store st = example_store\<lparr>es_targets := [(example_row 1 20000)\<lparr>et_RouteID := 1, et_State := st\<rparr>]\<rparr>"

definition health_start :: "TargetState \<Rightarrow> HealthLoop \<Rightarrow> health_world" where
  "health_start st l = \<lparr>wd_store = example_pool_store st, wd_log = [], hw_loop = l\<rparr>"

lemma health_example:
  "probed example_watched" "edge_store_inv (example_pool_store TargetActive)"
  "runtime_works (health_answers b c)" "store_works (health_answers b True)"
  "probe_fails (health_answers False c) (wt_replica example_watched)" "probe_answers (health_answers True c) (wt_replica example_watched)"
  "watched_ids example_watched (es_routes example_store) = {1}" "re_index (wt_replica example_watched) = 1"
  "state_at (example_pool_store st) (1, 1) = Some st"
proof -
  show "probed example_watched"
    by (simp add: probed_def example_watched_def missing_replica_def ReplicaContainerName_def nothingToProbe_def)
  show "edge_store_inv (example_pool_store TargetActive)"
    by (simp add: example_pool_store_def edge_store_inv_def example_store_eq example_row_def target_key_def)
  show "runtime_works (health_answers b c)" "store_works (health_answers b True)"
    by (simp_all add: runtime_works_def store_works_def health_answers_def)
  show "probe_fails (health_answers False c) (wt_replica example_watched)" "probe_answers (health_answers True c) (wt_replica example_watched)"
    by (simp_all add: health_answers_def probe_fails_def probe_answers_def)
  obtain r where r: "es_routes example_store = [r]" "rr_Service r = wt_service example_watched" "rr_ID r = 1"
    by (simp add: example_store_eq example_watched_def)
  have "{x \<in> set [r]. rr_Service x = wt_service example_watched} = {r}" using r(2) by auto
  then show "watched_ids example_watched (es_routes example_store) = {1}" unfolding service_ids_def r(1) by (simp add: r(3))
  show "re_index (wt_replica example_watched) = 1" by (simp add: example_watched_def missing_replica_def)
  show "state_at (example_pool_store st) (1, 1) = Some st"
    by (simp add: state_at_def example_pool_store_def example_row_def target_key_def)
qed


theorem recovery_not_retried_witness:
  "state_at (wd_store (health_passes health_manager 3 example_watched (es_routes example_store)
     (health_answers True False # replicate 9 (health_answers True True))
     (health_start TargetUnhealthy (NewHealthLoop\<lparr>hl_down := [watched_key example_watched \<mapsto> True]\<rparr>)))) (1, 1) = Some TargetUnhealthy"
proof -
  let ?w = "health_start TargetUnhealthy (NewHealthLoop\<lparr>hl_down := [watched_key example_watched \<mapsto> True]\<rparr>)"
  have as: "\<forall>a \<in> set (replicate 9 (health_answers True True)). runtime_works a \<and> probe_answers a (wt_replica example_watched)"
    using health_example by simp
  have down: "down_in example_watched ?w" "wt_service example_watched \<in> rr_Service ` set (es_routes example_store)"
    "\<forall>l i. an_error (health_answers True False) l (CallTargets i) \<noteq> None"
    by (simp_all add: health_start_def is_down_def example_watched_def example_store_eq health_answers_def)
  then show ?thesis
    using recovery_not_retried[OF health_example(1) as, of health_manager 3 "es_routes example_store" ?w "health_answers True False"]
      health_example(3,6) health_example(9)[of TargetUnhealthy] by (simp add: health_start_def)
qed

end
