(* ===== verification/ConfigDeploy.thy ===== *)
theory ConfigDeploy
  imports ConfigApp "HOL-Library.List_Lexorder" "HOL-Library.Char_ord"
begin

text \<open>
  The settings of deploys, resources and environments (\<^verbatim>\<open>internal/config/deploy.go\<close>) and of the placement of environments
  (\<^verbatim>\<open>fleet.go\<close>), but for reading them from YAML. A rate is a \<^verbatim>\<open>float64\<close>, with the rounding of the machine. What a
  conversion to an integer of 64 bits makes of a number that does not fit is an argument, because Go leaves it to the machine.
\<close>

section \<open>Deploys\<close>

abbreviation (input) DefaultWatch :: duration where "DefaultWatch \<equiv> 60 * second"
abbreviation (input) MinErrorRequests :: int where "MinErrorRequests \<equiv> 20"
abbreviation (input) DefaultKeep :: int where "DefaultKeep \<equiv> 5"
abbreviation (input) MaxKeep :: int where "MaxKeep \<equiv> 100"

definition DefaultMaxErrors :: string where "DefaultMaxErrors = ''5%''"
definition MaxErrorsNone :: string where "MaxErrorsNone = ''none''"
definition PromoteAuto :: string where "PromoteAuto = ''auto''"
definition PromoteManual :: string where "PromoteManual = ''manual''"

definition NoMaxErrors :: float64 where "NoMaxErrors = Finite (- 1)"

datatype deploy_error =
    UnknownPromote string | NotPercentage string | PercentRange string
  | NotSize string | NotPositiveSize string | UnknownUnit string
  | WatchNegative int | KeepRange int | MemoryNegative | MemoryBelow int | CPUNegative
  | UnknownPlacement string | UnknownVia string | BadMachine string
  | BadEnvName string | BadHost config_error | DuplicateHost string | NoService string | OverrideReplicas int
  | AtKey string deploy_error

definition ParsePromote :: "string \<Rightarrow> deploy_error + string" where
  "ParsePromote s =
     (let p = TrimSpace s in if p = [] then Inr [] else if p \<in> {PromoteAuto, PromoteManual} then Inr p else Inl (UnknownPromote s))"

definition WatchWindow :: "Deploy option \<Rightarrow> duration" where
  "WatchWindow d = (case d of None \<Rightarrow> DefaultWatch | Some d \<Rightarrow> if dy_Watch d \<le> 0 then DefaultWatch else dy_Watch d)"

definition ParsePercent :: "string \<Rightarrow> deploy_error + float64" where
  "ParsePercent s =
     (let t = TrimSpace s
      in if \<not> HasSuffix t ''%'' then Inl (NotPercentage s)
         else (case ParseFloat (TrimSpace (TrimSuffix t ''%'')) of
                 None \<Rightarrow> Inl (NotPercentage s)
               | Some v \<Rightarrow> if fl_less v (Finite 0) \<or> fl_less (Finite 100) v then Inl (PercentRange s) else Inr (fl_div v (Finite 100))))"

definition ParseMaxErrors :: "string \<Rightarrow> deploy_error + float64" where
  "ParseMaxErrors s = (if ToLower (TrimSpace s) = MaxErrorsNone then Inr NoMaxErrors else ParsePercent s)"

definition MaxErrorRate :: "Deploy option \<Rightarrow> float64" where
  "MaxErrorRate d =
     (let s = (case d of None \<Rightarrow> DefaultMaxErrors | Some d \<Rightarrow> if TrimSpace (dy_MaxErrors d) \<noteq> [] then dy_MaxErrors d else DefaultMaxErrors)
      in case ParseMaxErrors s of
           Inr rate \<Rightarrow> rate
         | Inl _ \<Rightarrow> (case ParseMaxErrors DefaultMaxErrors of Inr rate \<Rightarrow> rate | Inl _ \<Rightarrow> Finite 0))"

definition PromotePolicy :: "Deploy option \<Rightarrow> string" where
  "PromotePolicy d = (case d of None \<Rightarrow> PromoteAuto | Some d \<Rightarrow> if dy_Promote d = [] then PromoteAuto else dy_Promote d)"

definition KeepReleases :: "Deploy option \<Rightarrow> int" where
  "KeepReleases d = (case d of None \<Rightarrow> DefaultKeep | Some d \<Rightarrow> if dy_Keep d \<le> 0 then DefaultKeep else dy_Keep d)"

definition no_deploy :: Deploy where
  "no_deploy = \<lparr>dy_Before = [], dy_Check = [], dy_Watch = 0, dy_MaxErrors = [], dy_Promote = [], dy_Keep = 0\<rparr>"

definition deploy_Merge :: "Deploy option \<Rightarrow> Deploy option \<Rightarrow> Deploy option" where
  "deploy_Merge d over =
     (if d = None \<and> over = None then None
      else (let out = (case d of None \<Rightarrow> no_deploy | Some d \<Rightarrow> d)
            in case over of
                 None \<Rightarrow> Some out
               | Some v \<Rightarrow>
                   Some (out\<lparr>dy_Before := (if dy_Before v \<noteq> [] then dy_Before v else dy_Before out),
                             dy_Check := (if dy_Check v \<noteq> [] then dy_Check v else dy_Check out),
                             dy_Watch := (if dy_Watch v > 0 then dy_Watch v else dy_Watch out),
                             dy_MaxErrors := (if TrimSpace (dy_MaxErrors v) \<noteq> [] then dy_MaxErrors v else dy_MaxErrors out),
                             dy_Promote := (if dy_Promote v \<noteq> [] then dy_Promote v else dy_Promote out),
                             dy_Keep := (if dy_Keep v > 0 then dy_Keep v else dy_Keep out)\<rparr>)))"

section \<open>Resources\<close>

abbreviation (input) MinMemoryBytes :: int where "MinMemoryBytes \<equiv> 6 * 2 ^ 20"

definition resources_Empty :: "Resources \<Rightarrow> bool" where
  "resources_Empty r \<longleftrightarrow> rs_Memory r = 0 \<and> rs_CPU r = Finite 0"

definition resources_Merge :: "Resources \<Rightarrow> Resources \<Rightarrow> Resources" where
  "resources_Merge r over =
     (let r1 = (if rs_Memory over \<noteq> 0 then r\<lparr>rs_Memory := rs_Memory over\<rparr> else r)
      in if rs_CPU over \<noteq> Finite 0 then r1\<lparr>rs_CPU := rs_CPU over\<rparr> else r1)"

definition MemoryArg :: "Resources \<Rightarrow> string" where
  "MemoryArg r = (if rs_Memory r \<le> 0 then [] else Itoa (rs_Memory r))"

definition memoryUnits :: "(string \<times> int) list" where
  "memoryUnits = [(''gb'', 2 ^ 30), (''g'', 2 ^ 30), (''mb'', 2 ^ 20), (''m'', 2 ^ 20), (''kb'', 2 ^ 10), (''k'', 2 ^ 10), (''b'', 1), ([], 1)]"

text \<open>A conversion to 64 bits drops the fraction; \<open>big\<close> is what the machine makes of the rest.\<close>

definition to_int64 :: "(float64 \<Rightarrow> int) \<Rightarrow> float64 \<Rightarrow> int" where
  "to_int64 big f = (case f of Finite q \<Rightarrow> if minInt64 \<le> fl_trunc f \<and> fl_trunc f \<le> maxInt64 then fl_trunc f else big f | _ \<Rightarrow> big f)"

definition ParseMemory :: "(float64 \<Rightarrow> int) \<Rightarrow> string \<Rightarrow> deploy_error + int" where
  "ParseMemory big s =
     (let t = ToLower (TrimSpace s);
          num = takeWhile (\<lambda>c. is_digit c \<or> c = CHR ''.'') t;
          unit = TrimSpace (dropWhile (\<lambda>c. is_digit c \<or> c = CHR ''.'') t)
      in if t = [] then Inl (NotSize s)
         else if num = [] then Inl (NotSize s)
         else (case ParseFloat num of
                 None \<Rightarrow> Inl (NotSize s)
               | Some v \<Rightarrow>
                   (case map_of memoryUnits unit of
                      None \<Rightarrow> Inl (UnknownUnit unit)
                    | Some factor \<Rightarrow>
                        (let bytes = to_int64 big (fl_mult v (fl_of_int factor))
                         in if bytes \<le> 0 then Inl (NotPositiveSize s) else Inr bytes))))"

definition FormatMemory :: "int \<Rightarrow> string" where
  "FormatMemory b =
     (if b \<le> 0 then []
      else if b mod 2 ^ 30 = 0 then Itoa (b div 2 ^ 30) @ ''g''
      else if b mod 2 ^ 20 = 0 then Itoa (b div 2 ^ 20) @ ''m''
      else if b mod 2 ^ 10 = 0 then Itoa (b div 2 ^ 10) @ ''k''
      else Itoa b)"

section \<open>One environment\<close>

definition override_Empty :: "EnvOverride \<Rightarrow> bool" where
  "override_Empty v \<longleftrightarrow> ov_Hosts v = [] \<and> ov_Services v = [] \<and> ov_Deploy v = None \<and> ov_Machine v = [] \<and> ov_Via v = []"

definition override_service :: "(string \<times> ServiceOverride) list \<Rightarrow> Service \<Rightarrow> Service" where
  "override_service over s =
     (case map_of over (svc_Name s) of
        None \<Rightarrow> s
      | Some so \<Rightarrow>
          (let s1 = (if so_Replicas so > 0 then s\<lparr>svc_ReplicaCount := so_Replicas so\<rparr> else s)
           in case so_Resources so of
                None \<Rightarrow> s1
              | Some r \<Rightarrow>
                  s1\<lparr>svc_Resources := Some (resources_Merge
                    (case svc_Resources s1 of None \<Rightarrow> \<lparr>rs_Memory = 0, rs_CPU = Finite 0\<rparr> | Some r0 \<Rightarrow> r0) r)\<rparr>))"

definition ForEnv :: "App option \<Rightarrow> string \<Rightarrow> App option" where
  "ForEnv a env =
     (case a of
        None \<Rightarrow> None
      | Some c \<Rightarrow>
          (case Override a env of
             None \<Rightarrow> Some c
           | Some v \<Rightarrow>
               if override_Empty v then Some c
               else Some (c\<lparr>app_Deploy := deploy_Merge (app_Deploy c) (ov_Deploy v),
                            app_Services := map (override_service (ov_Services v)) (app_Services c)\<rparr>)))"

section \<open>Placement\<close>

definition PlacementAuto :: string where "PlacementAuto = ''auto''"
definition PlacementHub :: string where "PlacementHub = ''hub''"
definition ViaMember :: string where "ViaMember = ''member''"
definition ViaHub :: string where "ViaHub = ''hub''"

definition ParsePlacement :: "string \<Rightarrow> deploy_error + string" where
  "ParsePlacement s =
     (let p = ToLower (TrimSpace s)
      in if p = [] \<or> p = PlacementAuto then Inr PlacementAuto else if p = PlacementHub then Inr PlacementHub else Inl (UnknownPlacement s))"

definition PlacementOf :: "App option \<Rightarrow> string" where
  "PlacementOf a = (case a of None \<Rightarrow> PlacementAuto | Some a \<Rightarrow> if app_Placement a = [] then PlacementAuto else app_Placement a)"

definition ParseVia :: "string \<Rightarrow> deploy_error + string" where
  "ParseVia s =
     (let p = ToLower (TrimSpace s)
      in if p = [] \<or> p = ViaMember then Inr ViaMember else if p = ViaHub then Inr ViaHub else Inl (UnknownVia s))"

definition ViaOf :: "App option \<Rightarrow> string \<Rightarrow> string" where
  "ViaOf a env = (case Override a env of None \<Rightarrow> ViaMember | Some v \<Rightarrow> if ov_Via v = [] then ViaMember else ov_Via v)"

definition MachineOf :: "App option \<Rightarrow> string \<Rightarrow> string" where
  "MachineOf a env = (case Override a env of None \<Rightarrow> [] | Some v \<Rightarrow> ov_Machine v)"

section \<open>Checks\<close>

definition at_key :: "string \<Rightarrow> deploy_error + 'a \<Rightarrow> deploy_error + 'a" where
  "at_key key r = (case r of Inl e \<Rightarrow> Inl (AtKey key e) | Inr x \<Rightarrow> Inr x)"

definition validateDeployBlock :: "string \<Rightarrow> Deploy option \<Rightarrow> deploy_error + unit" where
  "validateDeployBlock key d0 =
     (case d0 of
        None \<Rightarrow> Inr ()
      | Some d \<Rightarrow>
          if dy_Watch d < 0 then Inl (AtKey (key @ ''.watch'') (WatchNegative (dy_Watch d)))
          else bind_result (if TrimSpace (dy_MaxErrors d) = [] then Inr ()
                            else map_ok (\<lambda>_. ()) (at_key (key @ ''.max_errors'') (ParseMaxErrors (TrimSpace (dy_MaxErrors d))))) (\<lambda>_.
               bind_result (if dy_Promote d = [] then Inr ()
                            else map_ok (\<lambda>_. ()) (at_key (key @ ''.promote'') (ParsePromote (dy_Promote d)))) (\<lambda>_.
               if dy_Keep d \<noteq> 0 \<and> (dy_Keep d < 1 \<or> dy_Keep d > MaxKeep) then Inl (AtKey (key @ ''.keep'') (KeepRange (dy_Keep d)))
               else Inr ())))"

definition validateResources :: "string \<Rightarrow> Resources option \<Rightarrow> deploy_error + unit" where
  "validateResources key r0 =
     (case r0 of
        None \<Rightarrow> Inr ()
      | Some r \<Rightarrow>
          if rs_Memory r < 0 then Inl (AtKey (key @ ''.memory'') MemoryNegative)
          else if rs_Memory r > 0 \<and> rs_Memory r < MinMemoryBytes then Inl (AtKey (key @ ''.memory'') (MemoryBelow (rs_Memory r)))
          else if fl_less (rs_CPU r) (Finite 0) then Inl (AtKey (key @ ''.cpu'') CPUNegative)
          else Inr ())"

fun validate_hosts :: "string \<Rightarrow> string list \<Rightarrow> string list \<Rightarrow> deploy_error + unit" where
  "validate_hosts key seen [] = Inr ()"
| "validate_hosts key seen (h # hs) =
     (case ValidateHostname h of
        Inl e \<Rightarrow> Inl (AtKey (key @ ''.hosts'') (BadHost e))
      | Inr _ \<Rightarrow> if h \<in> set seen then Inl (AtKey (key @ ''.hosts'') (DuplicateHost h)) else validate_hosts key (h # seen) hs)"

definition validate_override_service :: "App \<Rightarrow> string \<Rightarrow> string \<times> ServiceOverride \<Rightarrow> deploy_error + unit" where
  "validate_override_service a key x =
     (case x of (svc, so) \<Rightarrow>
        let skey = key @ ''.services.'' @ svc
        in if app_Service (Some a) svc = None then Inl (AtKey skey (NoService svc))
           else if so_Replicas so \<noteq> 0 \<and> (so_Replicas so < 1 \<or> so_Replicas so > MaxReplicas)
           then Inl (AtKey (skey @ ''.replicas'') (OverrideReplicas (so_Replicas so)))
           else validateResources (skey @ ''.resources'') (so_Resources so))"

definition validate_env :: "App \<Rightarrow> string \<times> EnvOverride \<Rightarrow> deploy_error + unit" where
  "validate_env a x =
     (case x of (name, v) \<Rightarrow>
        let key = ''envs.'' @ name
        in if \<not> ValidSlug name then Inl (AtKey ''envs'' (BadEnvName name))
           else bind_result (validateDeployBlock (key @ ''.deploy'') (ov_Deploy v)) (\<lambda>_.
                bind_result (validate_hosts key [] (ov_Hosts v)) (\<lambda>_.
                each_ok (validate_override_service a key) (sort_key fst (ov_Services v)))))"

definition validateDeploy :: "App \<Rightarrow> deploy_error + unit" where
  "validateDeploy a =
     bind_result (validateDeployBlock ''deploy'' (app_Deploy a)) (\<lambda>_.
     bind_result (each_ok (\<lambda>s. validateResources (''services.'' @ svc_Name s @ ''.resources'') (svc_Resources s)) (app_Services a)) (\<lambda>_.
     each_ok (validate_env a) (sort_key fst (app_Envs a))))"

definition validate_env_fleet :: "string \<times> EnvOverride \<Rightarrow> deploy_error + unit" where
  "validate_env_fleet x =
     (case x of (name, v) \<Rightarrow>
        if ov_Machine v \<noteq> [] \<and> \<not> ValidSlug (ov_Machine v) then Inl (AtKey (''envs.'' @ name @ ''.machine'') (BadMachine (ov_Machine v)))
        else if ov_Via v \<noteq> [] then map_ok (\<lambda>_. ()) (at_key (''envs.'' @ name @ ''.via'') (ParseVia (ov_Via v)))
        else Inr ())"

definition validateFleet :: "App \<Rightarrow> deploy_error + unit" where
  "validateFleet a =
     bind_result (if app_Placement a = [] then Inr () else map_ok (\<lambda>_. ()) (at_key ''placement'' (ParsePlacement (app_Placement a)))) (\<lambda>_.
     each_ok validate_env_fleet (sort_key fst (app_Envs a)))"

end
