(* ===== verification/ConfigExpand.thy ===== *)
theory ConfigExpand
  imports ConfigApp
begin

text \<open>
  References in the variables of an app (\<^verbatim>\<open>internal/config/expand.go\<close>, \<^verbatim>\<open>view.go\<close>): \<open>${port}\<close>, \<open>${deps.db.host}\<close>,
  \<open>${secrets.KEY}\<close> and so on are replaced by what the context says, and \<open>$$\<close> stands for a dollar. A Go map of variables is an
  association list with distinct keys; a lookup function is a function to \<open>option\<close>, and a nil function is \<open>None\<close>. A callback
  that says neither value nor error leaves the reference as it is.
\<close>

section \<open>The context\<close>

record DepAddr =
  da_Host :: string
  da_Port :: int

datatype View = ViewUnset | ViewHost | ViewNetwork

record Secrets =
  sec_Lookup :: "(string \<Rightarrow> string option) option"
  sec_DepPassword :: "(string \<Rightarrow> string option) option"

record ExpandContext =
  ec_App :: string
  ec_Env :: string
  ec_Port :: int
  ec_Deps :: "(string \<times> DepAddr) list"
  ec_Services :: "(string \<times> DepAddr) list"
  ec_View :: View
  ec_secrets :: Secrets

datatype expand_error =
    UnknownReference string | Unterminated string | UnknownSecret string | NoPassword string | InVariable string expand_error
  | InKey string expand_error

definition secrets_Empty :: "Secrets \<Rightarrow> bool" where
  "secrets_Empty s \<longleftrightarrow> sec_Lookup s = None \<and> sec_DepPassword s = None"

definition WithSecrets :: "ExpandContext \<Rightarrow> Secrets \<Rightarrow> ExpandContext" where
  "WithSecrets c s = c\<lparr>ec_secrets := s\<rparr>"

definition upper_char :: "char \<Rightarrow> char" where
  "upper_char c = (if is_lower c then char_of ((of_char c :: nat) - 32) else c)"

definition DepPasswordSecret :: "string \<Rightarrow> string" where
  "DepPasswordSecret dep = ReplaceByte (map upper_char (TrimSpace dep)) CHR ''-'' ''_'' @ ''_PASSWORD''"

record Views =
  vw_Host :: ExpandContext
  vw_Network :: ExpandContext

definition views_Context :: "Views \<Rightarrow> View \<Rightarrow> ExpandContext" where
  "views_Context v view =
     (let ctx = (if view = ViewNetwork then vw_Network v else vw_Host v)
      in if ec_View ctx = ViewUnset then ctx\<lparr>ec_View := view\<rparr> else ctx)"

definition ContextWith :: "Views \<Rightarrow> View \<Rightarrow> Secrets \<Rightarrow> ExpandContext" where
  "ContextWith v view s = WithSecrets (views_Context v view) s"

section \<open>Looking up a reference\<close>

text \<open>The pattern of the name of a variable, as a letter or an underscore and then letters, digits and underscores.\<close>

definition varName :: "string \<Rightarrow> bool" where
  "varName s \<longleftrightarrow> (case s of [] \<Rightarrow> False
     | c # cs \<Rightarrow> (is_lower c \<or> is_upper c \<or> c = CHR ''_'') \<and> list_all (\<lambda>c. is_lower c \<or> is_upper c \<or> is_digit c \<or> c = CHR ''_'') cs)"

definition lookupAddr :: "(string \<times> DepAddr) list \<Rightarrow> string \<Rightarrow> string option" where
  "lookupAddr addrs rest =
     (case Cut rest CHR ''.'' of
        None \<Rightarrow> None
      | Some (name, field) \<Rightarrow>
          (case map_of addrs name of
             None \<Rightarrow> None
           | Some addr \<Rightarrow>
               if field = ''host'' then Some (da_Host addr) else if field = ''port'' then Some (Itoa (da_Port addr)) else None))"

definition lookupSecret :: "Secrets \<Rightarrow> string \<Rightarrow> expand_error + string option" where
  "lookupSecret s name =
     (if name = [] \<or> \<not> varName name then Inr None
      else (case sec_Lookup s of
              None \<Rightarrow> Inr (Some [])
            | Some f \<Rightarrow> (case f name of None \<Rightarrow> Inl (UnknownSecret name) | Some v \<Rightarrow> Inr (Some v))))"

definition lookupDepPassword :: "ExpandContext \<Rightarrow> string \<Rightarrow> expand_error + string option" where
  "lookupDepPassword c dep =
     (if map_of (ec_Deps c) dep = None then Inr None
      else (case sec_DepPassword (ec_secrets c) of
              None \<Rightarrow> Inr (Some [])
            | Some f \<Rightarrow> (case f dep of None \<Rightarrow> Inl (NoPassword dep) | Some v \<Rightarrow> Inr (Some v))))"

definition ctx_lookup :: "ExpandContext \<Rightarrow> string \<Rightarrow> expand_error + string option" where
  "ctx_lookup c ref =
     (if ref = ''port'' then Inr (Some (Itoa (ec_Port c)))
      else if ref = ''app.name'' then Inr (Some (ec_App c))
      else if ref = ''env.name'' then Inr (Some (ec_Env c))
      else (case CutPrefix ref ''secrets.'' of
              Some name \<Rightarrow> lookupSecret (ec_secrets c) name
            | None \<Rightarrow>
                (case CutPrefix ref ''deps.'' of
                   Some rest \<Rightarrow>
                     (case Cut rest CHR ''.'' of
                        Some (name, field) \<Rightarrow> if field = ''password'' then lookupDepPassword c name else Inr (lookupAddr (ec_Deps c) rest)
                      | None \<Rightarrow> Inr (lookupAddr (ec_Deps c) rest))
                 | None \<Rightarrow>
                     (case CutPrefix ref ''services.'' of
                        Some rest \<Rightarrow> Inr (lookupAddr (ec_Services c) rest)
                      | None \<Rightarrow> Inr None))))"

section \<open>Replacing references\<close>

text \<open>The loop of \<^verbatim>\<open>mapRefs\<close> over the rest of the string.\<close>

function map_refs :: "(string \<Rightarrow> expand_error + string option) \<Rightarrow> string \<Rightarrow> expand_error + string" where
  "map_refs f s =
     (case s of
        [] \<Rightarrow> Inr []
      | c # cs \<Rightarrow>
          if c \<noteq> CHR ''$'' then map_ok (\<lambda>b. c # b) (map_refs f cs)
          else if cs \<noteq> [] \<and> hd cs = CHR ''$'' then map_ok (\<lambda>b. CHR ''$'' # b) (map_refs f (tl cs))
          else if cs \<noteq> [] \<and> hd cs = CHR ''{'' then
            (case IndexByte (tl cs) CHR ''}'' of
               None \<Rightarrow> Inl (Unterminated s)
             | Some e \<Rightarrow>
                 (case f (take e (tl cs)) of
                    Inl x \<Rightarrow> Inl x
                  | Inr None \<Rightarrow> map_ok (\<lambda>b. take (e + 3) s @ b) (map_refs f (drop (e + 3) s))
                  | Inr (Some v) \<Rightarrow> map_ok (\<lambda>b. v @ b) (map_refs f (drop (e + 3) s))))
          else map_ok (\<lambda>b. CHR ''$'' # b) (map_refs f cs))"
  by pat_completeness auto
termination
  by (relation "measure (\<lambda>(f, s). length s)") auto

declare map_refs.simps [simp del]

definition mapRefs :: "string \<Rightarrow> (string \<Rightarrow> expand_error + string option) \<Rightarrow> expand_error + string" where
  "mapRefs s f = (if CHR ''$'' \<notin> set s then Inr s else map_refs f s)"

definition ExpandString :: "string \<Rightarrow> ExpandContext \<Rightarrow> expand_error + string" where
  "ExpandString s ctx = mapRefs s (\<lambda>ref.
     case ctx_lookup ctx ref of Inl e \<Rightarrow> Inl e | Inr None \<Rightarrow> Inl (UnknownReference ref) | Inr (Some v) \<Rightarrow> Inr (Some v))"

text \<open>The variables are expanded in the order of their names; the first that cannot be is the error.\<close>

definition expand_var :: "ExpandContext \<Rightarrow> string \<times> string \<Rightarrow> expand_error + string \<times> string" where
  "expand_var ctx kv = (case ExpandString (snd kv) ctx of Inl e \<Rightarrow> Inl (InVariable (fst kv) e) | Inr x \<Rightarrow> Inr (fst kv, x))"

definition Expand :: "go_vars \<Rightarrow> ExpandContext \<Rightarrow> expand_error + go_vars" where
  "Expand vars ctx = map_result (expand_var ctx) (sort_key fst vars)"

text \<open>Only the secrets, as in a listing of the configuration; what is not a secret or not known stays as it is.\<close>

definition secret_ref :: "string list \<Rightarrow> Secrets \<Rightarrow> string \<Rightarrow> expand_error + string option" where
  "secret_ref deps s ref =
     (case CutPrefix ref ''secrets.'' of
        Some name \<Rightarrow>
          if \<not> varName name then Inr None
          else (case sec_Lookup s of None \<Rightarrow> Inr None | Some f \<Rightarrow> Inr (f name))
      | None \<Rightarrow>
          (case CutPrefix ref ''deps.'' of
             None \<Rightarrow> Inr None
           | Some rest \<Rightarrow>
               (case Cut rest CHR ''.'' of
                  None \<Rightarrow> Inr None
                | Some (name, field) \<Rightarrow>
                    if field \<noteq> ''password'' \<or> name \<notin> set deps then Inr None
                    else (case sec_DepPassword s of None \<Rightarrow> Inr None | Some f \<Rightarrow> Inr (f name)))))"

definition ExpandSecretsOnly :: "string \<Rightarrow> string list \<Rightarrow> Secrets \<Rightarrow> string" where
  "ExpandSecretsOnly s deps sec =
     (if secrets_Empty sec then s else (case mapRefs s (secret_ref deps sec) of Inl _ \<Rightarrow> s | Inr out \<Rightarrow> out))"

definition mapValues :: "go_vars \<Rightarrow> (string \<Rightarrow> string) \<Rightarrow> go_vars" where
  "mapValues vs f = map (\<lambda>(k, v). (k, f v)) vs"

section \<open>A string as tokens\<close>

text \<open>What a string means: bytes, and references. A dollar that is a byte is written twice.\<close>

datatype token = Byte char | Reference string

fun token_text :: "token \<Rightarrow> string" where
  "token_text (Byte c) = (if c = CHR ''$'' then ''$$'' else [c])"
| "token_text (Reference r) = ''${'' @ r @ ''}''"

definition render :: "token list \<Rightarrow> string" where
  "render ts = concat (map token_text ts)"

fun token_value :: "(string \<Rightarrow> expand_error + string option) \<Rightarrow> token \<Rightarrow> expand_error + string" where
  "token_value f (Byte c) = Inr [c]"
| "token_value f (Reference r) = (case f r of Inl e \<Rightarrow> Inl e | Inr None \<Rightarrow> Inr (token_text (Reference r)) | Inr (Some v) \<Rightarrow> Inr v)"

definition tokens_ok :: "token list \<Rightarrow> bool" where
  "tokens_ok ts \<longleftrightarrow> (\<forall>r. Reference r \<in> set ts \<longrightarrow> CHR ''}'' \<notin> set r)"

lemma map_refs_render: "tokens_ok ts \<Longrightarrow> map_refs f (render ts) = map_ok concat (map_result (token_value f) ts)"
proof (induction ts)
  case Nil
  then show ?case by (simp add: render_def map_refs.simps)
next
  case (Cons t ts)
  then have IH: "map_refs f (render ts) = map_ok concat (map_result (token_value f) ts)" by (simp add: tokens_ok_def)
  show ?case
  proof (cases t)
    case (Byte c)
    then show ?thesis using IH
      by (subst map_refs.simps) (cases "map_result (token_value f) ts"; simp add: render_def)
  next
    case (Reference r)
    then have "CHR ''}'' \<notin> set r" using Cons.prems by (simp add: tokens_ok_def)
    then have i: "IndexByte (r @ CHR ''}'' # render ts) CHR ''}'' = Some (length r)" by (rule IndexByte_append)
    have r: "render (t # ts) = CHR ''$'' # CHR ''{'' # r @ CHR ''}'' # render ts" by (simp add: render_def Reference)
    have cut: "take (length r + 3) (CHR ''$'' # CHR ''{'' # r @ CHR ''}'' # render ts) = token_text t"
      "drop (length r + 3) (CHR ''$'' # CHR ''{'' # r @ CHR ''}'' # render ts) = render ts"
      by (simp_all add: numeral_3_eq_3 Reference)
    show ?thesis unfolding r using IH Reference
      by (subst map_refs.simps)
        (cases "map_result (token_value f) ts"; simp add: i cut split: sum.split option.split)
  qed
qed

lemma map_refs_plain: "CHR ''$'' \<notin> set s \<Longrightarrow> map_refs f s = Inr s"
proof (induction s)
  case (Cons c s)
  then show ?case by (subst map_refs.simps) auto
qed (simp add: map_refs.simps)

lemma mapRefs_render: "tokens_ok ts \<Longrightarrow> mapRefs (render ts) f = map_ok concat (map_result (token_value f) ts)"
  using map_refs_render[of ts f] map_refs_plain[of "render ts" f] by (simp add: mapRefs_def)

text \<open>The value of a token in a context.\<close>

fun token_meaning :: "ExpandContext \<Rightarrow> token \<Rightarrow> expand_error + string" where
  "token_meaning ctx (Byte c) = Inr [c]"
| "token_meaning ctx (Reference r) =
     (case ctx_lookup ctx r of Inl e \<Rightarrow> Inl e | Inr None \<Rightarrow> Inl (UnknownReference r) | Inr (Some v) \<Rightarrow> Inr v)"

lemma map_result_cong: "(\<And>x. x \<in> set xs \<Longrightarrow> f x = g x) \<Longrightarrow> map_result f xs = map_result g xs"
  by (induction xs) (auto simp: bind_result_def)

lemma map_result_bytes: "map_result (token_meaning ctx) (map Byte s) = Inr (map (\<lambda>c. [c]) s)"
  by (induction s) auto

text \<open>C16: a string of bytes and references, with every dollar that is a byte written twice, expands to the bytes and the values
  of the references in their order, or to the error of the first reference that has none. Whatever a value contains, it
  is not expanded again, and a text in which every dollar is doubled expands to itself.\<close>

theorem ExpandString_render:
  assumes "tokens_ok ts"
  shows "ExpandString (render ts) ctx = map_ok concat (map_result (token_meaning ctx) ts) \<and>
    ExpandString (ReplaceByte s CHR ''$'' ''$$'') ctx = Inr s"
proof -
  have expand: "ExpandString (render us) ctx = map_ok concat (map_result (token_meaning ctx) us)" if "tokens_ok us" for us
  proof -
    let ?f = "\<lambda>ref. case ctx_lookup ctx ref of Inl e \<Rightarrow> Inl e | Inr None \<Rightarrow> Inl (UnknownReference ref) | Inr (Some v) \<Rightarrow> Inr (Some v)"
    have "token_value ?f t = token_meaning ctx t" for t by (cases t) (auto split: sum.split option.split)
    then have "map_result (token_value ?f) us = map_result (token_meaning ctx) us" by (intro map_result_cong)
    then show ?thesis using mapRefs_render[OF that, of ?f] by (simp add: ExpandString_def)
  qed
  have "render (map Byte s) = ReplaceByte s CHR ''$'' ''$$''" by (induction s) (simp_all add: render_def)
  moreover have "tokens_ok (map Byte s)" by (auto simp: tokens_ok_def)
  moreover have "concat (map (\<lambda>c. [c]) s) = s" by (induction s) auto
  ultimately show ?thesis using expand[OF assms] expand[of "map Byte s"] by (simp add: map_result_bytes)
qed

definition example_context :: ExpandContext where
  "example_context = \<lparr>ec_App = ''shop'', ec_Env = ''main'', ec_Port = 20000, ec_Deps = [(''db'', \<lparr>da_Host = ''127.0.0.1'', da_Port = 20001\<rparr>)],
     ec_Services = [], ec_View = ViewHost, ec_secrets = \<lparr>sec_Lookup = Some [''KEY'' \<mapsto> ''$x''], sec_DepPassword = None\<rparr>\<rparr>"

theorem ExpandString_render_witness:
  "ExpandString ''$$a=${deps.db.host}:${secrets.KEY}'' example_context = Inr ''$a=127.0.0.1:$x'' \<and>
   ExpandString ''$$5'' example_context = Inr ''$5''"
proof -
  let ?ts = "[Byte CHR ''$'', Byte CHR ''a'', Byte CHR ''='', Reference ''deps.db.host'', Byte CHR '':'', Reference ''secrets.KEY'']"
  have ok: "tokens_ok ?ts" by (simp add: tokens_ok_def)
  have "render ?ts = ''$$a=${deps.db.host}:${secrets.KEY}''" "ReplaceByte ''$5'' CHR ''$'' ''$$'' = ''$$5''"
    by (simp_all add: render_def)
  moreover have "varName ''KEY''" "Cut ''db.host'' CHR ''.'' = Some (''db'', ''host'')" by code_simp+
  then have "ctx_lookup example_context ''deps.db.host'' = Inr (Some ''127.0.0.1'')"
    "ctx_lookup example_context ''secrets.KEY'' = Inr (Some ''$x'')"
    by (simp_all add: ctx_lookup_def example_context_def CutPrefix_def HasPrefix_def lookupAddr_def lookupSecret_def)
  ultimately show ?thesis using ExpandString_render[OF ok, of example_context "''$5''"] by simp
qed

end
