(* ===== verification/ConfigKnown.thy ===== *)
theory ConfigKnown
  imports ConfigApp
begin

text \<open>
  The images Caramelo knows the settings of (\<^verbatim>\<open>internal/config/known.go\<close>).
\<close>

record KnownImage =
  ki_Image :: string
  ki_Port :: int
  ki_Ready :: "string list"
  ki_Env :: go_vars
  ki_Data :: string
  ki_PasswordVar :: string

definition ImageName :: "string \<Rightarrow> string" where
  "ImageName ref =
     (let s0 = TrimSpace ref;
          s1 = (case IndexByte s0 CHR ''@'' of Some i \<Rightarrow> take i s0 | None \<Rightarrow> s0);
          s2 = (case LastIndexByte s1 CHR ''/'' of Some i \<Rightarrow> drop (i + 1) s1 | None \<Rightarrow> s1);
          s3 = (case LastIndexByte s2 CHR '':'' of Some i \<Rightarrow> take i s2 | None \<Rightarrow> s2)
      in ToLower s3)"

definition Known :: "KnownImage list" where
  "Known =
    [\<lparr>ki_Image = ''postgres'', ki_Port = 5432, ki_Ready = [''pg_isready'', ''-U'', ''postgres''],
      ki_Env = [(''POSTGRES_PASSWORD'', ''caramelo'')], ki_Data = ''/var/lib/postgresql/data'', ki_PasswordVar = ''POSTGRES_PASSWORD''\<rparr>,
     \<lparr>ki_Image = ''redis'', ki_Port = 6379, ki_Ready = [''redis-cli'', ''ping''], ki_Env = [], ki_Data = ''/data'', ki_PasswordVar = []\<rparr>,
     \<lparr>ki_Image = ''mysql'', ki_Port = 3306, ki_Ready = [''mysqladmin'', ''ping''],
      ki_Env = [(''MYSQL_ROOT_PASSWORD'', ''caramelo'')], ki_Data = ''/var/lib/mysql'', ki_PasswordVar = ''MYSQL_ROOT_PASSWORD''\<rparr>,
     \<lparr>ki_Image = ''mariadb'', ki_Port = 3306, ki_Ready = [''mysqladmin'', ''ping''],
      ki_Env = [(''MYSQL_ROOT_PASSWORD'', ''caramelo'')], ki_Data = ''/var/lib/mysql'', ki_PasswordVar = ''MYSQL_ROOT_PASSWORD''\<rparr>,
     \<lparr>ki_Image = ''mongo'', ki_Port = 27017, ki_Ready = [''mongosh'', ''--eval'', ''db.runCommand('' @ [CHR 39] @ ''ping'' @ [CHR 39] @ '')''],
      ki_Env = [], ki_Data = ''/data/db'', ki_PasswordVar = []\<rparr>,
     \<lparr>ki_Image = ''rabbitmq'', ki_Port = 5672, ki_Ready = [''rabbitmq-diagnostics'', ''check_port_connectivity''], ki_Env = [],
      ki_Data = ''/var/lib/rabbitmq'', ki_PasswordVar = []\<rparr>]"

definition known_Lookup :: "string \<Rightarrow> KnownImage option" where
  "known_Lookup ref = (let name = ImageName ref in if name = [] then None else find (\<lambda>k. ki_Image k = name) Known)"

end
