(* ===== verification/ConfigParse.thy ===== *)
theory ConfigParse
  imports ConfigDeploy ConfigExpand ConfigKnown
begin

text \<open>
  Reading \<^verbatim>\<open>caramelo.yaml\<close> (\<^verbatim>\<open>parse\<close> of \<^verbatim>\<open>internal/config/config.go\<close> and the readers it calls in \<^verbatim>\<open>service.go\<close>, \<^verbatim>\<open>deploy.go\<close>, \<^verbatim>\<open>edge.go\<close>
  and \<^verbatim>\<open>fleet.go\<close>) and checking what was read (\<^verbatim>\<open>Validate\<close>). Decoding YAML is a third-party library's work and an argument
  here: the code sees a tree of nodes with a kind, a tag, a value and children, of which a mapping has keys and values
  in turn. A setting that is written twice takes its last value.
\<close>

section \<open>Nodes\<close>

datatype yaml_kind = NoKind | DocumentNode | SequenceNode | MappingNode | ScalarNode | AliasNode

datatype yaml_node = Node (yn_Kind: yaml_kind) (yn_Tag: string) (yn_Value: string) (yn_Content: "yaml_node list")

definition nullTag :: string where
  "nullTag = ''!!null''"

fun yaml_pairs :: "'a list \<Rightarrow> ('a \<times> 'a) list" where
  "yaml_pairs (k # v # rest) = (k, v) # yaml_pairs rest"
| "yaml_pairs _ = []"

definition yaml_null :: "yaml_node \<Rightarrow> bool" where
  "yaml_null n \<longleftrightarrow> yn_Kind n = ScalarNode \<and> yn_Tag n = nullTag"

datatype file_error =
    FileKey string file_error | NotYAML string | ReservedKeyError string | UnknownKey string
  | MustBeMapping | MustBeString | MustBeNumber string | MustBeArguments | MustBeBuild | MustBeHealth | MustBeHosts | MustNotBeEmpty
  | ImageRequired | PortRequired string | PortRange int | PortOrNone | UnknownProtocol string | NotAPath | NotADuration string
  | NegativeDuration string | ReplicasOut int | KeepOut int | NotCPUs string | DuplicateName string | ServicesTwice "string list"
  | BadMachineName string | Deploying deploy_error | Edging config_error | Expanding expand_error
  | BadAppName string | NeedsName | BadName string | EmptyArgument | NotAbsolute string | AlsoDependency string | ImageAndBuild
  | ImageDash string | NotAnImage string | InstallAndBuild | NoContext | NotRelative string | Escapes string
  | HealthBoth | HealthNothing | HealthNoPort | HealthUDP | BadVarName string

definition in_key :: "string \<Rightarrow> file_error + 'a \<Rightarrow> file_error + 'a" where
  "in_key key r = (case r of Inl e \<Rightarrow> Inl (FileKey key e) | Inr x \<Rightarrow> Inr x)"

abbreviation (input) keyErr :: "string \<Rightarrow> file_error \<Rightarrow> file_error + 'a" where
  "keyErr key e \<equiv> Inl (FileKey key e)"

definition scalarString :: "yaml_node \<Rightarrow> string \<Rightarrow> file_error + string" where
  "scalarString n key =
     (if yn_Kind n \<noteq> ScalarNode then keyErr key MustBeString else if yn_Tag n = nullTag then Inr [] else Inr (yn_Value n))"

definition scalarInt :: "yaml_node \<Rightarrow> string \<Rightarrow> file_error + int" where
  "scalarInt n key =
     (if yn_Kind n \<noteq> ScalarNode \<or> yn_Tag n = nullTag then keyErr key (MustBeNumber [])
      else (case Atoi (TrimSpace (yn_Value n)) of None \<Rightarrow> keyErr key (MustBeNumber (yn_Value n)) | Some i \<Rightarrow> Inr i))"

definition requiredText :: "yaml_node \<Rightarrow> string \<Rightarrow> file_error + string" where
  "requiredText n key = bind_result (scalarString n key) (\<lambda>s. if TrimSpace s = [] then keyErr key MustNotBeEmpty else Inr s)"

section \<open>Variables, arguments and durations\<close>

definition set_var :: "string \<Rightarrow> yaml_node \<times> yaml_node \<Rightarrow> go_vars \<Rightarrow> file_error + go_vars" where
  "set_var key kv vars =
     (case kv of (k, v) \<Rightarrow>
        if yn_Kind v \<noteq> ScalarNode then keyErr (key @ ''.'' @ yn_Value k) MustBeString
        else Inr (AList.update (yn_Value k) (if yn_Tag v = nullTag then [] else yn_Value v) vars))"

definition parseVars :: "yaml_node \<Rightarrow> string \<Rightarrow> file_error + go_vars" where
  "parseVars n key =
     (if yaml_null n then Inr []
      else if yn_Kind n \<noteq> MappingNode then keyErr key MustBeMapping
      else fold_result (set_var key) (yaml_pairs (yn_Content n)) [])"

definition scalar_item :: "string \<Rightarrow> file_error \<Rightarrow> yaml_node \<Rightarrow> file_error + string" where
  "scalar_item key e n = (if yn_Kind n \<noteq> ScalarNode \<or> yn_Tag n = nullTag then keyErr key e else Inr (yn_Value n))"

definition parseReady :: "yaml_node \<Rightarrow> string \<Rightarrow> file_error + string list" where
  "parseReady n key =
     (if yaml_null n then Inr []
      else if yn_Kind n \<noteq> SequenceNode then keyErr key MustBeArguments
      else map_result (scalar_item key MustBeArguments) (yn_Content n))"

definition parseDuration :: "yaml_node \<Rightarrow> string \<Rightarrow> file_error + duration" where
  "parseDuration n key = bind_result (scalarString n key) (\<lambda>s0.
     let s = TrimSpace s0
     in if s = [] then Inr 0
        else (case ParseDuration s of
                None \<Rightarrow> keyErr key (NotADuration s)
              | Some d \<Rightarrow> if d < 0 then keyErr key (NegativeDuration s) else Inr d))"

definition parseDrain :: "yaml_node \<Rightarrow> string \<Rightarrow> file_error + duration" where
  "parseDrain n key = parseDuration n key"

section \<open>Dependencies\<close>

definition empty_dep :: "string \<Rightarrow> Dep" where
  "empty_dep name = \<lparr>dep_Name = name, dep_Image = [], dep_Port = 0, dep_Env = [], dep_Ready = [], dep_Data = []\<rparr>"

text \<open>A dependency being read, with which of its settings the file has.\<close>

record dep_reading =
  dr_dep :: Dep
  dr_port :: bool
  dr_ready :: bool
  dr_data :: bool

definition dep_field :: "string \<Rightarrow> yaml_node \<times> yaml_node \<Rightarrow> dep_reading \<Rightarrow> file_error + dep_reading" where
  "dep_field key kv r =
     (case kv of (fk, fv) \<Rightarrow>
        let field = key @ ''.'' @ yn_Value fk; d = dr_dep r
        in if yn_Value fk = ''image'' then map_ok (\<lambda>x. r\<lparr>dr_dep := d\<lparr>dep_Image := x\<rparr>\<rparr>) (scalarString fv field)
           else if yn_Value fk = ''port'' then map_ok (\<lambda>x. r\<lparr>dr_dep := d\<lparr>dep_Port := x\<rparr>, dr_port := True\<rparr>) (scalarInt fv field)
           else if yn_Value fk = ''env'' then map_ok (\<lambda>x. r\<lparr>dr_dep := d\<lparr>dep_Env := x\<rparr>\<rparr>) (parseVars fv field)
           else if yn_Value fk = ''ready'' then map_ok (\<lambda>x. r\<lparr>dr_dep := d\<lparr>dep_Ready := x\<rparr>, dr_ready := True\<rparr>) (parseReady fv field)
           else if yn_Value fk = ''data'' then map_ok (\<lambda>x. r\<lparr>dr_dep := d\<lparr>dep_Data := x\<rparr>, dr_data := True\<rparr>) (scalarString fv field)
           else keyErr key (UnknownKey (yn_Value fk)))"

definition mergeVars :: "go_vars \<Rightarrow> go_vars \<Rightarrow> go_vars" where
  "mergeVars base over = fold (\<lambda>(k, v) m. AList.update k v m) over base"

definition known_settings :: "dep_reading \<Rightarrow> KnownImage option \<Rightarrow> Dep" where
  "known_settings r known =
     (let d = dr_dep r
      in case known of
           None \<Rightarrow> d
         | Some k \<Rightarrow> d\<lparr>dep_Port := (if dr_port r then dep_Port d else ki_Port k), dep_Ready := (if dr_ready r then dep_Ready d else ki_Ready k),
                       dep_Data := (if dr_data r then dep_Data d else ki_Data k), dep_Env := mergeVars (ki_Env k) (dep_Env d)\<rparr>)"

definition parseDep :: "string \<Rightarrow> yaml_node \<Rightarrow> file_error + Dep" where
  "parseDep name n =
     (let key = ''deps.'' @ name;
          start = \<lparr>dr_dep = empty_dep name, dr_port = False, dr_ready = False, dr_data = False\<rparr>
      in bind_result
           (if yn_Kind n = ScalarNode \<and> yn_Tag n \<noteq> nullTag then Inr (start\<lparr>dr_dep := (empty_dep name)\<lparr>dep_Image := yn_Value n\<rparr>\<rparr>)
            else if yn_Kind n = MappingNode then fold_result (dep_field key) (yaml_pairs (yn_Content n)) start
            else keyErr key MustBeMapping) (\<lambda>r.
         if dep_Image (dr_dep r) = [] then keyErr key ImageRequired
         else (let d = known_settings r (known_Lookup (dep_Image (dr_dep r)))
               in if dep_Port d = 0 then keyErr key (PortRequired (dep_Image d)) else Inr d)))"

definition parseDeps :: "yaml_node \<Rightarrow> file_error + Dep list" where
  "parseDeps n =
     (if yaml_null n then Inr []
      else if yn_Kind n \<noteq> MappingNode then keyErr ''deps'' MustBeMapping
      else map_result (\<lambda>(k, v). parseDep (yn_Value k) v) (yaml_pairs (yn_Content n)))"

section \<open>Services\<close>

definition ParseProtocol :: "string \<Rightarrow> file_error + Protocol" where
  "ParseProtocol s =
     (if s = [] \<or> s = ''tcp'' then Inr ProtocolTCP else if s = ''udp'' then Inr ProtocolUDP else keyErr ''protocol'' (UnknownProtocol s))"

definition protocol_text :: "Protocol \<Rightarrow> string" where
  "protocol_text p = (case p of ProtocolTCP \<Rightarrow> ''tcp'' | ProtocolUDP \<Rightarrow> ''udp'' | OtherProtocol s \<Rightarrow> s)"

definition empty_service :: Service where
  "empty_service = \<lparr>svc_Name = [], svc_Image = [], svc_Build = None, svc_Install = [], svc_Run = [], svc_Port = 0,
     svc_Protocol = OtherProtocol [], svc_Health = None, svc_Env = [], svc_ReplicaCount = 0, svc_Expose = ExposeUnset, svc_Drain = 0,
     svc_Resources = None\<rparr>"

definition build_field :: "string \<Rightarrow> yaml_node \<times> yaml_node \<Rightarrow> Build \<Rightarrow> file_error + Build" where
  "build_field key kv b =
     (case kv of (fk, fv) \<Rightarrow>
        let field = key @ ''.'' @ yn_Value fk
        in if yn_Value fk = ''context'' then map_ok (\<lambda>x. b\<lparr>bd_Context := x\<rparr>) (requiredText fv field)
           else if yn_Value fk = ''dockerfile'' then map_ok (\<lambda>x. b\<lparr>bd_Dockerfile := x\<rparr>) (requiredText fv field)
           else keyErr key (UnknownKey (yn_Value fk)))"

definition parseBuild :: "yaml_node \<Rightarrow> string \<Rightarrow> file_error + Build option" where
  "parseBuild n key =
     (if yn_Kind n = ScalarNode \<and> yn_Tag n \<noteq> nullTag then
        (if TrimSpace (yn_Value n) = [] then keyErr key MustNotBeEmpty else Inr (Some \<lparr>bd_Context = yn_Value n, bd_Dockerfile = []\<rparr>))
      else if yn_Kind n = MappingNode then
        map_ok Some (fold_result (build_field key) (yaml_pairs (yn_Content n)) \<lparr>bd_Context = [], bd_Dockerfile = []\<rparr>)
      else keyErr key MustBeBuild)"

definition parsePort :: "yaml_node \<Rightarrow> string \<Rightarrow> file_error + int" where
  "parsePort n key =
     (if yn_Kind n = ScalarNode \<and> TrimSpace (yn_Value n) = ''none'' then Inr PortNone
      else (case scalarInt n key of
              Inl _ \<Rightarrow> keyErr key PortOrNone
            | Inr p \<Rightarrow> if p < 1 \<or> p > 65535 then keyErr key (PortRange p) else Inr p))"

definition parseProtocolNode :: "yaml_node \<Rightarrow> string \<Rightarrow> file_error + Protocol" where
  "parseProtocolNode n key = bind_result (scalarString n key) (\<lambda>s.
     case ParseProtocol s of Inl _ \<Rightarrow> keyErr key (UnknownProtocol s) | Inr p \<Rightarrow> Inr p)"

definition parseHealth :: "yaml_node \<Rightarrow> string \<Rightarrow> file_error + Health option" where
  "parseHealth n key =
     (if yaml_null n then Inr None
      else if yn_Kind n = ScalarNode then
        (if \<not> HasPrefix (yn_Value n) ''/'' then keyErr key NotAPath else Inr (Some \<lparr>hl_Path = yn_Value n, hl_Command = []\<rparr>))
      else if yn_Kind n = SequenceNode then
        (case parseReady n key of
           Inl _ \<Rightarrow> keyErr key MustBeHealth
         | Inr argv \<Rightarrow> if argv = [] then keyErr key MustNotBeEmpty else Inr (Some \<lparr>hl_Path = [], hl_Command = argv\<rparr>))
      else keyErr key MustBeHealth)"

definition parseReplicas :: "yaml_node \<Rightarrow> string \<Rightarrow> file_error + int" where
  "parseReplicas n key = bind_result (scalarInt n key) (\<lambda>i. if i < 1 \<or> i > MaxReplicas then keyErr key (ReplicasOut i) else Inr i)"

definition parseExposeNode :: "yaml_node \<Rightarrow> string \<Rightarrow> file_error + Expose" where
  "parseExposeNode n key = bind_result (scalarString n key) (\<lambda>s.
     case ParseExpose s of Inl e \<Rightarrow> keyErr key (Edging e) | Inr e \<Rightarrow> Inr e)"

definition resource_field :: "(float64 \<Rightarrow> int) \<Rightarrow> string \<Rightarrow> yaml_node \<times> yaml_node \<Rightarrow> Resources \<Rightarrow> file_error + Resources" where
  "resource_field big key kv r =
     (case kv of (k, v) \<Rightarrow>
        let field = key @ ''.'' @ yn_Value k
        in if yn_Value k = ''memory'' then
             bind_result (scalarString v field) (\<lambda>s.
               case ParseMemory big s of Inl e \<Rightarrow> keyErr field (Deploying e) | Inr b \<Rightarrow> Inr (r\<lparr>rs_Memory := b\<rparr>))
           else if yn_Value k = ''cpu'' then
             bind_result (scalarString v field) (\<lambda>s.
               case ParseFloat (TrimSpace s) of None \<Rightarrow> keyErr field (NotCPUs s) | Some c \<Rightarrow> Inr (r\<lparr>rs_CPU := c\<rparr>))
           else keyErr key (UnknownKey (yn_Value k)))"

definition parseResources :: "(float64 \<Rightarrow> int) \<Rightarrow> yaml_node \<Rightarrow> string \<Rightarrow> file_error + Resources option" where
  "parseResources big n key =
     (if yaml_null n then Inr None
      else if yn_Kind n \<noteq> MappingNode then keyErr key MustBeMapping
      else map_ok (\<lambda>r. if resources_Empty r then None else Some r)
             (fold_result (resource_field big key) (yaml_pairs (yn_Content n)) \<lparr>rs_Memory = 0, rs_CPU = Finite 0\<rparr>))"

definition service_field :: "(float64 \<Rightarrow> int) \<Rightarrow> string \<Rightarrow> yaml_node \<times> yaml_node \<Rightarrow> Service \<Rightarrow> file_error + Service" where
  "service_field big key kv s =
     (case kv of (fk, fv) \<Rightarrow>
        let field = key @ ''.'' @ yn_Value fk
        in if yn_Value fk = ''image'' then map_ok (\<lambda>x. s\<lparr>svc_Image := x\<rparr>) (requiredText fv field)
           else if yn_Value fk = ''build'' then map_ok (\<lambda>x. s\<lparr>svc_Build := x\<rparr>) (parseBuild fv field)
           else if yn_Value fk = ''install'' then map_ok (\<lambda>x. s\<lparr>svc_Install := x\<rparr>) (requiredText fv field)
           else if yn_Value fk = ''run'' then map_ok (\<lambda>x. s\<lparr>svc_Run := x\<rparr>) (requiredText fv field)
           else if yn_Value fk = ''port'' then map_ok (\<lambda>x. s\<lparr>svc_Port := x\<rparr>) (parsePort fv field)
           else if yn_Value fk = ''protocol'' then map_ok (\<lambda>x. s\<lparr>svc_Protocol := x\<rparr>) (parseProtocolNode fv field)
           else if yn_Value fk = ''health'' then map_ok (\<lambda>x. s\<lparr>svc_Health := x\<rparr>) (parseHealth fv field)
           else if yn_Value fk = ''env'' then map_ok (\<lambda>x. s\<lparr>svc_Env := x\<rparr>) (parseVars fv field)
           else if yn_Value fk = ''replicas'' then map_ok (\<lambda>x. s\<lparr>svc_ReplicaCount := x\<rparr>) (parseReplicas fv field)
           else if yn_Value fk = ''expose'' then map_ok (\<lambda>x. s\<lparr>svc_Expose := x\<rparr>) (parseExposeNode fv field)
           else if yn_Value fk = ''drain'' then map_ok (\<lambda>x. s\<lparr>svc_Drain := x\<rparr>) (parseDrain fv field)
           else if yn_Value fk = ''resources'' then map_ok (\<lambda>x. s\<lparr>svc_Resources := x\<rparr>) (parseResources big fv field)
           else keyErr key (UnknownKey (yn_Value fk)))"

definition parseService :: "(float64 \<Rightarrow> int) \<Rightarrow> string \<Rightarrow> yaml_node \<Rightarrow> file_error + Service" where
  "parseService big name n =
     (let key = ''services.'' @ name
      in if yn_Kind n \<noteq> MappingNode then keyErr key MustBeMapping
         else fold_result (service_field big key) (yaml_pairs (yn_Content n)) (empty_service\<lparr>svc_Name := name\<rparr>))"

definition parseServices :: "(float64 \<Rightarrow> int) \<Rightarrow> yaml_node \<Rightarrow> file_error + Service list" where
  "parseServices big n =
     (if yaml_null n then Inr []
      else if yn_Kind n \<noteq> MappingNode then keyErr ''services'' MustBeMapping
      else map_result (\<lambda>(k, v). parseService big (yn_Value k) v) (yaml_pairs (yn_Content n)))"

section \<open>Deploys and environments\<close>

definition parsePercentNode :: "yaml_node \<Rightarrow> string \<Rightarrow> file_error + string" where
  "parsePercentNode n key = bind_result (scalarString n key) (\<lambda>s0.
     let s = TrimSpace s0
     in if s = [] then Inr [] else (case ParseMaxErrors s of Inl e \<Rightarrow> keyErr key (Deploying e) | Inr _ \<Rightarrow> Inr s))"

definition parsePromoteNode :: "yaml_node \<Rightarrow> string \<Rightarrow> file_error + string" where
  "parsePromoteNode n key = bind_result (scalarString n key) (\<lambda>s.
     case ParsePromote s of Inl e \<Rightarrow> keyErr key (Deploying e) | Inr p \<Rightarrow> Inr p)"

definition parseKeep :: "yaml_node \<Rightarrow> string \<Rightarrow> file_error + int" where
  "parseKeep n key = bind_result (scalarInt n key) (\<lambda>i. if i < 1 \<or> i > MaxKeep then keyErr key (KeepOut i) else Inr i)"

definition deploy_field :: "string \<Rightarrow> yaml_node \<times> yaml_node \<Rightarrow> Deploy \<Rightarrow> file_error + Deploy" where
  "deploy_field key kv d =
     (case kv of (k, v) \<Rightarrow>
        let field = key @ ''.'' @ yn_Value k
        in if yn_Value k = ''before'' then map_ok (\<lambda>x. d\<lparr>dy_Before := x\<rparr>) (requiredText v field)
           else if yn_Value k = ''check'' then map_ok (\<lambda>x. d\<lparr>dy_Check := x\<rparr>) (requiredText v field)
           else if yn_Value k = ''watch'' then map_ok (\<lambda>x. d\<lparr>dy_Watch := x\<rparr>) (parseDuration v field)
           else if yn_Value k = ''max_errors'' then map_ok (\<lambda>x. d\<lparr>dy_MaxErrors := x\<rparr>) (parsePercentNode v field)
           else if yn_Value k = ''promote'' then map_ok (\<lambda>x. d\<lparr>dy_Promote := x\<rparr>) (parsePromoteNode v field)
           else if yn_Value k = ''keep'' then map_ok (\<lambda>x. d\<lparr>dy_Keep := x\<rparr>) (parseKeep v field)
           else keyErr key (UnknownKey (yn_Value k)))"

definition parseDeploy :: "yaml_node \<Rightarrow> string \<Rightarrow> file_error + Deploy option" where
  "parseDeploy n key =
     (if yaml_null n then Inr None
      else if yn_Kind n \<noteq> MappingNode then keyErr key MustBeMapping
      else map_ok Some (fold_result (deploy_field key) (yaml_pairs (yn_Content n)) no_deploy))"

definition host_item :: "string \<Rightarrow> yaml_node \<Rightarrow> file_error + string" where
  "host_item key n = bind_result (scalar_item key MustBeHosts n) (\<lambda>v.
     let host = TrimSpace v in case ValidateHostname host of Inl e \<Rightarrow> keyErr key (Edging e) | Inr _ \<Rightarrow> Inr host)"

definition parseHosts :: "yaml_node \<Rightarrow> string \<Rightarrow> file_error + string list" where
  "parseHosts n key =
     (if yaml_null n then Inr []
      else if yn_Kind n \<noteq> SequenceNode then keyErr key MustBeHosts
      else map_result (host_item key) (yn_Content n))"

definition parseMachineNode :: "yaml_node \<Rightarrow> string \<Rightarrow> file_error + string" where
  "parseMachineNode n key = bind_result (scalarString n key) (\<lambda>s.
     let name = TrimSpace s in if name \<noteq> [] \<and> \<not> ValidSlug name then keyErr key (BadMachineName name) else Inr name)"

definition parseViaNode :: "yaml_node \<Rightarrow> string \<Rightarrow> file_error + string" where
  "parseViaNode n key = bind_result (scalarString n key) (\<lambda>s.
     case ParseVia s of Inl e \<Rightarrow> keyErr key (Deploying e) | Inr v \<Rightarrow> Inr v)"

definition parsePlacementNode :: "yaml_node \<Rightarrow> string \<Rightarrow> file_error + string" where
  "parsePlacementNode n key = bind_result (scalarString n key) (\<lambda>s.
     case ParsePlacement s of Inl e \<Rightarrow> keyErr key (Deploying e) | Inr v \<Rightarrow> Inr v)"

definition override_field :: "(float64 \<Rightarrow> int) \<Rightarrow> string \<Rightarrow> yaml_node \<times> yaml_node \<Rightarrow> ServiceOverride \<Rightarrow> file_error + ServiceOverride" where
  "override_field big key kv so =
     (case kv of (k, v) \<Rightarrow>
        let field = key @ ''.'' @ yn_Value k
        in if yn_Value k = ''replicas'' then map_ok (\<lambda>x. so\<lparr>so_Replicas := x\<rparr>) (parseReplicas v field)
           else if yn_Value k = ''resources'' then map_ok (\<lambda>x. so\<lparr>so_Resources := x\<rparr>) (parseResources big v field)
           else keyErr key (UnknownKey (yn_Value k)))"

definition parseServiceOverride :: "(float64 \<Rightarrow> int) \<Rightarrow> yaml_node \<Rightarrow> string \<Rightarrow> file_error + ServiceOverride" where
  "parseServiceOverride big n key =
     (let none = \<lparr>so_Replicas = 0, so_Resources = None\<rparr>
      in if yaml_null n then Inr none
         else if yn_Kind n \<noteq> MappingNode then keyErr key MustBeMapping
         else fold_result (override_field big key) (yaml_pairs (yn_Content n)) none)"

text \<open>A mapping of names to settings, each name once.\<close>

definition named_entry :: "string \<Rightarrow> (string \<Rightarrow> yaml_node \<Rightarrow> file_error + 'a) \<Rightarrow> yaml_node \<times> yaml_node \<Rightarrow> (string \<times> 'a) list \<Rightarrow>
    file_error + (string \<times> 'a) list" where
  "named_entry key read kv out =
     (case kv of (k, v) \<Rightarrow>
        if yn_Value k \<in> set (map fst out) then keyErr key (DuplicateName (yn_Value k))
        else map_ok (\<lambda>x. out @ [(yn_Value k, x)]) (read (yn_Value k) v))"

definition parseServiceOverrides :: "(float64 \<Rightarrow> int) \<Rightarrow> yaml_node \<Rightarrow> string \<Rightarrow> file_error + (string \<times> ServiceOverride) list" where
  "parseServiceOverrides big n key =
     (if yaml_null n then Inr []
      else if yn_Kind n \<noteq> MappingNode then keyErr key MustBeMapping
      else fold_result (named_entry key (\<lambda>name v. parseServiceOverride big v (key @ ''.'' @ name))) (yaml_pairs (yn_Content n)) [])"

definition no_override :: EnvOverride where
  "no_override = \<lparr>ov_Hosts = [], ov_Services = [], ov_Deploy = None, ov_Machine = [], ov_Via = []\<rparr>"

definition env_field :: "(float64 \<Rightarrow> int) \<Rightarrow> string \<Rightarrow> yaml_node \<times> yaml_node \<Rightarrow> EnvOverride \<Rightarrow> file_error + EnvOverride" where
  "env_field big key kv ov =
     (case kv of (k, v) \<Rightarrow>
        let field = key @ ''.'' @ yn_Value k
        in if yn_Value k = ''hosts'' then map_ok (\<lambda>x. ov\<lparr>ov_Hosts := x\<rparr>) (parseHosts v field)
           else if yn_Value k = ''services'' then map_ok (\<lambda>x. ov\<lparr>ov_Services := x\<rparr>) (parseServiceOverrides big v field)
           else if yn_Value k = ''deploy'' then map_ok (\<lambda>x. ov\<lparr>ov_Deploy := x\<rparr>) (parseDeploy v field)
           else if yn_Value k = ''machine'' then map_ok (\<lambda>x. ov\<lparr>ov_Machine := x\<rparr>) (parseMachineNode v field)
           else if yn_Value k = ''via'' then map_ok (\<lambda>x. ov\<lparr>ov_Via := x\<rparr>) (parseViaNode v field)
           else keyErr key (UnknownKey (yn_Value k)))"

definition parseEnvOverride :: "(float64 \<Rightarrow> int) \<Rightarrow> string \<Rightarrow> yaml_node \<Rightarrow> file_error + EnvOverride" where
  "parseEnvOverride big name n =
     (let key = ''envs.'' @ name
      in if yaml_null n then Inr no_override
         else if yn_Kind n \<noteq> MappingNode then keyErr key MustBeMapping
         else fold_result (env_field big key) (yaml_pairs (yn_Content n)) no_override)"

definition parseEnvs :: "(float64 \<Rightarrow> int) \<Rightarrow> yaml_node \<Rightarrow> file_error + (string \<times> EnvOverride) list" where
  "parseEnvs big n =
     (if yaml_null n then Inr []
      else if yn_Kind n \<noteq> MappingNode then keyErr ''envs'' MustBeMapping
      else fold_result (named_entry ''envs'' (parseEnvOverride big)) (yaml_pairs (yn_Content n)) [])"

section \<open>Checking\<close>

definition validateVars :: "App \<Rightarrow> string \<Rightarrow> go_vars \<Rightarrow> file_error + unit" where
  "validateVars a key vars =
     (let ctx = \<lparr>ec_App = app_Name a, ec_Env = ''env'', ec_Port = 0,
            ec_Deps = map (\<lambda>d. (dep_Name d, \<lparr>da_Host = [], da_Port = 0\<rparr>)) (app_Deps a),
            ec_Services = map (\<lambda>s. (svc_Name s, \<lparr>da_Host = [], da_Port = 0\<rparr>)) (app_Services a),
            ec_View = ViewUnset, ec_secrets = \<lparr>sec_Lookup = None, sec_DepPassword = None\<rparr>\<rparr>
      in each_ok (\<lambda>(name, v).
           if \<not> varName name then keyErr key (BadVarName name)
           else (case ExpandString v ctx of Inl e \<Rightarrow> keyErr (key @ ''.'' @ name) (Expanding e) | Inr _ \<Rightarrow> Inr ())) (sort_key fst vars))"

definition validate_dep :: "App \<Rightarrow> Dep \<Rightarrow> file_error + unit" where
  "validate_dep a d =
     (let key = ''deps.'' @ dep_Name d
      in if TrimSpace (dep_Image d) = [] then keyErr key ImageRequired
         else if dep_Port d < 1 \<or> dep_Port d > 65535 then keyErr (key @ ''.port'') (PortRange (dep_Port d))
         else if [] \<in> set (dep_Ready d) then keyErr (key @ ''.ready'') EmptyArgument
         else if dep_Data d \<noteq> [] \<and> \<not> HasPrefix (dep_Data d) ''/'' then keyErr (key @ ''.data'') (NotAbsolute (dep_Data d))
         else validateVars a (key @ ''.env'') (dep_Env d))"

fun validate_deps :: "App \<Rightarrow> string list \<Rightarrow> Dep list \<Rightarrow> file_error + unit" where
  "validate_deps a seen [] = Inr ()"
| "validate_deps a seen (d # ds) =
     (if dep_Name d = [] then keyErr ''deps'' NeedsName
      else if \<not> ValidSlug (dep_Name d) then keyErr ''deps'' (BadName (dep_Name d))
      else if dep_Name d \<in> set seen then keyErr ''deps'' (DuplicateName (dep_Name d))
      else bind_result (validate_dep a d) (\<lambda>_. validate_deps a (dep_Name d # seen) ds))"

text \<open>The characters an image reference does not have: blanks and control characters, and those a shell gives a meaning.\<close>

definition validateImage :: "string \<Rightarrow> string \<Rightarrow> file_error + unit" where
  "validateImage key img =
     (if img = [] then Inr ()
      else if HasPrefix img ''-'' then keyErr (key @ ''.image'') (ImageDash img)
      else if list_ex (\<lambda>c. c \<le> CHR '' '' \<or> c = CHR 0x7F \<or> c \<in> set (CHR 34 # CHR 39 # CHR 92 # CHR 96 # ''$&|;<>(){}[]*?!'')) img
      then keyErr (key @ ''.image'') (NotAnImage img)
      else Inr ())"

text \<open>\<^verbatim>\<open>filepath.Clean\<close> of a relative path goes above the directory it starts from: some prefix of its elements has more \<open>..\<close> than names.\<close>

fun climbs :: "int \<Rightarrow> string list \<Rightarrow> bool" where
  "climbs depth [] \<longleftrightarrow> False"
| "climbs depth (e # es) \<longleftrightarrow>
     (if e = [] \<or> e = ''.'' then climbs depth es
      else if e = ''..'' then depth = 0 \<or> climbs (depth - 1) es
      else climbs (depth + 1) es)"

definition escapes :: "string \<Rightarrow> bool" where
  "escapes p \<longleftrightarrow> climbs 0 (SplitByte p CHR ''/'')"

definition validateBuild :: "string \<Rightarrow> Build option \<Rightarrow> file_error + unit" where
  "validateBuild key b0 =
     (case b0 of
        None \<Rightarrow> Inr ()
      | Some b \<Rightarrow>
          if TrimSpace (bd_Context b) = [] then keyErr (key @ ''.build.context'') NoContext
          else each_ok (\<lambda>(name, v).
                 if v = [] then Inr ()
                 else if HasPrefix v ''/'' then keyErr (key @ ''.build.'' @ name) (NotRelative v)
                 else if escapes v then keyErr (key @ ''.build.'' @ name) (Escapes v)
                 else Inr ()) [(''context'', bd_Context b), (''dockerfile'', bd_Dockerfile b)])"

definition validateHealth :: "string \<Rightarrow> Service \<Rightarrow> file_error + unit" where
  "validateHealth key s =
     (case svc_Health s of
        None \<Rightarrow> Inr ()
      | Some h \<Rightarrow>
          (let k = key @ ''.health''
           in if hl_Path h \<noteq> [] \<and> hl_Command h \<noteq> [] then keyErr k HealthBoth
              else if hl_Path h = [] \<and> hl_Command h = [] then keyErr k HealthNothing
              else if hl_Path h \<noteq> [] then
                (if \<not> HasPrefix (hl_Path h) ''/'' then keyErr k NotAPath
                 else if \<not> HasPort s then keyErr k HealthNoPort
                 else if svc_Protocol s = ProtocolUDP then keyErr k HealthUDP
                 else Inr ())
              else if [] \<in> set (hl_Command h) then keyErr k EmptyArgument
              else Inr ()))"

definition validate_one_service :: "App \<Rightarrow> Service \<Rightarrow> file_error + unit" where
  "validate_one_service a s =
     (let key = ''services.'' @ svc_Name s
      in if svc_Name s \<in> set (map dep_Name (app_Deps a)) then keyErr key (AlsoDependency (svc_Name s))
         else if svc_Image s \<noteq> [] \<and> svc_Build s \<noteq> None then keyErr key ImageAndBuild
         else bind_result (validateImage key (svc_Image s)) (\<lambda>_.
           if svc_Build s \<noteq> None \<and> TrimSpace (svc_Install s) \<noteq> [] then keyErr key InstallAndBuild
           else bind_result (validateBuild key (svc_Build s)) (\<lambda>_.
             if svc_Port s \<noteq> PortNone \<and> (svc_Port s < 0 \<or> svc_Port s > 65535) then keyErr (key @ ''.port'') (PortRange (svc_Port s))
             else (case ParseProtocol (protocol_text (svc_Protocol s)) of
                     Inl _ \<Rightarrow> keyErr (key @ ''.protocol'') (UnknownProtocol (protocol_text (svc_Protocol s)))
                   | Inr _ \<Rightarrow> bind_result (validateHealth key s) (\<lambda>_. validateVars a (key @ ''.env'') (svc_Env s))))))"

fun validate_services :: "App \<Rightarrow> string list \<Rightarrow> Service list \<Rightarrow> file_error + unit" where
  "validate_services a seen [] = Inr ()"
| "validate_services a seen (s # ss) =
     (if svc_Name s = [] then keyErr ''services'' NeedsName
      else if \<not> ValidSlug (svc_Name s) then keyErr ''services'' (BadName (svc_Name s))
      else if svc_Name s \<in> set seen then keyErr ''services'' (DuplicateName (svc_Name s))
      else bind_result (validate_one_service a s) (\<lambda>_. validate_services a (svc_Name s # seen) ss))"

definition validateServices :: "App \<Rightarrow> file_error + unit" where
  "validateServices a = validate_services a [] (app_Services a)"

definition wrap_error :: "('e \<Rightarrow> file_error) \<Rightarrow> 'e + 'a \<Rightarrow> file_error + 'a" where
  "wrap_error f r = (case r of Inl e \<Rightarrow> Inl (f e) | Inr x \<Rightarrow> Inr x)"

definition Validate :: "App \<Rightarrow> file_error + unit" where
  "Validate a =
     (if app_Name a \<noteq> [] \<and> \<not> ValidSlug (app_Name a) then keyErr ''name'' (BadAppName (app_Name a))
      else bind_result (validate_deps a [] (app_Deps a)) (\<lambda>_.
           bind_result (validateServices a) (\<lambda>_.
           bind_result (wrap_error Edging (validateEdge a)) (\<lambda>_.
           bind_result (wrap_error Deploying (validateDeploy a)) (\<lambda>_.
           bind_result (wrap_error Deploying (validateFleet a)) (\<lambda>_.
           validateVars a ''env'' (app_Env a)))))))"

section \<open>The file\<close>

definition ReservedKeys :: "string list" where
  "ReservedKeys = [''backups'', ''alerts'']"

definition empty_app :: App where
  "empty_app = \<lparr>app_Name = [], app_Domain = [], app_Deps = [], app_Services = [], app_Test = [], app_Deploy = None, app_Envs = [],
     app_Placement = [], app_Env = []\<rparr>"

text \<open>The file being read: the settings of a single service may stand at the top level.\<close>

record file_reading =
  fr_app :: App
  fr_keys :: "string list"
  fr_service :: Service
  fr_services :: bool

definition shorthand_set :: "string \<Rightarrow> (Service \<Rightarrow> Service) \<Rightarrow> file_reading \<Rightarrow> file_reading" where
  "shorthand_set key f r = r\<lparr>fr_keys := fr_keys r @ [key], fr_service := f (fr_service r)\<rparr>"

definition file_field :: "(float64 \<Rightarrow> int) \<Rightarrow> yaml_node \<times> yaml_node \<Rightarrow> file_reading \<Rightarrow> file_error + file_reading" where
  "file_field big kv r =
     (case kv of (k, v) \<Rightarrow>
        let key = yn_Value k; a = fr_app r
        in if key = ''name'' then map_ok (\<lambda>x. r\<lparr>fr_app := a\<lparr>app_Name := x\<rparr>\<rparr>) (scalarString v ''name'')
           else if key = ''domain'' then map_ok (\<lambda>x. r\<lparr>fr_app := a\<lparr>app_Domain := x\<rparr>\<rparr>) (scalarString v ''domain'')
           else if key = ''deps'' then map_ok (\<lambda>x. r\<lparr>fr_app := a\<lparr>app_Deps := x\<rparr>\<rparr>) (parseDeps v)
           else if key = ''services'' then map_ok (\<lambda>x. r\<lparr>fr_app := a\<lparr>app_Services := x\<rparr>, fr_services := True\<rparr>) (parseServices big v)
           else if key = ''run'' then map_ok (\<lambda>x. shorthand_set key (\<lambda>s. s\<lparr>svc_Run := x\<rparr>) r) (requiredText v ''run'')
           else if key = ''install'' then map_ok (\<lambda>x. shorthand_set key (\<lambda>s. s\<lparr>svc_Install := x\<rparr>) r) (requiredText v ''install'')
           else if key = ''build'' then map_ok (\<lambda>x. shorthand_set key (\<lambda>s. s\<lparr>svc_Build := x\<rparr>) r) (parseBuild v ''build'')
           else if key = ''test'' then map_ok (\<lambda>x. r\<lparr>fr_app := a\<lparr>app_Test := x\<rparr>\<rparr>) (requiredText v ''test'')
           else if key = ''env'' then map_ok (\<lambda>x. r\<lparr>fr_app := a\<lparr>app_Env := x\<rparr>\<rparr>) (parseVars v ''env'')
           else if key = ''deploy'' then map_ok (\<lambda>x. r\<lparr>fr_app := a\<lparr>app_Deploy := x\<rparr>\<rparr>) (parseDeploy v ''deploy'')
           else if key = ''envs'' then map_ok (\<lambda>x. r\<lparr>fr_app := a\<lparr>app_Envs := x\<rparr>\<rparr>) (parseEnvs big v)
           else if key = ''placement'' then map_ok (\<lambda>x. r\<lparr>fr_app := a\<lparr>app_Placement := x\<rparr>\<rparr>) (parsePlacementNode v ''placement'')
           else if key \<in> set ReservedKeys then Inl (ReservedKeyError key)
           else Inl (UnknownKey key))"

definition shorthand_apply :: "file_reading \<Rightarrow> file_error + App" where
  "shorthand_apply r =
     (if fr_keys r = [] then Inr (fr_app r)
      else if fr_services r then Inl (ServicesTwice (fr_keys r))
      else Inr ((fr_app r)\<lparr>app_Services := [(fr_service r)\<lparr>svc_Name := ''web''\<rparr>]\<rparr>))"

definition parse :: "(float64 \<Rightarrow> int) \<Rightarrow> (string \<Rightarrow> string + yaml_node) \<Rightarrow> string \<Rightarrow> file_error + App" where
  "parse big unmarshal data =
     (case unmarshal data of
        Inl e \<Rightarrow> Inl (NotYAML e)
      | Inr doc \<Rightarrow>
          if yn_Kind doc = NoKind \<or> yn_Content doc = [] then Inr empty_app
          else (let root = hd (yn_Content doc)
                in if yaml_null root then Inr empty_app
                   else if yn_Kind root \<noteq> MappingNode then Inl MustBeMapping
                   else bind_result (fold_result (file_field big) (yaml_pairs (yn_Content root))
                          \<lparr>fr_app = empty_app, fr_keys = [], fr_service = empty_service, fr_services = False\<rparr>) (\<lambda>r.
                        bind_result (shorthand_apply r) (\<lambda>a. bind_result (Validate a) (\<lambda>_. Inr a)))))"

end
