(* ===== verification/ConfigValid.thy ===== *)
theory ConfigValid
  imports ConfigParse
begin

text \<open>
  What an app read from \<^verbatim>\<open>caramelo.yaml\<close> is like: a description of well-formed configurations, and that every configuration the
  file gives is one, also after the settings of one environment have been put in (\<^verbatim>\<open>ForEnv\<close>). Variables that were
  accepted when the file was read can be expanded later.
\<close>

section \<open>The settings of an environment keep an app valid\<close>

lemma override_service_simps [simp]:
  "svc_Name (override_service over s) = svc_Name s" "svc_Image (override_service over s) = svc_Image s"
  "svc_Build (override_service over s) = svc_Build s" "svc_Install (override_service over s) = svc_Install s"
  "svc_Port (override_service over s) = svc_Port s" "svc_Protocol (override_service over s) = svc_Protocol s"
  "svc_Health (override_service over s) = svc_Health s" "svc_Env (override_service over s) = svc_Env s"
  "svc_Expose (override_service over s) = svc_Expose s" "svc_Drain (override_service over s) = svc_Drain s"
  by (simp_all add: override_service_def Let_def split: option.split)

lemma ForEnv_cases:
  assumes "ForEnv (Some a) env = Some a'"
  obtains (same) "a' = a"
  | (override) v where "(env, v) \<in> set (app_Envs a)" "a' = a\<lparr>app_Deploy := deploy_Merge (app_Deploy a) (ov_Deploy v),
      app_Services := map (override_service (ov_Services v)) (app_Services a)\<rparr>"
proof (cases "map_of (app_Envs a) env")
  case None
  then show thesis using assms by (intro same) (simp add: ForEnv_def Override_def)
next
  case (Some v)
  show thesis
  proof (cases "override_Empty v")
    case True
    then show thesis using Some assms by (intro same) (simp add: ForEnv_def Override_def)
  next
    case False
    then show thesis using Some assms by (intro override[of v]) (simp_all add: ForEnv_def Override_def map_of_SomeD)
  qed
qed

lemma at_key_Inr: "at_key key r = Inr x \<longleftrightarrow> r = Inr x"
  by (cases r) (auto simp: at_key_def)

lemma wrap_error_Inr: "wrap_error f r = Inr x \<longleftrightarrow> r = Inr x"
  by (cases r) (auto simp: wrap_error_def)

lemmas valid_simps = bind_result_Inr each_ok_Inr at_key_Inr wrap_error_Inr map_ok_Inr

definition deploy_ok :: "Deploy option \<Rightarrow> bool" where
  "deploy_ok d \<longleftrightarrow> (case d of None \<Rightarrow> True
     | Some d \<Rightarrow> 0 \<le> dy_Watch d \<and> 0 \<le> dy_Keep d \<and> dy_Keep d \<le> MaxKeep \<and>
         (TrimSpace (dy_MaxErrors d) \<noteq> [] \<longrightarrow> (\<exists>rate. ParseMaxErrors (TrimSpace (dy_MaxErrors d)) = Inr rate)) \<and>
         (dy_Promote d \<noteq> [] \<longrightarrow> TrimSpace (dy_Promote d) \<in> {[], PromoteAuto, PromoteManual}))"

lemma validateDeployBlock_iff: "validateDeployBlock key d = Inr () \<longleftrightarrow> deploy_ok d"
  by (cases d) (auto simp: validateDeployBlock_def deploy_ok_def valid_simps ParsePromote_def Let_def)

lemma deploy_ok_Merge: "deploy_ok d \<Longrightarrow> deploy_ok over \<Longrightarrow> deploy_ok (deploy_Merge d over)"
  by (cases d; cases over) (auto simp: deploy_ok_def deploy_Merge_def no_deploy_def Let_def)

definition resources_ok :: "Resources option \<Rightarrow> bool" where
  "resources_ok r \<longleftrightarrow> (case r of None \<Rightarrow> True
     | Some r \<Rightarrow> (rs_Memory r = 0 \<or> MinMemoryBytes \<le> rs_Memory r) \<and> \<not> fl_less (rs_CPU r) (Finite 0))"

lemma validateResources_iff: "validateResources key r = Inr () \<longleftrightarrow> resources_ok r"
  by (cases r) (auto simp: validateResources_def resources_ok_def)

lemma resources_ok_Merge: "resources_ok (Some r) \<Longrightarrow> resources_ok (Some s) \<Longrightarrow> resources_ok (Some (resources_Merge r s))"
  by (auto simp: resources_ok_def resources_Merge_def Let_def)

text \<open>The settings an environment has for a service.\<close>

definition override_ok :: "ServiceOverride \<Rightarrow> bool" where
  "override_ok so \<longleftrightarrow> 0 \<le> so_Replicas so \<and> so_Replicas so \<le> MaxReplicas \<and> resources_ok (so_Resources so)"

lemma validate_override_service_iff:
  "validate_override_service a key (svc, so) = Inr () \<longleftrightarrow> app_Service (Some a) svc \<noteq> None \<and> override_ok so"
  by (auto simp: validate_override_service_def Let_def override_ok_def validateResources_iff)

lemma validate_env_iff:
  "validate_env a (name, v) = Inr () \<longleftrightarrow> ValidSlug name \<and> deploy_ok (ov_Deploy v) \<and> validate_hosts (''envs.'' @ name) [] (ov_Hosts v) = Inr () \<and>
     (\<forall>(svc, so) \<in> set (ov_Services v). app_Service (Some a) svc \<noteq> None \<and> override_ok so)"
  by (auto simp: validate_env_def Let_def valid_simps validateDeployBlock_iff validate_override_service_iff)

definition counts_ok :: "Service \<Rightarrow> bool" where
  "counts_ok s \<longleftrightarrow> 0 \<le> svc_ReplicaCount s \<and> svc_ReplicaCount s \<le> MaxReplicas \<and> resources_ok (svc_Resources s)"

lemma counts_ok_override:
  assumes "counts_ok s" "\<forall>(svc, so) \<in> set over. override_ok so"
  shows "counts_ok (override_service over s)"
proof (cases "map_of over (svc_Name s)")
  case (Some so)
  then have so: "override_ok so" using assms(2) by (auto dest: map_of_SomeD)
  have none: "resources_ok (Some \<lparr>rs_Memory = 0, rs_CPU = Finite 0\<rparr>)" by (simp add: resources_ok_def)
  from Some so assms(1) none show ?thesis
    by (auto simp: override_service_def counts_ok_def override_ok_def Let_def resources_ok_Merge split: option.split)
qed (use assms in \<open>simp add: override_service_def\<close>)

lemma validate_service_iff:
  "validate_service a s = Inr () \<longleftrightarrow> 0 \<le> svc_ReplicaCount s \<and> svc_ReplicaCount s \<le> MaxReplicas \<and> 0 \<le> svc_Drain s \<and>
     (svc_Expose s = ExposeHTTPS \<longrightarrow> HasPort s \<and> svc_Protocol s \<noteq> ProtocolUDP \<and> app_Domain a \<noteq> []) \<and>
     (\<forall>x. svc_Expose s = OtherExpose x \<longrightarrow> (\<exists>e. ParseExpose x = Inr e))"
  by (cases "svc_Expose s") (auto simp: validate_service_def Let_def split: sum.splits)

lemma list_all2_exists: "(\<exists>ys. list_all2 P xs ys) \<longleftrightarrow> (\<forall>x \<in> set xs. \<exists>y. P x y)"
  by (induction xs) (auto simp: list_all2_Cons1)

lemma validateEdge_iff:
  "validateEdge a = Inr () \<longleftrightarrow> validateDomain (app_Domain a) = Inr () \<and> (\<forall>s \<in> set (app_Services a). validate_service a s = Inr ())"
  using list_all2_exists[of "\<lambda>x y. validate_service a x = Inr y" "app_Services a"]
  by (auto simp: validateEdge_def bind_result_Inr map_result_Inr)

lemma validateDeploy_iff:
  "validateDeploy a = Inr () \<longleftrightarrow> deploy_ok (app_Deploy a) \<and> (\<forall>s \<in> set (app_Services a). resources_ok (svc_Resources s)) \<and>
     (\<forall>(name, v) \<in> set (app_Envs a). ValidSlug name \<and> deploy_ok (ov_Deploy v) \<and> validate_hosts (''envs.'' @ name) [] (ov_Hosts v) = Inr () \<and>
       (\<forall>(svc, so) \<in> set (ov_Services v). app_Service (Some a) svc \<noteq> None \<and> override_ok so))"
proof -
  have "(\<forall>x \<in> set (app_Envs a). validate_env a x = Inr ()) \<longleftrightarrow> (\<forall>(name, v) \<in> set (app_Envs a). validate_env a (name, v) = Inr ())" by auto
  then show ?thesis by (simp add: validateDeploy_def valid_simps validateDeployBlock_iff validateResources_iff validate_env_iff)
qed

lemma Validate_iff:
  "Validate a = Inr () \<longleftrightarrow> (app_Name a = [] \<or> ValidSlug (app_Name a)) \<and> validate_deps a [] (app_Deps a) = Inr () \<and>
     validateServices a = Inr () \<and> validateEdge a = Inr () \<and> validateDeploy a = Inr () \<and> validateFleet a = Inr () \<and>
     validateVars a ''env'' (app_Env a) = Inr ()"
  by (simp add: Validate_def valid_simps)

lemma validate_services_cong:
  assumes "map svc_Name ss = map svc_Name ss'"
    and "\<And>i. i < length ss \<Longrightarrow> validate_one_service a' (ss' ! i) = validate_one_service a (ss ! i)"
  shows "validate_services a' seen ss' = validate_services a seen ss"
  using assms
proof (induction ss arbitrary: ss' seen)
  case (Cons s ss)
  then obtain t ts where ts: "ss' = t # ts" "svc_Name t = svc_Name s" "map svc_Name ss = map svc_Name ts" by (cases ss') auto
  have "validate_one_service a' t = validate_one_service a s" using Cons.prems(2)[of 0] ts(1) by simp
  moreover have "validate_services a' seen' ts = validate_services a seen' ss" for seen'
    using Cons.prems(2)[of "Suc _"] ts by (intro Cons.IH) auto
  ultimately show ?case using ts by simp
qed auto

lemma validate_deps_cong:
  assumes "\<And>key vars. validateVars a' key vars = validateVars a key vars"
  shows "validate_deps a' seen ds = validate_deps a seen ds"
  using assms by (induction ds arbitrary: seen) (auto simp: validate_dep_def Let_def)

lemma ForEnv_valid:
  assumes "Validate a = Inr ()" "ForEnv (Some a) env = Some a'"
  shows "Validate a' = Inr ()"
  using assms(2)
proof (cases rule: ForEnv_cases)
  case (override v)
  let ?over = "override_service (ov_Services v)"
  have a': "app_Name a' = app_Name a" "app_Domain a' = app_Domain a" "app_Deps a' = app_Deps a" "app_Envs a' = app_Envs a"
    "app_Placement a' = app_Placement a" "app_Env a' = app_Env a" "app_Services a' = map ?over (app_Services a)"
    "app_Deploy a' = deploy_Merge (app_Deploy a) (ov_Deploy v)"
    by (simp_all add: override(2))
  have vars: "validateVars a' key vs = validateVars a key vs" for key vs by (simp add: validateVars_def a' comp_def)
  have known: "app_Service (Some a') svc = None \<longleftrightarrow> app_Service (Some a) svc = None" for svc
    by (auto simp: app_Service_def a' find_None_iff)
  note valid = assms(1)[unfolded Validate_iff validateDeploy_iff]
  have env: "deploy_ok (ov_Deploy v)" "\<forall>(svc, so) \<in> set (ov_Services v). override_ok so" using valid override(1) by fastforce+
  have deps: "validate_deps a' [] (app_Deps a') = Inr ()" using valid validate_deps_cong[OF vars] by (simp add: a')
  have services: "validateServices a' = Inr ()"
  proof -
    have health: "validateHealth key (?over s) = validateHealth key s" for key s
      unfolding validateHealth_def HasPort_def override_service_simps ..
    have "validate_one_service a' (?over s) = validate_one_service a s" for s
      unfolding validate_one_service_def Let_def override_service_simps health vars a' ..
    then have "validateServices a' = validateServices a"
      unfolding validateServices_def a' by (intro validate_services_cong) (auto simp: comp_def)
    then show ?thesis using valid by simp
  qed
  have count: "counts_ok (?over s)" if "counts_ok s" for s using counts_ok_override[OF that env(2)] .
  have res: "resources_ok (svc_Resources s)" if "s \<in> set (app_Services a)" for s using valid that by blast
  have edge: "validate_service a s = Inr ()" if "s \<in> set (app_Services a)" for s using valid that by (simp add: validateEdge_iff)
  have counted: "counts_ok (?over s)" if "s \<in> set (app_Services a)" for s
    using count res[OF that] edge[OF that] by (simp add: counts_ok_def validate_service_iff)
  have "validateEdge a' = Inr ()"
    using valid counted edge by (simp add: validateEdge_iff validate_service_iff counts_ok_def HasPort_def a')
  moreover have "validateDeploy a' = Inr ()"
    unfolding validateDeploy_iff a' known using valid counted deploy_ok_Merge[OF _ env(1)] by (simp add: counts_ok_def)
  moreover have "validateFleet a' = validateFleet a" unfolding validateFleet_def a' ..
  ultimately show ?thesis unfolding Validate_iff using valid deps services by (simp add: vars a')
qed (use assms(1) in simp)

section \<open>Variables\<close>

lemma map_refs_later:
  assumes "map_refs f0 s = Inr t" and "\<And>r. f0 r \<noteq> Inr None"
    and "\<And>r v. f0 r = Inr (Some v) \<Longrightarrow> (\<exists>v'. f r = Inr (Some v')) \<or> (\<exists>e. f r = Inl e \<and> P e)"
  shows "(\<exists>t'. map_refs f s = Inr t') \<or> (\<exists>e. map_refs f s = Inl e \<and> P e)"
  using assms(1)
proof (induction s arbitrary: t rule: length_induct)
  case (1 s)
  show ?case
  proof (cases s)
    case Nil
    then show ?thesis by (simp add: map_refs.simps)
  next
    case (Cons c cs)
    have step: "(\<exists>t'. map_ok g (map_refs f s') = Inr t') \<or> (\<exists>e. map_ok g (map_refs f s') = Inl e \<and> P e)"
      if "length s' < length s" "map_refs f0 s' = Inr t'" for s' t' g
      using 1(1)[rule_format, OF that] by (auto simp: map_ok_Inr)
    consider (plain) "c \<noteq> CHR ''$''" | (dollar) "c = CHR ''$''" "cs \<noteq> []" "hd cs = CHR ''$''"
      | (ref) "c = CHR ''$''" "cs \<noteq> []" "hd cs = CHR ''{''" | (alone) "c = CHR ''$''" "cs = [] \<or> hd cs \<notin> {CHR ''$'', CHR ''{''}" by auto
    then show ?thesis
    proof cases
      case plain
      then have run: "map_refs g s = map_ok (\<lambda>b. c # b) (map_refs g cs)" for g using Cons by (subst map_refs.simps) simp
      from 1(2) obtain t1 where "map_refs f0 cs = Inr t1" unfolding run map_ok_Inr by blast
      then show ?thesis unfolding run using Cons by (intro step) auto
    next
      case dollar
      then have run: "map_refs g s = map_ok (\<lambda>b. CHR ''$'' # b) (map_refs g (tl cs))" for g using Cons by (subst map_refs.simps) simp
      from 1(2) obtain t1 where "map_refs f0 (tl cs) = Inr t1" unfolding run map_ok_Inr by blast
      then show ?thesis unfolding run using Cons by (intro step) (auto simp: less_Suc_eq_le)
    next
      case ref
      then obtain i where i: "IndexByte (tl cs) CHR ''}'' = Some i"
        using 1(2) Cons by (subst (asm) map_refs.simps) (auto split: option.splits)
      let ?r = "take i (tl cs)"
      from 1(2) ref i Cons assms(2)[of ?r] obtain v t1 where v: "f0 ?r = Inr (Some v)" "map_refs f0 (drop (i + 3) s) = Inr t1"
        by (subst (asm) map_refs.simps) (auto simp: map_ok_Inr split: sum.splits option.splits)
      have run: "map_refs f s = (case f ?r of Inl x \<Rightarrow> Inl x
            | Inr None \<Rightarrow> map_ok (\<lambda>b. take (i + 3) s @ b) (map_refs f (drop (i + 3) s))
            | Inr (Some v) \<Rightarrow> map_ok (\<lambda>b. v @ b) (map_refs f (drop (i + 3) s)))"
        using ref i Cons by (subst map_refs.simps) simp
      have short: "length (drop (i + 3) s) < length s" using Cons by simp
      show ?thesis using assms(3)[OF v(1)]
      proof
        assume "\<exists>v'. f ?r = Inr (Some v')"
        then obtain v' where "f ?r = Inr (Some v')" by blast
        then have "map_refs f s = map_ok (\<lambda>b. v' @ b) (map_refs f (drop (i + 3) s))" unfolding run by simp
        then show ?thesis using step[OF short v(2), of "\<lambda>b. v' @ b"] by simp
      qed (auto simp: run)
    next
      case alone
      then have run: "map_refs g s = map_ok (\<lambda>b. CHR ''$'' # b) (map_refs g cs)" for g using Cons by (subst map_refs.simps) auto
      from 1(2) obtain t1 where "map_refs f0 cs = Inr t1" unfolding run map_ok_Inr by blast
      then show ?thesis unfolding run using Cons by (intro step) auto
    qed
  qed
qed

text \<open>The errors that are left to the time of expansion: a secret that is not in the vault.\<close>

fun secret_error :: "expand_error \<Rightarrow> bool" where
  "secret_error (UnknownSecret _) \<longleftrightarrow> True"
| "secret_error (NoPassword _) \<longleftrightarrow> True"
| "secret_error (InVariable _ e) \<longleftrightarrow> secret_error e"
| "secret_error _ \<longleftrightarrow> False"

lemma lookupAddr_names:
  assumes "fst ` set addrs \<subseteq> fst ` set addrs'" "lookupAddr addrs rest = Some v"
  shows "\<exists>v'. lookupAddr addrs' rest = Some v'"
proof -
  obtain name field where cut: "Cut rest CHR ''.'' = Some (name, field)" "field = ''host'' \<or> field = ''port''" "map_of addrs name \<noteq> None"
    using assms(2) by (auto simp: lookupAddr_def split: option.splits prod.splits if_splits)
  then have "map_of addrs' name \<noteq> None" using assms(1) by (auto simp: map_of_eq_None_iff)
  with cut(1,2) show ?thesis by (auto simp: lookupAddr_def)
qed

lemma ctx_lookup_later:
  assumes "fst ` set (ec_Deps c0) \<subseteq> fst ` set (ec_Deps c)" "fst ` set (ec_Services c0) \<subseteq> fst ` set (ec_Services c)"
    and "secrets_Empty (ec_secrets c0)" "ctx_lookup c0 r = Inr (Some v)"
  shows "(\<exists>v'. ctx_lookup c r = Inr (Some v')) \<or> (\<exists>e. ctx_lookup c r = Inl e \<and> secret_error e)"
proof -
  have deps: "\<exists>v'. lookupAddr (ec_Deps c) x = Some v'" if "lookupAddr (ec_Deps c0) x = Some y" for x y
    using lookupAddr_names[OF assms(1) that] .
  have services: "\<exists>v'. lookupAddr (ec_Services c) x = Some v'" if "lookupAddr (ec_Services c0) x = Some y" for x y
    using lookupAddr_names[OF assms(2) that] .
  have secret: "(\<exists>v'. lookupSecret (ec_secrets c) n = Inr (Some v')) \<or> (\<exists>e. lookupSecret (ec_secrets c) n = Inl e \<and> secret_error e)"
    if "lookupSecret (ec_secrets c0) n = Inr (Some y)" for n y
    using that assms(3) by (auto simp: lookupSecret_def secrets_Empty_def split: if_splits option.splits)
  have pw: "(\<exists>v'. lookupDepPassword c n = Inr (Some v')) \<or> (\<exists>e. lookupDepPassword c n = Inl e \<and> secret_error e)"
    if "lookupDepPassword c0 n = Inr (Some y)" for n y
  proof -
    have "map_of (ec_Deps c0) n \<noteq> None" using that by (auto simp: lookupDepPassword_def split: if_splits)
    then have "map_of (ec_Deps c) n \<noteq> None" using assms(1) by (auto simp: map_of_eq_None_iff)
    then show ?thesis by (auto simp: lookupDepPassword_def split: option.splits)
  qed
  show ?thesis
  proof (cases "r \<in> {''port'', ''app.name'', ''env.name''}")
    case True
    then show ?thesis by (auto simp: ctx_lookup_def)
  next
    case plain: False
    show ?thesis
    proof (cases "CutPrefix r ''secrets.''")
      case (Some n)
      then show ?thesis using assms(4) secret[of n] plain by (simp add: ctx_lookup_def del: CutPrefix_Some)
    next
      case sec: None
      show ?thesis
      proof (cases "CutPrefix r ''deps.''")
        case (Some rest)
        have is_dep: "ctx_lookup x r = (case Cut rest CHR ''.'' of Some (name, field) \<Rightarrow>
              if field = ''password'' then lookupDepPassword x name else Inr (lookupAddr (ec_Deps x) rest) | None \<Rightarrow> Inr (lookupAddr (ec_Deps x) rest))" for x
          using plain sec Some by (simp add: ctx_lookup_def del: CutPrefix_Some)
        show ?thesis
        proof (cases "\<exists>name. Cut rest CHR ''.'' = Some (name, ''password'')")
          case True
          then obtain name where "Cut rest CHR ''.'' = Some (name, ''password'')" by blast
          then have "ctx_lookup x r = lookupDepPassword x name" for x unfolding is_dep by simp
          then show ?thesis using pw[of name v] assms(4) by simp
        next
          case False
          then have "ctx_lookup x r = Inr (lookupAddr (ec_Deps x) rest)" for x
            unfolding is_dep by (auto split: option.split)
          then show ?thesis using deps[of rest v] assms(4) by simp
        qed
      next
        case None
        with assms(4) plain sec services show ?thesis by (cases "CutPrefix r ''services.''") (auto simp: ctx_lookup_def simp del: CutPrefix_Some)
      qed
    qed
  qed
qed

lemma ExpandString_later:
  assumes "fst ` set (ec_Deps c0) \<subseteq> fst ` set (ec_Deps c)" "fst ` set (ec_Services c0) \<subseteq> fst ` set (ec_Services c)"
    and "secrets_Empty (ec_secrets c0)" "ExpandString s c0 = Inr t"
  shows "(\<exists>t'. ExpandString s c = Inr t') \<or> (\<exists>e. ExpandString s c = Inl e \<and> secret_error e)"
proof (cases "CHR ''$'' \<in> set s")
  case True
  let ?look = "\<lambda>ctx ref. case ctx_lookup ctx ref of Inl e \<Rightarrow> Inl e | Inr None \<Rightarrow> Inl (UnknownReference ref) | Inr (Some v) \<Rightarrow> Inr (Some v)"
  have "(\<exists>v'. ?look c r = Inr (Some v')) \<or> (\<exists>e. ?look c r = Inl e \<and> secret_error e)" if "?look c0 r = Inr (Some v)" for r v
    using ctx_lookup_later[OF assms(1-3), of r v] that by (auto split: sum.splits option.splits)
  moreover have "?look c0 r \<noteq> Inr None" for r by (simp split: sum.split option.split)
  moreover have "map_refs (?look c0) s = Inr t" using assms(4) True by (simp add: ExpandString_def mapRefs_def)
  ultimately show ?thesis using map_refs_later[of "?look c0" s t "?look c" secret_error] True
    by (simp add: ExpandString_def mapRefs_def)
qed (simp add: ExpandString_def mapRefs_def)

lemma map_result_Inl: "map_result f xs = Inl e \<Longrightarrow> \<exists>x \<in> set xs. f x = Inl e"
  by (induction xs) (auto simp: bind_result_def split: sum.splits)

lemma Expand_later:
  assumes "validateVars a key vs = Inr ()"
    and "dep_Name ` set (app_Deps a) \<subseteq> fst ` set (ec_Deps c)" "svc_Name ` set (app_Services a) \<subseteq> fst ` set (ec_Services c)"
    and "Expand vs c = Inl e"
  shows "secret_error e"
proof -
  obtain kv where kv: "kv \<in> set vs" "expand_var c kv = Inl e" using map_result_Inl assms(4) by (fastforce simp: Expand_def)
  define c0 where "c0 = \<lparr>ec_App = app_Name a, ec_Env = ''env'', ec_Port = 0,
            ec_Deps = map (\<lambda>d. (dep_Name d, \<lparr>da_Host = [], da_Port = 0\<rparr>)) (app_Deps a),
            ec_Services = map (\<lambda>s. (svc_Name s, \<lparr>da_Host = [], da_Port = 0\<rparr>)) (app_Services a),
            ec_View = ViewUnset, ec_secrets = \<lparr>sec_Lookup = None, sec_DepPassword = None\<rparr>\<rparr>"
  have "\<exists>t. ExpandString (snd kv) c0 = Inr t"
  proof -
    obtain name v where "kv = (name, v)" by (cases kv)
    moreover from assms(1) have "\<forall>(name, v) \<in> set vs. varName name \<and> (\<exists>t. ExpandString v c0 = Inr t)"
      unfolding validateVars_def Let_def c0_def[symmetric] each_ok_Inr by (fastforce split: sum.splits if_splits)
    ultimately show ?thesis using kv(1) by auto
  qed
  then have "(\<exists>t'. ExpandString (snd kv) c = Inr t') \<or> (\<exists>e. ExpandString (snd kv) c = Inl e \<and> secret_error e)"
    using assms(2,3) by (elim exE, intro ExpandString_later[of c0]) (auto simp: c0_def secrets_Empty_def)
  then show ?thesis using kv(2) by (auto simp: expand_var_def split: sum.splits)
qed

section \<open>Well-formed apps\<close>

definition dep_wf :: "Dep \<Rightarrow> bool" where
  "dep_wf d \<longleftrightarrow> ValidSlug (dep_Name d) \<and> TrimSpace (dep_Image d) \<noteq> [] \<and> 1 \<le> dep_Port d \<and> dep_Port d \<le> 65535 \<and>
     [] \<notin> set (dep_Ready d) \<and> (dep_Data d = [] \<or> HasPrefix (dep_Data d) ''/'')"

definition build_wf :: "Build option \<Rightarrow> bool" where
  "build_wf b \<longleftrightarrow> (case b of None \<Rightarrow> True
     | Some b \<Rightarrow> TrimSpace (bd_Context b) \<noteq> [] \<and>
         (\<forall>p \<in> {bd_Context b, bd_Dockerfile b}. p \<noteq> [] \<longrightarrow> \<not> HasPrefix p ''/'' \<and> \<not> escapes p))"

definition service_wf :: "App \<Rightarrow> Service \<Rightarrow> bool" where
  "service_wf a s \<longleftrightarrow> ValidSlug (svc_Name s) \<and> (svc_Port s = PortNone \<or> 0 \<le> svc_Port s \<and> svc_Port s \<le> 65535) \<and>
     counts_ok s \<and> 0 \<le> svc_Drain s \<and> (svc_Image s = [] \<or> svc_Build s = None) \<and> build_wf (svc_Build s) \<and>
     (svc_Expose s = ExposeHTTPS \<longrightarrow> HasPort s \<and> svc_Protocol s \<noteq> ProtocolUDP \<and> app_Domain a \<noteq> []) \<and>
     (\<forall>h. svc_Health s = Some h \<longrightarrow> (hl_Path h = [] \<longleftrightarrow> hl_Command h \<noteq> []) \<and> (hl_Path h \<noteq> [] \<longrightarrow> HasPort s))"

definition app_wf :: "App \<Rightarrow> bool" where
  "app_wf a \<longleftrightarrow> (app_Name a = [] \<or> ValidSlug (app_Name a)) \<and>
     distinct (map dep_Name (app_Deps a) @ map svc_Name (app_Services a)) \<and>
     (\<forall>d \<in> set (app_Deps a). dep_wf d) \<and> (\<forall>s \<in> set (app_Services a). service_wf a s) \<and> deploy_ok (app_Deploy a) \<and>
     (app_Domain a = [] \<or> app_Domain a = DomainAuto \<or> hostname (app_Domain a)) \<and>
     (\<forall>(name, v) \<in> set (app_Envs a). ValidSlug name \<and> distinct (ov_Hosts v) \<and> (\<forall>h \<in> set (ov_Hosts v). hostname h))"

lemma validate_deps_wf:
  "validate_deps a seen ds = Inr () \<Longrightarrow> (\<forall>d \<in> set ds. dep_wf d) \<and> distinct (map dep_Name ds) \<and> set seen \<inter> dep_Name ` set ds = {}"
proof (induction ds arbitrary: seen)
  case (Cons d ds)
  then have "validate_dep a d = Inr ()" "validate_deps a (dep_Name d # seen) ds = Inr ()" "ValidSlug (dep_Name d)" "dep_Name d \<notin> set seen"
    by (auto simp: bind_result_Inr split: if_splits)
  then show ?case using Cons.IH[of "dep_Name d # seen"] by (auto simp: validate_dep_def dep_wf_def Let_def split: if_splits)
qed simp

lemma validateBuild_wf: "validateBuild key b = Inr () \<Longrightarrow> build_wf b"
  by (cases b) (auto simp: validateBuild_def build_wf_def each_ok_Inr split: if_splits)

lemma validateHealth_wf:
  "validateHealth key s = Inr () \<Longrightarrow> svc_Health s = Some h \<Longrightarrow> (hl_Path h = [] \<longleftrightarrow> hl_Command h \<noteq> []) \<and> (hl_Path h \<noteq> [] \<longrightarrow> HasPort s)"
  by (auto simp: validateHealth_def Let_def split: if_splits)

lemma validate_services_wf:
  "validate_services a seen ss = Inr () \<Longrightarrow>
     (\<forall>s \<in> set ss. ValidSlug (svc_Name s) \<and> validate_one_service a s = Inr ()) \<and> distinct (map svc_Name ss) \<and> set seen \<inter> svc_Name ` set ss = {}"
proof (induction ss arbitrary: seen)
  case (Cons s ss)
  then have "validate_one_service a s = Inr ()" "validate_services a (svc_Name s # seen) ss = Inr ()" "ValidSlug (svc_Name s)" "svc_Name s \<notin> set seen"
    by (auto simp: bind_result_Inr split: if_splits)
  then show ?case using Cons.IH[of "svc_Name s # seen"] by auto
qed simp

lemma validate_one_service_wf:
  assumes "validate_one_service a s = Inr ()"
  shows "svc_Name s \<notin> dep_Name ` set (app_Deps a)" "svc_Image s = [] \<or> svc_Build s = None" "build_wf (svc_Build s)"
    "svc_Port s = PortNone \<or> 0 \<le> svc_Port s \<and> svc_Port s \<le> 65535" "validateHealth (''services.'' @ svc_Name s) s = Inr ()"
    "validateVars a (''services.'' @ svc_Name s @ ''.env'') (svc_Env s) = Inr ()"
  using assms by (auto simp: validate_one_service_def Let_def bind_result_Inr validateBuild_wf split: if_splits sum.splits)

lemma validate_hosts_wf:
  "validate_hosts key seen hs = Inr () \<Longrightarrow> distinct hs \<and> (\<forall>h \<in> set hs. hostname h) \<and> set seen \<inter> set hs = {}"
proof (induction hs arbitrary: seen)
  case (Cons h hs)
  then have "ValidateHostname h = Inr ()" "h \<notin> set seen" "validate_hosts key (h # seen) hs = Inr ()" by (auto split: sum.splits if_splits)
  then show ?case using Cons.IH[of "h # seen"] by (auto simp: ValidateHostname_iff)
qed simp

lemma Validate_wf:
  assumes "Validate a = Inr ()"
  shows "app_wf a"
proof -
  note valid = assms[unfolded Validate_iff validateDeploy_iff validateEdge_iff]
  note deps = validate_deps_wf[of a "[]" "app_Deps a"]
  note svcs = validate_services_wf[of a "[]" "app_Services a", folded validateServices_def]
  have "service_wf a s" if "s \<in> set (app_Services a)" for s
    using valid svcs that validate_one_service_wf[of a s] validateHealth_wf[of _ s]
    by (auto simp: service_wf_def validate_service_iff counts_ok_def)
  moreover have "svc_Name s \<notin> dep_Name ` set (app_Deps a)" if "s \<in> set (app_Services a)" for s
    using valid svcs that validate_one_service_wf(1)[of a s] by blast
  then have "svc_Name ` set (app_Services a) \<inter> dep_Name ` set (app_Deps a) = {}" by blast
  moreover have "app_Domain a = [] \<or> app_Domain a = DomainAuto \<or> hostname (app_Domain a)"
    using valid by (auto simp: validateDomain_def ValidateHostname_iff[symmetric] split: if_splits sum.splits)
  moreover have "\<forall>(name, v) \<in> set (app_Envs a). ValidSlug name \<and> distinct (ov_Hosts v) \<and> (\<forall>h \<in> set (ov_Hosts v). hostname h)"
    using valid validate_hosts_wf by fast
  ultimately show ?thesis using valid deps svcs by (auto simp: app_wf_def)
qed

lemma parse_Inr:
  assumes "parse big unmarshal data = Inr a"
  shows "Validate a = Inr ()"
proof -
  have "Validate empty_app = Inr ()" by code_simp
  with assms show ?thesis by (auto simp: parse_def Let_def bind_result_Inr split: sum.splits if_splits)
qed

text \<open>C11: an app read from \<^verbatim>\<open>caramelo.yaml\<close>, whatever the file says, is well formed, and so is the app with the settings of any
  environment put in, which passes the same checks again: the names of services and dependencies are slugs and all
  different, ports and replica counts are in range, no build leaves the checkout, a service has an image or a build but not
  both, an exposed service has a port and a domain, a health check has a path or a command, memory limits
  are none or at least 6 MiB, and hosts are hostnames.\<close>

theorem parsed_app_wf:
  assumes "parse big unmarshal data = Inr a"
  shows "\<exists>a'. ForEnv (Some a) env = Some a' \<and> Validate a' = Inr () \<and> app_wf a'"
proof -
  obtain a' where "ForEnv (Some a) env = Some a'" by (cases "ForEnv (Some a) env") (auto simp: ForEnv_def split: option.splits if_splits)
  with ForEnv_valid[OF parse_Inr[OF assms]] Validate_wf show ?thesis by blast
qed


definition scalar :: "string \<Rightarrow> yaml_node" where "scalar v = Node ScalarNode ''!!str'' v []"
definition mapping :: "yaml_node list \<Rightarrow> yaml_node" where "mapping ns = Node MappingNode ''!!map'' [] ns"

definition sample_document :: yaml_node where
  "sample_document = Node DocumentNode [] [] [mapping
     [scalar ''deps'', mapping [scalar ''db'', scalar ''postgres''],
      scalar ''services'', mapping [scalar ''web'', mapping [scalar ''run'', scalar ''x'', scalar ''env'',
        mapping [scalar ''U'', scalar ''${deps.db.host}'']]],
      scalar ''envs'', mapping [scalar ''main'', mapping [scalar ''services'', mapping [scalar ''web'', mapping [scalar ''replicas'', scalar ''2'']]]]]]"

definition sample_file :: App where
  "sample_file = empty_app\<lparr>app_Deps := [\<lparr>dep_Name = ''db'', dep_Image = ''postgres'', dep_Port = 5432,
       dep_Env = [(''POSTGRES_PASSWORD'', ''caramelo'')], dep_Ready = [''pg_isready'', ''-U'', ''postgres''], dep_Data = ''/var/lib/postgresql/data''\<rparr>],
     app_Services := [empty_service\<lparr>svc_Name := ''web'', svc_Run := ''x'', svc_Env := [(''U'', ''${deps.db.host}'')]\<rparr>],
     app_Envs := [(''main'', no_override\<lparr>ov_Services := [(''web'', \<lparr>so_Replicas = 2, so_Resources = None\<rparr>)]\<rparr>)]\<rparr>"

lemma sample_parse: "parse (\<lambda>_. 0) (\<lambda>_. Inr sample_document) [] = Inr sample_file"
  by code_simp

theorem parsed_app_wf_witness:
  "\<exists>a'. ForEnv (Some sample_file) ''main'' = Some a' \<and> app_wf a' \<and> map svc_ReplicaCount (app_Services a') = [2]"
proof -
  obtain a' where a': "ForEnv (Some sample_file) ''main'' = Some a'" "app_wf a'" using parsed_app_wf[OF sample_parse] by blast
  have "map_option (map svc_ReplicaCount \<circ> app_Services) (ForEnv (Some sample_file) ''main'') = Some [2]" by code_simp
  with a' show ?thesis by auto
qed


end
