(* ===== verification/EnvSecrets.thy ===== *)
theory EnvSecrets
  imports ConfigExpand ConfigKnown EnvStore PortLayout Vault
begin

text \<open>
  The secrets of an environment on their way into its containers (\<^verbatim>\<open>internal/env/secrets.go\<close>, \<open>serviceVars\<close> of
  \<^verbatim>\<open>up.go\<close>). The variables of a service are expanded twice, with the
  secrets and with a mark in their place, to tell which of them are secret: those go to the container by a file, and
  what is stored in the database is the text with the mark. Generating a password and storing it in the vault are
  arguments. The values of secrets are an association list; the maps of variables made from them are partial functions.
\<close>

section \<open>The secrets of an environment\<close>

record envSecrets =
  sx_values :: go_vars
  sx_digest :: string
  sx_defaults :: go_vars

definition newEnvSecrets :: "go_vars \<Rightarrow> string \<Rightarrow> envSecrets" where
  "newEnvSecrets vals digest = \<lparr>sx_values = vals, sx_digest = digest, sx_defaults = []\<rparr>"

definition DevPassword :: string where
  "DevPassword = ''caramelo''"

definition Redacted :: string where
  "Redacted = ''<secret>''"

text \<open>The password of a dependency and whether it is a secret.\<close>

definition password :: "envSecrets \<Rightarrow> string \<Rightarrow> (string \<times> bool) option" where
  "password s dep =
     (case map_of (sx_values s) (DepPasswordSecret dep) of
        Some v \<Rightarrow> Some (v, True)
      | None \<Rightarrow> map_option (\<lambda>v. (v, False)) (map_of (sx_defaults s) dep))"

definition has_password :: "Dep \<Rightarrow> bool" where
  "has_password dep \<longleftrightarrow> (case known_Lookup (dep_Image dep) of None \<Rightarrow> False | Some k \<Rightarrow> ki_PasswordVar k \<noteq> [])"

fun withDepDefaults :: "envSecrets \<Rightarrow> Dep list \<Rightarrow> bool \<Rightarrow> envSecrets" where
  "withDepDefaults s [] release = s"
| "withDepDefaults s (dep # deps) release =
     (if release then s
      else if map_of (sx_values s) (DepPasswordSecret (dep_Name dep)) \<noteq> None then withDepDefaults s deps release
      else if \<not> has_password dep then withDepDefaults s deps release
      else withDepDefaults (s\<lparr>sx_defaults := AList.update (dep_Name dep) DevPassword (sx_defaults s)\<rparr>) deps release)"

definition secrets_lookups :: "envSecrets \<Rightarrow> Secrets" where
  "secrets_lookups s = \<lparr>sec_Lookup = Some (map_of (sx_values s)), sec_DepPassword = Some (\<lambda>dep. map_option fst (password s dep))\<rparr>"

definition secrets_redacted :: "envSecrets \<Rightarrow> Secrets" where
  "secrets_redacted s =
     \<lparr>sec_Lookup = Some (\<lambda>name. map_option (\<lambda>_. Redacted) (map_of (sx_values s) name)),
      sec_DepPassword = Some (\<lambda>dep. map_option (\<lambda>(v, secret). if secret then Redacted else v) (password s dep))\<rparr>"

section \<open>The variables of a service\<close>

type_synonym vars = "string \<rightharpoonup> string"

definition ManagedVars :: "string list" where
  "ManagedVars = [''PORT'', ''CARAMELO_APP'', ''CARAMELO_ENV'', ''CARAMELO_SERVICE'']"

definition managedVars :: "EnvRecord \<Rightarrow> vars \<Rightarrow> string \<Rightarrow> vars" where
  "managedVars rec vs service =
     (let out = (\<lambda>k. if k \<in> set ManagedVars \<or> k = ''CARAMELO_SERVICE'' then None else vs k)
                (''PORT'' \<mapsto> Itoa (env_PortBase rec), ''CARAMELO_APP'' \<mapsto> env_App rec, ''CARAMELO_ENV'' \<mapsto> env_Name rec)
      in if service \<noteq> [] then out(''CARAMELO_SERVICE'' \<mapsto> service) else out)"

record service_plan =
  sp_rec :: EnvRecord
  sp_app_env :: go_vars
  sp_views :: Views
  sp_port :: int
  sp_name :: string
  sp_env :: go_vars
  sp_secrets :: envSecrets

datatype vars_error = AppVars expand_error | ServiceVars expand_error

definition expandService :: "service_plan \<Rightarrow> Secrets \<Rightarrow> vars_error + vars" where
  "expandService p lookups =
     (let ctx = ContextWith (sp_views p) ViewNetwork lookups
      in case Expand (sp_app_env p) ctx of
           Inl e \<Rightarrow> Inl (AppVars e)
         | Inr app \<Rightarrow>
             (case Expand (sp_env p) ctx of
                Inl e \<Rightarrow> Inl (ServiceVars e)
              | Inr own \<Rightarrow>
                  (let vs = managedVars (sp_rec p) (map_of app ++ map_of own) (sp_name p)
                   in Inr (if sp_port p > 0 then vs(''PORT'' \<mapsto> Itoa (sp_port p)) else vs))))"

text \<open>What goes to the container in the open, what goes to it by a file, and what is stored.\<close>

definition secretVars :: "vars \<Rightarrow> vars \<Rightarrow> vars \<times> vars \<times> vars" where
  "secretVars actual redacted =
     (let hidden = (\<lambda>k. case (actual k, redacted k) of (Some v, Some r) \<Rightarrow> r \<noteq> v | _ \<Rightarrow> False)
      in (\<lambda>k. if hidden k then None else actual k,
          \<lambda>k. if hidden k then actual k else None,
          \<lambda>k. if hidden k then redacted k else actual k))"

definition serviceVars :: "service_plan \<Rightarrow> vars_error + vars \<times> vars \<times> vars" where
  "serviceVars p =
     (case expandService p (secrets_lookups (sp_secrets p)) of
        Inl e \<Rightarrow> Inl e
      | Inr actual \<Rightarrow>
          if sx_values (sp_secrets p) = [] then Inr (actual, Map.empty, actual)
          else (case expandService p (secrets_redacted (sp_secrets p)) of
                  Inl e \<Rightarrow> Inl e
                | Inr hidden \<Rightarrow>
                    (let (plain, secret, stored) = secretVars actual hidden;
                         more = (\<lambda>k. if plain k \<noteq> None then None else map_of (sx_values (sp_secrets p)) k)
                     in Inr (plain, secret ++ more, stored ++ (\<lambda>k. map_option (\<lambda>_. Redacted) (more k))))))"

section \<open>Passwords of dependencies\<close>

datatype password_error = NoVault string | GenerateFailed | PasswordNotStored string

text \<open>The vault as the outcome of generating a password and of storing it.\<close>

fun ensure_passwords ::
  "bool \<Rightarrow> (string \<Rightarrow> string option) \<Rightarrow> (string \<Rightarrow> string \<Rightarrow> bool) \<Rightarrow> bool \<Rightarrow> Dep list \<Rightarrow> envSecrets \<Rightarrow> password_error + envSecrets" where
  "ensure_passwords vault generate store release [] s = Inr s"
| "ensure_passwords vault generate store release (dep # deps) s =
     (let name = DepPasswordSecret (dep_Name dep)
      in if map_of (sx_values s) name \<noteq> None \<or> \<not> has_password dep \<or> \<not> release
         then ensure_passwords vault generate store release deps s
         else if \<not> vault then Inl (NoVault (dep_Name dep))
         else (case generate name of
                 None \<Rightarrow> Inl GenerateFailed
               | Some v \<Rightarrow>
                   if \<not> store name v then Inl (PasswordNotStored (dep_Name dep))
                   else ensure_passwords vault generate store release deps (s\<lparr>sx_values := AList.update name v (sx_values s)\<rparr>)))"

definition ensureDepPasswords ::
  "bool \<Rightarrow> (string \<Rightarrow> string option) \<Rightarrow> (string \<Rightarrow> string \<Rightarrow> bool) \<Rightarrow> bool \<Rightarrow> Dep list \<Rightarrow> envSecrets \<Rightarrow> password_error + envSecrets" where
  "ensureDepPasswords vault generate store release deps s =
     ensure_passwords vault generate store release deps (withDepDefaults s deps release)"

definition depEnv :: "Dep \<Rightarrow> envSecrets \<Rightarrow> vars" where
  "depEnv dep s =
     (case known_Lookup (dep_Image dep) of
        None \<Rightarrow> map_of (dep_Env dep)
      | Some k \<Rightarrow>
          if ki_PasswordVar k = [] then map_of (dep_Env dep)
          else (case password s (dep_Name dep) of
                  None \<Rightarrow> map_of (dep_Env dep)
                | Some (v, _) \<Rightarrow> (map_of (dep_Env dep))(ki_PasswordVar k \<mapsto> v)))"

definition depPasswordIsSecret :: "Dep \<Rightarrow> envSecrets \<Rightarrow> bool" where
  "depPasswordIsSecret dep s \<longleftrightarrow> has_password dep \<and> (case password s (dep_Name dep) of Some (_, secret) \<Rightarrow> secret | None \<Rightarrow> False)"

section \<open>What is stored\<close>

text \<open>What an expansion depends on: which secrets there are, and what the context is apart from their values.\<close>

definition same_names :: "envSecrets \<Rightarrow> envSecrets \<Rightarrow> bool" where
  "same_names s s' \<longleftrightarrow> map fst (sx_values s) = map fst (sx_values s') \<and> sx_defaults s = sx_defaults s'"

lemma same_names_dom: "same_names s s' \<Longrightarrow> map_of (sx_values s) k = None \<longleftrightarrow> map_of (sx_values s') k = None"
  unfolding same_names_def by (metis list.set_map map_of_eq_None_iff)

lemma same_names_redacted: "same_names s s' \<Longrightarrow> secrets_redacted s = secrets_redacted s'"
proof -
  assume s: "same_names s s'"
  have "map_option (\<lambda>_. Redacted) (map_of (sx_values s) k) = map_option (\<lambda>_. Redacted) (map_of (sx_values s') k)" for k
    using same_names_dom[OF s, of k] by (cases "map_of (sx_values s) k"; cases "map_of (sx_values s') k") auto
  moreover have "map_option (\<lambda>(v, secret). if secret then Redacted else v) (password s dep) =
      map_option (\<lambda>(v, secret). if secret then Redacted else v) (password s' dep)" for dep
    using same_names_dom[OF s, of "DepPasswordSecret dep"] s
    by (auto simp: password_def same_names_def split: option.split)
  ultimately show ?thesis by (simp add: secrets_redacted_def)
qed

lemma Expand_keys: "Expand vs ctx = Inr out \<Longrightarrow> dom (map_of out) = fst ` set vs"
proof -
  assume "Expand vs ctx = Inr out"
  then have "list_all2 (\<lambda>x y. expand_var ctx x = Inr y) (sort_key fst vs) out" by (simp add: Expand_def map_result_Inr)
  then have "list_all2 (\<lambda>x y. fst y = fst x) (sort_key fst vs) out"
    by (rule list_all2_mono) (auto simp: expand_var_def split: sum.split_asm)
  then have "map fst out = map fst (sort_key fst vs)" by (induction rule: list_all2_induct) auto
  then have "fst ` set out = fst ` set vs" by (metis list.set_map set_sort)
  then show ?thesis by (simp add: dom_map_of_conv_image_fst)
qed

lemma dom_managedVars:
  "dom (managedVars rec vs n) = dom vs - set ManagedVars \<union> {''PORT'', ''CARAMELO_APP'', ''CARAMELO_ENV''} \<union>
     (if n \<noteq> [] then {''CARAMELO_SERVICE''} else {})"
proof -
  have "dom (\<lambda>k. if k \<in> set ManagedVars \<or> k = ''CARAMELO_SERVICE'' then None else vs k) = dom vs - insert ''CARAMELO_SERVICE'' (set ManagedVars)"
    by (auto simp del: list.inject split: if_splits)
  moreover have "insert ''CARAMELO_SERVICE'' (set ManagedVars) = set ManagedVars" by (rule insert_absorb) (simp add: ManagedVars_def)
  ultimately show ?thesis unfolding managedVars_def Let_def by (simp only: dom_fun_upd option.simps if_False split: if_split) blast
qed

lemma expandService_dom: "expandService p l = Inr vs \<Longrightarrow> expandService p l' = Inr vs' \<Longrightarrow> dom vs = dom vs'"
proof -
  assume "expandService p l = Inr vs" "expandService p l' = Inr vs'"
  then obtain app own app' own' where e: "Expand (sp_app_env p) (ContextWith (sp_views p) ViewNetwork l) = Inr app"
    "Expand (sp_env p) (ContextWith (sp_views p) ViewNetwork l) = Inr own"
    "Expand (sp_app_env p) (ContextWith (sp_views p) ViewNetwork l') = Inr app'"
    "Expand (sp_env p) (ContextWith (sp_views p) ViewNetwork l') = Inr own'"
    and vs: "dom vs = dom (managedVars (sp_rec p) (map_of app ++ map_of own) (sp_name p)) \<union> (if sp_port p > 0 then {''PORT''} else {})"
      "dom vs' = dom (managedVars (sp_rec p) (map_of app' ++ map_of own') (sp_name p)) \<union> (if sp_port p > 0 then {''PORT''} else {})"
    by (auto simp: expandService_def Let_def split: sum.split_asm)
  have "dom (map_of app ++ map_of own) = dom (map_of app' ++ map_of own')" using Expand_keys e by (metis dom_map_add)
  then have "dom (managedVars (sp_rec p) (map_of app ++ map_of own) (sp_name p)) =
      dom (managedVars (sp_rec p) (map_of app' ++ map_of own') (sp_name p))"
    by (simp only: dom_managedVars)
  then show ?thesis by (simp add: vs)
qed


lemma ensure_passwords_kept:
  assumes "ensure_passwords vault generate store True ds t = Inr t'"
  shows "map_of (sx_values t) \<subseteq>\<^sub>m map_of (sx_values t') \<and>
      (\<forall>dep \<in> set ds. has_password dep \<longrightarrow> map_of (sx_values t') (DepPasswordSecret (dep_Name dep)) \<noteq> None) \<and>
      (\<not> vault \<longrightarrow> t' = t)"
  using assms
proof (induction ds arbitrary: t)
  case (Cons dep ds)
  let ?n = "DepPasswordSecret (dep_Name dep)"
  show ?case
  proof (cases "map_of (sx_values t) ?n \<noteq> None \<or> \<not> has_password dep")
    case True
    then have "ensure_passwords vault generate store True ds t = Inr t'" using Cons.prems by (auto simp: Let_def split: if_splits)
    from Cons.IH[OF this] True show ?thesis by (auto simp: map_le_def dom_def)
  next
    case False
    then obtain v where v: "vault" "ensure_passwords vault generate store True ds (t\<lparr>sx_values := AList.update ?n v (sx_values t)\<rparr>) = Inr t'"
      using Cons.prems by (auto simp: Let_def split: if_splits option.split_asm)
    have up: "map_of (AList.update ?n v (sx_values t)) \<subseteq>\<^sub>m map_of (sx_values t')" using Cons.IH[OF v(2)] by simp
    have "map_of (sx_values t) \<subseteq>\<^sub>m map_of (AList.update ?n v (sx_values t))"
      using False by (auto simp: map_le_def update_conv')
    moreover have "map_of (sx_values t') ?n = Some v" using up unfolding map_le_def by (auto simp: update_conv')
    ultimately show ?thesis using Cons.IH[OF v(2)] up v(1) map_le_trans by auto
  qed
qed simp

text \<open>C10: in a release environment no dependency that is known to need a password runs with the default one. When the passwords
  have been ensured, each of these dependencies has a password that is a secret, its container gets that password, and a
  secret that existed before is kept. Without a vault to keep a missing one, ensuring them fails.\<close>

theorem release_passwords:
  assumes "ensureDepPasswords vault generate store True deps s = Inr s'"
  shows "(\<forall>dep \<in> set deps. has_password dep \<longrightarrow> depPasswordIsSecret dep s' \<and>
      (\<exists>k v. known_Lookup (dep_Image dep) = Some k \<and> password s' (dep_Name dep) = Some (v, True) \<and>
        depEnv dep s' (ki_PasswordVar k) = Some v)) \<and>
    map_of (sx_values s) \<subseteq>\<^sub>m map_of (sx_values s') \<and>
    (\<forall>dep \<in> set deps. has_password dep \<longrightarrow> \<not> vault \<longrightarrow> map_of (sx_values s) (DepPasswordSecret (dep_Name dep)) \<noteq> None)"
proof -
  have defaults: "withDepDefaults t deps True = t" for t by (cases deps) auto
  have kept: "map_of (sx_values t) \<subseteq>\<^sub>m map_of (sx_values t') \<and>
      (\<forall>dep \<in> set ds. has_password dep \<longrightarrow> map_of (sx_values t') (DepPasswordSecret (dep_Name dep)) \<noteq> None) \<and>
      (\<not> vault \<longrightarrow> t' = t)"
    if "ensure_passwords vault generate store True ds t = Inr t'" for ds t t'
    using that by (rule ensure_passwords_kept)
  show ?thesis
  proof (intro conjI ballI impI)
    fix dep assume dep: "dep \<in> set deps" "has_password dep"
    obtain v where v: "map_of (sx_values s') (DepPasswordSecret (dep_Name dep)) = Some v"
      using kept[of deps s s'] assms dep by (auto simp: ensureDepPasswords_def defaults)
    obtain k where k: "known_Lookup (dep_Image dep) = Some k" "ki_PasswordVar k \<noteq> []"
      using dep(2) by (auto simp: has_password_def split: option.splits)
    show "depPasswordIsSecret dep s'" using dep(2) v by (simp add: depPasswordIsSecret_def password_def)
    show "\<exists>k v. known_Lookup (dep_Image dep) = Some k \<and> password s' (dep_Name dep) = Some (v, True) \<and>
        depEnv dep s' (ki_PasswordVar k) = Some v"
      using k v by (auto simp: depEnv_def password_def)
  next
    show "map_of (sx_values s) \<subseteq>\<^sub>m map_of (sx_values s')"
      using kept[of deps s s'] assms by (simp add: ensureDepPasswords_def defaults)
    show "map_of (sx_values s) (DepPasswordSecret (dep_Name dep)) \<noteq> None"
      if "dep \<in> set deps" "has_password dep" "\<not> vault" for dep
      using kept[of deps s s'] assms that by (auto simp: ensureDepPasswords_def defaults)
  qed
qed

section \<open>Examples\<close>

definition sample_env :: EnvRecord where
  "sample_env = \<lparr>env_ID = 1, env_App = ''shop'', env_Name = ''main'', env_Branch = [], env_Commit = [], env_Worktree = [],
     env_PortBase = 20000, env_PortCount = 20, env_Status = [], env_ConfigJSON = [], env_VarsJSON = [], env_VPNIP = [], env_Mode = [],
     env_Protected = False, env_ReleaseID = 0, env_DeployID = 0, env_CreatedBy = [], env_Owner = [], env_Via = [], env_PushedAt = 0,
     env_PushedBy = [], env_SourceBranch = [], env_CreatedAt = 0, env_UpdatedAt = 0\<rparr>"

definition sample_secrets :: "string \<Rightarrow> envSecrets" where
  "sample_secrets v = newEnvSecrets [(''KEY'', v)] []"

definition sample_plan :: "string \<Rightarrow> service_plan" where
  "sample_plan v = \<lparr>sp_rec = sample_env, sp_app_env = [], sp_views = \<lparr>vw_Host = example_context, vw_Network = example_context\<rparr>, sp_port = 0,
     sp_name = ''web'', sp_env = [(''URL'', ''u:${secrets.KEY}'')], sp_secrets = sample_secrets v\<rparr>"

lemma sample_expands:
  "expandService (sample_plan v) \<lparr>sec_Lookup = Some [''KEY'' \<mapsto> x], sec_DepPassword = d\<rparr> =
     Inr (managedVars sample_env [''URL'' \<mapsto> ''u:'' @ x] ''web'')"
proof -
  let ?ctx = "ContextWith (sp_views (sample_plan v)) ViewNetwork \<lparr>sec_Lookup = Some [''KEY'' \<mapsto> x], sec_DepPassword = d\<rparr>"
  let ?ts = "[Byte CHR ''u'', Byte CHR '':'', Reference ''secrets.KEY'']"
  have key: "varName ''KEY''" by code_simp
  then have "ctx_lookup ?ctx ''secrets.KEY'' = Inr (Some x)"
    by (simp add: ctx_lookup_def ContextWith_def WithSecrets_def CutPrefix_def HasPrefix_def lookupSecret_def)
  moreover have "render ?ts = ''u:${secrets.KEY}''" by (simp add: render_def)
  ultimately have "ExpandString ''u:${secrets.KEY}'' ?ctx = Inr (''u:'' @ x)"
    using mapRefs_render[of ?ts] by (simp add: ExpandString_def tokens_ok_def)
  then show ?thesis by (simp add: expandService_def Expand_def expand_var_def sample_plan_def)
qed


theorem release_passwords_witness:
  "\<exists>s'. ensureDepPasswords True (\<lambda>_. Some ''pw'') (\<lambda>_ _. True) True [\<lparr>dep_Name = ''db'', dep_Image = ''postgres:16'', dep_Port = 5432, dep_Env = [], dep_Ready = [], dep_Data = []\<rparr>]
       (sample_secrets ''abc'') = Inr s' \<and> password s' ''db'' = Some (''pw'', True) \<and>
     depPasswordIsSecret \<lparr>dep_Name = ''db'', dep_Image = ''postgres:16'', dep_Port = 5432, dep_Env = [], dep_Ready = [], dep_Data = []\<rparr> s'"
proof -
  let ?dep = "\<lparr>dep_Name = ''db'', dep_Image = ''postgres:16'', dep_Port = 5432, dep_Env = [], dep_Ready = [], dep_Data = []\<rparr>"
  have n: "DepPasswordSecret ''db'' = ''DB_PASSWORD''" "ImageName ''postgres:16'' = ''postgres''" by code_simp+
  then have pw: "has_password ?dep" by (simp add: has_password_def known_Lookup_def Known_def Let_def)
  obtain s' where s': "ensureDepPasswords True (\<lambda>_. Some ''pw'') (\<lambda>_ _. True) True [?dep] (sample_secrets ''abc'') = Inr s'"
    "password s' ''db'' = Some (''pw'', True)"
    using pw by (auto simp: ensureDepPasswords_def sample_secrets_def newEnvSecrets_def n password_def)
  then show ?thesis using release_passwords[OF s'(1)] pw by auto
qed

end
