(* ===== verification/ReleaseStore.thy ===== *)
theory ReleaseStore
  imports EnvStore GoStrings "HOL-Library.List_Lexorder" "HOL-Library.Char_ord"
begin

text \<open>
  The tables of releases and deploys (\<^verbatim>\<open>internal/state/release.go\<close>), what a rollback goes back to (\<^verbatim>\<open>internal/env/deploy.go\<close>) and
  which images of releases are removed (\<^verbatim>\<open>Prune\<close> of \<^verbatim>\<open>internal/release/builder.go\<close>). A reference to a release is its id, and 0
  where there is none; deleting a release clears the references to it, and deleting an environment deletes its
  deploys, as the foreign keys say. Decoding the images of a release is an argument, and so are the answers of the
  container runtime.
\<close>

section \<open>Releases and deploys\<close>

record ReleaseRow =
  rel_ID :: int
  rel_App :: string
  rel_Commit :: string
  rel_Tree :: string
  rel_Ref :: string
  rel_ConfigJSON :: string
  rel_ImagesJSON :: string
  rel_BuiltBy :: string
  rel_Machine :: string
  rel_BuiltAt :: gtime

record DeployRow =
  dep_ID :: int
  dep_EnvID :: int
  dep_ReleaseID :: int
  dep_FromReleaseID :: int
  dep_Kind :: string
  dep_Status :: string
  dep_Reason :: string
  dep_Identity :: string
  dep_StartedAt :: gtime
  dep_FinishedAt :: gtime
  dep_Error :: string

definition DeployKindDeploy :: string where "DeployKindDeploy = ''deploy''"
definition DeployKindRollback :: string where "DeployKindRollback = ''rollback''"

definition DeployBuilding :: string where "DeployBuilding = ''building''"
definition DeployMigrating :: string where "DeployMigrating = ''migrating''"
definition DeployStarting :: string where "DeployStarting = ''starting''"
definition DeployChecking :: string where "DeployChecking = ''checking''"
definition DeployWatching :: string where "DeployWatching = ''watching''"
definition DeployPromoted :: string where "DeployPromoted = ''promoted''"
definition DeployRolledBack :: string where "DeployRolledBack = ''rolled_back''"
definition DeployFailed :: string where "DeployFailed = ''failed''"

lemmas deploy_statuses = DeployBuilding_def DeployMigrating_def DeployStarting_def DeployChecking_def DeployWatching_def
  DeployPromoted_def DeployRolledBack_def DeployFailed_def

definition DeployDone :: "string \<Rightarrow> bool" where
  "DeployDone status \<longleftrightarrow> status \<in> {DeployPromoted, DeployRolledBack, DeployFailed}"

record release_db =
  rd_envs :: env_table
  rd_releases :: "ReleaseRow list"
  rd_next_release :: int
  rd_deploys :: "DeployRow list"
  rd_next_deploy :: int

datatype release_error =
    ReleaseNoApp | ReleaseNoTree | ReleaseExists | ReleaseNoSuchApp string | ReleaseNotFound
  | DeployNoEnv | DeployNoStatus | DeployNoSuch int | DeployNoID | DeployNotFound | SetEnvFailed env_error

definition AddRelease :: "gtime \<Rightarrow> release_db \<Rightarrow> ReleaseRow \<Rightarrow> release_error + (ReleaseRow \<times> release_db)" where
  "AddRelease now db r0 =
     (if rel_App r0 = [] then Inl ReleaseNoApp
      else if rel_Tree r0 = [] then Inl ReleaseNoTree
      else
        (let r = (if is_zero (rel_BuiltAt r0) then r0\<lparr>rel_BuiltAt := now\<rparr> else r0)
         in if \<exists>x \<in> set (rd_releases db). rel_App x = rel_App r \<and> rel_Tree x = rel_Tree r then Inl ReleaseExists
            else if rel_App r \<notin> set (apps (rd_envs db)) then Inl (ReleaseNoSuchApp (rel_App r))
            else (let row = r\<lparr>rel_ID := rd_next_release db\<rparr>
                  in Inr (row, db\<lparr>rd_releases := rd_releases db @ [row], rd_next_release := rd_next_release db + 1\<rparr>))))"

definition Release :: "release_db \<Rightarrow> int \<Rightarrow> release_error + ReleaseRow" where
  "Release db i = (case find (\<lambda>r. rel_ID r = i) (rd_releases db) of None \<Rightarrow> Inl ReleaseNotFound | Some r \<Rightarrow> Inr r)"

definition ReleaseByTree :: "release_db \<Rightarrow> string \<Rightarrow> string \<Rightarrow> release_error + ReleaseRow" where
  "ReleaseByTree db app tree =
     (case find (\<lambda>r. rel_App r = app \<and> rel_Tree r = tree) (rd_releases db) of None \<Rightarrow> Inl ReleaseNotFound | Some r \<Rightarrow> Inr r)"

text \<open>The newest first; a limit that is not positive is none.\<close>

definition limited :: "int \<Rightarrow> 'a list \<Rightarrow> 'a list" where
  "limited limit xs = (if limit > 0 then take (nat limit) xs else xs)"

definition Releases :: "release_db \<Rightarrow> string \<Rightarrow> int \<Rightarrow> ReleaseRow list" where
  "Releases db app limit =
     limited limit (rev (if app = [] then rd_releases db else filter (\<lambda>r. rel_App r = app) (rd_releases db)))"

definition clear_release :: "int \<Rightarrow> DeployRow \<Rightarrow> DeployRow" where
  "clear_release i d =
     d\<lparr>dep_ReleaseID := (if dep_ReleaseID d = i then 0 else dep_ReleaseID d),
       dep_FromReleaseID := (if dep_FromReleaseID d = i then 0 else dep_FromReleaseID d)\<rparr>"

definition DeleteRelease :: "release_db \<Rightarrow> int \<Rightarrow> release_db" where
  "DeleteRelease db i =
     db\<lparr>rd_releases := filter (\<lambda>r. rel_ID r \<noteq> i) (rd_releases db), rd_deploys := map (clear_release i) (rd_deploys db),
        rd_envs := (rd_envs db)\<lparr>rows := map (\<lambda>e. if env_ReleaseID e = i then e\<lparr>env_ReleaseID := 0\<rparr> else e) (rows (rd_envs db))\<rparr>\<rparr>"

text \<open>A reference is to no release or to one that exists.\<close>

definition release_ref :: "release_db \<Rightarrow> int \<Rightarrow> bool" where
  "release_ref db i \<longleftrightarrow> i = 0 \<or> i \<in> rel_ID ` set (rd_releases db)"

definition CreateDeploy :: "gtime \<Rightarrow> release_db \<Rightarrow> DeployRow \<Rightarrow> release_error + (DeployRow \<times> release_db)" where
  "CreateDeploy now db d0 =
     (if dep_EnvID d0 = 0 then Inl DeployNoEnv
      else if dep_Status d0 = [] then Inl DeployNoStatus
      else
        (let d1 = (if dep_Kind d0 = [] then d0\<lparr>dep_Kind := DeployKindDeploy\<rparr> else d0);
             d = (if is_zero (dep_StartedAt d1) then d1\<lparr>dep_StartedAt := now\<rparr> else d1)
         in if dep_EnvID d \<notin> env_ID ` set (rows (rd_envs db)) \<or> \<not> release_ref db (dep_ReleaseID d) \<or> \<not> release_ref db (dep_FromReleaseID d)
            then Inl (DeployNoSuch (dep_EnvID d))
            else (let row = d\<lparr>dep_ID := rd_next_deploy db\<rparr>
                  in Inr (row, db\<lparr>rd_deploys := rd_deploys db @ [row], rd_next_deploy := rd_next_deploy db + 1\<rparr>))))"

definition UpdateDeploy :: "release_db \<Rightarrow> DeployRow \<Rightarrow> release_error + release_db" where
  "UpdateDeploy db d =
     (if dep_ID d = 0 then Inl DeployNoID
      else if dep_Status d = [] then Inl DeployNoStatus
      else if dep_ID d \<notin> dep_ID ` set (rd_deploys db) then Inl DeployNotFound
      else if \<not> release_ref db (dep_ReleaseID d) \<or> \<not> release_ref db (dep_FromReleaseID d) then Inl (DeployNoSuch (dep_EnvID d))
      else Inr (db\<lparr>rd_deploys := map (\<lambda>x. if dep_ID x = dep_ID d
             then x\<lparr>dep_ReleaseID := dep_ReleaseID d, dep_FromReleaseID := dep_FromReleaseID d,
                    dep_Kind := nonEmptyOr (dep_Kind d) DeployKindDeploy, dep_Status := dep_Status d, dep_Reason := dep_Reason d,
                    dep_FinishedAt := dep_FinishedAt d, dep_Error := dep_Error d\<rparr>
             else x) (rd_deploys db)\<rparr>))"

definition DeployOf :: "release_db \<Rightarrow> int \<Rightarrow> release_error + DeployRow" where
  "DeployOf db i = (case find (\<lambda>d. dep_ID d = i) (rd_deploys db) of None \<Rightarrow> Inl DeployNotFound | Some d \<Rightarrow> Inr d)"

definition Deploys :: "release_db \<Rightarrow> int \<Rightarrow> int \<Rightarrow> DeployRow list" where
  "Deploys db envID limit =
     limited limit (rev (if envID = 0 then rd_deploys db else filter (\<lambda>d. dep_EnvID d = envID) (rd_deploys db)))"

definition UnfinishedDeploys :: "release_db \<Rightarrow> DeployRow list" where
  "UnfinishedDeploys db = filter (\<lambda>d. \<not> DeployDone (dep_Status d)) (rd_deploys db)"

definition set_env :: "release_db \<Rightarrow> int \<Rightarrow> (EnvRecord \<Rightarrow> EnvRecord) \<Rightarrow> release_error + release_db" where
  "set_env db i f = (case update_row (rd_envs db) i f of Inl e \<Rightarrow> Inl (SetEnvFailed e) | Inr t \<Rightarrow> Inr (db\<lparr>rd_envs := t\<rparr>))"

text \<open>An update that breaks a foreign key fails, but only when there is a row to update.\<close>

definition SetEnvRelease :: "gtime \<Rightarrow> release_db \<Rightarrow> int \<Rightarrow> int \<Rightarrow> release_error + release_db" where
  "SetEnvRelease now db envID releaseID =
     (if envID \<in> env_ID ` set (rows (rd_envs db)) \<and> \<not> release_ref db releaseID then Inl ReleaseNotFound
      else set_env db envID (\<lambda>r. r\<lparr>env_ReleaseID := releaseID, env_UpdatedAt := now\<rparr>))"

definition SetEnvDeploy :: "gtime \<Rightarrow> release_db \<Rightarrow> int \<Rightarrow> int \<Rightarrow> release_error + release_db" where
  "SetEnvDeploy now db envID deployID =
     (if envID \<in> env_ID ` set (rows (rd_envs db)) \<and> deployID \<noteq> 0 \<and> deployID \<notin> dep_ID ` set (rd_deploys db) then Inl DeployNotFound
      else set_env db envID (\<lambda>r. r\<lparr>env_DeployID := deployID, env_UpdatedAt := now\<rparr>))"

text \<open>An environment that is deleted takes its deploys with it, and the references to these are cleared.\<close>

definition delete_env :: "release_db \<Rightarrow> int \<Rightarrow> release_db" where
  "delete_env db i =
     (let gone = dep_ID ` set (filter (\<lambda>d. dep_EnvID d = i) (rd_deploys db));
          t = DeleteEnv (rd_envs db) i
      in db\<lparr>rd_envs := t\<lparr>rows := map (\<lambda>e. if env_DeployID e \<in> gone then e\<lparr>env_DeployID := 0\<rparr> else e) (rows t)\<rparr>,
            rd_deploys := filter (\<lambda>d. dep_EnvID d \<noteq> i) (rd_deploys db)\<rparr>)"

text \<open>A new environment may come with a release and a deploy, which have to exist; the error is that of a missing app.\<close>

definition create_env :: "gtime \<Rightarrow> release_db \<Rightarrow> EnvRecord \<Rightarrow> env_error + (EnvRecord \<times> release_db)" where
  "create_env now db r =
     (case CreateEnv now (rd_envs db) r of
        Inl e \<Rightarrow> Inl e
      | Inr (row, t) \<Rightarrow>
          if \<not> release_ref db (env_ReleaseID r) \<or> env_DeployID r \<notin> insert 0 (dep_ID ` set (rd_deploys db))
          then Inl (NoSuchApp (env_Name r) (env_App r)) else Inr (row, db\<lparr>rd_envs := t\<rparr>))"

section \<open>What to go back to\<close>

text \<open>A release as the daemon sees it, with its images by service. Decoding the images and the configuration may fail.\<close>

type_synonym release = "ReleaseRow \<times> (string \<times> string) list"

record decoder =
  dc_images :: "string \<Rightarrow> (string \<times> string) list option"
  dc_config :: "string \<Rightarrow> bool"

datatype rollback_error =
    NoImages int | NoConfig int | NoRelease string | ReleaseOfApp string string | NothingToGoBackTo | StoreError release_error
  | DeployInFlight int string

definition releaseFromRow :: "decoder \<Rightarrow> ReleaseRow \<Rightarrow> rollback_error + release" where
  "releaseFromRow dc r =
     (case (if rel_ImagesJSON r = [] then Some [] else dc_images dc (rel_ImagesJSON r)) of
        None \<Rightarrow> Inl (NoImages (rel_ID r))
      | Some is \<Rightarrow> if rel_ConfigJSON r \<noteq> [] \<and> \<not> dc_config dc (rel_ConfigJSON r) then Inl (NoConfig (rel_ID r)) else Inr (r, is))"

definition releaseOf :: "decoder \<Rightarrow> release_db \<Rightarrow> int \<Rightarrow> rollback_error + release option" where
  "releaseOf dc db i =
     (if i = 0 then Inr None
      else (case Release db i of Inl _ \<Rightarrow> Inr None | Inr row \<Rightarrow> map_ok Some (releaseFromRow dc row)))"

abbreviation (input) TreeLen :: nat where
  "TreeLen \<equiv> 12"

definition ShortTree :: "string \<Rightarrow> string" where
  "ShortTree tree = (let t = TrimSpace tree in if length t > TreeLen then take TreeLen t else t)"

definition releaseNamed :: "decoder \<Rightarrow> release_db \<Rightarrow> string \<Rightarrow> string \<Rightarrow> rollback_error + release" where
  "releaseNamed dc db app to =
     (case Atoi to of
        Some i \<Rightarrow>
          if i > 0 then
            (case Release db i of
               Inl _ \<Rightarrow> Inl (NoRelease to)
             | Inr row \<Rightarrow> if rel_App row \<noteq> app then Inl (ReleaseOfApp to (rel_App row)) else releaseFromRow dc row)
          else (case ReleaseByTree db app (ShortTree to) of Inl _ \<Rightarrow> Inl (NoRelease to) | Inr row \<Rightarrow> releaseFromRow dc row)
      | None \<Rightarrow> (case ReleaseByTree db app (ShortTree to) of Inl _ \<Rightarrow> Inl (NoRelease to) | Inr row \<Rightarrow> releaseFromRow dc row))"

fun previous_release :: "decoder \<Rightarrow> release_db \<Rightarrow> int \<Rightarrow> DeployRow list \<Rightarrow> rollback_error + release" where
  "previous_release dc db current [] = Inl NothingToGoBackTo"
| "previous_release dc db current (d # ds) =
     (if dep_Status d \<noteq> DeployPromoted \<or> dep_ReleaseID d = 0 \<or> dep_ReleaseID d = current then previous_release dc db current ds
      else (case releaseOf dc db (dep_ReleaseID d) of
              Inl e \<Rightarrow> Inl e
            | Inr None \<Rightarrow> previous_release dc db current ds
            | Inr (Some rel) \<Rightarrow> Inr rel))"

definition rollbackTarget :: "decoder \<Rightarrow> release_db \<Rightarrow> EnvRecord \<Rightarrow> string \<Rightarrow> rollback_error + release" where
  "rollbackTarget dc db rec to =
     (if to \<noteq> [] then releaseNamed dc db (env_App rec) to
      else previous_release dc db (env_ReleaseID rec) (Deploys db (env_ID rec) 0))"

definition noDeployInFlight :: "release_db \<Rightarrow> EnvRecord \<Rightarrow> rollback_error + unit" where
  "noDeployInFlight db rec =
     (if env_DeployID rec = 0 then Inr ()
      else (case DeployOf db (env_DeployID rec) of
              Inl _ \<Rightarrow> Inr ()
            | Inr row \<Rightarrow> if DeployDone (dep_Status row) then Inr () else Inl (DeployInFlight (dep_ID row) (dep_Status row))))"

section \<open>Pruning images\<close>

abbreviation (input) DefaultKeep :: int where "DefaultKeep \<equiv> 5"
abbreviation (input) MaxKeep :: int where "MaxKeep \<equiv> 100"

definition keepCount :: "int \<Rightarrow> int" where
  "keepCount keep = (if keep \<le> 0 then DefaultKeep else if keep > MaxKeep then MaxKeep else keep)"

text \<open>The releases an environment deployed last: \<open>n\<close> is how many were kept so far.\<close>

fun keep_deployed :: "int \<Rightarrow> int \<Rightarrow> int list \<Rightarrow> DeployRow list \<Rightarrow> int list" where
  "keep_deployed keep n seen [] = []"
| "keep_deployed keep n seen (d # ds) =
     (if dep_ReleaseID d = 0 \<or> dep_ReleaseID d \<in> set seen then keep_deployed keep n seen ds
      else if n \<ge> keep then keep_deployed keep n (dep_ReleaseID d # seen) ds
      else dep_ReleaseID d # keep_deployed keep (n + 1) (dep_ReleaseID d # seen) ds)"

definition keepers :: "release_db \<Rightarrow> string \<Rightarrow> int \<Rightarrow> int list" where
  "keepers db app keep =
     (let envs = Envs (rd_envs db) app
      in concat (map (\<lambda>e. (if env_ReleaseID e \<noteq> 0 then [env_ReleaseID e] else []) @ keep_deployed keep 0 [] (Deploys db (env_ID e) 0)) envs) @
         concat (map (\<lambda>d. filter (\<lambda>i. i \<noteq> 0) [dep_ReleaseID d, dep_FromReleaseID d])
           (filter (\<lambda>d. dep_EnvID d \<in> set (map env_ID envs)) (UnfinishedDeploys db))))"

definition ImageList :: "release \<Rightarrow> string list" where
  "ImageList r = map snd (sort_key fst (snd r))"

text \<open>The container runtime: its images, and which calls fail.\<close>

record image_store =
  is_images :: "string list"
  is_look_fails :: "string \<Rightarrow> bool"
  is_remove_fails :: "string \<Rightarrow> bool"

datatype prune_error = PruneNoApp | LookFailed string | RemoveFailed string | PruneRelease rollback_error

fun prune_refs :: "string list \<Rightarrow> string list \<Rightarrow> string list \<Rightarrow> image_store \<Rightarrow> (prune_error + string list) \<times> image_store" where
  "prune_refs spared [] removed st = (Inr removed, st)"
| "prune_refs spared (ref # refs) removed st =
     (if ref \<in> set spared \<or> ref \<in> set removed then prune_refs spared refs removed st
      else if is_look_fails st ref then (Inl (LookFailed ref), st)
      else if ref \<notin> set (is_images st) then prune_refs spared refs removed st
      else if is_remove_fails st ref then (Inl (RemoveFailed ref), st)
      else prune_refs spared refs (ref # removed) (st\<lparr>is_images := filter (\<lambda>x. x \<noteq> ref) (is_images st)\<rparr>))"

definition Prune :: "decoder \<Rightarrow> release_db \<Rightarrow> string \<Rightarrow> int \<Rightarrow> image_store \<Rightarrow> (prune_error + string list) \<times> image_store" where
  "Prune dc db app keep0 st =
     (if TrimSpace app = [] then (Inl PruneNoApp, st)
      else (let ids = keepers db app (keepCount keep0)
            in case map_result (releaseFromRow dc) (Releases db app 0) of
                 Inl e \<Rightarrow> (Inl (PruneRelease e), st)
               | Inr rels \<Rightarrow>
                   (let spared = concat (map ImageList (filter (\<lambda>r. rel_ID (fst r) \<in> set ids) rels));
                        refs = concat (map ImageList (filter (\<lambda>r. rel_ID (fst r) \<notin> set ids) rels))
                    in case prune_refs spared refs [] st of
                         (Inl e, st') \<Rightarrow> (Inl e, st')
                       | (Inr removed, st') \<Rightarrow> (Inr (sort removed), st'))))"

section \<open>The images that stay\<close>

text \<open>The elements of a list in the order of their first occurrences.\<close>

definition firsts :: "'a list \<Rightarrow> 'a list" where
  "firsts xs = rev (remdups (rev xs))"

lemma remdups_snoc: "remdups (xs @ [x]) = filter (\<lambda>y. y \<noteq> x) (remdups xs) @ [x]"
  by (induction xs) auto

lemma firsts_simps [simp]: "firsts [] = []" "firsts (x # xs) = x # filter (\<lambda>y. y \<noteq> x) (firsts xs)"
  by (simp_all add: firsts_def remdups_snoc rev_filter)

definition deployed_releases :: "DeployRow list \<Rightarrow> int list" where
  "deployed_releases ds = firsts (filter (\<lambda>i. i \<noteq> 0) (map dep_ReleaseID ds))"

lemma keep_deployed_take:
  "keep_deployed keep n seen ds = take (nat (keep - n)) (filter (\<lambda>i. i \<notin> set seen) (deployed_releases ds))"
proof (induction keep n seen ds rule: keep_deployed.induct)
  case (2 keep n seen d ds)
  let ?x = "dep_ReleaseID d" and ?F = "deployed_releases ds"
  show ?case
  proof (cases "?x = 0 \<or> ?x \<in> set seen")
    case True
    then have "filter (\<lambda>i. i \<notin> set seen) (filter (\<lambda>y. y \<noteq> ?x) ?F) = filter (\<lambda>i. i \<notin> set seen) ?F" if "?x \<noteq> 0"
      using that by (auto intro!: filter_cong)
    then show ?thesis using True 2(1) by (auto simp: deployed_releases_def)
  next
    case False
    have f: "filter (\<lambda>i. i \<notin> set seen) (filter (\<lambda>y. y \<noteq> ?x) ?F) = filter (\<lambda>i. i \<notin> set (?x # seen)) ?F"
      by (auto intro!: filter_cong)
    have "deployed_releases (d # ds) = ?x # filter (\<lambda>y. y \<noteq> ?x) ?F" using False by (simp add: deployed_releases_def)
    moreover have "nat (keep - n) = Suc (nat (keep - (n + 1)))" if "\<not> keep \<le> n" using that by linarith
    ultimately show ?thesis using False 2(2,3) f by (cases "keep \<le> n") (auto simp: not_le)
  qed
qed (simp add: deployed_releases_def)

lemma keepers_iff:
  "i \<in> set (keepers db app keep) \<longleftrightarrow> i \<noteq> 0 \<and> (\<exists>e \<in> set (Envs (rd_envs db) app). env_ReleaseID e = i \<or>
     i \<in> set (take (nat keep) (deployed_releases (Deploys db (env_ID e) 0))) \<or>
     (\<exists>d \<in> set (UnfinishedDeploys db). dep_EnvID d = env_ID e \<and> i \<in> {dep_ReleaseID d, dep_FromReleaseID d}))"
proof -
  have "i \<in> set (take n (deployed_releases ds)) \<Longrightarrow> i \<noteq> 0" for n ds
    by (auto dest!: in_set_takeD simp: deployed_releases_def firsts_def)
  then show ?thesis by (auto simp: keepers_def Let_def keep_deployed_take simp del: filter.simps)
qed

lemma prune_refs_removes:
  assumes "prune_refs spared refs removed st = (r, st')"
  shows "set (is_images st') \<subseteq> set (is_images st)"
    and "x \<in> set (is_images st) \<Longrightarrow> x \<notin> set (is_images st') \<Longrightarrow> x \<in> set refs \<and> x \<notin> set spared"
proof -
  let ?removes = "\<lambda>refs st. set (is_images st') \<subseteq> set (is_images st) \<and>
    (x \<in> set (is_images st) \<longrightarrow> x \<notin> set (is_images st') \<longrightarrow> x \<in> set refs \<and> x \<notin> set spared)"
  have "?removes refs st"
    using assms
  proof (induction refs arbitrary: removed st)
    case (Cons ref refs)
    let ?nxt = "st\<lparr>is_images := filter (\<lambda>x. x \<noteq> ref) (is_images st)\<rparr>"
    consider (skip) "prune_refs spared refs removed st = (r, st')"
      | (failed) "st' = st"
      | (gone) "prune_refs spared refs (ref # removed) ?nxt = (r, st')" "ref \<notin> set spared"
      using Cons.prems by (auto split: if_splits)
    then show ?case
    proof cases
      case skip
      show ?thesis using Cons.IH[OF skip] by simp
    next
      case gone
      show ?thesis using Cons.IH[OF gone(1)] gone(2) by auto
    qed simp
  qed simp
  then show "set (is_images st') \<subseteq> set (is_images st)"
    and "x \<in> set (is_images st) \<Longrightarrow> x \<notin> set (is_images st') \<Longrightarrow> x \<in> set refs \<and> x \<notin> set spared" by blast+
qed

lemma prune_refs_complete:
  assumes "prune_refs spared refs removed st = (Inr out, st')" "set removed \<inter> set (is_images st) = {}"
  shows "set out = set removed \<union> (set (is_images st) - set (is_images st'))" (is "?out")
    and "\<forall>x \<in> set refs - set spared. x \<notin> set (is_images st')" (is "?gone")
proof -
  have "?out \<and> ?gone"
    using assms
  proof (induction refs arbitrary: removed st)
    case (Cons ref refs)
    let ?nxt = "st\<lparr>is_images := filter (\<lambda>x. x \<noteq> ref) (is_images st)\<rparr>"
    consider (skip) "prune_refs spared refs removed st = (Inr out, st')" "ref \<in> set spared \<or> ref \<notin> set (is_images st)"
      | (gone) "prune_refs spared refs (ref # removed) ?nxt = (Inr out, st')" "ref \<in> set (is_images st)"
      using Cons.prems by (auto split: if_splits)
    then show ?case
    proof cases
      case skip
      have "ref \<in> set spared \<or> ref \<notin> set (is_images st')" using skip(2) prune_refs_removes(1)[OF skip(1)] by blast
      then show ?thesis using Cons.IH[OF skip(1) Cons.prems(2)] by auto
    next
      case gone
      have imgs: "set (is_images ?nxt) = set (is_images st) - {ref}" by auto
      have "set (ref # removed) \<inter> set (is_images ?nxt) = {}" using Cons.prems(2) by auto
      note ih = Cons.IH[OF gone(1) this]
      have sub: "set (is_images st') \<subseteq> set (is_images st) - {ref}" using prune_refs_removes(1)[OF gone(1)] unfolding imgs .
      have "set out = set removed \<union> (set (is_images st) - set (is_images st'))"
        using ih[THEN conjunct1] sub gone(2) unfolding imgs by auto
      moreover have "\<forall>x \<in> set (ref # refs) - set spared. x \<notin> set (is_images st')" using ih[THEN conjunct2] sub by auto
      ultimately show ?thesis by blast
    qed
  qed auto
  then show ?out ?gone by blast+
qed

text \<open>A release that is needed: one that runs, one of those an environment deployed last, or one of a deploy in progress.\<close>

definition release_needed :: "release_db \<Rightarrow> string \<Rightarrow> int \<Rightarrow> int \<Rightarrow> bool" where
  "release_needed db app keep i \<longleftrightarrow> i \<noteq> 0 \<and> (\<exists>e \<in> set (Envs (rd_envs db) app). env_ReleaseID e = i \<or>
     i \<in> set (take (nat (keepCount keep)) (deployed_releases (Deploys db (env_ID e) 0))) \<or>
     (\<exists>d \<in> set (UnfinishedDeploys db). dep_EnvID d = env_ID e \<and> i \<in> {dep_ReleaseID d, dep_FromReleaseID d}))"

definition image_needed :: "release_db \<Rightarrow> string \<Rightarrow> int \<Rightarrow> release list \<Rightarrow> string \<Rightarrow> bool" where
  "image_needed db app keep rels ref \<longleftrightarrow> (\<exists>r \<in> set rels. release_needed db app keep (rel_ID (fst r)) \<and> ref \<in> set (ImageList r))"

lemma keepers_needed: "i \<in> set (keepers db app (keepCount keep)) \<longleftrightarrow> release_needed db app keep i"
  by (simp add: keepers_iff release_needed_def)

lemma Prune_cases:
  assumes "Prune dc db app keep st = (r, st')"
  obtains (failed) e where "r = Inl e" "st' = st"
  | (pruned) rels r0 where "map_result (releaseFromRow dc) (Releases db app 0) = Inr rels"
      "prune_refs (concat (map ImageList (filter (\<lambda>r. release_needed db app keep (rel_ID (fst r))) rels)))
         (concat (map ImageList (filter (\<lambda>r. \<not> release_needed db app keep (rel_ID (fst r))) rels))) [] st = (r0, st')"
      "r = map_ok sort r0"
  using assms
  by (auto simp: Prune_def Let_def keepers_needed map_ok_simps split: if_splits sum.splits prod.splits)

text \<open>C13: pruning the releases of an app removes no image that a needed release has. A release is needed when an environment
  of the app runs it, when it is one of the last releases an environment deployed, up to the number kept, or when a deploy
  in progress goes to it or comes from it. Every image removed belongs to a release of the app. When pruning succeeds
  it has removed every image of the app's releases that no needed release has, and it returns the
  removed images in order.\<close>

theorem Prune_correct:
  assumes "Prune dc db app keep st = (r, st')"
  shows "set (is_images st') \<subseteq> set (is_images st) \<and>
    (\<forall>ref \<in> set (is_images st) - set (is_images st').
      \<exists>rels. map_result (releaseFromRow dc) (Releases db app 0) = Inr rels \<and> \<not> image_needed db app keep rels ref \<and>
        (\<exists>x \<in> set rels. ref \<in> set (ImageList x))) \<and>
    (\<forall>out. r = Inr out \<longrightarrow> sorted out \<and> set out = set (is_images st) - set (is_images st') \<and>
      (\<exists>rels. map_result (releaseFromRow dc) (Releases db app 0) = Inr rels \<and>
        (\<forall>x \<in> set rels. \<forall>i \<in> set (ImageList x). \<not> image_needed db app keep rels i \<longrightarrow> i \<notin> set (is_images st'))))"
    (is "?sub \<and> ?spared \<and> ?all")
  using assms
proof (cases rule: Prune_cases)
  case (pruned rels r0)
  have spared: ?spared
    using prune_refs_removes(2)[OF pruned(2)] pruned(1) by (auto simp: image_needed_def)
  have all: ?all
  proof (intro allI impI)
    fix out assume "r = Inr out"
    with pruned(3) obtain removed where r0: "r0 = Inr removed" "out = sort removed" by (cases r0) (auto simp: map_ok_simps)
    note fin = prune_refs_complete[OF pruned(2)[unfolded r0(1)]]
    have "i \<notin> set (is_images st')" if "x \<in> set rels" "i \<in> set (ImageList x)" "\<not> image_needed db app keep rels i" for x i
      using fin(2) that by (force simp: image_needed_def)
    with fin(1) r0(2) pruned(1) show "sorted out \<and> set out = set (is_images st) - set (is_images st') \<and>
      (\<exists>rels. map_result (releaseFromRow dc) (Releases db app 0) = Inr rels \<and>
        (\<forall>x \<in> set rels. \<forall>i \<in> set (ImageList x). \<not> image_needed db app keep rels i \<longrightarrow> i \<notin> set (is_images st')))" by auto
  qed
  show ?thesis using prune_refs_removes(1)[OF pruned(2)] spared all by blast
qed simp

section \<open>The database stays consistent\<close>

text \<open>What may happen to the tables: every operation of the store that changes them.\<close>

inductive release_step :: "release_db \<Rightarrow> release_db \<Rightarrow> bool" where
  release_added: "AddRelease now db r = Inr (row, db') \<Longrightarrow> release_step db db'"
| release_deleted: "release_step db (DeleteRelease db i)"
| deploy_created: "CreateDeploy now db d = Inr (row, db') \<Longrightarrow> release_step db db'"
| deploy_updated: "UpdateDeploy db d = Inr db' \<Longrightarrow> release_step db db'"
| env_release: "SetEnvRelease now db i rel = Inr db' \<Longrightarrow> release_step db db'"
| env_deploy: "SetEnvDeploy now db i d = Inr db' \<Longrightarrow> release_step db db'"
| env_created: "create_env now db r = Inr (row, db') \<Longrightarrow> release_step db db'"
| env_status: "UpdateEnvStatus now (rd_envs db) i status = Inr t \<Longrightarrow> release_step db (db\<lparr>rd_envs := t\<rparr>)"
| env_updated: "UpdateEnv now (rd_envs db) r = Inr t \<Longrightarrow> release_step db (db\<lparr>rd_envs := t\<rparr>)"
| env_owner: "SetEnvOwner now (rd_envs db) i owner = Inr t \<Longrightarrow> release_step db (db\<lparr>rd_envs := t\<rparr>)"
| env_via: "SetEnvVia now (rd_envs db) i via = Inr t \<Longrightarrow> release_step db (db\<lparr>rd_envs := t\<rparr>)"
| env_pushed: "RecordEnvPush now (rd_envs db) i commit branch by_whom at = Inr t \<Longrightarrow> release_step db (db\<lparr>rd_envs := t\<rparr>)"
| env_deleted: "release_step db (delete_env db i)"

inductive release_reachable :: "string list \<Rightarrow> release_db \<Rightarrow> bool" for apps0 where
  start: "release_reachable apps0 \<lparr>rd_envs = \<lparr>rows = [], next_id = 1, apps = apps0\<rparr>, rd_releases = [], rd_next_release = 1,
            rd_deploys = [], rd_next_deploy = 1\<rparr>"
| more: "release_reachable apps0 db \<Longrightarrow> release_step db db' \<Longrightarrow> release_reachable apps0 db'"

definition ids_ok :: "int \<Rightarrow> int list \<Rightarrow> bool" where
  "ids_ok n ids \<longleftrightarrow> 0 < n \<and> sorted_wrt (<) ids \<and> (\<forall>i \<in> set ids. 0 < i \<and> i < n)"

definition deploy_ok :: "release_db \<Rightarrow> DeployRow \<Rightarrow> bool" where
  "deploy_ok db d \<longleftrightarrow> dep_EnvID d \<in> env_ID ` set (rows (rd_envs db)) \<and> release_ref db (dep_ReleaseID d) \<and>
     release_ref db (dep_FromReleaseID d) \<and> dep_Status d \<noteq> [] \<and> dep_Kind d \<noteq> []"

definition env_refs_ok :: "release_db \<Rightarrow> EnvRecord \<Rightarrow> bool" where
  "env_refs_ok db e \<longleftrightarrow> release_ref db (env_ReleaseID e) \<and> env_DeployID e \<in> insert 0 (dep_ID ` set (rd_deploys db))"

definition release_db_ok :: "release_db \<Rightarrow> bool" where
  "release_db_ok db \<longleftrightarrow> table_inv (rd_envs db) \<and>
     ids_ok (rd_next_release db) (map rel_ID (rd_releases db)) \<and> ids_ok (rd_next_deploy db) (map dep_ID (rd_deploys db)) \<and>
     distinct (map (\<lambda>r. (rel_App r, rel_Tree r)) (rd_releases db)) \<and>
     (\<forall>r \<in> set (rd_releases db). rel_App r \<noteq> [] \<and> rel_Tree r \<noteq> []) \<and>
     (\<forall>d \<in> set (rd_deploys db). deploy_ok db d) \<and> (\<forall>e \<in> set (rows (rd_envs db)). env_refs_ok db e)"

lemma ids_ok_snoc [simp]: "ids_ok n ids \<Longrightarrow> ids_ok (n + 1) (ids @ [n])"
  by (auto simp: ids_ok_def sorted_wrt_append)

lemma ids_ok_filter: "ids_ok n (map f xs) \<Longrightarrow> ids_ok n (map f (filter P xs))"
  by (auto simp: ids_ok_def sorted_wrt_map sorted_wrt_filter)

lemma db_ok_AddRelease:
  assumes "AddRelease now db r = Inr (row, db')" "release_db_ok db"
  shows "release_db_ok db'"
proof -
  from assms(1) have row: "rel_ID row = rd_next_release db" "rel_App row \<noteq> []" "rel_Tree row \<noteq> []"
      "(rel_App row, rel_Tree row) \<notin> (\<lambda>r. (rel_App r, rel_Tree r)) ` set (rd_releases db)"
      "db' = db\<lparr>rd_releases := rd_releases db @ [row], rd_next_release := rd_next_release db + 1\<rparr>"
    by (auto simp: AddRelease_def Let_def split: if_splits)
  have "release_ref db i \<Longrightarrow> release_ref db' i" for i by (auto simp: row(5) release_ref_def)
  with assms(2) row(1-4) show ?thesis by (auto simp: row(5) release_db_ok_def deploy_ok_def env_refs_ok_def)
qed

lemma release_ref_cong [simp]:
  "release_ref (db\<lparr>rd_envs := t\<rparr>) = release_ref db" "release_ref (db\<lparr>rd_deploys := ds\<rparr>) = release_ref db"
  "release_ref (db\<lparr>rd_next_deploy := n\<rparr>) = release_ref db"
  by (auto simp: release_ref_def fun_eq_iff)

lemma db_ok_CreateDeploy:
  assumes "CreateDeploy now db d = Inr (row, db')" "release_db_ok db"
  shows "release_db_ok db'"
proof -
  from assms(1) have "dep_ID row = rd_next_deploy db" "deploy_ok db row"
      "db' = db\<lparr>rd_deploys := rd_deploys db @ [row], rd_next_deploy := rd_next_deploy db + 1\<rparr>"
    by (auto simp: CreateDeploy_def Let_def deploy_ok_def DeployKindDeploy_def split: if_splits)
  with assms(2) show ?thesis by (auto simp: release_db_ok_def deploy_ok_def env_refs_ok_def)
qed

lemma db_ok_UpdateDeploy:
  assumes "UpdateDeploy db d = Inr db'" "release_db_ok db"
  shows "release_db_ok db'"
proof -
  from assms(1) obtain f where f: "db' = db\<lparr>rd_deploys := map f (rd_deploys db)\<rparr>" "\<And>x. dep_ID (f x) = dep_ID x"
      "\<And>x. deploy_ok db x \<Longrightarrow> deploy_ok db (f x)"
    by (auto simp: UpdateDeploy_def deploy_ok_def nonEmptyOr_def DeployKindDeploy_def split: if_splits)
  have "map dep_ID (map f (rd_deploys db)) = map dep_ID (rd_deploys db)" using f(2) by simp
  with assms(2) f(3) show ?thesis
    by (auto simp: f(1) release_db_ok_def deploy_ok_def env_refs_ok_def image_image f(2) simp del: map_map)
qed

text \<open>An update of the environments that keeps the ids and whose new references exist.\<close>

lemma db_ok_update_row:
  assumes "release_db_ok db" "update_row (rd_envs db) i f = Inr t" "same_keys f"
    and "\<And>e. e \<in> set (rows (rd_envs db)) \<Longrightarrow> env_ID e = i \<Longrightarrow> env_refs_ok db e \<Longrightarrow> env_refs_ok db (f e)"
  shows "release_db_ok (db\<lparr>rd_envs := t\<rparr>)"
proof -
  from assms(2) have t: "rows t = map (\<lambda>r. if env_ID r = i then f r else r) (rows (rd_envs db))"
    by (auto simp: update_row_def split: if_splits)
  have "env_ID ` set (rows t) = env_ID ` set (rows (rd_envs db))"
    using update_row_keeps(1)[OF assms(3,2)] by (metis list.set_map)
  moreover have "table_inv t" using assms(1) by (intro table_inv_update_row[OF _ assms(3,2)]) (simp add: release_db_ok_def)
  moreover have "\<forall>e \<in> set (rows t). env_refs_ok db e" using assms(1,4) by (auto simp: release_db_ok_def t)
  ultimately show ?thesis using assms(1) by (simp add: release_db_ok_def deploy_ok_def env_refs_ok_def)
qed

lemma db_ok_env_updates:
  assumes "release_db_ok db"
  shows "UpdateEnvStatus now (rd_envs db) i status = Inr t \<Longrightarrow> release_db_ok (db\<lparr>rd_envs := t\<rparr>)"
    and "UpdateEnv now (rd_envs db) r = Inr t \<Longrightarrow> release_db_ok (db\<lparr>rd_envs := t\<rparr>)"
    and "SetEnvOwner now (rd_envs db) i owner = Inr t \<Longrightarrow> release_db_ok (db\<lparr>rd_envs := t\<rparr>)"
    and "SetEnvVia now (rd_envs db) i via = Inr t \<Longrightarrow> release_db_ok (db\<lparr>rd_envs := t\<rparr>)"
    and "RecordEnvPush now (rd_envs db) i commit branch by_whom at = Inr t \<Longrightarrow> release_db_ok (db\<lparr>rd_envs := t\<rparr>)"
  by (auto simp: UpdateEnvStatus_def UpdateEnv_def SetEnvOwner_def SetEnvVia_def RecordEnvPush_def Let_def
      split: if_splits intro!: db_ok_update_row[OF assms] simp: env_refs_ok_def)

lemma db_ok_set_env:
  assumes "release_db_ok db"
  shows "SetEnvRelease now db i rel = Inr db' \<Longrightarrow> release_db_ok db'"
    and "SetEnvDeploy now db i d = Inr db' \<Longrightarrow> release_db_ok db'"
  by (auto simp: SetEnvRelease_def SetEnvDeploy_def set_env_def same_keys_def env_refs_ok_def split: if_splits sum.splits
      intro!: db_ok_update_row[OF assms])

lemma db_ok_create_env:
  assumes "create_env now db r = Inr (row', db')" "release_db_ok db"
  shows "release_db_ok db'"
proof -
  from assms(1) obtain t where t: "CreateEnv now (rd_envs db) r = Inr (row', t)" "db' = db\<lparr>rd_envs := t\<rparr>"
      "release_ref db (env_ReleaseID r)" "env_DeployID r \<in> insert 0 (dep_ID ` set (rd_deploys db))"
    by (auto simp: create_env_def split: sum.splits if_splits)
  from t(1) obtain row where "rows t = rows (rd_envs db) @ [row]" "env_ReleaseID row = env_ReleaseID r" "env_DeployID row = env_DeployID r"
    by (auto simp: CreateEnv_def Let_def split: if_splits)
  moreover have "table_inv t" using assms(2) table_inv_CreateEnv[OF _ t(1)] by (simp add: release_db_ok_def)
  ultimately show ?thesis using assms(2) t by (auto simp: release_db_ok_def deploy_ok_def env_refs_ok_def)
qed

lemma image_map_same: "(\<And>x. g (f x) = g x) \<Longrightarrow> g ` set (map f xs) = g ` set xs"
  by (simp add: image_image)

lemma table_inv_map_rows:
  assumes "table_inv t" "rows t' = map f (rows t)" "next_id t' = next_id t" "same_keys f"
  shows "table_inv t'"
proof -
  have "map env_ID (rows t') = map env_ID (rows t)" using assms(4) by (simp add: same_keys_def assms(2))
  moreover have "map env_PortBase (rows t') = map env_PortBase (rows t)" using assms(4) by (simp add: same_keys_def assms(2))
  moreover have "map env_VPNIP (rows t') = map env_VPNIP (rows t)" using assms(4) by (simp add: same_keys_def assms(2))
  moreover have "map (\<lambda>r. (env_App r, env_Name r)) (rows t') = map (\<lambda>r. (env_App r, env_Name r)) (rows t)"
    using assms(4) by (simp add: same_keys_def assms(2))
  moreover have "\<forall>r \<in> set (rows t'). 0 < env_ID r \<and> env_ID r < next_id t \<and> 0 < env_PortBase r \<and> env_App r \<noteq> [] \<and> env_Name r \<noteq> []"
    using assms(1,4) by (simp add: assms(2) same_keys_def table_inv_def)
  ultimately show ?thesis using assms(1) by (simp add: table_inv_def assms(3))
qed

lemma db_ok_DeleteRelease:
  assumes "release_db_ok db"
  shows "release_db_ok (DeleteRelease db i)"
proof -
  let ?db = "DeleteRelease db i" and ?f = "\<lambda>e. if env_ReleaseID e = i then e\<lparr>env_ReleaseID := 0\<rparr> else e"
  have ref: "release_ref db j \<Longrightarrow> release_ref ?db (if j = i then 0 else j)" for j
    by (auto simp: release_ref_def DeleteRelease_def)
  have rows': "rows (rd_envs ?db) = map ?f (rows (rd_envs db))" by (simp add: DeleteRelease_def)
  have "table_inv (rd_envs db)" using assms by (simp add: release_db_ok_def)
  then have "table_inv (rd_envs ?db)" by (rule table_inv_map_rows[where f = ?f]) (auto simp: rows' same_keys_def DeleteRelease_def)
  moreover have "map dep_ID (rd_deploys ?db) = map dep_ID (rd_deploys db)" by (simp add: DeleteRelease_def clear_release_def)
  moreover have "\<forall>d \<in> set (rd_deploys ?db). deploy_ok ?db d"
  proof
    fix d assume "d \<in> set (rd_deploys ?db)"
    then obtain d0 where d: "d0 \<in> set (rd_deploys db)" "d = clear_release i d0" by (auto simp: DeleteRelease_def)
    with assms have "deploy_ok db d0" by (simp add: release_db_ok_def)
    moreover have "env_ID ` set (rows (rd_envs ?db)) = env_ID ` set (rows (rd_envs db))"
      unfolding rows' by (rule image_map_same) simp
    ultimately show "deploy_ok ?db d"
      using ref[of "dep_ReleaseID d0"] ref[of "dep_FromReleaseID d0"] by (simp add: d(2) deploy_ok_def clear_release_def)
  qed
  moreover have "\<forall>e \<in> set (rows (rd_envs ?db)). env_refs_ok ?db e"
  proof
    fix e assume "e \<in> set (rows (rd_envs ?db))"
    then obtain e0 where e: "e0 \<in> set (rows (rd_envs db))" "e = ?f e0" by (auto simp: rows')
    with assms have "env_refs_ok db e0" by (simp add: release_db_ok_def)
    moreover have "dep_ID ` set (rd_deploys ?db) = dep_ID ` set (rd_deploys db)"
      by (simp add: DeleteRelease_def clear_release_def image_image)
    ultimately show "env_refs_ok ?db e"
      using ref[of "env_ReleaseID e0"] by (cases "env_ReleaseID e0 = i") (simp_all add: e(2) env_refs_ok_def)
  qed
  moreover have "rd_releases ?db = filter (\<lambda>r. rel_ID r \<noteq> i) (rd_releases db)" "rd_next_release ?db = rd_next_release db"
      "rd_next_deploy ?db = rd_next_deploy db"
    by (simp_all add: DeleteRelease_def)
  ultimately show ?thesis using assms by (simp add: release_db_ok_def distinct_map_filter ids_ok_filter)
qed

lemma db_ok_delete_env:
  assumes "release_db_ok db"
  shows "release_db_ok (delete_env db i)"
proof -
  let ?db = "delete_env db i" and ?gone = "dep_ID ` set (filter (\<lambda>d. dep_EnvID d = i) (rd_deploys db))"
  let ?f = "\<lambda>e. if env_DeployID e \<in> ?gone then e\<lparr>env_DeployID := 0\<rparr> else e"
  have rows': "rows (rd_envs ?db) = map ?f (rows (DeleteEnv (rd_envs db) i))" by (simp add: delete_env_def Let_def)
  have ref: "release_ref ?db = release_ref db" by (simp add: release_ref_def delete_env_def Let_def fun_eq_iff)
  have deps: "rd_deploys ?db = filter (\<lambda>d. dep_EnvID d \<noteq> i) (rd_deploys db)" by (simp add: delete_env_def Let_def)
  have "table_inv (DeleteEnv (rd_envs db) i)" using assms by (simp add: release_db_ok_def table_inv_DeleteEnv)
  then have "table_inv (rd_envs ?db)" by (rule table_inv_map_rows[where f = ?f]) (auto simp: rows' same_keys_def delete_env_def Let_def)
  moreover have "\<forall>d \<in> set (rd_deploys ?db). deploy_ok ?db d"
  proof
    fix d assume "d \<in> set (rd_deploys ?db)"
    then have "deploy_ok db d" "dep_EnvID d \<noteq> i" using assms by (auto simp: deps release_db_ok_def)
    moreover have "env_ID ` set (rows (rd_envs ?db)) = env_ID ` set (rows (rd_envs db)) - {i}"
      unfolding rows' by (subst image_map_same) (auto simp: DeleteEnv_def)
    ultimately show "deploy_ok ?db d" by (simp add: deploy_ok_def ref)
  qed
  moreover have "\<forall>e \<in> set (rows (rd_envs ?db)). env_refs_ok ?db e"
  proof
    fix e assume "e \<in> set (rows (rd_envs ?db))"
    then obtain e0 where e: "e0 \<in> set (rows (rd_envs db))" "e = ?f e0" by (auto simp: rows' DeleteEnv_def)
    with assms have "env_refs_ok db e0" by (simp add: release_db_ok_def)
    then show "env_refs_ok ?db e" by (auto simp: e(2) env_refs_ok_def ref deps)
  qed
  moreover have "rd_releases ?db = rd_releases db" "rd_next_release ?db = rd_next_release db" "rd_next_deploy ?db = rd_next_deploy db"
    by (simp_all add: delete_env_def Let_def)
  ultimately show ?thesis using assms by (simp add: release_db_ok_def deps ids_ok_filter)
qed

lemmas db_ok_steps = db_ok_AddRelease db_ok_DeleteRelease db_ok_CreateDeploy db_ok_UpdateDeploy db_ok_env_updates db_ok_set_env
  db_ok_create_env db_ok_delete_env

lemma release_step_ok: "release_step db db' \<Longrightarrow> release_db_ok db \<Longrightarrow> release_db_ok db'"
  by (induction rule: release_step.induct) (blast intro: db_ok_steps)+

lemma reachable_ok: "release_reachable apps0 db \<Longrightarrow> release_db_ok db"
proof (induction rule: release_reachable.induct)
  case start
  then show ?case by (simp add: release_db_ok_def table_inv_def ids_ok_def)
qed (blast intro: release_step_ok)

text \<open>C14: the tables of releases and deploys are consistent in every state the store's operations lead to from an
  empty database: ids are positive and increase, an app has one release of a tree at most, every deploy is
  of an environment that exists and has a status and a kind, and the releases that environments and deploys refer to and the
  deploys that environments refer to exist, whatever was deleted.\<close>

theorem release_db_consistent:
  "release_reachable apps0 db \<Longrightarrow> release_db_ok db"
  by (rule reachable_ok)

theorem release_db_consistent_witness:
  "release_db_ok (DeleteRelease \<lparr>rd_envs = \<lparr>rows = [], next_id = 1, apps = [''a'']\<rparr>,
     rd_releases = [\<lparr>rel_ID = 1, rel_App = ''a'', rel_Commit = [], rel_Tree = ''t'', rel_Ref = [], rel_ConfigJSON = [], rel_ImagesJSON = [],
       rel_BuiltBy = [], rel_Machine = [], rel_BuiltAt = 7\<rparr>], rd_next_release = 2, rd_deploys = [], rd_next_deploy = 1\<rparr> 5)"
  (is "release_db_ok (DeleteRelease ?db 5)")
proof -
  let ?r = "\<lparr>rel_ID = 0, rel_App = ''a'', rel_Commit = [], rel_Tree = ''t'', rel_Ref = [], rel_ConfigJSON = [], rel_ImagesJSON = [],
    rel_BuiltBy = [], rel_Machine = [], rel_BuiltAt = 7\<rparr>"
  have "release_step \<lparr>rd_envs = \<lparr>rows = [], next_id = 1, apps = [''a'']\<rparr>, rd_releases = [], rd_next_release = 1, rd_deploys = [],
      rd_next_deploy = 1\<rparr> ?db"
    by (rule release_added[where now = 3 and r = ?r and row = "?r\<lparr>rel_ID := 1\<rparr>"]) (simp add: AddRelease_def Let_def)
  then have "release_reachable [''a''] ?db" by (rule release_reachable.more[OF release_reachable.start])
  then show ?thesis using release_reachable.more release_deleted release_db_consistent by blast
qed

section \<open>The release before this one\<close>

definition rollback_candidate :: "EnvRecord \<Rightarrow> DeployRow \<Rightarrow> bool" where
  "rollback_candidate e d \<longleftrightarrow> dep_EnvID d = env_ID e \<and> dep_Status d = DeployPromoted \<and> dep_ReleaseID d \<notin> {0, env_ReleaseID e}"

lemma Release_Inr: "release_ref db i \<Longrightarrow> i \<noteq> 0 \<Longrightarrow> \<exists>row. Release db i = Inr row \<and> rel_ID row = i \<and> row \<in> set (rd_releases db)"
proof -
  assume "release_ref db i" "i \<noteq> 0"
  then obtain x where "find (\<lambda>r. rel_ID r = i) (rd_releases db) = Some x"
    by (cases "find (\<lambda>r. rel_ID r = i) (rd_releases db)") (auto simp: release_ref_def find_None_iff)
  moreover from this have "rel_ID x = i" "x \<in> set (rd_releases db)" by (auto simp: find_Some_iff)
  ultimately show ?thesis by (simp add: Release_def)
qed

lemma previous_release_find:
  assumes "\<forall>d \<in> set ds. release_ref db (dep_ReleaseID d) \<and> dep_EnvID d = env_ID e"
  shows "previous_release dc db (env_ReleaseID e) ds =
    (case find (rollback_candidate e) ds of
       None \<Rightarrow> Inl NothingToGoBackTo
     | Some d \<Rightarrow> (case Release db (dep_ReleaseID d) of Inr row \<Rightarrow> releaseFromRow dc row | Inl x \<Rightarrow> Inl (StoreError x)))"
  using assms
proof (induction ds)
  case (Cons d ds)
  show ?case
  proof (cases "rollback_candidate e d")
    case True
    with Cons.prems obtain row where "Release db (dep_ReleaseID d) = Inr row"
      using Release_Inr[of db "dep_ReleaseID d"] by (auto simp: rollback_candidate_def)
    with True show ?thesis
      by (cases "releaseFromRow dc row") (simp_all add: rollback_candidate_def releaseOf_def map_ok_simps)
  qed (use Cons in \<open>auto simp: rollback_candidate_def\<close>)
qed simp

lemma find_rev_last:
  assumes "find P (rev xs) = Some x" "sorted_wrt (<) (map key xs)"
  shows "x \<in> set xs \<and> P x \<and> (\<forall>y \<in> set xs. P y \<longrightarrow> key y \<le> (key x :: int))"
  using assms by (induction xs rule: rev_induct) (auto simp: sorted_wrt_append less_imp_le split: if_splits)

text \<open>C15: a rollback with no release named goes to the release of the latest promoted deploy of the environment that is not the
  one it runs now; the release exists, and it is that deploy's own. It fails with nothing to go back to exactly when there
  is no such deploy.\<close>

theorem rollbackTarget_latest:
  assumes "release_db_ok db" "e \<in> set (rows (rd_envs db))"
  shows "(\<nexists>d. d \<in> set (rd_deploys db) \<and> rollback_candidate e d) \<and> rollbackTarget dc db e [] = Inl NothingToGoBackTo \<or>
    (\<exists>d \<in> set (rd_deploys db). rollback_candidate e d \<and>
       (\<forall>d' \<in> set (rd_deploys db). rollback_candidate e d' \<longrightarrow> dep_ID d' \<le> dep_ID d) \<and>
       (\<exists>row \<in> set (rd_releases db). rel_ID row = dep_ReleaseID d \<and> rollbackTarget dc db e [] = releaseFromRow dc row))"
proof -
  let ?ds = "filter (\<lambda>d. dep_EnvID d = env_ID e) (rd_deploys db)"
  have "env_ID e \<noteq> 0" using assms by (auto simp: release_db_ok_def table_inv_def)
  then have "rollbackTarget dc db e [] = previous_release dc db (env_ReleaseID e) (rev ?ds)"
    by (simp add: rollbackTarget_def Deploys_def limited_def)
  also have "\<dots> = (case find (rollback_candidate e) (rev ?ds) of None \<Rightarrow> Inl NothingToGoBackTo
     | Some d \<Rightarrow> (case Release db (dep_ReleaseID d) of Inr row \<Rightarrow> releaseFromRow dc row | Inl x \<Rightarrow> Inl (StoreError x)))"
    using assms(1) by (intro previous_release_find) (auto simp: release_db_ok_def deploy_ok_def)
  finally have target: "rollbackTarget dc db e [] = \<dots>" .
  show ?thesis
  proof (cases "find (rollback_candidate e) (rev ?ds)")
    case None
    then have "rollbackTarget dc db e [] = Inl NothingToGoBackTo" unfolding target by simp
    moreover from None have "\<forall>d \<in> set (rd_deploys db). \<not> rollback_candidate e d"
      by (auto simp: find_None_iff rollback_candidate_def)
    ultimately show ?thesis by blast
  next
    case (Some d)
    have "sorted_wrt (<) (map dep_ID ?ds)" using assms(1) by (auto simp: release_db_ok_def ids_ok_def sorted_wrt_map sorted_wrt_filter)
    from find_rev_last[OF Some this] have d: "d \<in> set (rd_deploys db)" "rollback_candidate e d"
        "\<forall>d' \<in> set (rd_deploys db). rollback_candidate e d' \<longrightarrow> dep_ID d' \<le> dep_ID d"
      by (auto simp: rollback_candidate_def)
    then obtain row where "Release db (dep_ReleaseID d) = Inr row" "rel_ID row = dep_ReleaseID d" "row \<in> set (rd_releases db)"
      using assms(1) Release_Inr[of db "dep_ReleaseID d"] by (auto simp: release_db_ok_def deploy_ok_def rollback_candidate_def)
    with d Some show ?thesis by (auto simp: target)
  qed
qed

definition sample_releases :: release_db where
  "sample_releases =
     (let rel = (\<lambda>i tree. \<lparr>rel_ID = i, rel_App = ''a'', rel_Commit = [], rel_Tree = tree, rel_Ref = [], rel_ConfigJSON = [],
            rel_ImagesJSON = tree, rel_BuiltBy = [], rel_Machine = [], rel_BuiltAt = 7\<rparr>);
          dep = (\<lambda>i r st. \<lparr>dep_ID = i, dep_EnvID = 1, dep_ReleaseID = r, dep_FromReleaseID = 0, dep_Kind = DeployKindDeploy,
            dep_Status = st, dep_Reason = [], dep_Identity = [], dep_StartedAt = 1, dep_FinishedAt = 2, dep_Error = []\<rparr>);
          env = \<lparr>env_ID = 1, env_App = ''a'', env_Name = ''e'', env_Branch = [], env_Commit = [], env_Worktree = [], env_PortBase = 7000,
            env_PortCount = 10, env_Status = [], env_ConfigJSON = [], env_VarsJSON = [], env_VPNIP = [], env_Mode = [], env_Protected = False,
            env_ReleaseID = 3, env_DeployID = 0, env_CreatedBy = [], env_Owner = [], env_Via = [], env_PushedAt = 0, env_PushedBy = [],
            env_SourceBranch = [], env_CreatedAt = 0, env_UpdatedAt = 0\<rparr>
      in \<lparr>rd_envs = \<lparr>rows = [env], next_id = 2, apps = [''a'']\<rparr>, rd_releases = [rel 1 ''t1'', rel 2 ''t2'', rel 3 ''t3''], rd_next_release = 4,
          rd_deploys = [dep 1 1 DeployPromoted, dep 2 2 DeployFailed, dep 3 3 DeployPromoted], rd_next_deploy = 4\<rparr>)"

abbreviation sample_env :: EnvRecord where
  "sample_env \<equiv> hd (rows (rd_envs sample_releases))"

lemma sample_releases_ok: "release_db_ok sample_releases"
  by (simp add: sample_releases_def release_db_ok_def table_inv_def ids_ok_def deploy_ok_def env_refs_ok_def release_ref_def Let_def
      deploy_statuses DeployKindDeploy_def)

definition sample_decoder :: decoder where
  "sample_decoder = \<lparr>dc_images = map_of [(''t1'', [(''web'', ''i1''), (''job'', ''j'')]), (''t2'', [(''web'', ''i2'')]),
      (''t3'', [(''web'', ''i3''), (''job'', ''j'')])], dc_config = \<lambda>_. True\<rparr>"

theorem rollbackTarget_latest_witness:
  "map_ok (\<lambda>r. (rel_ID (fst r), snd r)) (rollbackTarget sample_decoder sample_releases sample_env []) = Inr (1, [(''web'', ''i1''), (''job'', ''j'')])"
proof -
  have e: "sample_env \<in> set (rows (rd_envs sample_releases))" by (simp add: sample_releases_def Let_def)
  have "rollback_candidate sample_env d \<longleftrightarrow> dep_ReleaseID d = 1" if "d \<in> set (rd_deploys sample_releases)" for d
    using that by (auto simp: sample_releases_def Let_def rollback_candidate_def deploy_statuses)
  moreover have "\<exists>d \<in> set (rd_deploys sample_releases). dep_ReleaseID d = 1" by (simp add: sample_releases_def Let_def)
  ultimately obtain row where "row \<in> set (rd_releases sample_releases)" "rel_ID row = 1"
      "rollbackTarget sample_decoder sample_releases sample_env [] = releaseFromRow sample_decoder row"
    using rollbackTarget_latest[OF sample_releases_ok e, of sample_decoder] by auto
  then show ?thesis by (auto simp: sample_releases_def Let_def releaseFromRow_def sample_decoder_def map_ok_simps)
qed

definition sample_images :: image_store where
  "sample_images = \<lparr>is_images = [''i1'', ''i2'', ''i3'', ''j'', ''other''], is_look_fails = (\<lambda>_. False), is_remove_fails = (\<lambda>_. False)\<rparr>"

theorem Prune_correct_witness:
  "\<exists>st'. Prune sample_decoder sample_releases ''a'' 1 sample_images = (Inr [''i1'', ''i2''], st') \<and>
     set (is_images st') = {''i3'', ''j'', ''other''}"
proof -
  let ?p = "Prune sample_decoder sample_releases ''a'' 1 sample_images"
  have "fst ?p = Inr [''i1'', ''i2'']" by code_simp
  then have p: "?p = (Inr [''i1'', ''i2''], snd ?p)" by (metis prod.collapse)
  from Prune_correct[OF p] have sub: "set (is_images (snd ?p)) \<subseteq> set (is_images sample_images)"
    and gone: "set [''i1'', ''i2''] = set (is_images sample_images) - set (is_images (snd ?p))" by blast+
  have "set (is_images (snd ?p)) = set (is_images sample_images) - set [''i1'', ''i2'']" using sub gone by blast
  also have "\<dots> = {''i3'', ''j'', ''other''}" by (simp add: sample_images_def insert_Diff_if)
  finally have "set (is_images (snd ?p)) = {''i3'', ''j'', ''other''}" .
  then show ?thesis using p by blast
qed

end
