(* ===== verification/ConfigNumbers.thy ===== *)
theory ConfigNumbers
  imports ConfigDeploy
begin

text \<open>
  The numbers of the settings: sizes of memory are printed so that reading them gives the size again, and limits on the
  rate of errors that are whole percentages are compared exactly, although the code computes in floating point.
\<close>

section \<open>Sizes of memory\<close>

lemma Itoa_pos: "0 < n \<Longrightarrow> Itoa n = show_nat (nat n)"
  by (simp add: Itoa_def)

lemma digits_name_char: "is_digit c \<Longrightarrow> name_char c"
  by (simp add: name_char_def)

lemma ParseMemory_Itoa:
  assumes "0 < n" "n < 2 ^ 53" "0 \<le> k" "k \<le> 30" "n * 2 ^ nat k < 2 ^ 63" "map_of memoryUnits u = Some (2 ^ nat k)" "list_all is_lower u"
  shows "ParseMemory big (Itoa n @ u) = Inr (n * 2 ^ nat k)"
proof -
  let ?s = "Itoa n @ u" and ?num = "\<lambda>c. is_digit c \<or> c = CHR ''.''"
  have digits: "list_all is_digit (Itoa n)" "Itoa n \<noteq> []" using assms(1) by (simp_all add: Itoa_pos show_nat_digits show_nat_nonempty)
  have names: "list_all name_char ?s" "list_all name_char u" using digits(1) assms(7) by (auto simp: list_all_iff name_char_def)
  have trim: "TrimSpace v = v" if "list_all name_char v" for v
  proof (cases "v = []")
    case False
    then have "hd v \<in> set v" "last v \<in> set v" by auto
    with that have "name_char (hd v)" "name_char (last v)" by (auto simp: list_all_iff)
    then have "trimmed v" using name_char_plain(5) by (intro trimmed_ends[OF False]) blast+
    then show ?thesis by simp
  qed simp
  have low: "ToLower ?s = ?s" using names(1) name_char_plain(1) by (auto simp: ToLower_def list_all_iff intro!: map_idI)
  have "\<not> ?num c" if "is_lower c" for c using that by (auto simp: is_lower_def is_digit_def less_eq_char_def)
  then have stop: "takeWhile ?num u = []" "dropWhile ?num u = u" using assms(7) by (cases u; simp)+
  have take: "takeWhile ?num ?s = Itoa n" "dropWhile ?num ?s = u"
    using digits(1) stop by (auto simp: list_all_iff takeWhile_append dropWhile_append)
  have float: "ParseFloat (Itoa n) = Some (Finite (of_int n))"
    using ParseFloat_digits[OF digits] fl_int[of n] assms(1,2) by (simp add: Itoa_pos)
  have "fl_mult (Finite (of_int n)) (fl_of_int (2 ^ nat k)) = Finite (of_int (n * 2 ^ nat k))"
  proof -
    have "(2::int) ^ nat k \<le> 2 ^ 30" using assms(4) by (intro power_increasing) auto
    then have "fl_of_int (2 ^ nat k) = Finite (of_int (2 ^ nat k))" unfolding fl_of_int_def by (intro fl_int) simp
    moreover have "fl (of_int n * pow2 k) = Finite (of_int n * pow2 k)" using assms(1-4) by (intro fl_exact) auto
    ultimately show ?thesis using assms(3) by (simp add: pow2_def)
  qed
  moreover have pos: "0 < n * 2 ^ nat k" using assms(1) by simp
  ultimately have int: "to_int64 big (fl_mult (Finite (of_int n)) (fl_of_int (2 ^ nat k))) = n * 2 ^ nat k"
    using assms(5) by (simp add: to_int64_def minInt64_def maxInt64_def flip: of_int_mult of_int_power)
  show ?thesis
    using digits(2) pos by (simp add: ParseMemory_def Let_def trim[OF names(1)] low take float assms(6) int trim[OF names(2)])
qed

text \<open>A size of memory is printed so that reading it back gives the same number of bytes, for every size below 8 PiB. The unit
  that is printed is the largest of GiB, MiB and KiB that divides the size.\<close>

theorem ParseMemory_FormatMemory:
  assumes "0 < b" "b < 2 ^ 53"
  shows "ParseMemory big (FormatMemory b) = Inr b"
proof -
  have whole: "0 < b div 2 ^ k \<and> b div 2 ^ k < 2 ^ 53 \<and> b div 2 ^ k * 2 ^ k = b" if "b mod 2 ^ k = 0" for k :: nat
  proof -
    have eq: "b div 2 ^ k * 2 ^ k = b" using that by (simp add: mod_0_imp_dvd)
    then have pos: "0 < b div 2 ^ k" using assms(1) by (metis zero_less_mult_pos2 zero_less_numeral zero_less_power)
    have "b div 2 ^ k * 1 \<le> b div 2 ^ k * 2 ^ k" using pos by (intro mult_left_mono) auto
    with pos show ?thesis using eq assms(2) by linarith
  qed
  have read: "ParseMemory big (Itoa (b div 2 ^ k) @ u) = Inr b"
    if "b mod 2 ^ k = 0" "k \<le> 30" "map_of memoryUnits u = Some (2 ^ k)" "list_all is_lower u" for k :: nat and u
    using ParseMemory_Itoa[of "b div 2 ^ k" "int k" u big] whole[OF that(1)] that(2-4) assms(2) by simp
  have units: "map_of memoryUnits ''g'' = Some (2 ^ 30)" "map_of memoryUnits ''m'' = Some (2 ^ 20)" "map_of memoryUnits ''k'' = Some (2 ^ 10)"
      "map_of memoryUnits [] = Some (2 ^ 0)" "list_all is_lower ''g''" "list_all is_lower ''m''" "list_all is_lower ''k''"
    by (simp_all add: memoryUnits_def is_lower_def less_eq_char_def)
  show ?thesis
    using read[of 30 "''g''"] read[of 20 "''m''"] read[of 10 "''k''"] read[of 0 "[]"] units assms(1) by (simp add: FormatMemory_def)
qed

theorem ParseMemory_FormatMemory_witness:
  "FormatMemory (3 * 2 ^ 29) = ''1536m'' \<and> ParseMemory (\<lambda>_. 0) (FormatMemory (3 * 2 ^ 29)) = Inr (3 * 2 ^ 29)"
proof -
  have "FormatMemory (3 * 2 ^ 29) = ''1536m''" by code_simp
  then show ?thesis using ParseMemory_FormatMemory[of "3 * 2 ^ 29" "\<lambda>_. 0"] by simp
qed

section \<open>Rates\<close>

lemma fl_near:
  assumes "0 \<le> q" "q = 0 \<or> pow2 (- 1022) \<le> q" "q \<le> 1"
  shows "\<exists>x. fl q = Finite x \<and> \<bar>x - q\<bar> \<le> pow2 (- 53)"
proof (cases "q = 0")
  case True
  then show ?thesis by (simp add: fl_def less_imp_le)
next
  case False
  then have near: "\<bar>round_pos q - q\<bar> \<le> q * pow2 (- 53)" using assms(2) by (intro round_pos_near) simp
  have "q * pow2 (- 53) \<le> pow2 (- 53)" using assms(1,3) mult_right_mono[of q 1 "pow2 (- 53)"] by (simp add: less_imp_le)
  then have near': "\<bar>round_pos q - q\<bar> \<le> pow2 (- 53)" using near by linarith
  have "pow2 (- 53) \<le> 1" by (simp add: pow2_def)
  then have "round_pos q \<le> 2" using near' assms(3) by linarith
  moreover have "(2::rat) < pow2 1024" using pow2_mono[of 2 1024] by (simp add: pow2_def[of 2])
  ultimately show ?thesis using near' False assms(1) by (auto simp: fl_def Let_def)
qed

text \<open>The quotients of small integers are told apart by their rounded values.\<close>

lemma fl_quotients_less:
  assumes "0 \<le> e" "e \<le> r" "0 < r" "r < 2 ^ 45" "0 \<le> p" "p \<le> 100"
  shows "fl_less (fl (of_int p / 100)) (fl (of_int e / of_int r)) \<longleftrightarrow> p * r < 100 * e"
proof -
  let ?a = "of_int p / 100 :: rat" and ?b = "of_int e / of_int r :: rat"
  have tiny: "pow2 (- 1022) \<le> pow2 (- 45)" by (rule pow2_mono) simp
  have "pow2 (- 45) \<le> ?b" if "e \<noteq> 0"
  proof -
    have "(1::rat) \<le> of_int e" using that assms(1) by simp
    moreover have "(of_int r :: rat) \<le> 2 ^ 45" using assms(4) by (metis less_imp_le of_int_le_iff of_int_numeral of_int_power)
    ultimately have "1 / 2 ^ 45 \<le> ?b" using assms(3) by (intro frac_le) auto
    then show ?thesis by (simp add: pow2_def)
  qed
  then have "?b = 0 \<or> pow2 (- 1022) \<le> ?b" using tiny by (cases "e = 0") auto
  moreover have "?b \<le> 1" using assms(2,3) by simp
  moreover have "0 \<le> ?b" using assms(1,3) by simp
  ultimately obtain y where y: "fl ?b = Finite y" "\<bar>y - ?b\<bar> \<le> pow2 (- 53)" using fl_near by blast
  have "pow2 (- 45) \<le> ?a" if "p \<noteq> 0"
  proof -
    have "(1::rat) \<le> of_int p" using that assms(5) by simp
    then show ?thesis by (simp add: pow2_def)
  qed
  then have "?a = 0 \<or> pow2 (- 1022) \<le> ?a" using tiny by (cases "p = 0") auto
  moreover have "?a \<le> 1" using assms(6) by simp
  moreover have "0 \<le> ?a" using assms(5) by simp
  ultimately obtain x where x: "fl ?a = Finite x" "\<bar>x - ?a\<bar> \<le> pow2 (- 53)" using fl_near by blast
  show ?thesis
  proof (cases "p * r = 100 * e")
    case True
    then have "(of_int p * of_int r :: rat) = 100 * of_int e" by (metis of_int_mult of_int_numeral)
    then have "?a = ?b" using assms(3) by (simp add: field_simps)
    then have "x = y" using x(1) y(1) by simp
    then show ?thesis using True x(1) y(1) by simp
  next
    case False
    have apart: "pow2 (- 52) < \<bar>?b - ?a\<bar>"
    proof -
      have "?b - ?a = of_int (100 * e - p * r) / of_int (100 * r)" using assms(3) by (simp add: field_simps)
      moreover have "(1::rat) \<le> of_int \<bar>100 * e - p * r\<bar>" using False by (simp only: of_int_1_le_iff)
      moreover have "(of_int (100 * r) :: rat) < 2 ^ 52"
      proof -
        have "100 * r < (2::int) ^ 52" using assms(4) by simp
        then show ?thesis by (metis of_int_less_iff of_int_numeral of_int_power)
      qed
      ultimately have "\<bar>?b - ?a\<bar> = of_int \<bar>100 * e - p * r\<bar> / of_int (100 * r)"
        and step: "1 / of_int (100 * r) \<le> (of_int \<bar>100 * e - p * r\<bar> / of_int (100 * r) :: rat)" "1 / 2 ^ 52 < (1 / of_int (100 * r) :: rat)"
        using assms(3) by (simp_all add: abs_divide divide_right_mono divide_strict_left_mono)
      then have "1 / 2 ^ 52 < \<bar>?b - ?a\<bar>" by linarith
      then show ?thesis by (simp add: pow2_def)
    qed
    have "2 * pow2 (- 53) = pow2 (- 52)" by (simp add: pow2_def)
    then have "x < y \<longleftrightarrow> ?a < ?b" using apart x(2) y(2) by linarith
    also have "\<dots> \<longleftrightarrow> (of_int (p * r) :: rat) < of_int (100 * e)" using assms(3) by (simp add: field_simps)
    also have "\<dots> \<longleftrightarrow> p * r < 100 * e" by (rule of_int_less_iff)
    finally show ?thesis using x(1) y(1) by simp
  qed
qed

end
