(* ===== verification/EnvRoutes.thy ===== *)
theory EnvRoutes
  imports EnvExpose EnvWorld
begin

text \<open>
  The routes of the services of a plan (\<^verbatim>\<open>planRoutes\<close> of \<^verbatim>\<open>internal/env/expose.go\<close>): a route is added for every host of an exposed service
  that has none, and the routes of the environment are then grouped by service, the one of the first host of the service in front.
\<close>

fun plan_hosts :: "gtime \<Rightarrow> EnvRecord list \<Rightarrow> int \<Rightarrow> string \<Rightarrow> string list \<Rightarrow> string list \<Rightarrow> edge_store \<Rightarrow> (expose_error + string list) \<times> edge_store" where
  "plan_hosts t envs envID service [] known s = (Inr known, s)"
| "plan_hosts t envs envID service (host # hosts) known s =
     (if host \<in> set known then plan_hosts t envs envID service hosts known s
      else (case addRoute t envs s envID service host True of
              (Inl e, s') \<Rightarrow> (Inl e, s')
            | (Inr _, s') \<Rightarrow> plan_hosts t envs envID service hosts (host # known) s'))"

text \<open>The first host of every exposed service; a service whose hosts are not known is left out.\<close>

fun plan_services :: "gtime \<Rightarrow> EnvRecord list \<Rightarrow> EnvRecord \<Rightarrow> Addr \<Rightarrow> App option \<Rightarrow> Service list \<Rightarrow> string list \<Rightarrow> edge_store \<Rightarrow>
   (expose_error + (string \<times> string) list) \<times> edge_store" where
  "plan_services t envs rec ip cfg [] known s = (Inr [], s)"
| "plan_services t envs rec ip cfg (sv # svs) known s =
     (case hostsFor ip (env_App rec) (env_Name rec) cfg (svc_Name sv) of
        Inl _ \<Rightarrow> plan_services t envs rec ip cfg svs known s
      | Inr hosts \<Rightarrow>
          (case plan_hosts t envs (env_ID rec) (svc_Name sv) hosts known s of
             (Inl e, s') \<Rightarrow> (Inl e, s')
           | (Inr known', s') \<Rightarrow>
               (case plan_services t envs rec ip cfg svs known' s' of
                  (Inl e, s'') \<Rightarrow> (Inl e, s'')
                | (Inr primary, s'') \<Rightarrow> (Inr ((svc_Name sv, hd hosts) # primary), s''))))"

definition add_row :: "(string \<times> string) list \<Rightarrow> (string \<times> route) list \<Rightarrow> RouteRow \<Rightarrow> (string \<times> route) list" where
  "add_row primary routes r =
     (case map_of routes (rr_Service r) of
        None \<Rightarrow> AList.update (rr_Service r) \<lparr>ro_id = rr_ID r, ro_host = rr_Host r, ro_more = []\<rparr> routes
      | Some cur \<Rightarrow>
          AList.update (rr_Service r)
            (if map_of primary (rr_Service r) = Some (rr_Host r)
             then \<lparr>ro_id = rr_ID r, ro_host = rr_Host r, ro_more = ro_more cur @ [(ro_id cur, ro_host cur)]\<rparr>
             else cur\<lparr>ro_more := ro_more cur @ [(rr_ID r, rr_Host r)]\<rparr>) routes)"

definition planRoutes :: "bool \<Rightarrow> gtime \<Rightarrow> EnvRecord list \<Rightarrow> EnvRecord \<Rightarrow> Addr \<Rightarrow> App option \<Rightarrow> string list \<Rightarrow> edge_store \<Rightarrow>
   (expose_error + (string \<times> route) list) \<times> edge_store" where
  "planRoutes edge t envs rec ip cfg wanted s =
     (if \<not> edge then (Inr [], s)
      else (case plan_services t envs rec ip cfg (ExposedServices cfg) (map rr_Host (RoutesOfEnv s (env_ID rec))) s of
              (Inl e, s') \<Rightarrow> (Inl e, s')
            | (Inr primary, s') \<Rightarrow>
                (let routes = foldl (add_row primary) [] (RoutesOfEnv s' (env_ID rec))
                 in (Inr (if wanted = [] then routes else filter (\<lambda>(n, _). n \<in> set wanted) routes), s'))))"

section \<open>Every route is in the plan\<close>

lemma addRoute_targets: "addRoute t envs s i service host managed = (r, s') \<Longrightarrow> es_targets s' = es_targets s"
  by (auto simp: addRoute_def AddRoute_def Let_def split: sum.splits if_splits)

lemma plan_hosts_targets: "plan_hosts t envs i service hosts known s = (r, s') \<Longrightarrow> es_targets s' = es_targets s"
  by (induction hosts arbitrary: known s) (auto dest!: addRoute_targets split: if_splits prod.splits sum.splits)

lemma plan_services_targets: "plan_services t envs rec ip cfg svs known s = (r, s') \<Longrightarrow> es_targets s' = es_targets s"
  by (induction svs arbitrary: known s r) (simp, fastforce dest!: plan_hosts_targets split: prod.splits sum.splits)

lemma planRoutes_targets: "planRoutes edge t envs rec ip cfg wanted s = (r, s') \<Longrightarrow> es_targets s' = es_targets s"
  by (auto simp: planRoutes_def Let_def dest!: plan_services_targets split: prod.splits sum.splits if_splits)

lemma add_row_routes:
  "(case map_of (add_row primary routes r) n of None \<Rightarrow> {} | Some ro \<Rightarrow> set (route_all ro)) =
   (case map_of routes n of None \<Rightarrow> {} | Some ro \<Rightarrow> set (route_all ro)) \<union> (if rr_Service r = n then {(rr_ID r, rr_Host r)} else {})"
  by (auto simp: add_row_def route_all_def update_conv' split: option.splits if_splits)

text \<open>The routes of a service in the plan are exactly the rows of the environment for it.\<close>

lemma planned_routes:
  assumes "planRoutes True t envs rec ip cfg wanted s = (Inr routes, s')" "wanted = [] \<or> n \<in> set wanted"
  shows "(case map_of routes n of None \<Rightarrow> {} | Some ro \<Rightarrow> set (route_all ro)) =
    {(rr_ID r, rr_Host r) |r. r \<in> set (es_routes s') \<and> rr_EnvID r = env_ID rec \<and> rr_Service r = n}"
proof -
  have fold: "(case map_of (foldl (add_row primary) routes rs) n of None \<Rightarrow> {} | Some ro \<Rightarrow> set (route_all ro)) =
      (case map_of routes n of None \<Rightarrow> {} | Some ro \<Rightarrow> set (route_all ro)) \<union> {(rr_ID r, rr_Host r) |r. r \<in> set rs \<and> rr_Service r = n}"
    for primary routes rs
    by (induction rs arbitrary: routes) (auto simp: add_row_routes)
  obtain primary where routes: "routes = (let rs = foldl (add_row primary) [] (RoutesOfEnv s' (env_ID rec)) in
      if wanted = [] then rs else filter (\<lambda>(n, _). n \<in> set wanted) rs)"
    using assms(1) by (auto simp: planRoutes_def Let_def split: prod.splits sum.splits)
  have kept: "map_of (filter (\<lambda>(k, _). k \<in> set wanted) xs) n = map_of xs n" if "n \<in> set wanted" for xs :: "(string \<times> route) list"
    using that by (induction xs) auto
  have "map_of routes n = map_of (foldl (add_row primary) [] (RoutesOfEnv s' (env_ID rec))) n"
    using assms(2) by (auto simp: routes Let_def kept)
  then show ?thesis by (simp add: fold) (auto simp: RoutesOfEnv_def)
qed

end
