(* ===== verification/DeployRun.thy ===== *)
theory DeployRun
  imports Rollout ReleaseStore ConfigNumbers EnvRoutes
begin

text \<open>
  A deploy and what becomes of it (\<^verbatim>\<open>internal/env/deploy_run.go\<close>, \<^verbatim>\<open>deploy_watch.go\<close>): the pools of the services, fresh and held
  replicas, promoting, rolling back and failing. The programs run over the tables of routes and targets, the tables of releases and
  deploys, the log of calls and the state of the run, which the source keeps behind pointers. What the code formats for
  people is a function of its arguments; planning a release, running a command in a container, replacing a service that has no
  route and recording a service are calls, of which any may fail.
\<close>

section \<open>Data\<close>

datatype DeployStepName = StepBuild | StepBefore | StepReplicas | StepCheck | StepSwitch | StepWatch | StepPromote | StepRollback

record DeployStep =
  st_Step :: DeployStepName
  st_Status :: StepStatus
  st_Service :: string
  st_At :: gtime

record DeployWatch =
  dw_Window :: duration
  dw_Elapsed :: duration
  dw_Requests :: int
  dw_Errors :: int
  dw_Rate :: float64
  dw_MaxRate :: float64
  dw_MinRequests :: int
  dw_CountedFrom :: gtime
  dw_Counted :: duration

definition Breached :: "DeployWatch \<Rightarrow> bool" where
  "Breached w \<longleftrightarrow> \<not> (dw_Requests w < dw_MinRequests w \<or> fl_less (dw_MaxRate w) (Finite 0)) \<and> fl_less (dw_MaxRate w) (dw_Rate w)"

text \<open>A deploy as the daemon holds it.\<close>

record deploy =
  dd_ID :: int
  dd_Kind :: string
  dd_Status :: string
  dd_Release :: "release option"
  dd_FromRelease :: "release option"
  dd_Steps :: "DeployStep list"
  dd_Rollouts :: "Rollout list"
  dd_Watch :: "DeployWatch option"
  dd_Routes :: "string list"
  dd_Reason :: string
  dd_Identity :: string
  dd_StartedAt :: gtime
  dd_FinishedAt :: gtime
  dd_Error :: string

definition Flipped :: "string \<Rightarrow> bool" where
  "Flipped status \<longleftrightarrow> status \<in> {DeployWatching, DeployPromoted, DeployRolledBack}"

record deployPool =
  dp_service :: string
  dp_route :: route
  dp_exposed :: bool
  dp_roll :: Rollout
  dp_fresh :: "Replica list"
  dp_held :: "Replica list"
  dp_drain :: duration

text \<open>The plan of a release: the plan of a rollout with the services and their routes.\<close>

record releasePlan = upPlan +
  rp_services :: "svcRollPlan list"
  rp_routes :: "(string \<times> route) list"

record deployRun =
  dr_d :: deploy
  dr_policy :: "Deploy option"
  dr_pools :: "deployPool list"
  dr_flippedAt :: gtime
  dr_countedFrom :: gtime
  dr_up :: "releasePlan option"
  dr_detached :: bool
  dr_watchStarted :: bool
  dr_replaced :: bool
  dr_pushed :: bool
  dr_ended :: bool

record deploy_world = world +
  dw_db :: release_db
  dw_rec :: EnvRecord
  dw_run :: deployRun
  dw_watches :: "int list"

datatype run_error =
    RunAct act_error | RunStore release_error | RunEnv env_error | RunPruned "string list" | RunNoBuilder | RunNoRelease
  | RunNoService string | RunNothing | RunLayout layout_error | RunExpose expose_error | RunDecode rollback_error | RunHandedOff | RunCommanderGone | RunRollback run_error

text \<open>Why a deploy ended.\<close>

datatype why =
    WhyWindow | WhyByHand | WhyBreached DeployWatch | WhyGone int string | WhyNotRunning int string string | WhySignal string
  | WhyFailed DeployStepName run_error | WhyRestarted string | WhyDestroyed

record edge_counts =
  ec_Since :: gtime
  ec_Hosts :: "HostCounts list"

text \<open>What a wait ends with.\<close>

datatype signal = SignalTick | SignalPromote | SignalRollback string | SignalCancelled

text \<open>The answers of the calls of a deploy, and the texts.\<close>

record deploy_answers =
  dx_base :: answers
  dx_image :: "log \<Rightarrow> string \<Rightarrow> bool"
  dx_built :: "log \<Rightarrow> release option"
  dx_plan :: "log \<Rightarrow> release \<Rightarrow> releasePlan"
  dx_ip :: "log \<Rightarrow> Addr"
  dx_decoder :: decoder
  dx_replicas :: "log \<Rightarrow> string \<Rightarrow> Replica list"
  dx_no_check :: "log \<Rightarrow> string \<Rightarrow> bool"
  dx_counts :: "log \<Rightarrow> edge_counts"
  dx_pruned :: "log \<Rightarrow> string list"
  dx_signal :: "log \<Rightarrow> signal"
  dx_env_routes :: "log \<Rightarrow> string list"
  dx_env_json :: "releasePlan \<Rightarrow> string \<times> string"
  dx_why :: "why \<Rightarrow> string"
  dx_error :: "run_error \<Rightarrow> string"

record deployer =
  dm_manager :: manager
  dm_Builder :: bool

abbreviation (input) dm_Edge :: "deployer \<Rightarrow> bool" where
  "dm_Edge m \<equiv> mg_Edge (dm_manager m)"

section \<open>Small operations\<close>

type_synonym 'a deploys = "(deploy_world, 'a) state"

definition dnow :: "deploy_answers \<Rightarrow> gtime deploys" where
  "dnow x = now (dx_base x)"

definition the_run :: "deployRun deploys" where
  "the_run = State (\<lambda>w. (dw_run w, w))"

definition set_run :: "(deployRun \<Rightarrow> deployRun) \<Rightarrow> unit deploys" where
  "set_run f = State (\<lambda>w. ((), w\<lparr>dw_run := f (dw_run w)\<rparr>))"

definition set_d :: "(deploy \<Rightarrow> deploy) \<Rightarrow> unit deploys" where
  "set_d f = set_run (\<lambda>r. r\<lparr>dr_d := f (dr_d r)\<rparr>)"

definition dask :: "deploy_answers \<Rightarrow> deploy_call \<Rightarrow> string option deploys" where
  "dask x c = ask (dx_base x) (CallDeploy c)"

text \<open>An error of an action is an error of the run.\<close>

definition acting :: "(act_error + 'a) deploys \<Rightarrow> (run_error + 'a) deploys" where
  "acting m = do { r \<leftarrow> m; State_Monad.return (case r of Inl e \<Rightarrow> Inl (RunAct e) | Inr y \<Rightarrow> Inr y) }"

definition dattempt :: "deploy_answers \<Rightarrow> deploy_call \<Rightarrow> (run_error + unit) deploys" where
  "dattempt x c = acting (attempt (dx_base x) (CallDeploy c))"

text \<open>A program whose result does not matter.\<close>

definition ignore :: "'a deploys \<Rightarrow> unit deploys" where
  "ignore m = do { _ \<leftarrow> m; State_Monad.return () }"

fun step_text :: "DeployStepName \<Rightarrow> string" where
  "step_text StepBuild = ''build''" | "step_text StepBefore = ''before''" | "step_text StepReplicas = ''replicas''"
| "step_text StepCheck = ''check''" | "step_text StepSwitch = ''switch''" | "step_text StepWatch = ''watch''"
| "step_text StepPromote = ''promote''" | "step_text StepRollback = ''rollback''"

definition dstep_at :: "deploy_answers \<Rightarrow> DeployStepName \<Rightarrow> StepStatus \<Rightarrow> string \<Rightarrow> gtime \<Rightarrow> unit deploys" where
  "dstep_at x name status service t = do {
     t' \<leftarrow> (if is_zero t then dnow x else State_Monad.return t);
     _ \<leftarrow> set_d (\<lambda>d. d\<lparr>dd_Steps := dd_Steps d @ [\<lparr>st_Step = name, st_Status = status, st_Service = service, st_At = t'\<rparr>]\<rparr>);
     ignore (dask x (DeployEvent (step_text name))) }"

abbreviation (input) dstep :: "deploy_answers \<Rightarrow> DeployStepName \<Rightarrow> StepStatus \<Rightarrow> unit deploys" where
  "dstep x name status \<equiv> dstep_at x name status [] 0"

definition lastStep :: "deploy \<Rightarrow> DeployStepName" where
  "lastStep d = (if dd_Steps d = [] then StepBuild else st_Step (last (dd_Steps d)))"

definition release_id :: "release option \<Rightarrow> int" where
  "release_id r = (case r of None \<Rightarrow> 0 | Some r \<Rightarrow> rel_ID (fst r))"

definition deploy_row :: "EnvRecord \<Rightarrow> deploy \<Rightarrow> DeployRow" where
  "deploy_row rec d = \<lparr>dep_ID = dd_ID d, dep_EnvID = env_ID rec, dep_ReleaseID = release_id (dd_Release d),
     dep_FromReleaseID = release_id (dd_FromRelease d), dep_Kind = dd_Kind d, dep_Status = dd_Status d, dep_Reason = dd_Reason d,
     dep_Identity = dd_Identity d, dep_StartedAt = dd_StartedAt d, dep_FinishedAt = dd_FinishedAt d, dep_Error = dd_Error d\<rparr>"

text \<open>An operation of the store, after its connection has answered.\<close>

definition on_db :: "(release_db \<Rightarrow> release_error + release_db) \<Rightarrow> (run_error + unit) deploys" where
  "on_db f = State (\<lambda>w. case f (dw_db w) of Inl e \<Rightarrow> (Inl (RunStore e), w) | Inr db \<Rightarrow> (Inr (), w\<lparr>dw_db := db\<rparr>))"

definition update :: "deploy_answers \<Rightarrow> (run_error + unit) deploys" where
  "update x = do {
     row \<leftarrow> State (\<lambda>w. (deploy_row (dw_rec w) (dr_d (dw_run w)), w));
     and_then (dattempt x (DeployUpdate (dep_ID row) (dep_Status row))) (\<lambda>_. on_db (\<lambda>db. UpdateDeploy db row)) }"

definition clear_env_deploy :: "deploy_answers \<Rightarrow> (run_error + unit) deploys" where
  "clear_env_deploy x = do {
     i \<leftarrow> State (\<lambda>w. (env_ID (dw_rec w), w));
     and_then (dattempt x (DeployClear i)) (\<lambda>_. do { t \<leftarrow> dnow x; on_db (\<lambda>db. SetEnvDeploy t db i 0) }) }"

definition set_env_release :: "deploy_answers \<Rightarrow> int \<Rightarrow> (run_error + unit) deploys" where
  "set_env_release x rel = do {
     i \<leftarrow> State (\<lambda>w. (env_ID (dw_rec w), w));
     and_then (dattempt x (EnvRelease i rel)) (\<lambda>_. do { t \<leftarrow> dnow x; on_db (\<lambda>db. SetEnvRelease t db i rel) }) }"

definition saveEnv :: "deploy_answers \<Rightarrow> releasePlan \<Rightarrow> (run_error + unit) deploys" where
  "saveEnv x p = do {
     t \<leftarrow> dnow x;
     rec \<leftarrow> State (\<lambda>w. let rec = (dw_rec w)\<lparr>env_ConfigJSON := fst (dx_env_json x p), env_VarsJSON := snd (dx_env_json x p), env_UpdatedAt := t\<rparr>
              in (rec, w\<lparr>dw_rec := rec\<rparr>));
     and_then (dattempt x EnvSave) (\<lambda>_. do {
       t' \<leftarrow> dnow x;
       State (\<lambda>w. case UpdateEnv t' (rd_envs (dw_db w)) rec of
         Inl e \<Rightarrow> (Inl (RunEnv e), w) | Inr tab \<Rightarrow> (Inr (), w\<lparr>dw_db := (dw_db w)\<lparr>rd_envs := tab\<rparr>\<rparr>)) }) }"

definition syncRollouts :: "unit deploys" where
  "syncRollouts = set_run (\<lambda>r. r\<lparr>dr_d := (dr_d r)\<lparr>dd_Rollouts := filter (\<lambda>ro. rl_Steps ro \<noteq> []) (map dp_roll (dr_pools r))\<rparr>\<rparr>)"

definition finish :: "deploy_answers \<Rightarrow> unit deploys" where
  "finish x = do {
     r \<leftarrow> the_run;
     _ \<leftarrow> (if is_zero (dd_FinishedAt (dr_d r)) then do { t \<leftarrow> dnow x; set_d (\<lambda>d. d\<lparr>dd_FinishedAt := t\<rparr>) } else State_Monad.return ());
     _ \<leftarrow> syncRollouts;
     _ \<leftarrow> update x;
     _ \<leftarrow> clear_env_deploy x;
     State (\<lambda>w. ((), w\<lparr>dw_watches := filter (\<lambda>i. i \<noteq> dd_ID (dr_d (dw_run w))) (dw_watches w), dw_run := (dw_run w)\<lparr>dr_ended := True\<rparr>\<rparr>)) }"

section \<open>Pools\<close>

text \<open>Stopping replicas, of which one that cannot be stopped is skipped; the number of those that were.\<close>

fun stop_all :: "deploy_answers \<Rightarrow> deployer \<Rightarrow> Replica list \<Rightarrow> nat deploys" where
  "stop_all x m [] = State_Monad.return 0"
| "stop_all x m (rep # reps) =
     (if rp_Container rep = [] then stop_all x m reps
      else do {
        r \<leftarrow> stopReplica (dx_base x) (dm_manager m) (rp_Container rep);
        n \<leftarrow> stop_all x m reps;
        State_Monad.return (case r of Inl _ \<Rightarrow> n | Inr _ \<Rightarrow> Suc n) })"

definition removeFresh :: "deploy_answers \<Rightarrow> deployer \<Rightarrow> unit deploys" where
  "removeFresh x m = do {
     r \<leftarrow> the_run;
     _ \<leftarrow> stop_all x m (concat (map dp_fresh (filter dp_exposed (dr_pools r))));
     set_run (\<lambda>r. r\<lparr>dr_pools := map (\<lambda>p. if dp_exposed p then p\<lparr>dp_fresh := []\<rparr> else p) (dr_pools r)\<rparr>) }"

fun record_pools :: "deploy_answers \<Rightarrow> deployer \<Rightarrow> deployPool list \<Rightarrow> (act_error + unit) deploys" where
  "record_pools x m [] = State_Monad.return (Inr ())"
| "record_pools x m (p # ps) =
     (if \<not> dp_exposed p then record_pools x m ps
      else and_then (recordTargets (dx_base x) (dm_manager m) (dp_route p) (dp_fresh p @ dp_held p)) (\<lambda>_. record_pools x m ps))"

definition pushPools :: "deploy_answers \<Rightarrow> deployer \<Rightarrow> (run_error + unit) deploys" where
  "pushPools x m = do {
     r \<leftarrow> the_run;
     acting (and_then (record_pools x m (dr_pools r)) (\<lambda>_. pushRoutes (dx_base x) (dm_manager m))) }"

section \<open>Going back\<close>

definition plan_svc :: "releasePlan \<Rightarrow> string \<Rightarrow> svcRollPlan option" where
  "plan_svc p name = find (\<lambda>s. plan_name s = name) (rp_services p)"

definition putService :: "deploy_answers \<Rightarrow> string \<Rightarrow> unit deploys" where
  "putService x name = ignore (dask x (DeployPutService name))"

fun restore_pools :: "deploy_answers \<Rightarrow> releasePlan \<Rightarrow> bool \<Rightarrow> bool \<Rightarrow> deployPool list \<Rightarrow> unit deploys" where
  "restore_pools x p replaced pushed [] = State_Monad.return ()"
| "restore_pools x p replaced pushed (pool # pools) = do {
     _ \<leftarrow> (case plan_svc p (dp_service pool) of
             None \<Rightarrow> State_Monad.return ()
           | Some s \<Rightarrow> do {
               svc \<leftarrow> dattempt x (DeployService (plan_name s));
               (case svc of
                  Inl _ \<Rightarrow> State_Monad.return ()
                | Inr _ \<Rightarrow>
                    if dp_exposed pool then (if pushed then putService x (plan_name s) else State_Monad.return ())
                    else if \<not> replaced then State_Monad.return ()
                    else do {
                      r \<leftarrow> dattempt x (DeployRecreate (plan_name s));
                      (case r of Inl _ \<Rightarrow> State_Monad.return () | Inr _ \<Rightarrow> putService x (plan_name s)) }) });
     restore_pools x p replaced pushed pools }"

definition restorePrevious :: "deploy_answers \<Rightarrow> unit deploys" where
  "restorePrevious x = do {
     r \<leftarrow> the_run;
     (case dd_FromRelease (dr_d r) of
        None \<Rightarrow> State_Monad.return ()
      | Some rel \<Rightarrow>
          if \<not> dr_replaced r \<and> \<not> dr_pushed r then State_Monad.return ()
          else do {
            l \<leftarrow> the_log;
            planned \<leftarrow> dattempt x (DeployPlan (rel_ID (fst rel)));
            (case planned of
               Inl _ \<Rightarrow> State_Monad.return ()
             | Inr _ \<Rightarrow> do {
                 let p = dx_plan x l rel;
                 _ \<leftarrow> saveEnv x p;
                 r' \<leftarrow> the_run;
                 restore_pools x p (dr_replaced r') (dr_pushed r') (dr_pools r') }) }) }"

fun wait_drained :: "deploy_answers \<Rightarrow> deployer \<Rightarrow> gtime \<Rightarrow> (deployPool \<times> Replica) list \<Rightarrow> unit deploys" where
  "wait_drained x m t [] = State_Monad.return ()"
| "wait_drained x m t ((p, rep) # rest) =
     (if rp_Container rep = [] then wait_drained x m t rest
      else do {
        _ \<leftarrow> waitDrain (dx_base x) (dm_manager m) (ro_host (dp_route p)) (rp_Index rep) (dp_drain p) t;
        wait_drained x m t rest })"

definition turn_back :: "gtime \<Rightarrow> deployPool \<Rightarrow> deployPool" where
  "turn_back t p = (if \<not> dp_exposed p then p
     else p\<lparr>dp_held := map (\<lambda>rep. rep\<lparr>rp_State := ReplicaActive, rp_Since := t\<rparr>) (dp_held p),
            dp_fresh := map (\<lambda>rep. rep\<lparr>rp_State := ReplicaDraining, rp_Since := t\<rparr>) (dp_fresh p)\<rparr>)"

definition rollbackFailed :: "deploy_answers \<Rightarrow> string \<Rightarrow> run_error \<Rightarrow> (run_error + unit) deploys" where
  "rollbackFailed x reason cause = do {
     t \<leftarrow> dnow x;
     _ \<leftarrow> set_d (\<lambda>d. d\<lparr>dd_Status := DeployFailed, dd_Error := dx_error x cause, dd_FinishedAt := t, dd_Reason := reason\<rparr>);
     _ \<leftarrow> dstep x StepRollback StepFailed;
     _ \<leftarrow> finish x;
     State_Monad.return (Inl (RunRollback cause)) }"

text \<open>After the old pool has been put back at the edge.\<close>

definition rollback_rest :: "deploy_answers \<Rightarrow> deployer \<Rightarrow> string \<Rightarrow> gtime \<Rightarrow> unit deploys" where
  "rollback_rest x m reason t = do {
     r \<leftarrow> the_run;
     _ \<leftarrow> wait_drained x m t (concat (map (\<lambda>p. map (Pair p) (dp_fresh p)) (filter dp_exposed (dr_pools r))));
     _ \<leftarrow> removeFresh x m;
     _ \<leftarrow> set_run (\<lambda>r. r\<lparr>dr_pools := map (\<lambda>p. p\<lparr>dp_fresh := dp_held p, dp_held := []\<rparr>) (dr_pools r)\<rparr>);
     _ \<leftarrow> pushPools x m;
     _ \<leftarrow> restorePrevious x;
     t' \<leftarrow> dnow x;
     _ \<leftarrow> set_d (\<lambda>d. d\<lparr>dd_Status := DeployRolledBack, dd_Reason := reason, dd_FinishedAt := t'\<rparr>);
     _ \<leftarrow> clear_env_deploy x;
     _ \<leftarrow> dnow x;
     _ \<leftarrow> dstep x StepRollback StepOK;
     finish x }"

definition rollback :: "deploy_answers \<Rightarrow> deployer \<Rightarrow> string \<Rightarrow> (run_error + unit) deploys" where
  "rollback x m reason = do {
     _ \<leftarrow> dnow x;
     _ \<leftarrow> dstep x StepRollback StepStarted;
     t \<leftarrow> dnow x;
     _ \<leftarrow> set_run (\<lambda>r. r\<lparr>dr_pools := map (turn_back t) (dr_pools r)\<rparr>);
     pu \<leftarrow> pushPools x m;
     (case pu of
        Inl e \<Rightarrow> rollbackFailed x reason e
      | Inr _ \<Rightarrow> do { _ \<leftarrow> rollback_rest x m reason t; State_Monad.return (Inr ()) }) }"

definition fail :: "deploy_answers \<Rightarrow> deployer \<Rightarrow> DeployStepName \<Rightarrow> run_error \<Rightarrow> (run_error + unit) deploys" where
  "fail x m name cause = do {
     r \<leftarrow> the_run;
     (if dr_pushed r then rollback x m (dx_why x (WhyFailed name cause))
      else do {
        t \<leftarrow> dnow x;
        _ \<leftarrow> set_d (\<lambda>d. d\<lparr>dd_Status := DeployFailed, dd_Error := dx_error x cause, dd_FinishedAt := t\<rparr>);
        _ \<leftarrow> dstep x name StepFailed;
        _ \<leftarrow> restorePrevious x;
        _ \<leftarrow> removeFresh x m;
        _ \<leftarrow> finish x;
        State_Monad.return (Inl cause) }) }"

definition setStatus :: "deploy_answers \<Rightarrow> deployer \<Rightarrow> string \<Rightarrow> (run_error + unit) deploys" where
  "setStatus x m status = do {
     _ \<leftarrow> set_d (\<lambda>d. d\<lparr>dd_Status := status\<rparr>);
     u \<leftarrow> update x;
     (case u of
        Inr _ \<Rightarrow> State_Monad.return (Inr ())
      | Inl e \<Rightarrow> do { r \<leftarrow> the_run; fail x m (lastStep (dr_d r)) e }) }"

section \<open>Promoting\<close>

definition prune :: "deploy_answers \<Rightarrow> deployer \<Rightarrow> unit deploys" where
  "prune x m =
     (if \<not> dm_Builder m then State_Monad.return ()
      else do {
        r \<leftarrow> the_run;
        l \<leftarrow> the_log;
        e \<leftarrow> dask x (DeployPrune (KeepReleases (dr_policy r)));
        (if e = None \<and> dx_pruned x l \<noteq> [] then dstep x StepPromote StepOK else State_Monad.return ()) })"

definition record_release :: "deploy_answers \<Rightarrow> unit deploys" where
  "record_release x = do {
     r \<leftarrow> the_run;
     (case dd_Release (dr_d r) of
        None \<Rightarrow> State_Monad.return ()
      | Some rel \<Rightarrow>
          if rel_ID (fst rel) = 0 then State_Monad.return ()
          else do {
            _ \<leftarrow> set_env_release x (rel_ID (fst rel));
            _ \<leftarrow> State (\<lambda>w. ((), w\<lparr>dw_rec := (dw_rec w)\<lparr>env_ReleaseID := rel_ID (fst rel)\<rparr>\<rparr>));
            (case dr_up r of
               None \<Rightarrow> State_Monad.return ()
             | Some p \<Rightarrow>
                 if rel_Commit (fst rel) = [] then State_Monad.return ()
                 else do {
                   _ \<leftarrow> State (\<lambda>w. ((), w\<lparr>dw_rec := (dw_rec w)\<lparr>env_Commit := rel_Commit (fst rel)\<rparr>\<rparr>));
                   ignore (saveEnv x p) }) }) }"

definition promote :: "deploy_answers \<Rightarrow> deployer \<Rightarrow> string \<Rightarrow> (run_error + unit) deploys" where
  "promote x m reason = do {
     _ \<leftarrow> dnow x;
     _ \<leftarrow> dstep x StepPromote StepStarted;
     r \<leftarrow> the_run;
     stopped \<leftarrow> stop_all x m (concat (map dp_held (dr_pools r)));
     _ \<leftarrow> set_run (\<lambda>r. r\<lparr>dr_pools := map (\<lambda>p. p\<lparr>dp_held := []\<rparr>) (dr_pools r)\<rparr>);
     _ \<leftarrow> (if stopped > 0 then ignore (pushPools x m) else State_Monad.return ());
     _ \<leftarrow> record_release x;
     _ \<leftarrow> prune x m;
     t \<leftarrow> dnow x;
     _ \<leftarrow> set_d (\<lambda>d. d\<lparr>dd_Status := DeployPromoted, dd_FinishedAt := t, dd_Reason := (if dd_Reason d = [] then reason else dd_Reason d)\<rparr>);
     _ \<leftarrow> dnow x;
     _ \<leftarrow> dstep x StepPromote StepOK;
     _ \<leftarrow> finish x;
     State_Monad.return (Inr ()) }"

section \<open>Watching\<close>

definition elapsedAt :: "deployRun \<Rightarrow> gtime \<Rightarrow> duration" where
  "elapsedAt r t = (if is_zero (dr_flippedAt r) then 0 else time_sub t (dr_flippedAt r))"

definition countedAt :: "deployRun \<Rightarrow> gtime \<Rightarrow> duration" where
  "countedAt r t = (if is_zero (dr_countedFrom r) then elapsedAt r t else time_sub t (dr_countedFrom r))"

definition countFrom :: "deploy_answers \<Rightarrow> gtime \<Rightarrow> unit deploys" where
  "countFrom x since = do {
     _ \<leftarrow> set_run (\<lambda>r. if is_zero (dr_countedFrom r) then r\<lparr>dr_countedFrom := dr_flippedAt r\<rparr> else r);
     r \<leftarrow> the_run;
     (if is_zero since \<or> since \<le> dr_countedFrom r then State_Monad.return ()
      else do {
        t \<leftarrow> dnow x;
        let since' = (if since > t then t else since);
        (if since' \<le> dr_countedFrom r then State_Monad.return ()
         else do {
           _ \<leftarrow> set_run (\<lambda>r. r\<lparr>dr_countedFrom := since'\<rparr>);
           dstep x StepWatch StepSkipped }) }) }"

definition counts_Host :: "edge_counts \<Rightarrow> string \<Rightarrow> HostCounts option" where
  "counts_Host c host = find (\<lambda>h. NormalizeHost (hc_Host h) = NormalizeHost host) (ec_Hosts c)"

text \<open>The requests and errors of the fresh replicas of a pool, with those that reached no replica.\<close>

definition pool_counts :: "edge_counts \<Rightarrow> deployPool \<Rightarrow> int \<times> int" where
  "pool_counts c p =
     (if \<not> dp_exposed p then (0, 0)
      else (case counts_Host c (ro_host (dp_route p)) of
              None \<Rightarrow> (0, 0)
            | Some h \<Rightarrow>
                (let mine = hc_Replicas h (map rp_Index (dp_fresh p)); un = hc_Unrouted h
                 in (tc_Requests mine + uc_Requests un,
                     tc_Status5xx mine + tc_ConnectFailures mine + (uc_Status5xx un + uc_ConnectFailures un)))))"

definition error_rate :: "int \<Rightarrow> int \<Rightarrow> float64" where
  "error_rate requests errors = (if requests > 0 then fl_div (fl_of_int errors) (fl_of_int requests) else Finite 0)"

definition set_watch :: "DeployWatch \<Rightarrow> unit deploys" where
  "set_watch w = set_d (\<lambda>d. d\<lparr>dd_Watch := Some w\<rparr>)"

definition poll :: "deploy_answers \<Rightarrow> deployer \<Rightarrow> unit deploys" where
  "poll x m = do {
     t \<leftarrow> dnow x;
     r \<leftarrow> the_run;
     let w = \<lparr>dw_Window = WatchWindow (dr_policy r), dw_Elapsed = elapsedAt r t, dw_Requests = 0, dw_Errors = 0, dw_Rate = Finite 0,
              dw_MaxRate = MaxErrorRate (dr_policy r), dw_MinRequests = MinErrorRequests, dw_CountedFrom = 0, dw_Counted = 0\<rparr>;
     _ \<leftarrow> set_watch w;
     (if \<not> dm_Edge m then State_Monad.return ()
      else do {
        l \<leftarrow> the_log;
        e \<leftarrow> dask x (DeployCounts (dr_flippedAt r));
        (if e \<noteq> None then State_Monad.return ()
         else do {
           let c = dx_counts x l;
           _ \<leftarrow> countFrom x (ec_Since c);
           t' \<leftarrow> dnow x;
           r' \<leftarrow> the_run;
           let reqs = sum_list (map (\<lambda>p. fst (pool_counts c p)) (dr_pools r'));
           let errs = sum_list (map (\<lambda>p. snd (pool_counts c p)) (dr_pools r'));
           set_watch (w\<lparr>dw_CountedFrom := dr_countedFrom r', dw_Elapsed := elapsedAt r' t', dw_Counted := countedAt r' t',
              dw_Requests := reqs, dw_Errors := errs, dw_Rate := error_rate reqs errs\<rparr>) }) }) }"

fun unhealthy_in :: "deploy_answers \<Rightarrow> (string \<times> Replica) list \<Rightarrow> why option deploys" where
  "unhealthy_in x [] = State_Monad.return None"
| "unhealthy_in x ((service, rep) # rest) =
     (if rp_Container rep = [] then unhealthy_in x rest
      else do {
        l \<leftarrow> the_log;
        e \<leftarrow> ask (dx_base x) (CallInspect (rp_Container rep));
        (if e \<noteq> None then unhealthy_in x rest
         else (case an_inspect (dx_base x) l (rp_Container rep) of
                 None \<Rightarrow> State_Monad.return (Some (WhyGone (rp_Index rep) service))
               | Some cur \<Rightarrow>
                   if \<not> cs_Running cur
                   then State_Monad.return (Some (WhyNotRunning (rp_Index rep) service (if cs_Status cur = [] then ''not running'' else cs_Status cur)))
                   else unhealthy_in x rest)) })"

definition unhealthy :: "deploy_answers \<Rightarrow> why option deploys" where
  "unhealthy x = do {
     r \<leftarrow> the_run;
     unhealthy_in x (concat (map (\<lambda>p. map (Pair (dp_service p)) (dp_fresh p)) (dr_pools r))) }"

end
