(* ===== verification/DeployWatching.thy ===== *)
theory DeployWatching
  imports DeployRun
begin

text \<open>
  The watch of a deploy (\<^verbatim>\<open>watch\<close>, \<^verbatim>\<open>await\<close> and \<^verbatim>\<open>watchAll\<close> of \<^verbatim>\<open>internal/env/deploy_watch.go\<close>): the loop that reads the edge's counts and
  the state of the new containers until the deploy is promoted, rolled back or left to another. The loops run with fuel: \<open>None\<close> is a watch
  that still goes on. What a wait ends with, a tick, a signal or the end of the context, is an answer.
\<close>

section \<open>The loops\<close>

definition watchPassed :: "deploy_answers \<Rightarrow> unit deploys" where
  "watchPassed x = do { _ \<leftarrow> dnow x; dstep x StepWatch StepOK }"

definition abandon :: "deploy_answers \<Rightarrow> (run_error + unit) deploys" where
  "abandon x = do {
     _ \<leftarrow> dstep x StepWatch StepSkipped;
     _ \<leftarrow> update x;
     _ \<leftarrow> State (\<lambda>w. ((), w\<lparr>dw_watches := filter (\<lambda>i. i \<noteq> dd_ID (dr_d (dw_run w))) (dw_watches w)\<rparr>));
     State_Monad.return (Inr ()) }"

definition interrupted :: "deploy_answers \<Rightarrow> (run_error + unit) deploys" where
  "interrupted x = do {
     r \<leftarrow> the_run;
     (if dr_detached r then abandon x else State_Monad.return (Inl RunCommanderGone)) }"

text \<open>What the wait ends with: the loop goes on at a tick.\<close>

definition select :: "deploy_answers \<Rightarrow> deployer \<Rightarrow> (run_error + unit) option deploys" where
  "select x m = do {
     l \<leftarrow> the_log;
     _ \<leftarrow> dask x DeploySelect;
     (case dx_signal x l of
        SignalTick \<Rightarrow> State_Monad.return None
      | SignalCancelled \<Rightarrow> do { r \<leftarrow> interrupted x; State_Monad.return (Some r) }
      | SignalPromote \<Rightarrow> do { r \<leftarrow> promote x m (dx_why x WhyByHand); State_Monad.return (Some r) }
      | SignalRollback why \<Rightarrow> do { r \<leftarrow> rollback x m why; State_Monad.return (Some r) }) }"

text \<open>The checks of a round: roll back when the rate of errors or a replica says so.\<close>

definition breach :: "deploy \<Rightarrow> why option" where
  "breach d = (case dd_Watch d of None \<Rightarrow> None | Some w \<Rightarrow> if Breached w then Some (WhyBreached w) else None)"

definition look :: "deploy_answers \<Rightarrow> deployer \<Rightarrow> (run_error + unit) option deploys" where
  "look x m = do {
     _ \<leftarrow> poll x m;
     r \<leftarrow> the_run;
     u \<leftarrow> (case breach (dr_d r) of Some why \<Rightarrow> State_Monad.return (Some why) | None \<Rightarrow> unhealthy x);
     (case u of
        Some why \<Rightarrow> do { y \<leftarrow> rollback x m (dx_why x why); State_Monad.return (Some y) }
      | None \<Rightarrow> State_Monad.return None) }"

text \<open>The window is over when it has been counted in full, or twice its length has passed, a product of 64 bits. Then the deploy is promoted, or left to
  whoever promotes by hand; before that the loop waits.\<close>

definition window_over :: "gtime \<Rightarrow> deployRun \<Rightarrow> bool" where
  "window_over t r \<longleftrightarrow> countedAt r t \<ge> WatchWindow (dr_policy r) \<or> elapsedAt r t \<ge> wrap64 (2 * WatchWindow (dr_policy r))"

definition settle :: "deploy_answers \<Rightarrow> deployer \<Rightarrow> gtime \<Rightarrow> deployRun \<Rightarrow> (run_error + unit) option deploys" where
  "settle x m t r =
     (if window_over t r \<and> PromotePolicy (dr_policy r) \<noteq> PromoteManual then do {
        _ \<leftarrow> watchPassed x;
        res \<leftarrow> promote x m (dx_why x WhyWindow);
        State_Monad.return (Some res) }
      else if window_over t r then do {
        _ \<leftarrow> watchPassed x;
        _ \<leftarrow> dstep x StepWatch StepOK;
        State_Monad.return (Some (Inl RunHandedOff)) }
      else select x m)"

definition watch_round :: "deploy_answers \<Rightarrow> deployer \<Rightarrow> (run_error + unit) option deploys" where
  "watch_round x m = do {
     y \<leftarrow> look x m;
     (case y of
        Some res \<Rightarrow> State_Monad.return (Some res)
      | None \<Rightarrow> do {
          t \<leftarrow> dnow x;
          r \<leftarrow> the_run;
          _ \<leftarrow> set_d (\<lambda>d. d\<lparr>dd_Watch := map_option (\<lambda>u. u\<lparr>dw_Elapsed := elapsedAt r t, dw_Counted := countedAt r t,
                 dw_CountedFrom := dr_countedFrom r\<rparr>) (dd_Watch d)\<rparr>);
          settle x m t r }) }"

fun watch_loop :: "deploy_answers \<Rightarrow> deployer \<Rightarrow> nat \<Rightarrow> (run_error + unit) option deploys" where
  "watch_loop x m 0 = State_Monad.return None"
| "watch_loop x m (Suc n) = do {
     y \<leftarrow> watch_round x m;
     (case y of Some res \<Rightarrow> State_Monad.return (Some res) | None \<Rightarrow> watch_loop x m n) }"

definition watch :: "deploy_answers \<Rightarrow> deployer \<Rightarrow> nat \<Rightarrow> (run_error + unit) option deploys" where
  "watch x m n = do {
     r \<leftarrow> the_run;
     _ \<leftarrow> (if dr_watchStarted r then State_Monad.return ()
           else do { _ \<leftarrow> set_run (\<lambda>r. r\<lparr>dr_watchStarted := True\<rparr>); dstep x StepWatch StepStarted });
     watch_loop x m n }"

fun await :: "deploy_answers \<Rightarrow> deployer \<Rightarrow> nat \<Rightarrow> (run_error + unit) option deploys" where
  "await x m 0 = State_Monad.return None"
| "await x m (Suc n) = do {
     y \<leftarrow> select x m;
     (case y of
        Some res \<Rightarrow> State_Monad.return (Some res)
      | None \<Rightarrow> do {
          z \<leftarrow> look x m;
          (case z of Some res \<Rightarrow> State_Monad.return (Some res) | None \<Rightarrow> await x m n) }) }"

fun watchAll :: "deploy_answers \<Rightarrow> deployer \<Rightarrow> nat \<Rightarrow> (run_error + unit) option deploys" where
  "watchAll x m 0 = State_Monad.return None"
| "watchAll x m (Suc n) = do {
     y \<leftarrow> watch x m n;
     (if y = Some (Inl RunHandedOff) then await x m n
      else if y = Some (Inl RunCommanderGone) then do {
        _ \<leftarrow> set_run (\<lambda>r. r\<lparr>dr_detached := True\<rparr>);
        watchAll x m n }
      else State_Monad.return y) }"

section \<open>What programs leave alone\<close>

text \<open>A program that does not change what \<open>f\<close> says of the state.\<close>

definition pres :: "(deploy_world \<Rightarrow> 'b) \<Rightarrow> 'a deploys \<Rightarrow> bool" where
  "pres f m \<longleftrightarrow> (\<forall>w r w'. run_state m w = (r, w') \<longrightarrow> f w' = f w)"

named_theorems pres_rules \<open>which programs leave the run alone\<close>

lemma presD: "pres f m \<Longrightarrow> run_state m w = (r, w') \<Longrightarrow> f w' = f w"
  unfolding pres_def by blast

lemma pres_return [pres_rules]: "pres f (State_Monad.return x)"
  by (simp add: pres_def)

lemma pres_bind [pres_rules]: "pres f m \<Longrightarrow> (\<And>x. pres f (g x)) \<Longrightarrow> pres f (State_Monad.bind m g)"
  unfolding pres_def by (metis bind_runE)

lemma pres_if [pres_rules]: "pres f m \<Longrightarrow> pres f n \<Longrightarrow> pres f (if b then m else n)"
  by simp

lemma pres_Let [pres_rules]: "pres f (g x) \<Longrightarrow> pres f (let y = x in g y)"
  by (simp add: Let_def)

lemma pres_sum [pres_rules]: "(\<And>e. pres f (g e)) \<Longrightarrow> (\<And>x. pres f (h x)) \<Longrightarrow> pres f (case r of Inl e \<Rightarrow> g e | Inr x \<Rightarrow> h x)"
  by (cases r) auto

lemma pres_option [pres_rules]: "pres f g \<Longrightarrow> (\<And>x. pres f (h x)) \<Longrightarrow> pres f (case r of None \<Rightarrow> g | Some x \<Rightarrow> h x)"
  by (cases r) auto

lemma pres_and_then [pres_rules]: "pres f m \<Longrightarrow> (\<And>x. pres f (g x)) \<Longrightarrow> pres f (and_then m g)"
  unfolding and_then_def by (intro pres_rules)

lemma pres_ask [pres_rules]: "pres dw_run (ask a c)" and pres_the_log [pres_rules]: "pres dw_run the_log"
  and pres_set_targets [pres_rules]: "pres dw_run (set_targets a t one ts)"
  and pres_the_run [pres_rules]: "pres dw_run the_run" and pres_on_db [pres_rules]: "pres dw_run (on_db g)"
  by (auto simp: pres_def ask_def the_log_def Let_def set_targets_def and_then_def attempt_def the_run_def on_db_def
      elim!: bind_runE split: option.splits sum.splits)

lemma pres_State: "(\<And>w r w'. g w = (r, w') \<Longrightarrow> f w' = f w) \<Longrightarrow> pres f (State g)"
  by (simp add: pres_def)

lemma pres_attempt [pres_rules]: "pres dw_run (attempt a c)"
  unfolding attempt_def by (intro pres_rules)

lemma pres_now [pres_rules]: "pres dw_run (now a)" "pres dw_run (dnow x)"
  unfolding dnow_def now_def by (intro pres_rules)+

lemma pres_acting [pres_rules]: "pres f m \<Longrightarrow> pres f (acting m)"
  unfolding acting_def by (intro pres_rules)

lemma pres_ignore [pres_rules]: "pres f m \<Longrightarrow> pres f (ignore m)"
  unfolding ignore_def by (intro pres_rules)

lemma pres_dask [pres_rules]: "pres dw_run (dask x c)" "pres dw_run (dattempt x c)"
  unfolding dask_def dattempt_def by (intro pres_rules)+

lemma pres_stopReplica [pres_rules]: "pres dw_run (stopReplica a m c)"
  unfolding stopReplica_def by (intro pres_rules)

lemma pres_pushRoutes [pres_rules]: "pres dw_run (pushRoutes a m)"
  unfolding pushRoutes_def by (intro pres_rules)

lemma pres_target_rows [pres_rules]: "pres dw_run (target_rows a i reps)"
  by (induction reps) (auto intro!: pres_rules)

lemma pres_record_all [pres_rules]: "pres dw_run (record_all a ones reps)"
  by (induction ones) (auto intro!: pres_rules)

lemma pres_recordTargets [pres_rules]: "pres dw_run (recordTargets a m r reps)"
  unfolding recordTargets_def by (intro pres_rules)

lemma pres_waitDrain [pres_rules]: "pres dw_run (waitDrain a m h i d t)"
  unfolding waitDrain_def by (intro pres_rules)

lemma pres_stop_all [pres_rules]: "pres dw_run (stop_all x m reps)"
  by (induction reps) (auto intro!: pres_rules)

lemma pres_record_pools [pres_rules]: "pres dw_run (record_pools x m ps)"
  by (induction ps) (auto intro!: pres_rules)

lemma pres_pushPools [pres_rules]: "pres dw_run (pushPools x m)"
  unfolding pushPools_def by (intro pres_rules)

lemma pres_stores [pres_rules]: "pres dw_run (update x)" "pres dw_run (clear_env_deploy x)" "pres dw_run (set_env_release x i)"
  "pres dw_run (saveEnv x p)" "pres dw_run (putService x s)"
  unfolding update_def clear_env_deploy_def set_env_release_def saveEnv_def putService_def
  by (intro pres_rules pres_State; auto split: sum.splits simp: Let_def)+

lemma pres_restore_pools [pres_rules]: "pres dw_run (restore_pools x p a b pools)"
  by (induction pools) (auto intro!: pres_rules)

lemma pres_restorePrevious [pres_rules]: "pres dw_run (restorePrevious x)"
  unfolding restorePrevious_def by (intro pres_rules)

lemma pres_wait_drained [pres_rules]: "pres dw_run (wait_drained x m t reps)"
  by (induction x m t reps rule: wait_drained.induct) (auto intro!: pres_rules)

lemma pres_unhealthy_in [pres_rules]: "pres dw_run (unhealthy_in x reps)"
  by (induction x reps rule: unhealthy_in.induct) (auto intro!: pres_rules)

lemma pres_unhealthy [pres_rules]: "pres dw_run (unhealthy x)"
  unfolding unhealthy_def by (intro pres_rules)

section \<open>What programs log\<close>

lemma logs_State: "(\<And>w r w'. g w = (r, w') \<Longrightarrow> wd_log w' = wd_log w \<and> wd_store w' = wd_store w) \<Longrightarrow> logs (State g) P"
  by (fastforce simp: logs_def)

lemma logs_small [logs_rules]:
  "logs the_run P" "logs (set_run f) P" "logs (set_d f') P" "logs (on_db g) P" "P CallNow \<Longrightarrow> logs (dnow x) P"
  "P (CallDeploy c) \<Longrightarrow> logs (dask x c) P" "logs m P \<Longrightarrow> logs (acting m) P" "logs n P \<Longrightarrow> logs (ignore n) P"
  unfolding set_d_def the_run_def set_run_def on_db_def dnow_def dask_def acting_def ignore_def
  by (auto intro!: logs_rules logs_State split: sum.splits)

lemma logs_dattempt [logs_rules]: "P (CallDeploy c) \<Longrightarrow> logs (dattempt x c) P"
  unfolding dattempt_def by (intro logs_rules)

text \<open>Calls that touch no container and no table of routes, and wait for no signal.\<close>

fun bookkeeping :: "call \<Rightarrow> bool" where
  "bookkeeping CallNow \<longleftrightarrow> True"
| "bookkeeping (CallDeploy c) \<longleftrightarrow> c \<noteq> DeploySelect"
| "bookkeeping (CallInspect _) \<longleftrightarrow> True"
| "bookkeeping (CallDrain _ _ _ _) \<longleftrightarrow> True"
| "bookkeeping _ \<longleftrightarrow> False"

lemma logs_dstep [logs_rules]: "logs (dstep_at x name st svc t) bookkeeping"
  unfolding dstep_at_def by (intro logs_rules) simp_all

lemma logs_stores [logs_rules]: "logs (update x) bookkeeping" "logs (clear_env_deploy x) bookkeeping" "logs (set_env_release x i) bookkeeping"
  "logs (saveEnv x p) bookkeeping" "logs (putService x s) bookkeeping"
  unfolding update_def clear_env_deploy_def set_env_release_def saveEnv_def putService_def
  by (intro logs_rules logs_State; auto split: sum.splits simp: Let_def)+

lemma logs_finish [logs_rules]: "logs (finish x) bookkeeping"
  unfolding finish_def syncRollouts_def by (intro logs_rules logs_State) auto

lemma logs_restore_pools [logs_rules]: "logs (restore_pools x p a b pools) bookkeeping"
  by (induction pools) (auto intro!: logs_rules)

lemma logs_restorePrevious [logs_rules]: "logs (restorePrevious x) bookkeeping"
  unfolding restorePrevious_def by (intro logs_rules) simp_all

lemma logs_wait_drained [logs_rules]: "logs (wait_drained x m t reps) bookkeeping"
  by (induction x m t reps rule: wait_drained.induct) (auto intro!: logs_rules simp: waitDrain_def)

lemma logs_unhealthy_in [logs_rules]: "logs (unhealthy_in x reps) bookkeeping"
  by (induction x reps rule: unhealthy_in.induct) (auto intro!: logs_rules)

lemma logs_unhealthy [logs_rules]: "logs (unhealthy x) bookkeeping"
  unfolding unhealthy_def by (intro logs_rules)

lemma logs_stop_all [logs_rules]:
  "(\<And>c d. c \<in> rp_Container ` set reps \<Longrightarrow> P (CallStop c d) \<and> P (CallRemove c)) \<Longrightarrow> logs (stop_all x m reps) P"
  by (induction reps) (auto intro!: logs_rules)

text \<open>Publishing pools.\<close>

fun publishing :: "call \<Rightarrow> bool" where
  "publishing CallNow \<longleftrightarrow> True"
| "publishing (CallSetTargets _ _) \<longleftrightarrow> True"
| "publishing CallPush \<longleftrightarrow> True"
| "publishing _ \<longleftrightarrow> False"

lemma logs_record_pools [logs_rules]: "logs (record_pools x m ps) publishing"
  by (induction ps) (auto intro!: logs_rules)

lemma logs_pushPools [logs_rules]: "logs (pushPools x m) publishing"
  unfolding pushPools_def by (intro logs_rules) auto

lemma logs_True: "logs m P \<Longrightarrow> logs m (\<lambda>_. True)"
  by (rule logs_weaken) auto

lemma logs_removeFresh: "logs (removeFresh x m) (\<lambda>_. True)"
  unfolding removeFresh_def by (intro logs_rules) auto

lemma logs_prune: "logs (prune x m) bookkeeping"
  unfolding prune_def by (intro logs_rules) simp_all

lemma logs_record_release: "logs (record_release x) bookkeeping"
  unfolding record_release_def by (intro logs_rules logs_State) auto

lemma logs_promote: "logs (promote x m reason) (\<lambda>_. True)"
  unfolding promote_def
  by (intro logs_rules logs_True[OF logs_dstep] logs_True[OF logs_pushPools] logs_True[OF logs_record_release] logs_True[OF logs_prune]
      logs_True[OF logs_finish]) auto

section \<open>The state of the run after a program\<close>

abbreviation run_status :: "deploy_world \<Rightarrow> string" where "run_status w \<equiv> dd_Status (dr_d (dw_run w))"
abbreviation run_watch :: "deploy_world \<Rightarrow> DeployWatch option" where "run_watch w \<equiv> dd_Watch (dr_d (dw_run w))"
abbreviation run_pools :: "deploy_world \<Rightarrow> deployPool list" where "run_pools w \<equiv> dr_pools (dw_run w)"

text \<open>What the steps of a deploy and its end do not change.\<close>

definition run_core :: "deploy_world \<Rightarrow> string \<times> DeployWatch option \<times> Deploy option \<times> gtime \<times> gtime" where
  "run_core w = (run_status w, run_watch w, dr_policy (dw_run w), dr_flippedAt (dw_run w), dr_countedFrom (dw_run w))"

lemma pres_run: "pres dw_run m \<Longrightarrow> pres (\<lambda>w. g (dw_run w)) m"
  unfolding pres_def by metis

lemma pres_core: "pres dw_run m \<Longrightarrow> pres run_core m"
  unfolding run_core_def by (rule pres_run)

lemma pres_set_run: "(\<And>w. f (w\<lparr>dw_run := g (dw_run w)\<rparr>) = f w) \<Longrightarrow> pres f (set_run g)"
  by (auto simp: pres_def set_run_def)

lemma core_dstep: "pres run_core (dstep_at x name st svc t)"
  unfolding dstep_at_def set_d_def
  by (intro pres_rules pres_set_run pres_core[OF pres_now(2)] pres_core[OF pres_ignore[OF pres_dask(1)]]) (auto simp: run_core_def)

lemma core_finish: "pres run_core (finish x)"
  unfolding finish_def syncRollouts_def set_d_def
  by (intro pres_rules pres_set_run pres_State pres_core[OF pres_now(2)] pres_core[OF pres_the_run] pres_core[OF pres_stores(1)]
      pres_core[OF pres_stores(2)]) (auto simp: run_core_def)


section \<open>Promoting and rolling back, as the run sees them\<close>

text \<open>What holds of a program that starts where \<open>P\<close> holds.\<close>

definition triple :: "(deploy_world \<Rightarrow> bool) \<Rightarrow> 'a deploys \<Rightarrow> ('a \<Rightarrow> deploy_world \<Rightarrow> bool) \<Rightarrow> bool" where
  "triple P m Q \<longleftrightarrow> (\<forall>w r w'. P w \<longrightarrow> run_state m w = (r, w') \<longrightarrow> Q r w')"

lemma tripleD: "triple P m Q \<Longrightarrow> P w \<Longrightarrow> run_state m w = (r, w') \<Longrightarrow> Q r w'"
  unfolding triple_def by blast

lemma triple_weaken: "triple P m Q \<Longrightarrow> (\<And>w. P' w \<Longrightarrow> P w) \<Longrightarrow> (\<And>r w. Q r w \<Longrightarrow> Q' r w) \<Longrightarrow> triple P' m Q'"
  unfolding triple_def by blast

lemma triple_return: "(\<And>w. P w \<Longrightarrow> Q x w) \<Longrightarrow> triple P (State_Monad.return x) Q"
  by (auto simp: triple_def)

lemma triple_bind: "triple P m R \<Longrightarrow> (\<And>x. triple (R x) (g x) Q) \<Longrightarrow> triple P (State_Monad.bind m g) Q"
  unfolding triple_def by (metis bind_runE)

lemma triple_pres: "pres f m \<Longrightarrow> triple (\<lambda>w. P (f w)) m (\<lambda>_ w. P (f w))"
  unfolding triple_def pres_def by metis

text \<open>Everything but the status.\<close>

definition run_rest :: "deploy_world \<Rightarrow> DeployWatch option \<times> Deploy option \<times> gtime \<times> gtime" where
  "run_rest w = snd (run_core w)"

lemma pres_rest: "pres run_core m \<Longrightarrow> pres run_rest m"
  unfolding pres_def run_rest_def by metis

lemma pres_both: "pres f m \<Longrightarrow> pres g m \<Longrightarrow> pres (\<lambda>w. (f w, g w)) m"
  unfolding pres_def by simp

named_theorems core_rules \<open>which programs leave the status, the watch and the times of the run alone\<close>

lemmas [core_rules] = core_dstep core_finish pres_core[OF pres_now(2)] pres_core[OF pres_the_run] pres_core[OF pres_stop_all]
  pres_core[OF pres_pushPools] pres_core[OF pres_restorePrevious] pres_core[OF pres_wait_drained] pres_core[OF pres_unhealthy]
  pres_core[OF pres_stores(1)] pres_core[OF pres_stores(2)] pres_core[OF pres_stores(3)] pres_core[OF pres_stores(4)]
  pres_core[OF pres_ignore[OF pres_pushPools]] pres_core[OF pres_ignore[OF pres_stores(4)]] pres_core[OF pres_the_log] pres_core[OF pres_dask(1)]

lemma core_set_pools [core_rules]: "pres run_core (set_run (\<lambda>r. r\<lparr>dr_pools := h (dr_pools r)\<rparr>))"
  by (rule pres_set_run) (simp add: run_core_def)

lemma core_removeFresh [core_rules]: "pres run_core (removeFresh x m)"
  unfolding removeFresh_def by (intro pres_bind core_rules)

lemma core_prune [core_rules]: "pres run_core (prune x m)"
  unfolding prune_def by (intro pres_rules core_rules)

lemma core_record_release [core_rules]: "pres run_core (record_release x)"
  unfolding record_release_def by (intro pres_rules core_rules pres_State) (auto simp: run_core_def)

lemma rest_set_status: "(\<And>d. dd_Watch (f d) = dd_Watch d) \<Longrightarrow> pres run_rest (set_d f)"
  unfolding set_d_def by (rule pres_set_run) (simp add: run_rest_def run_core_def)

lemma triple_set_d: "(\<And>w. P w \<Longrightarrow> Q () (w\<lparr>dw_run := (dw_run w)\<lparr>dr_d := f (dr_d (dw_run w))\<rparr>\<rparr>)) \<Longrightarrow> triple P (set_d f) Q"
  by (auto simp: triple_def set_d_def set_run_def)

text \<open>The end of a run: a status, with the rest as it was.\<close>

abbreviation (input) settled :: "string \<Rightarrow> DeployWatch option \<times> Deploy option \<times> gtime \<times> gtime \<Rightarrow> deploy_world \<Rightarrow> bool" where
  "settled st v w \<equiv> run_core w = (st, v)"

lemma core_split: "run_core w = (run_status w, run_rest w)"
  by (simp add: run_rest_def run_core_def)

lemma triple_core: "pres run_core m \<Longrightarrow> triple (settled st v) m (\<lambda>_. settled st v)"
  by (rule triple_pres)

lemma triple_rest: "pres run_rest m \<Longrightarrow> triple (\<lambda>w. run_rest w = v) m (\<lambda>_ w. run_rest w = v)"
  by (rule triple_pres)

lemma triple_status:
  "(\<And>d. dd_Watch (f d) = dd_Watch d) \<Longrightarrow> (\<And>d. dd_Status (f d) = st) \<Longrightarrow> triple (\<lambda>w. run_rest w = v) (set_d f) (\<lambda>_. settled st v)"
  by (rule triple_set_d) (simp add: run_rest_def run_core_def)

lemma promote_run: "triple (\<lambda>w. run_rest w = v) (promote x m reason) (\<lambda>res w. res = Inr () \<and> settled DeployPromoted v w)"
  unfolding promote_def
  by (intro triple_bind[OF triple_status] triple_bind[OF triple_rest] triple_bind[OF triple_core] triple_return pres_if pres_return
      pres_rest core_rules) simp_all

lemma rollback_rest_run: "triple (\<lambda>w. run_rest w = v) (rollback_rest x m reason t) (\<lambda>_. settled DeployRolledBack v)"
  unfolding rollback_rest_def
  by (intro triple_bind[OF triple_status] triple_bind[OF triple_rest] triple_bind[OF triple_core] pres_rest core_rules)
    (simp, simp, rule triple_core, rule core_finish)

lemma rollbackFailed_run:
  "triple (\<lambda>w. run_rest w = v) (rollbackFailed x reason e) (\<lambda>res w. res = Inl (RunRollback e) \<and> settled DeployFailed v w)"
  unfolding rollbackFailed_def
  by (intro triple_bind[OF triple_status] triple_bind[OF triple_rest] triple_bind[OF triple_core] triple_return pres_rest core_rules) simp_all

text \<open>Rolling back ends with the status rolled back, or failed when the old pool could not be put back.\<close>

definition rolled_back :: "DeployWatch option \<times> Deploy option \<times> gtime \<times> gtime \<Rightarrow> run_error + unit \<Rightarrow> deploy_world \<Rightarrow> bool" where
  "rolled_back v res w \<longleftrightarrow> (case res of Inr _ \<Rightarrow> settled DeployRolledBack v w | Inl e \<Rightarrow> (\<exists>e'. e = RunRollback e') \<and> settled DeployFailed v w)"

lemma triple_sum:
  "(\<And>e. triple P (f e) Q) \<Longrightarrow> (\<And>y. triple P (g y) Q) \<Longrightarrow> triple P (case r of Inl e \<Rightarrow> f e | Inr y \<Rightarrow> g y) Q"
  by (cases r) auto

lemma rollback_run: "triple (\<lambda>w. run_rest w = v) (rollback x m reason) (rolled_back v)"
  unfolding rollback_def
  by (intro triple_bind[OF triple_rest] triple_sum triple_bind[OF rollback_rest_run] triple_return pres_rest core_rules
      triple_weaken[OF rollbackFailed_run]) (auto simp: rolled_back_def)


section \<open>A round of the watch\<close>

text \<open>What a round leaves alone until it ends the watch.\<close>

definition run_fixed :: "deploy_world \<Rightarrow> string \<times> Deploy option \<times> gtime \<times> deployPool list" where
  "run_fixed w = (run_status w, dr_policy (dw_run w), dr_flippedAt (dw_run w), run_pools w)"

lemma pres_fixed: "pres dw_run m \<Longrightarrow> pres run_fixed m"
  unfolding run_fixed_def by (rule pres_run)

lemma fixed_set_run: "(\<And>r. dr_d (g r) = dr_d r \<and> dr_policy (g r) = dr_policy r \<and> dr_flippedAt (g r) = dr_flippedAt r \<and> dr_pools (g r) = dr_pools r)
    \<Longrightarrow> pres run_fixed (set_run g)"
  by (rule pres_set_run) (simp add: run_fixed_def)

lemma fixed_set_d: "(\<And>d. dd_Status (f d) = dd_Status d) \<Longrightarrow> pres run_fixed (set_d f)"
  unfolding set_d_def by (rule pres_set_run) (simp add: run_fixed_def)

named_theorems fixed_rules \<open>which programs leave the status, the policy and the pools of the run alone\<close>

lemmas [fixed_rules] = pres_fixed[OF pres_now(2)] pres_fixed[OF pres_the_run] pres_fixed[OF pres_the_log] pres_fixed[OF pres_dask(1)]
  pres_fixed[OF pres_ignore[OF pres_dask(1)]] pres_fixed[OF pres_unhealthy] pres_fixed[OF pres_stores(1)]

lemma fixed_dstep [fixed_rules]: "pres run_fixed (dstep_at x name st svc t)"
  unfolding dstep_at_def by (intro pres_rules fixed_rules fixed_set_d) simp

lemma fixed_countFrom: "pres run_fixed (countFrom x since)"
  unfolding countFrom_def by (intro pres_rules fixed_rules fixed_set_run) auto

lemma fixed_set_watch: "pres run_fixed (set_watch u)"
  unfolding set_watch_def by (rule fixed_set_d) simp

lemma fixed_poll: "pres run_fixed (poll x m)"
  unfolding poll_def by (intro pres_rules fixed_rules fixed_set_watch fixed_countFrom)

text \<open>A watch record measured against a policy.\<close>

definition measured :: "Deploy option \<Rightarrow> DeployWatch \<Rightarrow> bool" where
  "measured pol u \<longleftrightarrow> dw_Window u = WatchWindow pol \<and> dw_MaxRate u = MaxErrorRate pol \<and> dw_MinRequests u = MinErrorRequests \<and>
     dw_Rate u = error_rate (dw_Requests u) (dw_Errors u)"

definition watching :: "Deploy option \<Rightarrow> deploy_world \<Rightarrow> bool" where
  "watching pol w \<longleftrightarrow> dr_policy (dw_run w) = pol \<and> (\<exists>u. run_watch w = Some u \<and> measured pol u)"

lemma watching_core: "watching pol w \<longleftrightarrow> fst (snd (snd (run_core w))) = pol \<and> (\<exists>u. fst (snd (run_core w)) = Some u \<and> measured pol u)"
  by (simp add: watching_def run_core_def)

lemma watching_pres: "pres run_core n \<Longrightarrow> triple (watching pol) n (\<lambda>_. watching pol)"
  unfolding watching_core by (rule triple_pres)

lemma countFrom_watching: "triple (watching pol) (countFrom x since) (\<lambda>_. watching pol)"
proof -
  have "pres (\<lambda>w. (run_watch w, dr_policy (dw_run w))) (countFrom x since)"
  proof -
    have dstep: "pres (\<lambda>w. (run_watch w, dr_policy (dw_run w))) (dstep x StepWatch StepSkipped)"
      using core_dstep unfolding pres_def run_core_def by blast
    show ?thesis unfolding countFrom_def
      by (intro pres_rules dstep pres_set_run pres_run[OF pres_now(2)] pres_run[OF pres_the_run]) auto
  qed
  from triple_pres[OF this, of "\<lambda>v. snd v = pol \<and> (\<exists>u. fst v = Some u \<and> measured pol u)"] show ?thesis
    by (simp add: watching_def[abs_def])
qed

lemma triple_the_run: "triple P the_run (\<lambda>r w. P w \<and> r = dw_run w)"
  by (simp add: triple_def the_run_def)

lemma triple_pure: "(C \<Longrightarrow> triple P n Q) \<Longrightarrow> triple (\<lambda>w. P w \<and> C) n Q"
  by (auto simp: triple_def)

lemma triple_if: "triple P n Q \<Longrightarrow> triple P n' Q \<Longrightarrow> triple P (if b then n else n') Q"
  by simp

lemma set_watch_watching:
  "(\<And>w. P w \<Longrightarrow> dr_policy (dw_run w) = pol \<and> measured pol u \<and> C) \<Longrightarrow> triple P (set_watch u) (\<lambda>_ w. watching pol w \<and> C)"
  unfolding set_watch_def by (rule triple_set_d) (simp add: watching_def)

lemma poll_watching: "triple (\<lambda>w. dr_policy (dw_run w) = pol) (poll x m) (\<lambda>_. watching pol)"
  unfolding poll_def Let_def
proof (rule triple_bind[OF triple_pres[OF pres_run[OF pres_now(2)]]], rule triple_bind[OF triple_the_run],
    rule triple_bind[OF set_watch_watching[where pol = pol]])
  fix t r
  show "dr_policy (dw_run w) = pol \<and> measured pol \<lparr>dw_Window = WatchWindow (dr_policy r), dw_Elapsed = elapsedAt r t, dw_Requests = 0,
      dw_Errors = 0, dw_Rate = Finite 0, dw_MaxRate = MaxErrorRate (dr_policy r), dw_MinRequests = MinErrorRequests, dw_CountedFrom = 0,
      dw_Counted = 0\<rparr> \<and> dr_policy r = pol" if "dr_policy (dw_run w) = pol \<and> r = dw_run w" for w
    using that by (simp add: measured_def error_rate_def)
qed (intro triple_pure triple_if triple_return triple_bind[OF watching_pres] triple_bind[OF countFrom_watching] triple_bind[OF triple_the_run]
    set_watch_watching[where C = True, simplified] core_rules; auto simp: measured_def watching_def)

text \<open>Since the call number \<open>n\<close> a container has been inspected and found running, or could not be inspected.\<close>

definition seen_up :: "answers \<Rightarrow> nat \<Rightarrow> log \<Rightarrow> string \<Rightarrow> bool" where
  "seen_up a n l c \<longleftrightarrow> (\<exists>i<length l. n \<le> i \<and> fst (l ! i) = CallInspect c \<and>
     (snd (l ! i) \<noteq> None \<or> (case an_inspect a (take i l) c of None \<Rightarrow> False | Some cur \<Rightarrow> cs_Running cur)))"

lemma seen_up_append: "seen_up a n l c \<Longrightarrow> seen_up a n (l @ es) c"
  unfolding seen_up_def
proof (elim exE conjE)
  fix i
  assume "i < length l" "n \<le> i" "fst (l ! i) = CallInspect c"
    "snd (l ! i) \<noteq> None \<or> (case an_inspect a (take i l) c of None \<Rightarrow> False | Some cur \<Rightarrow> cs_Running cur)"
  then show "\<exists>i<length (l @ es). n \<le> i \<and> fst ((l @ es) ! i) = CallInspect c \<and>
     (snd ((l @ es) ! i) \<noteq> None \<or> (case an_inspect a (take i (l @ es)) c of None \<Rightarrow> False | Some cur \<Rightarrow> cs_Running cur))"
    by (intro exI[of _ i]) (simp add: nth_append)
qed

lemma seen_up_mono: "seen_up a n l c \<Longrightarrow> k \<le> n \<Longrightarrow> seen_up a k l c"
  unfolding seen_up_def by fastforce

lemma ask_run: "run_state (ask a c) w = (e, w') \<longleftrightarrow> e = an_error a (wd_log w) c \<and> w' = w\<lparr>wd_log := wd_log w @ [(c, e)]\<rparr>"
  by (auto simp: ask_def Let_def)

lemma unhealthy_in_None:
  assumes "run_state (unhealthy_in x reps) w = (None, w')" "(svc, rep) \<in> set reps" "rp_Container rep \<noteq> []"
  shows "seen_up (dx_base x) (length (wd_log w)) (wd_log w') (rp_Container rep)"
  using assms
proof (induction reps arbitrary: w)
  case (Cons head rest)
  obtain service rep' where head: "head = (service, rep')" by (cases head)
  let ?c = "rp_Container rep'"
  show ?case
  proof (cases "?c = []")
    case True
    then show ?thesis using Cons head by auto
  next
    case False
    let ?e = "an_error (dx_base x) (wd_log w) (CallInspect ?c)"
    let ?w1 = "w\<lparr>wd_log := wd_log w @ [(CallInspect ?c, ?e)]\<rparr>"
    have rest: "run_state (unhealthy_in x rest) ?w1 = (None, w')"
      and up: "?e \<noteq> None \<or> (case an_inspect (dx_base x) (wd_log w) ?c of None \<Rightarrow> False | Some cur \<Rightarrow> cs_Running cur)"
      using Cons.prems(1) False by (auto simp: head bind_run the_log_def ask_run split: if_splits option.splits)
    obtain es where es: "wd_log w' = wd_log ?w1 @ es" using logsD[OF logs_unhealthy_in rest] by blast
    show ?thesis
    proof (cases "(svc, rep) \<in> set rest")
      case True
      have "seen_up (dx_base x) (length (wd_log ?w1)) (wd_log w') (rp_Container rep)"
        by (rule Cons.IH[OF rest True Cons.prems(3)])
      then show ?thesis by (rule seen_up_mono) simp
    next
      case False
      then have "rep = rep'" using Cons.prems(2) head by simp
      then have "seen_up (dx_base x) (length (wd_log w)) (wd_log ?w1) (rp_Container rep)"
        unfolding seen_up_def using up by (intro exI[of _ "length (wd_log w)"]) simp
      then show ?thesis unfolding es by (rule seen_up_append)
    qed
  qed
qed simp

lemma run_the_run: "run_state the_run w = (r, w') \<longleftrightarrow> r = dw_run w \<and> w' = w"
  by (auto simp: the_run_def)

lemma unhealthy_None:
  assumes "run_state (unhealthy x) w = (None, w')" "p \<in> set (run_pools w)" "rep \<in> set (dp_fresh p)" "rp_Container rep \<noteq> []"
  shows "seen_up (dx_base x) (length (wd_log w)) (wd_log w') (rp_Container rep)"
proof -
  have "run_state (unhealthy_in x (concat (map (\<lambda>p. map (Pair (dp_service p)) (dp_fresh p)) (run_pools w)))) w = (None, w')"
    using assms(1) by (simp add: unhealthy_def bind_run run_the_run)
  from unhealthy_in_None[OF this _ assms(4)] show ?thesis using assms(2,3) by force
qed

text \<open>A round's checks found nothing wrong.\<close>

definition all_up :: "deploy_answers \<Rightarrow> nat \<Rightarrow> log \<Rightarrow> deployPool list \<Rightarrow> bool" where
  "all_up x n l ps \<longleftrightarrow> (\<forall>p \<in> set ps. \<forall>rep \<in> set (dp_fresh p). rp_Container rep \<noteq> [] \<longrightarrow> seen_up (dx_base x) n l (rp_Container rep))"

fun quiet :: "call \<Rightarrow> bool" where
  "quiet (CallDeploy DeploySelect) \<longleftrightarrow> False"
| "quiet _ \<longleftrightarrow> True"

text \<open>The program does not wait for a tick or a signal.\<close>

named_theorems quiet_rules

lemma quiet_bookkeeping: "logs n bookkeeping \<Longrightarrow> logs n quiet"
  by (erule logs_weaken) (metis bookkeeping.simps(2) quiet.elims(3))

lemma quiet_publishing: "logs n publishing \<Longrightarrow> logs n quiet"
  by (erule logs_weaken) (metis publishing.simps quiet.elims(3))

lemma quiet_small [quiet_rules]:
  "logs (dstep_at x name st svc t) quiet" "logs (update x) quiet" "logs (clear_env_deploy x) quiet" "logs (set_env_release x i) quiet"
  "logs (saveEnv x p) quiet" "logs (putService x s) quiet" "logs (prune x m) quiet" "logs (stop_all x m reps) quiet"
  "logs (pushPools x m) quiet" "logs (dnow x) quiet" "logs (unhealthy_in x rs) quiet" "logs (set_watch u) quiet"
  unfolding set_watch_def
  by (intro logs_rules logs_prune[THEN quiet_bookkeeping] logs_dstep[THEN quiet_bookkeeping] logs_stores[THEN quiet_bookkeeping]
      logs_unhealthy_in[THEN quiet_bookkeeping] logs_pushPools[THEN quiet_publishing]; simp)+

lemma quiet_promote: "logs (promote x m reason) quiet"
  unfolding promote_def record_release_def finish_def syncRollouts_def by (intro logs_rules quiet_rules logs_State) auto

lemma quiet_poll: "logs (poll x m) quiet"
  unfolding poll_def countFrom_def by (intro logs_rules quiet_rules) simp_all

lemma quiet_unhealthy: "logs (unhealthy x) quiet"
  unfolding unhealthy_def by (intro logs_rules quiet_rules)

definition fine :: "deploy_answers \<Rightarrow> nat \<Rightarrow> deploy_world \<Rightarrow> bool" where
  "fine x n w \<longleftrightarrow> (\<exists>u. run_watch w = Some u \<and> measured (dr_policy (dw_run w)) u \<and> \<not> Breached u) \<and> all_up x n (wd_log w) (run_pools w)"

lemma look_None:
  assumes "run_state (look x m) w = (None, w')"
  shows "run_fixed w' = run_fixed w \<and> fine x (length (wd_log w)) w' \<and> (\<exists>es. wd_log w' = wd_log w @ es \<and> (\<forall>y \<in> set es. quiet (fst y)))"
proof -
  obtain w1 where poll: "run_state (poll x m) w = ((), w1)" using assms by (auto simp: look_def bind_run)
  have policy: "dr_policy (dw_run w1) = dr_policy (dw_run w)" using presD[OF fixed_poll poll] by (simp add: run_fixed_def)
  obtain u where u: "run_watch w1 = Some u" "measured (dr_policy (dw_run w)) u"
    using tripleD[OF poll_watching refl poll] by (auto simp: watching_def)
  obtain es1 where es1: "wd_log w1 = wd_log w @ es1" "\<forall>y \<in> set es1. quiet (fst y)" using logsD[OF quiet_poll poll] by blast
  have ok: "\<not> Breached u" and none: "run_state (unhealthy x) w1 = (None, w')"
    using assms poll u(1) by (auto simp: look_def breach_def bind_run run_the_run split: if_splits option.splits)
  have run: "dw_run w' = dw_run w1" using presD[OF pres_unhealthy none] .
  obtain es2 where es2: "wd_log w' = wd_log w1 @ es2" "\<forall>y \<in> set es2. quiet (fst y)" using logsD[OF quiet_unhealthy none] by blast
  have "\<exists>es. wd_log w' = wd_log w @ es \<and> (\<forall>y \<in> set es. quiet (fst y))" using es1 es2 by (intro exI[of _ "es1 @ es2"]) auto
  moreover have "all_up x (length (wd_log w)) (wd_log w') (run_pools w')"
    unfolding all_up_def run using unhealthy_None[OF none] seen_up_mono[of _ "length (wd_log w1)" _ _ "length (wd_log w)"] es1(1) by auto
  ultimately show ?thesis using presD[OF fixed_poll poll] u ok policy run by (auto simp: fine_def run_fixed_def)
qed

lemma rollback_status:
  assumes "run_state (rollback x m reason) w = (y, w')"
  shows "run_status w' \<in> {DeployRolledBack, DeployFailed}"
  using tripleD[OF rollback_run refl assms] by (cases y) (auto simp: rolled_back_def core_split)

lemma look_Some:
  assumes "run_state (look x m) w = (Some y, w')"
  shows "run_status w' \<in> {DeployRolledBack, DeployFailed}"
proof -
  obtain why w1 where "run_state (rollback x m why) w1 = (y, w')"
    using assms by (auto simp: look_def run_the_run elim!: bind_runE split: if_splits option.splits)
  then show ?thesis by (rule rollback_status)
qed

text \<open>The deploy was promoted by hand: a wait ended with that signal.\<close>

definition by_hand :: "deploy_answers \<Rightarrow> log \<Rightarrow> bool" where
  "by_hand x l \<longleftrightarrow> (\<exists>i<length l. fst (l ! i) = CallDeploy DeploySelect \<and> dx_signal x (take i l) = SignalPromote)"

lemma by_handI: "dx_signal x l = SignalPromote \<Longrightarrow> by_hand x (l @ (CallDeploy DeploySelect, e) # es)"
  unfolding by_hand_def by (intro exI[of _ "length l"]) simp

lemma core_abandon: "pres run_core (abandon x)"
  unfolding abandon_def by (intro pres_rules core_rules pres_State) (auto simp: run_core_def)

lemma core_interrupted: "pres run_core (interrupted x)"
  unfolding interrupted_def by (intro pres_rules core_rules core_abandon)

text \<open>After the wait: nothing but a tick lets the watch go on, and only a signal promotes.\<close>

lemma select_None:
  "run_state (select x m) w = (None, w') \<longleftrightarrow>
   dx_signal x (wd_log w) = SignalTick \<and> w' = w\<lparr>wd_log := wd_log w @ [(CallDeploy DeploySelect, an_error (dx_base x) (wd_log w) (CallDeploy DeploySelect))]\<rparr>"
  by (auto simp: select_def bind_run the_log_def dask_def ask_run split: signal.splits)

lemma select_Some:
  assumes "run_state (select x m) w = (Some y, w')"
  shows "(run_core w' = run_core w) \<or> (by_hand x (wd_log w') \<and> run_core w' = (DeployPromoted, run_rest w)) \<or>
    run_status w' \<in> {DeployRolledBack, DeployFailed}"
proof -
  let ?w1 = "w\<lparr>wd_log := wd_log w @ [(CallDeploy DeploySelect, an_error (dx_base x) (wd_log w) (CallDeploy DeploySelect))]\<rparr>"
  have core: "run_core ?w1 = run_core w" "run_rest ?w1 = run_rest w" by (simp_all add: run_rest_def run_core_def)
  consider "run_state (interrupted x) ?w1 = (y, w')" | "dx_signal x (wd_log w) = SignalPromote" "run_state (promote x m (dx_why x WhyByHand)) ?w1 = (y, w')"
    | why where "run_state (rollback x m why) ?w1 = (y, w')"
    using assms by (auto simp: select_def bind_run the_log_def dask_def ask_run split: signal.splits)
  then show ?thesis
  proof cases
    case 1
    then show ?thesis using presD[OF core_interrupted 1] core by simp
  next
    case 2
    obtain es where "wd_log w' = wd_log ?w1 @ es" using logsD[OF quiet_promote 2(2)] by blast
    then have "by_hand x (wd_log w')" using by_handI[OF 2(1)] by simp
    then show ?thesis using tripleD[OF promote_run refl 2(2)] core by auto
  next
    case 3
    then show ?thesis using rollback_status by blast
  qed
qed

section \<open>How a watch ends\<close>

abbreviation (input) fresh_of :: "deploy_world \<Rightarrow> Replica list list" where
  "fresh_of w \<equiv> map dp_fresh (run_pools w)"

lemma fresh_rules:
  "pres fresh_of (dstep_at x name st svc t)" "pres fresh_of (finish x)" "(\<And>d. True) \<Longrightarrow> pres fresh_of (set_d f)"
  unfolding dstep_at_def finish_def syncRollouts_def set_d_def
  by (intro pres_rules pres_set_run pres_State pres_run[OF pres_now(2)] pres_run[OF pres_ignore[OF pres_dask(1)]] pres_run[OF pres_the_run]
      pres_run[OF pres_stores(1)] pres_run[OF pres_stores(2)]; auto)+

lemma fresh_promote: "pres fresh_of (promote x m reason)"
  unfolding promote_def record_release_def prune_def
  by (intro pres_rules fresh_rules pres_set_run pres_State pres_run[OF pres_now(2)] pres_run[OF pres_the_run] pres_run[OF pres_the_log] pres_run[OF pres_dask(1)]
      pres_run[OF pres_stop_all] pres_run[OF pres_ignore[OF pres_pushPools]] pres_run[OF pres_stores(3)] pres_run[OF pres_ignore[OF pres_stores(4)]])
    (auto simp: comp_def)

lemma all_up_fresh: "map dp_fresh ps = map dp_fresh ps' \<Longrightarrow> all_up x n l ps = all_up x n l ps'"
proof -
  have all: "all_up x n l ps \<longleftrightarrow> (\<forall>rep \<in> set (concat (map dp_fresh ps)). rp_Container rep \<noteq> [] \<longrightarrow> seen_up (dx_base x) n l (rp_Container rep))" for ps
    by (auto simp: all_up_def)
  assume "map dp_fresh ps = map dp_fresh ps'"
  then show ?thesis unfolding all by metis
qed

lemma all_up_append: "all_up x n l ps \<Longrightarrow> all_up x n (l @ es) ps"
  by (simp add: all_up_def seen_up_append)

text \<open>The window is over, nothing was wrong in it, and the replicas were up since the call number \<open>n\<close>.\<close>

definition passed :: "deploy_answers \<Rightarrow> nat \<Rightarrow> deploy_world \<Rightarrow> bool" where
  "passed x n w \<longleftrightarrow> PromotePolicy (dr_policy (dw_run w)) \<noteq> PromoteManual \<and>
     (\<exists>u. run_watch w = Some u \<and> measured (dr_policy (dw_run w)) u \<and> \<not> Breached u \<and>
        (dw_Counted u \<ge> dw_Window u \<or> dw_Elapsed u \<ge> wrap64 (2 * dw_Window u))) \<and>
     all_up x n (wd_log w) (run_pools w) \<and> (\<forall>y \<in> set (drop n (wd_log w)). fst y \<noteq> CallDeploy DeploySelect)"

lemma quiet_watchPassed: "logs (watchPassed x) quiet"
  unfolding watchPassed_def by (intro logs_rules quiet_rules)

lemma core_watchPassed: "pres run_core (watchPassed x)"
  unfolding watchPassed_def by (intro pres_rules core_rules)

lemma fresh_watchPassed: "pres fresh_of (watchPassed x)"
  unfolding watchPassed_def by (intro pres_rules fresh_rules pres_run[OF pres_now(2)])

lemma watch_round_cases:
  assumes "run_state (watch_round x m) w = (y, w')"
  obtains (ended) res where "y = Some res" "run_status w' \<in> {DeployRolledBack, DeployFailed}"
  | (checked) w1 w2 t v where "run_state (look x m) w = (None, w1)"
      "run_state (dnow x) w1 = (t, w2)"
      "v = w2\<lparr>dw_run := (dw_run w2)\<lparr>dr_d := (dr_d (dw_run w2))\<lparr>dd_Watch := map_option (\<lambda>u. u\<lparr>dw_Elapsed := elapsedAt (dw_run w2) t,
          dw_Counted := countedAt (dw_run w2) t, dw_CountedFrom := dr_countedFrom (dw_run w2)\<rparr>) (run_watch w2)\<rparr>\<rparr>\<rparr>"
      "run_state (settle x m t (dw_run w2)) v = (y, w')"
proof -
  obtain z w1 where look: "run_state (look x m) w = (z, w1)" by (cases "run_state (look x m) w")
  show thesis
  proof (cases z)
    case None
    obtain t w2 where now: "run_state (dnow x) w1 = (t, w2)" by (cases "run_state (dnow x) w1")
    show thesis
      by (rule checked[OF look[unfolded None] now refl])
        (use assms look now None in \<open>simp add: watch_round_def bind_run run_the_run Let_def set_d_def set_run_def\<close>)
  next
    case (Some res)
    then show thesis using look_Some[of x m w res w1] look assms by (intro ended[of res]) (auto simp: watch_round_def bind_run)
  qed
qed


text \<open>What a round that ends the watch has done.\<close>

definition ended_well :: "deploy_answers \<Rightarrow> deploy_world \<Rightarrow> deploy_world \<Rightarrow> bool" where
  "ended_well x w w' \<longleftrightarrow>
     (run_status w' = DeployPromoted \<longrightarrow> run_status w = DeployPromoted \<or> by_hand x (wd_log w') \<or> (\<exists>n. passed x n w')) \<and>
     (\<forall>u. run_watch w' = Some u \<and> Breached u \<longrightarrow> run_status w' \<in> {DeployRolledBack, DeployFailed})"

lemma settle_Some:
  assumes run: "run_state (settle x m t (dw_run v)) v = (Some res, w')" and u: "run_watch v = Some u" "measured (dr_policy (dw_run v)) u" "\<not> Breached u"
    and times: "dw_Counted u = countedAt (dw_run v) t" "dw_Elapsed u = elapsedAt (dw_run v) t"
    and up: "all_up x n (wd_log v) (run_pools v)" "\<forall>y \<in> set (drop n (wd_log v)). fst y \<noteq> CallDeploy DeploySelect" "n \<le> length (wd_log v)"
  shows "ended_well x v w'"
proof -
  have ended: "ended_well x v w'" if "run_core w' = run_core v"
    using that u by (auto simp: ended_well_def run_core_def)
  consider (auto) w1 where "window_over t (dw_run v)" "PromotePolicy (dr_policy (dw_run v)) \<noteq> PromoteManual"
      "run_state (watchPassed x) v = ((), w1)" "run_state (promote x m (dx_why x WhyWindow)) w1 = (res, w')"
    | (handed) w1 where "run_state (watchPassed x) v = ((), w1)" "run_state (dstep x StepWatch StepOK) w1 = ((), w')"
    | (wait) "run_state (select x m) v = (Some res, w')"
    using run by (auto simp: settle_def bind_run split: if_splits)
  then show ?thesis
  proof cases
    case auto
    have core: "run_core w' = (DeployPromoted, run_rest v)"
      using tripleD[OF promote_run refl auto(4)] presD[OF core_watchPassed auto(3)] by (simp add: run_rest_def)
    obtain es1 es2 where es: "wd_log w1 = wd_log v @ es1" "\<forall>y \<in> set es1. quiet (fst y)" "wd_log w' = wd_log w1 @ es2" "\<forall>y \<in> set es2. quiet (fst y)"
      using logsD[OF quiet_watchPassed auto(3)] logsD[OF quiet_promote auto(4)] by blast
    have fresh: "fresh_of w' = fresh_of v" using presD[OF fresh_promote auto(4)] presD[OF fresh_watchPassed auto(3)] by simp
    have "all_up x n (wd_log w') (run_pools w')"
      unfolding all_up_fresh[OF fresh] es using up(1) by (intro all_up_append)
    moreover have "\<forall>y \<in> set (drop n (wd_log w')). fst y \<noteq> CallDeploy DeploySelect"
      using es(2,4) up(2,3) by (fastforce simp: es(1,3))
    moreover have "run_watch w' = Some u" "dr_policy (dw_run w') = dr_policy (dw_run v)"
      using core u(1) by (simp_all add: run_rest_def run_core_def)
    moreover have "dw_Counted u \<ge> dw_Window u \<or> dw_Elapsed u \<ge> wrap64 (2 * dw_Window u)"
      using auto(1) u(2) times by (simp add: window_over_def measured_def)
    ultimately have "passed x n w'" unfolding passed_def using u(2,3) auto(2) by simp
    then show ?thesis using core u by (auto simp: ended_well_def run_rest_def run_core_def)
  next
    case handed
    then show ?thesis using ended presD[OF core_watchPassed handed(1)] presD[OF core_dstep handed(2)] by simp
  next
    case wait
    then show ?thesis using select_Some[OF wait] ended u by (auto simp: ended_well_def run_rest_def run_core_def deploy_statuses)
  qed
qed

lemma now_state: "run_state (dnow x) w = (t, w') \<longleftrightarrow>
    t = an_now (dx_base x) (wd_log w) \<and> w' = w\<lparr>wd_log := wd_log w @ [(CallNow, an_error (dx_base x) (wd_log w) CallNow)]\<rparr>"
  unfolding dnow_def by (rule now_run)

lemma times_d: "elapsedAt (r\<lparr>dr_d := d\<rparr>) t = elapsedAt r t" "countedAt (r\<lparr>dr_d := d\<rparr>) t = countedAt r t" "window_over t (r\<lparr>dr_d := d\<rparr>) = window_over t r"
  by (simp_all add: elapsedAt_def countedAt_def window_over_def)

lemma settle_d: "settle x m t (r\<lparr>dr_d := d\<rparr>) = settle x m t r"
  by (simp add: settle_def times_d)

lemma watch_round_Some:
  assumes "run_state (watch_round x m) w = (Some res, w')"
  shows "ended_well x w w'"
  using assms
proof (cases rule: watch_round_cases)
  case (ended res)
  then show ?thesis by (auto simp: ended_well_def deploy_statuses)
next
  case (checked w1 w2 t v)
  obtain es u where look: "run_fixed w1 = run_fixed w" "wd_log w1 = wd_log w @ es" "run_watch w1 = Some u" "measured (dr_policy (dw_run w1)) u"
    "\<not> Breached u" "all_up x (length (wd_log w)) (wd_log w1) (run_pools w1)" and es: "\<forall>y \<in> set es. quiet (fst y)"
    using look_None[OF checked(1)] by (auto simp: fine_def)
  have quiet: "\<forall>y \<in> set es. fst y \<noteq> CallDeploy DeploySelect" using es by fastforce
  let ?u = "u\<lparr>dw_Elapsed := elapsedAt (dw_run w2) t, dw_Counted := countedAt (dw_run w2) t, dw_CountedFrom := dr_countedFrom (dw_run w2)\<rparr>"
  have run2: "dw_run w2 = dw_run w1" "\<exists>e. wd_log w2 = wd_log w1 @ [(CallNow, e)]" using checked(2) by (auto simp: now_state)
  have v: "run_watch v = Some ?u" "dr_policy (dw_run v) = dr_policy (dw_run w1)" "run_pools v = run_pools w1" "run_status v = run_status w1"
    "wd_log v = wd_log w2" "\<exists>d. dw_run v = (dw_run w2)\<lparr>dr_d := d\<rparr>"
    unfolding checked(3) using look(3) run2(1) by auto
  have "ended_well x v w'"
  proof (rule settle_Some[where u = ?u and t = t and n = "length (wd_log w)"])
    show "run_state (settle x m t (dw_run v)) v = (Some res, w')" using checked(4) v(6) settle_d by fastforce
    show "measured (dr_policy (dw_run v)) ?u" using look(4) v(2) by (simp add: measured_def)
    show "\<not> Breached ?u" using look(5) by (simp add: Breached_def)
    show "dw_Counted ?u = countedAt (dw_run v) t" "dw_Elapsed ?u = elapsedAt (dw_run v) t" using v(6) times_d by force+
    show "all_up x (length (wd_log w)) (wd_log v) (run_pools v)" using look(6) run2(2) v by (auto intro: all_up_append)
    show "\<forall>y \<in> set (drop (length (wd_log w)) (wd_log v)). fst y \<noteq> CallDeploy DeploySelect" using quiet look(2) run2(2) v(5) by auto
    show "length (wd_log w) \<le> length (wd_log v)" using look(2) run2(2) v(5) by auto
  qed (rule v)
  moreover have "run_status v = run_status w" using v(4) look(1) by (simp add: run_fixed_def)
  ultimately show ?thesis by (simp add: ended_well_def)
qed

text \<open>The waits of a log.\<close>

definition waits :: "log \<Rightarrow> int" where
  "waits l = int (length (filter (\<lambda>y. fst y = CallDeploy DeploySelect) l))"

lemma waits_append [simp]: "waits (l @ l') = waits l + waits l'"
  by (simp add: waits_def)

lemma watch_round_None:
  assumes "run_state (watch_round x m) w = (None, w')"
  shows "run_fixed w' = run_fixed w \<and> waits (wd_log w') = waits (wd_log w) + 1 \<and>
    (\<exists>l. waits l = waits (wd_log w) \<and> \<not> window_over (an_now (dx_base x) l) (dw_run w'))"
  using assms
proof (cases rule: watch_round_cases)
  case (checked w1 w2 t v)
  obtain es where look: "run_fixed w1 = run_fixed w" "wd_log w1 = wd_log w @ es" "\<forall>y \<in> set es. quiet (fst y)"
    using look_None[OF checked(1)] by auto
  have es: "waits es = 0" using look(3) by (fastforce simp: waits_def filter_empty_conv)
  have w2: "w2 = w1\<lparr>wd_log := wd_log w1 @ [(CallNow, an_error (dx_base x) (wd_log w1) CallNow)]\<rparr>" "t = an_now (dx_base x) (wd_log w1)"
    using checked(2) by (auto simp: now_state)
  have over: "\<not> window_over t (dw_run w2)" and sel: "run_state (select x m) v = (None, w')"
    using checked(4) by (auto simp: settle_def bind_run split: if_splits)
  obtain e where w': "w' = v\<lparr>wd_log := wd_log v @ [(CallDeploy DeploySelect, e)]\<rparr>" using sel by (auto simp: select_None)
  have "run_fixed w' = run_fixed w1" unfolding w' checked(3) w2 by (simp add: run_fixed_def)
  moreover have "waits (wd_log w') = waits (wd_log w) + 1" unfolding w' checked(3) w2 by (simp add: look(2) es waits_def[of "_ # _"])
  moreover have "\<not> window_over t (dw_run w')" using over unfolding w' checked(3) by (simp add: times_d)
  ultimately show ?thesis using look es w2(2) by (metis add.right_neutral waits_append)
qed simp

lemma watch_loop_Some:
  assumes "run_state (watch_loop x m n) w = (Some res, w')" "run_status w \<noteq> DeployPromoted"
  shows "(run_status w' = DeployPromoted \<longrightarrow> by_hand x (wd_log w') \<or> (\<exists>k. passed x k w')) \<and>
    (\<forall>u. run_watch w' = Some u \<and> Breached u \<longrightarrow> run_status w' \<in> {DeployRolledBack, DeployFailed})"
  using assms
proof (induction n arbitrary: w)
  case (Suc n)
  obtain y w1 where round: "run_state (watch_round x m) w = (y, w1)"
    "run_state (case y of Some res \<Rightarrow> State_Monad.return (Some res) | None \<Rightarrow> watch_loop x m n) w1 = (Some res, w')"
    using Suc.prems(1) by (auto elim: bind_runE)
  show ?case
  proof (cases y)
    case None
    have "run_status w1 = run_status w" using watch_round_None[of x m w w1] round(1) None by (simp add: run_fixed_def)
    then show ?thesis using Suc.IH[of w1] round(2) None Suc.prems(2) by simp
  next
    case (Some res')
    then show ?thesis using watch_round_Some[of x m w res' w1] round Suc.prems(2) by (simp add: ended_well_def)
  qed
qed simp

lemma core_watch_start: "pres run_fixed (set_run (\<lambda>r. r\<lparr>dr_watchStarted := True\<rparr>))"
  by (rule fixed_set_run) simp

lemma watch_start:
  assumes "run_state (watch x m n) w = (y, w')"
  obtains w1 where "run_state (watch_loop x m n) w1 = (y, w')" "run_fixed w1 = run_fixed w" "waits (wd_log w1) = waits (wd_log w)"
proof -
  let ?start = "if dr_watchStarted (dw_run w) then State_Monad.return ()
     else do { _ \<leftarrow> set_run (\<lambda>r. r\<lparr>dr_watchStarted := True\<rparr>); dstep x StepWatch StepStarted }"
  obtain w1 where w1: "run_state ?start w = ((), w1)" "run_state (watch_loop x m n) w1 = (y, w')"
    using assms by (auto simp: watch_def bind_run run_the_run)
  have "run_fixed w1 = run_fixed w"
    by (rule presD[OF _ w1(1)]) (intro pres_rules fixed_rules core_watch_start)
  moreover have "logs ?start quiet" by (intro logs_rules quiet_rules)
  then obtain es where "wd_log w1 = wd_log w @ es" "\<forall>y \<in> set es. quiet (fst y)" using logsD[OF _ w1(1)] by blast
  then have "waits (wd_log w1) = waits (wd_log w)" by (fastforce simp: waits_def filter_empty_conv)
  ultimately show thesis using that w1(2) by blast
qed


lemma wrap64_le: "0 \<le> k \<Longrightarrow> wrap64 k \<le> k"
  unfolding wrap64_def minInt64_def using zmod_le_nonneg_dividend[of "k - -9223372036854775808" 18446744073709551616] by simp

lemma over_by_time:
  assumes "dr_flippedAt r \<noteq> 0" "t - dr_flippedAt r \<ge> 2 * WatchWindow (dr_policy r)" "0 \<le> WatchWindow (dr_policy r)"
  shows "window_over t r"
  using assms wrap64_le[of "2 * WatchWindow (dr_policy r)"] wrap64_range[of "2 * WatchWindow (dr_policy r)"]
  by (simp add: window_over_def elapsedAt_def time_sub_def)

lemma WatchWindow_pos: "0 < WatchWindow pol"
  by (simp add: WatchWindow_def split: option.split)

lemma watch_loop_ends:
  assumes "dr_flippedAt (dw_run w) \<noteq> 0" "0 < tick" "\<And>l. an_now (dx_base x) l \<ge> dr_flippedAt (dw_run w) + tick * (waits l - k)"
    "2 * WatchWindow (dr_policy (dw_run w)) \<le> tick * (waits (wd_log w) - k + int n - 1)" "n > 0"
  shows "fst (run_state (watch_loop x m n) w) \<noteq> None"
  using assms
proof (induction n arbitrary: w)
  case (Suc n)
  obtain y w1 where round: "run_state (watch_round x m) w = (y, w1)" by (cases "run_state (watch_round x m) w")
  show ?case
  proof (cases y)
    case None
    note after = watch_round_None[OF round[unfolded None]]
    then obtain l where l: "waits l = waits (wd_log w)" "\<not> window_over (an_now (dx_base x) l) (dw_run w1)" by blast
    have same: "dr_flippedAt (dw_run w1) = dr_flippedAt (dw_run w)" "dr_policy (dw_run w1) = dr_policy (dw_run w)"
      using after by (simp_all add: run_fixed_def)
    have "an_now (dx_base x) l - dr_flippedAt (dw_run w1) < 2 * WatchWindow (dr_policy (dw_run w1))"
      using over_by_time[of "dw_run w1" "an_now (dx_base x) l"] l(2) Suc.prems(1) same WatchWindow_pos[of "dr_policy (dw_run w1)"]
      by (metis less_le_not_le not_le)
    then have "n > 0" using Suc.prems(3)[of l] Suc.prems(4) l(1) same by (cases n) auto
    then have "fst (run_state (watch_loop x m n) w1) \<noteq> None"
      using Suc.IH[of w1] Suc.prems same after by (simp add: algebra_simps)
    then show ?thesis using round None by (simp add: State_Monad.run_state_bind)
  qed (use round in \<open>simp add: State_Monad.run_state_bind\<close>)
qed simp

lemma watch_returns:
  assumes "dr_flippedAt (dw_run w) \<noteq> 0" "0 < tick" "\<forall>l. an_now (dx_base x) l \<ge> dr_flippedAt (dw_run w) + tick * (waits l - waits (wd_log w))"
    "2 * WatchWindow (dr_policy (dw_run w)) \<le> tick * (int n - 1)"
  shows "\<exists>res w'. run_state (watch x m n) w = (Some res, w')"
proof -
  obtain y w' where run: "run_state (watch x m n) w = (y, w')" by (cases "run_state (watch x m n) w")
  obtain w1 where w1: "run_state (watch_loop x m n) w1 = (y, w')" "run_fixed w1 = run_fixed w" "waits (wd_log w1) = waits (wd_log w)"
    by (rule watch_start[OF run])
  have "0 < tick * (int n - 1)" using assms(4) WatchWindow_pos[of "dr_policy (dw_run w)"] by linarith
  then have "n > 0" using assms(2) by (simp add: zero_less_mult_iff)
  then have "fst (run_state (watch_loop x m n) w1) \<noteq> None"
    using assms w1(2,3) by (intro watch_loop_ends[where tick = tick and k = "waits (wd_log w)"]) (auto simp: run_fixed_def)
  then show ?thesis using run w1(1) by auto
qed

text \<open>C8: the watch comes to an end. When every wait moves the clock by at least a tick past the time of the switch, the loop returns
  within twice the window, whatever else happens: the edge may never answer, the counts may be lost, and the counting may start again and again.\<close>

theorem watch_ends:
  assumes "dr_flippedAt (dw_run w) \<noteq> 0" "0 < tick" "\<forall>l. an_now (dx_base x) l \<ge> dr_flippedAt (dw_run w) + tick * (waits l - waits (wd_log w))"
    "2 * WatchWindow (dr_policy (dw_run w)) \<le> tick * (int n - 1)"
  shows "\<exists>res w'. run_state (watch x m n) w = (Some res, w')"
  using assms by (rule watch_returns)

section \<open>An example\<close>

text \<open>A deploy of one service, watched with the default policy; every wait takes forty seconds.\<close>

definition sample_replica :: "int \<Rightarrow> Replica" where
  "sample_replica i = \<lparr>rp_Service = ''web'', rp_Index = i, rp_Container = container_of example_plan example_service i, rp_ID = [], rp_Port = 20000 + i,
     rp_State = ReplicaActive, rp_Status = ''running'', rp_Health = [], rp_Inflight = 0, rp_Since = 0, rp_Detail = [], rp_Restarts = 0\<rparr>"

definition sample_run :: deployRun where
  "sample_run = \<lparr>dr_d = \<lparr>dd_ID = 4, dd_Kind = DeployKindDeploy, dd_Status = DeployWatching, dd_Release = None, dd_FromRelease = None, dd_Steps = [],
       dd_Rollouts = [], dd_Watch = None, dd_Routes = [], dd_Reason = [], dd_Identity = [], dd_StartedAt = 1, dd_FinishedAt = 0, dd_Error = []\<rparr>,
     dr_policy = None,
     dr_pools = [\<lparr>dp_service = ''web'', dp_route = example_route, dp_exposed = True,
       dp_roll = \<lparr>rl_Service = [], rl_Host = [], rl_URL = [], rl_Steps = [], rl_Replicas = [], rl_Failed = None\<rparr>,
       dp_fresh = [sample_replica 2], dp_held = [sample_replica 1], dp_drain = 10 * second\<rparr>],
     dr_flippedAt = 100, dr_countedFrom = 0, dr_up = None, dr_detached = False, dr_watchStarted = False, dr_replaced = False, dr_pushed = True,
     dr_ended = False\<rparr>"

definition sample_world :: deploy_world where
  "sample_world = \<lparr>wd_store = example_store, wd_log = [], dw_db = sample_releases, dw_rec = sample_env, dw_run = sample_run, dw_watches = [4]\<rparr>"

definition sample_answers :: deploy_answers where
  "sample_answers = \<lparr>dx_base = example_answers\<lparr>an_now := \<lambda>l. 100 + 40 * second * waits l,
       an_inspect := \<lambda>_ c. Some \<lparr>cs_Name = c, cs_ID = [], cs_Status = ''running'', cs_Labels = Map.empty, cs_Restarts = 0\<rparr>\<rparr>,
     dx_image = \<lambda>_ _. True, dx_built = \<lambda>_. None,
     dx_plan = \<lambda>_ _. \<lparr>up_app = [], up_env = [], up_cfg = None, up_layout = up_layout example_plan, up_tree = [], rp_services = [], rp_routes = []\<rparr>,
     dx_ip = \<lambda>_. InvalidAddr, dx_decoder = sample_decoder, dx_replicas = \<lambda>_ _. [], dx_no_check = \<lambda>_ _. False, dx_counts = \<lambda>_. \<lparr>ec_Since = 0, ec_Hosts = []\<rparr>,
     dx_pruned = \<lambda>_. [], dx_signal = \<lambda>_. SignalTick, dx_env_routes = \<lambda>_. [], dx_env_json = \<lambda>_. ([], []), dx_why = \<lambda>_. [], dx_error = \<lambda>_. []\<rparr>"

definition sample_deployer :: deployer where
  "sample_deployer = \<lparr>dm_manager = example_manager, dm_Builder = False\<rparr>"

lemma sample_facts:
  "run_status sample_world = DeployWatching" "dr_flippedAt (dw_run sample_world) \<noteq> 0"
  "\<forall>l. an_now (dx_base sample_answers) l \<ge> dr_flippedAt (dw_run sample_world) + 40 * second * (waits l - waits (wd_log sample_world))"
  "2 * WatchWindow (dr_policy (dw_run sample_world)) \<le> 40 * second * (int 4 - 1)" "dm_Edge sample_deployer"
  by (simp_all add: sample_world_def sample_run_def sample_answers_def sample_deployer_def example_manager_def WatchWindow_def waits_def)

theorem watch_ends_witness: "\<exists>res w'. run_state (watch sample_answers sample_deployer 4) sample_world = (Some res, w')"
  by (rule watch_ends[OF sample_facts(2) _ sample_facts(3,4)]) simp


end
