(* ===== verification/DeployRollback.thy ===== *)
theory DeployRollback
  imports DeployWatching
begin

text \<open>
  The order of the calls of a rollback (\<^verbatim>\<open>rollback\<close> of \<^verbatim>\<open>internal/env/deploy_run.go\<close>): the old replicas serve again before any
  of the new ones is stopped.
\<close>

section \<open>The pools as they are turned back\<close>

text \<open>The rows of a pool that send requests to its replicas.\<close>

definition active_rows :: "EdgeTarget list \<Rightarrow> (int \<times> int \<times> TargetState) list" where
  "active_rows ts = filter (\<lambda>v. snd (snd v) = TargetActive) (map row_view ts)"

definition serving :: "Replica list \<Rightarrow> (int \<times> int \<times> TargetState) list" where
  "serving reps = map (\<lambda>rep. (rp_Index rep, rp_Port rep, TargetActive)) (filter (\<lambda>rep. rp_Port rep > 0) reps)"

text \<open>The targets of every route of an exposed pool have been written with the held replicas as those that serve, and then the edge was told.\<close>

definition put_back :: "deployPool list \<Rightarrow> log \<Rightarrow> bool" where
  "put_back ps l \<longleftrightarrow> (\<exists>l1 l2. l = l1 @ (CallPush, None) # l2 \<and>
     (\<forall>p \<in> set ps. dp_exposed p \<and> ro_id (dp_route p) \<noteq> 0 \<longrightarrow>
       (\<forall>one \<in> set (route_all (dp_route p)). \<exists>ts. (CallSetTargets (fst one) ts, None) \<in> set l1 \<and> active_rows ts = serving (dp_held p))))"

text \<open>The replica of the container has been given the time to drain.\<close>

definition time_to_drain :: "deployPool list \<Rightarrow> log \<Rightarrow> string \<Rightarrow> bool" where
  "time_to_drain ps l c \<longleftrightarrow> (\<exists>p \<in> set ps. dp_exposed p \<and> (\<exists>rep \<in> set (dp_fresh p). rp_Container rep = c \<and>
     (\<exists>y \<in> set l. case fst y of CallDrain h i d t \<Rightarrow> h = ro_host (dp_route p) \<and> i = rp_Index rep \<and> d = dp_drain p | _ \<Rightarrow> False)))"

lemma active_rows_pool: "map row_view ts = pool_view reps \<Longrightarrow>
    active_rows ts = filter (\<lambda>v. snd (snd v) = TargetActive) (pool_view reps)"
  by (simp add: active_rows_def)

lemma turned_rows:
  assumes "dp_exposed p"
  shows "filter (\<lambda>v. snd (snd v) = TargetActive) (pool_view (dp_fresh (turn_back t p) @ dp_held (turn_back t p))) = serving (dp_held p)"
proof -
  have "filter (\<lambda>v. snd (snd v) = TargetActive) (pool_view (map (\<lambda>rep. rep\<lparr>rp_State := ReplicaDraining, rp_Since := t\<rparr>) reps)) = []" for reps
    by (induction reps) (auto simp: pool_view_def)
  moreover have "filter (\<lambda>v. snd (snd v) = TargetActive) (pool_view (map (\<lambda>rep. rep\<lparr>rp_State := ReplicaActive, rp_Since := t\<rparr>) reps)) = serving reps" for reps
    by (induction reps) (auto simp: pool_view_def serving_def)
  moreover have "pool_view (a @ b) = pool_view a @ pool_view b" for a b by (simp add: pool_view_def)
  ultimately show ?thesis using assms by (simp add: turn_back_def)
qed

lemma record_pools_Inr:
  assumes "run_state (record_pools x m ps) w = (Inr u, w')" "dm_Edge m"
  shows "\<exists>es. wd_log w' = wd_log w @ es \<and>
    (\<forall>p \<in> set ps. dp_exposed p \<and> ro_id (dp_route p) \<noteq> 0 \<longrightarrow>
       (\<forall>one \<in> set (route_all (dp_route p)). \<exists>ts. (CallSetTargets (fst one) ts, None) \<in> set es \<and> map row_view ts = pool_view (dp_fresh p @ dp_held p)))"
  using assms(1)
proof (induction ps arbitrary: w)
  case (Cons p ps)
  obtain w1 where first: "if dp_exposed p then run_state (recordTargets (dx_base x) (dm_manager m) (dp_route p) (dp_fresh p @ dp_held p)) w = (Inr (), w1)
      else w1 = w" and rest: "run_state (record_pools x m ps) w1 = (Inr u, w')"
    using Cons.prems by (auto simp: and_then_Inr split: if_splits)
  obtain es1 where es1: "wd_log w1 = wd_log w @ es1" "dp_exposed p \<and> ro_id (dp_route p) \<noteq> 0 \<Longrightarrow>
     \<forall>one \<in> set (route_all (dp_route p)). \<exists>ts. (CallSetTargets (fst one) ts, None) \<in> set es1 \<and> map row_view ts = pool_view (dp_fresh p @ dp_held p)"
  proof (cases "dp_exposed p \<and> ro_id (dp_route p) \<noteq> 0")
    case True
    then have "run_state (record_all (dx_base x) (route_all (dp_route p)) (dp_fresh p @ dp_held p)) w = (Inr (), w1)"
      using first assms(2) by (simp add: recordTargets_def)
    from record_all_Inr[OF this] show thesis using that by blast
  next
    case False
    then have "w1 = w" using first by (auto simp: recordTargets_def split: if_splits)
    then show thesis using that[of "[]"] False by auto
  qed
  obtain es2 where es2: "wd_log w' = wd_log w1 @ es2"
    "\<forall>p \<in> set ps. dp_exposed p \<and> ro_id (dp_route p) \<noteq> 0 \<longrightarrow>
       (\<forall>one \<in> set (route_all (dp_route p)). \<exists>ts. (CallSetTargets (fst one) ts, None) \<in> set es2 \<and> map row_view ts = pool_view (dp_fresh p @ dp_held p))"
    using Cons.IH[OF rest] by blast
  show ?case using es1 es2 by (intro exI[of _ "es1 @ es2"]) fastforce
qed simp

lemma pushPools_put_back:
  assumes "run_state (pushPools x m) w = (Inr u, w')" "dm_Edge m" "run_pools w = map (turn_back t) ps"
  shows "\<exists>es. wd_log w' = wd_log w @ es \<and> put_back ps es"
proof -
  obtain w1 where run: "run_state (record_pools x m (run_pools w)) w = (Inr (), w1)" "run_state (pushRoutes (dx_base x) (dm_manager m)) w1 = (Inr (), w')"
    using assms(1) by (auto simp: pushPools_def acting_def run_the_run elim!: bind_runE and_then_runE split: sum.splits)
  obtain es where es: "wd_log w1 = wd_log w @ es"
    "\<forall>p \<in> set (run_pools w). dp_exposed p \<and> ro_id (dp_route p) \<noteq> 0 \<longrightarrow>
       (\<forall>one \<in> set (route_all (dp_route p)). \<exists>ts. (CallSetTargets (fst one) ts, None) \<in> set es \<and> map row_view ts = pool_view (dp_fresh p @ dp_held p))"
    using record_pools_Inr[OF run(1) assms(2)] by blast
  have push: "wd_log w' = wd_log w1 @ [(CallPush, None)]" using run(2) assms(2) by (auto simp: pushRoutes_def attempt_Inr)
  have same: "dp_exposed (turn_back t p) = dp_exposed p" "dp_route (turn_back t p) = dp_route p" for p by (simp_all add: turn_back_def)
  have "\<exists>ts. (CallSetTargets (fst one) ts, None) \<in> set es \<and> active_rows ts = serving (dp_held p)"
    if p: "p \<in> set ps" "dp_exposed p" "ro_id (dp_route p) \<noteq> 0" "one \<in> set (route_all (dp_route p))" for p one
  proof -
    obtain ts where "(CallSetTargets (fst one) ts, None) \<in> set es" "map row_view ts = pool_view (dp_fresh (turn_back t p) @ dp_held (turn_back t p))"
      using es(2) p assms(3) same by fastforce
    then show ?thesis using active_rows_pool turned_rows[OF p(2)] by metis
  qed
  then have "\<forall>p \<in> set ps. dp_exposed p \<and> ro_id (dp_route p) \<noteq> 0 \<longrightarrow>
       (\<forall>one \<in> set (route_all (dp_route p)). \<exists>ts. (CallSetTargets (fst one) ts, None) \<in> set es \<and> active_rows ts = serving (dp_held p))"
    by blast
  then have "put_back ps (es @ [(CallPush, None)])"
    unfolding put_back_def by (intro exI[of _ es] exI[of _ "[]"]) simp
  then show ?thesis using es(1) push by (intro exI[of _ "es @ [(CallPush, None)]"]) simp
qed

section \<open>Draining and stopping\<close>

lemma wait_drained_logs:
  assumes "run_state (wait_drained x m t reps) w = (u, w')" "dm_Edge m" "(p, rep) \<in> set reps" "rp_Container rep \<noteq> []"
  shows "\<exists>es t' e. wd_log w' = wd_log w @ es \<and> (CallDrain (ro_host (dp_route p)) (rp_Index rep) (dp_drain p) t', e) \<in> set es"
  using assms(1,3)
proof (induction reps arbitrary: w)
  case (Cons head rest)
  obtain p' rep' where head: "head = (p', rep')" by (cases head)
  show ?case
  proof (cases "rp_Container rep' = []")
    case True
    then show ?thesis using Cons head assms(4) by auto
  next
    case False
    obtain d w1 where run: "run_state (waitDrain (dx_base x) (dm_manager m) (ro_host (dp_route p')) (rp_Index rep') (dp_drain p') t) w = (d, w1)"
      "run_state (wait_drained x m t rest) w1 = (u, w')"
      using Cons.prems(1) False by (auto simp: head elim!: bind_runE)
    obtain es1 t' e where es1: "wd_log w1 = wd_log w @ es1 @ [(CallDrain (ro_host (dp_route p')) (rp_Index rep') (dp_drain p') t', e)]"
      using waitDrain_logs[OF run(1) assms(2)] by blast
    obtain es2 where es2: "wd_log w' = wd_log w1 @ es2" using logsD[OF logs_wait_drained run(2)] by blast
    show ?thesis
    proof (cases "(p, rep) \<in> set rest")
      case True
      then show ?thesis using Cons.IH[OF run(2)] es1 by force
    next
      case False
      then have "p = p'" "rep = rep'" using Cons.prems(2) head by auto
      then show ?thesis using es1 es2 by (intro exI[of _ "es1 @ (CallDrain (ro_host (dp_route p')) (rp_Index rep') (dp_drain p') t', e) # es2"] exI[of _ t'] exI[of _ e]) simp
    qed
  qed
qed simp

lemma time_to_drainI:
  assumes "p \<in> set ps" "dp_exposed p" "rep \<in> set (dp_fresh p)"
    "(CallDrain (ro_host (dp_route p)) (rp_Index rep) (dp_drain p) t, e) \<in> set l"
  shows "time_to_drain ps l (rp_Container rep)"
  unfolding time_to_drain_def using assms by (intro bexI[of _ p] conjI bexI[of _ rep] bexI[of _ "(_, e)"]) auto

definition calm :: "call \<Rightarrow> bool" where
  "calm c \<longleftrightarrow> (\<forall>ct. \<not> touches ct c)"

lemma calm_bookkeeping: "logs n bookkeeping \<Longrightarrow> logs n calm"
  by (erule logs_weaken) (auto simp: calm_def touches_def)

lemma calm_publishing: "logs n publishing \<Longrightarrow> logs n calm"
  by (erule logs_weaken) (auto simp: calm_def touches_def)

lemma calm_rules:
  "logs (dnow x) calm" "logs (dstep_at x name st svc t) calm" "logs (pushPools x m) calm" "logs (finish x) calm" "logs (restorePrevious x) calm"
  "logs (clear_env_deploy x) calm" "logs (wait_drained x m t reps) calm"
  using calm_bookkeeping[OF logs_dstep] calm_publishing[OF logs_pushPools] calm_bookkeeping[OF logs_finish] calm_bookkeeping[OF logs_restorePrevious]
    calm_bookkeeping[OF logs_stores(2)] calm_bookkeeping[OF logs_wait_drained] by (auto intro!: logs_rules simp: calm_def touches_def)

lemma calm_rollbackFailed: "logs (rollbackFailed x reason e) calm"
  unfolding rollbackFailed_def by (intro logs_rules calm_rules)

abbreviation (input) fresh_exposed :: "deployPool list \<Rightarrow> Replica list" where
  "fresh_exposed ps \<equiv> concat (map dp_fresh (filter dp_exposed ps))"

lemma logs_removeFresh_run:
  assumes "run_state (removeFresh x m) w = (u, w')"
  shows "\<exists>es. wd_log w' = wd_log w @ es \<and>
    (\<forall>y \<in> set es. \<forall>c. touches c (fst y) \<longrightarrow> (\<exists>rep \<in> set (fresh_exposed (run_pools w)). rp_Container rep = c \<and> c \<noteq> []))"
proof -
  have stop: "logs (stop_all x m reps) (\<lambda>y. \<forall>c. touches c y \<longrightarrow> (\<exists>rep \<in> set reps. rp_Container rep = c \<and> c \<noteq> []))" for reps
  proof (induction reps)
    case (Cons rep reps)
    have weak: "logs (stop_all x m reps) (\<lambda>y. \<forall>c. touches c y \<longrightarrow> (\<exists>rep' \<in> set (rep # reps). rp_Container rep' = c \<and> c \<noteq> []))"
      by (rule logs_weaken[OF Cons.IH]) auto
    show ?case
    proof (cases "rp_Container rep = []")
      case True
      then show ?thesis using weak by simp
    next
      case False
      show ?thesis unfolding stop_all.simps if_not_P[OF False] by (intro logs_rules weak) (use False in \<open>auto simp: touches_def\<close>)
    qed
  qed (simp add: logs_return)
  obtain n w1 where w1: "run_state (stop_all x m (fresh_exposed (run_pools w))) w = (n, w1)" "wd_log w' = wd_log w1"
    using assms by (auto simp: removeFresh_def run_the_run set_run_def elim!: bind_runE)
  show ?thesis unfolding w1(2) using logsD[OF stop w1(1)] by blast
qed

text \<open>Every call of the list that stops or removes a container comes after the old pool was put back and the replica was drained, and the
  container is that of a new replica of an exposed service.\<close>

definition undone_in_order :: "deployPool list \<Rightarrow> log \<Rightarrow> bool" where
  "undone_in_order ps es \<longleftrightarrow> (\<forall>i<length es. \<forall>c. touches c (fst (es ! i)) \<longrightarrow> put_back ps (take i es) \<and> time_to_drain ps (take i es) c)"

lemma undone_calm: "\<forall>y \<in> set es. calm (fst y) \<Longrightarrow> undone_in_order ps es"
  by (auto simp: undone_in_order_def calm_def)

lemma put_back_extend: "put_back ps l \<Longrightarrow> put_back ps (l0 @ l @ l')"
  unfolding put_back_def
proof (elim exE conjE)
  fix l1 l2
  assume l: "l = l1 @ (CallPush, None) # l2" and rows: "\<forall>p \<in> set ps. dp_exposed p \<and> ro_id (dp_route p) \<noteq> 0 \<longrightarrow>
     (\<forall>one \<in> set (route_all (dp_route p)). \<exists>ts. (CallSetTargets (fst one) ts, None) \<in> set l1 \<and> active_rows ts = serving (dp_held p))"
  then show "\<exists>k1 k2. l0 @ l @ l' = k1 @ (CallPush, None) # k2 \<and> (\<forall>p \<in> set ps. dp_exposed p \<and> ro_id (dp_route p) \<noteq> 0 \<longrightarrow>
     (\<forall>one \<in> set (route_all (dp_route p)). \<exists>ts. (CallSetTargets (fst one) ts, None) \<in> set k1 \<and> active_rows ts = serving (dp_held p)))"
    by (intro exI[of _ "l0 @ l1"] exI[of _ "l2 @ l'"]) fastforce
qed

lemma time_to_drain_mono: "time_to_drain ps l c \<Longrightarrow> set l \<subseteq> set l' \<Longrightarrow> time_to_drain ps l' c"
  unfolding time_to_drain_def by blast

lemma undone_parts:
  assumes pre: "\<forall>y \<in> set pre. calm (fst y)" "put_back ps pre"
    and mid: "\<forall>y \<in> set es. \<forall>c. touches c (fst y) \<longrightarrow> time_to_drain ps pre c" and post: "\<forall>y \<in> set post. calm (fst y)"
  shows "undone_in_order ps (pre @ es @ post)"
  unfolding undone_in_order_def
proof (intro allI impI)
  fix i c
  assume i: "i < length (pre @ es @ post)" "touches c (fst ((pre @ es @ post) ! i))"
  consider "i < length pre" | "length pre \<le> i" "i - length pre < length es" | "length pre \<le> i" "length es \<le> i - length pre" by linarith
  then show "put_back ps (take i (pre @ es @ post)) \<and> time_to_drain ps (take i (pre @ es @ post)) c"
  proof cases
    case 1
    then show ?thesis using i(2) pre(1) nth_mem[of i pre] by (auto simp: nth_append calm_def)
  next
    case 2
    have "es ! (i - length pre) \<in> set es" using 2 by simp
    then have "time_to_drain ps pre c" using mid i(2) 2 by (auto simp: nth_append)
    then show ?thesis using put_back_extend[OF pre(2), of "[]"] time_to_drain_mono[of ps pre c] 2 by auto
  next
    case 3
    have "post ! (i - length pre - length es) \<in> set post" using 3 i(1) by (intro nth_mem) simp
    then show ?thesis using post i(2) 3 by (auto simp: nth_append calm_def)
  qed
qed

lemma rollback_rest_parts:
  assumes run: "run_state (rollback_rest x m reason t) w = (u, w')" and edge: "dm_Edge m" and pools: "run_pools w = map (turn_back t') ps"
  obtains es2 es3 es4 where "wd_log w' = wd_log w @ es2 @ es3 @ es4" "\<forall>y \<in> set es2. calm (fst y)"
    "\<forall>y \<in> set es3. \<forall>c. touches c (fst y) \<longrightarrow> time_to_drain ps es2 c" "\<forall>y \<in> set es4. calm (fst y)"
proof -
  let ?reps = "concat (map (\<lambda>p. map (Pair p) (dp_fresh p)) (filter dp_exposed (run_pools w)))"
  let ?last = "do {
     _ \<leftarrow> set_run (\<lambda>r. r\<lparr>dr_pools := map (\<lambda>p. p\<lparr>dp_fresh := dp_held p, dp_held := []\<rparr>) (dr_pools r)\<rparr>);
     _ \<leftarrow> pushPools x m;
     _ \<leftarrow> restorePrevious x;
     t' \<leftarrow> dnow x;
     _ \<leftarrow> set_d (\<lambda>d. d\<lparr>dd_Status := DeployRolledBack, dd_Reason := reason, dd_FinishedAt := t'\<rparr>);
     _ \<leftarrow> clear_env_deploy x;
     _ \<leftarrow> dnow x;
     _ \<leftarrow> dstep x StepRollback StepOK;
     finish x }"
  obtain w1 w2 where runs: "run_state (wait_drained x m t ?reps) w = ((), w1)" "run_state (removeFresh x m) w1 = ((), w2)" "run_state ?last w2 = (u, w')"
  proof -
    have "run_state (do { _ \<leftarrow> wait_drained x m t ?reps; _ \<leftarrow> removeFresh x m; ?last }) w = (u, w')"
      using run unfolding rollback_rest_def by (rule bind_runE) (simp add: run_the_run)
    then obtain a w1 where w1: "run_state (wait_drained x m t ?reps) w = (a, w1)" "run_state (do { _ \<leftarrow> removeFresh x m; ?last }) w1 = (u, w')"
      by (rule bind_runE)
    from w1(2) obtain b w2 where "run_state (removeFresh x m) w1 = (b, w2)" "run_state ?last w2 = (u, w')" by (rule bind_runE)
    then show thesis using that w1(1) by simp
  qed
  have "logs ?last calm" by (intro logs_rules calm_rules)
  then obtain es4 where es4: "wd_log w' = wd_log w2 @ es4" "\<forall>y \<in> set es4. calm (fst y)" using logsD[OF _ runs(3)] by blast
  obtain es2 where es2: "wd_log w1 = wd_log w @ es2" "\<forall>y \<in> set es2. calm (fst y)" using logsD[OF calm_rules(7) runs(1)] by blast
  obtain es3 where es3: "wd_log w2 = wd_log w1 @ es3"
    "\<forall>y \<in> set es3. \<forall>c. touches c (fst y) \<longrightarrow> (\<exists>rep \<in> set (fresh_exposed (run_pools w)). rp_Container rep = c \<and> c \<noteq> [])"
    using logs_removeFresh_run[OF runs(2)] presD[OF pres_wait_drained runs(1)] by auto
  have "time_to_drain ps es2 c" if rep: "rep \<in> set (fresh_exposed (run_pools w))" "rp_Container rep = c" "c \<noteq> []" for rep c
  proof -
    obtain p where p: "p \<in> set ps" "dp_exposed p" "rep \<in> set (dp_fresh (turn_back t' p))"
      using rep(1) pools by (auto simp: turn_back_def split: if_splits)
    then obtain rep0 where rep0: "rep0 \<in> set (dp_fresh p)" "rp_Container rep0 = c" "rp_Index rep0 = rp_Index rep"
      using rep(2) by (auto simp: turn_back_def)
    have "(turn_back t' p, rep) \<in> set ?reps" using p pools by (auto simp: turn_back_def intro!: bexI[of _ p])
    then obtain t1 e where "(CallDrain (ro_host (dp_route p)) (rp_Index rep) (dp_drain p) t1, e) \<in> set es2"
      using wait_drained_logs[OF runs(1) edge, of "turn_back t' p" rep] rep es2(1) p(2) by (auto simp: turn_back_def)
    then show ?thesis using time_to_drainI[OF p(1,2) rep0(1)] rep0 by metis
  qed
  then have "\<forall>y \<in> set es3. \<forall>c. touches c (fst y) \<longrightarrow> time_to_drain ps es2 c" using es3(2) by blast
  moreover have "wd_log w' = wd_log w @ es2 @ es3 @ es4" using es2(1) es3(1) es4(1) by simp
  ultimately show thesis using that es2(2) es4(2) by blast
qed


definition sample_undone :: "(run_error + unit) \<times> deploy_world" where
  "sample_undone = run_state (rollback sample_answers sample_deployer ''asked'') sample_world"

lemma sample_stops: "(CallStop ''caramelo-shop-main-web-2'' (10 * second), None) \<in> set (wd_log (snd sample_undone))"
  by code_simp


end
