(* ===== verification/DeployLimits.thy ===== *)
theory DeployLimits
  imports DeployWatching
begin

text \<open>
  The limit on the rate of errors (\<^verbatim>\<open>ParsePercent\<close> of \<^verbatim>\<open>internal/config/deploy.go\<close>, \<^verbatim>\<open>Breached\<close> of \<^verbatim>\<open>internal/env/deploy.go\<close>): the code computes in
  floating point, and a limit of whole percents is compared as if it computed exactly. Other limits need not be.
\<close>

lemma Itoa_percent:
  assumes "0 \<le> p"
  shows "list_all is_digit (Itoa p)" "Itoa p \<noteq> []" "TrimSpace (Itoa p) = Itoa p" "TrimSpace (Itoa p @ ''%'') = Itoa p @ ''%''"
proof -
  let ?d = "Itoa p"
  have itoa: "?d = show_nat (nat p)" using assms(1) by (simp add: Itoa_def)
  show digits: "list_all is_digit ?d" "?d \<noteq> []" by (simp_all add: itoa show_nat_digits show_nat_nonempty)
  have ends: "name_char (hd ?d)" "name_char (last ?d)" using digits by (simp_all add: list_all_iff digits_name_char)
  have percent: "\<forall>e \<in> set space_encodings. CHR ''%'' \<notin> set e" by code_simp
  show "TrimSpace ?d = ?d" "TrimSpace (?d @ ''%'') = ?d @ ''%''"
    using digits(2) ends percent name_char_plain(5) by (intro TrimSpace_trimmed trimmed_ends; force)+
qed

lemma ParseMaxErrors_whole:
  assumes "0 \<le> p" "p \<le> 100"
  shows "ParseMaxErrors (Itoa p @ ''%'') = Inr (fl (of_int p / 100))"
proof -
  let ?d = "Itoa p" and ?s = "Itoa p @ ''%''"
  note digits = Itoa_percent(1,2)[OF assms(1)]
  have low: "ToLower ?s = ?s"
    using digits(1) name_char_plain(1)[OF digits_name_char] by (auto simp: ToLower_def list_all_iff lower_char_def intro!: map_idI)
  have none: "?s \<noteq> MaxErrorsNone"
    using digits by (cases ?d) (auto simp: MaxErrorsNone_def is_digit_def less_eq_char_def)
  have "ParseFloat ?d = Some (Finite (of_int p))"
    using ParseFloat_digits[OF digits] fl_int[of p] assms by (simp add: Itoa_def)
  then show ?thesis
    using assms by (simp add: ParseMaxErrors_def ParsePercent_def Let_def Itoa_percent(3,4)[OF assms(1)] low none HasSuffix_iff TrimSuffix_def)
qed

lemma error_rate_fl: "0 < r \<Longrightarrow> r < 2 ^ 45 \<Longrightarrow> 0 \<le> e \<Longrightarrow> e \<le> r \<Longrightarrow> error_rate r e = fl (of_int e / of_int r)"
  by (simp add: error_rate_def fl_of_int_def fl_int)

text \<open>C17: a limit of whole percents is kept exactly, although the code computes with floating-point numbers. When \<open>max_errors\<close> is \<open>p%\<close>, the counts of a
  watch are over the limit exactly when at least twenty requests were counted and the errors are more than \<open>p\<close> in a hundred of them, for all counts below \<open>2 ^ 45\<close>.\<close>

theorem whole_percent_exact:
  assumes "dy_MaxErrors d = Itoa p @ ''%''" "0 \<le> p" "p \<le> 100" "measured (Some d) u"
    "0 \<le> dw_Errors u" "dw_Errors u \<le> dw_Requests u" "dw_Requests u < 2 ^ 45"
  shows "Breached u \<longleftrightarrow> 20 \<le> dw_Requests u \<and> p * dw_Requests u < 100 * dw_Errors u"
proof (cases "20 \<le> dw_Requests u")
  case True
  have limit: "dw_MaxRate u = fl (of_int p / 100)"
    using assms(4) ParseMaxErrors_whole[OF assms(2,3)] Itoa_percent(4)[OF assms(2)] by (simp add: measured_def MaxErrorRate_def assms(1) Let_def)
  have rate: "dw_Rate u = fl (of_int (dw_Errors u) / of_int (dw_Requests u))"
    using assms(4-7) True by (simp add: measured_def error_rate_fl)
  have "\<not> fl_less (fl (of_int p / 100)) (Finite 0)"
    using fl_quotients_less[of 0 1 p] assms(2,3) by (simp add: fl_def)
  then show ?thesis
    using True fl_quotients_less[of "dw_Errors u" "dw_Requests u" p] assms by (simp add: Breached_def limit rate measured_def)
qed (use assms(4) in \<open>simp add: Breached_def measured_def\<close>)

definition sample_policy :: "string \<Rightarrow> Deploy" where
  "sample_policy limit = no_deploy\<lparr>dy_MaxErrors := limit\<rparr>"

definition counted_watch :: "Deploy \<Rightarrow> int \<Rightarrow> int \<Rightarrow> DeployWatch" where
  "counted_watch d r e = \<lparr>dw_Window = WatchWindow (Some d), dw_Elapsed = 0, dw_Requests = r, dw_Errors = e, dw_Rate = error_rate r e,
     dw_MaxRate = MaxErrorRate (Some d), dw_MinRequests = MinErrorRequests, dw_CountedFrom = 0, dw_Counted = 0\<rparr>"

lemma counted_watch_simps: "measured (Some d) (counted_watch d r e)" "dw_Requests (counted_watch d r e) = r" "dw_Errors (counted_watch d r e) = e"
  by (simp_all add: counted_watch_def measured_def)

theorem whole_percent_exact_witness:
  "\<not> Breached (counted_watch (sample_policy ''7%'') 100 7) \<and> Breached (counted_watch (sample_policy ''7%'') 100 8)"
proof -
  have seven: "dy_MaxErrors (sample_policy ''7%'') = Itoa 7 @ ''%''" by code_simp
  have "Breached (counted_watch (sample_policy ''7%'') 100 e) \<longleftrightarrow> 20 \<le> (100::int) \<and> 7 * 100 < 100 * e" if "0 \<le> e" "e \<le> 100" for e
    using whole_percent_exact[OF seven _ _ counted_watch_simps(1)] that by (simp add: counted_watch_simps)
  then show ?thesis by simp
qed

text \<open>A limit with a fraction is rounded twice, once when it is read and once when it is divided by a hundred: seven errors in a thousand requests are
  exactly 0.7 percent, and the code finds them over the limit of 0.7 percent. And \<open>nan%\<close> is read as a limit, over which no counts ever are.\<close>

lemma fl_value:
  assumes "pow2 (e + 52) \<le> q" "q < pow2 (e + 53)" "- 1074 \<le> e" "e \<le> 970" "\<bar>q / pow2 e - of_int k\<bar> < 1 / 2"
  shows "fl q = Finite (of_int k * pow2 e)"
proof -
  have q: "0 < q" using assms(1) pow2_pos[of "e + 52"] by linarith
  have "\<not> e + 53 \<le> ilog2 q" using ilog2_le[OF q] assms(2) pow2_mono[of "e + 53" "ilog2 q"] by linarith
  then have ilog2: "ilog2 q = e + 52" using ilog2_greatest[OF q assms(1)] by linarith
  have round: "round_even (q / pow2 e) = k"
  proof (cases "of_int k \<le> q / pow2 e")
    case True
    then have "\<lfloor>q / pow2 e\<rfloor> = k" using assms(5) by (intro floor_unique) linarith+
    then show ?thesis using assms(5) True by (simp add: round_even_def Let_def)
  next
    case False
    then have "\<lfloor>q / pow2 e\<rfloor> = k - 1" using assms(5) by (intro floor_unique) simp_all
    then show ?thesis using assms(5) False by (simp add: round_even_def Let_def)
  qed
  have value_eq: "round_pos q = of_int k * pow2 e" using assms(3) by (simp add: round_pos_def ilog2 round)
  have "q / pow2 e < pow2 53" using assms(2) pow2_add[of e 53] by (simp add: divide_less_eq mult.commute)
  then have "of_int k < pow2 53 + 1" using assms(5) by linarith
  also have "\<dots> \<le> pow2 54" by (simp add: pow2_def)
  finally have "of_int k * pow2 e < pow2 54 * pow2 e" by simp
  also have "\<dots> \<le> pow2 1024" using pow2_mono[of "54 + e" 1024] assms(4) by (simp add: pow2_add)
  finally show ?thesis using q value_eq by (simp add: fl_def Let_def)
qed

lemma sample_numbers:
  "ParseFloat ''0.7'' = Some (Finite (3152519739159347 / 4503599627370496))"
  "fl (3152519739159347 / 450359962737049600) = Finite (8070450532247928 * pow2 (- 60))"
  "fl (7 / 1000) = Finite (8070450532247929 * pow2 (- 60))"
proof -
  show "ParseFloat ''0.7'' = Some (Finite (3152519739159347 / 4503599627370496))" by code_simp
  show "fl (3152519739159347 / 450359962737049600) = Finite (8070450532247928 * pow2 (- 60))"
    using fl_value[of "- 60" "3152519739159347 / 450359962737049600" 8070450532247928] by (simp add: pow2_def)
  show "fl (7 / 1000) = Finite (8070450532247929 * pow2 (- 60))"
    using fl_value[of "- 60" "7 / 1000" 8070450532247929] by (simp add: pow2_def)
qed

lemma fraction_not_exact: "Breached (counted_watch (sample_policy ''0.7%'') 1000 7)"
proof -
  have "TrimSpace ''0.7%'' = ''0.7%''" "TrimSpace ''0.7'' = ''0.7''" "HasSuffix ''0.7%'' ''%''" "TrimSuffix ''0.7%'' ''%'' = ''0.7''"
    "ToLower ''0.7%'' = ''0.7%''" by code_simp+
  then have "MaxErrorRate (Some (sample_policy ''0.7%'')) = Finite (8070450532247928 * pow2 (- 60))"
    by (simp add: MaxErrorRate_def sample_policy_def ParseMaxErrors_def ParsePercent_def MaxErrorsNone_def sample_numbers)
  moreover have "error_rate 1000 7 = Finite (8070450532247929 * pow2 (- 60))"
    using error_rate_fl[of 1000 7] sample_numbers(3) by simp
  ultimately show ?thesis by (simp add: Breached_def counted_watch_def)
qed

lemma nan_is_a_limit: "ParseMaxErrors ''nan%'' = Inr NaN"
  by code_simp

lemma nan_never_breached: "dw_MaxRate u = NaN \<Longrightarrow> \<not> Breached u"
  by (simp add: Breached_def)

text \<open>Twice the window is computed with 64 bits. For a window of more than 146 years it is negative, and the watch is over when it begins.\<close>

lemma long_window_over:
  "ParseDuration ''1500000h'' = Some (5400000000 * second) \<and>
   (\<forall>r. dr_policy r = Some (no_deploy\<lparr>dy_Watch := 5400000000 * second\<rparr>) \<and> dr_flippedAt r \<noteq> 0 \<longrightarrow> window_over (dr_flippedAt r) r)"
proof -
  have "ParseDuration ''1500000h'' = Some (5400000000 * second)" by code_simp
  moreover have "wrap64 (2 * (5400000000 * second)) \<le> 0" by code_simp
  ultimately show ?thesis by (simp add: window_over_def WatchWindow_def elapsedAt_def time_sub_def minInt64_def maxInt64_def)
qed

end
