(* ===== verification/DeployStart.thy ===== *)
theory DeployStart
  imports DeployRollback
begin

text \<open>
  A deploy up to the switch (\<^verbatim>\<open>internal/env/deploy_run.go\<close>): building or finding the release, the command before it, the new replicas
  beside the old ones, the check, and the switch of all pools at once. A step that fails takes back what the deploy has done. The command that is
  run in a container, planning a release and replacing a service that has no route are calls that may fail.
\<close>

section \<open>Helpers\<close>

text \<open>A program of a rollout, run on the rollout of a pool. None of the programs that are run this way reads the service.\<close>

definition in_roll :: "Rollout \<Rightarrow> ServiceView \<Rightarrow> (roll_world, 'a) state \<Rightarrow> ('a \<times> Rollout) deploys" where
  "in_roll ro sv n = State (\<lambda>w.
     case run_state n \<lparr>wd_store = wd_store w, wd_log = wd_log w, wd_roll = ro, wd_svc = sv\<rparr> of
       (y, v) \<Rightarrow> ((y, wd_roll v), w\<lparr>wd_store := wd_store v, wd_log := wd_log v\<rparr>))"

definition set_pool :: "nat \<Rightarrow> (deployPool \<Rightarrow> deployPool) \<Rightarrow> unit deploys" where
  "set_pool k f = set_run (\<lambda>r. r\<lparr>dr_pools := (dr_pools r)[k := f (dr_pools r ! k)]\<rparr>)"

definition no_service :: "string \<Rightarrow> ServiceView" where
  "no_service name = \<lparr>sv_Name = name, sv_Container = [], sv_ID = [], sv_Image = [], sv_Port = 0, sv_ContainerPort = 0, sv_Protocol = [],
     sv_Status = ServiceStarting, sv_Health = [], sv_Change = [], sv_Detail = None, sv_Replicas = []\<rparr>"

definition in_pool :: "nat \<Rightarrow> (roll_world, 'a) state \<Rightarrow> 'a deploys" where
  "in_pool k n = do {
     r \<leftarrow> the_run;
     y \<leftarrow> in_roll (dp_roll (dr_pools r ! k)) (no_service (dp_service (dr_pools r ! k))) n;
     _ \<leftarrow> set_pool k (\<lambda>pool. pool\<lparr>dp_roll := snd y\<rparr>);
     State_Monad.return (fst y) }"

section \<open>The release\<close>

fun missing_images :: "deploy_answers \<Rightarrow> string list \<Rightarrow> (run_error + string list) deploys" where
  "missing_images x [] = State_Monad.return (Inr [])"
| "missing_images x (ref # refs) = do {
     l \<leftarrow> the_log;
     and_then (dattempt x (DeployImage ref)) (\<lambda>_.
     and_then (missing_images x refs) (\<lambda>ms. State_Monad.return (Inr (if dx_image x l ref then ms else ref # ms)))) }"

definition missingImages :: "deploy_answers \<Rightarrow> release \<Rightarrow> (run_error + string list) deploys" where
  "missingImages x rel = and_then (missing_images x (ImageList rel)) (\<lambda>ms. State_Monad.return (Inr (sort ms)))"

definition setRelease :: "deploy_answers \<Rightarrow> (run_error + unit) deploys" where
  "setRelease x = do {
     r \<leftarrow> the_run;
     (if dd_Release (dr_d r) = None then State_Monad.return (Inr ()) else update x) }"

definition plan :: "deploy_answers \<Rightarrow> deployer \<Rightarrow> (run_error + unit) deploys" where
  "plan x m = do {
     r \<leftarrow> the_run;
     (case dd_Release (dr_d r) of
        None \<Rightarrow> fail x m StepBuild RunNoRelease
      | Some rel \<Rightarrow> do {
          l \<leftarrow> the_log;
          planned \<leftarrow> dattempt x (DeployPlan (rel_ID (fst rel)));
          (case planned of
             Inl e \<Rightarrow> fail x m StepBuild e
           | Inr _ \<Rightarrow> do {
               let p = dx_plan x l rel;
               _ \<leftarrow> set_run (\<lambda>r. r\<lparr>dr_up := Some p, dr_policy := (case up_cfg p of None \<Rightarrow> None | Some a \<Rightarrow> app_Deploy a)\<rparr>);
               s \<leftarrow> saveEnv x p;
               (case s of Inl e \<Rightarrow> fail x m StepBuild e | Inr _ \<Rightarrow> State_Monad.return (Inr ())) }) }) }"

definition use_release :: "deploy_answers \<Rightarrow> deployer \<Rightarrow> StepStatus \<Rightarrow> release \<Rightarrow> (run_error + unit) deploys" where
  "use_release x m status rel = do {
     _ \<leftarrow> set_d (\<lambda>d. d\<lparr>dd_Release := Some rel\<rparr>);
     u \<leftarrow> setRelease x;
     (case u of
        Inl e \<Rightarrow> fail x m StepBuild e
      | Inr _ \<Rightarrow> do {
          _ \<leftarrow> (if status = StepOK then ignore (dnow x) else State_Monad.return ());
          _ \<leftarrow> dstep x StepBuild status;
          plan x m }) }"

definition build :: "deploy_answers \<Rightarrow> deployer \<Rightarrow> release option \<Rightarrow> (run_error + unit) deploys" where
  "build x m rel0 = do {
     _ \<leftarrow> dnow x;
     (case rel0 of
        Some rel \<Rightarrow> do {
          missing \<leftarrow> missingImages x rel;
          (case missing of
             Inl e \<Rightarrow> fail x m StepBuild e
           | Inr refs \<Rightarrow> if refs \<noteq> [] then fail x m StepBuild (RunPruned refs) else use_release x m StepSkipped rel) }
      | None \<Rightarrow>
          if \<not> dm_Builder m then fail x m StepBuild RunNoBuilder
          else do {
            _ \<leftarrow> dstep x StepBuild StepStarted;
            l \<leftarrow> the_log;
            b \<leftarrow> dattempt x DeployBuild;
            (case b of
               Inl e \<Rightarrow> fail x m StepBuild e
             | Inr _ \<Rightarrow> (case dx_built x l of None \<Rightarrow> fail x m StepBuild RunNoRelease | Some rel \<Rightarrow> use_release x m StepOK rel)) }) }"

section \<open>The commands before the switch\<close>

definition one_off :: "deploy_answers \<Rightarrow> deployer \<Rightarrow> DeployStepName \<Rightarrow> string \<Rightarrow> (run_error + unit) deploys" where
  "one_off x m name cmd =
     (if cmd = [] then do { _ \<leftarrow> dstep x name StepSkipped; State_Monad.return (Inr ()) }
      else do {
        _ \<leftarrow> dnow x;
        _ \<leftarrow> dstep x name StepStarted;
        e \<leftarrow> dattempt x (DeployOneOff cmd);
        (case e of
           Inl e \<Rightarrow> fail x m name e
         | Inr _ \<Rightarrow> do { _ \<leftarrow> dnow x; _ \<leftarrow> dstep x name StepOK; State_Monad.return (Inr ()) }) })"

definition migrate :: "deploy_answers \<Rightarrow> deployer \<Rightarrow> (run_error + unit) deploys" where
  "migrate x m = and_then (setStatus x m DeployMigrating) (\<lambda>_. do {
     r \<leftarrow> the_run;
     one_off x m StepBefore (case dr_policy r of None \<Rightarrow> [] | Some d \<Rightarrow> dy_Before d) })"

definition check :: "deploy_answers \<Rightarrow> deployer \<Rightarrow> (run_error + unit) deploys" where
  "check x m = and_then (setStatus x m DeployChecking) (\<lambda>_. do {
     r \<leftarrow> the_run;
     one_off x m StepCheck (case dr_policy r of None \<Rightarrow> [] | Some d \<Rightarrow> dy_Check d) })"

section \<open>The new replicas\<close>

definition pick :: "releasePlan \<Rightarrow> string list \<Rightarrow> run_error + svcRollPlan list" where
  "pick p names =
     (if rp_services p = [] then Inl RunNothing
      else if names = [] then Inr (rp_services p)
      else map_result (\<lambda>n. case plan_svc p n of None \<Rightarrow> Inl (RunNoService n) | Some s \<Rightarrow> Inr s) names)"

definition plan_routes :: "deploy_answers \<Rightarrow> deployer \<Rightarrow> releasePlan \<Rightarrow> svcRollPlan list \<Rightarrow> (run_error + releasePlan) deploys" where
  "plan_routes x m p wanted = do {
     l \<leftarrow> the_log;
     t \<leftarrow> dnow x;
     and_then (dattempt x DeployPlanRoutes) (\<lambda>_.
       State (\<lambda>w. case planRoutes (dm_Edge m) t (rows (rd_envs (dw_db w))) (dw_rec w) (dx_ip x l) (up_cfg p) (map plan_name wanted) (wd_store w) of
         (Inl e, s) \<Rightarrow> (Inl (RunExpose e), w\<lparr>wd_store := s\<rparr>)
       | (Inr rs, s) \<Rightarrow> (Inr (p\<lparr>rp_routes := rs\<rparr>), w\<lparr>wd_store := s\<rparr>))) }"

definition new_pool :: "releasePlan \<Rightarrow> svcRollPlan \<Rightarrow> deployPool" where
  "new_pool p s =
     (let (r, exposed) = (case map_of (rp_routes p) (plan_name s) of None \<Rightarrow> (\<lparr>ro_id = 0, ro_host = [], ro_more = []\<rparr>, False) | Some r \<Rightarrow> (r, True))
      in \<lparr>dp_service = plan_name s, dp_route = r, dp_exposed = exposed,
          dp_roll = \<lparr>rl_Service = plan_name s, rl_Host = ro_host r, rl_URL = PublicURL (ro_host r), rl_Steps = [], rl_Replicas = [], rl_Failed = None\<rparr>,
          dp_fresh = [], dp_held = [], dp_drain = drainOf (up_cfg p) (plan_name s)\<rparr>)"

text \<open>A replica that did not come up is remembered too, to be taken away.\<close>

fun bring_up :: "deploy_answers \<Rightarrow> releasePlan \<Rightarrow> svcRollPlan \<Rightarrow> nat \<Rightarrow> int list \<Rightarrow> (run_error + unit) deploys" where
  "bring_up x p s k [] = State_Monad.return (Inr ())"
| "bring_up x p s k (i # is) = do {
     y \<leftarrow> in_pool k (bringUpReplica (dx_base x) (upPlan.truncate p) s i);
     (case y of
        Inl (rep, e) \<Rightarrow> do {
          _ \<leftarrow> set_pool k (\<lambda>pool. pool\<lparr>dp_fresh := dp_fresh pool @ (case rep of None \<Rightarrow> [] | Some rep \<Rightarrow> [rep])\<rparr>);
          State_Monad.return (Inl (RunAct e)) }
      | Inr rep \<Rightarrow> do {
          _ \<leftarrow> set_pool k (\<lambda>pool. pool\<lparr>dp_fresh := dp_fresh pool @ [rep]\<rparr>);
          bring_up x p s k is }) }"

text \<open>The pool of a service behind the edge: the old replicas are noted, and as many new ones are brought up.\<close>

definition fill_pool :: "deploy_answers \<Rightarrow> deployer \<Rightarrow> releasePlan \<Rightarrow> svcRollPlan \<Rightarrow> nat \<Rightarrow> (run_error + unit) deploys" where
  "fill_pool x m p s k =
     (let want = replicaCount (up_cfg p) (plan_name s)
      in case fits (up_layout p) (plan_name s) (2 * want) of
           Inl e \<Rightarrow> State_Monad.return (Inl (RunLayout e))
         | Inr _ \<Rightarrow>
             and_then (acting (list_live (dx_base x) (up_app p) (up_env p) (plan_name s))) (\<lambda>found.
               (let old = runningReplicas (numbered found)
                in do {
                  _ \<leftarrow> set_pool k (\<lambda>pool. pool\<lparr>dp_held := replicasOf (plan_name s) (up_layout p) old ReplicaDraining\<rparr>);
                  and_then (dattempt x (DeployService (plan_name s))) (\<lambda>_. do {
                    _ \<leftarrow> dnow x;
                    _ \<leftarrow> dstep_at x StepReplicas StepStarted (plan_name s) 0;
                    bring_up x p s k (freeIndexes old want) }) })))"

definition start_service :: "deploy_answers \<Rightarrow> deployer \<Rightarrow> releasePlan \<Rightarrow> svcRollPlan \<Rightarrow> (run_error + unit) deploys" where
  "start_service x m p s = do {
     r \<leftarrow> the_run;
     _ \<leftarrow> set_run (\<lambda>r. r\<lparr>dr_pools := dr_pools r @ [new_pool p s]\<rparr>);
     (if \<not> dp_exposed (new_pool p s) then do {
        _ \<leftarrow> dstep_at x StepReplicas StepSkipped (plan_name s) 0;
        State_Monad.return (Inr ()) }
      else do {
        y \<leftarrow> fill_pool x m p s (length (dr_pools r));
        (case y of
           Inl e \<Rightarrow> fail x m StepReplicas e
         | Inr _ \<Rightarrow> do {
             _ \<leftarrow> dnow x;
             _ \<leftarrow> dstep_at x StepReplicas StepOK (plan_name s) 0;
             State_Monad.return (Inr ()) }) }) }"

fun start_services :: "deploy_answers \<Rightarrow> deployer \<Rightarrow> releasePlan \<Rightarrow> svcRollPlan list \<Rightarrow> (run_error + unit) deploys" where
  "start_services x m p [] = State_Monad.return (Inr ())"
| "start_services x m p (s # ss) = and_then (start_service x m p s) (\<lambda>_. start_services x m p ss)"

definition start :: "deploy_answers \<Rightarrow> deployer \<Rightarrow> string list \<Rightarrow> (run_error + unit) deploys" where
  "start x m names = and_then (setStatus x m DeployStarting) (\<lambda>_. do {
     r \<leftarrow> the_run;
     (case dr_up r of
        None \<Rightarrow> fail x m StepReplicas RunNothing
      | Some p \<Rightarrow>
          (case pick p names of
             Inl e \<Rightarrow> fail x m StepReplicas e
           | Inr wanted \<Rightarrow> do {
               pr \<leftarrow> plan_routes x m p wanted;
               (case pr of
                  Inl e \<Rightarrow> fail x m StepReplicas e
                | Inr p' \<Rightarrow> do {
                    _ \<leftarrow> set_run (\<lambda>r. r\<lparr>dr_up := Some p'\<rparr>);
                    _ \<leftarrow> dnow x;
                    start_services x m p' wanted }) })) })"

section \<open>The switch\<close>

definition oldOf :: "Replica list \<Rightarrow> replica list" where
  "oldOf held = map (\<lambda>rep. \<lparr>re_index = rp_Index rep, re_container = rp_Container rep, re_id = rp_ID rep, re_running = True,
     re_status = ServiceRunning, re_tree = []\<rparr>) held"

text \<open>A service that is healthy, or has no check, is not waited for.\<close>

definition waitService :: "deploy_answers \<Rightarrow> string \<Rightarrow> (run_error + unit) deploys" where
  "waitService x name = do {
     l \<leftarrow> the_log;
     (if dx_no_check x l name then State_Monad.return (Inr ())
      else do { _ \<leftarrow> dnow x; dattempt x (DeployWait name) }) }"

text \<open>The services that have no route are replaced one by one.\<close>

definition replace_pool :: "deploy_answers \<Rightarrow> deployer \<Rightarrow> releasePlan \<Rightarrow> nat \<Rightarrow> deployPool \<Rightarrow> (run_error + unit) deploys" where
  "replace_pool x m p k pool =
     (case plan_svc p (dp_service pool) of
        None \<Rightarrow> fail x m StepSwitch (RunNoService (dp_service pool))
      | Some s \<Rightarrow> do {
          svc \<leftarrow> dattempt x (DeployService (plan_name s));
          (case svc of
             Inl e \<Rightarrow> fail x m StepSwitch e
           | Inr _ \<Rightarrow> do {
               _ \<leftarrow> set_run (\<lambda>r. r\<lparr>dr_replaced := True\<rparr>);
               l \<leftarrow> the_log;
               up \<leftarrow> and_then (dattempt x (DeployRecreate (plan_name s))) (\<lambda>_. waitService x (plan_name s));
               (case up of
                  Inl e \<Rightarrow> fail x m StepSwitch e
                | Inr _ \<Rightarrow> do {
                    _ \<leftarrow> putService x (plan_name s);
                    _ \<leftarrow> set_pool k (\<lambda>pool. pool\<lparr>dp_fresh := dx_replicas x l (plan_name s)\<rparr>);
                    State_Monad.return (Inr ()) }) }) })"

fun replace_pools :: "deploy_answers \<Rightarrow> deployer \<Rightarrow> releasePlan \<Rightarrow> nat \<Rightarrow> deployPool list \<Rightarrow> (run_error + unit) deploys" where
  "replace_pools x m p k [] = State_Monad.return (Inr ())"
| "replace_pools x m p k (pool # pools) =
     (if dp_exposed pool then replace_pools x m p (Suc k) pools
      else and_then (replace_pool x m p k pool) (\<lambda>_. replace_pools x m p (Suc k) pools))"

text \<open>The new replicas of a pool are active from now on, and the old ones drain.\<close>

definition record_flip :: "deploy_answers \<Rightarrow> deployer \<Rightarrow> releasePlan \<Rightarrow> nat \<Rightarrow> deployPool \<Rightarrow> (run_error + unit) deploys" where
  "record_flip x m p k pool =
     (case plan_svc p (dp_service pool) of
        None \<Rightarrow> State_Monad.return (Inl (RunNoService (dp_service pool)))
      | Some s \<Rightarrow> do {
          t \<leftarrow> dnow x;
          let (fresh, draining) = flipTargets (upPlan.truncate p) s t (dp_fresh pool) (oldOf (dp_held pool));
          _ \<leftarrow> set_pool k (\<lambda>pool. pool\<lparr>dp_fresh := fresh, dp_held := draining\<rparr>);
          _ \<leftarrow> set_run (\<lambda>r. if is_zero (dr_flippedAt r) then r\<lparr>dr_flippedAt := t\<rparr> else r);
          acting (recordTargets (dx_base x) (dm_manager m) (dp_route pool) (fresh @ draining)) })"

fun record_flips :: "deploy_answers \<Rightarrow> deployer \<Rightarrow> releasePlan \<Rightarrow> nat \<Rightarrow> deployPool list \<Rightarrow> (run_error + unit) deploys" where
  "record_flips x m p k [] = State_Monad.return (Inr ())"
| "record_flips x m p k (pool # pools) =
     (if \<not> dp_exposed pool then record_flips x m p (Suc k) pools
      else and_then (record_flip x m p k pool) (\<lambda>_. record_flips x m p (Suc k) pools))"

text \<open>The old pool is recorded again as the one that serves, as far as that is possible.\<close>

fun unrecord_pools :: "deploy_answers \<Rightarrow> deployer \<Rightarrow> deployPool list \<Rightarrow> unit deploys" where
  "unrecord_pools x m [] = State_Monad.return ()"
| "unrecord_pools x m (pool # pools) =
     (if \<not> dp_exposed pool then unrecord_pools x m pools
      else do {
        _ \<leftarrow> recordTargets (dx_base x) (dm_manager m) (dp_route pool) (dp_held pool);
        unrecord_pools x m pools })"

definition unrecordFlip :: "deploy_answers \<Rightarrow> deployer \<Rightarrow> unit deploys" where
  "unrecordFlip x m = do {
     t \<leftarrow> dnow x;
     _ \<leftarrow> set_run (\<lambda>r. r\<lparr>dr_pools := map (\<lambda>p. if dp_exposed p
            then p\<lparr>dp_held := map (\<lambda>rep. rep\<lparr>rp_State := ReplicaActive, rp_Since := t\<rparr>) (dp_held p)\<rparr> else p) (dr_pools r)\<rparr>);
     r \<leftarrow> the_run;
     _ \<leftarrow> unrecord_pools x m (dr_pools r);
     ignore (pushRoutes (dx_base x) (dm_manager m)) }"

definition failFlip :: "deploy_answers \<Rightarrow> deployer \<Rightarrow> run_error \<Rightarrow> (run_error + unit) deploys" where
  "failFlip x m cause = do { _ \<leftarrow> unrecordFlip x m; fail x m StepSwitch cause }"

section \<open>After the switch\<close>

fun flip_steps :: "deploy_answers \<Rightarrow> deployer \<Rightarrow> releasePlan \<Rightarrow> nat \<Rightarrow> deployPool list \<Rightarrow> unit deploys" where
  "flip_steps x m p k [] = State_Monad.return ()"
| "flip_steps x m p k (pool # pools) =
     (if \<not> dp_exposed pool then flip_steps x m p (Suc k) pools
      else do {
        r \<leftarrow> the_run;
        _ \<leftarrow> in_pool k (flipSteps (dx_base x) (dp_route pool) (dp_fresh pool) (dp_held pool) (dr_flippedAt r));
        svc \<leftarrow> dattempt x (DeployService (dp_service pool));
        _ \<leftarrow> (case svc of Inl _ \<Rightarrow> State_Monad.return () | Inr _ \<Rightarrow> putService x (dp_service pool));
        flip_steps x m p (Suc k) pools })"

definition fillRoutes :: "deploy_answers \<Rightarrow> unit deploys" where
  "fillRoutes x = do {
     l \<leftarrow> the_log;
     e \<leftarrow> dask x DeployRoutes;
     (if e \<noteq> None then State_Monad.return () else set_d (\<lambda>d. d\<lparr>dd_Routes := dx_env_routes x l\<rparr>)) }"

text \<open>An old replica is kept when it has drained, or its time to drain is over.\<close>

definition hold_one :: "deploy_answers \<Rightarrow> deployer \<Rightarrow> nat \<Rightarrow> nat \<Rightarrow> unit deploys" where
  "hold_one x m k i = do {
     r \<leftarrow> the_run;
     let pool = dr_pools r ! k;
     let old = dp_held pool ! i;
     let st = (new_step (rp_Index old) StepDrain StepOK ReplicaDraining)\<lparr>rs_Host := ro_host (dp_route pool)\<rparr>;
     started \<leftarrow> dnow x;
     d \<leftarrow> waitDrain (dx_base x) (dm_manager m) (ro_host (dp_route pool)) (rp_Index old) (dp_drain pool) (dr_flippedAt r);
     _ \<leftarrow> (case d of
        Inl e \<Rightarrow> in_pool k (step (dx_base x) (st\<lparr>rs_Status := StepSkipped\<rparr>))
      | Inr (inflight, byDeadline) \<Rightarrow> do {
          t \<leftarrow> dnow x;
          in_pool k (step (dx_base x) (if byDeadline then st\<lparr>rs_Inflight := inflight, rs_Duration := time_sub t started\<rparr>
                  else st\<lparr>rs_Duration := time_sub t started\<rparr>)) });
     t \<leftarrow> dnow x;
     set_pool k (\<lambda>pool. pool\<lparr>dp_held := (dp_held pool)[i := (dp_held pool ! i)\<lparr>rp_State := ReplicaHeld, rp_Since := t\<rparr>]\<rparr>) }"

fun hold_all :: "deploy_answers \<Rightarrow> deployer \<Rightarrow> (nat \<times> nat) list \<Rightarrow> unit deploys" where
  "hold_all x m [] = State_Monad.return ()"
| "hold_all x m ((k, i) # ks) = do { _ \<leftarrow> hold_one x m k i; hold_all x m ks }"

definition held_places :: "nat \<Rightarrow> deployPool list \<Rightarrow> (nat \<times> nat) list" where
  "held_places n pools = concat (map (\<lambda>(k, pool). if dp_exposed pool then map (Pair k) [0..<length (dp_held pool)] else []) (enumerate n pools))"

definition hold :: "deploy_answers \<Rightarrow> deployer \<Rightarrow> (run_error + unit) deploys" where
  "hold x m = do {
     r \<leftarrow> the_run;
     let ks = held_places 0 (dr_pools r);
     _ \<leftarrow> hold_all x m ks;
     (if ks = [] then State_Monad.return (Inr ())
      else do {
        pu \<leftarrow> pushPools x m;
        _ \<leftarrow> (case pu of Inl e \<Rightarrow> dstep x StepSwitch StepSkipped | Inr _ \<Rightarrow> dstep x StepSwitch StepOK);
        State_Monad.return (Inr ()) }) }"

text \<open>The part after the edge has been told.\<close>

definition after_push :: "deploy_answers \<Rightarrow> deployer \<Rightarrow> releasePlan \<Rightarrow> (run_error + unit) deploys" where
  "after_push x m p = do {
     _ \<leftarrow> set_run (\<lambda>r. r\<lparr>dr_pushed := True\<rparr>);
     r \<leftarrow> the_run;
     _ \<leftarrow> flip_steps x m p 0 (dr_pools r);
     _ \<leftarrow> fillRoutes x;
     _ \<leftarrow> dstep_at x StepSwitch StepOK [] (dr_flippedAt r);
     hold x m }"

text \<open>All pools are recorded, and then the edge is told once.\<close>

definition switch_over :: "deploy_answers \<Rightarrow> deployer \<Rightarrow> releasePlan \<Rightarrow> (run_error + unit) deploys" where
  "switch_over x m p = do {
     r \<leftarrow> the_run;
     f \<leftarrow> record_flips x m p 0 (dr_pools r);
     (case f of
        Inl e \<Rightarrow> failFlip x m e
      | Inr _ \<Rightarrow> do {
          r' \<leftarrow> the_run;
          _ \<leftarrow> (if is_zero (dr_flippedAt r') then do { t \<leftarrow> dnow x; set_run (\<lambda>r. r\<lparr>dr_flippedAt := t\<rparr>) } else State_Monad.return ());
          pu \<leftarrow> acting (pushRoutes (dx_base x) (dm_manager m));
          (case pu of Inl e \<Rightarrow> failFlip x m e | Inr _ \<Rightarrow> after_push x m p) }) }"

text \<open>The steps before have made a plan, so that the first case does not arise.\<close>

definition flip :: "deploy_answers \<Rightarrow> deployer \<Rightarrow> (run_error + unit) deploys" where
  "flip x m = do {
     r \<leftarrow> the_run;
     (case dr_up r of
        None \<Rightarrow> State_Monad.return (Inl RunNothing)
      | Some p \<Rightarrow>
          and_then (replace_pools x m p 0 (dr_pools r)) (\<lambda>_.
          and_then (setStatus x m DeployWatching) (\<lambda>_. switch_over x m p))) }"

section \<open>A deploy\<close>

definition deploy_steps :: "deploy_answers \<Rightarrow> deployer \<Rightarrow> release option \<Rightarrow> string list \<Rightarrow> (run_error + unit) deploys" where
  "deploy_steps x m rel names =
     and_then (build x m rel) (\<lambda>_.
     and_then (migrate x m) (\<lambda>_.
     and_then (start x m names) (\<lambda>_.
     and_then (check x m) (\<lambda>_. flip x m))))"

definition read_release :: "deploy_answers \<Rightarrow> int \<Rightarrow> (run_error + release option) deploys" where
  "read_release x i =
     (if i = 0 then State_Monad.return (Inr None)
      else and_then (dattempt x (DeployRead ''release'')) (\<lambda>_.
        State (\<lambda>w. ((case releaseOf (dx_decoder x) (dw_db w) i of Inl e \<Rightarrow> Inl (RunDecode e) | Inr r \<Rightarrow> Inr r), w))))"

text \<open>A deploy that is begun: its row, the reference to it and what waits for it.\<close>

definition begin_deploy :: "deploy_answers \<Rightarrow> string \<Rightarrow> string \<Rightarrow> string \<Rightarrow> (run_error + unit) deploys" where
  "begin_deploy x kind reason who = do {
     t \<leftarrow> dnow x;
     old \<leftarrow> State (\<lambda>w. (env_ReleaseID (dw_rec w), w));
     and_then (read_release x old) (\<lambda>prior. do {
       row \<leftarrow> State (\<lambda>w. (\<lparr>dep_ID = 0, dep_EnvID = env_ID (dw_rec w), dep_ReleaseID = 0, dep_FromReleaseID = env_ReleaseID (dw_rec w), dep_Kind = kind,
         dep_Status = DeployBuilding, dep_Reason = reason, dep_Identity = who, dep_StartedAt = t, dep_FinishedAt = 0, dep_Error = []\<rparr>, w));
       and_then (dattempt x DeployCreate) (\<lambda>_. do {
         t' \<leftarrow> dnow x;
         and_then (State (\<lambda>w. case CreateDeploy t' (dw_db w) row of
             Inl e \<Rightarrow> (Inl (RunStore e), w) | Inr (made, db) \<Rightarrow> (Inr (dep_ID made), w\<lparr>dw_db := db\<rparr>))) (\<lambda>i.
         and_then (dattempt x (DeployBegin (dep_EnvID row) i)) (\<lambda>_. do {
           t'' \<leftarrow> dnow x;
           and_then (on_db (\<lambda>db. SetEnvDeploy t'' db (dep_EnvID row) i)) (\<lambda>_.
             State (\<lambda>w. (Inr (), w\<lparr>dw_rec := (dw_rec w)\<lparr>env_DeployID := i\<rparr>, dw_watches := dw_watches w @ [i],
               dw_run := \<lparr>dr_d = \<lparr>dd_ID = i, dd_Kind = kind, dd_Status = DeployBuilding, dd_Release = None, dd_FromRelease = prior, dd_Steps = [],
                   dd_Rollouts = [], dd_Watch = None, dd_Routes = [], dd_Reason = reason, dd_Identity = who, dd_StartedAt = t, dd_FinishedAt = 0, dd_Error = []\<rparr>,
                 dr_policy = None, dr_pools = [], dr_flippedAt = 0, dr_countedFrom = 0, dr_up = None, dr_detached = False, dr_watchStarted = False,
                 dr_replaced = False, dr_pushed = False, dr_ended = False\<rparr>\<rparr>))) })) }) }) }"

text \<open>What goes on in the background is run to its end.\<close>

definition handOff :: "(run_error + unit) option deploys \<Rightarrow> (run_error + unit) option deploys" where
  "handOff n = do { _ \<leftarrow> syncRollouts; _ \<leftarrow> set_run (\<lambda>r. r\<lparr>dr_detached := True\<rparr>); n }"

definition watch_deploy :: "deploy_answers \<Rightarrow> deployer \<Rightarrow> nat \<Rightarrow> bool \<Rightarrow> (run_error + unit) option deploys" where
  "watch_deploy x m n noWatch =
     (if noWatch then handOff (watchAll x m n)
      else do {
        y \<leftarrow> watch x m n;
        (if y = Some (Inl RunHandedOff) then handOff (await x m n)
         else if y = Some (Inl RunCommanderGone) then handOff (watchAll x m n)
         else State_Monad.return y) })"

definition runDeploy :: "deploy_answers \<Rightarrow> deployer \<Rightarrow> nat \<Rightarrow> release option \<Rightarrow> string list \<Rightarrow> bool \<Rightarrow> string \<Rightarrow> string \<Rightarrow> string \<Rightarrow>
   (run_error + unit) option deploys" where
  "runDeploy x m n rel names noWatch kind reason who = do {
     y \<leftarrow> and_then (begin_deploy x kind reason who) (\<lambda>_. deploy_steps x m rel names);
     (case y of Inl e \<Rightarrow> State_Monad.return (Some (Inl e)) | Inr _ \<Rightarrow> watch_deploy x m n noWatch) }"

end
