(* ===== verification/DeployOrder.thy ===== *)
theory DeployOrder
  imports DeployStart
begin

text \<open>
  The order of the calls of a deploy up to the switch (\<^verbatim>\<open>internal/env/deploy_run.go\<close>): the edge is told of the new replicas only when all of
  them are up and the commands before the switch have succeeded, and no container of a replica that was running is taken away.
\<close>

section \<open>What is shown of the calls\<close>

definition publishes :: "call \<Rightarrow> bool" where
  "publishes c \<longleftrightarrow> c = CallPush \<or> (\<exists>i ts. c = CallSetTargets i ts)"

text \<open>The container is that of a new replica: its number was free among the replicas that were running when they were listed.\<close>

definition is_new :: "deploy_answers \<Rightarrow> upPlan \<Rightarrow> log \<Rightarrow> log \<Rightarrow> string \<Rightarrow> bool" where
  "is_new x p lg es c \<longleftrightarrow> (\<exists>l0 l1 s. es = l0 @ (CallList (plan_name s), None) # l1 \<and>
     c \<in> container_of p s ` set (new_indexes (dx_base x) p s (lg @ l0)) \<and> c \<notin> re_container ` set (old_replicas (dx_base x) p s (lg @ l0)))"

definition policy_of :: "upPlan \<Rightarrow> Deploy option" where
  "policy_of p = (case up_cfg p of None \<Rightarrow> None | Some a \<Rightarrow> app_Deploy a)"

definition command_done :: "string \<Rightarrow> log \<Rightarrow> bool" where
  "command_done cmd es \<longleftrightarrow> cmd = [] \<or> (CallDeploy (DeployOneOff cmd), None) \<in> set es"

definition commands_done :: "upPlan \<Rightarrow> log \<Rightarrow> bool" where
  "commands_done p es \<longleftrightarrow> (case policy_of p of None \<Rightarrow> True | Some d \<Rightarrow> command_done (dy_Before d) es \<and> command_done (dy_Check d) es)"

text \<open>As many new replicas of the service as it is to have are up.\<close>

definition replicas_up :: "deploy_answers \<Rightarrow> upPlan \<Rightarrow> log \<Rightarrow> svcRollPlan \<Rightarrow> log \<Rightarrow> bool" where
  "replicas_up x p lg s es \<longleftrightarrow> (\<exists>l0 l1. es = l0 @ (CallList (plan_name s), None) # l1 \<and>
     ready_all p s (set (new_indexes (dx_base x) p s (lg @ l0))) l1)"

definition prepared :: "deploy_answers \<Rightarrow> releasePlan \<Rightarrow> string list \<Rightarrow> log \<Rightarrow> log \<Rightarrow> bool" where
  "prepared x p names lg es \<longleftrightarrow> commands_done (upPlan.truncate p) es \<and>
     (\<exists>wanted. pick p names = Inr wanted \<and>
        (\<forall>s \<in> set wanted. plan_name s \<in> fst ` set (rp_routes p) \<longrightarrow> replicas_up x (upPlan.truncate p) lg s es))"

definition deployed_in_order :: "deploy_answers \<Rightarrow> releasePlan \<Rightarrow> string list \<Rightarrow> log \<Rightarrow> log \<Rightarrow> bool" where
  "deployed_in_order x p names lg es \<longleftrightarrow> (\<forall>pre y post. es = pre @ y # post \<longrightarrow>
     (publishes (fst y) \<longrightarrow> prepared x p names lg pre) \<and>
     (\<forall>c. touches c (fst y) \<longrightarrow> is_new x (upPlan.truncate p) lg pre c))"

lemma is_new_extend: "is_new x p lg es c \<Longrightarrow> is_new x p lg (es @ es') c"
  unfolding is_new_def by fastforce

lemma command_done_extend: "command_done cmd es \<Longrightarrow> command_done cmd (es @ es')"
  by (auto simp: command_done_def)

lemma replicas_up_extend: "replicas_up x p lg s es \<Longrightarrow> replicas_up x p lg s (es @ es')"
  unfolding replicas_up_def using ready_all_extend by fastforce

lemma prepared_extend: "prepared x p names lg es \<Longrightarrow> prepared x p names lg (es @ es')"
  unfolding prepared_def commands_done_def using replicas_up_extend command_done_extend by (fastforce split: option.splits)

text \<open>Calls after those before: they take away new containers only, and tell the edge only when all is prepared.\<close>

lemma ordered_append:
  assumes "deployed_in_order x p names lg es"
    and "\<forall>y \<in> set es'. (publishes (fst y) \<longrightarrow> prepared x p names lg es) \<and> (\<forall>c. touches c (fst y) \<longrightarrow> is_new x (upPlan.truncate p) lg es c)"
  shows "deployed_in_order x p names lg (es @ es')"
  unfolding deployed_in_order_def
proof (intro allI impI)
  fix pre y post assume split: "es @ es' = pre @ y # post"
  show "(publishes (fst y) \<longrightarrow> prepared x p names lg pre) \<and> (\<forall>c. touches c (fst y) \<longrightarrow> is_new x (upPlan.truncate p) lg pre c)"
    using split
  proof (cases rule: event_split)
    case (1 us)
    then show ?thesis using assms(1) unfolding deployed_in_order_def by blast
  next
    case (2 us)
    then have "y \<in> set es'" by simp
    then show ?thesis using assms(2) 2 prepared_extend is_new_extend by blast
  qed
qed

section \<open>The invariant\<close>

definition fresh_new :: "deploy_answers \<Rightarrow> upPlan \<Rightarrow> log \<Rightarrow> log \<Rightarrow> deployPool list \<Rightarrow> bool" where
  "fresh_new x p lg es pools \<longleftrightarrow> (\<forall>pool \<in> set pools. dp_exposed pool \<longrightarrow> (\<forall>rep \<in> set (dp_fresh pool). is_new x p lg es (rp_Container rep)))"

lemma fresh_new_extend: "fresh_new x p lg es pools \<Longrightarrow> fresh_new x p lg (es @ es') pools"
  unfolding fresh_new_def using is_new_extend by blast

text \<open>The plan, the names of the services and the log before the deploy are fixed.\<close>

definition orderly :: "deploy_answers \<Rightarrow> releasePlan \<Rightarrow> string list \<Rightarrow> log \<Rightarrow> deploy_world \<Rightarrow> bool" where
  "orderly x p names lg w \<longleftrightarrow> (\<exists>es. wd_log w = lg @ es \<and> deployed_in_order x p names lg es \<and> fresh_new x (upPlan.truncate p) lg es (run_pools w))"

definition prep :: "deploy_answers \<Rightarrow> releasePlan \<Rightarrow> string list \<Rightarrow> log \<Rightarrow> deploy_world \<Rightarrow> bool" where
  "prep x p names lg w \<longleftrightarrow> (\<exists>es. wd_log w = lg @ es \<and> prepared x p names lg es)"

abbreviation planned :: "deploy_world \<Rightarrow> releasePlan option \<times> Deploy option" where
  "planned w \<equiv> (dr_up (dw_run w), dr_policy (dw_run w))"

definition shown :: "deploy_world \<Rightarrow> (bool \<times> Replica list) list \<times> bool \<times> releasePlan option \<times> Deploy option" where
  "shown w = (map (\<lambda>p. (dp_exposed p, dp_fresh p)) (run_pools w), dr_pushed (dw_run w), planned w)"

lemma fresh_new_shown:
  assumes "map (\<lambda>p. (dp_exposed p, dp_fresh p)) pools = map (\<lambda>p. (dp_exposed p, dp_fresh p)) pools'"
  shows "fresh_new x p lg es pools = fresh_new x p lg es pools'"
proof -
  have "fresh_new x p lg es pools \<longleftrightarrow> (\<forall>(b, f) \<in> set (map (\<lambda>p. (dp_exposed p, dp_fresh p)) pools). b \<longrightarrow> (\<forall>rep \<in> set f. is_new x p lg es (rp_Container rep)))" for pools
    by (auto simp: fresh_new_def)
  then show ?thesis by (simp only: assms)
qed

lemma orderly_step:
  assumes "orderly x p names lg w" "wd_log w' = wd_log w @ es'" "fst (shown w') = fst (shown w)"
    and "\<forall>y \<in> set es'. (\<forall>c. \<not> touches c (fst y)) \<and> (publishes (fst y) \<longrightarrow> prep x p names lg w)"
  shows "orderly x p names lg w'"
proof -
  obtain es where es: "wd_log w = lg @ es" "deployed_in_order x p names lg es" "fresh_new x (upPlan.truncate p) lg es (run_pools w)"
    using assms(1) by (auto simp: orderly_def)
  have "deployed_in_order x p names lg (es @ es')"
    using ordered_append[OF es(2)] assms(4) es(1) by (auto simp: prep_def)
  moreover have "fresh_new x (upPlan.truncate p) lg (es @ es') (run_pools w')"
    using fresh_new_extend[OF es(3)] fresh_new_shown[of "run_pools w'" "run_pools w"] assms(3) by (simp add: shown_def)
  ultimately show ?thesis using es(1) assms(2) by (auto simp: orderly_def)
qed

lemma prep_extend: "prep x p names lg w \<Longrightarrow> wd_log w' = wd_log w @ es \<Longrightarrow> prep x p names lg w'"
  unfolding prep_def using prepared_extend by fastforce

definition gentle :: "call \<Rightarrow> bool" where
  "gentle c \<longleftrightarrow> \<not> publishes c \<and> (\<forall>d. \<not> touches d c)"

abbreviation unpushed :: "deploy_world \<Rightarrow> bool" where
  "unpushed w \<equiv> \<not> dr_pushed (dw_run w)"

text \<open>A program that keeps the invariant while the edge has not been told.\<close>

definition steady :: "(releasePlan option \<times> Deploy option \<Rightarrow> bool) \<Rightarrow> deploy_answers \<Rightarrow> releasePlan \<Rightarrow> string list \<Rightarrow> log \<Rightarrow> deploy_world \<Rightarrow> bool" where
  "steady A x p names lg w \<longleftrightarrow> orderly x p names lg w \<and> unpushed w \<and> A (planned w)"

definition careful :: "(releasePlan option \<times> Deploy option \<Rightarrow> bool) \<Rightarrow> deploy_answers \<Rightarrow> releasePlan \<Rightarrow> string list \<Rightarrow> log \<Rightarrow> 'a deploys \<Rightarrow> bool" where
  "careful A x p names lg n \<longleftrightarrow> triple (steady A x p names lg) n (\<lambda>_. steady A x p names lg)"

named_theorems careful_rules \<open>which programs keep the invariant\<close>

lemma carefulD: "careful A x p names lg n \<Longrightarrow> run_state n w = (r, w') \<Longrightarrow> steady A x p names lg w \<Longrightarrow> steady A x p names lg w'"
  unfolding careful_def triple_def by blast

lemma carefulI: "(\<And>w r w'. run_state n w = (r, w') \<Longrightarrow> steady A x p names lg w \<Longrightarrow> steady A x p names lg w') \<Longrightarrow> careful A x p names lg n"
  unfolding careful_def triple_def by blast

lemma careful_return [careful_rules]: "careful A x p names lg (State_Monad.return y)"
  unfolding careful_def by (rule triple_return)

lemma careful_bind [careful_rules]: "careful A x p names lg n \<Longrightarrow> (\<And>y. careful A x p names lg (g y)) \<Longrightarrow> careful A x p names lg (State_Monad.bind n g)"
  unfolding careful_def by (rule triple_bind)

lemma careful_cases [careful_rules]:
  "careful A x p names lg n \<Longrightarrow> careful A x p names lg n' \<Longrightarrow> careful A x p names lg (if b then n else n')"
  "(\<And>e. careful A x p names lg (f e)) \<Longrightarrow> (\<And>y. careful A x p names lg (g y)) \<Longrightarrow> careful A x p names lg (case r of Inl e \<Rightarrow> f e | Inr y \<Rightarrow> g y)"
  "careful A x p names lg n \<Longrightarrow> (\<And>y. careful A x p names lg (g y)) \<Longrightarrow> careful A x p names lg (case v of None \<Rightarrow> n | Some y \<Rightarrow> g y)"
  "careful A x p names lg (h z) \<Longrightarrow> careful A x p names lg (let y = z in h y)"
  by (auto split: sum.split option.split)

lemma careful_and_then [careful_rules]:
  "careful A x p names lg n \<Longrightarrow> (\<And>y. careful A x p names lg (g y)) \<Longrightarrow> careful A x p names lg (and_then n g)"
  unfolding and_then_def by (intro careful_rules)

lemma careful_gentle:
  assumes "logs n gentle" "pres shown n"
  shows "careful A x p names lg n"
proof (rule carefulI)
  fix w r w' assume run: "run_state n w = (r, w')" and w: "steady A x p names lg w"
  obtain es where es: "wd_log w' = wd_log w @ es" "\<forall>y \<in> set es. gentle (fst y)" using logsD[OF assms(1) run] by blast
  have same: "shown w' = shown w" by (rule presD[OF assms(2) run])
  have "orderly x p names lg w'" using orderly_step[OF _ es(1)] w es(2) same by (simp add: gentle_def steady_def)
  then show "steady A x p names lg w'" using same w by (simp add: shown_def steady_def)
qed

lemma shown_run: "pres dw_run n \<Longrightarrow> pres shown n"
  unfolding shown_def by (drule pres_run)

lemma shown_set_run: "(\<And>r. map (\<lambda>p. (dp_exposed p, dp_fresh p)) (dr_pools (g r)) = map (\<lambda>p. (dp_exposed p, dp_fresh p)) (dr_pools r) \<and> dr_pushed (g r) = dr_pushed r \<and> dr_up (g r) = dr_up r \<and> dr_policy (g r) = dr_policy r) \<Longrightarrow>
    pres shown (set_run g)"
  by (rule pres_set_run) (simp add: shown_def)

lemma gentle_bookkeeping: "logs n bookkeeping \<Longrightarrow> logs n gentle"
proof (erule logs_weaken)
  fix c assume "bookkeeping c"
  then show "gentle c" by (cases c) (auto simp: gentle_def publishes_def touches_def)
qed

lemma careful_bookkeeping: "logs n bookkeeping \<Longrightarrow> pres shown n \<Longrightarrow> careful A x p names lg n"
  by (rule careful_gentle[OF gentle_bookkeeping])

lemma careful_quiet: "logs n bookkeeping \<Longrightarrow> pres dw_run n \<Longrightarrow> careful A x p names lg n"
  by (rule careful_bookkeeping[OF _ shown_run])

lemma careful_small [careful_rules]:
  "careful A x p names lg the_run" "careful A x p names lg the_log" "careful A x p names lg (dnow y)" "careful A x p names lg (update y)"
  "careful A x p names lg (restorePrevious y)" "careful A x p names lg (saveEnv y p')" "careful A x p names lg (putService y s)"
  by (rule careful_quiet; (intro logs_rules pres_rules)?; simp)+

lemma careful_calls [careful_rules]:
  "c \<noteq> DeploySelect \<Longrightarrow> careful A x p names lg (dask y c)" "c \<noteq> DeploySelect \<Longrightarrow> careful A x p names lg (dattempt y c)"
  by (rule careful_quiet; (intro logs_rules pres_rules)?; simp)+

lemma careful_set_run: "(\<And>r. map (\<lambda>p. (dp_exposed p, dp_fresh p)) (dr_pools (g r)) = map (\<lambda>p. (dp_exposed p, dp_fresh p)) (dr_pools r) \<and> dr_pushed (g r) = dr_pushed r \<and> dr_up (g r) = dr_up r \<and> dr_policy (g r) = dr_policy r) \<Longrightarrow>
    careful A x p names lg (set_run g)"
  by (rule careful_bookkeeping[OF logs_small(2) shown_set_run])

lemma careful_set_d [careful_rules]: "careful A x p names lg (set_d f)"
  unfolding set_d_def by (rule careful_set_run) simp

lemma careful_ignore [careful_rules]: "careful A x p names lg n \<Longrightarrow> careful A x p names lg (ignore n)"
  unfolding ignore_def by (intro careful_rules)

lemma careful_dstep [careful_rules]: "careful A x p names lg (dstep_at y name st svc t)"
  unfolding dstep_at_def by (intro careful_rules) simp

lemma shown_finish: "pres shown (finish y)"
  unfolding finish_def syncRollouts_def set_d_def
  by (intro pres_rules shown_run[OF pres_the_run] shown_run[OF pres_now(2)] shown_run[OF pres_stores(1)] shown_run[OF pres_stores(2)] shown_set_run)
    (auto simp: pres_def shown_def)

lemma careful_finish [careful_rules]: "careful A x p names lg (finish y)"
  by (rule careful_bookkeeping[OF logs_finish shown_finish])

section \<open>Taking back\<close>

lemma removeFresh_pools:
  assumes "run_state (removeFresh y m) w = (u, w')"
  shows "run_pools w' = map (\<lambda>p. if dp_exposed p then p\<lparr>dp_fresh := []\<rparr> else p) (run_pools w)" "dr_pushed (dw_run w') = dr_pushed (dw_run w)"
    "planned w' = planned w"
proof -
  obtain n w1 where "run_state (stop_all y m (fresh_exposed (run_pools w))) w = (n, w1)"
    "w' = w1\<lparr>dw_run := (dw_run w1)\<lparr>dr_pools := map (\<lambda>p. if dp_exposed p then p\<lparr>dp_fresh := []\<rparr> else p) (run_pools w1)\<rparr>\<rparr>"
    using assms by (auto simp: removeFresh_def run_the_run set_run_def elim!: bind_runE)
  moreover have "dw_run w1 = dw_run w" using presD[OF pres_stop_all calculation(1)] .
  ultimately show "run_pools w' = map (\<lambda>p. if dp_exposed p then p\<lparr>dp_fresh := []\<rparr> else p) (run_pools w)" "dr_pushed (dw_run w') = dr_pushed (dw_run w)"
    "planned w' = planned w" by simp_all
qed

lemma careful_removeFresh [careful_rules]: "careful A x p names lg (removeFresh y m)"
proof (rule carefulI)
  fix w r w' assume run: "run_state (removeFresh y m) w = (r, w')" and w: "steady A x p names lg w"
  obtain es where es: "wd_log w = lg @ es" "deployed_in_order x p names lg es" "fresh_new x (upPlan.truncate p) lg es (run_pools w)"
    using w by (auto simp: steady_def orderly_def)
  obtain es' where es': "wd_log w' = wd_log w @ es'"
    "\<forall>y \<in> set es'. \<forall>c. touches c (fst y) \<longrightarrow> (\<exists>rep \<in> set (fresh_exposed (run_pools w)). rp_Container rep = c \<and> c \<noteq> [])"
    using logs_removeFresh_run[OF run] by blast
  have "logs (removeFresh y m) (\<lambda>c. \<not> publishes c)" unfolding removeFresh_def by (intro logs_rules) (auto simp: publishes_def)
  then have quiet: "\<forall>y \<in> set es'. \<not> publishes (fst y)" using logsD[OF _ run] es'(1) by fastforce
  have "is_new x (upPlan.truncate p) lg es c" if "y \<in> set es'" "touches c (fst y)" for y c
    using es'(2) that es(3) by (fastforce simp: fresh_new_def)
  then have "deployed_in_order x p names lg (es @ es')" using ordered_append[OF es(2), of es'] quiet by blast
  moreover have "fresh_new x (upPlan.truncate p) lg (es @ es') (run_pools w')"
    using fresh_new_extend[OF es(3)] by (auto simp: removeFresh_pools(1)[OF run] fresh_new_def)
  ultimately show "steady A x p names lg w'"
    using es(1) es'(1) w removeFresh_pools(2-)[OF run] by (auto simp: steady_def orderly_def)
qed

lemma careful_unpushed:
  assumes "careful A x p names lg n"
  shows "careful A x p names lg (do { r \<leftarrow> the_run; (if dr_pushed r then n' else n) })"
proof (rule carefulI)
  fix w r w' assume "run_state (do { r \<leftarrow> the_run; (if dr_pushed r then n' else n) }) w = (r, w')" and w: "steady A x p names lg w"
  then have "run_state n w = (r, w')" by (auto simp: run_the_run steady_def elim!: bind_runE)
  then show "steady A x p names lg w'" using carefulD[OF assms] w by blast
qed

lemma careful_fail [careful_rules]: "careful A x p names lg (fail y m name e)"
  unfolding fail_def by (intro careful_unpushed careful_rules)

lemma careful_setStatus [careful_rules]: "careful A x p names lg (setStatus y m st)"
  unfolding setStatus_def by (intro careful_rules)

lemma fail_Inl:
  assumes "run_state (fail x m name e) w = (r, w')" "unpushed w"
  shows "r = Inl e"
  using assms by (auto simp: fail_def run_the_run elim!: bind_runE)

lemma setStatus_Inr:
  assumes "run_state (setStatus x m st) w = (Inr u, w')" "unpushed w"
  shows "dw_run w' = (dw_run w)\<lparr>dr_d := (dr_d (dw_run w))\<lparr>dd_Status := st\<rparr>\<rparr>"
proof -
  obtain w1 v w2 where w1: "w1 = w\<lparr>dw_run := (dw_run w)\<lparr>dr_d := (dr_d (dw_run w))\<lparr>dd_Status := st\<rparr>\<rparr>\<rparr>" "run_state (update x) w1 = (v, w2)"
    "run_state (case v of Inr _ \<Rightarrow> State_Monad.return (Inr ()) | Inl e \<Rightarrow> do { r \<leftarrow> the_run; fail x m (lastStep (dr_d r)) e }) w2 = (Inr u, w')"
    using assms(1) by (auto simp: setStatus_def set_d_def set_run_def elim!: bind_runE)
  have same: "dw_run w2 = dw_run w1" by (rule presD[OF pres_stores(1) w1(2)])
  then have "unpushed w2" using w1(1) assms(2) by simp
  then have "w' = w2" using w1(3) by (cases v) (auto simp: run_the_run elim!: bind_runE dest: fail_Inl)
  then show ?thesis using same w1(1) by simp
qed

section \<open>The log only grows\<close>

definition grows :: "'a deploys \<Rightarrow> bool" where
  "grows n \<longleftrightarrow> (\<forall>w r w'. run_state n w = (r, w') \<longrightarrow> (\<exists>es. wd_log w' = wd_log w @ es))"

named_theorems grows_rules \<open>which programs only add to the log\<close>

lemma growsD: "grows n \<Longrightarrow> run_state n w = (r, w') \<Longrightarrow> \<exists>es. wd_log w' = wd_log w @ es"
  unfolding grows_def by blast

lemma grows_logs: "logs n P \<Longrightarrow> grows n"
  unfolding grows_def logs_def by metis

lemma grows_State: "(\<And>w. wd_log (snd (f w)) = wd_log w) \<Longrightarrow> grows (State f)"
  unfolding grows_def by (metis append_Nil2 snd_conv state.sel)

lemma grows_return [grows_rules]: "grows (State_Monad.return y)"
  by (rule grows_logs[OF logs_return])

lemma grows_bind [grows_rules]: "grows n \<Longrightarrow> (\<And>y. grows (g y)) \<Longrightarrow> grows (State_Monad.bind n g)"
  unfolding grows_def by (fastforce elim!: bind_runE)

lemma grows_cases [grows_rules]:
  "grows n \<Longrightarrow> grows n' \<Longrightarrow> grows (if b then n else n')"
  "(\<And>e. grows (f e)) \<Longrightarrow> (\<And>y. grows (g y)) \<Longrightarrow> grows (case r of Inl e \<Rightarrow> f e | Inr y \<Rightarrow> g y)"
  "grows n \<Longrightarrow> (\<And>y. grows (g y)) \<Longrightarrow> grows (case v of None \<Rightarrow> n | Some y \<Rightarrow> g y)"
  "(\<And>a b. grows (k a b)) \<Longrightarrow> grows (case q of (a, b) \<Rightarrow> k a b)"
  "grows (h z) \<Longrightarrow> grows (let y = z in h y)"
  by (auto split: sum.split option.split prod.split)

lemma grows_and_then [grows_rules]: "grows n \<Longrightarrow> (\<And>y. grows (g y)) \<Longrightarrow> grows (and_then n g)"
  unfolding and_then_def by (intro grows_rules)

lemma grows_small [grows_rules]:
  "grows the_run" "grows the_log" "grows (dnow x)" "grows (dask x c)" "grows (dattempt x c)" "grows (set_run f)" "grows (set_d g)" "grows (update x)"
  "grows (dstep_at x name st svc t)" "grows (finish x)" "grows (restorePrevious x)" "grows (removeFresh x m)" "grows (pushPools x m)"
  "grows (clear_env_deploy x)" "grows (saveEnv x p)" "grows (putService x s)" "grows (wait_drained x m t reps)"
  by (rule grows_logs[where P = "\<lambda>_. True"], (intro logs_rules; simp) | rule grows_logs, rule logs_rules | rule grows_logs, rule logs_removeFresh)+

lemma grows_acting [grows_rules]: "grows n \<Longrightarrow> grows (acting n)"
  unfolding acting_def by (intro grows_rules)

lemma grows_ignore [grows_rules]: "grows n \<Longrightarrow> grows (ignore n)"
  unfolding ignore_def by (intro grows_rules)

lemma grows_rollback [grows_rules]: "grows (rollback x m reason)"
  unfolding rollback_def rollbackFailed_def rollback_rest_def by (intro grows_rules)

lemma grows_fail [grows_rules]: "grows (fail x m name e)"
  unfolding fail_def by (intro grows_rules)

lemma grows_setStatus [grows_rules]: "grows (setStatus x m st)"
  unfolding setStatus_def by (intro grows_rules)

section \<open>Before the new replicas\<close>

lemma careful_missingImages [careful_rules]: "careful A x p names lg (missingImages y rel)"
proof -
  have "careful A x p names lg (missing_images y refs)" for refs by (induction refs) (auto intro!: careful_rules)
  then show ?thesis unfolding missingImages_def by (intro careful_rules)
qed

lemma careful_build: "careful (\<lambda>_. True) x p names lg (build y m rel)"
proof -
  have "careful (\<lambda>_. True) x p names lg (set_run (\<lambda>r. r\<lparr>dr_up := u, dr_policy := v\<rparr>))" for u v
    by (auto simp: careful_def triple_def steady_def orderly_def set_run_def)
  then have plan: "careful (\<lambda>_. True) x p names lg (plan y m)" unfolding plan_def by (intro careful_rules) simp_all
  have "careful (\<lambda>_. True) x p names lg (use_release y m st r)" for st r unfolding use_release_def setRelease_def by (intro careful_rules plan)
  then show ?thesis unfolding build_def by (intro careful_rules) simp_all
qed

lemma careful_one_off: "careful A x p names lg (one_off y m name cmd)"
  unfolding one_off_def by (intro careful_rules) simp_all

lemma careful_commands: "careful A x p names lg (migrate y m)" "careful A x p names lg (check y m)"
  unfolding migrate_def check_def by (intro careful_rules careful_one_off)+

section \<open>Bringing up the new replicas\<close>

lemma map_update_same: "(\<And>z. f (g z) = f z) \<Longrightarrow> map f (zs[k := g (zs ! k)]) = map f zs"
  by (cases "k < length zs") (simp_all add: map_update list_update_same_conv list_update_beyond)

lemma in_pool_run:
  assumes "run_state (in_pool k n) w = (y, w')"
  obtains v v' where "run_state n v = (y, v')" "wd_log v = wd_log w" "wd_log w' = wd_log v'" "shown w' = shown w"
    "wd_store v = wd_store w" "wd_store w' = wd_store v'"
proof -
  let ?v = "\<lparr>wd_store = wd_store w, wd_log = wd_log w, wd_roll = dp_roll (run_pools w ! k), wd_svc = no_service (dp_service (run_pools w ! k))\<rparr>"
  obtain z v' where run: "run_state n ?v = (z, v')" by (cases "run_state n ?v") auto
  then have "z = y" "w' = w\<lparr>wd_store := wd_store v', wd_log := wd_log v',
      dw_run := (dw_run w)\<lparr>dr_pools := (run_pools w)[k := (run_pools w ! k)\<lparr>dp_roll := wd_roll v'\<rparr>]\<rparr>\<rparr>"
    using assms by (auto simp: in_pool_def in_roll_def set_pool_def set_run_def run_the_run elim!: bind_runE)
  then show thesis using that[OF run[unfolded \<open>z = y\<close>]] by (auto simp: shown_def map_update_same[of _ "\<lambda>pool. pool\<lparr>dp_roll := wd_roll v'\<rparr>"])
qed

lemma startReplica_container:
  assumes "run_state (startReplica a p s i) w = (r, w')"
  shows "(case r of Inl (rep, e) \<Rightarrow> \<forall>q. rep = Some q \<longrightarrow> rp_Container q = container_of p s i | Inr rep \<Rightarrow> rp_Container rep = container_of p s i)"
  using assms
  by (auto simp: startReplica_def with_rep_def fresh_replica_def container_of_def Let_def split: sum.split_asm elim!: bind_runE and_then_runE)

lemma bringUpReplica_container:
  assumes "run_state (bringUpReplica a p s i) w = (r, w')"
  shows "(case r of Inl (rep, e) \<Rightarrow> \<forall>q. rep = Some q \<longrightarrow> rp_Container q = container_of p s i | Inr rep \<Rightarrow> rp_Container rep = container_of p s i)"
proof -
  obtain r0 w1 where run: "run_state (startReplica a p s i) w = (r0, w1)" using assms by (auto simp: bringUpReplica_def elim!: bind_runE)
  show ?thesis using startReplica_container[OF run] assms run
    by (auto simp: bringUpReplica_def Let_def split: sum.split_asm elim!: bind_runE)
qed

definition new_at :: "deploy_answers \<Rightarrow> upPlan \<Rightarrow> log \<Rightarrow> deploy_world \<Rightarrow> string \<Rightarrow> bool" where
  "new_at x p lg w c \<longleftrightarrow> (\<exists>es. wd_log w = lg @ es \<and> is_new x p lg es c)"

lemma new_at_extend: "new_at x p lg w c \<Longrightarrow> wd_log w' = wd_log w @ es \<Longrightarrow> new_at x p lg w' c"
  unfolding new_at_def using is_new_extend by fastforce

text \<open>One replica: the containers that are taken away are its own.\<close>

lemma bring_up_one:
  assumes "run_state (in_pool k (bringUpReplica (dx_base x) (upPlan.truncate p) s i)) w = (y, w')" "steady A x p names lg w"
    and new: "new_at x (upPlan.truncate p) lg w (container_of (upPlan.truncate p) s i)"
  obtains es where "wd_log w' = wd_log w @ es" "steady A x p names lg w'"
    "case y of Inl (rep, e) \<Rightarrow> \<forall>q. rep = Some q \<longrightarrow> rp_Container q = container_of (upPlan.truncate p) s i
       | Inr rep \<Rightarrow> rp_Container rep = container_of (upPlan.truncate p) s i \<and> (\<exists>port. ready (upPlan.truncate p) s i port es)"
proof -
  let ?p = "upPlan.truncate p"
  obtain v v' where run: "run_state (bringUpReplica (dx_base x) ?p s i) v = (y, v')" "wd_log v = wd_log w" "wd_log w' = wd_log v'" "shown w' = shown w"
    using in_pool_run[OF assms(1)] .
  obtain es where es: "wd_log w' = wd_log w @ es" "\<forall>y \<in> set es. bringup_call ?p s {i} (fst y)"
    using logsD[OF logs_bringUpReplica[of i "{i}"] run(1)] run(2,3) by auto
  obtain es0 where es0: "wd_log w = lg @ es0" "deployed_in_order x p names lg es0" "fresh_new x ?p lg es0 (run_pools w)"
    using assms(2) by (auto simp: steady_def orderly_def)
  have calls: "\<not> publishes c \<and> (\<forall>d. touches d c \<longrightarrow> d = container_of ?p s i)" if "bringup_call ?p s {i} c" for c
    using that by (cases c) (auto simp: publishes_def touches_def)
  have "is_new x ?p lg es0 (container_of ?p s i)" using new es0(1) by (auto simp: new_at_def)
  then have "deployed_in_order x p names lg (es0 @ es)" using ordered_append[OF es0(2), of es] es(2) calls by blast
  moreover have "fresh_new x ?p lg (es0 @ es) (run_pools w')"
    using fresh_new_extend[OF es0(3)] fresh_new_shown[of "run_pools w'" "run_pools w"] run(4) by (simp add: shown_def)
  ultimately have "steady A x p names lg w'" using es(1) es0(1) run(4) assms(2) by (auto simp: steady_def orderly_def shown_def)
  moreover have "\<exists>port. ready ?p s i port es" if "y = Inr rep" for rep
    using bringUpReplica_Inr[OF run(1)[unfolded that]] es(1) run(2,3) by auto
  ultimately show thesis using that[OF es(1)] bringUpReplica_container[OF run(1)] by (auto split: sum.splits)
qed

lemma steady_set:
  assumes "steady A x p names lg w" "run_state (set_pool k f) w = (u, w')"
    and "\<forall>q. dp_exposed (f (run_pools w ! k)) \<and> q \<in> set (dp_fresh (f (run_pools w ! k))) \<longrightarrow>
      dp_exposed (run_pools w ! k) \<and> q \<in> set (dp_fresh (run_pools w ! k)) \<or> new_at x (upPlan.truncate p) lg w (rp_Container q)"
  shows "steady A x p names lg w'" "wd_log w' = wd_log w"
proof -
  have w': "w' = w\<lparr>dw_run := (dw_run w)\<lparr>dr_pools := (run_pools w)[k := f (run_pools w ! k)]\<rparr>\<rparr>"
    using assms(2) by (auto simp: set_pool_def set_run_def)
  obtain es0 where es0: "wd_log w = lg @ es0" "deployed_in_order x p names lg es0" "fresh_new x (upPlan.truncate p) lg es0 (run_pools w)"
    using assms(1) by (auto simp: steady_def orderly_def)
  have "fresh_new x (upPlan.truncate p) lg es0 ((run_pools w)[k := f (run_pools w ! k)])"
  proof (cases "k < length (run_pools w)")
    case True
    have "is_new x (upPlan.truncate p) lg es0 (rp_Container q)" if "dp_exposed (f (run_pools w ! k))" "q \<in> set (dp_fresh (f (run_pools w ! k)))" for q
    proof -
      have "dp_exposed (run_pools w ! k) \<and> q \<in> set (dp_fresh (run_pools w ! k)) \<or> new_at x (upPlan.truncate p) lg w (rp_Container q)" using assms(3) that by blast
      then show ?thesis using es0(1,3) nth_mem[OF True] by (auto simp: fresh_new_def new_at_def)
    qed
    then show ?thesis using es0(3) set_update_subset_insert[of "run_pools w" k "f (run_pools w ! k)"] unfolding fresh_new_def by blast
  next
    case False
    then show ?thesis using es0(3) by (simp add: list_update_beyond)
  qed
  then show "steady A x p names lg w'" "wd_log w' = wd_log w" using es0(1,2) assms(1) by (auto simp: steady_def orderly_def w')
qed

lemma steady_set_pool:
  assumes "steady A x p names lg w" "\<forall>q \<in> set qs. new_at x (upPlan.truncate p) lg w (rp_Container q)"
    and "run_state (set_pool k (\<lambda>pool. pool\<lparr>dp_fresh := dp_fresh pool @ qs\<rparr>)) w = (u, w')"
  shows "steady A x p names lg w'" "wd_log w' = wd_log w"
  using steady_set[OF assms(1,3)] assms(2) by auto

lemma bring_up_steady:
  assumes "run_state (bring_up x p s k is) w = (r, w')" "steady A x p names lg w"
    and "\<forall>i \<in> set is. new_at x (upPlan.truncate p) lg w (container_of (upPlan.truncate p) s i)"
  shows "\<exists>es. wd_log w' = wd_log w @ es \<and> steady A x p names lg w' \<and> (\<forall>u. r = Inr u \<longrightarrow> ready_all (upPlan.truncate p) s (set is) es)"
  using assms
proof (induction "is" arbitrary: w)
  case Nil
  then show ?case by (auto simp: ready_all_def)
next
  case (Cons i "is")
  obtain y w1 where run: "run_state (in_pool k (bringUpReplica (dx_base x) (upPlan.truncate p) s i)) w = (y, w1)"
    "run_state (case y of
        Inl (rep, e) \<Rightarrow> do {
          _ \<leftarrow> set_pool k (\<lambda>pool. pool\<lparr>dp_fresh := dp_fresh pool @ (case rep of None \<Rightarrow> [] | Some rep \<Rightarrow> [rep])\<rparr>);
          State_Monad.return (Inl (RunAct e)) }
      | Inr rep \<Rightarrow> do {
          _ \<leftarrow> set_pool k (\<lambda>pool. pool\<lparr>dp_fresh := dp_fresh pool @ [rep]\<rparr>);
          bring_up x p s k is }) w1 = (r, w')"
    using Cons.prems(1) by (auto elim!: bind_runE)
  have new: "new_at x (upPlan.truncate p) lg w (container_of (upPlan.truncate p) s i)" using Cons.prems(3) by simp
  obtain es where es: "wd_log w1 = wd_log w @ es" "steady A x p names lg w1"
    "case y of Inl (rep, e) \<Rightarrow> \<forall>q. rep = Some q \<longrightarrow> rp_Container q = container_of (upPlan.truncate p) s i
       | Inr rep \<Rightarrow> rp_Container rep = container_of (upPlan.truncate p) s i \<and> (\<exists>port. ready (upPlan.truncate p) s i port es)"
    using bring_up_one[OF run(1) Cons.prems(2) new] .
  have new1: "new_at x (upPlan.truncate p) lg w1 (container_of (upPlan.truncate p) s i)" using new_at_extend[OF new es(1)] .
  show ?case
  proof (cases y)
    case (Inl err)
    obtain rep e where err: "err = (rep, e)" by (cases err)
    let ?qs = "case rep of None \<Rightarrow> [] | Some rep \<Rightarrow> [rep]"
    have run': "run_state (set_pool k (\<lambda>pool. pool\<lparr>dp_fresh := dp_fresh pool @ ?qs\<rparr>)) w1 = ((), w')" "r = Inl (RunAct e)"
      using run(2) by (auto simp: Inl err elim!: bind_runE)
    have "\<forall>q \<in> set ?qs. new_at x (upPlan.truncate p) lg w1 (rp_Container q)" using es(3) new1 by (auto simp: Inl err split: option.splits)
    then show ?thesis using steady_set_pool[OF es(2) _ run'(1)] es(1) run'(2) by auto
  next
    case (Inr rep)
    obtain w2 where run': "run_state (set_pool k (\<lambda>pool. pool\<lparr>dp_fresh := dp_fresh pool @ [rep]\<rparr>)) w1 = ((), w2)" "run_state (bring_up x p s k is) w2 = (r, w')"
      using run(2) by (auto simp: Inr elim!: bind_runE)
    have w2: "steady A x p names lg w2" "wd_log w2 = wd_log w1" using steady_set_pool[OF es(2) _ run'(1)] es(3) new1 by (auto simp: Inr)
    have log2: "wd_log w2 = wd_log w @ es" using w2(2) es(1) by simp
    have "\<forall>i \<in> set is. new_at x (upPlan.truncate p) lg w2 (container_of (upPlan.truncate p) s i)"
      using Cons.prems(3) new_at_extend[OF _ log2] by simp
    then obtain es' where es': "wd_log w' = wd_log w2 @ es'" "steady A x p names lg w'" "\<forall>u. r = Inr u \<longrightarrow> ready_all (upPlan.truncate p) s (set is) es'"
      using Cons.IH[OF run'(2) w2(1)] by blast
    obtain port where "ready (upPlan.truncate p) s i port es" using es(3) by (auto simp: Inr)
    then have "ready (upPlan.truncate p) s i port (es @ es')" by (rule ready_mono) simp
    moreover have "ready_all (upPlan.truncate p) s (set is) (es @ es')" if "r = Inr u" for u
      using es'(3) that ready_mono[of _ _ _ _ es' "es @ es'"] unfolding ready_all_def by fastforce
    ultimately have "\<forall>u. r = Inr u \<longrightarrow> ready_all (upPlan.truncate p) s (set (i # is)) (es @ es')" by (auto simp: ready_all_def)
    then show ?thesis using es' log2 by (intro exI[of _ "es @ es'"]) simp
  qed
qed

lemma careful_set_pool [careful_rules]:
  "(\<And>pool. dp_exposed (f pool) = dp_exposed pool \<and> dp_fresh (f pool) = dp_fresh pool) \<Longrightarrow> careful A x p names lg (set_pool k f)"
  unfolding set_pool_def by (rule careful_set_run) (auto intro!: map_update_same)

lemma list_live_log:
  assumes "run_state (list_live a app env service) w = (Inr lv, w')"
  shows "wd_log w' = wd_log w @ [(CallList service, None)]"
  using assms by (auto simp: list_live_def the_log_def run_simps)

lemma shown_acting_list: "pres dw_run (list_live a app env service)"
  unfolding list_live_def by (intro pres_rules)

lemma careful_list [careful_rules]: "careful A x p names lg (acting (list_live a app env service))"
proof (rule careful_gentle)
  show "logs (acting (list_live a app env service)) gentle" by (intro logs_rules) (simp add: gentle_def publishes_def touches_def)
  show "pres shown (acting (list_live a app env service))" by (intro shown_run pres_acting shown_acting_list)
qed

lemma replicas_upI:
  assumes "wd_log w = lg @ l0" "wd_log w' = wd_log w @ (CallList (plan_name s), None) # l1" "ready_all p s (set (new_indexes (dx_base x) p s (wd_log w))) l1"
  shows "\<exists>es. wd_log w' = lg @ es \<and> replicas_up x p lg s es"
  using assms unfolding replicas_up_def by (intro exI[of _ "l0 @ (CallList (plan_name s), None) # l1"]) auto

definition came_up :: "deploy_answers \<Rightarrow> upPlan \<Rightarrow> log \<Rightarrow> svcRollPlan \<Rightarrow> deploy_world \<Rightarrow> bool" where
  "came_up x p lg s w \<longleftrightarrow> (\<exists>es. wd_log w = lg @ es \<and> replicas_up x p lg s es)"

lemma came_up_extend: "came_up x p lg s w \<Longrightarrow> wd_log w' = wd_log w @ es \<Longrightarrow> came_up x p lg s w'"
  unfolding came_up_def using replicas_up_extend by fastforce

text \<open>The part after the replicas have been listed.\<close>

lemma fill_rest_steady:
  assumes "run_state (and_then (dattempt x (DeployService (plan_name s))) (\<lambda>_. do {
        _ \<leftarrow> dnow x;
        _ \<leftarrow> dstep_at x StepReplicas StepStarted (plan_name s) 0;
        bring_up x p s k is })) w = (r, w')" "steady A x p names lg w"
    and new: "\<forall>i \<in> set is. new_at x (upPlan.truncate p) lg w (container_of (upPlan.truncate p) s i)"
  shows "\<exists>es. wd_log w' = wd_log w @ es \<and> steady A x p names lg w' \<and> (\<forall>u. r = Inr u \<longrightarrow> ready_all (upPlan.truncate p) s (set is) es)"
  using assms(1)
proof (cases rule: and_then_runE)
  case (1 e)
  then show ?thesis using carefulD[OF careful_calls(2) 1(1) assms(2)] growsD[OF grows_small(5) 1(1)] by auto
next
  case (2 u w3)
  let ?n = "do { _ \<leftarrow> dnow x; dstep_at x StepReplicas StepStarted (plan_name s) 0 }"
  obtain w4 where w4: "run_state ?n w3 = ((), w4)" "run_state (bring_up x p s k is) w4 = (r, w')"
    using 2(2) by (auto simp: bind_run elim!: bind_runE)
  have st3: "steady A x p names lg w3" by (rule carefulD[OF careful_calls(2) 2(1) assms(2)]) simp
  have "careful A x p names lg ?n" by (intro careful_rules)
  then have st4: "steady A x p names lg w4" using carefulD[OF _ w4(1) st3] by blast
  have "grows ?n" by (intro grows_rules)
  then obtain es4 where es4: "wd_log w4 = wd_log w @ es4" using growsD[OF _ w4(1)] growsD[OF grows_small(5) 2(1)] by fastforce
  have "\<forall>i \<in> set is. new_at x (upPlan.truncate p) lg w4 (container_of (upPlan.truncate p) s i)" using new new_at_extend[OF _ es4] by blast
  then obtain es5 where es5: "wd_log w' = wd_log w4 @ es5" "steady A x p names lg w'" "\<forall>u. r = Inr u \<longrightarrow> ready_all (upPlan.truncate p) s (set is) es5"
    using bring_up_steady[OF w4(2) st4] by blast
  then have "ready_all (upPlan.truncate p) s (set is) (es4 @ es5)" if "r = Inr u" for u
    using that ready_mono[of _ _ _ _ es5 "es4 @ es5"] unfolding ready_all_def by fastforce
  then show ?thesis using es4 es5(1,2) by (intro exI[of _ "es4 @ es5"]) simp
qed

lemma fill_pool_steady:
  assumes "run_state (fill_pool x m p s k) w = (r, w')" "steady A x p names lg w"
  shows "steady A x p names lg w' \<and> (\<forall>u. r = Inr u \<longrightarrow> came_up x (upPlan.truncate p) lg s w')"
proof (cases "fits (up_layout p) (plan_name s) (2 * replicaCount (up_cfg p) (plan_name s))")
  case (Inl e)
  then show ?thesis using assms by (auto simp: fill_pool_def)
next
  case (Inr u)
  let ?p = "upPlan.truncate p"
  let ?rest = "\<lambda>found. do {
      _ \<leftarrow> set_pool k (\<lambda>pool. pool\<lparr>dp_held := replicasOf (plan_name s) (up_layout p) (runningReplicas (numbered found)) ReplicaDraining\<rparr>);
      and_then (dattempt x (DeployService (plan_name s))) (\<lambda>_. do {
        _ \<leftarrow> dnow x;
        _ \<leftarrow> dstep_at x StepReplicas StepStarted (plan_name s) 0;
        bring_up x p s k (freeIndexes (runningReplicas (numbered found)) (replicaCount (up_cfg p) (plan_name s))) }) }"
  have run: "run_state (and_then (acting (list_live (dx_base x) (up_app p) (up_env p) (plan_name s))) ?rest) w = (r, w')"
    using assms(1) by (simp add: fill_pool_def Inr Let_def)
  from run show ?thesis
  proof (cases rule: and_then_runE)
    case (1 e)
    then show ?thesis using carefulD[OF careful_list 1(1) assms(2)] by simp
  next
    case (2 found w1)
    have live: "run_state (list_live (dx_base x) (up_app p) (up_env p) (plan_name s)) w = (Inr found, w1)"
      using 2(1) by (auto simp: acting_def elim!: bind_runE split: sum.splits)
    have w1: "steady A x p names lg w1" "wd_log w1 = wd_log w @ [(CallList (plan_name s), None)]"
      using carefulD[OF careful_list 2(1) assms(2)] list_live_log[OF live] by auto
    have old: "runningReplicas (numbered found) = old_replicas (dx_base x) ?p s (wd_log w)"
      using list_live_Inr[OF live] by (simp add: old_replicas_def live_replicas_def upPlan.truncate_def)
    have idx: "freeIndexes (runningReplicas (numbered found)) (replicaCount (up_cfg p) (plan_name s)) = new_indexes (dx_base x) ?p s (wd_log w)"
      unfolding old new_indexes_def by (simp add: upPlan.truncate_def)
    obtain l0 where l0: "wd_log w = lg @ l0" using assms(2) by (auto simp: steady_def orderly_def)
    have new: "new_at x ?p lg w1 (container_of ?p s i)" if "i \<in> set (new_indexes (dx_base x) ?p s (wd_log w))" for i
    proof -
      have "container_of ?p s i \<notin> re_container ` set (old_replicas (dx_base x) ?p s (lg @ l0))"
        unfolding l0[symmetric] using old_not_new(1)[of _ "dx_base x" ?p s "wd_log w"] imageI[OF that, of "container_of ?p s"] by fastforce
      then have "is_new x ?p lg (l0 @ [(CallList (plan_name s), None)]) (container_of ?p s i)"
        unfolding is_new_def using that l0 by (intro exI[of _ l0] exI[of _ "[]"] exI[of _ s]) auto
      then show ?thesis using w1(2) l0 by (simp add: new_at_def)
    qed
    obtain w2 where w2: "run_state (set_pool k (\<lambda>pool. pool\<lparr>dp_held := replicasOf (plan_name s) (up_layout p) (runningReplicas (numbered found)) ReplicaDraining\<rparr>)) w1 = ((), w2)"
      "run_state (and_then (dattempt x (DeployService (plan_name s))) (\<lambda>_. do {
        _ \<leftarrow> dnow x;
        _ \<leftarrow> dstep_at x StepReplicas StepStarted (plan_name s) 0;
        bring_up x p s k (freeIndexes (runningReplicas (numbered found)) (replicaCount (up_cfg p) (plan_name s))) })) w2 = (r, w')"
      using 2(2) by (auto elim!: bind_runE)
    have st2: "steady A x p names lg w2" by (rule carefulD[OF careful_set_pool w2(1) w1(1)]) simp
    have log2: "wd_log w2 = wd_log w1" using w2(1) by (auto simp: set_pool_def set_run_def)
    have "\<forall>i \<in> set (new_indexes (dx_base x) ?p s (wd_log w)). new_at x ?p lg w2 (container_of ?p s i)"
      using new new_at_extend[of x ?p lg w1 _ w2 "[]"] log2 by simp
    then obtain es where es: "wd_log w' = wd_log w2 @ es" "steady A x p names lg w'" "\<forall>u. r = Inr u \<longrightarrow> ready_all ?p s (set (new_indexes (dx_base x) ?p s (wd_log w))) es"
      using fill_rest_steady[OF w2(2)[unfolded idx] st2] by blast
    have "wd_log w' = wd_log w @ (CallList (plan_name s), None) # es" using es(1) log2 w1(2) by simp
    from replicas_upI[OF l0 this] show ?thesis using es(2,3) by (auto simp: came_up_def)
  qed
qed

lemma steady_append_pool:
  assumes "steady A x p names lg w" "dp_fresh pool = []"
  shows "steady A x p names lg (w\<lparr>dw_run := (dw_run w)\<lparr>dr_pools := dr_pools (dw_run w) @ [pool]\<rparr>\<rparr>)"
  using assms by (auto simp: steady_def orderly_def fresh_new_def)

abbreviation (input) routed :: "releasePlan \<Rightarrow> svcRollPlan \<Rightarrow> bool" where
  "routed p s \<equiv> plan_name s \<in> fst ` set (rp_routes p)"

lemma new_pool_facts: "dp_fresh (new_pool p s) = []" "dp_exposed (new_pool p s) \<longleftrightarrow> routed p s"
  using map_of_eq_None_iff[of "rp_routes p" "plan_name s"] by (auto simp: new_pool_def split: option.splits)

lemma start_service_steady:
  assumes "run_state (start_service x m p s) w = (r, w')" "steady A x p names lg w"
  shows "steady A x p names lg w' \<and> (\<forall>u. r = Inr u \<longrightarrow> routed p s \<longrightarrow> came_up x (upPlan.truncate p) lg s w')"
proof -
  let ?w1 = "w\<lparr>dw_run := (dw_run w)\<lparr>dr_pools := dr_pools (dw_run w) @ [new_pool p s]\<rparr>\<rparr>"
  have st1: "steady A x p names lg ?w1" by (rule steady_append_pool[OF assms(2) new_pool_facts(1)])
  show ?thesis
  proof (cases "routed p s")
    case False
    have run: "run_state (dstep_at x StepReplicas StepSkipped (plan_name s) 0) ?w1 = ((), w')"
      using assms(1) False by (auto simp: start_service_def new_pool_facts run_the_run set_run_def elim!: bind_runE)
    then show ?thesis using carefulD[OF careful_dstep run st1] False by auto
  next
    case True
    obtain y w2 where run: "run_state (fill_pool x m p s (length (run_pools w))) ?w1 = (y, w2)"
      "run_state (case y of Inl e \<Rightarrow> fail x m StepReplicas e
         | Inr _ \<Rightarrow> do { _ \<leftarrow> dnow x; _ \<leftarrow> dstep_at x StepReplicas StepOK (plan_name s) 0; State_Monad.return (Inr ()) }) w2 = (r, w')"
      using assms(1) True by (auto simp: start_service_def new_pool_facts run_the_run set_run_def elim!: bind_runE)
    have fill: "steady A x p names lg w2" "\<forall>u. y = Inr u \<longrightarrow> came_up x (upPlan.truncate p) lg s w2" using fill_pool_steady[OF run(1) st1] by auto
    show ?thesis
    proof (cases y)
      case (Inl e)
      then have "run_state (fail x m StepReplicas e) w2 = (r, w')" using run(2) by simp
      then show ?thesis using carefulD[OF careful_fail _ fill(1)] fail_Inl[of x m StepReplicas e w2] fill(1) by (auto simp: steady_def)
    next
      case (Inr u)
      let ?n = "do { _ \<leftarrow> dnow x; _ \<leftarrow> dstep_at x StepReplicas StepOK (plan_name s) 0; State_Monad.return (Inr ()) }"
      have run': "run_state ?n w2 = (r, w')" using run(2) Inr by simp
      have "careful A x p names lg ?n" by (intro careful_rules)
      moreover have "logs ?n bookkeeping" by (intro logs_rules) simp
      ultimately obtain es where "wd_log w' = wd_log w2 @ es" "steady A x p names lg w'" using carefulD[OF _ run' fill(1)] logsD[OF _ run'] by blast
      then show ?thesis using fill(2) came_up_extend[of x "upPlan.truncate p" lg s w2 w'] Inr by auto
    qed
  qed
qed

lemma grows_in_pool: "logs n P \<Longrightarrow> grows (in_pool k n)"
  unfolding grows_def by (metis in_pool_run logs_def)

lemma grows_bring_up [grows_rules]: "grows (bring_up x p s k is)"
  by (induction "is")
    (auto simp: set_pool_def intro!: grows_rules grows_in_pool[OF logs_bringUpReplica[of _ UNIV]])

lemma grows_start_services [grows_rules]: "grows (start_services x m p ss)"
proof -
  have "grows (list_live (dx_base x) app env svc)" for app env svc by (rule grows_logs[OF logs_list_live[of "\<lambda>_. True"]]) simp
  then have "grows (start_service x m p s)" for s
    unfolding start_service_def fill_pool_def Let_def set_pool_def by (intro grows_rules)
  then show ?thesis by (induction ss) (auto intro!: grows_rules)
qed

lemma start_services_steady:
  assumes "run_state (start_services x m p ss) w = (r, w')" "steady A x p names lg w"
  shows "steady A x p names lg w' \<and> (\<forall>u. r = Inr u \<longrightarrow> (\<forall>s \<in> set ss. routed p s \<longrightarrow> came_up x (upPlan.truncate p) lg s w'))"
  using assms
proof (induction ss arbitrary: w)
  case (Cons s ss)
  from Cons.prems(1) have "run_state (and_then (start_service x m p s) (\<lambda>_. start_services x m p ss)) w = (r, w')" by simp
  then show ?case
  proof (cases rule: and_then_runE)
    case (1 e)
    then show ?thesis using start_service_steady[OF 1(1) Cons.prems(2)] by auto
  next
    case (2 u w1)
    note one = start_service_steady[OF 2(1) Cons.prems(2)]
    note rest = Cons.IH[OF 2(2) conjunct1[OF one]]
    obtain es where "wd_log w' = wd_log w1 @ es" using growsD[OF grows_start_services 2(2)] by blast
    then show ?thesis using one rest came_up_extend[of x "upPlan.truncate p" lg s w1 w'] by auto
  qed
qed auto

lemma careful_State:
  assumes "\<And>w. wd_log (snd (f w)) = wd_log w \<and> dw_run (snd (f w)) = dw_run w"
  shows "careful A x p names lg (State f)"
proof (rule carefulI)
  fix w r w' assume "run_state (State f) w = (r, w')" "steady A x p names lg w"
  then show "steady A x p names lg w'" using assms[of w] by (simp add: steady_def orderly_def)
qed

lemma careful_plan_routes [careful_rules]: "careful A x p names lg (plan_routes y m p0 wanted)"
  unfolding plan_routes_def
  by (intro careful_rules careful_State) (auto split: prod.splits sum.splits)

lemma grows_plan_routes [grows_rules]: "grows (plan_routes y m p0 wanted)"
  unfolding plan_routes_def by (intro grows_rules grows_State) (auto split: prod.splits sum.splits)

lemma plan_routes_Inr:
  assumes "run_state (plan_routes x m p0 wanted) w = (Inr p, w')"
  shows "upPlan.truncate p = upPlan.truncate p0" "pick p names = pick p0 names"
proof -
  define routes where "routes t w1 = planRoutes (dm_Edge m) t (rows (rd_envs (dw_db w1))) (dw_rec w1) (dx_ip x (wd_log w)) (up_cfg p0) (map plan_name wanted) (wd_store w1)"
    for t and w1 :: deploy_world
  obtain t w1 where "(case routes t w1 of (Inl e, s) \<Rightarrow> (Inl (RunExpose e), w1\<lparr>wd_store := s\<rparr>) | (Inr rs, s) \<Rightarrow> (Inr (p0\<lparr>rp_routes := rs\<rparr>), w1\<lparr>wd_store := s\<rparr>)) = (Inr p, w')"
    using assms unfolding plan_routes_def routes_def by (auto simp: and_then_Inr the_log_def elim!: bind_runE)
  then obtain rs where "p = p0\<lparr>rp_routes := rs\<rparr>" by (cases "routes t w1"; cases "fst (routes t w1)") auto
  moreover have "plan_svc (p0\<lparr>rp_routes := rs\<rparr>) = plan_svc p0" by (rule ext) (simp add: plan_svc_def)
  ultimately show "upPlan.truncate p = upPlan.truncate p0" "pick p names = pick p0 names"
    by (simp_all add: upPlan.truncate_def pick_def)
qed

text \<open>After the replicas: the plan has its routes, and the replicas of all services that are wanted are up.\<close>

definition all_wanted_up :: "deploy_answers \<Rightarrow> releasePlan \<Rightarrow> string list \<Rightarrow> log \<Rightarrow> deploy_world \<Rightarrow> bool" where
  "all_wanted_up x p names lg w \<longleftrightarrow> (\<exists>wanted. pick p names = Inr wanted \<and> (\<forall>s \<in> set wanted. routed p s \<longrightarrow> came_up x (upPlan.truncate p) lg s w))"

abbreviation (input) plan_is :: "releasePlan \<Rightarrow> releasePlan option \<times> Deploy option \<Rightarrow> bool" where
  "plan_is p v \<equiv> v = (Some p, policy_of (upPlan.truncate p))"

lemma fail_steady:
  assumes "run_state (fail x m name e) w = (r, w')" "steady A x p names lg w"
  shows "steady A x p names lg w' \<and> r = Inl e"
  using carefulD[OF careful_fail assms] fail_Inl[OF assms(1)] assms(2) by (simp add: steady_def)

lemma start_steady:
  assumes "run_state (start x m names) w = (r, w')" "\<And>p. steady (plan_is p0) x p names lg w"
  shows "\<exists>p. policy_of (upPlan.truncate p) = policy_of (upPlan.truncate p0) \<and> steady (plan_is p) x p names lg w' \<and>
    (\<forall>u. r = Inr u \<longrightarrow> all_wanted_up x p names lg w')"
proof -
  have early: ?thesis if "steady (plan_is p0) x p0 names lg w'" "\<exists>e. r = Inl e" using that by auto
  from assms(1)[unfolded start_def] show ?thesis
  proof (cases rule: and_then_runE)
    case (1 e)
    then show ?thesis using early carefulD[OF careful_setStatus 1(1) assms(2)] by blast
  next
    case (2 u w1)
    have st1: "steady (plan_is p0) x p names lg w1" for p by (rule carefulD[OF careful_setStatus 2(1) assms(2)])
    then have up: "dr_up (dw_run w1) = Some p0" by (simp add: steady_def)
    show ?thesis
    proof (cases "pick p0 names")
      case (Inl e)
      then have "run_state (fail x m StepReplicas e) w1 = (r, w')" using 2(2) up by (auto simp: run_the_run elim!: bind_runE)
      from fail_steady[OF this st1] show ?thesis by (intro early) auto
    next
      case (Inr wanted)
      obtain pr w2 where pr: "run_state (plan_routes x m p0 wanted) w1 = (pr, w2)"
        "run_state (case pr of Inl e \<Rightarrow> fail x m StepReplicas e
           | Inr p' \<Rightarrow> do { _ \<leftarrow> set_run (\<lambda>r. r\<lparr>dr_up := Some p'\<rparr>); _ \<leftarrow> dnow x; start_services x m p' wanted }) w2 = (r, w')"
        using 2(2) up Inr by (auto simp: run_the_run elim!: bind_runE)
      have st2: "steady (plan_is p0) x p names lg w2" for p by (rule carefulD[OF careful_plan_routes pr(1) st1])
      show ?thesis
      proof (cases pr)
        case (Inl e)
        then have "run_state (fail x m StepReplicas e) w2 = (r, w')" using pr(2) by simp
        from fail_steady[OF this st2] show ?thesis by (intro early) auto
      next
        case (Inr p')
        let ?w3 = "w2\<lparr>dw_run := (dw_run w2)\<lparr>dr_up := Some p'\<rparr>\<rparr>"
        note same = plan_routes_Inr[OF pr(1)[unfolded Inr]]
        obtain t w4 where w4: "run_state (dnow x) ?w3 = (t, w4)" "run_state (start_services x m p' wanted) w4 = (r, w')"
          using pr(2) by (auto simp: Inr set_run_def elim!: bind_runE)
        have "steady (plan_is p') x p' names lg ?w3" using st2[of p'] same(1) by (simp add: steady_def orderly_def)
        then have st4: "steady (plan_is p') x p' names lg w4" by (rule carefulD[OF careful_small(3) w4(1)])
        note rest = start_services_steady[OF w4(2) st4]
        then show ?thesis using same(1) same(2)[of names] \<open>pick p0 names = Inr wanted\<close> unfolding all_wanted_up_def by (intro exI[of _ p']) auto
      qed
    qed
  qed
qed

section \<open>What the steps before the switch leave\<close>

text \<open>A program that returns no error only in a state with a property.\<close>

definition yields :: "(run_error + unit) deploys \<Rightarrow> (deploy_world \<Rightarrow> bool) \<Rightarrow> bool" where
  "yields n Q \<longleftrightarrow> triple unpushed n (\<lambda>r w. \<forall>u. r = Inr u \<longrightarrow> Q w)"

lemma yields_fail: "yields (fail x m name e) Q"
  unfolding yields_def triple_def by (auto dest: fail_Inl)

lemma yields_bind:
  assumes "pres (\<lambda>w. dr_pushed (dw_run w)) n" "\<And>y. yields (g y) Q"
  shows "yields (State_Monad.bind n g) Q"
  unfolding yields_def
proof (rule triple_bind)
  show "triple unpushed n (\<lambda>_. unpushed)" by (rule triple_pres[OF assms(1)])
  show "triple unpushed (g y) (\<lambda>r w. \<forall>u. r = Inr u \<longrightarrow> Q w)" for y using assms(2) by (simp add: yields_def)
qed

lemma yields_cases:
  "yields n Q \<Longrightarrow> yields n' Q \<Longrightarrow> yields (if b then n else n') Q"
  "(\<And>e. yields (f e) Q) \<Longrightarrow> (\<And>y. yields (g y) Q) \<Longrightarrow> yields (case r of Inl e \<Rightarrow> f e | Inr y \<Rightarrow> g y) Q"
  "yields n Q \<Longrightarrow> (\<And>y. yields (g y) Q) \<Longrightarrow> yields (case v of None \<Rightarrow> n | Some y \<Rightarrow> g y) Q"
  by (auto split: sum.split option.split)

lemma pushed_rules:
  "pres (\<lambda>w. dr_pushed (dw_run w)) the_run" "pres (\<lambda>w. dr_pushed (dw_run w)) the_log" "pres (\<lambda>w. dr_pushed (dw_run w)) (dnow x)"
  "pres (\<lambda>w. dr_pushed (dw_run w)) (dattempt x c)" "pres (\<lambda>w. dr_pushed (dw_run w)) (update x)" "pres (\<lambda>w. dr_pushed (dw_run w)) (saveEnv x p)"
  "pres (\<lambda>w. dr_pushed (dw_run w)) (set_d f)" "pres (\<lambda>w. dr_pushed (dw_run w)) (ignore (dnow x))"
  "pres (\<lambda>w. dr_pushed (dw_run w)) (dstep_at x name st svc t)" "pres (\<lambda>w. dr_pushed (dw_run w)) (missingImages x rel)"
proof -
  show "pres (\<lambda>w. dr_pushed (dw_run w)) (set_d f)" for f unfolding set_d_def by (rule pres_set_run) simp
  then show "pres (\<lambda>w. dr_pushed (dw_run w)) (dstep_at x name st svc t)"
    unfolding dstep_at_def by (intro pres_bind pres_if pres_return pres_ignore pres_run[OF pres_now(2)] pres_run[OF pres_dask(1)])
  have "pres dw_run (missing_images x refs)" for refs by (induction refs) (auto intro!: pres_rules)
  then have "pres dw_run (missingImages x rel)" unfolding missingImages_def by (intro pres_rules)
  then show "pres (\<lambda>w. dr_pushed (dw_run w)) (missingImages x rel)" by (rule pres_run)
qed (rule pres_run, intro pres_rules)+

definition has_plan :: "deploy_world \<Rightarrow> bool" where
  "has_plan w \<longleftrightarrow> (\<exists>p. planned w = (Some p, policy_of (upPlan.truncate p)))"

lemma yields_plan: "yields (plan x m) has_plan"
proof -
  define tail where "tail p = do { _ \<leftarrow> set_run (\<lambda>r. r\<lparr>dr_up := Some p, dr_policy := (case up_cfg p of None \<Rightarrow> None | Some a \<Rightarrow> app_Deploy a)\<rparr>);
      s \<leftarrow> saveEnv x p; (case s of Inl e \<Rightarrow> fail x m StepBuild e | Inr _ \<Rightarrow> State_Monad.return (Inr ())) }" for p
  have "triple unpushed (set_run (\<lambda>r. r\<lparr>dr_up := Some p, dr_policy := (case up_cfg p of None \<Rightarrow> None | Some a \<Rightarrow> app_Deploy a)\<rparr>)) (\<lambda>_ w. unpushed w \<and> has_plan w)" for p
    by (auto simp: triple_def set_run_def has_plan_def policy_of_def upPlan.truncate_def)
  moreover have "triple (\<lambda>w. unpushed w \<and> has_plan w) (do { s \<leftarrow> saveEnv x p; (case s of Inl e \<Rightarrow> fail x m StepBuild e | Inr _ \<Rightarrow> State_Monad.return (Inr ())) })
      (\<lambda>r w. \<forall>u. r = Inr u \<longrightarrow> has_plan w)" for p
    unfolding triple_def
  proof (intro allI impI)
    fix w r w' u assume w: "unpushed w \<and> has_plan w" and r: "r = Inr u"
      and run: "run_state (do { s \<leftarrow> saveEnv x p; (case s of Inl e \<Rightarrow> fail x m StepBuild e | Inr _ \<Rightarrow> State_Monad.return (Inr ())) }) w = (r, w')"
    obtain s w1 where w1: "run_state (saveEnv x p) w = (s, w1)" "run_state (case s of Inl e \<Rightarrow> fail x m StepBuild e | Inr _ \<Rightarrow> State_Monad.return (Inr ())) w1 = (r, w')"
      using run by (elim bind_runE)
    have same: "dw_run w1 = dw_run w" using w1(1) by (rule presD[rotated]) (intro pres_rules)
    then have "w' = w1" using w1(2) w r by (cases s) (auto dest: fail_Inl)
    then show "has_plan w'" using same w by (simp add: has_plan_def)
  qed
  ultimately have "yields (tail p) has_plan" for p unfolding yields_def tail_def by (rule triple_bind)
  then show ?thesis unfolding plan_def Let_def tail_def[symmetric] by (intro yields_bind yields_cases yields_fail pushed_rules)
qed

lemma yields_build: "yields (build x m rel) has_plan"
proof -
  have up: "yields (use_release x m st r) has_plan" for st r
    unfolding use_release_def setRelease_def
    by (intro yields_bind yields_cases yields_fail yields_plan pushed_rules pres_if pres_bind pres_return pres_ignore)
  show ?thesis unfolding build_def by (intro yields_bind yields_cases yields_fail up pushed_rules)
qed

lemma one_off_Inr:
  assumes "run_state (one_off x m name cmd) w = (Inr u, w')" "unpushed w"
  shows "\<exists>es. wd_log w' = wd_log w @ es \<and> command_done cmd es"
proof (cases "cmd = []")
  case True
  have "grows (one_off x m name cmd)" unfolding one_off_def by (intro grows_rules)
  then show ?thesis using growsD[OF _ assms(1)] by (auto simp: command_done_def True)
next
  case False
  let ?n = "do { _ \<leftarrow> dnow x; dstep x name StepStarted }"
  obtain w1 e w2 where run: "run_state ?n w = ((), w1)" "run_state (dattempt x (DeployOneOff cmd)) w1 = (e, w2)"
    "run_state (case e of Inl e \<Rightarrow> fail x m name e | Inr _ \<Rightarrow> do { _ \<leftarrow> dnow x; _ \<leftarrow> dstep x name StepOK; State_Monad.return (Inr ()) }) w2 = (Inr u, w')"
    using assms(1) False by (auto simp: one_off_def bind_run elim!: bind_runE)
  have "pres (\<lambda>w. dr_pushed (dw_run w)) ?n" by (intro pres_bind pushed_rules)
  then have "unpushed w1" using presD[OF _ run(1)] assms(2) by blast
  then have "unpushed w2" using presD[OF pushed_rules(4) run(2)] by blast
  then obtain v where v: "e = Inr v" using run(3) by (cases e) (auto dest: fail_Inl)
  have "grows ?n" by (intro grows_rules)
  then obtain es1 where es1: "wd_log w1 = wd_log w @ es1" using growsD[OF _ run(1)] by blast
  have es2: "wd_log w2 = wd_log w1 @ [(CallDeploy (DeployOneOff cmd), None)]"
    using run(2) v by (auto simp: dattempt_def acting_def attempt_Inr elim!: bind_runE split: sum.splits)
  have "grows (do { _ \<leftarrow> dnow x; _ \<leftarrow> dstep x name StepOK; State_Monad.return (Inr ()) })" by (intro grows_rules)
  then obtain es3 where "wd_log w' = wd_log w2 @ es3" using growsD run(3) v by fastforce
  then show ?thesis using es1 es2 by (intro exI[of _ "es1 @ (CallDeploy (DeployOneOff cmd), None) # es3"]) (simp add: command_done_def)
qed

lemma commands_Inr:
  assumes "run_state (and_then (setStatus x m st) (\<lambda>_. do { r \<leftarrow> the_run; one_off x m name (f (dr_policy r)) })) w = (Inr u, w')"
    and "steady A x p names lg w"
  shows "\<exists>es. wd_log w' = wd_log w @ es \<and> command_done (f (dr_policy (dw_run w))) es"
proof -
  obtain u1 w1 where run: "run_state (setStatus x m st) w = (Inr u1, w1)" "run_state (one_off x m name (f (dr_policy (dw_run w1)))) w1 = (Inr u, w')"
    using assms(1) by (auto simp: and_then_Inr run_the_run elim!: bind_runE)
  have same: "dr_policy (dw_run w1) = dr_policy (dw_run w)" "unpushed w1"
    using setStatus_Inr[OF run(1)] assms(2) by (simp_all add: steady_def)
  obtain es1 where es1: "wd_log w1 = wd_log w @ es1" using growsD[OF grows_setStatus run(1)] by blast
  obtain es2 where "wd_log w' = wd_log w1 @ es2" "command_done (f (dr_policy (dw_run w))) es2"
    using one_off_Inr[OF run(2) same(2)] same(1) by auto
  then show ?thesis using es1 by (intro exI[of _ "es1 @ es2"]) (auto simp: command_done_def)
qed

section \<open>The switch\<close>

lemma steady_replace:
  assumes "steady A x p names lg w" "\<not> dp_exposed (run_pools w ! k)" "run_state (set_pool k (\<lambda>pool. pool\<lparr>dp_fresh := reps\<rparr>)) w = (u, w')"
  shows "steady A x p names lg w'" "map dp_exposed (run_pools w') = map dp_exposed (run_pools w)"
proof -
  show "steady A x p names lg w'" using steady_set(1)[OF assms(1,3)] assms(2) by auto
  show "map dp_exposed (run_pools w') = map dp_exposed (run_pools w)"
    using assms(3) map_update_same[of dp_exposed "\<lambda>pool. pool\<lparr>dp_fresh := reps\<rparr>"] by (auto simp: set_pool_def set_run_def)
qed

text \<open>The part of a replacement after the service is known.\<close>

lemma replace_rest_steady:
  assumes "run_state (do {
       _ \<leftarrow> set_run (\<lambda>r. r\<lparr>dr_replaced := True\<rparr>);
       l \<leftarrow> the_log;
       up \<leftarrow> and_then (dattempt x (DeployRecreate name)) (\<lambda>_. waitService x name);
       (case up of
          Inl e \<Rightarrow> fail x m StepSwitch e
        | Inr _ \<Rightarrow> do {
            _ \<leftarrow> putService x name;
            _ \<leftarrow> set_pool k (\<lambda>pool. pool\<lparr>dp_fresh := dx_replicas x l name\<rparr>);
            State_Monad.return (Inr ()) }) }) w = (r, w')"
    and "steady A x p names lg w" "\<not> dp_exposed (run_pools w ! k)"
  shows "steady A x p names lg w' \<and> (\<forall>u. r = Inr u \<longrightarrow> map dp_exposed (run_pools w') = map dp_exposed (run_pools w))"
proof -
  let ?call = "and_then (dattempt x (DeployRecreate name)) (\<lambda>_. waitService x name)"
  let ?w1 = "w\<lparr>dw_run := (dw_run w)\<lparr>dr_replaced := True\<rparr>\<rparr>"
  obtain l up w2 where run: "run_state ?call ?w1 = (up, w2)"
    "run_state (case up of Inl e \<Rightarrow> fail x m StepSwitch e
       | Inr _ \<Rightarrow> do { _ \<leftarrow> putService x name; _ \<leftarrow> set_pool k (\<lambda>pool. pool\<lparr>dp_fresh := dx_replicas x l name\<rparr>); State_Monad.return (Inr ()) }) w2 = (r, w')"
    using assms(1) by (auto simp: set_run_def the_log_def elim!: bind_runE)
  have "steady A x p names lg ?w1" using assms(2) by (simp add: steady_def orderly_def)
  moreover have "careful A x p names lg ?call" unfolding waitService_def by (intro careful_rules) simp_all
  ultimately have st2: "steady A x p names lg w2" using carefulD[OF _ run(1)] by blast
  have "pres dw_run ?call" unfolding waitService_def by (intro pres_rules)
  from presD[OF this run(1)] have same: "dw_run w2 = (dw_run w)\<lparr>dr_replaced := True\<rparr>" by simp
  show ?thesis
  proof (cases up)
    case (Inl e)
    then have "run_state (fail x m StepSwitch e) w2 = (r, w')" using run(2) by simp
    from fail_steady[OF this st2] show ?thesis by simp
  next
    case (Inr v)
    obtain w3 where w3: "run_state (putService x name) w2 = ((), w3)" "run_state (set_pool k (\<lambda>pool. pool\<lparr>dp_fresh := dx_replicas x l name\<rparr>)) w3 = ((), w')"
      using run(2) by (auto simp: Inr elim!: bind_runE)
    have st3: "steady A x p names lg w3" by (rule carefulD[OF careful_small(7) w3(1) st2])
    have "dw_run w3 = dw_run w2" using w3(1) by (rule presD[rotated]) (intro pres_rules)
    then have "run_pools w3 = run_pools w" using same by simp
    then show ?thesis using steady_replace[OF st3 _ w3(2)] assms(3) by simp
  qed
qed

lemma replace_pool_steady:
  assumes "run_state (replace_pool x m p0 k pool) w = (r, w')" "steady A x p names lg w" "\<not> dp_exposed (run_pools w ! k)"
  shows "steady A x p names lg w' \<and> (\<forall>u. r = Inr u \<longrightarrow> map dp_exposed (run_pools w') = map dp_exposed (run_pools w))"
proof (cases "plan_svc p0 (dp_service pool)")
  case None
  then have "run_state (fail x m StepSwitch (RunNoService (dp_service pool))) w = (r, w')" using assms(1) by (simp add: replace_pool_def)
  from fail_steady[OF this assms(2)] show ?thesis by simp
next
  case (Some s)
  obtain y w1 where w1: "run_state (dattempt x (DeployService (plan_name s))) w = (y, w1)" using assms(1) by (auto simp: replace_pool_def Some elim!: bind_runE)
  have st1: "steady A x p names lg w1" by (rule carefulD[OF careful_calls(2) w1 assms(2)]) simp
  have same: "dw_run w1 = dw_run w" by (rule presD[OF pres_dask(2) w1])
  show ?thesis
  proof (cases y)
    case (Inl e)
    then have "run_state (fail x m StepSwitch e) w1 = (r, w')" using assms(1) w1 by (auto simp: replace_pool_def Some elim!: bind_runE)
    from fail_steady[OF this st1] show ?thesis by simp
  next
    case (Inr v)
    note rest = assms(1)[unfolded replace_pool_def Some option.case bind_run]
    show ?thesis using rest w1 replace_rest_steady[OF _ st1] assms(3) same by (auto simp: Inr)
  qed
qed

lemma replace_pools_steady:
  assumes "run_state (replace_pools x m p0 k pools) w = (r, w')" "steady A x p names lg w" "map dp_exposed pools = drop k (map dp_exposed (run_pools w))"
  shows "steady A x p names lg w'"
  using assms
proof (induction x m p0 k pools arbitrary: w rule: replace_pools.induct)
  case (2 x m p0 k pool pools)
  have len: "k < length (run_pools w)" using arg_cong[OF "2.prems"(3), of length] by simp
  have "drop k (map dp_exposed (run_pools w)) = dp_exposed (run_pools w ! k) # drop (Suc k) (map dp_exposed (run_pools w))"
    using len by (simp add: Cons_nth_drop_Suc[symmetric])
  then have exp: "dp_exposed pool = dp_exposed (run_pools w ! k)" "map dp_exposed pools = drop (Suc k) (map dp_exposed (run_pools w))"
    using "2.prems"(3) by auto
  show ?case
  proof (cases "dp_exposed pool")
    case True
    then show ?thesis using "2.IH"(1)[of w] "2.prems" exp(2) by auto
  next
    case False
    from False "2.prems"(1) have "run_state (and_then (replace_pool x m p0 k pool) (\<lambda>_. replace_pools x m p0 (Suc k) pools)) w = (r, w')" by simp
    then show ?thesis
    proof (cases rule: and_then_runE)
      case (1 e)
      then show ?thesis using replace_pool_steady[OF 1(1) "2.prems"(2)] False exp(1) by blast
    next
      case (2 u w1)
      note one = replace_pool_steady[OF 2(1) "2.prems"(2)]
      show ?thesis by (rule "2.IH"(2)[OF False 2(2)]) (use one False exp in auto)
    qed
  qed
qed auto

text \<open>Once all is prepared, programs that tell the edge keep the invariant too.\<close>

lemma spread_step:
  assumes "run_state n w = (r, w')" "steady A x p names lg w" "prep x p names lg w" "logs n calm" "pres shown n"
  shows "steady A x p names lg w'" "prep x p names lg w'"
proof -
  obtain es where es: "wd_log w' = wd_log w @ es" "\<forall>y \<in> set es. calm (fst y)" using logsD[OF assms(4,1)] by blast
  have same: "shown w' = shown w" by (rule presD[OF assms(5,1)])
  show "prep x p names lg w'" by (rule prep_extend[OF assms(3) es(1)])
  have "orderly x p names lg w'" by (rule orderly_step[OF _ es(1)]) (use assms(2,3) same es(2) in \<open>auto simp: steady_def calm_def\<close>)
  then show "steady A x p names lg w'" using assms(2) same by (auto simp: steady_def shown_def)
qed

lemma new_replicas:
  assumes "steady A x p names lg w" "pool \<in> set (run_pools w)" "dp_exposed pool" "rep \<in> set (dp_fresh pool)"
  shows "new_at x (upPlan.truncate p) lg w (rp_Container rep)"
  using assms by (auto simp: steady_def orderly_def fresh_new_def new_at_def)

lemma calm_recordTargets: "logs (acting (recordTargets a m r reps)) calm" "logs (recordTargets a m r reps) calm"
  "logs (pushRoutes a m) calm" "logs (acting (pushRoutes a m)) calm"
  by (intro logs_rules; simp add: calm_def touches_def)+

lemma record_flip_steady:
  assumes "run_state (record_flip x m p0 k pool) w = (r, w')" "steady A x p names lg w" "prep x p names lg w"
    and "\<forall>rep \<in> set (dp_fresh pool). new_at x (upPlan.truncate p) lg w (rp_Container rep)"
  shows "steady A x p names lg w' \<and> prep x p names lg w'"
proof (cases "plan_svc p0 (dp_service pool)")
  case None
  then show ?thesis using assms by (simp add: record_flip_def)
next
  case (Some s)
  obtain t w1 where w1: "run_state (dnow x) w = (t, w1)" using assms(1) by (auto simp: record_flip_def Some elim!: bind_runE)
  let ?fresh = "fst (flipTargets (upPlan.truncate p0) s t (dp_fresh pool) (oldOf (dp_held pool)))"
  let ?old = "snd (flipTargets (upPlan.truncate p0) s t (dp_fresh pool) (oldOf (dp_held pool)))"
  obtain w2 w3 where run: "run_state (set_pool k (\<lambda>pool. pool\<lparr>dp_fresh := ?fresh, dp_held := ?old\<rparr>)) w1 = ((), w2)"
    "run_state (set_run (\<lambda>r. if is_zero (dr_flippedAt r) then r\<lparr>dr_flippedAt := t\<rparr> else r)) w2 = ((), w3)"
    "run_state (acting (recordTargets (dx_base x) (dm_manager m) (dp_route pool) (?fresh @ ?old))) w3 = (r, w')"
    using assms(1) w1 by (auto simp: record_flip_def Some Let_def split_beta elim!: bind_runE)
  have st1: "steady A x p names lg w1" by (rule carefulD[OF careful_small(3) w1 assms(2)])
  obtain es where es: "wd_log w1 = wd_log w @ es" using growsD[OF grows_small(3) w1] by blast
  have "\<forall>rep \<in> set ?fresh. new_at x (upPlan.truncate p) lg w1 (rp_Container rep)"
    using assms(4) new_at_extend[OF _ es] by (auto simp: flipTargets_def)
  then have st2: "steady A x p names lg w2" "wd_log w2 = wd_log w1" using steady_set[OF st1 run(1)] by auto
  have "careful A x p names lg (set_run (\<lambda>r. if is_zero (dr_flippedAt r) then r\<lparr>dr_flippedAt := t\<rparr> else r))" by (rule careful_set_run) simp
  then have st3: "steady A x p names lg w3" using carefulD[OF _ run(2) st2(1)] by blast
  have "wd_log w3 = wd_log w2" using run(2) by (auto simp: set_run_def)
  then have prep3: "prep x p names lg w3" using prep_extend[OF assms(3)] es st2(2) by simp
  show ?thesis
    by (intro conjI spread_step[OF run(3) st3 prep3]) (intro calm_recordTargets shown_run pres_rules)+
qed

lemma record_flips_steady:
  assumes "run_state (record_flips x m p0 k pools) w = (r, w')" "steady A x p names lg w" "prep x p names lg w"
    and "\<forall>pool \<in> set pools. dp_exposed pool \<longrightarrow> (\<forall>rep \<in> set (dp_fresh pool). new_at x (upPlan.truncate p) lg w (rp_Container rep))"
  shows "steady A x p names lg w' \<and> prep x p names lg w'"
  using assms
proof (induction x m p0 k pools arbitrary: w rule: record_flips.induct)
  case (2 x m p0 k pool pools)
  show ?case
  proof (cases "dp_exposed pool")
    case False
    then show ?thesis using "2.IH"(1)[of w] "2.prems" by auto
  next
    case True
    then have run: "run_state (and_then (record_flip x m p0 k pool) (\<lambda>_. record_flips x m p0 (Suc k) pools)) w = (r, w')" using "2.prems"(1) by simp
    have fresh: "\<forall>rep \<in> set (dp_fresh pool). new_at x (upPlan.truncate p) lg w (rp_Container rep)" using "2.prems"(4) True by simp
    from run show ?thesis
    proof (cases rule: and_then_runE)
      case (1 e)
      then show ?thesis using record_flip_steady[OF 1(1) "2.prems"(2,3) fresh] by simp
    next
      case (2 u w1)
      note one = record_flip_steady[OF 2(1) "2.prems"(2,3) fresh]
      have "grows (record_flip x m p0 k pool)"
        unfolding record_flip_def set_pool_def by (intro grows_rules grows_logs[OF calm_recordTargets(2)])
      then obtain es where es: "wd_log w1 = wd_log w @ es" using growsD[OF _ 2(1)] by blast
      have "\<forall>pool \<in> set pools. dp_exposed pool \<longrightarrow> (\<forall>rep \<in> set (dp_fresh pool). new_at x (upPlan.truncate p) lg w1 (rp_Container rep))"
        using "2.prems"(4) new_at_extend[OF _ es] by simp
      then show ?thesis using "2.IH"(2)[of w1] True 2(2) one by simp
    qed
  qed
qed simp

lemma failFlip_steady:
  assumes "run_state (failFlip x m e) w = (r, w')" "steady A x p names lg w" "prep x p names lg w"
  shows "steady A x p names lg w'"
proof -
  obtain w1 where run: "run_state (unrecordFlip x m) w = ((), w1)" "run_state (fail x m StepSwitch e) w1 = (r, w')"
    using assms(1) by (auto simp: failFlip_def elim!: bind_runE)
  have pools: "logs (unrecord_pools x m ps) calm" "pres dw_run (unrecord_pools x m ps)" for ps
    by (induction ps) (auto intro!: logs_rules pres_rules simp: calm_def touches_def)
  have "logs (unrecordFlip x m) calm"
    unfolding unrecordFlip_def by (intro logs_rules pools) (auto simp: calm_def touches_def)
  moreover have "pres shown (unrecordFlip x m)"
    unfolding unrecordFlip_def
    by (intro pres_bind pres_ignore shown_run[OF pres_the_run] shown_run[OF pools(2)] shown_run[OF pres_now(2)] shown_run[OF pres_pushRoutes] shown_set_run)
      (simp add: comp_def)
  ultimately have "steady A x p names lg w1" by (rule spread_step(1)[OF run(1) assms(2,3)])
  from fail_steady[OF run(2) this] show ?thesis by simp
qed

section \<open>After the edge was told\<close>

definition late_view :: "deploy_world \<Rightarrow> (bool \<times> Replica list) list \<times> releasePlan option" where
  "late_view w = (fst (shown w), dr_up (dw_run w))"

lemma late_step:
  assumes "run_state n w = (r, w')" "orderly x p names lg w" "prep x p names lg w" "logs n calm" "pres late_view n"
  shows "orderly x p names lg w'"
proof -
  obtain es where es: "wd_log w' = wd_log w @ es" "\<forall>y \<in> set es. calm (fst y)" using logsD[OF assms(4,1)] by blast
  show ?thesis by (rule orderly_step[OF assms(2) es(1)]) (use presD[OF assms(5,1)] assms(3) es(2) in \<open>auto simp: calm_def late_view_def\<close>)
qed

lemma logs_in_pool: "logs n P \<Longrightarrow> logs (in_pool k n) P"
  unfolding logs_def
proof (intro allI impI)
  fix w r w' assume n: "\<forall>w r w'. run_state n w = (r, w') \<longrightarrow> (\<exists>es. wd_log w' = wd_log w @ es \<and> (\<forall>x\<in>set es. P (fst x)) \<and> ((\<forall>x\<in>set es. \<not> writes (fst x)) \<longrightarrow> wd_store w' = wd_store w))"
    and run: "run_state (in_pool k n) w = (r, w')"
  show "\<exists>es. wd_log w' = wd_log w @ es \<and> (\<forall>x\<in>set es. P (fst x)) \<and> ((\<forall>x\<in>set es. \<not> writes (fst x)) \<longrightarrow> wd_store w' = wd_store w)"
    using n in_pool_run[OF run] by metis
qed

lemma pools_shown: "pres shown n \<Longrightarrow> pres late_view n"
  by (auto simp: pres_def late_view_def shown_def)

lemma pools_in_pool: "pres late_view (in_pool k n)"
  by (rule pools_shown) (metis in_pool_run pres_def)

lemma pools_set_run:
  "(\<And>r. map (\<lambda>p. (dp_exposed p, dp_fresh p)) (dr_pools (g r)) = map (\<lambda>p. (dp_exposed p, dp_fresh p)) (dr_pools r) \<and> dr_up (g r) = dr_up r) \<Longrightarrow>
   pres late_view (set_run g)"
  by (rule pres_set_run) (simp add: shown_def late_view_def)

lemma pres_pair: "(\<And>a b. pres f (g a b)) \<Longrightarrow> pres f (case q of (a, b) \<Rightarrow> g a b)"
  by (cases q) simp

lemma pools_small:
  "pres late_view the_run" "pres late_view (dnow x)" "pres late_view the_log" "pres late_view (dask x c)"
  "pres late_view (dattempt x c)" "pres late_view (putService x s)" "pres late_view (waitDrain a m' h i d t)"
  "pres late_view (pushPools x m)"
  by (rule pools_shown, rule shown_run, intro pres_rules)+

lemma pools_set_d: "pres late_view (set_d f)"
  unfolding set_d_def by (rule pools_set_run) simp

lemma pools_dstep: "pres late_view (dstep_at x name st svc t)"
  unfolding dstep_at_def by (intro pres_bind pres_if pres_return pres_ignore pools_small pools_set_d)

lemma calm_small: "logs (dask x c) calm" "logs (dattempt x c) calm" "logs (putService x s) calm" "logs (waitDrain a m' h i d t) calm"
  "logs (step a st) calm" "logs (flipSteps a r fresh old t) calm"
proof -
  show "logs (putService x s) calm" by (rule calm_bookkeeping[OF logs_stores(5)])
  show "logs (flipSteps a r fresh old t) calm" unfolding flipSteps_def by (intro logs_rules) (simp_all add: calm_def touches_def)
qed (intro logs_rules; simp add: calm_def touches_def)+

lemma late_hold: "logs (hold x m) calm" "pres late_view (hold x m)"
proof -
  have one: "logs (hold_one x m k i) calm" for k i
    unfolding hold_one_def set_pool_def by (intro logs_rules logs_in_pool calm_small calm_rules)
  have "logs (hold_all x m ks) calm" for ks by (induction ks) (auto intro!: logs_rules one)
  then show "logs (hold x m) calm" unfolding hold_def by (intro logs_rules calm_rules)
  have one: "pres late_view (hold_one x m k i)" for k i
    unfolding hold_one_def set_pool_def
    by (intro pres_bind pres_Let pres_sum pres_if pools_small pools_in_pool pools_set_run pres_pair) (auto intro!: map_update_same)
  have "pres late_view (hold_all x m ks)" for ks by (induction ks) (auto intro!: pres_return pres_bind one)
  then show "pres late_view (hold x m)" unfolding hold_def by (intro pres_bind pres_Let pres_if pres_sum pres_return pools_small pools_dstep)
qed

lemma after_push_orderly:
  assumes "run_state (after_push x m p0) w = (r, w')" "orderly x p names lg w" "prep x p names lg w"
  shows "orderly x p names lg w'" "dr_up (dw_run w') = dr_up (dw_run w)"
proof -
  have steps: "logs (flip_steps x m p0 k ps) calm" "pres late_view (flip_steps x m p0 k ps)" for k ps
    by (induction x m p0 k ps rule: flip_steps.induct)
      (auto intro!: logs_rules logs_in_pool calm_small pres_bind pres_sum pres_return pools_small pools_in_pool)
  have logs: "logs (after_push x m p0) calm"
    unfolding after_push_def fillRoutes_def by (intro logs_rules steps calm_small calm_rules late_hold)
  have view: "pres late_view (after_push x m p0)"
    unfolding after_push_def fillRoutes_def
    by (intro pres_bind pres_if pres_return steps pools_small pools_set_d pools_set_run pools_dstep late_hold) simp
  show "orderly x p names lg w'" by (rule late_step[OF assms logs view])
  show "dr_up (dw_run w') = dr_up (dw_run w)" using presD[OF view assms(1)] by (simp add: late_view_def)
qed

lemma switch_over_orderly:
  assumes "run_state (switch_over x m p0) w = (r, w')" "steady (plan_is p) x p names lg w" "prep x p names lg w"
  shows "orderly x p names lg w' \<and> dr_up (dw_run w') = Some p"
proof -
  let ?stamp = "do { r' \<leftarrow> the_run; (if is_zero (dr_flippedAt r') then do { t \<leftarrow> dnow x; set_run (\<lambda>r. r\<lparr>dr_flippedAt := t\<rparr>) } else State_Monad.return ()) }"
  have failing: ?thesis if "run_state (failFlip x m e) w1 = (r, w')" "steady (plan_is p) x p names lg w1" "prep x p names lg w1" for e w1
    using failFlip_steady[OF that] by (simp add: steady_def)
  obtain f w1 where flips: "run_state (record_flips x m p0 0 (run_pools w)) w = (f, w1)" using assms(1) by (auto simp: switch_over_def run_the_run elim!: bind_runE)
  have w1: "steady (plan_is p) x p names lg w1" "prep x p names lg w1"
    using record_flips_steady[OF flips assms(2,3)] new_replicas[OF assms(2)] by auto
  show ?thesis
  proof (cases f)
    case (Inl e)
    then have "run_state (failFlip x m e) w1 = (r, w')" using assms(1) flips by (auto simp: switch_over_def run_the_run elim!: bind_runE)
    then show ?thesis using failing w1 by blast
  next
    case (Inr u)
    obtain w2 pu w3 where run: "run_state ?stamp w1 = ((), w2)" "run_state (acting (pushRoutes (dx_base x) (dm_manager m))) w2 = (pu, w3)"
      "run_state (case pu of Inl e \<Rightarrow> failFlip x m e | Inr _ \<Rightarrow> after_push x m p0) w3 = (r, w')"
      using assms(1) flips by (fastforce simp: switch_over_def run_the_run Inr bind_run)
    have "logs ?stamp calm" by (intro logs_rules calm_rules)
    moreover have "pres shown ?stamp" by (intro pres_bind pres_if pres_return shown_run[OF pres_the_run] shown_run[OF pres_now(2)] shown_set_run) simp
    ultimately have w2: "steady (plan_is p) x p names lg w2" "prep x p names lg w2" using spread_step[OF run(1) w1] by blast+
    have w3: "steady (plan_is p) x p names lg w3" "prep x p names lg w3"
      using spread_step[OF run(2) w2 calm_recordTargets(4)] shown_run[OF pres_acting[OF pres_pushRoutes]] by blast+
    show ?thesis
    proof (cases pu)
      case (Inl e)
      then show ?thesis using failing[OF _ w3] run(3) by simp
    next
      case (Inr v)
      then show ?thesis using after_push_orderly[of x m p0 w3 r w' p names lg] run(3) w3 by (simp add: steady_def)
    qed
  qed
qed

lemma flip_orderly:
  assumes "run_state (flip x m) w = (r, w')" "steady (plan_is p) x p names lg w" "prep x p names lg w"
  shows "orderly x p names lg w' \<and> dr_up (dw_run w') = Some p"
proof -
  have up: "dr_up (dw_run w) = Some p" using assms(2) by (simp add: steady_def)
  have early: ?thesis if "steady (plan_is p) x p names lg w'" using that by (simp add: steady_def)
  have run: "run_state (and_then (replace_pools x m p 0 (run_pools w)) (\<lambda>_. and_then (setStatus x m DeployWatching) (\<lambda>_. switch_over x m p))) w = (r, w')"
    using assms(1) up by (auto simp: flip_def run_the_run elim!: bind_runE)
  have replace: "steady (plan_is p) x p names lg w1 \<and> prep x p names lg w1" if "run_state (replace_pools x m p 0 (run_pools w)) w = (y, w1)" for y w1
  proof -
    have "grows (replace_pool x m p k pool)" for k pool
      unfolding replace_pool_def waitService_def set_pool_def by (intro grows_rules)
    then have "grows (replace_pools x m p k ps)" for k ps by (induction x m p k ps rule: replace_pools.induct) (auto intro!: grows_rules)
    then show ?thesis using replace_pools_steady[OF that assms(2)] prep_extend[OF assms(3)] growsD[OF _ that] by auto
  qed
  from run show ?thesis
  proof (cases rule: and_then_runE)
    case (1 e)
    then show ?thesis using early replace by blast
  next
    case (2 u w1)
    note w1 = replace[OF 2(1)]
    from 2(2) show ?thesis
    proof (cases rule: and_then_runE)
      case (1 e)
      then show ?thesis using early carefulD[OF careful_setStatus 1(1)] w1 by blast
    next
      case (2 u w2)
      obtain es where "wd_log w2 = wd_log w1 @ es" using growsD[OF grows_setStatus 2(1)] by blast
      then show ?thesis using switch_over_orderly[OF 2(2)] carefulD[OF careful_setStatus 2(1)] w1 prep_extend by blast
    qed
  qed
qed

section \<open>The order of a deploy\<close>

lemma came_up_prep:
  assumes "all_wanted_up x p names lg w1" "wd_log w = wd_log w1 @ es" "wd_log w = lg @ es0" "commands_done (upPlan.truncate p) es0"
  shows "prep x p names lg w"
proof -
  obtain wanted where wanted: "pick p names = Inr wanted" "\<forall>s \<in> set wanted. routed p s \<longrightarrow> came_up x (upPlan.truncate p) lg s w1"
    using assms(1) by (auto simp: all_wanted_up_def)
  have "replicas_up x (upPlan.truncate p) lg s es0" if "s \<in> set wanted" "routed p s" for s
  proof -
    have "came_up x (upPlan.truncate p) lg s w" using came_up_extend[OF _ assms(2)] wanted(2) that by blast
    then show ?thesis using assms(3) by (auto simp: came_up_def)
  qed
  then show ?thesis using assms(3,4) wanted(1) by (auto simp: prep_def prepared_def)
qed

text \<open>After the new replicas: the check, and the switch.\<close>

lemma check_and_flip:
  assumes "run_state (and_then (check x m) (\<lambda>_. flip x m)) w = (r, w')" "steady (plan_is p) x p names lg w" "all_wanted_up x p names lg w"
    and "wd_log w = lg @ es" "command_done (case policy_of (upPlan.truncate p) of None \<Rightarrow> [] | Some d \<Rightarrow> dy_Before d) es"
  shows "orderly x p names lg w' \<and> dr_up (dw_run w') = Some p"
  using assms(1)
proof (cases rule: and_then_runE)
  case (1 e)
  then show ?thesis using carefulD[OF careful_commands(2) 1(1) assms(2)] by (simp add: steady_def)
next
  case (2 u w1)
  let ?check = "case policy_of (upPlan.truncate p) of None \<Rightarrow> [] | Some d \<Rightarrow> dy_Check d"
  have st1: "steady (plan_is p) x p names lg w1" by (rule carefulD[OF careful_commands(2) 2(1) assms(2)])
  obtain es1 where es1: "wd_log w1 = wd_log w @ es1" "command_done ?check es1"
    using commands_Inr[OF 2(1)[unfolded check_def] assms(2)] assms(2) by (auto simp: steady_def)
  have "commands_done (upPlan.truncate p) (es @ es1)"
    using assms(5) es1(2) by (auto simp: commands_done_def command_done_def split: option.splits)
  then have "prep x p names lg w1" using came_up_prep[OF assms(3) es1(1)] es1(1) assms(4) by simp
  then show ?thesis by (rule flip_orderly[OF 2(2) st1])
qed

lemma start_and_on:
  assumes "run_state (and_then (start x m names) (\<lambda>_. and_then (check x m) (\<lambda>_. flip x m))) w = (r, w')" "\<And>p. steady (plan_is p0) x p names lg w"
    and "wd_log w = lg @ es" "command_done (case policy_of (upPlan.truncate p0) of None \<Rightarrow> [] | Some d \<Rightarrow> dy_Before d) es"
  shows "\<exists>p. orderly x p names lg w' \<and> dr_up (dw_run w') = Some p"
  using assms(1)
proof (cases rule: and_then_runE)
  case (1 e)
  then show ?thesis using start_steady[OF 1(1) assms(2)] by (auto simp: steady_def)
next
  case (2 u w1)
  obtain p where p: "steady (plan_is p) x p names lg w1" "all_wanted_up x p names lg w1" "policy_of (upPlan.truncate p) = policy_of (upPlan.truncate p0)"
    using start_steady[OF 2(1) assms(2)] by blast
  have "grows (start x m names)" unfolding start_def by (intro grows_rules)
  then obtain es1 where es1: "wd_log w1 = wd_log w @ es1" using growsD[OF _ 2(1)] by blast
  have "command_done (case policy_of (upPlan.truncate p) of None \<Rightarrow> [] | Some d \<Rightarrow> dy_Before d) (es @ es1)"
    using assms(4) command_done_extend p(3) by simp
  then show ?thesis using check_and_flip[OF 2(2) p(1,2)] es1 assms(3) by auto
qed

lemma steady_first:
  assumes "unpushed w" "run_pools w = []"
  shows "steady (\<lambda>_. True) x p names (wd_log w) w"
  using assms by (auto simp: steady_def orderly_def deployed_in_order_def fresh_new_def)

lemma steps_orderly:
  assumes "run_state (deploy_steps x m rel names) w = (r, w')" "unpushed w" "run_pools w = []" "dr_up (dw_run w') \<in> {None, Some p}"
  shows "orderly x p names (wd_log w) w'"
  using assms(1)[unfolded deploy_steps_def]
proof (cases rule: and_then_runE)
  case (1 e)
  then show ?thesis using carefulD[OF careful_build 1(1) steady_first[OF assms(2,3)]] by (simp add: steady_def)
next
  case (2 u w1)
  have "steady (\<lambda>_. True) x q names (wd_log w) w1" for q by (rule carefulD[OF careful_build 2(1) steady_first[OF assms(2,3)]])
  moreover obtain p0 where "planned w1 = (Some p0, policy_of (upPlan.truncate p0))"
    using tripleD[OF yields_build[unfolded yields_def] assms(2) 2(1)] by (auto simp: has_plan_def)
  ultimately have st1: "steady (plan_is p0) x q names (wd_log w) w1" for q by (simp add: steady_def)
  obtain es where es: "wd_log w1 = wd_log w @ es" using st1 by (auto simp: steady_def orderly_def)
  from 2(2) show ?thesis
  proof (cases rule: and_then_runE)
    case (1 e)
    then show ?thesis using carefulD[OF careful_commands(1) 1(1) st1] by (simp add: steady_def)
  next
    case (2 u2 w2)
    have st2: "steady (plan_is p0) x q names (wd_log w) w2" for q by (rule carefulD[OF careful_commands(1) 2(1) st1])
    obtain es2 where es2: "wd_log w2 = wd_log w1 @ es2" "command_done (case policy_of (upPlan.truncate p0) of None \<Rightarrow> [] | Some d \<Rightarrow> dy_Before d) es2"
      using commands_Inr[OF 2(1)[unfolded migrate_def] st1] st1 by (auto simp: steady_def)
    have "command_done (case policy_of (upPlan.truncate p0) of None \<Rightarrow> [] | Some d \<Rightarrow> dy_Before d) (es @ es2)"
      using es2(2) by (auto simp: command_done_def)
    then obtain q where "orderly x q names (wd_log w) w'" "dr_up (dw_run w') = Some q"
      using start_and_on[OF 2(2) st2, of "es @ es2"] es es2(1) by auto
    then show ?thesis using assms(4) by simp
  qed
qed


section \<open>An example\<close>

definition sample_start_plan :: releasePlan where
  "sample_start_plan = \<lparr>up_app = ''shop'', up_env = ''main'', up_cfg = None, up_layout = up_layout example_plan, up_tree = [],
     rp_services = [example_service], rp_routes = []\<rparr>"

definition sample_start_answers :: deploy_answers where
  "sample_start_answers = sample_answers\<lparr>dx_plan := \<lambda>_ _. sample_start_plan\<rparr>"

definition sample_start_world :: deploy_world where
  "sample_start_world = sample_world\<lparr>wd_store := example_store\<lparr>es_routes := [\<lparr>rr_ID = 1, rr_EnvID = 1, rr_Service = ''web'', rr_Host = ''shop.example.com'',
       rr_Kind = KindHTTPS, rr_Managed = True, rr_CreatedAt = 5\<rparr>], es_envs := [1]\<rparr>,
     dw_run := sample_run\<lparr>dr_d := (dr_d sample_run)\<lparr>dd_ID := 3\<rparr>, dr_pools := [], dr_pushed := False, dr_flippedAt := 0\<rparr>\<rparr>"

definition sample_deployed :: "(run_error + unit) \<times> deploy_world" where
  "sample_deployed = run_state (deploy_steps sample_start_answers sample_deployer (Some (hd (rd_releases sample_releases), [])) []) sample_start_world"


end
