(* ===== verification/DeployCleanup.thy ===== *)
theory DeployCleanup
  imports DeployOrder
begin

text \<open>
  What a deploy that fails before the switch leaves behind (\<^verbatim>\<open>start\<close>, \<^verbatim>\<open>check\<close> and \<^verbatim>\<open>fail\<close> of \<^verbatim>\<open>internal/env/deploy_run.go\<close>): every container
  it has started is stopped again.
\<close>

section \<open>Containers that were started and not stopped\<close>

fun starts :: "call \<Rightarrow> bool" where
  "starts (CallRun _ _ _) = True"
| "starts _ = False"

definition left_running :: "log \<Rightarrow> string \<Rightarrow> bool" where
  "left_running es c \<longleftrightarrow> (\<exists>pre post i q e. es = pre @ (CallRun c i q, e) # post \<and> (\<forall>t e'. (CallStop c t, e') \<notin> set post))"

lemma left_running_append:
  assumes "left_running (es @ es') c"
  shows "(left_running es c \<and> (\<forall>t e. (CallStop c t, e) \<notin> set es')) \<or> (\<exists>i q e. (CallRun c i q, e) \<in> set es')"
proof -
  obtain pre post i q e where split: "es @ es' = pre @ (CallRun c i q, e) # post" "\<forall>t e'. (CallStop c t, e') \<notin> set post"
    using assms by (auto simp: left_running_def)
  from split(1) show ?thesis
  proof (cases rule: event_split)
    case (1 us)
    then have "post = us @ es'" using split(1) by simp
    then have stops: "\<forall>t e'. (CallStop c t, e') \<notin> set us" "\<forall>t e'. (CallStop c t, e') \<notin> set es'" using split(2) by auto
    have "left_running es c" unfolding left_running_def using 1 stops(1) by blast
    then show ?thesis using stops(2) by blast
  next
    case (2 us)
    then show ?thesis by auto
  qed
qed

lemma left_running_calls: "\<forall>y \<in> set es'. \<not> starts (fst y) \<Longrightarrow> left_running (es @ es') c \<Longrightarrow> left_running es c"
  using left_running_append[of es es' c] by fastforce

section \<open>The invariant\<close>

definition fresh_containers :: "(bool \<times> Replica list) list \<Rightarrow> string set" where
  "fresh_containers v = {rp_Container rep |rep b f. (b, f) \<in> set v \<and> b \<and> rep \<in> set f}"

text \<open>What was started and not stopped is known, so that it can be stopped.\<close>

definition tracked :: "log \<Rightarrow> deploy_world \<Rightarrow> bool" where
  "tracked lg w \<longleftrightarrow> (\<exists>es. wd_log w = lg @ es \<and> (\<forall>c. left_running es c \<longrightarrow> c \<noteq> [] \<and> c \<in> fresh_containers (fst (shown w))))"

definition cleaned :: "log \<Rightarrow> deploy_world \<Rightarrow> bool" where
  "cleaned lg w \<longleftrightarrow> (\<exists>es. wd_log w = lg @ es \<and> (\<forall>c. \<not> left_running es c))"

definition tidy :: "((bool \<times> Replica list) list \<Rightarrow> bool) \<Rightarrow> log \<Rightarrow> 'a deploys \<Rightarrow> bool" where
  "tidy B lg n \<longleftrightarrow> triple (\<lambda>w. tracked lg w \<and> unpushed w \<and> B (fst (shown w))) n (\<lambda>_ w. tracked lg w \<and> unpushed w \<and> B (fst (shown w)))"

text \<open>A program that has stopped everything when it returns an error.\<close>

definition tidies :: "log \<Rightarrow> (run_error + unit) deploys \<Rightarrow> bool" where
  "tidies lg n \<longleftrightarrow> triple (\<lambda>w. tracked lg w \<and> unpushed w) n (\<lambda>r w. tracked lg w \<and> unpushed w \<and> (\<forall>e. r = Inl e \<longrightarrow> cleaned lg w))"

named_theorems tidy_rules \<open>which programs keep track of what they start\<close>

lemma tidyD: "tidy B lg n \<Longrightarrow> run_state n w = (r, w') \<Longrightarrow> tracked lg w \<Longrightarrow> unpushed w \<Longrightarrow> B (fst (shown w)) \<Longrightarrow>
    tracked lg w' \<and> unpushed w' \<and> B (fst (shown w'))"
  unfolding tidy_def triple_def by blast

lemma tidyI:
  "(\<And>w r w'. run_state n w = (r, w') \<Longrightarrow> tracked lg w \<Longrightarrow> unpushed w \<Longrightarrow> B (fst (shown w)) \<Longrightarrow> tracked lg w' \<and> unpushed w' \<and> B (fst (shown w'))) \<Longrightarrow> tidy B lg n"
  unfolding tidy_def triple_def by blast

lemma tidy_return [tidy_rules]: "tidy B lg (State_Monad.return y)"
  unfolding tidy_def by (rule triple_return)

lemma tidy_bind [tidy_rules]: "tidy B lg n \<Longrightarrow> (\<And>y. tidy B lg (g y)) \<Longrightarrow> tidy B lg (State_Monad.bind n g)"
  unfolding tidy_def by (rule triple_bind)

lemma tidy_cases [tidy_rules]:
  "tidy B lg n \<Longrightarrow> tidy B lg n' \<Longrightarrow> tidy B lg (if b then n else n')"
  "(\<And>e. tidy B lg (f e)) \<Longrightarrow> (\<And>y. tidy B lg (g y)) \<Longrightarrow> tidy B lg (case r of Inl e \<Rightarrow> f e | Inr y \<Rightarrow> g y)"
  "tidy B lg (h z) \<Longrightarrow> tidy B lg (let y = z in h y)"
  by (auto split: sum.split)

lemma tidy_and_then [tidy_rules]: "tidy B lg n \<Longrightarrow> (\<And>y. tidy B lg (g y)) \<Longrightarrow> tidy B lg (and_then n g)"
  unfolding and_then_def by (intro tidy_rules)

lemma tracked_step:
  assumes "tracked lg w" "wd_log w' = wd_log w @ es'" "\<forall>y \<in> set es'. \<not> starts (fst y)" "fst (shown w') = fst (shown w)"
  shows "tracked lg w'"
  using assms left_running_calls unfolding tracked_def by fastforce

lemma tidy_quiet:
  assumes "logs n (\<lambda>c. \<not> starts c)" "pres shown n"
  shows "tidy B lg n"
proof (rule tidyI)
  fix w r w' assume run: "run_state n w = (r, w')" and w: "tracked lg w" "unpushed w" "B (fst (shown w))"
  have same: "shown w' = shown w" by (rule presD[OF assms(2) run])
  obtain es where es: "wd_log w' = wd_log w @ es" "\<forall>y \<in> set es. \<not> starts (fst y)" using logsD[OF assms(1) run] by blast
  show "tracked lg w' \<and> unpushed w' \<and> B (fst (shown w'))" using tracked_step[OF w(1) es] same w(2,3) by (simp add: shown_def)
qed

lemma logs_not_starting: "logs n bookkeeping \<Longrightarrow> logs n (\<lambda>c. \<not> starts c)"
proof (erule logs_weaken)
  fix c assume "bookkeeping c"
  then show "\<not> starts c" by (cases c) auto
qed

lemma tidy_bookkeeping: "logs n bookkeeping \<Longrightarrow> pres shown n \<Longrightarrow> tidy B lg n"
  by (rule tidy_quiet[OF logs_not_starting])

lemma tidy_small [tidy_rules]:
  "tidy B lg the_run" "tidy B lg the_log" "tidy B lg (dnow y)" "tidy B lg (update y)" "tidy B lg (restorePrevious y)" "tidy B lg (saveEnv y p')"
  by (rule tidy_bookkeeping; (intro logs_rules shown_run pres_rules)?; simp)+

lemma tidy_calls [tidy_rules]: "c \<noteq> DeploySelect \<Longrightarrow> tidy B lg (dattempt y c)"
  by (rule tidy_bookkeeping; (intro logs_rules shown_run pres_rules)?; simp)

lemma tidy_set_run: "(\<And>r. map (\<lambda>p. (dp_exposed p, dp_fresh p)) (dr_pools (g r)) = map (\<lambda>p. (dp_exposed p, dp_fresh p)) (dr_pools r) \<and> dr_pushed (g r) = dr_pushed r) \<Longrightarrow>
    tidy B lg (set_run g)"
  by (rule tidyI) (auto simp: set_run_def tracked_def shown_def)

lemma tidy_set_d [tidy_rules]: "tidy B lg (set_d f)"
  unfolding set_d_def by (rule tidy_set_run) simp

lemma shown_dstep: "pres shown (dstep_at x name st svc t)"
proof -
  have "pres shown (set_d f)" for f unfolding set_d_def by (rule shown_set_run) simp
  then show ?thesis unfolding dstep_at_def by (intro pres_bind pres_if pres_return pres_ignore shown_run[OF pres_now(2)] shown_run[OF pres_dask(1)])
qed

lemma tidy_dstep [tidy_rules]: "tidy B lg (dstep_at y name st svc t)"
  by (rule tidy_bookkeeping[OF logs_dstep shown_dstep])

lemma tidy_finish [tidy_rules]: "tidy B lg (finish y)"
  by (rule tidy_bookkeeping[OF logs_finish shown_finish])

section \<open>Taking back\<close>

text \<open>What is stopped is asked to stop, whether that succeeds or not.\<close>

lemma stop_all_stops:
  assumes "run_state (stop_all x m reps) w = (n, w')" "rep \<in> set reps" "rp_Container rep \<noteq> []"
  shows "\<exists>es t e. wd_log w' = wd_log w @ es \<and> (CallStop (rp_Container rep) t, e) \<in> set es"
  using assms(1,2)
proof (induction reps arbitrary: w n)
  case (Cons rep' reps)
  show ?case
  proof (cases "rp_Container rep' = []")
    case True
    then show ?thesis using Cons assms(3) by auto
  next
    case False
    obtain y w1 k where run: "run_state (stopReplica (dx_base x) (dm_manager m) (rp_Container rep')) w = (y, w1)" "run_state (stop_all x m reps) w1 = (k, w')"
      using Cons.prems(1) False by (auto elim!: bind_runE)
    obtain t e es1 where es1: "wd_log w1 = wd_log w @ (CallStop (rp_Container rep') t, e) # es1"
      using run(1) by (auto simp: stopReplica_def attempt_run Let_def elim!: and_then_runE)
    have "logs (stop_all x m reps) (\<lambda>_. True)" by (intro logs_rules) simp
    then obtain es2 where es2: "wd_log w' = wd_log w1 @ es2" using logsD[OF _ run(2)] by blast
    show ?thesis
    proof (cases "rep \<in> set reps")
      case True
      then obtain es3 t' e' where "wd_log w' = wd_log w1 @ es3" "(CallStop (rp_Container rep) t', e') \<in> set es3" using Cons.IH[OF run(2)] by blast
      then show ?thesis using es1 by (intro exI[of _ "(CallStop (rp_Container rep') t, e) # es1 @ es3"]) auto
    next
      case False
      then show ?thesis using Cons.prems(2) es1 es2 by auto
    qed
  qed
qed simp

lemma fresh_containers_shown: "fresh_containers (fst (shown w)) = rp_Container ` set (fresh_exposed (run_pools w))"
  by (auto simp: fresh_containers_def shown_def)

lemma removeFresh_cleans:
  assumes "run_state (removeFresh x m) w = (u, w')" "tracked lg w"
  shows "cleaned lg w'"
proof -
  obtain es where es: "wd_log w = lg @ es" "\<forall>c. left_running es c \<longrightarrow> c \<noteq> [] \<and> c \<in> fresh_containers (fst (shown w))"
    using assms(2) by (auto simp: tracked_def)
  obtain n w1 where w1: "run_state (stop_all x m (fresh_exposed (run_pools w))) w = (n, w1)" "wd_log w' = wd_log w1"
    using assms(1) by (auto simp: removeFresh_def run_the_run set_run_def elim!: bind_runE)
  have "logs (stop_all x m (fresh_exposed (run_pools w))) (\<lambda>c. \<not> starts c)" by (intro logs_rules) simp
  then obtain es' where es': "wd_log w1 = wd_log w @ es'" "\<forall>y \<in> set es'. \<not> starts (fst y)" using logsD[OF _ w1(1)] by blast
  have "\<not> left_running (es @ es') c" for c
  proof
    assume left: "left_running (es @ es') c"
    have "\<nexists>i q e. (CallRun c i q, e) \<in> set es'" using es'(2) by fastforce
    then have "left_running es c" "\<forall>t e. (CallStop c t, e) \<notin> set es'" using left_running_append[OF left] by blast+
    then have "c \<noteq> []" "c \<in> rp_Container ` set (fresh_exposed (run_pools w))" using es(2) fresh_containers_shown by blast+
    then obtain rep where "rep \<in> set (fresh_exposed (run_pools w))" "rp_Container rep = c" "c \<noteq> []" by (elim imageE) simp
    then obtain t e where "(CallStop c t, e) \<in> set es'" using stop_all_stops[OF w1(1)] es'(1) by fastforce
    then show False using \<open>\<forall>t e. (CallStop c t, e) \<notin> set es'\<close> by blast
  qed
  then show ?thesis using es(1) es'(1) w1(2) by (auto simp: cleaned_def)
qed

lemma cleaned_tracked: "cleaned lg w \<Longrightarrow> tracked lg w"
  by (auto simp: cleaned_def tracked_def)

lemma tidies_fail: "tidies lg (fail x m name e)"
  unfolding tidies_def triple_def
proof (intro allI impI)
  fix w r w' assume run: "run_state (fail x m name e) w = (r, w')" and w: "tracked lg w \<and> unpushed w"
  let ?before = "do { t \<leftarrow> dnow x; _ \<leftarrow> set_d (\<lambda>d. d\<lparr>dd_Status := DeployFailed, dd_Error := dx_error x e, dd_FinishedAt := t\<rparr>);
    _ \<leftarrow> dstep x name StepFailed; restorePrevious x }"
  obtain w1 w2 where parts: "run_state ?before w = ((), w1)" "run_state (removeFresh x m) w1 = ((), w2)" "run_state (finish x) w2 = ((), w')"
    using run w by (fastforce simp: fail_def run_the_run bind_run)
  have "tidy (\<lambda>_. True) lg ?before" by (intro tidy_rules)
  then have w1: "tracked lg w1" "unpushed w1" using tidyD[OF _ parts(1)] w by auto
  have w2: "cleaned lg w2" "unpushed w2" using removeFresh_cleans[OF parts(2) w1(1)] removeFresh_pools(2)[OF parts(2)] w1(2) by auto
  then have w': "tracked lg w'" "unpushed w'" using tidyD[OF tidy_finish[of "\<lambda>_. True"] parts(3)] cleaned_tracked by auto
  obtain es where "wd_log w' = wd_log w2 @ es" "\<forall>y \<in> set es. \<not> starts (fst y)" using logsD[OF logs_not_starting[OF logs_finish] parts(3)] by blast
  then have "cleaned lg w'" using w2(1) left_running_calls unfolding cleaned_def by fastforce
  then show "tracked lg w' \<and> unpushed w' \<and> (\<forall>e. r = Inl e \<longrightarrow> cleaned lg w')" using w' by blast
qed

lemma tidies_bind: "tidy (\<lambda>_. True) lg n \<Longrightarrow> (\<And>y. tidies lg (g y)) \<Longrightarrow> tidies lg (State_Monad.bind n g)"
  unfolding tidies_def tidy_def by (rule triple_bind) auto

lemma tidies_cases:
  "tidies lg n \<Longrightarrow> tidies lg n' \<Longrightarrow> tidies lg (if b then n else n')"
  "(\<And>e. tidies lg (f e)) \<Longrightarrow> (\<And>y. tidies lg (g y)) \<Longrightarrow> tidies lg (case r of Inl e \<Rightarrow> f e | Inr y \<Rightarrow> g y)"
  "tidies lg n \<Longrightarrow> (\<And>y. tidies lg (k y)) \<Longrightarrow> tidies lg (case v of None \<Rightarrow> n | Some y \<Rightarrow> k y)"
  by (auto split: sum.split option.split)

lemma tidies_done: "tidies lg (State_Monad.return (Inr ()))"
  unfolding tidies_def by (rule triple_return) simp

lemma tidies_and_then:
  assumes "tidies lg n" "\<And>y. tidies lg (g y)"
  shows "tidies lg (and_then n g)"
  unfolding tidies_def triple_def
proof (intro allI impI)
  fix w r w' assume run: "run_state (and_then n g) w = (r, w')" and w: "tracked lg w \<and> unpushed w"
  from run show "tracked lg w' \<and> unpushed w' \<and> (\<forall>e. r = Inl e \<longrightarrow> cleaned lg w')"
  proof (cases rule: and_then_runE)
    case (1 e)
    then show ?thesis using tripleD[OF assms(1)[unfolded tidies_def] w 1(1)] by simp
  next
    case (2 y w1)
    then show ?thesis using tripleD[OF assms(1)[unfolded tidies_def] w 2(1)] tripleD[OF assms(2)[unfolded tidies_def] _ 2(2)] by blast
  qed
qed

lemmas tidies_rules = tidies_fail tidies_bind tidies_cases tidies_done tidies_and_then

lemma tidies_setStatus: "tidies lg (setStatus x m st)"
  unfolding setStatus_def by (intro tidies_rules tidy_rules)

lemma tidies_check: "tidies lg (check x m)"
  unfolding check_def one_off_def by (intro tidies_rules tidies_setStatus tidy_rules) simp

section \<open>Bringing up\<close>

definition runs_only :: "string \<Rightarrow> call \<Rightarrow> bool" where
  "runs_only d c \<longleftrightarrow> (\<forall>d' j q. c = CallRun d' j q \<longrightarrow> d' = d)"

lemma bringUpReplica_runs: "logs (bringUpReplica a p s i) (runs_only (container_of p s i))"
proof -
  have probe: "logs (probe_loop a url n first lst) (runs_only d)" for url n first lst d
    by (induction a url n first lst rule: probe_loop.induct) (auto intro!: logs_rules simp: runs_only_def)
  show ?thesis
    unfolding bringUpReplica_def startReplica_def healthReplica_def probeReplica_def
    by (intro logs_rules probe) (simp_all add: runs_only_def fresh_replica_def container_of_def)
qed

lemma bringUpReplica_none:
  assumes "run_state (bringUpReplica a p s i) w = (Inl (None, e), w')"
  shows "\<exists>es. wd_log w' = wd_log w @ es \<and> (\<forall>y \<in> set es. \<not> starts (fst y))"
proof -
  obtain r0 w1 where run: "run_state (startReplica a p s i) w = (r0, w1)" using assms by (auto simp: bringUpReplica_def elim!: bind_runE)
  have r0: "r0 = Inl (None, e) \<and> run_state (step a (new_step i StepStart StepFailed ReplicaFailed)) w1 = ((), w')"
  proof (cases r0)
    case (Inl e0)
    then show ?thesis using assms run by (auto simp: bringUpReplica_def bind_run)
  next
    case (Inr rep)
    have no_sum: "\<not> ((\<forall>z. y \<noteq> Inl z) \<and> y \<noteq> Inr ())" for y :: "act_error + unit" by (cases y) auto
    show ?thesis using assms run no_sum by (auto simp: bringUpReplica_def Inr Let_def elim!: bind_runE split: sum.split_asm)
  qed
  have "wd_log w1 = wd_log w \<or> (\<exists>x. wd_log w1 = wd_log w @ [(CallSpec i, x)])"
    using run unfolding conjunct1[OF r0]
    by (auto simp: startReplica_def with_rep_def attempt_run Let_def elim!: bind_runE and_then_runE split: sum.split_asm option.split_asm)
  moreover obtain es where "wd_log w' = wd_log w1 @ es" "\<forall>y \<in> set es. \<not> starts (fst y)"
    using logsD[OF logs_step[where P = "\<lambda>c. \<not> starts c"] conjunct2[OF r0]] by auto
  ultimately show ?thesis by fastforce
qed

lemma container_of_nonempty: "container_of p s i \<noteq> []"
  by (simp add: container_of_def ReplicaContainerName_def)

lemma fresh_containersI: "(True, f) \<in> set v \<Longrightarrow> rep \<in> set f \<Longrightarrow> rp_Container rep \<in> fresh_containers v"
  unfolding fresh_containers_def by blast

lemma fresh_containers_append:
  assumes "k < length v" "v ! k = (True, f)"
  shows "fresh_containers v \<union> rp_Container ` set qs \<subseteq> fresh_containers (v[k := (True, f @ qs)])"
proof -
  have here: "(True, f @ qs) \<in> set (v[k := (True, f @ qs)])" using assms(1) by (simp add: set_update_memI)
  have "(b, g) \<in> set (v[k := (True, f @ qs)]) \<or> (b = True \<and> g = f)" if "(b, g) \<in> set v" for b g
  proof -
    obtain j where "j < length v" "v ! j = (b, g)" using \<open>(b, g) \<in> set v\<close> by (auto simp: in_set_conv_nth)
    then show ?thesis
    proof (cases "j = k")
      case True
      then show ?thesis using assms(2) \<open>v ! j = (b, g)\<close> by simp
    next
      case False
      then have "v[k := (True, f @ qs)] ! j = (b, g)" using \<open>v ! j = (b, g)\<close> by simp
      then show ?thesis using nth_mem[of j "v[k := (True, f @ qs)]"] \<open>j < length v\<close> by simp
    qed
  qed
  note there = this
  have "c \<in> fresh_containers (v[k := (True, f @ qs)])" if old: "c \<in> fresh_containers v" for c
  proof -
    obtain rep g where rep: "c = rp_Container rep" "(True, g) \<in> set v" "rep \<in> set g" using old by (auto simp: fresh_containers_def)
    show ?thesis
    proof (cases "g = f")
      case True
      then show ?thesis using fresh_containersI[OF here, of rep] rep(1,3) by simp
    next
      case False
      then show ?thesis using fresh_containersI[OF _ rep(3)] there[OF rep(2)] rep(1) by blast
    qed
  qed
  moreover have "rp_Container rep \<in> fresh_containers (v[k := (True, f @ qs)])" if "rep \<in> set qs" for rep
    using fresh_containersI[OF here, of rep] that by simp
  ultimately show ?thesis by auto
qed

lemma shown_append:
  assumes "run_state (set_pool k (\<lambda>pool. pool\<lparr>dp_fresh := dp_fresh pool @ qs\<rparr>)) w = ((), w')"
    and "k < length (fst (shown w))"
  shows "fst (shown w') = (fst (shown w))[k := (fst (fst (shown w) ! k), snd (fst (shown w) ! k) @ qs)]"
  using assms by (auto simp: set_pool_def set_run_def shown_def map_update)

text \<open>A replica that is brought up is remembered, whether it comes up or not.\<close>

lemma track_one:
  assumes "run_state (in_pool k (bringUpReplica (dx_base x) p s i)) w = (y, w1)" "tracked lg w" "k < length (run_pools w)" "dp_exposed (run_pools w ! k)"
    and "run_state (set_pool k (\<lambda>pool. pool\<lparr>dp_fresh := dp_fresh pool @ qs\<rparr>)) w1 = ((), w')"
    and "case y of Inl (rep, e) \<Rightarrow> qs = (case rep of None \<Rightarrow> [] | Some rep \<Rightarrow> [rep]) | Inr rep \<Rightarrow> qs = [rep]"
  shows "tracked lg w'"
proof -
  obtain v v' where run: "run_state (bringUpReplica (dx_base x) p s i) v = (y, v')" "wd_log v = wd_log w" "wd_log w1 = wd_log v'" "shown w1 = shown w"
    using in_pool_run[OF assms(1)] by metis
  obtain es where es: "wd_log w = lg @ es" "\<forall>c. left_running es c \<longrightarrow> c \<noteq> [] \<and> c \<in> fresh_containers (fst (shown w))"
    using assms(2) by (auto simp: tracked_def)
  obtain es1 where es1: "wd_log w1 = wd_log w @ es1" "\<forall>y \<in> set es1. runs_only (container_of p s i) (fst y)"
    "(\<exists>e. y = Inl (None, e)) \<longrightarrow> (\<forall>y \<in> set es1. \<not> starts (fst y))"
    using logsD[OF bringUpReplica_runs run(1)] bringUpReplica_none[of "dx_base x" p s i v _ v'] run by (metis append_same_eq same_append_eq)
  have log': "wd_log w' = wd_log w1" using assms(5) by (auto simp: set_pool_def set_run_def)
  have fresh: "fresh_containers (fst (shown w)) \<union> rp_Container ` set qs \<subseteq> fresh_containers (fst (shown w'))"
  proof -
    have v: "k < length (fst (shown w))" "fst (shown w) ! k = (True, dp_fresh (run_pools w ! k))" using assms(3,4) by (simp_all add: shown_def)
    have "fst (shown w') = (fst (shown w))[k := (True, dp_fresh (run_pools w ! k) @ qs)]" using shown_append[OF assms(5)] run(4) v by simp
    then show ?thesis using fresh_containers_append[OF v] by simp
  qed
  have "c \<noteq> [] \<and> c \<in> fresh_containers (fst (shown w'))" if left: "left_running (es @ es1) c" for c
  proof (cases "\<exists>j q e. (CallRun c j q, e) \<in> set es1")
    case False
    then show ?thesis using left_running_append[OF left] es(2) fresh by blast
  next
    case True
    then have c: "c = container_of p s i" "\<nexists>e. y = Inl (None, e)" using es1(2,3) by (fastforce simp: runs_only_def)+
    then have "c \<in> rp_Container ` set qs"
      using bringUpReplica_container[OF run(1)] assms(6) by (auto split: sum.splits option.splits)
    then have "c \<in> fresh_containers (fst (shown w'))" using fresh by blast
    then show ?thesis using container_of_nonempty c(1) by simp
  qed
  then show ?thesis using es(1) es1(1) log' by (auto simp: tracked_def)
qed

abbreviation (input) exposed_at :: "nat \<Rightarrow> (bool \<times> Replica list) list \<Rightarrow> bool" where
  "exposed_at k v \<equiv> k < length v \<and> fst (v ! k)"

lemma exposed_at_pools: "exposed_at k (fst (shown w)) \<longleftrightarrow> k < length (run_pools w) \<and> dp_exposed (run_pools w ! k)"
  by (auto simp: shown_def)

lemma exposed_at_append:
  assumes "run_state (set_pool k (\<lambda>pool. pool\<lparr>dp_fresh := dp_fresh pool @ qs\<rparr>)) w = ((), w')" "exposed_at k (fst (shown w))"
  shows "exposed_at k (fst (shown w'))" "dr_pushed (dw_run w') = dr_pushed (dw_run w)"
  using shown_append[OF assms(1)] assms by (auto simp: set_pool_def set_run_def)

lemma tidy_bring_up: "tidy (exposed_at k) lg (bring_up x p s k is)"
proof (induction "is")
  case (Cons i "is")
  show ?case
  proof (rule tidyI)
    fix w r w' assume run: "run_state (bring_up x p s k (i # is)) w = (r, w')" and w: "tracked lg w" "unpushed w" "exposed_at k (fst (shown w))"
    obtain y w1 where w1: "run_state (in_pool k (bringUpReplica (dx_base x) (upPlan.truncate p) s i)) w = (y, w1)"
      using run by (auto elim!: bind_runE)
    have same: "shown w1 = shown w" using in_pool_run[OF w1] by metis
    define qs where "qs = (case y of Inl (rep, e) \<Rightarrow> (case rep of None \<Rightarrow> [] | Some rep \<Rightarrow> [rep]) | Inr rep \<Rightarrow> [rep])"
    obtain w2 where w2: "run_state (set_pool k (\<lambda>pool. pool\<lparr>dp_fresh := dp_fresh pool @ qs\<rparr>)) w1 = ((), w2)"
      "(w' = w2) \<or> run_state (bring_up x p s k is) w2 = (r, w')"
      using run w1 by (cases y) (auto simp: qs_def bind_run split: option.splits elim!: bind_runE)
    have "tracked lg w2"
      by (rule track_one[OF w1 w(1) _ _ w2(1)]) (use w(3) exposed_at_pools in \<open>auto simp: qs_def split: sum.splits option.splits\<close>)
    moreover have "exposed_at k (fst (shown w2)) \<and> unpushed w2"
    proof -
      have "exposed_at k (fst (shown w1))" using w(3) by (simp only: same)
      moreover have "unpushed w1" using w(2) arg_cong[OF same, of "\<lambda>v. fst (snd v)"] by (simp add: shown_def)
      ultimately show ?thesis using exposed_at_append[OF w2(1)] by blast
    qed
    ultimately show "tracked lg w' \<and> unpushed w' \<and> exposed_at k (fst (shown w'))" using w2(2) tidyD[OF Cons.IH] by blast
  qed
qed (simp add: tidy_return)

lemma tidy_fill_pool: "tidy (exposed_at k) lg (fill_pool x m p s k)"
proof -
  have listed: "tidy B lg (acting (list_live a app env svc))" for B a app env svc
    by (rule tidy_quiet[OF _ shown_run[OF pres_acting[OF shown_acting_list]]]) (intro logs_rules, simp)
  have held: "tidy B lg (set_pool k (\<lambda>pool. pool\<lparr>dp_held := hs\<rparr>))" for B hs
    unfolding set_pool_def by (rule tidy_set_run) (auto intro!: map_update_same)
  show ?thesis unfolding fill_pool_def Let_def by (intro tidy_rules tidy_bring_up listed held) simp_all
qed

lemma tidies_start_service: "tidies lg (start_service x m p s)"
  unfolding tidies_def triple_def
proof (intro allI impI)
  fix w r w' assume run: "run_state (start_service x m p s) w = (r, w')" and w: "tracked lg w \<and> unpushed w"
  let ?w1 = "w\<lparr>dw_run := (dw_run w)\<lparr>dr_pools := dr_pools (dw_run w) @ [new_pool p s]\<rparr>\<rparr>"
  have "fresh_containers (v @ [(b, [])]) = fresh_containers v" for v b by (auto simp: fresh_containers_def)
  then have w1: "tracked lg ?w1" "unpushed ?w1" using w new_pool_facts(1) by (auto simp: tracked_def shown_def)
  show "tracked lg w' \<and> unpushed w' \<and> (\<forall>e. r = Inl e \<longrightarrow> cleaned lg w')"
  proof (cases "routed p s")
    case False
    have "run_state (dstep_at x StepReplicas StepSkipped (plan_name s) 0) ?w1 = ((), w')" "r = Inr ()"
      using run False by (auto simp: start_service_def new_pool_facts run_the_run set_run_def elim!: bind_runE)
    then show ?thesis using tidyD[OF tidy_dstep[of "\<lambda>_. True"] _ w1] by simp
  next
    case True
    obtain y w2 where fill: "run_state (fill_pool x m p s (length (run_pools w))) ?w1 = (y, w2)"
      "run_state (case y of Inl e \<Rightarrow> fail x m StepReplicas e
         | Inr _ \<Rightarrow> do { _ \<leftarrow> dnow x; _ \<leftarrow> dstep_at x StepReplicas StepOK (plan_name s) 0; State_Monad.return (Inr ()) }) w2 = (r, w')"
      using run True by (auto simp: start_service_def new_pool_facts run_the_run set_run_def elim!: bind_runE)
    have "exposed_at (length (run_pools w)) (fst (shown ?w1))" using True new_pool_facts(2) by (simp add: shown_def nth_append)
    then have w2: "tracked lg w2 \<and> unpushed w2" using tidyD[OF tidy_fill_pool fill(1) w1] by blast
    have "tidies lg (case y of Inl e \<Rightarrow> fail x m StepReplicas e
         | Inr _ \<Rightarrow> do { _ \<leftarrow> dnow x; _ \<leftarrow> dstep_at x StepReplicas StepOK (plan_name s) 0; State_Monad.return (Inr ()) })"
      by (intro tidies_rules tidy_rules)
    from tripleD[OF this[unfolded tidies_def] w2 fill(2)] show ?thesis by blast
  qed
qed

lemma tidy_State:
  assumes "\<And>w. wd_log (snd (f w)) = wd_log w \<and> dw_run (snd (f w)) = dw_run w"
  shows "tidy B lg (State f)"
proof (rule tidyI)
  fix w r w' assume "run_state (State f) w = (r, w')" "tracked lg w" "unpushed w" "B (fst (shown w))"
  then show "tracked lg w' \<and> unpushed w' \<and> B (fst (shown w'))" using assms[of w] by (simp add: tracked_def shown_def)
qed

lemma tidies_start: "tidies lg (start x m names)"
proof -
  have services: "tidies lg (start_services x m p ss)" for p ss
    by (induction ss) (auto intro!: tidies_done tidies_and_then tidies_start_service)
  have routes: "tidy B lg (plan_routes x m p0 wanted)" for B p0 wanted
    unfolding plan_routes_def by (intro tidy_rules tidy_State) (auto split: prod.splits sum.splits)
  have up: "tidy B lg (set_run (\<lambda>r. r\<lparr>dr_up := Some p\<rparr>))" for B p by (rule tidy_set_run) simp
  show ?thesis unfolding start_def by (intro tidies_rules tidies_setStatus services routes up tidy_rules)
qed

text \<open>C4: a deploy that fails while it brings up the new replicas, or in the check after that, leaves none of them behind, whatever the container
  runtime and the database answer: every container it has started is asked to stop after the last time it was started.\<close>

theorem failed_deploy_stops_its_replicas:
  assumes "run_state (and_then (start x m names) (\<lambda>_. check x m)) w = (Inl e, w')" "\<not> dr_pushed (dw_run w)"
  shows "\<exists>es. wd_log w' = wd_log w @ es \<and> (\<forall>c. \<not> left_running es c)"
proof -
  have "tidies (wd_log w) (and_then (start x m names) (\<lambda>_. check x m))" by (intro tidies_and_then tidies_start tidies_check)
  moreover have "tracked (wd_log w) w" by (simp add: tracked_def left_running_def)
  ultimately have "cleaned (wd_log w) w'" unfolding tidies_def using tripleD[OF _ _ assms(1)] assms(2) by blast
  then show ?thesis by (simp add: cleaned_def)
qed

section \<open>An example\<close>

text \<open>The new replica does not answer the probe.\<close>

definition sample_refused :: deploy_answers where
  "sample_refused = sample_start_answers\<lparr>dx_base := (dx_base sample_start_answers)\<lparr>an_error := \<lambda>_ c. (case c of CallProbe _ \<Rightarrow> Some ''refused'' | _ \<Rightarrow> None)\<rparr>\<rparr>"

definition sample_planned_world :: deploy_world where
  "sample_planned_world = sample_start_world\<lparr>dw_run := (dw_run sample_start_world)\<lparr>dr_up := Some sample_start_plan\<rparr>\<rparr>"

definition sample_cleanup :: "(run_error + unit) \<times> deploy_world" where
  "sample_cleanup = run_state (and_then (start sample_refused sample_deployer []) (\<lambda>_. check sample_refused sample_deployer)) sample_planned_world"

text \<open>Every call succeeds but the probe.\<close>

lemma refused_attempt:
  "(\<And>u. c \<noteq> CallProbe u) \<Longrightarrow> run_state (attempt (dx_base sample_refused) c) w = (Inr (), w\<lparr>wd_log := wd_log w @ [(c, None)]\<rparr>)"
  "run_state (attempt (dx_base sample_refused) (CallProbe u)) w = (Inl (CallFailed (CallProbe u) ''refused''), w\<lparr>wd_log := wd_log w @ [(CallProbe u, Some ''refused'')]\<rparr>)"
  by (auto simp: attempt_run sample_refused_def Let_def split: call.split)

lemma refused_probe:
  assumes "run_state (probe_loop (dx_base sample_refused) url n first lst) w = (r, w')" "n > 0 \<or> lst \<noteq> None"
  shows "isl r"
  using assms
proof (induction "dx_base sample_refused" url n first lst arbitrary: w rule: probe_loop.induct)
  case (2 url n first lst)
  obtain w1 where w1: "run_state (if first then State_Monad.return (Inr ()) else attempt (dx_base sample_refused) CallSleep) w = (Inr (), w1)"
    by (cases first) (simp_all add: refused_attempt)
  then show ?case using "2.prems"(1) "2.hyps" by (fastforce simp: and_then_def bind_run refused_attempt elim!: bind_runE)
qed auto

abbreviation (input) sample_up :: upPlan where
  "sample_up \<equiv> upPlan.truncate sample_start_plan"

lemma sample_up_facts:
  "replicaPort (up_layout sample_up) ''web'' 2 = Inr 20001" "container_of sample_up example_service 2 = ''caramelo-shop-main-web-2''"
  "fits (up_layout sample_up) ''web'' 2 = Inr ()" "new_indexes (dx_base sample_refused) sample_up example_service l = [2]"
proof -
  show "replicaPort (up_layout sample_up) ''web'' 2 = Inr 20001" by code_simp
  show "container_of sample_up example_service 2 = ''caramelo-shop-main-web-2''" by code_simp
  show "fits (up_layout sample_up) ''web'' 2 = Inr ()" by code_simp
  have "new_indexes (dx_base sample_refused) sample_up example_service l = new_indexes (dx_base sample_refused) sample_up example_service []"
    by (simp add: new_indexes_def old_replicas_def live_replicas_def sample_refused_def sample_start_answers_def sample_answers_def example_answers_def)
  also have "\<dots> = [2]" by code_simp
  finally show "new_indexes (dx_base sample_refused) sample_up example_service l = [2]" .
qed

lemma refused_bring_up:
  assumes "run_state (bringUpReplica (dx_base sample_refused) sample_up example_service 2) v = (r, v')"
  shows "isl r \<and> (\<exists>es. wd_log v' = wd_log v @ es \<and> (CallRun ''caramelo-shop-main-web-2'' 2 20001, None) \<in> set es)"
proof -
  obtain r0 w1 where w1: "run_state (startReplica (dx_base sample_refused) sample_up example_service 2) v = (r0, w1)"
    using assms by (auto simp: bringUpReplica_def elim!: bind_runE)
  have "\<not> isl r0"
    using w1 by (auto simp: startReplica_def sample_up_facts example_service_def with_rep_def and_then_def bind_run refused_attempt Let_def split: sum.splits)
  then obtain rep0 where r0: "r0 = Inr rep0" by (cases r0) auto
  have port: "rp_Port rep0 = 20001" "\<exists>es. wd_log w1 = wd_log v @ es \<and> (CallRun ''caramelo-shop-main-web-2'' 2 20001, None) \<in> set es"
    using startReplica_Inr[OF w1[unfolded r0]] sample_up_facts(1,2) by (metis example_service_def svcPlan.select_convs(1) sum.inject(2))+
  let ?probe = "probeReplica (dx_base sample_refused) example_service (rep0\<lparr>rp_State := ReplicaHealthy, rp_Health := HealthOK\<rparr>)"
  have probe: "isl y" if "run_state ?probe w2 = (y, w3)" for w2 y w3
    using refused_probe[of _ 3] that port(1) by (auto simp: probeReplica_def)
  let ?a = "dx_base sample_refused"
  let ?rest = "do {
     _ \<leftarrow> step ?a (new_step 2 StepStart StepOK ReplicaStarting);
     h \<leftarrow> healthReplica ?a rep0;
     (case h of
        Inl e \<Rightarrow> do {
          _ \<leftarrow> step ?a (new_step 2 StepHealth StepFailed ReplicaFailed);
          State_Monad.return (Inl (Some (rep0\<lparr>rp_State := ReplicaFailed, rp_Health := HealthFailed\<rparr>), e)) }
      | Inr _ \<Rightarrow> do {
          _ \<leftarrow> step ?a (new_step 2 StepHealth StepOK ReplicaHealthy);
          pr \<leftarrow> ?probe;
          (case pr of
             Inl e \<Rightarrow> do {
               _ \<leftarrow> step ?a (new_step 2 StepProbe StepFailed ReplicaFailed);
               State_Monad.return (Inl (Some (rep0\<lparr>rp_State := ReplicaHealthy, rp_Health := HealthOK, rp_State := ReplicaFailed\<rparr>), e)) }
           | Inr _ \<Rightarrow> do {
               _ \<leftarrow> step ?a (new_step 2 StepProbe StepOK ReplicaHealthy);
               State_Monad.return (Inr (rep0\<lparr>rp_State := ReplicaHealthy, rp_Health := HealthOK\<rparr>)) }) }) }"
  have rest: "run_state ?rest w1 = (r, v')" using assms w1 unfolding r0 by (simp add: bringUpReplica_def bind_run Let_def)
  have "logs ?rest (bringup_call sample_up example_service UNIV)"
    unfolding healthReplica_def probeReplica_def by (intro logs_rules) simp_all
  then obtain es where "wd_log v' = wd_log w1 @ es" using logsD[OF _ rest] by blast
  moreover have "isl r"
  proof -
    obtain w2 h w3 where h: "run_state (healthReplica ?a rep0) w2 = (h, w3)" and after: "isl h \<longrightarrow> isl r"
      "\<not> isl h \<longrightarrow> (\<exists>w4 w5 pr. run_state ?probe w4 = (pr, w5) \<and> (isl pr \<longrightarrow> isl r))"
      using rest by (elim bind_runE) (fastforce elim!: bind_runE split: sum.split_asm)
    then show ?thesis using probe by blast
  qed
  ultimately show ?thesis using port(2) by fastforce
qed

lemma refused_dattempt: "run_state (dattempt sample_refused c) w = (Inr (), w\<lparr>wd_log := wd_log w @ [(CallDeploy c, None)]\<rparr>)"
  by (simp add: dattempt_def acting_def bind_run refused_attempt)

lemma refused_list:
  "run_state (acting (list_live (dx_base sample_refused) app env svc)) w =
     (Inr (sort_key re_index (live_of app env svc (an_containers (dx_base sample_refused) (wd_log w) svc))), w\<lparr>wd_log := wd_log w @ [(CallList svc, None)]\<rparr>)"
  by (simp add: acting_def list_live_def bind_run and_then_def refused_attempt the_log_def liveReplicas_def)

abbreviation (input) started :: "log \<Rightarrow> bool" where
  "started es \<equiv> (CallRun ''caramelo-shop-main-web-2'' 2 20001, None) \<in> set es"

lemma refused_bring_up_pool:
  assumes "run_state (bring_up sample_refused p example_service k [2]) w = (r, w')" "upPlan.truncate p = sample_up"
  shows "isl r \<and> started (wd_log w')"
proof -
  obtain y w1 where w1: "run_state (in_pool k (bringUpReplica (dx_base sample_refused) sample_up example_service 2)) w = (y, w1)"
    using assms by (auto elim!: bind_runE)
  have y: "isl y \<and> started (wd_log w1)"
    using in_pool_run[OF w1] refused_bring_up by (metis Un_iff set_append)
  then obtain rep e where "y = Inl (rep, e)" by (cases y) auto
  then show ?thesis using assms w1 y by (auto simp: bind_run set_pool_def set_run_def)
qed

lemma refused_fill_pool:
  assumes "run_state (fill_pool sample_refused m p example_service k) w = (r, w')" "upPlan.truncate p = sample_up"
  shows "isl r \<and> started (wd_log w')"
proof -
  have up: "up_layout p = up_layout sample_up" "up_cfg p = None" "up_app p = up_app sample_up" "up_env p = up_env sample_up"
    using arg_cong[OF assms(2), of up_layout] arg_cong[OF assms(2), of up_cfg] arg_cong[OF assms(2), of up_app] arg_cong[OF assms(2), of up_env]
    by (simp_all add: upPlan.truncate_def sample_start_plan_def)
  have web: "plan_name example_service = ''web''" by (simp add: example_service_def)
  have want: "replicaCount None ''web'' = 1" by code_simp
  have idx: "freeIndexes (runningReplicas (numbered (sort_key re_index (live_of (up_app sample_up) (up_env sample_up) ''web''
      (an_containers (dx_base sample_refused) (wd_log w) ''web''))))) 1 = [2]"
    using sample_up_facts(4)[of "wd_log w"] want by (simp add: new_indexes_def old_replicas_def live_replicas_def web upPlan.truncate_def sample_start_plan_def)
  obtain v where "run_state (bring_up sample_refused p example_service k [2]) v = (r, w')"
    using assms(1) unfolding fill_pool_def up want web Let_def
    by (auto simp: sample_up_facts(3) and_then_def bind_run refused_list refused_dattempt idx)
  from refused_bring_up_pool[OF this assms(2)] show ?thesis .
qed

lemma refused_start_services:
  assumes "run_state (start_services sample_refused m p [example_service]) w = (r, w')" "upPlan.truncate p = sample_up" "routed p example_service" "unpushed w"
  shows "isl r \<and> started (wd_log w')"
proof -
  let ?w1 = "w\<lparr>dw_run := (dw_run w)\<lparr>dr_pools := dr_pools (dw_run w) @ [new_pool p example_service]\<rparr>\<rparr>"
  obtain r0 v where run: "run_state (start_service sample_refused m p example_service) w = (r0, v)" using assms(1) by (auto elim!: and_then_runE)
  obtain y w2 where fill: "run_state (fill_pool sample_refused m p example_service (length (run_pools w))) ?w1 = (y, w2)"
    "run_state (case y of Inl e \<Rightarrow> fail sample_refused m StepReplicas e
       | Inr _ \<Rightarrow> do { _ \<leftarrow> dnow sample_refused; _ \<leftarrow> dstep_at sample_refused StepReplicas StepOK (plan_name example_service) 0; State_Monad.return (Inr ()) }) w2 = (r0, v)"
    using run assms(3) by (auto simp: start_service_def new_pool_facts run_the_run set_run_def elim!: bind_runE)
  obtain e where e: "y = Inl e" "started (wd_log w2)" using refused_fill_pool[OF fill(1) assms(2)] by (cases y) auto
  have "unpushed w2"
  proof -
    have "exposed_at (length (run_pools w)) (fst (shown ?w1))" using assms(3) new_pool_facts(2) by (simp add: shown_def nth_append)
    moreover have "tracked (wd_log w) ?w1" by (simp add: tracked_def left_running_def)
    ultimately show ?thesis using tidyD[OF tidy_fill_pool fill(1)] assms(4) by simp
  qed
  then have fails: "r0 = Inl e" "\<exists>es. wd_log v = wd_log w2 @ es" using fail_Inl growsD[OF grows_fail] fill(2) e(1) by (metis sum.case(1))+
  then have "r = Inl e" "w' = v" using assms(1) run by (auto simp: and_then_def bind_run)
  then show ?thesis using fails(2) e(2) by auto
qed

definition sample_status_set :: "(run_error + unit) \<times> deploy_world" where
  "sample_status_set = run_state (setStatus sample_refused sample_deployer DeployStarting) sample_planned_world"

lemma sample_status_facts:
  "fst sample_status_set = Inr ()" "RoutesOfEnv (wd_store (snd sample_status_set)) (env_ID (dw_rec (snd sample_status_set))) =
     [\<lparr>rr_ID = 1, rr_EnvID = 1, rr_Service = ''web'', rr_Host = ''shop.example.com'', rr_Kind = KindHTTPS, rr_Managed = True, rr_CreatedAt = 5\<rparr>]"
  by code_simp+

lemma sample_planned_routes: "fst (planRoutes True t envs rec ip None [''web''] s) = Inr (filter (\<lambda>(n, _). n = ''web'') (foldl (add_row []) [] (RoutesOfEnv s (env_ID rec))))"
  by (simp add: planRoutes_def ExposedServices_def Let_def)

lemma refused_plan_routes:
  assumes "run_state (plan_routes sample_refused m p ws) w = (pr, w')"
  shows "\<exists>t. pr = (case fst (planRoutes (dm_Edge m) t (rows (rd_envs (dw_db w))) (dw_rec w) (dx_ip sample_refused (wd_log w)) (up_cfg p) (map plan_name ws) (wd_store w)) of
      Inl e \<Rightarrow> Inl (RunExpose e) | Inr rs \<Rightarrow> Inr (p\<lparr>rp_routes := rs\<rparr>)) \<and> dw_run w' = dw_run w"
proof -
  define res where "res t = planRoutes (dm_Edge m) t (rows (rd_envs (dw_db w))) (dw_rec w) (dx_ip sample_refused (wd_log w)) (up_cfg p) (map plan_name ws) (wd_store w)" for t
  obtain t v where v: "(case res t of (Inl e, s) \<Rightarrow> (Inl (RunExpose e), v\<lparr>wd_store := s\<rparr>) | (Inr rs, s) \<Rightarrow> (Inr (p\<lparr>rp_routes := rs\<rparr>), v\<lparr>wd_store := s\<rparr>)) = (pr, w')" "dw_run v = dw_run w"
    using assms by (auto simp: plan_routes_def bind_run and_then_def the_log_def refused_dattempt dnow_def now_run res_def)
  then show ?thesis unfolding res_def[symmetric] by (intro exI[of _ t]) (cases "res t"; cases "fst (res t)"; auto)
qed

lemma sample_start_refused:
  assumes "run_state (start sample_refused sample_deployer []) sample_planned_world = (r, w')"
  shows "isl r \<and> started (wd_log w')"
proof -
  let ?w1 = "snd sample_status_set"
  have set: "run_state (setStatus sample_refused sample_deployer DeployStarting) sample_planned_world = (Inr (), ?w1)"
    using sample_status_facts(1) by (simp add: sample_status_set_def prod_eq_iff)
  have first: "\<not> dr_pushed (dw_run sample_planned_world)" "dr_up (dw_run sample_planned_world) = Some sample_start_plan"
    by (simp_all add: sample_planned_world_def sample_start_world_def sample_world_def)
  have w1: "unpushed ?w1" "dr_up (dw_run ?w1) = Some sample_start_plan" using setStatus_Inr[OF set first(1)] first by simp_all
  have pick: "pick sample_start_plan [] = Inr [example_service]" by (simp add: pick_def sample_start_plan_def)
  obtain pr w2 where pr: "run_state (plan_routes sample_refused sample_deployer sample_start_plan [example_service]) ?w1 = (pr, w2)"
    "run_state (case pr of Inl e \<Rightarrow> fail sample_refused sample_deployer StepReplicas e
       | Inr p' \<Rightarrow> do { _ \<leftarrow> set_run (\<lambda>r. r\<lparr>dr_up := Some p'\<rparr>); _ \<leftarrow> dnow sample_refused; start_services sample_refused sample_deployer p' [example_service] }) w2 = (r, w')"
    using assms set w1(2) pick by (auto simp: start_def and_then_def bind_run run_the_run simp del: start_services.simps)
  obtain t where v: "pr = (case fst (planRoutes True t (rows (rd_envs (dw_db ?w1))) (dw_rec ?w1) (dx_ip sample_refused (wd_log ?w1)) None [''web''] (wd_store ?w1)) of
      Inl e \<Rightarrow> Inl (RunExpose e) | Inr rs \<Rightarrow> Inr (sample_start_plan\<lparr>rp_routes := rs\<rparr>))" "dw_run w2 = dw_run ?w1"
    using refused_plan_routes[OF pr(1)] by (auto simp: sample_deployer_def example_manager_def example_service_def sample_start_plan_def)
  have "fst (planRoutes True t (rows (rd_envs (dw_db ?w1))) (dw_rec ?w1) (dx_ip sample_refused (wd_log ?w1)) None [''web''] (wd_store ?w1)) = Inr [(''web'', example_route)]"
    by (simp add: sample_planned_routes sample_status_facts(2) add_row_def example_route_def)
  then have p: "pr = Inr (sample_start_plan\<lparr>rp_routes := [(''web'', example_route)]\<rparr>)" "unpushed w2"
    using v w1(1) by auto
  let ?p = "sample_start_plan\<lparr>rp_routes := [(''web'', example_route)]\<rparr>"
  obtain w3 where w3: "run_state (start_services sample_refused sample_deployer ?p [example_service]) w3 = (r, w')" "unpushed w3"
    using pr(2) p by (auto simp: bind_run set_run_def dnow_def now_run simp del: start_services.simps)
  show ?thesis by (rule refused_start_services[OF w3(1) _ _ w3(2)]) (simp_all add: upPlan.truncate_def example_service_def)
qed

lemma sample_cleanup_fails: "\<exists>e. run_state (and_then (start sample_refused sample_deployer []) (\<lambda>_. check sample_refused sample_deployer)) sample_planned_world = (Inl e, snd sample_cleanup)"
  and sample_cleanup_started: "started (wd_log (snd sample_cleanup))"
proof -
  obtain r w' where run: "run_state (start sample_refused sample_deployer []) sample_planned_world = (r, w')" by (cases "run_state (start sample_refused sample_deployer []) sample_planned_world")
  then obtain e where e: "r = Inl e" "started (wd_log w')" using sample_start_refused[OF run] by (cases r) auto
  have all: "run_state (and_then (start sample_refused sample_deployer []) (\<lambda>_. check sample_refused sample_deployer)) sample_planned_world = (Inl e, w')"
    using run e(1) by (auto simp: and_then_def bind_run)
  then have "snd sample_cleanup = w'" by (simp add: sample_cleanup_def)
  then show "\<exists>e. run_state (and_then (start sample_refused sample_deployer []) (\<lambda>_. check sample_refused sample_deployer)) sample_planned_world = (Inl e, snd sample_cleanup)"
    "started (wd_log (snd sample_cleanup))" using all e(2) by auto
qed

theorem failed_deploy_stops_its_replicas_witness:
  "(CallRun ''caramelo-shop-main-web-2'' 2 20001, None) \<in> set (wd_log (snd sample_cleanup)) \<and> (\<forall>c. \<not> left_running (wd_log (snd sample_cleanup)) c)"
proof -
  obtain e where run: "run_state (and_then (start sample_refused sample_deployer []) (\<lambda>_. check sample_refused sample_deployer)) sample_planned_world = (Inl e, snd sample_cleanup)"
    using sample_cleanup_fails by blast
  have first: "\<not> dr_pushed (dw_run sample_planned_world)" "wd_log sample_planned_world = []"
    by (simp_all add: sample_planned_world_def sample_start_world_def sample_world_def)
  show ?thesis using failed_deploy_stops_its_replicas[OF run first(1)] first(2) sample_cleanup_started by simp
qed

end
