(* ===== verification/DeployResume.thy ===== *)
theory DeployResume
  imports DeployCleanup
begin

text \<open>
  What becomes of the deploys that were in progress when the daemon was stopped (\<^verbatim>\<open>ResumeDeploys\<close> and what it calls of
  \<^verbatim>\<open>internal/env/deploy_watch.go\<close>): a deploy that was watched is watched again, with its pools read from the tables of routes and
  targets, and any other is over, and the containers it has started are removed. Reading the settings of an environment or a release is an argument, as
  it decodes JSON. A watch that is taken over goes on in the background, as \<open>watchAll\<close> of the run that is returned.
\<close>

section \<open>The pools\<close>

type_synonym settings = "EnvRecord \<Rightarrow> release option \<Rightarrow> run_error + App"

definition resumed_replica :: "EnvRecord \<Rightarrow> string \<Rightarrow> EdgeTarget \<Rightarrow> Replica" where
  "resumed_replica rec service t = \<lparr>rp_Service = service, rp_Index = et_Replica t, rp_Container = ReplicaContainerName (env_App rec) (env_Name rec) service (et_Replica t),
     rp_ID = [], rp_Port = et_Port t, rp_State = state_of_target (et_State t), rp_Status = [], rp_Health = [], rp_Inflight = 0, rp_Since = et_UpdatedAt t,
     rp_Detail = [], rp_Restarts = 0\<rparr>"

definition resumed_pool :: "EnvRecord \<Rightarrow> App \<Rightarrow> RouteRow \<Rightarrow> EdgeTarget list \<Rightarrow> deployPool" where
  "resumed_pool rec cfg one ts = \<lparr>dp_service = rr_Service one, dp_route = \<lparr>ro_id = rr_ID one, ro_host = rr_Host one, ro_more = []\<rparr>, dp_exposed = True,
     dp_roll = \<lparr>rl_Service = rr_Service one, rl_Host = rr_Host one, rl_URL = PublicURL (rr_Host one), rl_Steps = [], rl_Replicas = [], rl_Failed = None\<rparr>,
     dp_fresh = map (resumed_replica rec (rr_Service one)) (filter (\<lambda>t. et_State t = TargetActive) ts),
     dp_held = map (\<lambda>t. (resumed_replica rec (rr_Service one) t)\<lparr>rp_State := ReplicaHeld\<rparr>) (filter (\<lambda>t. et_State t \<in> {TargetHeld, TargetDraining}) ts),
     dp_drain = drainOf (Some cfg) (rr_Service one)\<rparr>"

text \<open>The first route of a service has its pool; the flag says whether a target was still draining.\<close>

fun resume_pools :: "deploy_answers \<Rightarrow> EnvRecord \<Rightarrow> App \<Rightarrow> RouteRow list \<Rightarrow> deployPool list \<Rightarrow> bool \<Rightarrow> (run_error + deployPool list \<times> bool) deploys" where
  "resume_pools x rec cfg [] pools normalised = State_Monad.return (Inr (pools, normalised))"
| "resume_pools x rec cfg (one # ones) pools normalised =
     (if rr_Service one \<in> dp_service ` set pools
      then resume_pools x rec cfg ones
        (map (\<lambda>p. if dp_service p = rr_Service one
           then p\<lparr>dp_route := (dp_route p)\<lparr>ro_more := ro_more (dp_route p) @ [(rr_ID one, rr_Host one)]\<rparr>\<rparr> else p) pools) normalised
      else and_then (acting (attempt (dx_base x) (CallTargets (rr_ID one)))) (\<lambda>_. do {
        ts \<leftarrow> State (\<lambda>w. (store_Targets (wd_store w) (rr_ID one), w));
        resume_pools x rec cfg ones (pools @ [resumed_pool rec cfg one ts]) (normalised \<or> (\<exists>t \<in> set ts. et_State t = TargetDraining)) }))"

definition new_run :: "DeployRow \<Rightarrow> release option \<Rightarrow> release option \<Rightarrow> App \<Rightarrow> deployRun" where
  "new_run row rel prior cfg =
     \<lparr>dr_d = \<lparr>dd_ID = dep_ID row, dd_Kind = dep_Kind row, dd_Status = dep_Status row, dd_Release = rel, dd_FromRelease = prior, dd_Steps = [], dd_Rollouts = [],
        dd_Watch = None, dd_Routes = [], dd_Reason = dep_Reason row, dd_Identity = dep_Identity row, dd_StartedAt = dep_StartedAt row, dd_FinishedAt = 0, dd_Error = []\<rparr>,
      dr_policy = app_Deploy cfg, dr_pools = [], dr_flippedAt = 0, dr_countedFrom = 0, dr_up = None, dr_detached = False, dr_watchStarted = False,
      dr_replaced = False, dr_pushed = False, dr_ended = False\<rparr>"

text \<open>A release that cannot be planned any more is resumed without a plan.\<close>

definition plan_again :: "deploy_answers \<Rightarrow> release option \<Rightarrow> unit deploys" where
  "plan_again x rel =
     (case rel of
        None \<Rightarrow> State_Monad.return ()
      | Some r \<Rightarrow> do {
          l \<leftarrow> the_log;
          planned \<leftarrow> dattempt x (DeployPlan (rel_ID (fst r)));
          (case planned of Inl _ \<Rightarrow> State_Monad.return () | Inr _ \<Rightarrow> set_run (\<lambda>run. run\<lparr>dr_up := Some (dx_plan x l r)\<rparr>)) })"

definition the_rec :: "EnvRecord deploys" where
  "the_rec = State (\<lambda>w. (dw_rec w, w))"

text \<open>The routes and their targets.\<close>

definition read_pools :: "deploy_answers \<Rightarrow> deployer \<Rightarrow> EnvRecord \<Rightarrow> App \<Rightarrow> (run_error + unit) deploys" where
  "read_pools x m rec cfg =
     and_then (dattempt x DeployRoutes) (\<lambda>_. do {
       ones \<leftarrow> State (\<lambda>w. (RoutesOfEnv (wd_store w) (env_ID rec), w));
       and_then (resume_pools x rec cfg ones [] False) (\<lambda>res. do {
         _ \<leftarrow> set_run (\<lambda>r. r\<lparr>dr_pools := fst res\<rparr>);
         _ \<leftarrow> fillRoutes x;
         _ \<leftarrow> (if snd res then ignore (pushPools x m) else State_Monad.return ());
         State_Monad.return (Inr ()) }) })"

definition resumeRun :: "deploy_answers \<Rightarrow> deployer \<Rightarrow> settings \<Rightarrow> DeployRow \<Rightarrow> (run_error + unit) deploys" where
  "resumeRun x m conf row =
     and_then (read_release x (dep_ReleaseID row)) (\<lambda>rel.
     and_then (read_release x (dep_FromReleaseID row)) (\<lambda>prior. do {
       rec \<leftarrow> the_rec;
       (case conf rec rel of
          Inl e \<Rightarrow> State_Monad.return (Inl e)
        | Inr cfg \<Rightarrow> do {
            _ \<leftarrow> set_run (\<lambda>_. new_run row rel prior cfg);
            _ \<leftarrow> plan_again x rel;
            read_pools x m rec cfg }) }))"

section \<open>A deploy that never switched\<close>

definition routed_indexes :: "deployPool list \<Rightarrow> string \<Rightarrow> int set" where
  "routed_indexes pools service = set (map rp_Index (concat (map (\<lambda>p. dp_fresh p @ dp_held p) (filter (\<lambda>p. dp_service p = service) pools))))"

fun clean_replicas :: "deploy_answers \<Rightarrow> deployer \<Rightarrow> string \<Rightarrow> string \<Rightarrow> int set \<Rightarrow> replica list \<Rightarrow> unit deploys" where
  "clean_replicas x m tree service kept [] = State_Monad.return ()"
| "clean_replicas x m tree service kept (one # ones) =
     (if re_index one \<in> kept \<or> re_tree one \<noteq> tree then clean_replicas x m tree service kept ones
      else do {
        s \<leftarrow> stopReplica (dx_base x) (dm_manager m) (re_container one);
        _ \<leftarrow> (case s of Inl _ \<Rightarrow> State_Monad.return () | Inr _ \<Rightarrow> dstep_at x StepRollback StepOK service 0);
        clean_replicas x m tree service kept ones })"

fun clean_services :: "deploy_answers \<Rightarrow> deployer \<Rightarrow> string \<Rightarrow> string list \<Rightarrow> unit deploys" where
  "clean_services x m tree [] = State_Monad.return ()"
| "clean_services x m tree (service # services) = do {
     rec \<leftarrow> the_rec;
     r \<leftarrow> the_run;
     found \<leftarrow> list_live (dx_base x) (env_App rec) (env_Name rec) service;
     _ \<leftarrow> (case found of
        Inl _ \<Rightarrow> State_Monad.return ()
      | Inr lv \<Rightarrow> clean_replicas x m tree service (routed_indexes (dr_pools r) service) (numbered lv));
     clean_services x m tree services }"

definition release_Services :: "release \<Rightarrow> string list" where
  "release_Services rel = sort (map fst (snd rel))"

definition cleanStrays :: "deploy_answers \<Rightarrow> deployer \<Rightarrow> unit deploys" where
  "cleanStrays x m = do {
     r \<leftarrow> the_run;
     (case dd_Release (dr_d r) of
        None \<Rightarrow> State_Monad.return ()
      | Some rel \<Rightarrow>
          (let tree = ShortTree (rel_Tree (fst rel))
           in if tree = [] then State_Monad.return () else clean_services x m tree (release_Services rel))) }"

section \<open>Resuming\<close>

definition takeOverWatch :: "deploy_answers \<Rightarrow> deployRun deploys" where
  "takeOverWatch x = do {
     t \<leftarrow> dnow x;
     _ \<leftarrow> set_run (\<lambda>r. r\<lparr>dr_flippedAt := t, dr_detached := True\<rparr>);
     _ \<leftarrow> State (\<lambda>w. ((), w\<lparr>dw_watches := dw_watches w @ [dd_ID (dr_d (dw_run w))]\<rparr>));
     _ \<leftarrow> dstep x StepWatch StepStarted;
     _ \<leftarrow> set_run (\<lambda>r. r\<lparr>dr_watchStarted := True\<rparr>);
     the_run }"

definition endResumed :: "deploy_answers \<Rightarrow> DeployRow \<Rightarrow> string \<Rightarrow> (run_error + unit) deploys" where
  "endResumed x row reason = do {
     t \<leftarrow> dnow x;
     and_then (dattempt x (DeployUpdate (dep_ID row) DeployRolledBack)) (\<lambda>_.
       on_db (\<lambda>db. UpdateDeploy db (row\<lparr>dep_Status := DeployRolledBack, dep_Reason := reason, dep_FinishedAt := t\<rparr>))) }"

definition envByID :: "deploy_answers \<Rightarrow> int \<Rightarrow> (run_error + EnvRecord option) deploys" where
  "envByID x i = and_then (dattempt x (DeployRead ''envs'')) (\<lambda>_.
     State (\<lambda>w. (Inr (find (\<lambda>r. env_ID r = i) (rows (rd_envs (dw_db w)))), w)))"

definition end_unswitched :: "deploy_answers \<Rightarrow> deployer \<Rightarrow> string \<Rightarrow> unit deploys" where
  "end_unswitched x m status = do {
     _ \<leftarrow> dstep x StepRollback StepOK;
     t \<leftarrow> dnow x;
     _ \<leftarrow> set_d (\<lambda>d. d\<lparr>dd_Status := DeployRolledBack, dd_Reason := dx_why x (WhyRestarted status), dd_FinishedAt := t\<rparr>);
     _ \<leftarrow> cleanStrays x m;
     finish x }"

text \<open>The run whose watch goes on, if there is one.\<close>

definition resume :: "deploy_answers \<Rightarrow> deployer \<Rightarrow> settings \<Rightarrow> DeployRow \<Rightarrow> (run_error + deployRun option) deploys" where
  "resume x m conf row =
     and_then (envByID x (dep_EnvID row)) (\<lambda>found.
       case found of
         None \<Rightarrow> and_then (endResumed x row (dx_why x WhyDestroyed)) (\<lambda>_. State_Monad.return (Inr None))
       | Some rec \<Rightarrow> do {
           _ \<leftarrow> State (\<lambda>w. ((), w\<lparr>dw_rec := rec\<rparr>));
           and_then (resumeRun x m conf row) (\<lambda>_.
             if dep_Status row \<noteq> DeployWatching
             then do { _ \<leftarrow> end_unswitched x m (dep_Status row); State_Monad.return (Inr None) }
             else do { run \<leftarrow> takeOverWatch x; State_Monad.return (Inr (Some run)) }) })"

text \<open>One deploy that cannot be resumed does not keep the others from it.\<close>

fun resume_all :: "deploy_answers \<Rightarrow> deployer \<Rightarrow> settings \<Rightarrow> DeployRow list \<Rightarrow> ((int \<times> int \<times> run_error) list \<times> deployRun list) deploys" where
  "resume_all x m conf [] = State_Monad.return ([], [])"
| "resume_all x m conf (row # rest) = do {
     y \<leftarrow> resume x m conf row;
     res \<leftarrow> resume_all x m conf rest;
     State_Monad.return (case y of
        Inl e \<Rightarrow> ((dep_ID row, dep_EnvID row, e) # fst res, snd res)
      | Inr None \<Rightarrow> res
      | Inr (Some run) \<Rightarrow> (fst res, run # snd res)) }"

definition ResumeDeploys :: "deploy_answers \<Rightarrow> deployer \<Rightarrow> settings \<Rightarrow> (run_error + (int \<times> int \<times> run_error) list \<times> deployRun list) deploys" where
  "ResumeDeploys x m conf =
     and_then (dattempt x (DeployRead ''deploys'')) (\<lambda>_. do {
       unfinished \<leftarrow> State (\<lambda>w. (UnfinishedDeploys (dw_db w), w));
       res \<leftarrow> resume_all x m conf unfinished;
       State_Monad.return (Inr res) })"

text \<open>
  A command that waits for the deploy of an environment takes over a watch nobody keeps. It waits when the flag says so; the run is the one whose watch
  was taken over.
\<close>

definition adopt :: "deploy_answers \<Rightarrow> deployer \<Rightarrow> settings \<Rightarrow> (bool \<times> deployRun option) deploys" where
  "adopt x m conf = do {
     rec \<leftarrow> the_rec;
     if env_DeployID rec = 0 then State_Monad.return (False, None)
     else do {
       kept \<leftarrow> State (\<lambda>w. (env_DeployID rec \<in> set (dw_watches w), w));
       if kept then State_Monad.return (True, None)
       else do {
         asked \<leftarrow> dattempt x (DeployRead ''deploy'');
         found \<leftarrow> State (\<lambda>w. (DeployOf (dw_db w) (env_DeployID rec), w));
         (case (asked, found) of
            (Inr _, Inr row) \<Rightarrow>
              if DeployDone (dep_Status row) \<or> dep_Status row \<noteq> DeployWatching then State_Monad.return (False, None)
              else do {
                y \<leftarrow> resumeRun x m conf row;
                (case y of
                   Inl _ \<Rightarrow> State_Monad.return (False, None)
                 | Inr _ \<Rightarrow> do { run \<leftarrow> takeOverWatch x; State_Monad.return (True, Some run) }) }
          | _ \<Rightarrow> State_Monad.return (False, None)) } } }"

section \<open>What the pools say\<close>

definition in_use :: "EdgeTarget \<Rightarrow> bool" where
  "in_use t \<longleftrightarrow> et_State t \<in> {TargetActive, TargetHeld, TargetDraining}"

text \<open>The replica has a target that is in use, at the first route of its service.\<close>

definition has_target :: "edge_store \<Rightarrow> EnvRecord \<Rightarrow> string \<Rightarrow> int \<Rightarrow> bool" where
  "has_target s rec service i \<longleftrightarrow> (case find (\<lambda>r. rr_Service r = service) (RoutesOfEnv s (env_ID rec)) of
     None \<Rightarrow> False | Some r \<Rightarrow> (\<exists>t \<in> set (store_Targets s (rr_ID r)). in_use t \<and> et_Replica t = i))"

lemma routed_resumed: "in_use t \<Longrightarrow> t \<in> set ts \<Longrightarrow> et_Replica t \<in> routed_indexes (pools @ [resumed_pool rec cfg one ts]) (rr_Service one)"
  by (force simp: routed_indexes_def resumed_pool_def resumed_replica_def in_use_def image_iff)

lemma routed_append: "routed_indexes pools service \<subseteq> routed_indexes (pools @ extra) service"
  by (auto simp: routed_indexes_def)

lemma routed_more:
  assumes "\<And>p. dp_service (f p) = dp_service p \<and> dp_fresh (f p) = dp_fresh p \<and> dp_held (f p) = dp_held p"
  shows "routed_indexes (map f pools) service = routed_indexes pools service" "dp_service ` set (map f pools) = dp_service ` set pools"
proof -
  have "map (\<lambda>p. dp_fresh p @ dp_held p) (filter (\<lambda>p. dp_service p = service) (map f pools)) = map (\<lambda>p. dp_fresh p @ dp_held p) (filter (\<lambda>p. dp_service p = service) pools)"
    using assms by (induction pools) auto
  then show "routed_indexes (map f pools) service = routed_indexes pools service" by (simp only: routed_indexes_def)
  show "dp_service ` set (map f pools) = dp_service ` set pools" using assms by (simp add: image_image)
qed

lemma resume_pools_routed:
  assumes "run_state (resume_pools x rec cfg ones pools n) w = (Inr (pools', n'), w')"
  shows "wd_store w' = wd_store w \<and> dw_run w' = dw_run w \<and> (\<forall>service. routed_indexes pools service \<subseteq> routed_indexes pools' service) \<and>
    (\<forall>service r t. service \<notin> dp_service ` set pools \<longrightarrow> find (\<lambda>r. rr_Service r = service) ones = Some r \<longrightarrow>
       t \<in> set (store_Targets (wd_store w) (rr_ID r)) \<longrightarrow> in_use t \<longrightarrow> et_Replica t \<in> routed_indexes pools' service)"
  using assms
proof (induction x rec cfg ones pools n arbitrary: w rule: resume_pools.induct)
  case (2 x rec cfg one ones pools n)
  show ?case
  proof (cases "rr_Service one \<in> dp_service ` set pools")
    case True
    let ?pools = "map (\<lambda>p. if dp_service p = rr_Service one
           then p\<lparr>dp_route := (dp_route p)\<lparr>ro_more := ro_more (dp_route p) @ [(rr_ID one, rr_Host one)]\<rparr>\<rparr> else p) pools"
    have same: "routed_indexes ?pools service = routed_indexes pools service" "dp_service ` set ?pools = dp_service ` set pools" for service
      by (rule routed_more; simp)+
    have "run_state (resume_pools x rec cfg ones ?pools n) w = (Inr (pools', n'), w')" using "2.prems" True by simp
    note IH = "2.IH"(1)[OF True this, unfolded same]
    have "find (\<lambda>r. rr_Service r = service) (one # ones) = find (\<lambda>r. rr_Service r = service) ones" if "service \<notin> dp_service ` set pools" for service
      using True that by auto
    then show ?thesis using IH by simp
  next
    case False
    let ?ts = "store_Targets (wd_store w) (rr_ID one)"
    let ?w1 = "w\<lparr>wd_log := wd_log w @ [(CallTargets (rr_ID one), None)]\<rparr>"
    have rest: "run_state (resume_pools x rec cfg ones (pools @ [resumed_pool rec cfg one ?ts]) (n \<or> (\<exists>t \<in> set ?ts. et_State t = TargetDraining))) ?w1 = (Inr (pools', n'), w')"
      using "2.prems" False by (auto simp: and_then_Inr acting_def attempt_Inr elim!: bind_runE split: sum.splits)
    note IH = "2.IH"(2)[OF False rest]
    have "et_Replica t \<in> routed_indexes pools' service"
      if t: "service \<notin> dp_service ` set pools" "find (\<lambda>r. rr_Service r = service) (one # ones) = Some r" "t \<in> set (store_Targets (wd_store w) (rr_ID r))" "in_use t" for service r t
    proof (cases "rr_Service one = service")
      case True
      then have "r = one" using t(2) by simp
      then have "et_Replica t \<in> routed_indexes (pools @ [resumed_pool rec cfg one ?ts]) service" using routed_resumed[OF t(4)] t(3) True by auto
      then show ?thesis using IH by blast
    next
      case False
      then have "service \<notin> dp_service ` set (pools @ [resumed_pool rec cfg one ?ts])" "find (\<lambda>r. rr_Service r = service) ones = Some r"
        using t(1,2) by (auto simp: resumed_pool_def)
      then show ?thesis using IH t(3,4) by simp
    qed
    then show ?thesis using IH routed_append[of pools] by (simp, blast)
  qed
qed auto

section \<open>What is removed\<close>

text \<open>The container of a replica of the tree, found when the replicas of its service were listed, that has no target in use.\<close>

definition stray :: "deploy_answers \<Rightarrow> edge_store \<Rightarrow> EnvRecord \<Rightarrow> string \<Rightarrow> string \<Rightarrow> bool" where
  "stray x s rec tree c \<longleftrightarrow> (\<exists>service l one. one \<in> set (live_of (env_App rec) (env_Name rec) service (an_containers (dx_base x) l service)) \<and>
     1 \<le> re_index one \<and> re_container one = c \<and> re_tree one = tree \<and> \<not> has_target s rec service (re_index one))"

lemma logs_clean_replicas:
  "logs (clean_replicas x m tree service kept ones)
     (\<lambda>y. \<forall>c. touches c y \<longrightarrow> (\<exists>one \<in> set ones. re_container one = c \<and> re_index one \<notin> kept \<and> re_tree one = tree))"
proof (induction ones)
  case (Cons one ones)
  let ?P = "\<lambda>y. \<forall>c. touches c y \<longrightarrow> (\<exists>one' \<in> set (one # ones). re_container one' = c \<and> re_index one' \<notin> kept \<and> re_tree one' = tree)"
  have rest: "logs (clean_replicas x m tree service kept ones) ?P" by (rule logs_weaken[OF Cons.IH]) auto
  have steps: "logs (dstep_at x StepRollback StepOK service 0) ?P" by (rule logs_weaken[OF calm_rules(2)]) (simp add: calm_def)
  show ?case
  proof (cases "re_index one \<in> kept \<or> re_tree one \<noteq> tree")
    case True
    then show ?thesis using rest by simp
  next
    case False
    show ?thesis unfolding clean_replicas.simps if_not_P[OF False] by (intro logs_rules rest steps) (use False in \<open>auto simp: touches_def\<close>)
  qed
qed (simp add: logs_return)

text \<open>What is not changed while a deploy is resumed.\<close>

definition place :: "deploy_world \<Rightarrow> deployPool list \<times> EnvRecord \<times> release option" where
  "place w = (run_pools w, dw_rec w, dd_Release (dr_d (dw_run w)))"

lemma place_log: "(\<And>w r w'. run_state n w = (r, w') \<Longrightarrow> dw_run w' = dw_run w \<and> dw_rec w' = dw_rec w) \<Longrightarrow> pres place n"
  by (auto simp: pres_def place_def)

lemma place_small:
  "pres place the_run" "pres place the_log" "pres place (ask a c)" "pres place the_rec"
  by (auto simp: pres_def place_def the_run_def the_log_def ask_def the_rec_def Let_def)

lemma place_calls: "pres place (attempt a c)" "pres place (dask x d)" "pres place (dattempt x d)" "pres place (dnow x)" "pres place (stopReplica a m ct)"
  "pres place (list_live a app env svc)"
  unfolding attempt_def dask_def dattempt_def acting_def dnow_def now_def stopReplica_def list_live_def
  by (intro pres_bind pres_and_then pres_return place_small)+

lemma place_set_d: "(\<And>d. dd_Release (f d) = dd_Release d) \<Longrightarrow> pres place (set_d f)"
  unfolding set_d_def by (rule pres_set_run) (simp add: place_def)

lemma place_dstep: "pres place (dstep_at x name st svc t)"
  unfolding dstep_at_def by (intro pres_bind pres_if pres_return pres_ignore place_calls place_set_d) simp

lemma place_clean_replicas: "pres place (clean_replicas x m tree service kept ones)"
  by (induction ones) (auto intro!: pres_return pres_bind pres_sum place_calls place_dstep)

lemma clean_services_strays:
  assumes "run_state (clean_services x m tree services) w = (u, w')"
    and "\<forall>service i. has_target s (dw_rec w) service i \<longrightarrow> i \<in> routed_indexes (run_pools w) service"
  shows "\<exists>es. wd_log w' = wd_log w @ es \<and> (\<forall>y \<in> set es. \<forall>c. touches c (fst y) \<longrightarrow> stray x s (dw_rec w) tree c)"
  using assms
proof (induction services arbitrary: w)
  case (Cons service services)
  obtain found w1 w2 where run: "run_state (list_live (dx_base x) (env_App (dw_rec w)) (env_Name (dw_rec w)) service) w = (found, w1)"
    "run_state (case found of Inl _ \<Rightarrow> State_Monad.return ()
       | Inr lv \<Rightarrow> clean_replicas x m tree service (routed_indexes (run_pools w) service) (numbered lv)) w1 = ((), w2)"
    "run_state (clean_services x m tree services) w2 = (u, w')"
    using Cons.prems(1) by (auto simp: the_rec_def run_the_run elim!: bind_runE)
  have place1: "place w1 = place w" by (rule presD[OF place_calls(6) run(1)])
  have place2: "place w2 = place w1" using run(2) by (cases found) (auto dest: presD[OF place_clean_replicas])
  obtain es1 where es1: "wd_log w1 = wd_log w @ es1" "\<forall>y \<in> set es1. calm (fst y)"
    using logsD[OF logs_list_live[where P = calm] run(1)] by (auto simp: calm_def touches_def)
  obtain es2 where es2: "wd_log w2 = wd_log w1 @ es2" "\<forall>y \<in> set es2. \<forall>c. touches c (fst y) \<longrightarrow> stray x s (dw_rec w) tree c"
  proof (cases found)
    case (Inl e)
    then show thesis using run(2) that[of "[]"] by simp
  next
    case (Inr lv)
    have lv: "lv = sort_key re_index (live_of (env_App (dw_rec w)) (env_Name (dw_rec w)) service (an_containers (dx_base x) (wd_log w) service))"
      by (rule list_live_Inr[OF run(1)[unfolded Inr]])
    have strays: "stray x s (dw_rec w) tree c" if "one \<in> set (numbered lv)" "re_container one = c" "re_index one \<notin> routed_indexes (run_pools w) service" "re_tree one = tree" for one c
      unfolding stray_def using that Cons.prems(2) by (intro exI[of _ service] exI[of _ "wd_log w"] exI[of _ one]) (auto simp: lv numbered_def)
    have "run_state (clean_replicas x m tree service (routed_indexes (run_pools w) service) (numbered lv)) w1 = ((), w2)" using run(2) Inr by simp
    from logsD[OF logs_clean_replicas this] obtain es where "wd_log w2 = wd_log w1 @ es"
      "\<forall>y \<in> set es. \<forall>c. touches c (fst y) \<longrightarrow> (\<exists>one \<in> set (numbered lv). re_container one = c \<and> re_index one \<notin> routed_indexes (run_pools w) service \<and> re_tree one = tree)"
      by blast
    then show thesis using strays by (intro that[of es]) blast+
  qed
  have same: "run_pools w2 = run_pools w" "dw_rec w2 = dw_rec w" using place1 place2 by (simp_all add: place_def)
  obtain es3 where es3: "wd_log w' = wd_log w2 @ es3" "\<forall>y \<in> set es3. \<forall>c. touches c (fst y) \<longrightarrow> stray x s (dw_rec w) tree c"
    using Cons.IH[OF run(3)] Cons.prems(2) same by auto
  show ?case using es1 es2 es3 by (intro exI[of _ "es1 @ es2 @ es3"]) (auto simp: calm_def)
qed simp

section \<open>Resuming spares what is in use\<close>

lemma read_release_run:
  assumes "run_state (read_release x i) w = (Inr rel, w')"
  shows "dw_rec w' = dw_rec w" "dw_db w' = dw_db w" "wd_store w' = wd_store w"
    "\<forall>r. rel = Some r \<longrightarrow> fst r \<in> set (rd_releases (dw_db w)) \<and> rel_ID (fst r) = i"
proof -
  have same: "i \<noteq> 0 \<longrightarrow> w' = w\<lparr>wd_log := wd_log w @ [(CallDeploy (DeployRead ''release''), None)]\<rparr> \<and> releaseOf (dx_decoder x) (dw_db w) i = Inr rel" "i = 0 \<longrightarrow> w' = w \<and> rel = None"
    using assms by (auto simp: read_release_def and_then_Inr dattempt_def acting_def attempt_Inr elim!: bind_runE split: sum.splits)
  then show "dw_rec w' = dw_rec w" "dw_db w' = dw_db w" "wd_store w' = wd_store w" by (cases "i = 0"; simp)+
  show "\<forall>r. rel = Some r \<longrightarrow> fst r \<in> set (rd_releases (dw_db w)) \<and> rel_ID (fst r) = i"
    using same by (cases "i = 0")
      (auto simp: releaseOf_def Release_def releaseFromRow_def map_ok_Inr find_Some_iff split: option.splits if_splits)
qed

lemma calm_resume_parts: "logs (read_release x i) calm" "logs (plan_again x rel) calm" "logs (envByID x i) calm" "logs (endResumed x row reason) calm"
  "logs (takeOverWatch x) calm" "logs the_rec calm"
proof -
  show "logs the_rec calm" unfolding the_rec_def by (rule logs_State) auto
qed (unfold read_release_def plan_again_def envByID_def endResumed_def takeOverWatch_def,
  (intro logs_rules logs_State calm_small calm_rules; auto)+)

lemma calm_read_pools: "logs (read_pools x m rec cfg) calm"
proof -
  have "logs (resume_pools x rec cfg ones pools n) calm" for ones pools n
    by (induction x rec cfg ones pools n rule: resume_pools.induct) (auto intro!: logs_rules logs_State simp: calm_def touches_def)
  then show ?thesis unfolding read_pools_def fillRoutes_def by (intro logs_rules logs_State calm_small calm_rules) auto
qed

lemma calm_resumeRun: "logs (resumeRun x m conf row) calm"
  unfolding resumeRun_def by (intro logs_rules calm_resume_parts calm_read_pools)

lemma place_pushPools: "pres place (pushPools x m)"
proof -
  have now: "pres place (now a)" for a unfolding now_def by (intro pres_bind pres_return place_small)
  have rows: "pres place (target_rows a i reps)" for a i reps by (induction reps) (auto intro!: pres_return pres_bind now)
  have set: "pres place (set_targets a t one ts)" for a t one ts
    unfolding set_targets_def by (intro pres_and_then place_calls) (auto simp: pres_def place_def split: sum.splits)
  have all: "pres place (record_all a ones reps)" for a ones reps by (induction ones) (auto intro!: pres_return pres_bind pres_and_then now rows set)
  have "pres place (recordTargets a m' r reps)" for a m' r reps unfolding recordTargets_def by (intro pres_if pres_return all)
  then have "pres place (record_pools x m ps)" for ps by (induction ps) (auto intro!: pres_return pres_and_then)
  then show ?thesis unfolding pushPools_def pushRoutes_def by (intro pres_bind pres_acting pres_and_then pres_if pres_return place_small place_calls)
qed

lemma place_fillRoutes: "pres place (fillRoutes x)"
  unfolding fillRoutes_def by (intro pres_bind pres_if pres_return place_small place_calls place_set_d) simp

lemma dattempt_Inr: "run_state (dattempt x c) w = (Inr u, w') \<Longrightarrow> w' = w\<lparr>wd_log := wd_log w @ [(CallDeploy c, None)]\<rparr>"
  by (auto simp: dattempt_def acting_def attempt_Inr elim!: bind_runE split: sum.splits)

lemma read_pools_covers:
  assumes "run_state (read_pools x m rec cfg) w = (Inr u, w')"
  shows "\<forall>service i. has_target (wd_store w) rec service i \<longrightarrow> i \<in> routed_indexes (run_pools w') service"
    "dw_rec w' = dw_rec w" "dd_Release (dr_d (dw_run w')) = dd_Release (dr_d (dw_run w))"
proof -
  let ?w1 = "w\<lparr>wd_log := wd_log w @ [(CallDeploy DeployRoutes, None)]\<rparr>"
  let ?ones = "RoutesOfEnv (wd_store w) (env_ID rec)"
  obtain res w2 where run: "run_state (resume_pools x rec cfg ?ones [] False) ?w1 = (Inr res, w2)"
    "run_state (do { _ \<leftarrow> fillRoutes x; (if snd res then ignore (pushPools x m) else State_Monad.return ()) }) (w2\<lparr>dw_run := (dw_run w2)\<lparr>dr_pools := fst res\<rparr>\<rparr>) = ((), w')"
  proof -
    obtain w1 where w1: "run_state (dattempt x DeployRoutes) w = (Inr (), w1)" and rest: "run_state (do {
       ones \<leftarrow> State (\<lambda>w. (RoutesOfEnv (wd_store w) (env_ID rec), w));
       and_then (resume_pools x rec cfg ones [] False) (\<lambda>res. do {
         _ \<leftarrow> set_run (\<lambda>r. r\<lparr>dr_pools := fst res\<rparr>);
         _ \<leftarrow> fillRoutes x;
         _ \<leftarrow> (if snd res then ignore (pushPools x m) else State_Monad.return ());
         State_Monad.return (Inr ()) }) }) w1 = (Inr u, w')"
      using assms unfolding read_pools_def and_then_Inr by auto
    have "w1 = ?w1" by (rule dattempt_Inr[OF w1])
    then show thesis using rest that by (auto simp: and_then_Inr set_run_def bind_run split: if_splits)
  qed
  have "pres place (do { _ \<leftarrow> fillRoutes x; (if snd res then ignore (pushPools x m) else State_Monad.return ()) })"
    by (intro pres_bind pres_if pres_return pres_ignore place_fillRoutes place_pushPools)
  from presD[OF this run(2)] have place: "run_pools w' = fst res" "dw_rec w' = dw_rec w2" "dd_Release (dr_d (dw_run w')) = dd_Release (dr_d (dw_run w2))"
    by (simp_all add: place_def)
  have read: "pres place (State (\<lambda>w. (g w, w)))" for g :: "deploy_world \<Rightarrow> 'g" by (auto simp: pres_def)
  have "pres place (resume_pools x rec cfg ones pools n)" for ones pools n
    by (induction x rec cfg ones pools n rule: resume_pools.induct)
      (auto intro!: pres_return pres_and_then pres_bind pres_acting place_calls read)
  from presD[OF this run(1)] have "dw_rec w2 = dw_rec w" "dd_Release (dr_d (dw_run w2)) = dd_Release (dr_d (dw_run w))" by (simp_all add: place_def)
  then show "dw_rec w' = dw_rec w" "dd_Release (dr_d (dw_run w')) = dd_Release (dr_d (dw_run w))" using place by simp_all
  obtain pools' n' where res: "res = (pools', n')" by (cases res)
  note covers = resume_pools_routed[OF run(1)[unfolded res]]
  show "\<forall>service i. has_target (wd_store w) rec service i \<longrightarrow> i \<in> routed_indexes (run_pools w') service"
    using covers by (auto simp: has_target_def place(1) res split: option.splits)
qed


lemma resumeRun_covers:
  assumes "run_state (resumeRun x m conf row) w = (Inr u, w')"
  shows "\<forall>service i. has_target (wd_store w) (dw_rec w) service i \<longrightarrow> i \<in> routed_indexes (run_pools w') service"
    "dw_rec w' = dw_rec w"
    "\<forall>r. dd_Release (dr_d (dw_run w')) = Some r \<longrightarrow> fst r \<in> set (rd_releases (dw_db w)) \<and> rel_ID (fst r) = dep_ReleaseID row"
proof -
  obtain rel w1 prior w2 where rel: "run_state (read_release x (dep_ReleaseID row)) w = (Inr rel, w1)"
    and prior: "run_state (read_release x (dep_FromReleaseID row)) w1 = (Inr prior, w2)"
    and rest: "run_state (do { rec \<leftarrow> the_rec;
       (case conf rec rel of Inl e \<Rightarrow> State_Monad.return (Inl e)
        | Inr cfg \<Rightarrow> do { _ \<leftarrow> set_run (\<lambda>_. new_run row rel prior cfg); _ \<leftarrow> plan_again x rel; read_pools x m rec cfg }) }) w2 = (Inr u, w')"
    using assms unfolding resumeRun_def and_then_Inr by blast
  note same = read_release_run[OF rel] read_release_run[OF prior]
  obtain cfg w3 where again: "run_state (plan_again x rel) (w2\<lparr>dw_run := new_run row rel prior cfg\<rparr>) = ((), w3)"
    and pools: "run_state (read_pools x m (dw_rec w2) cfg) w3 = (Inr u, w')"
    using rest by (auto simp: the_rec_def set_run_def bind_run split: sum.splits prod.splits)
  have kept: "pres (\<lambda>w. (wd_store w, dw_rec w, dd_Release (dr_d (dw_run w)))) (plan_again x rel)"
    unfolding plan_again_def set_run_def dattempt_def acting_def attempt_def the_log_def ask_def
    by (intro pres_rules pres_State) (auto simp: Let_def)
  from presD[OF kept again] have w3: "wd_store w3 = wd_store w2" "dw_rec w3 = dw_rec w2" "dd_Release (dr_d (dw_run w3)) = rel"
    by (simp_all add: new_run_def)
  show "\<forall>service i. has_target (wd_store w) (dw_rec w) service i \<longrightarrow> i \<in> routed_indexes (run_pools w') service"
    using read_pools_covers(1)[OF pools] w3 same by simp
  show "dw_rec w' = dw_rec w" using read_pools_covers(2)[OF pools] w3 same by simp
  show "\<forall>r. dd_Release (dr_d (dw_run w')) = Some r \<longrightarrow> fst r \<in> set (rd_releases (dw_db w)) \<and> rel_ID (fst r) = dep_ReleaseID row"
    using read_pools_covers(3)[OF pools] w3 same by simp
qed

lemma end_unswitched_strays:
  assumes "run_state (end_unswitched x m status) w = (u, w')"
    and "\<forall>service i. has_target s (dw_rec w) service i \<longrightarrow> i \<in> routed_indexes (run_pools w) service"
  shows "\<exists>es. wd_log w' = wd_log w @ es \<and> (\<forall>y \<in> set es. \<forall>c. touches c (fst y) \<longrightarrow>
    (\<exists>rel. dd_Release (dr_d (dw_run w)) = Some rel \<and> stray x s (dw_rec w) (ShortTree (rel_Tree (fst rel))) c))"
proof -
  define first where "first = do {
     _ \<leftarrow> dstep x StepRollback StepOK;
     t \<leftarrow> dnow x;
     set_d (\<lambda>d. d\<lparr>dd_Status := DeployRolledBack, dd_Reason := dx_why x (WhyRestarted status), dd_FinishedAt := t\<rparr>) }"
  obtain w1 w2 where run: "run_state first w = ((), w1)" "run_state (cleanStrays x m) w1 = ((), w2)" "run_state (finish x) w2 = (u, w')"
    using assms(1) unfolding end_unswitched_def first_def by (auto elim!: bind_runE simp: bind_run)
  have calm: "logs first calm" unfolding first_def by (intro logs_rules calm_small calm_rules)
  have "pres place first" unfolding first_def by (intro pres_bind place_dstep place_calls place_set_d) simp
  from presD[OF this run(1)] have same: "run_pools w1 = run_pools w" "dw_rec w1 = dw_rec w" "dd_Release (dr_d (dw_run w1)) = dd_Release (dr_d (dw_run w))"
    by (simp_all add: place_def)
  obtain es1 where es1: "wd_log w1 = wd_log w @ es1" "\<forall>y \<in> set es1. calm (fst y)" using logsD[OF calm run(1)] by auto
  obtain es3 where es3: "wd_log w' = wd_log w2 @ es3" "\<forall>y \<in> set es3. calm (fst y)" using logsD[OF calm_rules(4) run(3)] by auto
  obtain es2 where es2: "wd_log w2 = wd_log w1 @ es2" "\<forall>y \<in> set es2. \<forall>c. touches c (fst y) \<longrightarrow>
    (\<exists>rel. dd_Release (dr_d (dw_run w)) = Some rel \<and> stray x s (dw_rec w) (ShortTree (rel_Tree (fst rel))) c)"
  proof (cases "dd_Release (dr_d (dw_run w))")
    case None
    then show thesis using run(2) same that[of "[]"] by (auto simp: cleanStrays_def run_the_run bind_run)
  next
    case (Some rel)
    let ?tree = "ShortTree (rel_Tree (fst rel))"
    show thesis
    proof (cases "?tree = []")
      case True
      then show thesis using run(2) same Some that[of "[]"] by (auto simp: cleanStrays_def run_the_run bind_run Let_def)
    next
      case False
      then have "run_state (clean_services x m ?tree (release_Services rel)) w1 = ((), w2)"
        using run(2) same Some by (auto simp: cleanStrays_def run_the_run bind_run Let_def)
      from clean_services_strays[OF this, of s] obtain es where "wd_log w2 = wd_log w1 @ es" "\<forall>y \<in> set es. \<forall>c. touches c (fst y) \<longrightarrow> stray x s (dw_rec w) ?tree c"
        using assms(2) same by auto
      then show thesis using that[of es] Some by blast
    qed
  qed
  show ?thesis using es1 es2 es3 by (intro exI[of _ "es1 @ es2 @ es3"]) (auto simp: calm_def)
qed

text \<open>No container is touched but where a deploy that had not switched is ended.\<close>

lemma resume_calm:
  assumes "run_state (resume x m conf row) w = (r, w')"
    and "\<not> (\<exists>rec w1 w2. run_state (envByID x (dep_EnvID row)) w = (Inr (Some rec), w1) \<and> run_state (resumeRun x m conf row) (w1\<lparr>dw_rec := rec\<rparr>) = (Inr (), w2) \<and>
      dep_Status row \<noteq> DeployWatching)"
  shows "\<exists>es. wd_log w' = wd_log w @ es \<and> (\<forall>y \<in> set es. calm (fst y))"
proof -
  let ?n = "and_then (envByID x (dep_EnvID row)) (\<lambda>found.
     case found of
       None \<Rightarrow> and_then (endResumed x row (dx_why x WhyDestroyed)) (\<lambda>_. State_Monad.return (Inr None))
     | Some rec \<Rightarrow> do {
         _ \<leftarrow> State (\<lambda>w. ((), w\<lparr>dw_rec := rec\<rparr>));
         and_then (resumeRun x m conf row) (\<lambda>_.
           if dep_Status row \<noteq> DeployWatching then State_Monad.return (Inr None)
           else do { run \<leftarrow> takeOverWatch x; State_Monad.return (Inr (Some run)) }) })"
  have "logs ?n calm" by (intro logs_rules logs_State calm_resume_parts calm_resumeRun) auto
  moreover have "run_state ?n w = (r, w')"
  proof -
    obtain found w1 where found: "run_state (envByID x (dep_EnvID row)) w = (found, w1)" by fastforce
    have no: "run_state (resumeRun x m conf row) (w1\<lparr>dw_rec := rec\<rparr>) \<noteq> (Inr (), w2)" if "found = Inr (Some rec)" "dep_Status row \<noteq> DeployWatching" for rec w2
      using assms(2) found that by blast
    show ?thesis using assms(1) found no unfolding resume_def and_then_def bind_run
      by (auto split: sum.splits option.splits if_splits simp: bind_run)
  qed
  ultimately show ?thesis by (blast dest: logsD)
qed

text \<open>C5: Whatever fails, resuming a deploy after a restart stops or removes a container only where the deploy had not switched the traffic yet, and only
  containers of the release the deploy was for, of the environment it was for, whose replica is given no traffic: no target of the first route of its
  service, active, held or draining, names it. A deploy that is watched again has no container stopped.
\<close>

theorem resume_spares_routed:
  assumes "run_state (resume x m conf row) w = (r, w')"
  shows "\<exists>es. wd_log w' = wd_log w @ es \<and> (\<forall>y \<in> set es. \<forall>c. touches c (fst y) \<longrightarrow> dep_Status row \<noteq> DeployWatching \<and>
    (\<exists>rec \<in> set (rows (rd_envs (dw_db w))). \<exists>rel \<in> set (rd_releases (dw_db w)). env_ID rec = dep_EnvID row \<and> rel_ID rel = dep_ReleaseID row \<and>
       stray x (wd_store w) rec (ShortTree (rel_Tree rel)) c))"
proof -
  let ?allowed = "\<lambda>c. dep_Status row \<noteq> DeployWatching \<and>
    (\<exists>rec \<in> set (rows (rd_envs (dw_db w))). \<exists>rel \<in> set (rd_releases (dw_db w)). env_ID rec = dep_EnvID row \<and> rel_ID rel = dep_ReleaseID row \<and>
       stray x (wd_store w) rec (ShortTree (rel_Tree rel)) c)"
  show ?thesis
  proof (cases "\<exists>rec w1 w2. run_state (envByID x (dep_EnvID row)) w = (Inr (Some rec), w1) \<and> run_state (resumeRun x m conf row) (w1\<lparr>dw_rec := rec\<rparr>) = (Inr (), w2) \<and>
      dep_Status row \<noteq> DeployWatching")
    case True
    then obtain rec w1 w2 where env: "run_state (envByID x (dep_EnvID row)) w = (Inr (Some rec), w1)"
      and again: "run_state (resumeRun x m conf row) (w1\<lparr>dw_rec := rec\<rparr>) = (Inr (), w2)" and st: "dep_Status row \<noteq> DeployWatching" by blast
    have last: "run_state (end_unswitched x m (dep_Status row)) w2 = ((), w')"
      using assms env again st by (simp add: resume_def and_then_def bind_run)
    have w1: "w1 = w\<lparr>wd_log := wd_log w @ [(CallDeploy (DeployRead ''envs''), None)]\<rparr>" "find (\<lambda>r. env_ID r = dep_EnvID row) (rows (rd_envs (dw_db w))) = Some rec"
      using env by (auto simp: envByID_def and_then_Inr dest!: dattempt_Inr)
    then have rec: "rec \<in> set (rows (rd_envs (dw_db w)))" "env_ID rec = dep_EnvID row" by (auto simp: find_Some_iff)
    note covers = resumeRun_covers[OF again, simplified]
    obtain es1 where es1: "wd_log w2 = wd_log w1 @ es1" "\<forall>y \<in> set es1. calm (fst y)" using logsD[OF calm_resumeRun again] by auto
    obtain es2 where es2: "wd_log w' = wd_log w2 @ es2" "\<forall>y \<in> set es2. \<forall>c. touches c (fst y) \<longrightarrow>
       (\<exists>rel. dd_Release (dr_d (dw_run w2)) = Some rel \<and> stray x (wd_store w) rec (ShortTree (rel_Tree (fst rel))) c)"
      using end_unswitched_strays[OF last, of "wd_store w"] covers(1,2) w1(1) by auto
    have "?allowed c" if "y \<in> set es2" "touches c (fst y)" for y c
      using es2(2) that st rec covers(3) w1(1) by fastforce
    then show ?thesis using w1(1) es1 es2(1) by (intro exI[of _ "(CallDeploy (DeployRead ''envs''), None) # es1 @ es2"]) (auto simp: calm_def touches_def)
  next
    case False
    then show ?thesis using resume_calm[OF assms] by (auto simp: calm_def)
  qed
qed

definition sample_stray_world :: deploy_world where
  "sample_stray_world = sample_start_world\<lparr>wd_store := (wd_store sample_start_world)\<lparr>es_targets := [\<lparr>et_RouteID = 1, et_Replica = 1, et_Port = 20001, et_State = TargetActive,
     et_Inflight = 0, et_UpdatedAt = 3\<rparr>]\<rparr>\<rparr>"

definition sample_stray_answers :: deploy_answers where
  "sample_stray_answers = sample_answers\<lparr>dx_base := (dx_base sample_answers)\<lparr>an_containers := \<lambda>_ _. map (\<lambda>n. \<lparr>cs_Name = n, cs_ID = n, cs_Status = ''running'',
     cs_Labels = [LabelTree \<mapsto> ''t1''], cs_Restarts = 0\<rparr>) [''caramelo-a-e-web-1'', ''caramelo-a-e-web-2'']\<rparr>\<rparr>"

definition sample_settings :: settings where
  "sample_settings = (\<lambda>_ _. Inr \<lparr>app_Name = ''a'', app_Domain = [], app_Deps = [], app_Services = [], app_Test = [], app_Deploy = None, app_Envs = [],
     app_Placement = [], app_Env = []\<rparr>)"

definition sample_resumed :: "(run_error + deployRun option) \<times> deploy_world" where
  "sample_resumed = run_state (resume sample_stray_answers sample_deployer sample_settings
     ((hd (rd_deploys sample_releases))\<lparr>dep_ReleaseID := 1, dep_Status := DeployStarting\<rparr>)) sample_stray_world"

lemma sample_resumed_removes: "(CallRemove ''caramelo-a-e-web-2'', None) \<in> set (wd_log (snd sample_resumed))"
  by code_simp

lemma sample_routed: "\<not> stray sample_stray_answers (wd_store sample_stray_world) (hd (rows (rd_envs sample_releases))) tree ''caramelo-a-e-web-1''"
proof -
  let ?env = "hd (rows (rd_envs sample_releases))"
  have env: "env_App ?env = ''a''" "env_Name ?env = ''e''" "env_ID ?env = 1" by (simp_all add: sample_releases_def Let_def)
  have one: "service = ''web'' \<and> i = 1" if name: "replicaIndexOf ''a'' ''e'' service ''caramelo-a-e-web-1'' = Some i" and i: "1 \<le> i" for service i
  proof -
    let ?n = "length (ServiceContainerName ''a'' ''e'' service) + 1"
    let ?rest = "drop ?n ''caramelo-a-e-web-1''"
    have parts: "take ?n ''caramelo-a-e-web-1'' = ServiceContainerName ''a'' ''e'' service @ ''-''" "Atoi ?rest = Some i"
      using name i by (auto simp: replicaIndexOf_def HasPrefix_def Let_def simp del: take_Cons_numeral drop_Cons_numeral take_Suc_Cons drop_Suc_Cons split: if_splits option.splits)
    have "''caramelo-a-e-web-1'' = ServiceContainerName ''a'' ''e'' service @ ''-'' @ ?rest"
      using append_take_drop_id[of ?n "''caramelo-a-e-web-1''"] unfolding parts(1) append_assoc by (rule sym)
    then obtain rest where rest: "''caramelo-a-e-web-1'' = ServiceContainerName ''a'' ''e'' service @ ''-'' @ rest" "Atoi rest = Some i" using parts(2) by blast
    then have "service @ ''-'' @ rest = ''web'' @ ''-1''" by (simp add: ServiceContainerName_def ContainerName_def NamePrefix_def)
    then have "service = ''web'' \<and> rest = ''1''" by (auto simp: append_eq_Cons_conv Cons_eq_append_conv)
    moreover have "Atoi ''1'' = Some 1" by code_simp
    ultimately show ?thesis using rest(2) by simp
  qed
  have live: "replicaIndexOf app env service (re_container r) = Some (re_index r)" if "r \<in> set (live_of app env service cs)" for app env r service cs
    using that by (induction cs) (auto split: option.splits)
  have target: "has_target (wd_store sample_stray_world) ?env ''web'' 1" by code_simp
  show ?thesis unfolding stray_def env
  proof clarify
    fix service l r
    assume "r \<in> set (live_of ''a'' ''e'' service (an_containers (dx_base sample_stray_answers) l service))" "1 \<le> re_index r"
      "re_container r = ''caramelo-a-e-web-1''" and no: "\<not> has_target (wd_store sample_stray_world) ?env service (re_index r)"
    then have "service = ''web'' \<and> re_index r = 1" using live one by metis
    then show False using no target by simp
  qed
qed

text \<open>The replica that was started is removed, and the one that serves is left alone.\<close>

theorem resume_spares_routed_witness:
  "(CallRemove ''caramelo-a-e-web-2'', None) \<in> set (wd_log (snd sample_resumed)) \<and> filter (\<lambda>y. touches ''caramelo-a-e-web-1'' (fst y)) (wd_log (snd sample_resumed)) = []"
proof -
  have run: "run_state (resume sample_stray_answers sample_deployer sample_settings
     ((hd (rd_deploys sample_releases))\<lparr>dep_ReleaseID := 1, dep_Status := DeployStarting\<rparr>)) sample_stray_world = (fst sample_resumed, snd sample_resumed)"
    by (simp add: sample_resumed_def)
  have world: "wd_log sample_stray_world = []" "dw_db sample_stray_world = sample_releases" "rows (rd_envs sample_releases) = [hd (rows (rd_envs sample_releases))]"
    by (simp_all add: sample_stray_world_def sample_start_world_def sample_world_def sample_releases_def Let_def)
  then have "rec = hd (rows (rd_envs sample_releases))" if "rec \<in> set (rows (rd_envs (dw_db sample_stray_world)))" for rec using that by (metis list.set_cases set_ConsD empty_iff empty_set)
  then show ?thesis using resume_spares_routed[OF run] world(1) sample_resumed_removes sample_routed by (fastforce simp: filter_empty_conv)
qed

end
