(* ===== verification/Spec2Isabelle.thy ===== *)
theory Spec2Isabelle
  imports EnvCreate PortLayout EdgePick EdgeCounts EdgeRouter ShellWords RemoteTarget VaultStore Dotenv
    FleetDirectory FleetChoose FleetTokens VpnAddr EnvNetwork EnvExpose Rollout HealthLoop
    ConfigValid EnvSecrets ReleaseStore DeployRollback DeployLimits DeployResume
begin

text \<open>
  \<^bold>\<open>A verification of the core of caramelo\<close>

  caramelo runs the environments of applications on a fleet of machines. A daemon on each machine keeps its state
  in a database (\<^verbatim>\<open>src/internal/state\<close>), starts and stops environments (\<^verbatim>\<open>src/internal/env\<close>) with the port blocks
  of \<^verbatim>\<open>src/internal/ports\<close> and the addresses of \<^verbatim>\<open>src/internal/vpn\<close>, keeps secrets (\<^verbatim>\<open>src/internal/vault\<close>), and tells
  the edge (\<^verbatim>\<open>src/internal/edge\<close>) which host is served by which replicas. One machine is the hub of a fleet
  (\<^verbatim>\<open>src/internal/fleet\<close>, \<^verbatim>\<open>src/internal/sshapi\<close>): the others join it with a token and tell it what they run. Commands
  travel over ssh (\<^verbatim>\<open>src/internal/remote\<close>) and are run by tasks (\<^verbatim>\<open>src/internal/task\<close>).

  \<^bold>\<open>The theories, and the code they model\<close>

  \<^item> \<open>Prelude\<close>: results with an error, stable sorting, Go maps filled from lists, and the interfaces \<open>weak_order\<close> (the
    comparison functions of the source) and \<open>first_fit\<close> (the allocators of the source). \<open>GoStrings\<close>: the functions of
    Go's \<^verbatim>\<open>strings\<close> and \<^verbatim>\<open>strconv\<close> the source calls, on strings of bytes.
  \<^item> \<open>EnvStore\<close> (\<^verbatim>\<open>state/env.go\<close>): the table of environments with its constraints. \<open>Ports\<close> (\<^verbatim>\<open>ports/ports.go\<close>): the
    allocator of port blocks. \<open>EnvCreate\<close> (\<^verbatim>\<open>env/create.go\<close>, \<open>createRow\<close>): the loop that allocates and inserts, and the
    step relation \<open>env_step\<close> of processes that create, change and destroy environments in any interleaving.
    \<open>PortLayout\<close> (\<^verbatim>\<open>env/views.go\<close>): which port of a block belongs to what.
  \<^item> \<open>EnvNames\<close> (\<^verbatim>\<open>env/names.go\<close>): names of containers, networks and volumes. \<open>VpnAddr\<close> (\<^verbatim>\<open>vpn/addr.go\<close>): the
    allocator of addresses. \<open>VpnZone\<close> (\<^verbatim>\<open>vpn/names.go\<close>, \<^verbatim>\<open>vpn/resolver.go\<close>): names and the resolver. \<open>NetPrefix\<close>: the
    part of Go's \<^verbatim>\<open>net/netip\<close> they use.
  \<^item> \<open>ConfigApp\<close> (\<^verbatim>\<open>config/edge.go\<close>, the types of \<^verbatim>\<open>config\<close>): services, which of them are exposed, and their public names.
    \<open>Float64\<close>: the part of Go's floating-point arithmetic and of its parsers of numbers and durations the settings need.
    \<open>ConfigDeploy\<close> (\<^verbatim>\<open>config/deploy.go\<close>, \<^verbatim>\<open>config/fleet.go\<close>): limits, sizes, placement, the settings of one environment and their checks.
    \<open>ConfigParse\<close> (\<^verbatim>\<open>config/config.go\<close>, \<^verbatim>\<open>config/service.go\<close> and the readers of the other files): from the tree of the YAML library to an app,
    and its checks. \<open>ConfigKnown\<close> (\<^verbatim>\<open>config/known.go\<close>): the images the program knows. \<open>ConfigValid\<close>: what a file that was read is
    good for. \<open>ConfigNumbers\<close>: sizes and rates. \<open>ConfigExpand\<close> (\<^verbatim>\<open>config/expand.go\<close>, \<^verbatim>\<open>config/view.go\<close>): references in variables.
    \<open>EnvSecrets\<close> (\<^verbatim>\<open>env/secrets.go\<close>): variables with secrets, and passwords of dependencies.
  \<^item> \<open>EnvNetwork\<close> (\<^verbatim>\<open>env/vpn.go\<close>): the address and the private names of an environment.
  \<^item> \<open>EdgeStore\<close> (\<^verbatim>\<open>state/edge.go\<close>): the tables of routes and targets. \<open>EnvReplicas\<close> (\<^verbatim>\<open>state/service.go\<close>,
    \<^verbatim>\<open>env/replicas.go\<close>): the table of services, and the replicas a machine runs.
  \<^item> \<open>EnvWorld\<close>: programs that call the container runtime, the database and the edge. \<open>Rollout\<close> (\<^verbatim>\<open>env/rollout.go\<close>):
    replacing the replicas of a service. \<open>HealthLoop\<close> (\<^verbatim>\<open>env/health_loop.go\<close>): taking failing replicas out of the pools
    and putting them back. \<open>EnvExpose\<close> (\<^verbatim>\<open>env/expose.go\<close>, \<^verbatim>\<open>env/via.go\<close>): hosts, routes and the table pushed to the edge.
  \<^item> \<open>ReleaseStore\<close> (\<^verbatim>\<open>state/release.go\<close>, pruning of \<^verbatim>\<open>release/builder.go\<close>, the target of a rollback of \<^verbatim>\<open>env/deploy.go\<close>): releases and
    deploys in the database. \<open>DeployRun\<close> (\<^verbatim>\<open>env/deploy_run.go\<close>, \<^verbatim>\<open>env/deploy_watch.go\<close>): the pools of a deploy, promoting, rolling back,
    failing, and the counts of the watch. \<open>DeployWatching\<close>: the loops of the watch. \<open>DeployRollback\<close>: the order of the calls of a rollback.
    \<open>DeployLimits\<close>: the limit on the rate of errors. \<open>EnvRoutes\<close> (\<^verbatim>\<open>planRoutes\<close> of \<^verbatim>\<open>env/expose.go\<close>): the routes of a plan. \<open>DeployStart\<close>
    (\<^verbatim>\<open>env/deploy_run.go\<close>): a deploy from its row in the database to the switch, and all of it together; \<open>DeployOrder\<close>: the order of its calls;
    \<open>DeployCleanup\<close>: what is left when it fails; \<open>DeployResume\<close> (\<^verbatim>\<open>env/deploy_watch.go\<close>): what becomes of it after a restart.
  \<^item> \<open>EdgeTable\<close> (\<^verbatim>\<open>edge/edge.go\<close>): targets, routes and tables. \<open>EdgePool\<close> (\<^verbatim>\<open>edge/pool.go\<close>): the pool of targets of a
    host; \<open>EdgePick\<close> its round robin, \<open>EdgeDrain\<close> its step relation and draining, \<open>EdgeCounts\<close> (\<^verbatim>\<open>edge/counts.go\<close>) its
    counters. \<open>EdgeBroker\<close> (\<^verbatim>\<open>edge/broker.go\<close>): the events. \<open>EdgeRouter\<close> (\<^verbatim>\<open>edge/router.go\<close>): all pools together.
  \<^item> \<open>ShellWords\<close> (\<^verbatim>\<open>remote/quote.go\<close>, \<^verbatim>\<open>task/dispatch.go\<close>) and \<open>RemoteTarget\<close> (\<^verbatim>\<open>remote/target.go\<close>): command lines and
    addresses of machines.
  \<^item> \<open>Vault\<close> (\<^verbatim>\<open>vault/vault.go\<close>, \<^verbatim>\<open>state/vault.go\<close>), \<open>VaultStore\<close> (\<^verbatim>\<open>vault/store.go\<close>) and \<open>Dotenv\<close>
    (\<^verbatim>\<open>vault/envfile.go\<close>): secrets, their precedence, their export and import.
  \<^item> \<open>FleetMachine\<close> (\<^verbatim>\<open>fleet/machine.go\<close>, \<^verbatim>\<open>fleet/subnet.go\<close>), \<open>FleetDirectory\<close> (\<^verbatim>\<open>fleet/announce.go\<close>,
    \<^verbatim>\<open>state/fleet.go\<close>), \<open>FleetChoose\<close> (\<^verbatim>\<open>fleet/placement.go\<close>, \<^verbatim>\<open>fleet/choose.go\<close>), \<open>FleetJoin\<close> and \<open>FleetTokens\<close>
    (\<^verbatim>\<open>fleet/token.go\<close>, \<^verbatim>\<open>sshapi/fleet_machines.go\<close>): machines, the directory of what they run, placement, and joining.

  \<^bold>\<open>How state, errors and effects are modelled\<close>

  A struct is a record with the fields of the source, an enumeration of strings a datatype or, where the code accepts
  any string, a string. A method that changes its receiver returns it updated. A table of the database is a list of
  rows with the constraints of \<^verbatim>\<open>state/migrations\<close> checked by the operations, as the database checks them. A result
  with an error is a sum; each error of the source is a constructor with the values the message prints. Times are
  numbers of nanoseconds given as arguments. Go's maps are partial functions or association lists; where the source
  ranges over a map, the result does not depend on the order. A mutex makes an operation atomic; operations of several
  processes interleave in the step relations (\<open>env_step\<close>, the pool steps of \<open>EdgeDrain\<close>, the broker steps, the joins of
  \<open>FleetTokens\<close>). Code that is not in the repository is an argument: the cipher of the vault (with the law that opening a
  sealed value gives it back), the hash of a token, the probe that binds a port, the parser of \<^verbatim>\<open>netip\<close>, the configured ssh
  aliases, the container runtime. A function that calls the runtime, the database and the edge is a program of the state
  monad (\<open>EnvWorld\<close>): it appends every call to a log, and the answer to a call is an argument that may depend on all calls before, so
  that a theorem about the log holds for every behaviour of the outside.

  \<^bold>\<open>What the theorems show\<close>

  The properties are the theorems after a text that begins with their number C1, C2, and so on. In groups:
  \<^item> the first-fit allocators (blocks, subnets, addresses) return the lowest free candidate exactly when there is one;
    they are interpretations of \<open>first_fit\<close> in \<open>Prelude\<close>;
  \<^item> under any interleaving the blocks of environments stay disjoint, because the allocator looks and the table checks;
    a layout of a block gives every replica a port of its own;
  \<^item> tables, pools and the router: the table is a map, picks are round robin, drains end exactly once, counts and event
    streams have no gaps;
  \<^item> round trips: command lines, targets, secrets and env files are read back as written, with the exceptions proved;
  \<^item> the directory of the fleet, placement and joining do what they promise, with the exception proved for
    interleaved joins.
  \<^item> a rollout stops an old replica only after the new ones are healthy, the pools are flipped and the drain is waited for,
    whatever fails on the way; the health loop takes a replica out and puts it back at the right probes; the table a
    machine pushes is accepted by its edge and says what the database says;
  \<^item> a deploy puts new replicas behind the edge only when all of them are ready and its commands have succeeded, takes away no container
    that was running, and stops what it has started when it fails; a watch promotes only what it should, comes to an end, and compares whole percents exactly; a rollback puts the old
    replicas back before it stops the new ones; after a restart no replica that a target names as in use is stopped; the tables of releases and deploys stay consistent; pruning spares what is needed;
  \<^item> a configuration file that is accepted gives a well-formed app in every environment, whose variables can be expanded;
    the values of secrets do not reach the database, and a release does not run with default passwords;
  \<^item> public and private names: what they resolve to, when they are unique, and when they are not.
  Where the code does not do what it means to, a theorem states what it does, and the manifest lists it as a finding.

  \<^bold>\<open>Bounds\<close>

  Loops of the source are recursion with a termination proof, except for the watch of a deploy, which runs with fuel, one unit for a
  round; it is proved that enough of it, as many rounds as twice the window takes, gives a result. \<open>createRow\<close> retries
  \<open>allocAttempts\<close> times as the source does. The loops over addresses end because the words grow to the last address.

  \<^bold>\<open>Not modelled\<close>

  Packet and file I/O, the container runtime, git, the wire formats (JSON, YAML, DNS, the protocol of the edge's
  control socket), the command line's flags and its printing, and the firewall tools: they have no logic of their own
  that could be stated without them. Of an environment the
  merging of the plan (\<^verbatim>\<open>env/up.go\<close>), the commands \<open>Expose\<close> and \<open>Unexpose\<close> as a whole and the engine of \<^verbatim>\<open>task/engine.go\<close> are left.
\<close>

end
